(* ===== verification/Base.thy ===== *)
theory Base
  imports Complex_Main "HOL-Library.AList"
begin

text \<open>
  Shared vocabulary of the MTSC verification library.

  \<^item> Python exceptions as values (\<open>pyexc\<close>); a fallible operation returns \<open>pyexc + 'a\<close>.
  \<^item> Python dictionaries as association lists in insertion order (\<open>dict\<close>), with the locale
    \<open>py_dict\<close> that states what the components rely on and its interpretation.
  \<^item> Python slices with their index clipping, strict \<open>zip\<close>, and loops that may raise.
  \<^item> Ceiling division: \<open>cdiv\<close> comes from vLLM, which is not part of this repository, so it is an
    argument of every definition that uses it; \<open>ceil_div\<close> is its documented behaviour.

  A Python set that the code iterates over is a list here (any enumeration of the set);
  a set used only for membership tests, insertion and removal is a HOL set.
\<close>

section \<open>Collections of proof hints\<close>

named_theorems dict_simps \<open>reading a dictionary after an update\<close>
named_theorems slice_simps \<open>Python slices with known bounds\<close>

section \<open>Exceptions\<close>

datatype pyexc =
    ValueError string
  | KeyError string
  | IndexError
  | TypeError string
  | RuntimeError string
  | AssertionError
  | AssertionMsg string
  | OverflowError
  | TimeoutError string
  | CancelledError
  | ZeroDivisionError

text \<open>\<open>str(exc)\<close>; the fixed texts are CPython's; a key is quoted.\<close>

fun exc_text :: "pyexc \<Rightarrow> string" where
  "exc_text (ValueError s) = s"
| "exc_text (KeyError s) = CHR 0x27 # s @ [CHR 0x27]"
| "exc_text IndexError = ''list index out of range''"
| "exc_text (TypeError s) = s"
| "exc_text (RuntimeError s) = s"
| "exc_text AssertionError = []"
| "exc_text (AssertionMsg s) = s"
| "exc_text OverflowError = ''int too big to convert''"
| "exc_text (TimeoutError s) = s"
| "exc_text CancelledError = []"
| "exc_text ZeroDivisionError = ''integer modulo by zero''"

type_synonym 'a result = "pyexc + 'a"

text \<open>A \<open>for\<close> loop whose body may raise: the first exception ends it.\<close>

fun fold_res :: "('x \<Rightarrow> 's \<Rightarrow> 'e + 's) \<Rightarrow> 'x list \<Rightarrow> 's \<Rightarrow> 'e + 's" where
  "fold_res f [] s = Inr s"
| "fold_res f (x # xs) s = (case f x s of Inl e \<Rightarrow> Inl e | Inr s' \<Rightarrow> fold_res f xs s')"

lemma fold_res_inv:
  assumes "fold_res f xs s = Inr s'" and "P s"
    and "\<And>x s s'. x \<in> set xs \<Longrightarrow> P s \<Longrightarrow> f x s = Inr s' \<Longrightarrow> P s'"
  shows "P s'"
  using assms
proof (induction xs arbitrary: s)
  case (Cons x xs)
  from Cons.prems(1) obtain u where u: "f x s = Inr u" "fold_res f xs u = Inr s'"
    by (auto split: sum.splits)
  then have "P u" using Cons.prems by auto
  with Cons.IH[OF u(2)] Cons.prems(3) show ?case by auto
qed simp

lemma fold_inv:
  assumes "P s" and "\<And>x s. x \<in> set xs \<Longrightarrow> P s \<Longrightarrow> P (f x s)"
  shows "P (fold f xs s)"
  using assms by (induction xs arbitrary: s) auto

lemma fold_res_append:
  "fold_res f (xs @ ys) s = (case fold_res f xs s of Inl e \<Rightarrow> Inl e | Inr s' \<Rightarrow> fold_res f ys s')"
  by (induction xs arbitrary: s) (auto split: sum.splits)

text \<open>A list comprehension whose element expression may raise.\<close>

fun map_res :: "('x \<Rightarrow> 'e + 'y) \<Rightarrow> 'x list \<Rightarrow> 'e + 'y list" where
  "map_res f [] = Inr []"
| "map_res f (x # xs) =
     (case f x of Inl e \<Rightarrow> Inl e
      | Inr y \<Rightarrow> (case map_res f xs of Inl e \<Rightarrow> Inl e | Inr ys \<Rightarrow> Inr (y # ys)))"

lemma map_res_Inr_iff:
  "map_res f xs = Inr ys \<longleftrightarrow> list_all2 (\<lambda>x y. f x = Inr y) xs ys"
proof (induction xs arbitrary: ys)
  case (Cons x xs)
  show ?case
  proof (cases "f x")
    case (Inr y)
    then show ?thesis
      using Cons.IH by (cases "map_res f xs") (auto simp: list_all2_Cons1)
  qed (auto simp: list_all2_Cons1)
qed auto

lemma map_res_total: "(\<And>x. x \<in> set xs \<Longrightarrow> \<exists>y. f x = Inr y) \<Longrightarrow> \<exists>ys. map_res f xs = Inr ys"
proof (induction xs)
  case (Cons x xs)
  obtain y where "f x = Inr y" using Cons.prems[of x] by auto
  moreover obtain ys where "map_res f xs = Inr ys" using Cons by auto
  ultimately show ?case by simp
qed simp

text \<open>\<open>zip(..., strict=True)\<close> raises when the lengths differ.\<close>

definition zip_strict :: "'a list \<Rightarrow> 'b list \<Rightarrow> ('a \<times> 'b) list result" where
  "zip_strict xs ys =
     (if length xs = length ys then Inr (zip xs ys)
      else Inl (ValueError ''zip() argument lengths differ''))"

lemma zip_strict_Inr [simp]:
  "zip_strict xs ys = Inr zs \<longleftrightarrow> length xs = length ys \<and> zs = zip xs ys"
  by (auto simp: zip_strict_def)

section \<open>Dictionaries\<close>

type_synonym ('k, 'v) dict = "('k \<times> 'v) list"

definition dict_get :: "('k, 'v) dict \<Rightarrow> 'k \<Rightarrow> 'v option" where
  "dict_get d k = map_of d k"

text \<open>\<open>d[k] = v\<close> keeps the position of an existing key and appends a new one.\<close>

definition dict_set :: "'k \<Rightarrow> 'v \<Rightarrow> ('k, 'v) dict \<Rightarrow> ('k, 'v) dict" where
  "dict_set k v d = AList.update k v d"

text \<open>\<open>d.pop(k, None)\<close> and \<open>del d[k]\<close>.\<close>

definition dict_pop :: "'k \<Rightarrow> ('k, 'v) dict \<Rightarrow> ('k, 'v) dict" where
  "dict_pop k d = AList.delete k d"

text \<open>\<open>d.setdefault(k, v)\<close>.\<close>

definition dict_setdefault :: "'k \<Rightarrow> 'v \<Rightarrow> ('k, 'v) dict \<Rightarrow> ('k, 'v) dict" where
  "dict_setdefault k v d = (case dict_get d k of None \<Rightarrow> dict_set k v d | Some _ \<Rightarrow> d)"

definition dict_keys :: "('k, 'v) dict \<Rightarrow> 'k list" where
  "dict_keys d = map fst d"

definition dict_has :: "('k, 'v) dict \<Rightarrow> 'k \<Rightarrow> bool" where
  "dict_has d k = (dict_get d k \<noteq> None)"

definition dict_wf :: "('k, 'v) dict \<Rightarrow> bool" where
  "dict_wf d = distinct (map fst d)"

text \<open>
  The interface the components use: what a read returns after a write or a removal, the
  insertion order of the keys, and the well-formedness every operation keeps.
\<close>

locale py_dict =
  fixes get :: "'d \<Rightarrow> 'k \<Rightarrow> 'v option"
    and put :: "'k \<Rightarrow> 'v \<Rightarrow> 'd \<Rightarrow> 'd"
    and pop :: "'k \<Rightarrow> 'd \<Rightarrow> 'd"
    and keys :: "'d \<Rightarrow> 'k list"
    and wf :: "'d \<Rightarrow> bool"
    and empty :: "'d"
  assumes get_empty: "get empty k = None"
    and get_put: "get (put k v d) k' = (if k' = k then Some v else get d k')"
    and get_pop: "get (pop k d) k' = (if k' = k then None else get d k')"
    and keys_get: "k \<in> set (keys d) \<longleftrightarrow> get d k \<noteq> None"
    and keys_put: "keys (put k v d) = (if k \<in> set (keys d) then keys d else keys d @ [k])"
    and keys_pop: "keys (pop k d) = filter (\<lambda>x. x \<noteq> k) (keys d)"
    and wf_empty: "wf empty"
    and wf_put: "wf d \<Longrightarrow> wf (put k v d)"
    and wf_pop: "wf d \<Longrightarrow> wf (pop k d)"
    and wf_keys: "wf d \<longleftrightarrow> distinct (keys d)"
begin

text \<open>\<open>for k in ks: d.pop(k, None)\<close> removes exactly the listed keys, in whatever order.\<close>

lemma get_pops: "get (fold pop ks d) k = (if k \<in> set ks then None else get d k)"
  by (induction ks arbitrary: d) (auto simp: get_pop)

lemma keys_pops: "keys (fold pop ks d) = filter (\<lambda>k. k \<notin> set ks) (keys d)"
  by (induction ks arbitrary: d) (auto simp: keys_pop intro: filter_cong)

lemma wf_pops: "wf d \<Longrightarrow> wf (fold pop ks d)"
  by (induction ks arbitrary: d) (auto simp: wf_pop)

lemma set_keys_put: "set (keys (put k v d)) = insert k (set (keys d))"
  by (auto simp: keys_put)

lemma set_keys_pop: "set (keys (pop k d)) = set (keys d) - {k}"
  by (auto simp: keys_pop)

lemma set_keys_pops: "set (keys (fold pop ks d)) = set (keys d) - set ks"
  by (auto simp: keys_pops)

lemma put_put_get: "get (put k v (put k w d)) = get (put k v d)"
  by (auto simp: get_put)

end

interpretation pd: py_dict dict_get dict_set dict_pop dict_keys dict_wf "[]"
proof unfold_locales
  fix k k' :: 'a and v :: 'b and d :: "('a, 'b) dict"
  show "dict_get [] k = None" by (simp add: dict_get_def)
  show "dict_get (dict_set k v d) k' = (if k' = k then Some v else dict_get d k')"
    by (simp add: dict_get_def dict_set_def update_conv)
  show "dict_get (dict_pop k d) k' = (if k' = k then None else dict_get d k')"
    by (simp add: dict_get_def dict_pop_def delete_conv)
  show "k \<in> set (dict_keys d) \<longleftrightarrow> dict_get d k \<noteq> None"
    by (simp add: dict_keys_def dict_get_def map_of_eq_None_iff)
  show "dict_keys (dict_set k v d) = (if k \<in> set (dict_keys d) then dict_keys d else dict_keys d @ [k])"
    by (simp add: dict_keys_def dict_set_def update_keys)
  show "dict_keys (dict_pop k d) = filter (\<lambda>x. x \<noteq> k) (dict_keys d)"
    by (simp add: dict_keys_def dict_pop_def AList.delete_keys removeAll_filter_not_eq)
      (metis (lifting))
  show "dict_wf []" by (simp add: dict_wf_def)
  show "dict_wf d \<Longrightarrow> dict_wf (dict_set k v d)"
    by (simp add: dict_wf_def dict_set_def distinct_update)
  show "dict_wf d \<Longrightarrow> dict_wf (dict_pop k d)"
    by (simp add: dict_wf_def dict_pop_def distinct_delete)
  show "dict_wf d \<longleftrightarrow> distinct (dict_keys d)" by (simp add: dict_wf_def dict_keys_def)
qed

lemmas dict_rules [dict_simps] =
  pd.get_empty pd.get_put pd.get_pop pd.get_pops
  pd.set_keys_put pd.set_keys_pop pd.set_keys_pops

lemma dict_has_iff: "dict_has d k \<longleftrightarrow> k \<in> set (dict_keys d)"
  by (simp add: dict_has_def pd.keys_get)

lemma dict_has_put [dict_simps]: "dict_has (dict_set k v d) k' \<longleftrightarrow> k' = k \<or> dict_has d k'"
  and dict_has_pop [dict_simps]: "dict_has (dict_pop k d) k' \<longleftrightarrow> k' \<noteq> k \<and> dict_has d k'"
  and dict_has_pops [dict_simps]: "dict_has (fold dict_pop ks d) k' \<longleftrightarrow> k' \<notin> set ks \<and> dict_has d k'"
  and dict_has_empty [dict_simps]: "\<not> dict_has [] k"
  by (auto simp: dict_has_def dict_simps)

lemma dict_get_setdefault [dict_simps]:
  "dict_get (dict_setdefault k v d) k' =
     (if k' = k then Some (case dict_get d k of None \<Rightarrow> v | Some w \<Rightarrow> w) else dict_get d k')"
  by (auto simp: dict_setdefault_def dict_simps split: option.splits)

lemma dict_has_setdefault [dict_simps]:
  "dict_has (dict_setdefault k v d) k' \<longleftrightarrow> k' = k \<or> dict_has d k'"
  by (auto simp: dict_has_def dict_simps)

lemma dict_get_Some_in: "dict_get d k = Some v \<Longrightarrow> (k, v) \<in> set d"
  by (simp add: dict_get_def map_of_SomeD)

lemma dict_in_get: "dict_wf d \<Longrightarrow> (k, v) \<in> set d \<Longrightarrow> dict_get d k = Some v"
  by (simp add: dict_get_def dict_wf_def)

lemma dict_get_eq_in: "dict_wf d \<Longrightarrow> dict_get d k = Some v \<longleftrightarrow> (k, v) \<in> set d"
  by (auto intro: dict_in_get dict_get_Some_in)

lemma dict_set_in:
  "dict_wf d \<Longrightarrow> (k', v') \<in> set (dict_set k v d) \<longleftrightarrow>
     (if k' = k then v' = v else (k', v') \<in> set d)"
  using dict_get_eq_in[of "dict_set k v d" k' v'] dict_get_eq_in[of d k' v']
  by (auto simp: pd.wf_put dict_simps split: if_splits)

lemma dict_pop_in: "(k', v') \<in> set (dict_pop k d) \<longleftrightarrow> k' \<noteq> k \<and> (k', v') \<in> set d"
  by (auto simp: dict_pop_def AList.delete_eq)

text \<open>Dictionary comprehension over the values.\<close>

definition dict_map :: "('v \<Rightarrow> 'w) \<Rightarrow> ('k, 'v) dict \<Rightarrow> ('k, 'w) dict" where
  "dict_map f d = map (\<lambda>(k, v). (k, f v)) d"

lemma dict_get_map [dict_simps]: "dict_get (dict_map f d) k = map_option f (dict_get d k)"
  by (induction d) (auto simp: dict_get_def dict_map_def)

section \<open>Slices\<close>

text \<open>Python clips a slice bound: negative bounds count from the end, then both ends are cut off.\<close>

definition slice_index :: "int \<Rightarrow> int \<Rightarrow> int" where
  "slice_index n i = (if i < 0 then max 0 (n + i) else min n i)"

definition slice_from :: "'a list \<Rightarrow> int \<Rightarrow> 'a list" where
  "slice_from xs i = drop (nat (slice_index (int (length xs)) i)) xs"

definition slice_range :: "'a list \<Rightarrow> int \<Rightarrow> int \<Rightarrow> 'a list" where
  "slice_range xs i j =
     (let n = int (length xs); a = slice_index n i; b = slice_index n j
      in take (nat (b - a)) (drop (nat a) xs))"

lemma slice_from_nonneg [slice_simps]: "0 \<le> i \<Longrightarrow> slice_from xs i = drop (nat i) xs"
  by (cases "i \<le> int (length xs)") (auto simp: slice_from_def slice_index_def min_def)

lemma slice_from_last [slice_simps]:
  "0 < w \<Longrightarrow> slice_from xs (- w) = drop (length xs - nat w) xs"
  by (auto simp: slice_from_def slice_index_def max_def nat_diff_distrib intro: arg_cong2[where f = drop])

lemma slice_range_nonneg [slice_simps]:
  assumes "0 \<le> i" and "0 \<le> j"
  shows "slice_range xs i j = take (nat j - nat i) (drop (nat i) xs)"
proof (cases "i \<le> int (length xs)")
  case True
  then show ?thesis using assms
    by (cases "j \<le> int (length xs)")
       (auto simp: slice_range_def slice_index_def Let_def min_def nat_diff_distrib')
next
  case False
  then show ?thesis using assms
    by (auto simp: slice_range_def slice_index_def Let_def min_def)
qed

lemma set_slice_range_nth:
  assumes "0 \<le> i" and "0 \<le> j"
  shows "x \<in> set (slice_range xs i j) \<longleftrightarrow>
    (\<exists>k. i \<le> int k \<and> int k < j \<and> k < length xs \<and> xs ! k = x)"
proof
  assume "x \<in> set (slice_range xs i j)"
  then obtain k where "k < nat j - nat i" "k < length xs - nat i" "xs ! (nat i + k) = x"
    using assms by (auto simp: slice_simps in_set_conv_nth)
  then show "\<exists>k. i \<le> int k \<and> int k < j \<and> k < length xs \<and> xs ! k = x"
    using assms by (intro exI[of _ "nat i + k"]) auto
next
  assume "\<exists>k. i \<le> int k \<and> int k < j \<and> k < length xs \<and> xs ! k = x"
  then obtain k where k: "i \<le> int k" "int k < j" "k < length xs" "xs ! k = x" by blast
  then have "take (nat j - nat i) (drop (nat i) xs) ! (k - nat i) = x"
    and "k - nat i < length (take (nat j - nat i) (drop (nat i) xs))"
    using assms by auto
  then show "x \<in> set (slice_range xs i j)"
    using assms by (metis slice_range_nonneg nth_mem)
qed

text \<open>Reading an element: Python raises where the index is out of range (negative ones count back).\<close>

definition py_index :: "'a list \<Rightarrow> int \<Rightarrow> 'a result" where
  "py_index xs i =
     (let k = (if i < 0 then i + int (length xs) else i)
      in if k < 0 \<or> int (length xs) \<le> k then Inl IndexError else Inr (xs ! nat k))"

lemma py_index_Inr:
  "0 \<le> i \<Longrightarrow> py_index xs i = Inr x \<longleftrightarrow> nat i < length xs \<and> xs ! nat i = x"
  by (auto simp: py_index_def Let_def split: if_splits)

lemma upto_int: "[0..int n - 1] = map int [0..<n]"
  by (induction n) (auto simp: upto_rec2)

section \<open>Ceiling division\<close>

text \<open>
  The documented behaviour of vLLM's \<open>cdiv\<close>: the least integer whose multiple of the divisor
  is not below the dividend. \<open>cdiv_ref\<close> is a function with that behaviour, used to show that
  the hypothesis can hold.
\<close>

type_synonym cdiv_fun = "int \<Rightarrow> int \<Rightarrow> int"

definition ceil_div :: "cdiv_fun \<Rightarrow> bool" where
  "ceil_div cd \<longleftrightarrow> (\<forall>a b. 0 < b \<longrightarrow> b * (cd a b - 1) < a \<and> a \<le> b * cd a b)"

definition cdiv_ref :: cdiv_fun where
  "cdiv_ref a b = - ((- a) div b)"

lemma ceil_div_ref: "ceil_div cdiv_ref"
proof -
  have "b * (- (- a div b) - 1) < a \<and> a \<le> b * - (- a div b)" if "0 < b" for a b :: int
  proof -
    define q where "q = (- a) div b"
    have "b * q + (- a) mod b = - a" unfolding q_def by (rule mult_div_mod_eq)
    moreover have "0 \<le> (- a) mod b" "(- a) mod b < b" using that by simp_all
    ultimately have "- a < b * q + b" "b * q \<le> - a" by linarith+
    then show ?thesis unfolding q_def[symmetric] by (simp add: algebra_simps)
  qed
  then show ?thesis by (simp add: ceil_div_def cdiv_ref_def)
qed

lemma cdiv_le_iff:
  assumes "ceil_div cd" and "0 < b"
  shows "cd a b \<le> k \<longleftrightarrow> a \<le> b * k"
proof
  assume "cd a b \<le> k"
  then have "b * cd a b \<le> b * k" using assms(2) by simp
  moreover have "a \<le> b * cd a b" using assms by (simp add: ceil_div_def)
  ultimately show "a \<le> b * k" by linarith
next
  assume "a \<le> b * k"
  moreover have "b * (cd a b - 1) < a" using assms by (simp add: ceil_div_def)
  ultimately have "b * (cd a b - 1) < b * k" by linarith
  then show "cd a b \<le> k" using assms(2) by simp
qed

lemma less_cdiv_iff: "ceil_div cd \<Longrightarrow> 0 < b \<Longrightarrow> k < cd a b \<longleftrightarrow> b * k < a"
  using cdiv_le_iff[of cd b a k] by (auto simp: not_le[symmetric])

lemma le_cdiv_iff: "ceil_div cd \<Longrightarrow> 0 < b \<Longrightarrow> k \<le> cd a b \<longleftrightarrow> b * (k - 1) < a"
  using less_cdiv_iff[of cd b "k - 1" a] by auto

lemma cdiv_mult [simp]: "ceil_div cd \<Longrightarrow> 0 < b \<Longrightarrow> cd (b * k) b = k"
  using cdiv_le_iff[of cd b "b * k" k] le_cdiv_iff[of cd b k "b * k"] by force

lemma cdiv_nonneg: "ceil_div cd \<Longrightarrow> 0 < b \<Longrightarrow> 0 \<le> a \<Longrightarrow> 0 \<le> cd a b"
  using le_cdiv_iff[of cd b 0 a] by simp

lemma cdiv_mono: "ceil_div cd \<Longrightarrow> 0 < b \<Longrightarrow> a \<le> a' \<Longrightarrow> cd a b \<le> cd a' b"
  by (metis cdiv_le_iff order.trans order_refl)

lemma cdiv_shift: "ceil_div cd \<Longrightarrow> 0 < b \<Longrightarrow> cd (b * k + a) b = k + cd a b"
proof (rule antisym)
  assume "ceil_div cd" "0 < b"
  then show "cd (b * k + a) b \<le> k + cd a b"
    using cdiv_le_iff[of cd b a "cd a b"] by (simp add: cdiv_le_iff distrib_left)
  from \<open>ceil_div cd\<close> \<open>0 < b\<close> show "k + cd a b \<le> cd (b * k + a) b"
    using le_cdiv_iff[of cd b "cd a b" a] by (simp add: le_cdiv_iff algebra_simps)
qed

text \<open>Rounding down to a multiple: \<open>x // b * b\<close>.\<close>

definition align_down :: "int \<Rightarrow> int \<Rightarrow> int" where
  "align_down x b = x div b * b"

lemma align_down_le: "0 < b \<Longrightarrow> align_down x b \<le> x"
  by (simp add: align_down_def minus_mod_eq_div_mult [symmetric])

lemma align_down_gt: "0 < b \<Longrightarrow> x - b < align_down x b"
  using pos_mod_bound[of b x] by (simp add: align_down_def minus_mod_eq_div_mult [symmetric])

lemma align_down_nonneg: "0 < b \<Longrightarrow> 0 \<le> x \<Longrightarrow> 0 \<le> align_down x b"
  by (simp add: align_down_def pos_imp_zdiv_nonneg_iff)

lemma align_down_dvd [simp]: "b dvd align_down x b"
  by (simp add: align_down_def)

lemma align_down_mono: "0 < b \<Longrightarrow> x \<le> y \<Longrightarrow> align_down x b \<le> align_down y b"
  by (simp add: align_down_def zdiv_mono1)

lemma align_down_dvd_le: "0 < b \<Longrightarrow> b dvd k \<Longrightarrow> k \<le> x \<Longrightarrow> k \<le> align_down x b"
  by (metis align_down_def align_down_mono dvd_div_mult_self)

end
