(* ===== verification/Py_Values.thy ===== *)
theory Py_Values
  imports Base
begin

text \<open>
  Python values as far as the code inspects them: the values of a \<open>kv_transfer_params\<close> or
  configuration dictionary, their truth value, \<open>str\<close>, \<open>int\<close> and \<open>isinstance\<close>,
  and the string methods the code calls. Characters are code points below 256.
\<close>

section \<open>Decimal numerals\<close>

definition digit_char :: "nat \<Rightarrow> char" where
  "digit_char d = char_of (48 + d)"

definition digit_val :: "char \<Rightarrow> nat" where
  "digit_val c = of_char c - 48"

definition is_digit :: "char \<Rightarrow> bool" where
  "is_digit c = (48 \<le> (of_char c :: nat) \<and> (of_char c :: nat) \<le> 57)"

fun nat_str :: "nat \<Rightarrow> string" where
  "nat_str n = (if n < 10 then [digit_char n] else nat_str (n div 10) @ [digit_char (n mod 10)])"

declare nat_str.simps [simp del]

definition int_str :: "int \<Rightarrow> string" where
  "int_str i = (if i < 0 then CHR ''-'' # nat_str (nat (- i)) else nat_str (nat i))"

lemma of_char_digit: "d < 10 \<Longrightarrow> (of_char (digit_char d) :: nat) = 48 + d"
  by (simp add: digit_char_def)

lemma digit_val_char [simp]: "d < 10 \<Longrightarrow> digit_val (digit_char d) = d"
  by (simp add: digit_val_def of_char_digit)

lemma is_digit_char [simp]: "d < 10 \<Longrightarrow> is_digit (digit_char d)"
  by (simp add: is_digit_def of_char_digit)

lemma nat_str_digits: "c \<in> set (nat_str n) \<Longrightarrow> is_digit c"
proof (induction n rule: nat_str.induct)
  case (1 n)
  then show ?case by (subst (asm) nat_str.simps) (auto split: if_splits)
qed

lemma nat_str_nonempty [simp]: "nat_str n \<noteq> []"
  by (subst nat_str.simps) simp

definition digits_val :: "string \<Rightarrow> nat" where
  "digits_val s = foldl (\<lambda>a c. a * 10 + digit_val c) 0 s"

lemma digits_val_nat_str [simp]: "digits_val (nat_str n) = n"
proof (induction n rule: nat_str.induct)
  case (1 n)
  then show ?case
    by (subst nat_str.simps) (auto simp: digits_val_def)
qed

lemma nat_str_inj [simp]: "nat_str m = nat_str n \<longleftrightarrow> m = n"
  by (metis digits_val_nat_str)

lemma minus_no_digit: "\<not> is_digit (CHR ''-'')"
  by (simp add: is_digit_def)

lemma int_str_inj [simp]: "int_str i = int_str j \<longleftrightarrow> i = j"
proof
  assume eq: "int_str i = int_str j"
  have no: "nat_str n \<noteq> CHR ''-'' # s" for n s
    using nat_str_digits[of "CHR ''-''" n] minus_no_digit by fastforce
  from eq no show "i = j"
    by (auto simp: int_str_def no[symmetric] split: if_splits)
qed simp

lemma int_str_chars: "c \<in> set (int_str i) \<Longrightarrow> is_digit c \<or> c = CHR ''-''"
  by (auto simp: int_str_def dest: nat_str_digits split: if_splits)

section \<open>String methods\<close>

definition is_space :: "char \<Rightarrow> bool" where
  "is_space c = ((of_char c :: nat) \<in> {9, 10, 11, 12, 13, 28, 29, 30, 31, 32, 133, 160})"

definition str_strip :: "string \<Rightarrow> string" where
  "str_strip s = rev (dropWhile is_space (rev (dropWhile is_space s)))"

definition str_rstrip_char :: "char \<Rightarrow> string \<Rightarrow> string" where
  "str_rstrip_char c s = rev (dropWhile (\<lambda>x. x = c) (rev s))"

definition lower_char :: "char \<Rightarrow> char" where
  "lower_char c =
     (let n = (of_char c :: nat)
      in if 65 \<le> n \<and> n \<le> 90 \<or> 192 \<le> n \<and> n \<le> 222 \<and> n \<noteq> 215 then char_of (n + 32) else c)"

definition str_lower :: "string \<Rightarrow> string" where
  "str_lower s = map lower_char s"

text \<open>\<open>s.split(c)\<close> for a one-character separator: never empty, empty fields kept.\<close>

fun str_split :: "char \<Rightarrow> string \<Rightarrow> string list" where
  "str_split c [] = [[]]"
| "str_split c (x # xs) =
     (if x = c then [] # str_split c xs
      else (case str_split c xs of [] \<Rightarrow> [[x]] | f # fs \<Rightarrow> (x # f) # fs))"

lemma str_split_nonempty [simp]: "str_split c s \<noteq> []"
  by (induction s) (auto split: list.splits)

fun str_join :: "string \<Rightarrow> string list \<Rightarrow> string" where
  "str_join sep [] = []"
| "str_join sep [s] = s"
| "str_join sep (s # t # ts) = s @ sep @ str_join sep (t # ts)"

lemma str_join_split: "str_join [c] (str_split c s) = s"
proof (induction s)
  case (Cons x xs)
  obtain f fs where "str_split c xs = f # fs" by (meson neq_Nil_conv str_split_nonempty)
  with Cons show ?case by (cases fs) auto
qed simp

lemma str_split_no_sep: "f \<in> set (str_split c s) \<Longrightarrow> c \<notin> set f"
  by (induction s arbitrary: f) (auto split: if_splits list.splits)

definition str_prefix :: "string \<Rightarrow> string \<Rightarrow> bool" where
  "str_prefix p s = (take (length p) s = p)"

text \<open>\<open>p in s\<close>.\<close>

fun str_contains :: "string \<Rightarrow> string \<Rightarrow> bool" where
  "str_contains p [] = (p = [])"
| "str_contains p (x # xs) = (str_prefix p (x # xs) \<or> str_contains p xs)"

text \<open>The digits of \<open>int(text)\<close>: single underscores may separate digits.\<close>

fun parse_digits :: "bool \<Rightarrow> nat \<Rightarrow> string \<Rightarrow> nat option" where
  "parse_digits d acc [] = (if d then Some acc else None)"
| "parse_digits d acc (c # cs) =
     (if is_digit c then parse_digits True (acc * 10 + digit_val c) cs
      else if c = CHR ''_'' \<and> d then parse_digits False acc cs
      else None)"

definition parse_int :: "string \<Rightarrow> int result" where
  "parse_int text =
     (let s = str_strip text;
          neg = (case s of c # _ \<Rightarrow> c = CHR ''-'' | [] \<Rightarrow> False);
          body = (case s of c # cs \<Rightarrow> if c = CHR ''-'' \<or> c = CHR ''+'' then cs else s | [] \<Rightarrow> [])
      in case parse_digits False 0 body of
           Some n \<Rightarrow> Inr (if neg then - int n else int n)
         | None \<Rightarrow> Inl (ValueError ''invalid literal for int()''))"

lemma parse_digits_nat:
  "(\<forall>c \<in> set s. is_digit c) \<Longrightarrow> parse_digits d acc s =
     (if s = [] \<and> \<not> d then None else Some (foldl (\<lambda>a c. a * 10 + digit_val c) acc s))"
  by (induction s arbitrary: d acc) auto

lemma is_digit_not_space: "is_digit c \<Longrightarrow> \<not> is_space c"
  by (auto simp: is_digit_def is_space_def)

lemma strip_no_space: "(\<forall>c \<in> set s. \<not> is_space c) \<Longrightarrow> str_strip s = s"
proof -
  assume a: "\<forall>c \<in> set s. \<not> is_space c"
  then have "dropWhile is_space s = s" by (cases s) auto
  moreover have "dropWhile is_space (rev s) = rev s" using a by (cases "rev s") (auto simp: rev_swap)
  ultimately show ?thesis by (simp add: str_strip_def)
qed

text \<open>\<open>int(str(i)) == i\<close>.\<close>

lemma parse_int_str: "parse_int (int_str i) = Inr i"
proof -
  have ds: "\<forall>c \<in> set (nat_str n). is_digit c" for n by (simp add: nat_str_digits)
  have sp: "str_strip (int_str i) = int_str i"
    by (rule strip_no_space)
       (auto dest!: int_str_chars simp: is_digit_not_space, simp add: is_space_def)
  have pn: "parse_digits False 0 (nat_str n) = Some n" for n
    using parse_digits_nat[OF ds[of n], of False 0] digits_val_nat_str[of n]
    by (simp add: digits_val_def)
  show ?thesis
  proof (cases "i < 0")
    case True
    with sp pn show ?thesis by (simp add: parse_int_def int_str_def Let_def)
  next
    case False
    obtain c cs where ccs: "nat_str (nat i) = c # cs" by (meson neq_Nil_conv nat_str_nonempty)
    with ds[of "nat i"] have "is_digit c" by simp
    then have "c \<noteq> CHR ''-''" "c \<noteq> CHR ''+''" by (auto simp: is_digit_def)
    with False sp pn[of "nat i"] ccs show ?thesis
      by (simp add: parse_int_def int_str_def Let_def)
  qed
qed

section \<open>Dynamic values\<close>

text \<open>
  \<open>PObj s b i\<close> is any other object, seen through \<open>str\<close>, \<open>bool\<close> and \<open>int\<close>
  (\<open>None\<close> where \<open>int\<close> raises).
\<close>

datatype pyval =
    PNone
  | PBool bool
  | PInt int
  | PStr string
  | PObj string bool "int option"

fun truthy :: "pyval \<Rightarrow> bool" where
  "truthy PNone = False"
| "truthy (PBool b) = b"
| "truthy (PInt i) = (i \<noteq> 0)"
| "truthy (PStr s) = (s \<noteq> [])"
| "truthy (PObj s b i) = b"

fun py_str :: "pyval \<Rightarrow> string" where
  "py_str PNone = ''None''"
| "py_str (PBool b) = (if b then ''True'' else ''False'')"
| "py_str (PInt i) = int_str i"
| "py_str (PStr s) = s"
| "py_str (PObj s b i) = s"

fun py_int :: "pyval \<Rightarrow> int result" where
  "py_int PNone = Inl (TypeError ''int() argument'')"
| "py_int (PBool b) = Inr (if b then 1 else 0)"
| "py_int (PInt i) = Inr i"
| "py_int (PStr s) = parse_int s"
| "py_int (PObj s b i) = (case i of Some k \<Rightarrow> Inr k | None \<Rightarrow> Inl (TypeError ''int() argument''))"

type_synonym params = "(string, pyval) dict"

text \<open>\<open>params.get(k)\<close>: \<open>None\<close> for an absent key.\<close>

definition param :: "params \<Rightarrow> string \<Rightarrow> pyval" where
  "param p k = (case dict_get p k of None \<Rightarrow> PNone | Some v \<Rightarrow> v)"

definition param_true :: "params \<Rightarrow> string \<Rightarrow> bool" where
  "param_true p k = truthy (param p k)"

lemma param_set: "param (dict_set k v p) k' = (if k' = k then v else param p k')"
  by (simp add: param_def dict_simps)

lemma param_true_set [simp]:
  "param_true (dict_set k v p) k' = (if k' = k then truthy v else param_true p k')"
  by (simp add: param_true_def param_set)

text \<open>The words that configuration strings use for \<open>False\<close>.\<close>

definition false_words :: "string list" where
  "false_words = [''0'', ''false'', ''no'', ''off'']"

end
