(* ===== verification/Protocol.thy ===== *)
theory Protocol
  imports Py_Values
begin

text \<open>
  Models \<^verbatim>\<open>mtsc/protocol.py\<close>: the per-step metadata the scheduler sends to the
  worker, the load reports the worker sends back, and the P/D wire structures. A class is a
  record with the class's fields, prefixed to keep the names apart; a request ID or transfer ID
  is a string, a block hash a byte string.
\<close>

type_synonym block_groups = "int list list"

record KVPoolLoadSpec =
  ls_computed_tokens :: int
  ls_pool_hit_tokens :: int

record KVPoolLoadRequest =
  lr_request_id :: string
  lr_block_ids :: block_groups
  lr_block_hashes :: "string list"
  lr_start_token :: int
  lr_end_token :: int
  lr_load_id :: int

record KVPoolSaveRequest =
  sr_request_id :: string
  sr_block_ids :: block_groups
  sr_block_hashes :: "string list"
  sr_start_token :: int
  sr_end_token :: int
  sr_prompt_tokens :: "int option"

record KVTransferPlan =
  tp_request_id :: string
  tp_transfer_id :: string
  tp_computed_tokens :: int
  tp_pool_hit_tokens :: int
  tp_target_tokens :: int
  tp_all_block_ids :: block_groups
  tp_external_block_ids :: block_groups
  tp_group_block_sizes :: "int list"
  tp_blocks_per_sliding_window :: "int list"
  tp_transfer_params :: params
  tp_load_id :: int

text \<open>Times are exact rationals; the code's floats are their approximations.\<close>

record MTSCLoadReport =
  rp_request_id :: string
  rp_load_id :: int
  rp_worker_rank :: int
  rp_local_tokens :: int
  rp_store_tokens :: int
  rp_pd_tokens :: int
  rp_store_ms :: rat
  rp_pd_ms :: rat
  rp_total_ms :: rat
  rp_store_status :: string
  rp_status :: string

record MTSCWorkerMetadata =
  wm_load_reports :: "MTSCLoadReport list"

definition aggregate :: "MTSCWorkerMetadata \<Rightarrow> MTSCWorkerMetadata \<Rightarrow> MTSCWorkerMetadata" where
  "aggregate self other = \<lparr>wm_load_reports = wm_load_reports self @ wm_load_reports other\<rparr>"

record KVTransferSourceState =
  ss_request_id :: string
  ss_transfer_id :: string
  ss_source_block_ids :: block_groups
  ss_ready :: bool
  ss_cancelled :: bool

record FinishedWait =
  fw_store_save :: bool
  fw_kv_transfer :: bool

record MTSCConnectorMetadata =
  md_pool_loads :: "KVPoolLoadRequest list"
  md_pool_saves :: "KVPoolSaveRequest list"
  md_transfer_plans :: "KVTransferPlan list"
  md_transfer_states :: "KVTransferSourceState list"
  md_finished_waits :: "(string, FinishedWait) dict"
  md_finished_request_ids :: "string list"
  md_preempted_request_ids :: "string list"

datatype KVTransferStatus = FINISH | CONTINUE | ERROR

fun status_code :: "KVTransferStatus \<Rightarrow> int" where
  "status_code FINISH = 0"
| "status_code CONTINUE = 1"
| "status_code ERROR = 2"

record KVTransferRequest =
  xr_remote_hostname :: string
  xr_remote_port :: int
  xr_remote_tp_size :: int
  xr_remote_tp_rank :: int
  xr_req_blocks :: "(string, string \<times> block_groups) dict"
  xr_kv_caches_base_addr :: "int list"
  xr_block_lens :: "int list"

record KVTransferResponse =
  xs_status :: KVTransferStatus
  xs_ok_reqs :: "string list option"
  xs_err_reqs :: "string list option"
  xs_err_msg :: "string option"

text \<open>Merging the workers' reports is associative, so the order of aggregation does not matter
  up to the order of the ranks.\<close>

lemma aggregate_assoc: "aggregate (aggregate a b) c = aggregate a (aggregate b c)"
  by (simp add: aggregate_def)

lemma aggregate_reports: "wm_load_reports (aggregate a b) = wm_load_reports a @ wm_load_reports b"
  by (simp add: aggregate_def)

end
