(* ===== verification/Lookup_Rpc.thy ===== *)
theory Lookup_Rpc
  imports Py_Values
begin

text \<open>
  Models the Store lookup RPC of \<^verbatim>\<open>mtsc/kv_cache_pool.py\<close>: the client's wire frames
  (\<open>StoreLookupClient._lookup\<close>), the per-request futures (\<open>lookup\<close>, \<open>discard\<close>,
  \<open>reset\<close>), the server loop's body (\<open>StoreLookupServer._serve\<close>) and the lazy hash view
  (\<open>_CompatBlobBlockHashes\<close>). Bytes are characters. ZMQ is outside the repository: what a
  \<open>recv\<close> yields is an argument (\<open>sock_reply\<close>). The worker's \<open>lookup\<close> and
  \<open>remove_all\<close> are arguments of the server.
\<close>

section \<open>Big-endian integers\<close>

fun be_bytes :: "nat \<Rightarrow> nat \<Rightarrow> string" where
  "be_bytes 0 n = []"
| "be_bytes (Suc k) n = be_bytes k (n div 256) @ [char_of n]"

definition int_to_bytes :: "nat \<Rightarrow> int \<Rightarrow> string result" where
  "int_to_bytes k i = (if 0 \<le> i \<and> i < 256 ^ k then Inr (be_bytes k (nat i)) else Inl OverflowError)"

definition int_from_bytes :: "string \<Rightarrow> int" where
  "int_from_bytes s = int (foldl (\<lambda>a c. a * 256 + of_char c) 0 s)"

lemma length_be_bytes [simp]: "length (be_bytes k n) = k"
  by (induction k arbitrary: n) auto

lemma from_be_bytes: "n < 256 ^ k \<Longrightarrow> foldl (\<lambda>a c. a * 256 + of_char c) 0 (be_bytes k n) = n"
proof (induction k arbitrary: n)
  case (Suc k)
  then have "n div 256 < 256 ^ k" by (simp add: less_mult_imp_div_less mult.commute)
  with Suc.IH[of "n div 256"] show ?case by simp
qed simp

lemma from_to_bytes: "int_to_bytes k i = Inr s \<Longrightarrow> int_from_bytes s = i \<and> length s = k"
  by (auto simp: int_to_bytes_def int_from_bytes_def from_be_bytes nat_less_iff split: if_splits)

section \<open>The lazy hash view\<close>

record BlobBlockHashes =
  bb_blob :: string
  bb_hash_len :: int

definition blob_len :: "BlobBlockHashes \<Rightarrow> int" where
  "blob_len b = (if bb_hash_len b \<noteq> 0 then int (length (bb_blob b)) div bb_hash_len b else 0)"

definition blob_getitem :: "BlobBlockHashes \<Rightarrow> int \<Rightarrow> string result" where
  "blob_getitem b index =
     (let i = (if index < 0 then index + blob_len b else index)
      in if \<not> (0 \<le> i \<and> i < blob_len b) then Inl IndexError
         else (let offset = i * bb_hash_len b
               in Inr (slice_range (bb_blob b) offset (offset + bb_hash_len b))))"

text \<open>\<open>list(view)\<close>: the items in order.\<close>

definition blob_list :: "BlobBlockHashes \<Rightarrow> string list result" where
  "blob_list b = map_res (blob_getitem b) [0..blob_len b - 1]"

section \<open>The client\<close>

abbreviation "LOOKUP \<equiv> ''lookup''"
abbreviation "RESET \<equiv> ''reset''"
abbreviation "OK \<equiv> ''ok''"
abbreviation "ERR \<equiv> ''error''"

text \<open>What the REQ socket yields for one request: bytes, or \<open>zmq.Again\<close> after the timeout.\<close>

datatype sock_reply = Reply string | Again

record lookup_job =
  lj_token_count :: int
  lj_hashes :: "string list"

definition lookup_frames :: "lookup_job \<Rightarrow> string list result" where
  "lookup_frames j =
     (let hash_len = (case lj_hashes j of [] \<Rightarrow> 0 | h # _ \<Rightarrow> int (length h))
      in case int_to_bytes 4 (lj_token_count j) of Inl e \<Rightarrow> Inl e
         | Inr t \<Rightarrow> (case int_to_bytes 2 hash_len of Inl e \<Rightarrow> Inl e
            | Inr l \<Rightarrow> Inr [LOOKUP, t, l, concat (lj_hashes j)]))"

text \<open>The job of the lookup thread; the flag says whether it replaced the socket.\<close>

definition lookup_call :: "lookup_job \<Rightarrow> sock_reply \<Rightarrow> int result \<times> bool" where
  "lookup_call j reply =
     (case lookup_frames j of Inl e \<Rightarrow> (Inl e, False)
      | Inr frames \<Rightarrow>
         (case reply of
            Again \<Rightarrow> (Inl (TimeoutError ''MTSC Store lookup timed out''), True)
          | Reply response \<Rightarrow>
              (if response = ERR then (Inl (RuntimeError ''Pool lookup backend failed''), False)
               else (let hit = int_from_bytes response
                     in if \<not> (0 \<le> hit \<and> hit \<le> lj_token_count j)
                        then (Inl (ValueError ''Pool lookup returned an invalid prefix''), False)
                        else (Inr hit, False)))))"

record lookup_client =
  lc_futures :: "(string, lookup_job) dict"
  lc_closed :: bool

definition new_lookup_client :: lookup_client where
  "new_lookup_client = \<lparr>lc_futures = [], lc_closed = False\<rparr>"

text \<open>
  \<open>lookup\<close>. The last two arguments describe the request's future at the time of the call:
  whether it is done, and what its socket read yields. The result is \<open>None\<close> while an
  asynchronous lookup is pending; a failed lookup is a miss.
\<close>

definition lookup ::
  "lookup_client \<Rightarrow> string \<Rightarrow> int \<Rightarrow> string list \<Rightarrow> bool \<Rightarrow> bool \<Rightarrow> sock_reply \<Rightarrow>
     (int option \<times> lookup_client) result" where
  "lookup c rid token_count hashes asynchronous fut_done reply =
     (if dict_get (lc_futures c) rid = None \<and> lc_closed c
      then Inl (RuntimeError ''cannot schedule new futures after shutdown'')
      else
       (let job = (case dict_get (lc_futures c) rid of
                     None \<Rightarrow> \<lparr>lj_token_count = token_count, lj_hashes = hashes\<rparr>
                   | Some j \<Rightarrow> j);
            futures = dict_setdefault rid job (lc_futures c)
        in if asynchronous \<and> \<not> fut_done then Inr (None, c\<lparr>lc_futures := futures\<rparr>)
           else Inr (Some (case fst (lookup_call job reply) of Inr hit \<Rightarrow> hit | Inl _ \<Rightarrow> 0),
                     c\<lparr>lc_futures := dict_pop rid futures\<rparr>)))"

definition discard :: "lookup_client \<Rightarrow> string \<Rightarrow> lookup_client" where
  "discard c rid = c\<lparr>lc_futures := dict_pop rid (lc_futures c)\<rparr>"

text \<open>\<open>reset\<close>: a timeout replaces the socket and counts as failure.\<close>

definition reset_call :: "sock_reply \<Rightarrow> bool result \<times> bool" where
  "reset_call reply =
     (case reply of Again \<Rightarrow> (Inl (TimeoutError ''MTSC Store reset timed out''), True)
      | Reply response \<Rightarrow> (Inr (response = OK), False))"

definition reset :: "lookup_client \<Rightarrow> sock_reply \<Rightarrow> bool" where
  "reset c reply =
     (if lc_closed c then False
      else case fst (reset_call reply) of Inr b \<Rightarrow> b | Inl _ \<Rightarrow> False)"

definition close_client :: "lookup_client \<Rightarrow> lookup_client" where
  "close_client c = c\<lparr>lc_closed := True\<rparr>"

section \<open>The server\<close>

text \<open>
  One round of \<open>_serve\<close>. \<open>owner_lookup\<close> and \<open>owner_reset\<close> are the pool's lookup and
  the save fence followed by \<open>remove_all\<close>. An error before the \<open>try\<close> ends the thread
  (\<open>Inl\<close>).
\<close>

definition serve ::
  "(int \<Rightarrow> BlobBlockHashes \<Rightarrow> int result) \<Rightarrow> unit result \<Rightarrow> string list \<Rightarrow> string result" where
  "serve owner_lookup owner_reset frames =
     (case py_index frames 0 of Inl e \<Rightarrow> Inl e
      | Inr kind \<Rightarrow>
         if kind = LOOKUP then
           (case map_res (py_index frames) [1, 2, 3] of Inl e \<Rightarrow> Inl e
            | Inr fs \<Rightarrow>
                (let token_count = int_from_bytes (fs ! 0);
                     hash_len = int_from_bytes (fs ! 1);
                     hashes = \<lparr>bb_blob = fs ! 2, bb_hash_len = hash_len\<rparr>
                 in case owner_lookup token_count hashes of Inl _ \<Rightarrow> Inr ERR
                    | Inr hit \<Rightarrow> (case int_to_bytes 4 hit of Inl _ \<Rightarrow> Inr ERR | Inr b \<Rightarrow> Inr b)))
         else if kind = RESET then
           (case owner_reset of Inl _ \<Rightarrow> Inr ERR | Inr _ \<Rightarrow> Inr OK)
         else Inr ERR)"

section \<open>Facts\<close>

lemma blob_len_concat:
  assumes "\<forall>h \<in> set hs. length h = n" and "0 < n"
  shows "blob_len \<lparr>bb_blob = concat hs, bb_hash_len = int n\<rparr> = int (length hs)"
proof -
  have "length (concat hs) = n * length hs" using assms(1) by (induction hs) auto
  then show ?thesis using assms(2) by (simp add: blob_len_def zdiv_int [symmetric])
qed

lemma concat_block:
  assumes "\<forall>h \<in> set hs. length h = n" and "i < length hs"
  shows "take n (drop (i * n) (concat hs)) = hs ! i"
  using assms
proof (induction hs arbitrary: i)
  case (Cons h hs)
  then show ?case by (cases i) (auto simp: add.commute)
qed simp

lemma blob_getitem_concat:
  assumes "\<forall>h \<in> set hs. length h = n" and "0 < n" and "i < length hs"
  shows "blob_getitem \<lparr>bb_blob = concat hs, bb_hash_len = int n\<rparr> (int i) = Inr (hs ! i)"
proof -
  have "nat (int i * int n) = i * n" "nat (int i * int n + int n) = i * n + n"
    by (simp_all add: nat_mult_distrib nat_add_distrib)
  then show ?thesis
    using assms concat_block[OF assms(1,3)]
    by (simp add: blob_getitem_def blob_len_concat Let_def slice_simps del: of_nat_mult)
qed

lemma blob_list_concat:
  assumes "\<forall>h \<in> set hs. length h = n" and "0 < n"
  shows "blob_list \<lparr>bb_blob = concat hs, bb_hash_len = int n\<rparr> = Inr hs"
proof -
  have "[0..int (length hs) - 1] = map int [0..<length hs]"
    by (simp add: upto_int)
  then show ?thesis
    using assms
    by (simp add: blob_list_def blob_len_concat map_res_Inr_iff list_all2_conv_all_nth
        blob_getitem_concat)
qed

lemma lookup_call_bound:
  "fst (lookup_call j reply) = Inr hit \<Longrightarrow> 0 \<le> hit \<and> hit \<le> lj_token_count j"
  by (auto simp: lookup_call_def Let_def split: sum.splits sock_reply.splits if_splits)

text \<open>A good reply has four bytes, so it is never taken for the five-byte error marker.\<close>

lemma good_reply_not_err: "int_to_bytes 4 hit = Inr b \<Longrightarrow> b \<noteq> ERR"
  by (auto dest: from_to_bytes)

text \<open>
  The interface the scheduler relies on: an answer is a prefix length of the job that was
  submitted for the request, a request without a job submits its own arguments, and
  \<open>discard\<close> forgets the job.
\<close>

locale lookup_service =
  fixes look :: "'c \<Rightarrow> string \<Rightarrow> int \<Rightarrow> string list \<Rightarrow> bool \<Rightarrow> bool \<Rightarrow> sock_reply \<Rightarrow> (int option \<times> 'c) result"
    and forget :: "'c \<Rightarrow> string \<Rightarrow> 'c"
    and job_tokens :: "'c \<Rightarrow> string \<Rightarrow> int option"
  assumes look_bound: "look c rid n hs as dn reply = Inr (Some hit, c') \<Longrightarrow>
      0 \<le> hit \<and> hit \<le> max 0 (case job_tokens c rid of None \<Rightarrow> n | Some k \<Rightarrow> k)"
    and look_pending: "look c rid n hs as dn reply = Inr (None, c') \<Longrightarrow>
      as \<and> \<not> dn \<and> job_tokens c' rid = Some (case job_tokens c rid of None \<Rightarrow> n | Some k \<Rightarrow> k)"
    and look_collect: "look c rid n hs as dn reply = Inr (Some hit, c') \<Longrightarrow> job_tokens c' rid = None"
    and look_other: "look c rid n hs as dn reply = Inr (r, c') \<Longrightarrow> rid' \<noteq> rid \<Longrightarrow>
      job_tokens c' rid' = job_tokens c rid'"
    and forget_job: "job_tokens (forget c rid) rid' = (if rid' = rid then None else job_tokens c rid')"
begin

text \<open>A lookup for a fresh request, or a retry with the same length, never exceeds that length.\<close>

lemma look_hit_le:
  assumes "look c rid n hs as dn reply = Inr (Some hit, c')"
    and "job_tokens c rid \<in> {None, Some n}" and "0 \<le> n"
  shows "0 \<le> hit \<and> hit \<le> n"
  using look_bound[OF assms(1)] assms(2,3) by auto

lemma forgets: "job_tokens (fold (\<lambda>r c. forget c r) rs c) rid =
    (if rid \<in> set rs then None else job_tokens c rid)"
  by (induction rs arbitrary: c) (auto simp: forget_job)

end

definition pending_tokens :: "lookup_client \<Rightarrow> string \<Rightarrow> int option" where
  "pending_tokens c rid = map_option lj_token_count (dict_get (lc_futures c) rid)"

interpretation ls: lookup_service lookup discard pending_tokens
proof unfold_locales
  fix c rid n hs as dn reply hit c'
  assume "lookup c rid n hs as dn reply = Inr (Some hit, c')"
  then show "0 \<le> hit \<and> hit \<le> max 0 (case pending_tokens c rid of None \<Rightarrow> n | Some k \<Rightarrow> k)"
    by (auto simp: lookup_def pending_tokens_def Let_def
        split: if_splits option.splits sum.splits dest!: lookup_call_bound)
next
  fix c rid n hs as dn reply c'
  assume "lookup c rid n hs as dn reply = Inr (None, c')"
  then show "as \<and> \<not> dn \<and>
      pending_tokens c' rid = Some (case pending_tokens c rid of None \<Rightarrow> n | Some k \<Rightarrow> k)"
    by (auto simp: lookup_def pending_tokens_def Let_def dict_simps
        split: if_splits option.splits)
next
  fix c rid n hs as dn reply hit c'
  assume "lookup c rid n hs as dn reply = Inr (Some hit, c')"
  then show "pending_tokens c' rid = None"
    by (auto simp: lookup_def pending_tokens_def Let_def dict_simps split: if_splits)
next
  fix c rid n hs as dn reply r c' rid'
  assume "lookup c rid n hs as dn reply = Inr (r, c')" and "rid' \<noteq> (rid::string)"
  then show "pending_tokens c' rid' = pending_tokens c rid'"
    by (auto simp: lookup_def pending_tokens_def Let_def dict_simps split: if_splits)
next
  fix c rid rid'
  show "pending_tokens (discard c rid) rid' = (if rid' = rid then None else pending_tokens c rid')"
    by (simp add: discard_def pending_tokens_def dict_simps)
qed

end
