(* ===== verification/Scheduler.thy ===== *)
theory Scheduler
  imports Protocol Lookup_Rpc "HOL-Library.List_Lexorder" "HOL-Library.Char_ord"
begin

text \<open>
  Models \<^verbatim>\<open>mtsc/scheduler.py\<close>: \<open>MTSCScheduler\<close> with its per-request and per-step
  state. A vLLM \<open>Request\<close> is an object shared with vLLM: an operation that receives it
  takes its value and returns the updated value, and a tracked request keeps the object's
  address, which \<open>build_connector_meta\<close> reads through the store \<open>heap\<close> of the current
  objects. vLLM's scheduler output is an argument. Logging has no effect on the state and is
  left out; the record that \<open>_log_load_complete\<close> prints is \<open>log_load_complete\<close>.

  Lists are values here. In the code a tracked request shares its block lists with the load and
  the plan queued in the same step; the copy on the request's first scheduled step ends the
  sharing before \<open>_append_blocks\<close> extends them. An exception ends the engine step, so the
  state after a raise is not modelled.
\<close>

section \<open>State\<close>

datatype request_status = FINISHED_LENGTH_CAPPED | OTHER_STATUS

record request =
  rq_request_id :: string
  rq_num_prompt_tokens :: int
  rq_num_tokens :: int
  rq_max_tokens :: int
  rq_prompt_token_ids :: "int list option"
  rq_prompt_embeds :: "int list option"
  rq_all_token_ids :: "int list"
  rq_block_hashes :: "string list"
  rq_kv_transfer_params :: "params option"
  rq_status :: request_status

type_synonym address = nat
type_synonym heap = "address \<Rightarrow> request"

record TransferSpec =
  ts_computed_tokens :: int
  ts_pool_hit_tokens :: int
  ts_target_tokens :: int

record TrackedRequest =
  tk_request :: address
  tk_block_ids :: block_groups
  tk_saved_tokens :: int
  tk_is_decode :: bool

record LoadTrace =
  lt_load_id :: int
  lt_role :: string
  lt_prompt_tokens :: int
  lt_target_tokens :: int
  lt_transfer_id :: pyval
  lt_reports :: "(int, MTSCLoadReport) dict"

text \<open>Block IDs arrive as a tuple of groups, a list of groups or one flat list.\<close>

datatype groups_val = GTuple block_groups | GNested block_groups | GFlat "int list"

fun groups :: "groups_val \<Rightarrow> block_groups" where
  "groups (GTuple gs) = gs"
| "groups (GNested gs) = (if gs = [] then [[]] else gs)"
| "groups (GFlat xs) = [xs]"

record sched_cfg =
  sc_is_producer :: bool
  sc_is_consumer :: bool
  sc_decode_save :: bool
  sc_lookup_async :: bool
  sc_block_size :: int
  sc_group_block_sizes :: "int list"
  sc_blocks_per_sliding_window :: "int list"
  sc_has_mamba :: bool
  sc_expected_load_workers :: nat

record sched =
  s_lookup_client :: lookup_client
  s_tracked :: "(string, TrackedRequest) dict"
  s_load_traces :: "(string, LoadTrace) dict"
  s_next_load_id :: int
  s_transfer_decisions :: "(string, TransferSpec) dict"
  s_load_decisions :: "(string, KVPoolLoadSpec) dict"
  s_pool_saves :: "KVPoolSaveRequest list"
  s_pool_loads :: "KVPoolLoadRequest list"
  s_transfers :: "KVTransferPlan list"
  s_transfer_state :: "KVTransferSourceState list"
  s_finished_waits :: "(string, FinishedWait) dict"
  s_saving :: "string set"
  s_transferring :: "string set"
  s_delayed :: "string set"

text \<open>
  The constructor. A cache group is its block size and, for a sliding-window spec, the window;
  \<open>block_size\<close> is what vLLM's \<open>resolve_kv_cache_block_sizes\<close> returns.
\<close>

definition parse_lookup_async :: "pyval \<Rightarrow> bool" where
  "parse_lookup_async v =
     (case v of PStr s \<Rightarrow> str_lower (str_strip s) \<notin> set false_words | _ \<Rightarrow> truthy v)"

definition make_sched_cfg ::
  "cdiv_fun \<Rightarrow> string \<Rightarrow> params \<Rightarrow> bool \<Rightarrow> int \<Rightarrow> (int \<times> int option) list \<Rightarrow> bool \<Rightarrow> nat \<Rightarrow> sched_cfg" where
  "make_sched_cfg cd kv_role extra decode_save block_size kv_groups has_mamba world_size =
     (let is_consumer = (kv_role \<noteq> ''kv_producer'')
      in \<lparr>sc_is_producer = (kv_role \<noteq> ''kv_consumer''),
          sc_is_consumer = is_consumer,
          sc_decode_save = (decode_save \<and> is_consumer),
          sc_lookup_async = parse_lookup_async
            (case dict_get extra ''lookup_async'' of None \<Rightarrow> PBool False | Some v \<Rightarrow> v),
          sc_block_size = block_size,
          sc_group_block_sizes = map fst kv_groups,
          sc_blocks_per_sliding_window =
            map (\<lambda>(size, window). case window of Some w \<Rightarrow> cd w size + 1 | None \<Rightarrow> 0) kv_groups,
          sc_has_mamba = has_mamba,
          sc_expected_load_workers = world_size\<rparr>)"

definition init_sched :: sched where
  "init_sched =
     \<lparr>s_lookup_client = new_lookup_client, s_tracked = [], s_load_traces = [], s_next_load_id = 0,
      s_transfer_decisions = [], s_load_decisions = [], s_pool_saves = [], s_pool_loads = [],
      s_transfers = [], s_transfer_state = [], s_finished_waits = [], s_saving = {},
      s_transferring = {}, s_delayed = {}\<rparr>"

section \<open>Lookup\<close>

text \<open>\<open>request.kv_transfer_params or {}\<close>; an assignment reaches the request's own dictionary
  only where that is not empty.\<close>

definition rq_params :: "request \<Rightarrow> params" where
  "rq_params r = (case rq_kv_transfer_params r of None \<Rightarrow> [] | Some p \<Rightarrow> p)"

definition set_param :: "request \<Rightarrow> string \<Rightarrow> pyval \<Rightarrow> request" where
  "set_param r k v =
     (if rq_params r = [] then r else r\<lparr>rq_kv_transfer_params := Some (dict_set k v (rq_params r))\<rparr>)"

definition truncate_mamba_prefill :: "sched_cfg \<Rightarrow> request \<Rightarrow> request result" where
  "truncate_mamba_prefill cfg r =
     (let finish = (\<lambda>r'. if rq_all_token_ids r' = [] then Inl IndexError
            else Inr (set_param (r'\<lparr>rq_all_token_ids := butlast (rq_all_token_ids r'),
                                    rq_num_prompt_tokens := rq_num_prompt_tokens r' - 1,
                                    rq_max_tokens := 1\<rparr>)
                        ''_mtsc_p_truncated'' (PBool True)))
      in if \<not> sc_has_mamba cfg \<or> param_true (rq_params r) ''_mtsc_p_truncated''
            \<or> rq_num_prompt_tokens r \<le> 1
         then Inr r
         else (case rq_prompt_token_ids r of
                 Some ids \<Rightarrow> (if ids = [] then Inl IndexError
                              else finish (r\<lparr>rq_prompt_token_ids := Some (butlast ids)\<rparr>))
               | None \<Rightarrow>
                   (case rq_prompt_embeds r of
                      Some e \<Rightarrow> finish (r\<lparr>rq_prompt_embeds := Some (butlast e)\<rparr>)
                    | None \<Rightarrow> Inr r)))"

definition invalid_transfer_fields :: "params \<Rightarrow> string list" where
  "invalid_transfer_fields p =
     filter (\<lambda>name. case param p name of PStr s \<Rightarrow> str_strip s = [] | _ \<Rightarrow> True)
       [''remote_bootstrap_addr'', ''remote_engine_id'']"

definition validate_transfer_params :: "request \<Rightarrow> unit result" where
  "validate_transfer_params r =
     (if invalid_transfer_fields (rq_params r) \<noteq> []
      then Inl (ValueError ''MTSC remote prefill requires non-empty string transfer parameters'')
      else Inr ())"

definition target_tokens :: "sched_cfg \<Rightarrow> request \<Rightarrow> int" where
  "target_tokens cfg r =
     rq_num_prompt_tokens r - (if sc_has_mamba cfg \<and> rq_num_prompt_tokens r > 1 then 1 else 0)"

definition remote_prefill :: "sched_cfg \<Rightarrow> request \<Rightarrow> bool" where
  "remote_prefill cfg r = (sc_is_consumer cfg \<and> param_true (rq_params r) ''do_remote_prefill'')"

definition remote_decode :: "sched_cfg \<Rightarrow> request \<Rightarrow> bool" where
  "remote_decode cfg r = (sc_is_producer cfg \<and> param_true (rq_params r) ''do_remote_decode'')"

text \<open>The decisions of a lookup that returned \<open>pool_hit\<close>.\<close>

definition record_decisions ::
  "sched_cfg \<Rightarrow> bool \<Rightarrow> string \<Rightarrow> int \<Rightarrow> int \<Rightarrow> int \<Rightarrow> sched \<Rightarrow> (int option \<times> bool) \<times> sched" where
  "record_decisions cfg is_remote rid num_computed_tokens pool_hit target s =
     (let ld = dict_pop rid (s_load_decisions s);
          ld' = (if pool_hit > num_computed_tokens
                 then dict_set rid \<lparr>ls_computed_tokens = num_computed_tokens,
                                    ls_pool_hit_tokens = pool_hit\<rparr> ld
                 else ld);
          s1 = s\<lparr>s_load_decisions := ld'\<rparr>
      in if \<not> is_remote
         then (let external = max 0 (pool_hit - num_computed_tokens)
               in ((Some external, external > 0), s1))
         else (let s2 = s1\<lparr>s_transfer_decisions :=
                   dict_set rid \<lparr>ts_computed_tokens = num_computed_tokens,
                                 ts_pool_hit_tokens = pool_hit,
                                 ts_target_tokens = target\<rparr>
                     (dict_pop rid (s_transfer_decisions s1))\<rparr>;
                   external = target - num_computed_tokens
               in ((Some external, external > 0), s2)))"

text \<open>The Store query: a prompt shorter than one block cannot hit.\<close>

definition store_lookup ::
  "sched_cfg \<Rightarrow> sched \<Rightarrow> request \<Rightarrow> int \<Rightarrow> bool \<Rightarrow> sock_reply \<Rightarrow> (int option \<times> lookup_client) result" where
  "store_lookup cfg s r target fut_done reply =
     (let lookup_tokens = align_down target (sc_block_size cfg)
      in if lookup_tokens < sc_block_size cfg then Inr (Some 0, s_lookup_client s)
         else lookup (s_lookup_client s) (rq_request_id r) lookup_tokens
                (rq_block_hashes r) (sc_lookup_async cfg) fut_done reply)"

text \<open>The checks and the truncation that precede the query.\<close>

definition prepare_request :: "sched_cfg \<Rightarrow> request \<Rightarrow> request result" where
  "prepare_request cfg r =
     (case (if remote_prefill cfg r then validate_transfer_params r else Inr ()) of
        Inl e \<Rightarrow> Inl e
      | Inr _ \<Rightarrow> if remote_decode cfg r then truncate_mamba_prefill cfg r else Inr r)"

definition get_num_new_matched_tokens ::
  "sched_cfg \<Rightarrow> sched \<Rightarrow> request \<Rightarrow> int \<Rightarrow> bool \<Rightarrow> sock_reply \<Rightarrow>
     ((int option \<times> bool) \<times> request \<times> sched) result" where
  "get_num_new_matched_tokens cfg s r0 num_computed_tokens fut_done reply =
     (case prepare_request cfg r0 of
        Inl e \<Rightarrow> Inl e
      | Inr r \<Rightarrow>
          (let target = target_tokens cfg r
           in case store_lookup cfg s r target fut_done reply of
                Inl e \<Rightarrow> Inl e
              | Inr (None, c) \<Rightarrow> Inr ((None, False), r, s\<lparr>s_lookup_client := c\<rparr>)
              | Inr (Some pool_hit, c) \<Rightarrow>
                  (let (res, s') = record_decisions cfg (remote_prefill cfg r) (rq_request_id r)
                              num_computed_tokens pool_hit target (s\<lparr>s_lookup_client := c\<rparr>)
                   in Inr (res, r, s'))))"

section \<open>Allocation\<close>

text \<open>What the operation uses of vLLM's \<open>KVCacheBlocks\<close>.\<close>

record kv_blocks =
  kb_block_ids :: block_groups
  kb_unhashed :: groups_val

definition track_blocks :: "sched_cfg \<Rightarrow> address \<Rightarrow> request \<Rightarrow> block_groups \<Rightarrow> sched \<Rightarrow> TrackedRequest" where
  "track_blocks cfg a r all_blocks s =
     (case dict_get (s_tracked s) (rq_request_id r) of
        None \<Rightarrow> \<lparr>tk_request = a, tk_block_ids = all_blocks, tk_saved_tokens = 0,
                 tk_is_decode = (sc_is_consumer cfg \<and> \<not> param_true (rq_params r) ''do_remote_decode'')\<rparr>
      | Some t \<Rightarrow> (if all_blocks \<noteq> [] then t\<lparr>tk_block_ids := all_blocks\<rparr> else t))"

text \<open>Opening the load trace of the decisions just consumed; without one the load ID is 0.\<close>

definition new_trace :: "request \<Rightarrow> TrackedRequest \<Rightarrow> TransferSpec option \<Rightarrow> int \<Rightarrow> LoadTrace" where
  "new_trace r tracked transfer_spec load_id =
     \<lparr>lt_load_id = load_id,
      lt_role = (if tk_is_decode tracked then ''D'' else ''P''),
      lt_prompt_tokens = rq_num_prompt_tokens r,
      lt_target_tokens = (case transfer_spec of Some ts \<Rightarrow> ts_target_tokens ts
                          | None \<Rightarrow> rq_num_prompt_tokens r),
      lt_transfer_id = param (rq_params r) ''transfer_id'',
      lt_reports = []\<rparr>"

definition open_trace ::
  "request \<Rightarrow> TrackedRequest \<Rightarrow> KVPoolLoadSpec option \<Rightarrow> TransferSpec option \<Rightarrow> sched \<Rightarrow> int \<times> sched" where
  "open_trace r tracked load_spec transfer_spec s =
     (if load_spec = None \<and> transfer_spec = None then (0, s)
      else (let load_id = s_next_load_id s + 1
            in (load_id,
                s\<lparr>s_next_load_id := load_id,
                  s_load_traces := dict_set (rq_request_id r)
                    (new_trace r tracked transfer_spec load_id) (s_load_traces s)\<rparr>)))"

definition make_load :: "request \<Rightarrow> block_groups \<Rightarrow> int \<Rightarrow> KVPoolLoadSpec \<Rightarrow> KVPoolLoadRequest" where
  "make_load r all_blocks load_id ls =
     \<lparr>lr_request_id = rq_request_id r, lr_block_ids = all_blocks, lr_block_hashes = rq_block_hashes r,
      lr_start_token = ls_computed_tokens ls, lr_end_token = ls_pool_hit_tokens ls,
      lr_load_id = load_id\<rparr>"

definition make_plan ::
  "sched_cfg \<Rightarrow> request \<Rightarrow> kv_blocks \<Rightarrow> int \<Rightarrow> TransferSpec \<Rightarrow> KVTransferPlan" where
  "make_plan cfg r blocks load_id ts =
     \<lparr>tp_request_id = rq_request_id r,
      tp_transfer_id = py_str (case dict_get (rq_params r) ''transfer_id'' of
                                 Some v \<Rightarrow> v | None \<Rightarrow> PStr (rq_request_id r)),
      tp_computed_tokens = ts_computed_tokens ts,
      tp_pool_hit_tokens = ts_pool_hit_tokens ts,
      tp_target_tokens = ts_target_tokens ts,
      tp_all_block_ids = kb_block_ids blocks,
      tp_external_block_ids = groups (kb_unhashed blocks),
      tp_group_block_sizes = sc_group_block_sizes cfg,
      tp_blocks_per_sliding_window = sc_blocks_per_sliding_window cfg,
      tp_transfer_params = rq_params r,
      tp_load_id = load_id\<rparr>"

text \<open>The placeholder a producer publishes for a request that some D will fetch.\<close>

definition announce_source :: "sched_cfg \<Rightarrow> request \<Rightarrow> sched \<Rightarrow> sched" where
  "announce_source cfg r s =
     (if remote_decode cfg r \<and> rq_request_id r \<notin> s_transferring s
         \<and> param_true (rq_params r) ''transfer_id''
      then s\<lparr>s_transfer_state := s_transfer_state s @
               [\<lparr>ss_request_id = rq_request_id r,
                 ss_transfer_id = py_str (param (rq_params r) ''transfer_id''),
                 ss_source_block_ids = [], ss_ready = False, ss_cancelled = False\<rparr>],
             s_transferring := insert (rq_request_id r) (s_transferring s)\<rparr>
      else s)"

definition update_state_after_alloc ::
  "sched_cfg \<Rightarrow> sched \<Rightarrow> address \<Rightarrow> request \<Rightarrow> kv_blocks \<Rightarrow> (request \<times> sched) result" where
  "update_state_after_alloc cfg s a r blocks =
     (let rid = rq_request_id r;
          all_blocks = kb_block_ids blocks
      in case (if dict_has (s_transfer_decisions s) rid then validate_transfer_params r else Inr ()) of
           Inl e \<Rightarrow> Inl e
         | Inr _ \<Rightarrow>
           (let tracked = track_blocks cfg a r all_blocks s;
                load_spec = dict_get (s_load_decisions s) rid;
                transfer_spec = dict_get (s_transfer_decisions s) rid;
                s1 = s\<lparr>s_tracked := dict_set rid tracked (s_tracked s),
                       s_load_decisions := dict_pop rid (s_load_decisions s),
                       s_transfer_decisions := dict_pop rid (s_transfer_decisions s)\<rparr>;
                (load_id, s2) = open_trace r tracked load_spec transfer_spec s1;
                s3 = (case load_spec of None \<Rightarrow> s2
                      | Some ls \<Rightarrow> s2\<lparr>s_pool_loads := s_pool_loads s2 @ [make_load r all_blocks load_id ls]\<rparr>)
            in case transfer_spec of
                 Some ts \<Rightarrow>
                   Inr (set_param r ''do_remote_prefill'' (PBool False),
                        s3\<lparr>s_transfers := s_transfers s3 @ [make_plan cfg r blocks load_id ts]\<rparr>)
               | None \<Rightarrow> Inr (r, announce_source cfg r s3)))"

section \<open>The step metadata\<close>

text \<open>vLLM's scheduler output. \<open>so_cached_new_block_ids\<close> holds \<open>None\<close> for a request
  that got no new blocks.\<close>

record new_request =
  nr_req_id :: string
  nr_block_ids :: groups_val
  nr_num_computed_tokens :: int

record scheduler_output =
  so_new_reqs :: "new_request list"
  so_cached_req_ids :: "string list"
  so_cached_new_block_ids :: "groups_val option list"
  so_cached_num_computed :: "int list"
  so_num_scheduled :: "(string, int) dict"
  so_finished :: "string list"
  so_preempted :: "string list option"

definition append_blocks :: "TrackedRequest \<Rightarrow> groups_val option \<Rightarrow> TrackedRequest result" where
  "append_blocks t new_block_ids =
     (case new_block_ids of None \<Rightarrow> Inr t
      | Some v \<Rightarrow>
          (let incoming = groups v
           in if tk_block_ids t = [] then Inr (t\<lparr>tk_block_ids := incoming\<rparr>)
              else if length incoming \<noteq> length (tk_block_ids t)
                   then Inl (ValueError ''KV group count changed'')
                   else Inr (t\<lparr>tk_block_ids := map2 (@) (tk_block_ids t) incoming\<rparr>)))"

definition build_save_meta ::
  "cdiv_fun \<Rightarrow> sched_cfg \<Rightarrow> request \<Rightarrow> TrackedRequest \<Rightarrow> int \<Rightarrow> bool \<Rightarrow>
     KVPoolSaveRequest option \<times> TrackedRequest" where
  "build_save_meta cd cfg r t token_count decode =
     (let tokens = min token_count (rq_num_tokens r);
          complete = align_down tokens (sc_block_size cfg);
          start = (if decode
                   then max (tk_saved_tokens t)
                          (cd (rq_num_prompt_tokens r) (sc_block_size cfg) * sc_block_size cfg)
                   else tk_saved_tokens t)
      in if complete \<le> start then (None, t)
         else (Some \<lparr>sr_request_id = rq_request_id r, sr_block_ids = tk_block_ids t,
                     sr_block_hashes = rq_block_hashes r, sr_start_token = start,
                     sr_end_token = complete, sr_prompt_tokens = Some (rq_num_prompt_tokens r)\<rparr>,
               t\<lparr>tk_saved_tokens := complete\<rparr>))"

text \<open>Storing the tracked request back and queueing its save.\<close>

definition queue_save ::
  "cdiv_fun \<Rightarrow> sched_cfg \<Rightarrow> heap \<Rightarrow> string \<Rightarrow> TrackedRequest \<Rightarrow> int \<Rightarrow> sched \<Rightarrow> sched" where
  "queue_save cd cfg heap rid t token_count s =
     (let r = heap (tk_request t);
          (save_meta, t') = build_save_meta cd cfg r t token_count (tk_is_decode t);
          s' = s\<lparr>s_tracked := dict_set rid t' (s_tracked s)\<rparr>
      in case save_meta of None \<Rightarrow> s'
         | Some sv \<Rightarrow> s'\<lparr>s_saving := insert (rq_request_id r) (s_saving s'),
                         s_pool_saves := s_pool_saves s' @ [sv]\<rparr>)"

definition lookup_key :: "('k, 'v) dict \<Rightarrow> 'k \<Rightarrow> 'v result" where
  "lookup_key d k = (case dict_get d k of None \<Rightarrow> Inl (KeyError []) | Some v \<Rightarrow> Inr v)"

definition save_new_request ::
  "cdiv_fun \<Rightarrow> sched_cfg \<Rightarrow> heap \<Rightarrow> scheduler_output \<Rightarrow> string set \<Rightarrow> new_request \<Rightarrow> sched \<Rightarrow> sched result" where
  "save_new_request cd cfg heap out loading req s =
     (case dict_get (s_tracked s) (nr_req_id req) of
        None \<Rightarrow> Inr s
      | Some t \<Rightarrow>
          if nr_req_id req \<in> loading \<or> (tk_is_decode t \<and> \<not> sc_decode_save cfg) then Inr s
          else (case lookup_key (so_num_scheduled out) (nr_req_id req) of
                  Inl e \<Rightarrow> Inl e
                | Inr n \<Rightarrow>
                    Inr (queue_save cd cfg heap (nr_req_id req)
                           (t\<lparr>tk_block_ids := groups (nr_block_ids req)\<rparr>)
                           (nr_num_computed_tokens req + n) s)))"

definition save_cached_request ::
  "cdiv_fun \<Rightarrow> sched_cfg \<Rightarrow> heap \<Rightarrow> scheduler_output \<Rightarrow> int \<times> string \<Rightarrow> sched \<Rightarrow> sched result" where
  "save_cached_request cd cfg heap out ix s =
     (let (index, rid) = ix
      in case dict_get (s_tracked s) rid of
           None \<Rightarrow> Inr s
         | Some t \<Rightarrow>
             if tk_is_decode t \<and> \<not> sc_decode_save cfg then Inr s
             else (case py_index (so_cached_new_block_ids out) index of Inl e \<Rightarrow> Inl e
                   | Inr new_ids \<Rightarrow>
                  (case append_blocks t new_ids of Inl e \<Rightarrow> Inl e
                   | Inr t' \<Rightarrow>
                  (case py_index (so_cached_num_computed out) index of Inl e \<Rightarrow> Inl e
                   | Inr computed \<Rightarrow>
                  (case lookup_key (so_num_scheduled out) rid of Inl e \<Rightarrow> Inl e
                   | Inr n \<Rightarrow> Inr (queue_save cd cfg heap rid t' (computed + n) s))))))"

definition queue_saves ::
  "cdiv_fun \<Rightarrow> sched_cfg \<Rightarrow> heap \<Rightarrow> scheduler_output \<Rightarrow> sched \<Rightarrow> sched result" where
  "queue_saves cd cfg heap out s =
     (if sc_is_producer cfg \<or> sc_decode_save cfg
      then (let loading = set (map lr_request_id (s_pool_loads s))
            in case fold_res (save_new_request cd cfg heap out loading) (so_new_reqs out) s of
                 Inl e \<Rightarrow> Inl e
               | Inr s' \<Rightarrow>
                   fold_res (save_cached_request cd cfg heap out)
                     (map (\<lambda>(i, r). (int i, r)) (List.enumerate 0 (so_cached_req_ids out))) s')
      else Inr s)"

definition preempted_ids :: "scheduler_output \<Rightarrow> string list" where
  "preempted_ids out = (case so_preempted out of None \<Rightarrow> [] | Some ps \<Rightarrow> ps)"

definition drop_decisions :: "string \<Rightarrow> sched \<Rightarrow> sched" where
  "drop_decisions rid s =
     s\<lparr>s_lookup_client := discard (s_lookup_client s) rid,
       s_load_decisions := dict_pop rid (s_load_decisions s),
       s_transfer_decisions := dict_pop rid (s_transfer_decisions s)\<rparr>"

definition drop_preempted :: "string \<Rightarrow> sched \<Rightarrow> sched" where
  "drop_preempted rid s =
     s\<lparr>s_load_traces := dict_pop rid (s_load_traces s),
       s_finished_waits := dict_pop rid (s_finished_waits s),
       s_delayed := s_delayed s - {rid},
       s_tracked := dict_pop rid (s_tracked s),
       s_saving := s_saving s - {rid},
       s_transferring := s_transferring s - {rid}\<rparr>"

text \<open>The filters over the queued operations.\<close>

definition filter_batches :: "string list \<Rightarrow> string list \<Rightarrow> sched \<Rightarrow> sched" where
  "filter_batches finished preempted s =
     s\<lparr>s_pool_loads := filter (\<lambda>l. lr_request_id l \<notin> set preempted) (s_pool_loads s),
       s_pool_saves := filter (\<lambda>v. sr_request_id v \<notin> set preempted) (s_pool_saves s),
       s_transfers := filter (\<lambda>p. tp_request_id p \<notin> set finished \<union> set preempted) (s_transfers s),
       s_transfer_state := filter (\<lambda>t. ss_request_id t \<notin> set preempted) (s_transfer_state s)\<rparr>"

definition detach_metadata ::
  "string list \<Rightarrow> string list \<Rightarrow> sched \<Rightarrow> MTSCConnectorMetadata \<times> sched" where
  "detach_metadata finished preempted s =
     (\<lparr>md_pool_loads = s_pool_loads s, md_pool_saves = s_pool_saves s,
       md_transfer_plans = s_transfers s, md_transfer_states = s_transfer_state s,
       md_finished_waits = s_finished_waits s, md_finished_request_ids = finished,
       md_preempted_request_ids = preempted\<rparr>,
      s\<lparr>s_pool_loads := [], s_pool_saves := [], s_transfers := [], s_transfer_state := [],
        s_finished_waits := []\<rparr>)"

definition build_connector_meta ::
  "cdiv_fun \<Rightarrow> sched_cfg \<Rightarrow> heap \<Rightarrow> sched \<Rightarrow> scheduler_output \<Rightarrow> (MTSCConnectorMetadata \<times> sched) result" where
  "build_connector_meta cd cfg heap s out =
     (case queue_saves cd cfg heap out s of
        Inl e \<Rightarrow> Inl e
      | Inr s1 \<Rightarrow>
          (let finished = so_finished out;
               preempted = preempted_ids out;
               s2 = filter_batches finished preempted s1;
               s3 = fold drop_decisions (finished @ preempted) s2;
               s4 = fold drop_preempted preempted s3
           in Inr (detach_metadata finished preempted s4)))"

section \<open>Completion\<close>

definition any_blocks :: "block_groups \<Rightarrow> bool" where
  "any_blocks gs = list_ex (\<lambda>g. g \<noteq> []) gs"

definition forget_request :: "string \<Rightarrow> sched \<Rightarrow> sched" where
  "forget_request rid s =
     s\<lparr>s_load_traces := dict_pop rid (s_load_traces s),
       s_tracked := dict_pop rid (s_tracked s),
       s_saving := s_saving s - {rid},
       s_transferring := s_transferring s - {rid}\<rparr>"

text \<open>Publishing the source of a finished prefill: ready with its blocks, or cancelled.\<close>

definition publish_source ::
  "sched_cfg \<Rightarrow> request \<Rightarrow> block_groups \<Rightarrow> sched \<Rightarrow> bool \<times> sched" where
  "publish_source cfg r block_ids s =
     (if sc_is_producer cfg \<and> param_true (rq_params r) ''transfer_id''
         \<and> param_true (rq_params r) ''do_remote_decode''
      then (let tid = py_str (param (rq_params r) ''transfer_id'')
            in if rq_status r = FINISHED_LENGTH_CAPPED \<and> any_blocks block_ids
               then (True, s\<lparr>s_transfer_state := s_transfer_state s @
                      [\<lparr>ss_request_id = rq_request_id r, ss_transfer_id = tid,
                        ss_source_block_ids = block_ids, ss_ready = True, ss_cancelled = False\<rparr>]\<rparr>)
               else (False, s\<lparr>s_transfer_state := s_transfer_state s @
                      [\<lparr>ss_request_id = rq_request_id r, ss_transfer_id = tid,
                        ss_source_block_ids = [], ss_ready = False, ss_cancelled = True\<rparr>]\<rparr>))
      else (False, s))"

definition request_finished ::
  "sched_cfg \<Rightarrow> sched \<Rightarrow> request \<Rightarrow> block_groups \<Rightarrow> bool \<times> sched" where
  "request_finished cfg s r block_ids =
     (let rid = rq_request_id r;
          (transfer_delay, s1) = publish_source cfg r block_ids s;
          pool_save_delay = (rid \<in> s_saving s1 \<and> any_blocks block_ids);
          delay = (pool_save_delay \<or> transfer_delay)
      in if delay
         then (True, s1\<lparr>s_finished_waits := dict_set rid
                           \<lparr>fw_store_save = pool_save_delay, fw_kv_transfer = transfer_delay\<rparr>
                           (s_finished_waits s1),
                        s_delayed := insert rid (s_delayed s1)\<rparr>)
         else (False, forget_request rid s1))"

text \<open>The record of a completed load: ranges over the ranks' token counts, maxima of the times.\<close>

record load_summary =
  lg_kind :: string
  lg_role :: string
  lg_local_tokens :: "int \<times> int"
  lg_store_tokens :: "int \<times> int"
  lg_pd_tokens :: "int \<times> int"
  lg_store_ms_max :: rat
  lg_pd_ms_max :: rat
  lg_total_ms_max :: rat
  lg_workers :: nat
  lg_store_status :: "string list"
  lg_status :: string

definition token_range :: "(MTSCLoadReport \<Rightarrow> int) \<Rightarrow> MTSCLoadReport list \<Rightarrow> int \<times> int" where
  "token_range f reports = (Min (set (map f reports)), Max (set (map f reports)))"

definition log_load_complete :: "LoadTrace \<Rightarrow> load_summary" where
  "log_load_complete t =
     (let reports = map snd (lt_reports t)
      in \<lparr>lg_kind = (if lt_role t = ''D'' then ''load_complete'' else ''store_load''),
          lg_role = lt_role t,
          lg_local_tokens = token_range rp_local_tokens reports,
          lg_store_tokens = token_range rp_store_tokens reports,
          lg_pd_tokens = token_range rp_pd_tokens reports,
          lg_store_ms_max = Max (set (map rp_store_ms reports)),
          lg_pd_ms_max = Max (set (map rp_pd_ms reports)),
          lg_total_ms_max = Max (set (map rp_total_ms reports)),
          lg_workers = length reports,
          lg_store_status = sort (remdups (map rp_store_status reports)),
          lg_status = (if list_ex (\<lambda>r. rp_status r = ''error'') reports then ''error'' else ''ok'')\<rparr>)"

text \<open>One report; the second component collects the summaries that are logged.\<close>

definition take_report ::
  "sched_cfg \<Rightarrow> MTSCLoadReport \<Rightarrow> sched \<times> load_summary list \<Rightarrow> sched \<times> load_summary list" where
  "take_report cfg report st =
     (let (s, logs) = st
      in case dict_get (s_load_traces s) (rp_request_id report) of
           None \<Rightarrow> (s, logs)
         | Some trace \<Rightarrow>
             if lt_load_id trace \<noteq> rp_load_id report then (s, logs)
             else (let trace' = trace\<lparr>lt_reports :=
                         dict_set (rp_worker_rank report) report (lt_reports trace)\<rparr>
                   in if length (lt_reports trace') = sc_expected_load_workers cfg
                      then (s\<lparr>s_load_traces := dict_pop (rp_request_id report) (s_load_traces s)\<rparr>,
                            logs @ [log_load_complete trace'])
                      else (s\<lparr>s_load_traces :=
                               dict_set (rp_request_id report) trace' (s_load_traces s)\<rparr>, logs)))"

definition release_completed :: "string \<Rightarrow> sched \<Rightarrow> sched" where
  "release_completed rid s = forget_request rid (s\<lparr>s_finished_waits := dict_pop rid (s_finished_waits s)\<rparr>)"

definition update_connector_output ::
  "sched_cfg \<Rightarrow> sched \<Rightarrow> MTSCWorkerMetadata option \<Rightarrow> string list option \<Rightarrow> sched \<times> load_summary list" where
  "update_connector_output cfg s metadata finished_sending =
     (let (s1, logs) = (case metadata of None \<Rightarrow> (s, [])
                        | Some m \<Rightarrow> fold (take_report cfg) (wm_load_reports m) (s, []));
          completed = (case finished_sending of None \<Rightarrow> [] | Some c \<Rightarrow> c);
          s2 = s1\<lparr>s_delayed := s_delayed s1 - set completed\<rparr>
      in (fold release_completed completed s2, logs))"

definition has_pending_push_work :: "sched \<Rightarrow> bool" where
  "has_pending_push_work s = (s_delayed s \<noteq> {})"

definition reset_store :: "sched \<Rightarrow> sock_reply \<Rightarrow> bool" where
  "reset_store s reply = reset (s_lookup_client s) reply"

definition close_sched :: "sched \<Rightarrow> sched" where
  "close_sched s = s\<lparr>s_load_traces := [], s_lookup_client := close_client (s_lookup_client s)\<rparr>"

end
