(* ===== verification/Scheduler_Props.thy ===== *)
theory Scheduler_Props
  imports Scheduler
begin

text \<open>
  What the scheduler guarantees: the state invariant of every reachable scheduler state, the
  plan that a lookup and the following allocation produce, the save ranges of a request, the
  purge of preempted requests, and the release protocol of finished ones.
\<close>

section \<open>The state invariant\<close>

text \<open>Every tracked request is tracked under its own ID.\<close>

definition tracked_by :: "heap \<Rightarrow> sched \<Rightarrow> bool" where
  "tracked_by heap s \<longleftrightarrow>
     (\<forall>rid t. dict_get (s_tracked s) rid = Some t \<longrightarrow> rq_request_id (heap (tk_request t)) = rid)"

definition load_ids_bounded :: "sched \<Rightarrow> bool" where
  "load_ids_bounded s \<longleftrightarrow>
     0 \<le> s_next_load_id s \<and>
     (\<forall>rid t. dict_get (s_load_traces s) rid = Some t \<longrightarrow>
        0 < lt_load_id t \<and> lt_load_id t \<le> s_next_load_id s) \<and>
     (\<forall>l \<in> set (s_pool_loads s). lr_load_id l \<le> s_next_load_id s) \<and>
     (\<forall>p \<in> set (s_transfers s). tp_load_id p \<le> s_next_load_id s)"

definition load_ids_distinct :: "sched \<Rightarrow> bool" where
  "load_ids_distinct s \<longleftrightarrow>
     (\<forall>i t j u. dict_get (s_load_traces s) i = Some t \<longrightarrow> dict_get (s_load_traces s) j = Some u \<longrightarrow>
        lt_load_id t = lt_load_id u \<longrightarrow> i = j)"

definition sched_inv :: "sched \<Rightarrow> bool" where
  "sched_inv s \<longleftrightarrow>
     set (dict_keys (s_load_traces s)) \<subseteq> set (dict_keys (s_tracked s)) \<and>
     s_saving s \<subseteq> set (dict_keys (s_tracked s)) \<and>
     s_transferring s \<subseteq> set (dict_keys (s_tracked s)) \<and>
     set (dict_keys (s_finished_waits s)) \<subseteq> s_delayed s \<and>
     load_ids_bounded s \<and> load_ids_distinct s"

lemma init_sched_inv: "sched_inv init_sched"
  by (simp add: sched_inv_def init_sched_def load_ids_bounded_def load_ids_distinct_def
      dict_simps dict_keys_def)

text \<open>The invariant depends on these fields only.\<close>

lemma sched_inv_cong:
  assumes "s_tracked s' = s_tracked s" and "s_load_traces s' = s_load_traces s"
    and "s_saving s' = s_saving s" and "s_transferring s' = s_transferring s"
    and "s_finished_waits s' = s_finished_waits s" and "s_delayed s' = s_delayed s"
    and "s_next_load_id s' = s_next_load_id s"
    and "set (s_pool_loads s') \<subseteq> set (s_pool_loads s)" and "set (s_transfers s') \<subseteq> set (s_transfers s)"
    and "sched_inv s"
  shows "sched_inv s'"
proof -
  have "load_ids_bounded s'" using assms(2,7-10) by (auto simp: load_ids_bounded_def sched_inv_def)
  moreover have "load_ids_distinct s'" using assms(2,10) by (simp add: load_ids_distinct_def sched_inv_def)
  ultimately show ?thesis using assms(1-6,10) by (simp add: sched_inv_def)
qed

subsection \<open>Dropping a request keeps the invariant\<close>

lemma load_ids_pop:
  "load_ids_bounded s \<Longrightarrow> load_ids_bounded (s\<lparr>s_load_traces := dict_pop rid (s_load_traces s)\<rparr>)"
  "load_ids_distinct s \<Longrightarrow> load_ids_distinct (s\<lparr>s_load_traces := dict_pop rid (s_load_traces s)\<rparr>)"
  by (auto simp: load_ids_bounded_def dict_simps)
     (auto simp: load_ids_distinct_def dict_simps split: if_splits)

lemma load_ids_frame:
  assumes "s_load_traces s' = s_load_traces s" and "s_next_load_id s' = s_next_load_id s"
    and "s_pool_loads s' = s_pool_loads s" and "s_transfers s' = s_transfers s"
  shows "load_ids_bounded s' = load_ids_bounded s" and "load_ids_distinct s' = load_ids_distinct s"
  using assms by (simp_all add: load_ids_bounded_def load_ids_distinct_def)

lemma sched_inv_forget:
  assumes "sched_inv s" shows "sched_inv (forget_request rid s)"
proof -
  have "load_ids_bounded (forget_request rid s)" "load_ids_distinct (forget_request rid s)"
    using load_ids_pop[of s rid] assms
      load_ids_frame[of "forget_request rid s" "s\<lparr>s_load_traces := dict_pop rid (s_load_traces s)\<rparr>"]
    by (simp_all add: sched_inv_def forget_request_def)
  then show ?thesis using assms by (auto simp: sched_inv_def forget_request_def dict_simps)
qed

lemma drop_preempted_forget:
  "drop_preempted rid s = forget_request rid
     (s\<lparr>s_finished_waits := dict_pop rid (s_finished_waits s), s_delayed := s_delayed s - {rid}\<rparr>)"
  by (simp add: drop_preempted_def forget_request_def)

lemma sched_inv_waits:
  assumes "sched_inv s" and "set (dict_keys w) \<subseteq> d"
  shows "sched_inv (s\<lparr>s_finished_waits := w, s_delayed := d\<rparr>)"
  using assms by (simp add: sched_inv_def load_ids_bounded_def load_ids_distinct_def)

lemma sched_inv_drop_preempted:
  assumes "sched_inv s" shows "sched_inv (drop_preempted rid s)"
  unfolding drop_preempted_forget
  by (rule sched_inv_forget, rule sched_inv_waits[OF assms])
     (use assms in \<open>auto simp: sched_inv_def dict_simps\<close>)

lemma sched_inv_drop_decisions: "sched_inv s \<Longrightarrow> sched_inv (drop_decisions rid s)"
  by (rule sched_inv_cong) (auto simp: drop_decisions_def)

lemma sched_inv_release:
  assumes "sched_inv s" shows "sched_inv (release_completed rid s)"
proof -
  have "sched_inv (s\<lparr>s_finished_waits := dict_pop rid (s_finished_waits s), s_delayed := s_delayed s\<rparr>)"
    by (rule sched_inv_waits[OF assms]) (use assms in \<open>auto simp: sched_inv_def dict_simps\<close>)
  then show ?thesis by (simp add: release_completed_def sched_inv_forget)
qed

lemma sched_inv_filter: "sched_inv s \<Longrightarrow> sched_inv (filter_batches f p s)"
  by (rule sched_inv_cong) (auto simp: filter_batches_def)

lemma sched_inv_detach: "sched_inv s \<Longrightarrow> sched_inv (snd (detach_metadata f p s))"
  by (simp add: detach_metadata_def sched_inv_def load_ids_bounded_def load_ids_distinct_def dict_keys_def)

subsection \<open>Lookup and allocation\<close>

lemma get_num_cases:
  assumes "get_num_new_matched_tokens cfg s r0 n dn reply = Inr (res, r, s')"
  obtains (pending) c where "prepare_request cfg r0 = Inr r" "res = (None, False)"
      "store_lookup cfg s r (target_tokens cfg r) dn reply = Inr (None, c)"
      "s' = s\<lparr>s_lookup_client := c\<rparr>"
  | (decided) hit c where "prepare_request cfg r0 = Inr r"
      "store_lookup cfg s r (target_tokens cfg r) dn reply = Inr (Some hit, c)"
      "record_decisions cfg (remote_prefill cfg r) (rq_request_id r) n hit (target_tokens cfg r)
         (s\<lparr>s_lookup_client := c\<rparr>) = (res, s')"
  using assms that
  by (auto simp: get_num_new_matched_tokens_def Let_def split: sum.splits option.splits prod.splits)

lemma record_decisions_frame:
  assumes "record_decisions cfg b rid n hit t s = (res, s')"
  shows "s_tracked s' = s_tracked s" "s_load_traces s' = s_load_traces s" "s_saving s' = s_saving s"
    "s_transferring s' = s_transferring s" "s_finished_waits s' = s_finished_waits s"
    "s_delayed s' = s_delayed s" "s_next_load_id s' = s_next_load_id s"
    "s_pool_loads s' = s_pool_loads s" "s_transfers s' = s_transfers s"
    "s_lookup_client s' = s_lookup_client s"
  using assms by (auto simp: record_decisions_def Let_def split: if_splits)

lemma sched_inv_client: "sched_inv s \<Longrightarrow> sched_inv (s\<lparr>s_lookup_client := c\<rparr>)"
  by (rule sched_inv_cong) auto

lemma sched_inv_get_num:
  assumes "get_num_new_matched_tokens cfg s r n dn reply = Inr (res, r', s')" and "sched_inv s"
  shows "sched_inv s'"
  using assms(1)
proof (cases rule: get_num_cases)
  case (decided hit c)
  show ?thesis
    by (rule sched_inv_cong[OF _ _ _ _ _ _ _ _ _ sched_inv_client[OF assms(2), of c]])
       (simp_all add: record_decisions_frame[OF decided(3)])
qed (simp add: sched_inv_client assms(2))

lemma sched_inv_track:
  "sched_inv s \<Longrightarrow> sched_inv (s\<lparr>s_tracked := dict_set rid t (s_tracked s),
      s_load_decisions := ld, s_transfer_decisions := td\<rparr>)"
  unfolding sched_inv_def load_ids_bounded_def load_ids_distinct_def by (auto simp: dict_simps)

lemma sched_inv_open_trace:
  assumes "sched_inv s" and "rq_request_id r \<in> set (dict_keys (s_tracked s))"
    and "open_trace r t ls ts s = (i, s')"
  shows "sched_inv s'" and "i \<le> s_next_load_id s'" and "s_tracked s' = s_tracked s"
proof -
  have bounds: "0 \<le> s_next_load_id s"
    "\<And>j u. dict_get (s_load_traces s) j = Some u \<Longrightarrow> 0 < lt_load_id u \<and> lt_load_id u \<le> s_next_load_id s"
    using assms(1) by (auto simp: sched_inv_def load_ids_bounded_def)
  show "i \<le> s_next_load_id s'" "s_tracked s' = s_tracked s"
    using assms(3) bounds(1) by (auto simp: open_trace_def Let_def split: if_splits)
  show "sched_inv s'"
  proof (cases "ls = None \<and> ts = None")
    case True
    with assms(1,3) show ?thesis by (simp add: open_trace_def)
  next
    case False
    define tr where "tr = new_trace r t ts (s_next_load_id s + 1)"
    have tr: "lt_load_id tr = s_next_load_id s + 1" by (simp add: tr_def new_trace_def)
    have s': "s' = s\<lparr>s_next_load_id := s_next_load_id s + 1,
                s_load_traces := dict_set (rq_request_id r) tr (s_load_traces s)\<rparr>"
      using assms(3) False by (auto simp: open_trace_def Let_def tr_def)
    have get: "dict_get (s_load_traces s') j =
        (if j = rq_request_id r then Some tr else dict_get (s_load_traces s) j)" for j
      by (simp add: s' pd.get_put)
    have nx: "s_next_load_id s' = s_next_load_id s + 1" by (simp add: s')
    have fresh: "lt_load_id u \<noteq> lt_load_id tr" if "dict_get (s_load_traces s) j = Some u" for j u
      using bounds(2)[OF that] tr by simp
    have "0 < lt_load_id u \<and> lt_load_id u \<le> s_next_load_id s'"
      if "dict_get (s_load_traces s') j = Some u" for j u
      using that bounds(1) bounds(2)[of j u] tr nx by (auto simp: get split: if_splits)
    then have b: "load_ids_bounded s'"
      using assms(1) by (auto simp: load_ids_bounded_def sched_inv_def s')
    have "i = j" if "dict_get (s_load_traces s') i = Some t" "dict_get (s_load_traces s') j = Some u"
      "lt_load_id t = lt_load_id u" for i t j u
    proof -
      have "dict_get (s_load_traces s) i = Some t \<Longrightarrow> dict_get (s_load_traces s) j = Some u \<Longrightarrow> i = j"
        using assms(1) that(3) by (auto simp: sched_inv_def load_ids_distinct_def)
      then show ?thesis using that fresh[of i t] fresh[of j u] by (auto simp: get split: if_splits)
    qed
    then have d: "load_ids_distinct s'" by (auto simp: load_ids_distinct_def)
    show ?thesis
      using assms(1,2) b d by (auto simp: sched_inv_def s' dict_simps)
  qed
qed


lemma sched_inv_alloc:
  assumes "update_state_after_alloc cfg s a r blocks = Inr (r', s')" and "sched_inv s"
  shows "sched_inv s'"
proof -
  define t where "t = track_blocks cfg a r (kb_block_ids blocks) s"
  define ls where "ls = dict_get (s_load_decisions s) (rq_request_id r)"
  define ts where "ts = dict_get (s_transfer_decisions s) (rq_request_id r)"
  define s1 where "s1 = s\<lparr>s_tracked := dict_set (rq_request_id r) t (s_tracked s),
     s_load_decisions := dict_pop (rq_request_id r) (s_load_decisions s),
     s_transfer_decisions := dict_pop (rq_request_id r) (s_transfer_decisions s)\<rparr>"
  obtain i s2 where op: "open_trace r t ls ts s1 = (i, s2)" by fastforce
  define s3 where "s3 = (case ls of None \<Rightarrow> s2
     | Some l \<Rightarrow> s2\<lparr>s_pool_loads := s_pool_loads s2 @ [make_load r (kb_block_ids blocks) i l]\<rparr>)"
  have "sched_inv s1" unfolding s1_def by (rule sched_inv_track[OF assms(2)])
  then have s2: "sched_inv s2" "i \<le> s_next_load_id s2"
    and tr: "rq_request_id r \<in> set (dict_keys (s_tracked s2))"
    using sched_inv_open_trace[OF _ _ op] by (auto simp: s1_def dict_simps)
  have s3: "sched_inv s3" "i \<le> s_next_load_id s3" "s_tracked s3 = s_tracked s2"
    using s2 by (auto simp: s3_def sched_inv_def load_ids_bounded_def load_ids_distinct_def make_load_def
        split: option.splits)
  have ann: "sched_inv (announce_source cfg r s3)"
    using s3 tr by (auto simp: announce_source_def sched_inv_def load_ids_bounded_def load_ids_distinct_def)
  have pl: "sched_inv (s3\<lparr>s_transfers := s_transfers s3 @ [make_plan cfg r blocks i p]\<rparr>)" for p
    using s3 by (auto simp: make_plan_def sched_inv_def load_ids_bounded_def load_ids_distinct_def)
  have "Inr (r', s') = (case ts of
       Some p \<Rightarrow> Inr (set_param r ''do_remote_prefill'' (PBool False),
                 s3\<lparr>s_transfers := s_transfers s3 @ [make_plan cfg r blocks i p]\<rparr>)
     | None \<Rightarrow> (Inr (r, announce_source cfg r s3) :: (request \<times> sched) result))"
    using assms(1) op
    by (auto simp: update_state_after_alloc_def Let_def t_def[symmetric] ls_def[symmetric]
        ts_def[symmetric] s1_def[symmetric] s3_def split: sum.splits option.splits)
  then show ?thesis using ann pl by (auto split: option.splits)
qed

subsection \<open>The step metadata\<close>

lemma queue_save_fields:
  "s_load_traces (queue_save cd cfg heap rid t n s) = s_load_traces s"
  "s_transferring (queue_save cd cfg heap rid t n s) = s_transferring s"
  "s_finished_waits (queue_save cd cfg heap rid t n s) = s_finished_waits s"
  "s_delayed (queue_save cd cfg heap rid t n s) = s_delayed s"
  "s_next_load_id (queue_save cd cfg heap rid t n s) = s_next_load_id s"
  "s_pool_loads (queue_save cd cfg heap rid t n s) = s_pool_loads s"
  "s_transfers (queue_save cd cfg heap rid t n s) = s_transfers s"
  "s_transfer_state (queue_save cd cfg heap rid t n s) = s_transfer_state s"
  "s_load_decisions (queue_save cd cfg heap rid t n s) = s_load_decisions s"
  "s_transfer_decisions (queue_save cd cfg heap rid t n s) = s_transfer_decisions s"
  "s_lookup_client (queue_save cd cfg heap rid t n s) = s_lookup_client s"
  "s_saving (queue_save cd cfg heap rid t n s) \<subseteq> insert (rq_request_id (heap (tk_request t))) (s_saving s)"
  by (auto simp: queue_save_def Let_def split: prod.splits option.splits)

lemma build_save_request: "tk_request (snd (build_save_meta cd cfg r t n d)) = tk_request t"
  by (simp add: build_save_meta_def Let_def)

lemma queue_save_tracked:
  "dict_get (s_tracked (queue_save cd cfg heap rid t n s)) k =
     (if k = rid then Some (snd (build_save_meta cd cfg (heap (tk_request t)) t n (tk_is_decode t)))
      else dict_get (s_tracked s) k)"
  by (auto simp: queue_save_def Let_def pd.get_put split: prod.splits option.splits)

lemma queue_save_keys:
  "set (dict_keys (s_tracked (queue_save cd cfg heap rid t n s))) = insert rid (set (dict_keys (s_tracked s)))"
  by (auto simp: queue_save_def Let_def dict_simps split: prod.splits option.splits)

lemma queue_save_inv:
  assumes "sched_inv s" and "rq_request_id (heap (tk_request t)) = rid"
    and "rid \<in> set (dict_keys (s_tracked s))"
  shows "sched_inv (queue_save cd cfg heap rid t n s)"
  using assms queue_save_fields(12)[of cd cfg heap rid t n s]
  unfolding sched_inv_def load_ids_bounded_def load_ids_distinct_def
  by (auto simp: queue_save_fields(1-11) queue_save_keys)

lemma queue_save_tracked_by:
  assumes "tracked_by heap s" and "rq_request_id (heap (tk_request t)) = rid"
  shows "tracked_by heap (queue_save cd cfg heap rid t n s)"
  using assms by (auto simp: tracked_by_def queue_save_tracked build_save_request)

lemma append_blocks_request: "append_blocks t v = Inr t' \<Longrightarrow> tk_request t' = tk_request t"
  by (auto simp: append_blocks_def Let_def split: option.splits if_splits)

text \<open>Both save loops only queue saves of tracked requests.\<close>

lemma save_new_request_step:
  assumes "save_new_request cd cfg heap out loading q s = Inr s'" and "tracked_by heap s"
  obtains "s' = s" | rid t n where "rid \<in> set (dict_keys (s_tracked s))"
    "rq_request_id (heap (tk_request t)) = rid" "s' = queue_save cd cfg heap rid t n s"
    "rid = nr_req_id q" "rid \<notin> loading"
proof -
  consider "s' = s" | t n where "dict_get (s_tracked s) (nr_req_id q) = Some t" "nr_req_id q \<notin> loading"
      "s' = queue_save cd cfg heap (nr_req_id q) (t\<lparr>tk_block_ids := groups (nr_block_ids q)\<rparr>) n s"
    using assms(1)
    by (auto simp: save_new_request_def split: option.splits if_splits sum.splits)
  then show thesis
  proof cases
    case (2 t n)
    with assms(2) show thesis
      by (intro that(2)[of "nr_req_id q" "t\<lparr>tk_block_ids := groups (nr_block_ids q)\<rparr>" n])
         (auto simp: tracked_by_def pd.keys_get)
  qed (rule that(1))
qed

lemma save_cached_request_step:
  assumes "save_cached_request cd cfg heap out ix s = Inr s'" and "tracked_by heap s"
  obtains "s' = s" | rid t n where "rid \<in> set (dict_keys (s_tracked s))"
    "rq_request_id (heap (tk_request t)) = rid" "s' = queue_save cd cfg heap rid t n s"
proof -
  consider "s' = s" | t t' n v where "dict_get (s_tracked s) (snd ix) = Some t"
      "append_blocks t v = Inr t'" "s' = queue_save cd cfg heap (snd ix) t' n s"
    using assms(1)
    by (cases ix) (auto simp: save_cached_request_def split: option.splits if_splits sum.splits)
  then show thesis
  proof cases
    case (2 t t' n v)
    then have "rq_request_id (heap (tk_request t')) = snd ix"
      using assms(2) append_blocks_request[of t v t'] by (auto simp: tracked_by_def)
    with 2 show thesis by (intro that(2)[of "snd ix" t' n]) (auto simp: pd.keys_get)
  qed (rule that(1))
qed

text \<open>An invariant of the save loops follows from its preservation by \<open>queue_save\<close>.\<close>

lemma queue_saves_rule:
  assumes run: "queue_saves cd cfg heap out s = Inr s'" and P: "P s" and tb: "tracked_by heap s"
    and step: "\<And>rid t n s. P s \<Longrightarrow> rid \<in> set (dict_keys (s_tracked s)) \<Longrightarrow>
       rq_request_id (heap (tk_request t)) = rid \<Longrightarrow> P (queue_save cd cfg heap rid t n s)"
  shows "P s' \<and> tracked_by heap s'"
proof (cases "sc_is_producer cfg \<or> sc_decode_save cfg")
  case True
  define L where "L = set (map lr_request_id (s_pool_loads s))"
  obtain s1 where s1: "fold_res (save_new_request cd cfg heap out L) (so_new_reqs out) s = Inr s1"
    and s2: "fold_res (save_cached_request cd cfg heap out)
        (map (\<lambda>(i, r). (int i, r)) (List.enumerate 0 (so_cached_req_ids out))) s1 = Inr s'"
    using run True by (auto simp: queue_saves_def Let_def L_def split: sum.splits)
  have "P s1 \<and> tracked_by heap s1"
  proof (rule fold_res_inv[OF s1])
    fix q u u' assume "P u \<and> tracked_by heap u" "save_new_request cd cfg heap out L q u = Inr u'"
    then show "P u' \<and> tracked_by heap u'"
      by (elim conjE save_new_request_step) (auto intro: step queue_save_tracked_by)
  qed (use P tb in simp)
  then show ?thesis
  proof (rule fold_res_inv[OF s2])
    fix q u u' assume "P u \<and> tracked_by heap u" "save_cached_request cd cfg heap out q u = Inr u'"
    then show "P u' \<and> tracked_by heap u'"
      by (elim conjE save_cached_request_step) (auto intro: step queue_save_tracked_by)
  qed
next
  case False
  with run P tb show ?thesis by (simp add: queue_saves_def)
qed

lemma sched_inv_build:
  assumes "build_connector_meta cd cfg heap s out = Inr (md, s')" and "sched_inv s" and "tracked_by heap s"
  shows "sched_inv s'"
proof -
  obtain s1 where s1: "queue_saves cd cfg heap out s = Inr s1"
    and s': "s' = snd (detach_metadata (so_finished out) (preempted_ids out)
       (fold drop_preempted (preempted_ids out)
         (fold drop_decisions (so_finished out @ preempted_ids out)
           (filter_batches (so_finished out) (preempted_ids out) s1))))"
    using assms(1) by (auto simp: build_connector_meta_def Let_def split: sum.splits)
  have "sched_inv s1"
    using queue_saves_rule[where P = sched_inv, OF s1 assms(2,3)] queue_save_inv by blast
  then show ?thesis
    unfolding s'
    by (intro sched_inv_detach fold_inv[where P = sched_inv] sched_inv_drop_preempted
        sched_inv_drop_decisions sched_inv_filter)
qed

subsection \<open>Completion\<close>

lemma sched_inv_publish: "sched_inv s \<Longrightarrow> sched_inv (snd (publish_source cfg r bs s))"
  by (rule sched_inv_cong[of _ s]) (auto simp: publish_source_def Let_def)

lemma sched_inv_finish:
  assumes "request_finished cfg s r bs = (d, s')" and "sched_inv s"
  shows "sched_inv s'"
proof -
  obtain td s1 where p: "publish_source cfg r bs s = (td, s1)" by fastforce
  then have s1: "sched_inv s1" using sched_inv_publish[OF assms(2), of cfg r bs] by simp
  have delayed: "sched_inv (s1\<lparr>s_finished_waits := dict_set rid w (s_finished_waits s1),
      s_delayed := insert rid (s_delayed s1)\<rparr>)" for rid w
    by (rule sched_inv_waits[OF s1]) (use s1 in \<open>auto simp: sched_inv_def dict_simps\<close>)
  show ?thesis
    using assms(1) p s1 delayed sched_inv_forget
    by (auto simp: request_finished_def Let_def split: if_splits)
qed

lemma sched_inv_take_report:
  assumes "sched_inv (fst st)" shows "sched_inv (fst (take_report cfg report st))"
proof -
  obtain s logs where st: "st = (s, logs)" by fastforce
  have pop: "sched_inv (s\<lparr>s_load_traces := dict_pop rid (s_load_traces s)\<rparr>)" for rid
    using assms load_ids_pop[of s rid] by (auto simp: st sched_inv_def dict_simps)
  have "sched_inv (s\<lparr>s_load_traces := dict_set rid t' (s_load_traces s)\<rparr>)"
    if "dict_get (s_load_traces s) rid = Some t" "lt_load_id t' = lt_load_id t" for rid t t'
  proof -
    have old: "\<exists>v. dict_get (s_load_traces s) k = Some v \<and> lt_load_id v = lt_load_id u"
      if "dict_get (dict_set rid t' (s_load_traces s)) k = Some u" for k u
      using that \<open>dict_get (s_load_traces s) rid = Some t\<close> \<open>lt_load_id t' = lt_load_id t\<close>
      by (auto simp: pd.get_put split: if_splits)
    have "load_ids_bounded (s\<lparr>s_load_traces := dict_set rid t' (s_load_traces s)\<rparr>)"
      using assms by (fastforce simp: st sched_inv_def load_ids_bounded_def dest!: old)
    moreover have "load_ids_distinct (s\<lparr>s_load_traces := dict_set rid t' (s_load_traces s)\<rparr>)"
      using assms by (auto simp: st sched_inv_def load_ids_distinct_def dest!: old)
    ultimately show ?thesis
      using assms pd.keys_get[of rid "s_load_traces s"] that(1)
      by (auto simp: st sched_inv_def dict_simps)
  qed
  then show ?thesis
    using assms pop by (auto simp: st take_report_def Let_def split: option.splits)
qed

lemma sched_inv_releases:
  "sched_inv (s\<lparr>s_delayed := s_delayed s \<union> set c\<rparr>) \<Longrightarrow> sched_inv (fold release_completed c s)"
proof (induction c arbitrary: s)
  case (Cons rid c)
  have d: "s_delayed (release_completed rid s) = s_delayed s"
    by (simp add: release_completed_def forget_request_def)
  have "(release_completed rid s)\<lparr>s_delayed := s_delayed s \<union> set c\<rparr> =
      forget_request rid (s\<lparr>s_finished_waits := dict_pop rid (s_finished_waits s),
        s_delayed := s_delayed s \<union> set c\<rparr>)"
    by (simp add: release_completed_def forget_request_def)
  moreover have "sched_inv (s\<lparr>s_delayed := s_delayed s \<union> set (rid # c),
        s_finished_waits := dict_pop rid (s_finished_waits s), s_delayed := s_delayed s \<union> set c\<rparr>)"
    by (rule sched_inv_waits[OF Cons.prems]) (use Cons.prems in \<open>auto simp: sched_inv_def dict_simps\<close>)
  ultimately have "sched_inv ((release_completed rid s)\<lparr>s_delayed := s_delayed s \<union> set c\<rparr>)"
    by (simp add: sched_inv_forget)
  then show ?case using Cons.IH[of "release_completed rid s"] d by simp
qed simp

lemma sched_inv_output:
  assumes "sched_inv s"
  shows "sched_inv (fst (update_connector_output cfg s md fs))"
proof -
  obtain s1 logs where s1: "(case md of None \<Rightarrow> (s, [])
      | Some m \<Rightarrow> fold (take_report cfg) (wm_load_reports m) (s, [])) = (s1, logs)" by fastforce
  define c where "c = (case fs of None \<Rightarrow> [] | Some c \<Rightarrow> c)"
  have "sched_inv (fst (fold (take_report cfg) rs (s, [])))" for rs
    by (rule fold_inv[where P = "\<lambda>st. sched_inv (fst st)"]) (use assms sched_inv_take_report in auto)
  then have "sched_inv s1" using s1 assms by (auto split: option.splits) (metis fst_conv)
  have "sched_inv (s1\<lparr>s_delayed := (s_delayed s1 - set c) \<union> set c\<rparr>)"
    using \<open>sched_inv s1\<close> sched_inv_waits[of s1 "s_finished_waits s1" "s_delayed s1 \<union> set c"]
    by (auto simp: sched_inv_def)
  then have "sched_inv (fold release_completed c (s1\<lparr>s_delayed := s_delayed s1 - set c\<rparr>))"
    by (intro sched_inv_releases) simp
  then show ?thesis by (simp add: update_connector_output_def Let_def s1 c_def)
qed

section \<open>Reachable states\<close>

text \<open>
  One rule per operation. \<open>build_connector_meta\<close> reads the tracked request objects; each is
  the object of the request it is tracked for.
\<close>

inductive sched_step :: "cdiv_fun \<Rightarrow> sched_cfg \<Rightarrow> sched \<Rightarrow> sched \<Rightarrow> bool" for cd cfg where
  step_lookup: "get_num_new_matched_tokens cfg s r n dn reply = Inr (res, r', s') \<Longrightarrow> sched_step cd cfg s s'"
| step_alloc: "update_state_after_alloc cfg s a r blocks = Inr (r', s') \<Longrightarrow> sched_step cd cfg s s'"
| step_build: "build_connector_meta cd cfg heap s out = Inr (md, s') \<Longrightarrow> tracked_by heap s \<Longrightarrow>
     sched_step cd cfg s s'"
| step_finish: "request_finished cfg s r bs = (d, s') \<Longrightarrow> sched_step cd cfg s s'"
| step_output: "sched_step cd cfg s (fst (update_connector_output cfg s md fs))"
| step_close: "sched_step cd cfg s (close_sched s)"

inductive sched_reachable :: "cdiv_fun \<Rightarrow> sched_cfg \<Rightarrow> sched \<Rightarrow> bool" for cd cfg where
  reach_init: "sched_reachable cd cfg init_sched"
| reach_step: "sched_reachable cd cfg s \<Longrightarrow> sched_step cd cfg s s' \<Longrightarrow> sched_reachable cd cfg s'"

lemma sched_inv_close: "sched_inv s \<Longrightarrow> sched_inv (close_sched s)"
  by (auto simp: sched_inv_def close_sched_def load_ids_bounded_def load_ids_distinct_def dict_simps
      dict_keys_def)

lemmas sched_inv_ops = sched_inv_get_num sched_inv_alloc sched_inv_build sched_inv_finish
  sched_inv_output sched_inv_close

lemma sched_step_inv: "sched_step cd cfg s s' \<Longrightarrow> sched_inv s \<Longrightarrow> sched_inv s'"
  by (induction rule: sched_step.induct) (auto intro: sched_inv_ops)

lemma sched_reachable_inv: "sched_reachable cd cfg s \<Longrightarrow> sched_inv s"
  by (induction rule: sched_reachable.induct) (auto intro: init_sched_inv sched_step_inv)

section \<open>The two-stage plan\<close>

lemma prepare_prefill:
  "prepare_request cfg r0 = Inr r \<Longrightarrow> remote_prefill cfg r \<longleftrightarrow> remote_prefill cfg r0"
  by (auto simp: prepare_request_def truncate_mamba_prefill_def remote_prefill_def set_param_def
      rq_params_def Let_def split: sum.splits if_splits option.splits)

lemma prepare_request_id:
  "prepare_request cfg r0 = Inr r \<Longrightarrow> rq_request_id r = rq_request_id r0"
  by (auto simp: prepare_request_def truncate_mamba_prefill_def set_param_def Let_def
      split: sum.splits if_splits option.splits)

lemma store_lookup_bound:
  assumes "store_lookup cfg s r t dn reply = Inr (Some hit, c)" and "0 < sc_block_size cfg" and "0 \<le> t"
    and "pending_tokens (s_lookup_client s) (rq_request_id r) \<in> {None, Some (align_down t (sc_block_size cfg))}"
  shows "0 \<le> hit \<and> hit \<le> align_down t (sc_block_size cfg)"
  using assms ls.look_hit_le[of "s_lookup_client s" "rq_request_id r" "align_down t (sc_block_size cfg)"]
    align_down_nonneg[of "sc_block_size cfg" t]
  by (auto simp: store_lookup_def Let_def split: if_splits)


section \<open>Preemption\<close>

lemma fold_drop_decisions:
  "fold drop_decisions rs s = s\<lparr>s_lookup_client := fold (\<lambda>r c. discard c r) rs (s_lookup_client s),
     s_load_decisions := fold dict_pop rs (s_load_decisions s),
     s_transfer_decisions := fold dict_pop rs (s_transfer_decisions s)\<rparr>"
  by (induction rs arbitrary: s) (simp_all add: drop_decisions_def)

lemma fold_drop_preempted:
  "fold drop_preempted rs s = s\<lparr>s_load_traces := fold dict_pop rs (s_load_traces s),
     s_finished_waits := fold dict_pop rs (s_finished_waits s),
     s_delayed := s_delayed s - set rs, s_tracked := fold dict_pop rs (s_tracked s),
     s_saving := s_saving s - set rs, s_transferring := s_transferring s - set rs\<rparr>"
proof (induction rs arbitrary: s)
  case (Cons r rs)
  have "A - {r} - set rs = A - set (r # rs)" for A by auto
  with Cons show ?case by (simp add: drop_preempted_def)
qed simp

lemma build_connector_meta_cases:
  assumes "build_connector_meta cd cfg heap s out = Inr (md, s')"
  obtains s1 s2 where "queue_saves cd cfg heap out s = Inr s1"
    and "s2 = fold drop_preempted (preempted_ids out) (fold drop_decisions
          (so_finished out @ preempted_ids out)
          (filter_batches (so_finished out) (preempted_ids out) s1))"
    and "(md, s') = detach_metadata (so_finished out) (preempted_ids out) s2"
  using assms that by (auto simp: build_connector_meta_def Let_def split: sum.splits)

lemmas build_simps = fold_drop_decisions fold_drop_preempted filter_batches_def detach_metadata_def

text \<open>
  C7: once a step's metadata is built, nothing of a preempted request is left: no queued load, save,
  plan or source state is published for it, and the scheduler holds no trace, tracked state,
  decision, pending lookup or release dependency of it.
\<close>

theorem preempted_purged:
  assumes "build_connector_meta cd cfg heap s out = Inr (md, s')" and "rid \<in> set (preempted_ids out)"
  shows "rid \<notin> set (map lr_request_id (md_pool_loads md)) \<and> rid \<notin> set (map sr_request_id (md_pool_saves md))
    \<and> rid \<notin> set (map tp_request_id (md_transfer_plans md))
    \<and> rid \<notin> set (map ss_request_id (md_transfer_states md))
    \<and> \<not> dict_has (md_finished_waits md) rid \<and> rid \<in> set (md_preempted_request_ids md)
    \<and> \<not> dict_has (s_tracked s') rid \<and> \<not> dict_has (s_load_traces s') rid
    \<and> \<not> dict_has (s_load_decisions s') rid \<and> \<not> dict_has (s_transfer_decisions s') rid
    \<and> \<not> dict_has (s_finished_waits s') rid
    \<and> pending_tokens (s_lookup_client s') rid = None
    \<and> rid \<notin> s_saving s' \<union> s_transferring s' \<union> s_delayed s'"
  using assms(1)
proof (cases rule: build_connector_meta_cases)
  case (1 s1 s2)
  then show ?thesis
    using assms(2) by (auto simp: build_simps dict_simps ls.forgets simp del: fold_append)
qed

text \<open>
  C22: in every reachable scheduler state, load traces, issued saves and announced transfers belong to
  tracked requests, every unpublished release dependency is of a request whose blocks are held
  back, and the load IDs of the open traces are positive, distinct and not above the last issued one.
\<close>

theorem sched_reachable_consistent:
  assumes "sched_reachable cd cfg s"
  shows "set (dict_keys (s_load_traces s)) \<subseteq> set (dict_keys (s_tracked s))
    \<and> s_saving s \<union> s_transferring s \<subseteq> set (dict_keys (s_tracked s))
    \<and> set (dict_keys (s_finished_waits s)) \<subseteq> s_delayed s
    \<and> (\<forall>i t. dict_get (s_load_traces s) i = Some t \<longrightarrow> 0 < lt_load_id t \<and> lt_load_id t \<le> s_next_load_id s)
    \<and> (\<forall>i t j u. dict_get (s_load_traces s) i = Some t \<longrightarrow> dict_get (s_load_traces s) j = Some u \<longrightarrow>
         lt_load_id t = lt_load_id u \<longrightarrow> i = j)"
  using sched_reachable_inv[OF assms]
  by (auto simp: sched_inv_def load_ids_bounded_def load_ids_distinct_def)

section \<open>Save ranges\<close>

text \<open>The saves that one tracked request issues over a sequence of steps; each step sees the request
  object and the token count of that step.\<close>

fun save_run ::
  "cdiv_fun \<Rightarrow> sched_cfg \<Rightarrow> TrackedRequest \<Rightarrow> (request \<times> int) list \<Rightarrow>
     KVPoolSaveRequest list \<times> TrackedRequest" where
  "save_run cd cfg t [] = ([], t)"
| "save_run cd cfg t ((r, n) # steps) =
     (let (save, t1) = build_save_meta cd cfg r t n (tk_is_decode t);
          (saves, t2) = save_run cd cfg t1 steps
      in (case save of None \<Rightarrow> saves | Some v \<Rightarrow> v # saves, t2))"

lemma build_save_meta_spec:
  assumes "build_save_meta cd cfg r t n (tk_is_decode t) = (save, t1)" and "0 < sc_block_size cfg"
    and "ceil_div cd"
  shows "tk_is_decode t1 = tk_is_decode t \<and> tk_saved_tokens t \<le> tk_saved_tokens t1 \<and>
    (case save of None \<Rightarrow> t1 = t
     | Some v \<Rightarrow> tk_saved_tokens t \<le> sr_start_token v \<and> sr_start_token v < sr_end_token v
         \<and> sr_end_token v = tk_saved_tokens t1 \<and> sc_block_size cfg dvd sr_end_token v
         \<and> sr_end_token v \<le> n \<and> sr_end_token v \<le> rq_num_tokens r
         \<and> (if tk_is_decode t then rq_num_prompt_tokens r \<le> sr_start_token v
            else sr_start_token v = tk_saved_tokens t))"
proof -
  let ?bs = "sc_block_size cfg"
  have "align_down (min n (rq_num_tokens r)) ?bs \<le> min n (rq_num_tokens r)"
    using assms(2) by (rule align_down_le)
  moreover have "rq_num_prompt_tokens r \<le> cd (rq_num_prompt_tokens r) ?bs * ?bs"
    using assms(2,3) cdiv_le_iff[of cd ?bs "rq_num_prompt_tokens r" "cd (rq_num_prompt_tokens r) ?bs"]
    by (simp add: mult.commute)
  ultimately show ?thesis
    using assms(1) by (auto simp: build_save_meta_def Let_def split: if_splits)
qed

text \<open>
  The ranges a request saves never overlap and come in order; each is non-empty, ends on a block
  boundary and within the tokens known at its step; a request that is not decoding saves every token
  from its starting point to the last boundary exactly once (no gap), and a decoding request never
  saves a token of its prompt.
\<close>

theorem save_ranges_chain:
  assumes "save_run cd cfg t steps = (saves, t')" and "0 < sc_block_size cfg" and "ceil_div cd"
  shows "sorted_wrt (\<lambda>a b. sr_end_token a \<le> sr_start_token b) saves
    \<and> (\<forall>v \<in> set saves. tk_saved_tokens t \<le> sr_start_token v \<and> sr_start_token v < sr_end_token v
         \<and> sr_end_token v \<le> tk_saved_tokens t' \<and> sc_block_size cfg dvd sr_end_token v
         \<and> (\<exists>(r, n) \<in> set steps. sr_end_token v \<le> n \<and> sr_end_token v \<le> rq_num_tokens r
              \<and> (tk_is_decode t \<longrightarrow> rq_num_prompt_tokens r \<le> sr_start_token v)))
    \<and> (\<not> tk_is_decode t \<longrightarrow>
         (\<Union>v \<in> set saves. {sr_start_token v..<sr_end_token v}) = {tk_saved_tokens t..<tk_saved_tokens t'})
    \<and> tk_saved_tokens t \<le> tk_saved_tokens t'"
  using assms(1)
proof (induction steps arbitrary: t saves)
  case (Cons step steps)
  obtain r n where step: "step = (r, n)" by fastforce
  obtain save t1 rest where b: "build_save_meta cd cfg r t n (tk_is_decode t) = (save, t1)"
    and rest: "save_run cd cfg t1 steps = (rest, t')"
    and saves: "saves = (case save of None \<Rightarrow> rest | Some v \<Rightarrow> v # rest)"
    using Cons.prems by (auto simp: step Let_def split: prod.splits)
  note spec = build_save_meta_spec[OF b assms(2,3)]
  note IH = Cons.IH[OF rest]
  show ?case
  proof (cases save)
    case None
    with spec IH saves show ?thesis by (auto simp: step)
  next
    case (Some v)
    have un: "(\<Union>v \<in> set saves. {sr_start_token v..<sr_end_token v}) = {tk_saved_tokens t..<tk_saved_tokens t'}"
      if "\<not> tk_is_decode t"
      using spec IH Some that saves by (auto simp: ivl_disj_un_two(3))
    show ?thesis
      using spec IH Some saves un by (force simp: step)
  qed
qed auto

section \<open>Release of finished requests\<close>

definition source_expected :: "sched_cfg \<Rightarrow> request \<Rightarrow> bool" where
  "source_expected cfg r =
     (sc_is_producer cfg \<and> param_true (rq_params r) ''transfer_id'' \<and> param_true (rq_params r) ''do_remote_decode'')"

text \<open>
  A finished request holds its blocks back exactly when it still has blocks and either saves were
  issued for it or it is a capped prefill whose KV a decoder will fetch; then the release dependency
  names exactly these operations, otherwise every trace of the request is dropped. An expected
  transfer is published as ready with the blocks or as cancelled, never silently left open.
\<close>

theorem request_finished_release:
  assumes "request_finished cfg s r bs = (delay, s')"
  defines "save \<equiv> rq_request_id r \<in> s_saving s \<and> any_blocks bs"
    and "send \<equiv> source_expected cfg r \<and> rq_status r = FINISHED_LENGTH_CAPPED \<and> any_blocks bs"
  shows "delay = (save \<or> send)
    \<and> (delay \<longrightarrow> rq_request_id r \<in> s_delayed s' \<and> dict_get (s_finished_waits s') (rq_request_id r) =
          Some \<lparr>fw_store_save = save, fw_kv_transfer = send\<rparr>)
    \<and> (\<not> delay \<longrightarrow> \<not> dict_has (s_tracked s') (rq_request_id r) \<and> \<not> dict_has (s_load_traces s') (rq_request_id r)
          \<and> rq_request_id r \<notin> s_saving s' \<union> s_transferring s' \<and> s_delayed s' = s_delayed s)
    \<and> s_transfer_state s' = s_transfer_state s @
        (if source_expected cfg r then
           [\<lparr>ss_request_id = rq_request_id r, ss_transfer_id = py_str (param (rq_params r) ''transfer_id''),
             ss_source_block_ids = (if send then bs else []), ss_ready = send, ss_cancelled = (\<not> send)\<rparr>]
         else [])"
  using assms(1) unfolding save_def send_def
  by (auto simp: request_finished_def publish_source_def source_expected_def Let_def forget_request_def
      dict_simps split: if_splits)

lemma queue_saves_waits:
  assumes "queue_saves cd cfg heap out s = Inr s'" and "tracked_by heap s"
  shows "s_finished_waits s' = s_finished_waits s \<and> s_delayed s' = s_delayed s"
  using queue_saves_rule[where P = "\<lambda>u. s_finished_waits u = s_finished_waits s \<and> s_delayed u = s_delayed s",
      OF assms(1) _ assms(2)] queue_save_fields(3,4) by auto

lemma fold_release:
  "fold release_completed rs s = s\<lparr>s_load_traces := fold dict_pop rs (s_load_traces s),
     s_finished_waits := fold dict_pop rs (s_finished_waits s), s_tracked := fold dict_pop rs (s_tracked s),
     s_saving := s_saving s - set rs, s_transferring := s_transferring s - set rs\<rparr>"
proof (induction rs arbitrary: s)
  case (Cons r rs)
  have "A - {r} - set rs = A - set (r # rs)" for A by auto
  with Cons show ?case by (simp add: release_completed_def forget_request_def)
qed simp

lemma request_finished_release_pre:
  assumes "request_finished cfg s r bs = (True, s')"
  shows "rq_request_id r \<in> s_delayed s' \<and> dict_has (s_finished_waits s') (rq_request_id r)"
  using assms by (auto simp: request_finished_def Let_def dict_simps split: prod.splits if_splits)

lemma output_releases:
  assumes "rid \<in> set fs"
  shows "let s' = fst (update_connector_output cfg s wm (Some fs))
    in rid \<notin> s_delayed s' \<union> s_saving s' \<union> s_transferring s'
       \<and> \<not> dict_has (s_tracked s') rid \<and> \<not> dict_has (s_load_traces s') rid"
proof -
  obtain s1 logs where s1: "(case wm of None \<Rightarrow> (s, [])
      | Some m \<Rightarrow> fold (take_report cfg) (wm_load_reports m) (s, [])) = (s1, logs)" by fastforce
  show ?thesis
    using assms by (simp add: update_connector_output_def s1 fold_release dict_simps Let_def)
qed

text \<open>
  The release dependency of a delayed request is published in the metadata of the next step and
  only there; the blocks stay held until the worker reports the request as sent, and that report
  releases them and drops all state of the request.
\<close>

theorem release_published_once:
  assumes fin: "request_finished cfg s r bs = (True, s1)" and tb: "tracked_by heap s1"
    and build: "build_connector_meta cd cfg heap s1 out = Inr (md, s2)"
    and live: "rq_request_id r \<notin> set (preempted_ids out)"
  shows "dict_get (md_finished_waits md) (rq_request_id r) = dict_get (s_finished_waits s1) (rq_request_id r)
    \<and> dict_has (md_finished_waits md) (rq_request_id r)
    \<and> s_finished_waits s2 = [] \<and> rq_request_id r \<in> s_delayed s2 \<and> has_pending_push_work s2
    \<and> (\<forall>wm fs. rq_request_id r \<in> set fs \<longrightarrow>
         (let s3 = fst (update_connector_output cfg s2 wm (Some fs))
          in rq_request_id r \<notin> s_delayed s3 \<union> s_saving s3 \<union> s_transferring s3
             \<and> \<not> dict_has (s_tracked s3) (rq_request_id r) \<and> \<not> dict_has (s_load_traces s3) (rq_request_id r)))"
proof -
  have w: "rq_request_id r \<in> s_delayed s1" "dict_has (s_finished_waits s1) (rq_request_id r)"
    using request_finished_release_pre[OF fin] by auto
  obtain u1 u2 where u: "queue_saves cd cfg heap out s1 = Inr u1"
    "u2 = fold drop_preempted (preempted_ids out) (fold drop_decisions
          (so_finished out @ preempted_ids out)
          (filter_batches (so_finished out) (preempted_ids out) u1))"
    "(md, s2) = detach_metadata (so_finished out) (preempted_ids out) u2"
    using build by (rule build_connector_meta_cases)
  note eq = queue_saves_waits[OF u(1) tb]
  have m: "dict_get (md_finished_waits md) (rq_request_id r) = dict_get (s_finished_waits s1) (rq_request_id r)"
    "s_finished_waits s2 = []" "rq_request_id r \<in> s_delayed s2"
    using u(2,3) live w eq by (auto simp: build_simps dict_simps simp del: fold_append)
  then have "dict_has (md_finished_waits md) (rq_request_id r)" "has_pending_push_work s2"
    using w by (auto simp: dict_has_def has_pending_push_work_def)
  with m show ?thesis by (intro conjI allI impI output_releases) simp_all
qed

section \<open>Load reports\<close>

text \<open>
  a report of an earlier load attempt has no effect: the attempt that an allocation opens has a
  load ID above every ID issued before, so whatever a report with an earlier ID says, the scheduler's
  state and its log stay as they are.
\<close>

theorem stale_report_ignored:
  assumes "sched_reachable cd cfg s" and "update_state_after_alloc cfg s a r blocks = Inr (r', s')"
    and "dict_has (s_load_decisions s) (rq_request_id r) \<or> dict_has (s_transfer_decisions s) (rq_request_id r)"
    and "rp_request_id report = rq_request_id r" and "rp_load_id report \<le> s_next_load_id s"
  shows "take_report cfg report (s', logs) = (s', logs)
    \<and> (\<exists>t. dict_get (s_load_traces s') (rq_request_id r) = Some t \<and> lt_load_id t = s_next_load_id s + 1)"
proof -
  have "\<exists>t. dict_get (s_load_traces s') (rq_request_id r) = Some t \<and> lt_load_id t = s_next_load_id s + 1"
    using assms(2,3)
    by (auto simp: update_state_after_alloc_def Let_def open_trace_def dict_has_def announce_source_def
        new_trace_def pd.get_put split: sum.splits if_splits option.splits)
  then show ?thesis using assms(4,5) by (auto simp: take_report_def Let_def)
qed

section \<open>A concrete run\<close>

text \<open>
  A decode request with 112 prompt tokens, 32 of them cached locally and 80 in the Store, and a
  prefill request that a decoder will fetch: the inputs on which the properties above are applied.
\<close>

definition ex_cfg :: sched_cfg where
  "ex_cfg = make_sched_cfg cdiv_ref ''kv_both'' [] True 16 [(16, None)] False 1"

definition ex_decode :: request where
  "ex_decode = \<lparr>rq_request_id = ''d-1'', rq_num_prompt_tokens = 112, rq_num_tokens = 112,
     rq_max_tokens = 8, rq_prompt_token_ids = None, rq_prompt_embeds = None, rq_all_token_ids = [],
     rq_block_hashes = [''h0'', ''h1''],
     rq_kv_transfer_params = Some [(''do_remote_prefill'', PBool True), (''remote_engine_id'', PStr ''p0''),
       (''remote_bootstrap_addr'', PStr ''http://p:8998''), (''transfer_id'', PStr ''xfer-1'')],
     rq_status = OTHER_STATUS\<rparr>"

definition ex_blocks :: kv_blocks where
  "ex_blocks = \<lparr>kb_block_ids = [[10, 11, 12, 13, 14, 15, 16]], kb_unhashed = GNested [[12, 13, 14, 15, 16]]\<rparr>"

definition ex_looked :: sched where
  "ex_looked = snd (snd (projr
     (get_num_new_matched_tokens ex_cfg init_sched ex_decode 32 True (Reply (be_bytes 4 80)))))"

definition ex_allocated :: sched where
  "ex_allocated = snd (projr (update_state_after_alloc ex_cfg ex_looked 0 ex_decode ex_blocks))"

definition ex_output :: "string list \<Rightarrow> scheduler_output" where
  "ex_output preempted = \<lparr>so_new_reqs = [], so_cached_req_ids = [], so_cached_new_block_ids = [],
     so_cached_num_computed = [], so_num_scheduled = [], so_finished = [], so_preempted = Some preempted\<rparr>"

definition ex_prefill :: request where
  "ex_prefill = \<lparr>rq_request_id = ''p-1'', rq_num_prompt_tokens = 64, rq_num_tokens = 64,
     rq_max_tokens = 1, rq_prompt_token_ids = None, rq_prompt_embeds = None, rq_all_token_ids = [],
     rq_block_hashes = [''h0''],
     rq_kv_transfer_params = Some [(''do_remote_decode'', PBool True), (''transfer_id'', PStr ''xfer-1'')],
     rq_status = FINISHED_LENGTH_CAPPED\<rparr>"

definition ex_tracked :: TrackedRequest where
  "ex_tracked = \<lparr>tk_request = 0, tk_block_ids = [[1, 2, 3, 4]], tk_saved_tokens = 0, tk_is_decode = False\<rparr>"

definition ex_finished :: sched where
  "ex_finished = snd (request_finished ex_cfg
     (snd (projr (update_state_after_alloc ex_cfg init_sched 0 ex_prefill ex_blocks))) ex_prefill [[1, 2]])"

lemma ex_look: "get_num_new_matched_tokens ex_cfg init_sched ex_decode 32 True (Reply (be_bytes 4 80)) =
   Inr ((Some 80, True), ex_decode, ex_looked)"
  by code_simp

lemma ex_alloc: "update_state_after_alloc ex_cfg ex_looked 0 ex_decode ex_blocks =
   Inr (set_param ex_decode ''do_remote_prefill'' (PBool False), ex_allocated)"
  by code_simp

lemma ex_build: "build_connector_meta cdiv_ref ex_cfg (\<lambda>_. ex_decode) ex_allocated (ex_output [''d-1'']) =
   Inr (projr (build_connector_meta cdiv_ref ex_cfg (\<lambda>_. ex_decode) ex_allocated (ex_output [''d-1''])))"
  by code_simp

lemma ex_reachable: "sched_reachable cdiv_ref ex_cfg ex_looked" "sched_reachable cdiv_ref ex_cfg ex_allocated"
proof -
  show looked: "sched_reachable cdiv_ref ex_cfg ex_looked"
    by (rule reach_step[OF reach_init step_lookup[OF ex_look]])
  show "sched_reachable cdiv_ref ex_cfg ex_allocated"
    by (rule reach_step[OF looked step_alloc[OF ex_alloc]])
qed


theorem preempted_purged_witness:
  "\<not> dict_has (s_tracked (snd (projr (build_connector_meta cdiv_ref ex_cfg (\<lambda>_. ex_decode) ex_allocated
      (ex_output [''d-1'']))))) ''d-1''"
proof -
  obtain md s' where "projr (build_connector_meta cdiv_ref ex_cfg (\<lambda>_. ex_decode) ex_allocated
      (ex_output [''d-1''])) = (md, s')" by fastforce
  then show ?thesis
    using preempted_purged[of cdiv_ref ex_cfg "\<lambda>_. ex_decode" ex_allocated "ex_output [''d-1'']" md s' "''d-1''"]
      ex_build by (simp add: preempted_ids_def ex_output_def)
qed

theorem sched_reachable_consistent_witness:
  "set (dict_keys (s_load_traces ex_allocated)) \<subseteq> set (dict_keys (s_tracked ex_allocated))"
  using sched_reachable_consistent[OF ex_reachable(2)] by blast

theorem save_ranges_chain_witness:
  "(\<Union>v \<in> set (fst (save_run cdiv_ref ex_cfg ex_tracked [(ex_prefill, 20), (ex_prefill, 64)])).
      {sr_start_token v..<sr_end_token v}) = {0..<64}"
proof -
  have "save_run cdiv_ref ex_cfg ex_tracked [(ex_prefill, 20), (ex_prefill, 64)] =
      (fst (save_run cdiv_ref ex_cfg ex_tracked [(ex_prefill, 20), (ex_prefill, 64)]),
       ex_tracked\<lparr>tk_saved_tokens := 64\<rparr>)"
    "0 < sc_block_size ex_cfg" "\<not> tk_is_decode ex_tracked" "tk_saved_tokens ex_tracked = 0"
    by code_simp+
  then show ?thesis
    using save_ranges_chain[of cdiv_ref ex_cfg ex_tracked "[(ex_prefill, 20), (ex_prefill, 64)]"]
      ceil_div_ref by simp
qed

theorem request_finished_release_witness:
  "fst (request_finished ex_cfg init_sched ex_prefill [[1, 2]]) \<and>
   \<not> fst (request_finished ex_cfg init_sched ex_prefill [[]])"
proof -
  obtain d s where f: "request_finished ex_cfg init_sched ex_prefill [[1, 2]] = (d, s)" by fastforce
  obtain d' s' where g: "request_finished ex_cfg init_sched ex_prefill [[]] = (d', s')" by fastforce
  have "source_expected ex_cfg ex_prefill" "rq_status ex_prefill = FINISHED_LENGTH_CAPPED" by code_simp+
  then show ?thesis
    using request_finished_release[OF f] request_finished_release[OF g] f g by (simp add: any_blocks_def)
qed

theorem release_published_once_witness:
  "dict_has (md_finished_waits (fst (projr (build_connector_meta cdiv_ref ex_cfg (\<lambda>_. ex_prefill)
      ex_finished (ex_output []))))) ''p-1''"
proof -
  define s0 where "s0 = snd (projr (update_state_after_alloc ex_cfg init_sched 0 ex_prefill ex_blocks))"
  have "request_finished ex_cfg s0 ex_prefill [[1, 2]] = (True, ex_finished)"
    unfolding s0_def by code_simp
  moreover have "s_tracked ex_finished = [(''p-1'', \<lparr>tk_request = 0, tk_block_ids = [[10, 11, 12, 13, 14, 15, 16]],
      tk_saved_tokens = 0, tk_is_decode = False\<rparr>)]"
    by code_simp
  then have "tracked_by (\<lambda>_. ex_prefill) ex_finished"
    by (simp add: tracked_by_def dict_get_def ex_prefill_def)
  moreover have "build_connector_meta cdiv_ref ex_cfg (\<lambda>_. ex_prefill) ex_finished (ex_output []) =
      Inr (projr (build_connector_meta cdiv_ref ex_cfg (\<lambda>_. ex_prefill) ex_finished (ex_output [])))"
    by code_simp
  moreover have "rq_request_id ex_prefill = ''p-1''" "preempted_ids (ex_output []) = []"
    by (simp_all add: ex_prefill_def preempted_ids_def ex_output_def)
  ultimately show ?thesis
    using release_published_once[of ex_cfg s0 ex_prefill "[[1, 2]]" ex_finished "\<lambda>_. ex_prefill" cdiv_ref
        "ex_output []"] by (metis empty_iff empty_set prod.collapse)
qed

definition ex_report :: "int \<Rightarrow> MTSCLoadReport" where
  "ex_report load_id = \<lparr>rp_request_id = ''d-1'', rp_load_id = load_id, rp_worker_rank = 0,
     rp_local_tokens = 32, rp_store_tokens = 48, rp_pd_tokens = 32, rp_store_ms = 1, rp_pd_ms = 2,
     rp_total_ms = 3, rp_store_status = ''ok'', rp_status = ''ok''\<rparr>"

theorem stale_report_ignored_witness:
  "take_report ex_cfg (ex_report 0) (ex_allocated, []) = (ex_allocated, [])"
proof -
  have "dict_has (s_load_decisions ex_looked) (rq_request_id ex_decode)"
    "rp_request_id (ex_report 0) = rq_request_id ex_decode" "rp_load_id (ex_report 0) \<le> s_next_load_id ex_looked"
    by code_simp+
  then show ?thesis
    using stale_report_ignored[OF ex_reachable(1) ex_alloc] by blast
qed

end
