(* ===== verification/Store_Keys.thy ===== *)
theory Store_Keys
  imports Py_Values
begin

text \<open>
  Models the keys and addresses of \<^verbatim>\<open>mtsc/kv_cache_pool.py\<close>: \<open>KeyMetadata\<close>,
  \<open>PoolKey\<close>, \<open>ChunkedTokenDatabase\<close>, the TP striping of PUTs chosen in
  \<open>MooncakeKVCachePool.__init__\<close>, \<open>_init_lookup_metadata\<close> and
  \<open>_process_tokens\<close>. A generator is the list of what it yields. vLLM's
  \<open>BlockHashListWithBlockSize\<close> is the argument \<open>merge\<close>, and \<open>cdiv\<close> the argument
  \<open>cd\<close>. A chunk hash is a byte string, its key text the hexadecimal digits.
\<close>

section \<open>Keys\<close>

record KeyMetadata =
  km_model_name :: string
  km_tp_rank :: int
  km_pcp_rank :: int
  km_dcp_rank :: int
  km_pp_rank :: int
  km_group_id :: int

record PoolKey =
  pk_metadata :: KeyMetadata
  pk_chunk_hash :: string

definition hex_digit :: "nat \<Rightarrow> char" where
  "hex_digit d = (if d < 10 then char_of (48 + d) else char_of (87 + d))"

definition bytes_hex :: "string \<Rightarrow> string" where
  "bytes_hex h = concat (map (\<lambda>c. [hex_digit (of_char c div 16), hex_digit (of_char c mod 16)]) h)"

definition to_string :: "PoolKey \<Rightarrow> string" where
  "to_string k =
     (let m = pk_metadata k
      in km_model_name m @ ''@tp_rank:'' @ int_str (km_tp_rank m) @ ''@pcp'' @ int_str (km_pcp_rank m)
         @ ''@dcp'' @ int_str (km_dcp_rank m) @ ''@pp_rank:'' @ int_str (km_pp_rank m)
         @ ''@group:'' @ int_str (km_group_id m) @ ''@'' @ pk_chunk_hash k)"

text \<open>\<open>model.rstrip("/").split("/")[-1]\<close>.\<close>

definition model_key_name :: "string \<Rightarrow> string" where
  "model_key_name model = last (str_split (CHR ''/'') (str_rstrip_char (CHR ''/'') model))"

section \<open>The chunk database\<close>

record ChunkedTokenDatabase =
  db_metadata :: KeyMetadata
  db_block_size :: int
  db_hash_block_size :: int
  db_base_addr :: "int list"
  db_block_len :: "int list"

definition make_database :: "KeyMetadata \<Rightarrow> int \<Rightarrow> int option \<Rightarrow> ChunkedTokenDatabase result" where
  "make_database metadata block_size hash_block_size =
     (let hb = (case hash_block_size of None \<Rightarrow> block_size | Some h \<Rightarrow> if h = 0 then block_size else h)
      in if hb = 0 then Inl ZeroDivisionError
         else if block_size mod hb \<noteq> 0
         then Inl (ValueError ''block_size must be a multiple of hash_block_size'')
         else Inr \<lparr>db_metadata = metadata, db_block_size = block_size, db_hash_block_size = hb,
                   db_base_addr = [], db_block_len = []\<rparr>)"

text \<open>One region of a chunk: its address and size.\<close>

definition region_slot ::
  "cdiv_fun \<Rightarrow> ChunkedTokenDatabase \<Rightarrow> int \<Rightarrow> int \<Rightarrow> int \<Rightarrow> nat \<times> int \<Rightarrow> (int \<times> int) result" where
  "region_slot cd db start stop block_id ib =
     (let (index, base_addr) = ib; lens = db_block_len db
      in if lens = [] then Inl ZeroDivisionError
         else (let len = lens ! (index mod length lens)
               in if (stop - start) mod db_block_size db \<noteq> 0 then Inl AssertionError
                  else Inr (base_addr + block_id * len, len * cd (stop - start) (db_block_size db))))"

definition prepare_value ::
  "cdiv_fun \<Rightarrow> ChunkedTokenDatabase \<Rightarrow> int \<Rightarrow> int \<Rightarrow> int list \<Rightarrow> (int list \<times> int list \<times> int) result" where
  "prepare_value cd db start stop block_ids =
     (case py_index block_ids (start div db_block_size db) of Inl e \<Rightarrow> Inl e
      | Inr block_id \<Rightarrow>
         (case map_res (region_slot cd db start stop block_id) (List.enumerate 0 (db_base_addr db)) of
            Inl e \<Rightarrow> Inl e
          | Inr slots \<Rightarrow> Inr (map fst slots, map snd slots, block_id)))"

type_synonym hash_merge = "int \<Rightarrow> int \<Rightarrow> string list \<Rightarrow> string list"

definition hashes_at :: "hash_merge \<Rightarrow> int \<Rightarrow> int \<Rightarrow> string list \<Rightarrow> string list" where
  "hashes_at merge hash_block_size block_size hashes =
     (if block_size = hash_block_size then hashes else merge hash_block_size block_size hashes)"

type_synonym chunk = "int \<times> int \<times> PoolKey"

text \<open>The loop of \<open>process_tokens\<close> from chunk \<open>cid\<close> on.\<close>

fun chunks_from :: "ChunkedTokenDatabase \<Rightarrow> int \<Rightarrow> int \<Rightarrow> int \<Rightarrow> string list \<Rightarrow> chunk list" where
  "chunks_from db token_len mask_num cid [] = []"
| "chunks_from db token_len mask_num cid (h # hs) =
     (let start = cid * db_block_size db
      in if start \<ge> token_len then []
         else (let stop = min (start + db_block_size db) token_len;
                   rest = chunks_from db token_len mask_num (cid + 1) hs
               in if start < mask_num then rest
                  else (start, stop, \<lparr>pk_metadata = db_metadata db, pk_chunk_hash = bytes_hex h\<rparr>) # rest))"

definition process_tokens ::
  "hash_merge \<Rightarrow> ChunkedTokenDatabase \<Rightarrow> int \<Rightarrow> string list \<Rightarrow> int \<Rightarrow> chunk list" where
  "process_tokens merge db token_len hashes mask_num =
     (if hashes = [] then []
      else chunks_from db token_len mask_num 0
             (hashes_at merge (db_hash_block_size db) (db_block_size db) hashes))"

section \<open>The pool's chunk selection\<close>

definition chunk_selected ::
  "cdiv_fun \<Rightarrow> ChunkedTokenDatabase \<Rightarrow> int \<Rightarrow> bool list option \<Rightarrow> int \<Rightarrow> int \<Rightarrow> chunk \<Rightarrow> bool" where
  "chunk_selected cd db start_token chunk_mask put_step put_step_rank ch =
     (let chunk = fst ch div db_block_size db;
          relative = chunk - cd start_token (db_block_size db)
      in (case chunk_mask of None \<Rightarrow> True
          | Some m \<Rightarrow> 0 \<le> relative \<and> relative < int (length m) \<and> m ! nat relative)
         \<and> chunk mod put_step = put_step_rank)"

definition pool_process_tokens ::
  "cdiv_fun \<Rightarrow> hash_merge \<Rightarrow> ChunkedTokenDatabase \<Rightarrow> int \<Rightarrow> string list \<Rightarrow> int \<Rightarrow>
     bool list option \<Rightarrow> int \<Rightarrow> int \<Rightarrow> chunk list result" where
  "pool_process_tokens cd merge db token_count hashes start_token chunk_mask put_step put_step_rank =
     (if put_step \<le> 0 then Inl (ValueError ''put_step must be positive'')
      else Inr (filter (chunk_selected cd db start_token chunk_mask put_step put_step_rank)
                  (process_tokens merge db token_count hashes start_token)))"

section \<open>Ranks\<close>

record pool_topology =
  po_tp_rank :: int
  po_tp_size :: int
  po_pp_rank :: int
  po_pp_size :: int
  po_pcp_rank :: int
  po_pcp_size :: int
  po_dcp_rank :: int
  po_dcp_size :: int
  po_num_kv_head :: int

text \<open>\<open>rank\<close> is the worker's global rank, \<open>pcp_in_group\<close> and \<open>dcp_in_group\<close> its ranks in
  the context-parallel groups.\<close>

definition make_topology ::
  "int \<Rightarrow> int \<Rightarrow> int \<Rightarrow> int \<Rightarrow> int \<Rightarrow> int \<Rightarrow> int \<Rightarrow> int \<Rightarrow> int \<Rightarrow> pool_topology result" where
  "make_topology tp_rank tp_size rank pp_size pcp_size pcp_in_group dcp_size dcp_in_group num_kv_head =
     (if num_kv_head \<le> 0 \<or> tp_size \<le> 0 \<or> \<not> (0 \<le> tp_rank \<and> tp_rank < tp_size)
      then Inl (ValueError ''invalid KV head count or TP topology'')
      else Inr \<lparr>po_tp_rank = tp_rank, po_tp_size = tp_size,
                po_pp_rank = (rank div tp_size) mod pp_size, po_pp_size = pp_size,
                po_pcp_rank = (if pcp_size > 1 then pcp_in_group else 0), po_pcp_size = pcp_size,
                po_dcp_rank = (if dcp_size > 1 then dcp_in_group else 0), po_dcp_size = dcp_size,
                po_num_kv_head = num_kv_head\<rparr>)"

text \<open>\<open>(put_step, head_or_tp_rank)\<close>.\<close>

definition put_striping :: "pool_topology \<Rightarrow> (int \<times> int) result" where
  "put_striping t =
     (if po_num_kv_head t < po_tp_size t \<and> po_dcp_size t = 1
      then (if po_tp_size t mod po_num_kv_head t \<noteq> 0
            then Inl (ValueError ''TP size must be divisible by the KV head count'')
            else (let put_step = po_tp_size t div po_num_kv_head t
                  in Inr (put_step, po_tp_rank t div put_step)))
      else Inr (1, po_tp_rank t))"

definition worker_metadata :: "string \<Rightarrow> pool_topology \<Rightarrow> KeyMetadata result" where
  "worker_metadata model t =
     (case put_striping t of Inl e \<Rightarrow> Inl e
      | Inr (_, head) \<Rightarrow>
          Inr \<lparr>km_model_name = model_key_name model, km_tp_rank = head, km_pcp_rank = po_pcp_rank t,
               km_dcp_rank = po_dcp_rank t, km_pp_rank = po_pp_rank t, km_group_id = 0\<rparr>)"

definition lookup_ranks :: "pool_topology \<Rightarrow> (int \<times> int \<times> int \<times> int) list" where
  "lookup_ranks t =
     (if po_dcp_size t > 1
      then [(tp, pcp, tp mod po_dcp_size t, pp).
              pcp \<leftarrow> [0..po_pcp_size t - 1], tp \<leftarrow> [0..po_tp_size t - 1], pp \<leftarrow> [0..po_pp_size t - 1]]
      else [(tp, pcp, 0, pp).
              pcp \<leftarrow> [0..po_pcp_size t - 1], tp \<leftarrow> [0..min (po_tp_size t) (po_num_kv_head t) - 1],
              pp \<leftarrow> [0..po_pp_size t - 1]])"

definition init_lookup_metadata :: "pool_topology \<Rightarrow> ChunkedTokenDatabase \<Rightarrow> KeyMetadata list" where
  "init_lookup_metadata t db =
     map (\<lambda>(tp, pcp, dcp, pp). (db_metadata db)\<lparr>km_tp_rank := tp, km_pcp_rank := pcp,
              km_dcp_rank := dcp, km_pp_rank := pp\<rparr>) (lookup_ranks t)"

section \<open>Keys are unambiguous\<close>

lemma hex_digit_inj: "a < 16 \<Longrightarrow> b < 16 \<Longrightarrow> hex_digit a = hex_digit b \<Longrightarrow> a = b"
proof -
  assume lt: "a < 16" "b < 16" and eq: "hex_digit a = hex_digit b"
  have val: "of_char (hex_digit d) = (if d < 10 then 48 + d else 87 + d)" if "d < 16" for d :: nat
    using that by (simp add: hex_digit_def)
  from arg_cong[OF eq, of "of_char :: char \<Rightarrow> nat"] lt show "a = b"
    by (simp add: val split: if_splits)
qed

lemma hex_digit_not_at: "d < 16 \<Longrightarrow> hex_digit d \<noteq> CHR ''@''"
proof
  assume "d < 16" "hex_digit d = CHR ''@''"
  then have "(of_char (hex_digit d) :: nat) = 64" by simp
  with \<open>d < 16\<close> show False by (simp add: hex_digit_def split: if_splits)
qed

lemma bytes_hex_Nil [simp]: "bytes_hex [] = []"
  and bytes_hex_Cons [simp]:
    "bytes_hex (c # h) = hex_digit (of_char c div 16) # hex_digit (of_char c mod 16) # bytes_hex h"
  by (simp_all add: bytes_hex_def)

lemma char_nibbles: "(of_char c :: nat) div 16 < 16" "(of_char c :: nat) mod 16 < 16"
  using nat_of_char_less_256[of c] by (simp_all add: less_mult_imp_div_less)

lemma bytes_hex_inj [simp]: "bytes_hex h = bytes_hex h' \<longleftrightarrow> h = h'"
proof
  show "bytes_hex h = bytes_hex h' \<Longrightarrow> h = h'"
  proof (induction h arbitrary: h')
    case Nil
    then show ?case by (cases h') auto
  next
    case (Cons c h)
    then obtain c' t where h': "h' = c' # t" by (cases h') auto
    with Cons.prems have n: "(of_char c :: nat) div 16 = of_char c' div 16"
        "(of_char c :: nat) mod 16 = of_char c' mod 16" "bytes_hex h = bytes_hex t"
      by (auto dest!: hex_digit_inj[rotated 2] simp: char_nibbles)
    then have "(of_char c :: nat) = of_char c'" by (metis div_mult_mod_eq)
    then have "c = c'" by simp
    with Cons.IH[OF n(3)] h' show ?case by simp
  qed
qed simp

lemma bytes_hex_not_at: "CHR ''@'' \<notin> set (bytes_hex h)"
proof (induction h)
  case (Cons c h)
  then show ?case using hex_digit_not_at[OF char_nibbles(1)[of c]] hex_digit_not_at[OF char_nibbles(2)[of c]]
    by (auto simp del: of_char_of)
qed simp

lemma int_str_not_at: "CHR ''@'' \<notin> set (int_str i)"
  by (auto dest!: int_str_chars simp: is_digit_def)

text \<open>The last separator of a text splits it in only one way.\<close>

lemma split_last_sep:
  assumes "a @ c # x = b @ c # y" and "c \<notin> set x" and "c \<notin> set y"
  shows "a = b \<and> x = y"
proof -
  from assms(1) obtain us where
    "(a = b @ us \<and> us @ c # x = c # y) \<or> (a @ us = b \<and> c # x = us @ c # y)"
    by (auto simp: append_eq_append_conv2)
  then show ?thesis using assms(2,3) by (cases us) auto
qed

lemma split_last_field:
  assumes "a @ (CHR ''@'' # x) = b @ (CHR ''@'' # y)" and "CHR ''@'' \<notin> set x" and "CHR ''@'' \<notin> set y"
  shows "a = b" and "x = y"
  using split_last_sep[OF assms] by auto

text \<open>
  C25: two Store keys with the same text are the same key: model name, TP, context-parallel and
  pipeline ranks, cache group and chunk hash can all be read back, whatever characters the model
  name has, so no two chunks of the Store share an entry.
\<close>

theorem pool_key_injective:
  "to_string \<lparr>pk_metadata = m, pk_chunk_hash = bytes_hex h\<rparr> =
   to_string \<lparr>pk_metadata = m', pk_chunk_hash = bytes_hex h'\<rparr> \<longleftrightarrow> m = m' \<and> h = h'"
proof
  let ?f = "\<lambda>name i. CHR ''@'' # name @ int_str i"
  have plain: "CHR ''@'' \<notin> set (''tp_rank:'' @ int_str i)" "CHR ''@'' \<notin> set (''pcp'' @ int_str i)"
    "CHR ''@'' \<notin> set (''dcp'' @ int_str i)" "CHR ''@'' \<notin> set (''pp_rank:'' @ int_str i)"
    "CHR ''@'' \<notin> set (''group:'' @ int_str i)" for i
    by (simp_all add: int_str_not_at)
  have shape: "to_string \<lparr>pk_metadata = m, pk_chunk_hash = bytes_hex h\<rparr> =
      (((((km_model_name m @ ?f ''tp_rank:'' (km_tp_rank m)) @ ?f ''pcp'' (km_pcp_rank m))
         @ ?f ''dcp'' (km_dcp_rank m)) @ ?f ''pp_rank:'' (km_pp_rank m))
         @ ?f ''group:'' (km_group_id m)) @ (CHR ''@'' # bytes_hex h)" for m h
    by (simp add: to_string_def)
  assume "to_string \<lparr>pk_metadata = m, pk_chunk_hash = bytes_hex h\<rparr> =
    to_string \<lparr>pk_metadata = m', pk_chunk_hash = bytes_hex h'\<rparr>"
  note eq = this[unfolded shape]
  note e1 = split_last_field[OF eq bytes_hex_not_at bytes_hex_not_at]
  note e2 = split_last_field[OF e1(1) plain(5) plain(5)]
  note e3 = split_last_field[OF e2(1) plain(4) plain(4)]
  note e4 = split_last_field[OF e3(1) plain(3) plain(3)]
  note e5 = split_last_field[OF e4(1) plain(2) plain(2)]
  note e6 = split_last_field[OF e5(1) plain(1) plain(1)]
  from e1(2) e2(2) e3(2) e4(2) e5(2) e6 show "m = m' \<and> h = h'"
    by (cases m; cases m') simp
qed simp

section \<open>Chunks\<close>

lemma chunks_from_map:
  assumes "0 < db_block_size db"
  shows "chunks_from db n lo cid hs =
    map (\<lambda>(i, h). (i * db_block_size db, min (i * db_block_size db + db_block_size db) n,
                   \<lparr>pk_metadata = db_metadata db, pk_chunk_hash = bytes_hex h\<rparr>))
      (filter (\<lambda>(i, h). lo \<le> i * db_block_size db \<and> i * db_block_size db < n)
         (zip [cid..cid + int (length hs) - 1] hs))"
proof (induction hs arbitrary: cid)
  case (Cons h hs)
  let ?bs = "db_block_size db"
  have up: "[cid..cid + int (length (h # hs)) - 1] = cid # [cid + 1..(cid + 1) + int (length hs) - 1]"
    by (simp add: upto_rec1)
  show ?case
  proof (cases "n \<le> cid * ?bs")
    case True
    have "\<not> i * ?bs < n" if "cid \<le> i" for i
      using True that assms by (meson leD mult_right_mono order.trans less_imp_le)
    then have "filter (\<lambda>(i, h). lo \<le> i * ?bs \<and> i * ?bs < n)
        (zip [cid..cid + int (length (h # hs)) - 1] (h # hs)) = []"
      by (auto simp: filter_empty_conv dest!: set_zip_leftD simp del: upto.simps)
    with True show ?thesis by (simp del: upto.simps)
  next
    case False
    then show ?thesis using Cons.IH[of "cid + 1"] unfolding up by (auto simp: Let_def simp del: upto.simps)
  qed
qed simp

lemma in_process_tokens:
  assumes "0 < db_block_size db" and "ch \<in> set (process_tokens merge db n hashes lo)"
  obtains i where "0 \<le> i"
    and "i < int (length (hashes_at merge (db_hash_block_size db) (db_block_size db) hashes))"
    and "lo \<le> i * db_block_size db" and "i * db_block_size db < n"
    and "ch = (i * db_block_size db, min (i * db_block_size db + db_block_size db) n,
               \<lparr>pk_metadata = db_metadata db, pk_chunk_hash =
                  bytes_hex (hashes_at merge (db_hash_block_size db) (db_block_size db) hashes ! nat i)\<rparr>)"
proof -
  let ?hs = "hashes_at merge (db_hash_block_size db) (db_block_size db) hashes"
  from assms have "ch \<in> set (chunks_from db n lo 0 ?hs)"
    by (simp add: process_tokens_def split: if_splits)
  with assms(1) obtain i h where ih: "(i, h) \<in> set (zip [0..int (length ?hs) - 1] ?hs)"
    "lo \<le> i * db_block_size db" "i * db_block_size db < n"
    "ch = (i * db_block_size db, min (i * db_block_size db + db_block_size db) n,
           \<lparr>pk_metadata = db_metadata db, pk_chunk_hash = bytes_hex h\<rparr>)"
    by (auto simp: chunks_from_map)
  from ih(1) obtain k where k: "k < length ?hs" "i = int k" "h = ?hs ! k"
    by (auto simp: set_zip upto_int)
  show thesis by (rule that[of i]) (use k ih in auto)
qed

lemma process_tokens_start:
  assumes "0 < db_block_size db" and "ch \<in> set (process_tokens merge db n hashes lo)"
  shows "fst ch div db_block_size db * db_block_size db = fst ch"
  using assms by (auto elim!: in_process_tokens)

section \<open>Striping\<close>

lemma put_striping_Inr:
  assumes "put_striping t = Inr (step, h)" and "0 < po_num_kv_head t" and "0 < po_tp_size t"
  shows "0 < step" and "po_tp_size t mod step = 0" and "h = po_tp_rank t div step"
    and "po_dcp_size t = 1 \<Longrightarrow> po_tp_size t div step = min (po_tp_size t) (po_num_kv_head t)"
    and "po_dcp_size t \<noteq> 1 \<Longrightarrow> step = 1"
proof -
  have d: "po_num_kv_head t * (po_tp_size t div po_num_kv_head t) = po_tp_size t"
    if "po_tp_size t mod po_num_kv_head t = 0"
    using that by (metis add.right_neutral mult_div_mod_eq)
  have p: "0 < po_tp_size t div po_num_kv_head t" if "po_num_kv_head t < po_tp_size t"
    using that assms(2) by (simp add: pos_imp_zdiv_pos_iff)
  show "0 < step" "h = po_tp_rank t div step" "po_dcp_size t \<noteq> 1 \<Longrightarrow> step = 1"
    using assms p by (auto simp: put_striping_def Let_def split: if_splits)
  show "po_tp_size t mod step = 0"
    using assms(1) d by (auto simp: put_striping_def Let_def split: if_splits)
  show "po_tp_size t div step = min (po_tp_size t) (po_num_kv_head t)" if "po_dcp_size t = 1"
    using assms that d p
    by (auto simp: put_striping_def Let_def min_def split: if_splits)
qed

lemma put_striping_rank:
  "put_striping t = Inr (step, h) \<Longrightarrow> put_striping (t\<lparr>po_tp_rank := r\<rparr>) = Inr (step, r div step)"
  by (auto simp: put_striping_def Let_def split: if_splits)

text \<open>Within a run of \<open>step\<close> consecutive ranks each phase belongs to exactly one rank.\<close>

lemma one_rank_per_phase:
  assumes "0 < (step::int)"
  shows "\<exists>!r. r div step = h \<and> c mod step = (r + g) mod step"
proof (rule ex1I)
  let ?r = "h * step + (c - g) mod step"
  have "0 \<le> (c - g) mod step" "(c - g) mod step < step" using assms by simp_all
  then have "?r div step = h" using assms by simp
  moreover have "(?r + g) mod step = c mod step"
    by (metis add.commute diff_add_cancel mod_add_left_eq mod_mult_self3)
  ultimately show "?r div step = h \<and> c mod step = (?r + g) mod step" by simp
next
  fix r
  assume r: "r div step = h \<and> c mod step = (r + g) mod step"
  then have "(c - g) mod step = r mod step" by (metis add_diff_cancel_right' mod_diff_left_eq)
  with r show "r = h * step + (c - g) mod step" by (metis div_mult_mod_eq)
qed

text \<open>
  C24: replicated KV heads are written once. For every KV head (a value of the key's TP field), every
  chunk that an unstriped save would write is written by exactly one of the TP ranks that hold the
  head, whatever the group's phase offset: no chunk is skipped, and no two ranks write the same key.
\<close>

theorem put_striping_exactly_once:
  assumes "put_striping t = Inr (step, h0)" and "0 < po_num_kv_head t" and "0 < po_tp_size t"
    and "0 \<le> h" and "h < po_tp_size t div step"
    and "pool_process_tokens cd merge db n hashes start masked 1 0 = Inr unstriped"
    and "ch \<in> set unstriped"
  shows "\<exists>!r. 0 \<le> r \<and> r < po_tp_size t \<and> put_striping (t\<lparr>po_tp_rank := r\<rparr>) = Inr (step, h) \<and>
    (\<exists>chs. pool_process_tokens cd merge db n hashes start masked step ((r + g) mod step) = Inr chs
       \<and> ch \<in> set chs)"
proof -
  note st = put_striping_Inr[OF assms(1-3)]
  let ?c = "fst ch div db_block_size db"
  have one: "\<exists>!r. r div step = h \<and> ?c mod step = (r + g) mod step"
    using one_rank_per_phase[OF st(1)] by blast
  have rng: "0 \<le> r \<and> r < po_tp_size t" if "r div step = h" for r
  proof -
    have "h * step \<le> r" "r < (h + 1) * step"
      using that st(1) by (auto simp: minus_mod_eq_div_mult[symmetric] distrib_right)
    moreover have "(h + 1) * step \<le> po_tp_size t"
      using assms(5) st(1,2) by (metis add1_zle_eq mult_right_mono less_imp_le dvd_div_mult_self
          dvd_eq_mod_eq_0)
    ultimately show ?thesis using assms(4) st(1) by (meson mult_nonneg_nonneg less_imp_le order.trans less_le_trans)
  qed
  have sel: "(\<exists>chs. pool_process_tokens cd merge db n hashes start masked step ((r + g) mod step) = Inr chs
      \<and> ch \<in> set chs) \<longleftrightarrow> ?c mod step = (r + g) mod step" for r
    using assms(6,7) st(1) by (auto simp: pool_process_tokens_def chunk_selected_def Let_def)
  have "(0 \<le> r \<and> r < po_tp_size t \<and> put_striping (t\<lparr>po_tp_rank := r\<rparr>) = Inr (step, h) \<and>
    (\<exists>chs. pool_process_tokens cd merge db n hashes start masked step ((r + g) mod step) = Inr chs
       \<and> ch \<in> set chs)) \<longleftrightarrow> r div step = h \<and> ?c mod step = (r + g) mod step" for r
    unfolding sel put_striping_rank[OF assms(1), of r] using rng[of r] by auto
  with one show ?thesis by simp
qed

definition ex_topology :: pool_topology where
  "ex_topology = \<lparr>po_tp_rank = 0, po_tp_size = 8, po_pp_rank = 0, po_pp_size = 2, po_pcp_rank = 0,
      po_pcp_size = 1, po_dcp_rank = 0, po_dcp_size = 1, po_num_kv_head = 2\<rparr>"

definition ex_metadata :: KeyMetadata where
  "ex_metadata = \<lparr>km_model_name = ''m'', km_tp_rank = 0, km_pcp_rank = 0, km_dcp_rank = 0,
      km_pp_rank = 0, km_group_id = 0\<rparr>"

definition ex_db :: ChunkedTokenDatabase where
  "ex_db = \<lparr>db_metadata = ex_metadata, db_block_size = 16, db_hash_block_size = 16,
      db_base_addr = [1000, 9000], db_block_len = [64, 32]\<rparr>"

definition ex_chunk :: chunk where
  "ex_chunk = (16, 32, \<lparr>pk_metadata = ex_metadata, pk_chunk_hash = ''61''\<rparr>)"

lemma put_striping_exactly_once_witness:
  "\<exists>!r. 0 \<le> r \<and> r < po_tp_size ex_topology \<and>
      put_striping (ex_topology\<lparr>po_tp_rank := r\<rparr>) = Inr (4, 1) \<and>
      (\<exists>chs. pool_process_tokens cdiv_ref (\<lambda>_ _ hs. hs) ex_db 48 [''b'', ''a'', ''c''] 16
          (Some [True, False]) 4 ((r + 3) mod 4) = Inr chs \<and> ex_chunk \<in> set chs)"
proof (rule put_striping_exactly_once)
  show "pool_process_tokens cdiv_ref (\<lambda>_ _ hs. hs) ex_db 48 [''b'', ''a'', ''c''] 16
      (Some [True, False]) 1 0 = Inr [ex_chunk]"
    by code_simp
  show "put_striping ex_topology = Inr (4, 0)" by code_simp
qed (simp_all add: ex_topology_def)

section \<open>Lookup ranks\<close>

text \<open>
  The workers of the deployment that \<open>t\<close> belongs to: every TP, prefill-context and pipeline rank;
  vLLM builds the decode-context groups from consecutive TP ranks.
\<close>

definition peer_worker :: "pool_topology \<Rightarrow> pool_topology \<Rightarrow> bool" where
  "peer_worker t w \<longleftrightarrow>
     (\<exists>tp pcp pp. 0 \<le> tp \<and> tp < po_tp_size t \<and> 0 \<le> pcp \<and> pcp < po_pcp_size t \<and>
        0 \<le> pp \<and> pp < po_pp_size t \<and>
        w = t\<lparr>po_tp_rank := tp, po_pcp_rank := pcp, po_pp_rank := pp,
              po_dcp_rank := (if po_dcp_size t > 1 then tp mod po_dcp_size t else 0)\<rparr>)"

lemma heads_of_ranks:
  assumes "0 < (step::int)" and "tp mod step = 0"
  shows "(\<exists>r. 0 \<le> r \<and> r < tp \<and> r div step = h) \<longleftrightarrow> 0 \<le> h \<and> h < tp div step"
proof
  assume "\<exists>r. 0 \<le> r \<and> r < tp \<and> r div step = h"
  then obtain r where r: "0 \<le> r" "r < tp" "r div step = h" by blast
  then have "h * step \<le> r" using assms(1) by (auto simp: minus_mod_eq_div_mult[symmetric])
  with r have "h * step < tp div step * step" using assms(2) by (auto simp: minus_mod_eq_div_mult[symmetric])
  then show "0 \<le> h \<and> h < tp div step"
    using r assms(1) by (auto simp: pos_imp_zdiv_nonneg_iff)
next
  assume "0 \<le> h \<and> h < tp div step"
  moreover from this have "h * step < tp div step * step" using assms(1) by simp
  ultimately have "0 \<le> h * step \<and> h * step < tp \<and> h * step div step = h"
    using assms by (auto simp: minus_mod_eq_div_mult[symmetric])
  then show "\<exists>r. 0 \<le> r \<and> r < tp \<and> r div step = h" by blast
qed

lemma in_lookup_ranks:
  "(h, pcp, d, pp) \<in> set (lookup_ranks t) \<longleftrightarrow>
     0 \<le> h \<and> h < (if po_dcp_size t > 1 then po_tp_size t else min (po_tp_size t) (po_num_kv_head t)) \<and>
     d = (if po_dcp_size t > 1 then h mod po_dcp_size t else 0) \<and>
     0 \<le> pcp \<and> pcp < po_pcp_size t \<and> 0 \<le> pp \<and> pp < po_pp_size t"
proof -
  have un: "(h, pcp, d, pp) \<in> (\<Union>x\<in>A. \<Union>y\<in>B. (\<lambda>z. (y, x, f y, z)) ` C) \<longleftrightarrow>
      pcp \<in> A \<and> h \<in> B \<and> d = f h \<and> pp \<in> C" for A B C :: "int set" and f
    by auto
  show ?thesis
    using un[where f = "\<lambda>h. h mod po_dcp_size t"] un[where f = "\<lambda>_. 0"]
    by (cases "po_dcp_size t > 1") (simp_all add: lookup_ranks_def, linarith+)
qed

text \<open>
  The ranks whose keys a lookup queries are exactly the workers of the deployment. For every
  cache group the queried key metadata is the set of the metadata under which the workers save, so
  a chunk counts as present only when every shard of it is, and no shard nobody writes is asked for.
\<close>

theorem lookup_covers_every_worker:
  assumes "worker_metadata model t = Inr m" and "0 < po_num_kv_head t" and "0 < po_tp_size t"
    and "1 \<le> po_dcp_size t"
    and "db_metadata db = m\<lparr>km_group_id := g\<rparr>"
  shows "set (init_lookup_metadata t db) =
    {m'\<lparr>km_group_id := g\<rparr> | m' w. peer_worker t w \<and> worker_metadata model w = Inr m'}"
proof -
  obtain step h0 where st: "put_striping t = Inr (step, h0)"
    using assms(1) by (auto simp: worker_metadata_def split: sum.splits)
  note ps = put_striping_Inr[OF st assms(2,3)]
  have strip: "put_striping (t\<lparr>po_tp_rank := tp, po_pcp_rank := pcp, po_pp_rank := pp, po_dcp_rank := d\<rparr>)
      = Inr (step, tp div step)" for tp pcp pp d
    using st by (auto simp: put_striping_def Let_def split: if_splits)
  have meta: "(db_metadata db)\<lparr>km_tp_rank := tp, km_pcp_rank := pcp, km_dcp_rank := d, km_pp_rank := pp\<rparr> =
      \<lparr>km_model_name = model_key_name model, km_tp_rank = tp, km_pcp_rank = pcp, km_dcp_rank = d,
       km_pp_rank = pp, km_group_id = g\<rparr>" for tp pcp d pp
    using assms(1,5) by (auto simp: worker_metadata_def split: sum.splits prod.splits)
  let ?M = "\<lambda>tp pcp d pp. \<lparr>km_model_name = model_key_name model, km_tp_rank = tp, km_pcp_rank = pcp,
      km_dcp_rank = d, km_pp_rank = pp, km_group_id = g\<rparr>"
  let ?D = "\<lambda>tp. if po_dcp_size t > 1 then tp mod po_dcp_size t else 0"
  let ?w = "\<lambda>tp pcp pp. t\<lparr>po_tp_rank := tp, po_pcp_rank := pcp, po_pp_rank := pp, po_dcp_rank := ?D tp\<rparr>"
  let ?in = "\<lambda>tp pcp pp. 0 \<le> tp \<and> tp < po_tp_size t \<and> 0 \<le> pcp \<and> pcp < po_pcp_size t \<and>
      0 \<le> pp \<and> pp < po_pp_size t"
  have key: "(h, pcp, d, pp) \<in> set (lookup_ranks t) \<longleftrightarrow>
      (\<exists>tp. ?in tp pcp pp \<and> h = tp div step \<and> d = ?D tp)" for h pcp d pp
  proof (cases "po_dcp_size t > 1")
    case True
    then have "step = 1" using ps(5) by simp
    with True show ?thesis by (auto simp: in_lookup_ranks)
  next
    case False
    with assms(4) have d1: "po_dcp_size t = 1" by simp
    have "(0 \<le> h \<and> h < min (po_tp_size t) (po_num_kv_head t)) \<longleftrightarrow>
        (\<exists>r. 0 \<le> r \<and> r < po_tp_size t \<and> r div step = h)"
      using heads_of_ranks[OF ps(1,2), of h] ps(4)[OF d1] by simp
    with False show ?thesis unfolding in_lookup_ranks by (simp add: d1) blast
  qed
  have worker: "worker_metadata model (?w tp pcp pp) = Inr m' \<longleftrightarrow>
      m' = (?M (tp div step) pcp (?D tp) pp)\<lparr>km_group_id := 0\<rparr>" for tp pcp pp m'
    by (auto simp: worker_metadata_def strip)
  show ?thesis
  proof (rule set_eqI)
    fix x
    have "x \<in> set (init_lookup_metadata t db) \<longleftrightarrow>
        (\<exists>h pcp d pp. (h, pcp, d, pp) \<in> set (lookup_ranks t) \<and> x = ?M h pcp d pp)"
      unfolding init_lookup_metadata_def meta set_map image_iff by (auto intro!: bexI[rotated])
    also have "\<dots> \<longleftrightarrow> (\<exists>tp pcp pp. ?in tp pcp pp \<and> x = ?M (tp div step) pcp (?D tp) pp)"
      unfolding key by (simp only: ex_simps[symmetric] conj_assoc) blast
    also have "\<dots> \<longleftrightarrow> (\<exists>tp pcp pp m'. ?in tp pcp pp \<and> worker_metadata model (?w tp pcp pp) = Inr m' \<and>
        x = m'\<lparr>km_group_id := g\<rparr>)"
      unfolding worker by simp
    also have "\<dots> \<longleftrightarrow> x \<in> {m'\<lparr>km_group_id := g\<rparr> | m' w. peer_worker t w \<and> worker_metadata model w = Inr m'}"
      unfolding peer_worker_def by blast
    finally show "x \<in> set (init_lookup_metadata t db) \<longleftrightarrow>
      x \<in> {m'\<lparr>km_group_id := g\<rparr> | m' w. peer_worker t w \<and> worker_metadata model w = Inr m'}" .
  qed
qed

lemma lookup_covers_every_worker_witness:
  "set (init_lookup_metadata ex_topology ex_db) =
     {m'\<lparr>km_group_id := 0\<rparr> | m' w. peer_worker ex_topology w \<and> worker_metadata ''m'' w = Inr m'}"
proof (rule lookup_covers_every_worker)
  show "worker_metadata ''m'' ex_topology = Inr ex_metadata" by code_simp
qed (simp_all add: ex_topology_def ex_db_def ex_metadata_def)

section \<open>Addresses\<close>

text \<open>The memory of a database as registered: one base address and block length per region.\<close>

definition registered :: "ChunkedTokenDatabase \<Rightarrow> bool" where
  "registered db \<longleftrightarrow> length (db_base_addr db) = length (db_block_len db) \<and> 0 < db_block_size db \<and>
     (\<forall>l \<in> set (db_block_len db). 0 \<le> l)"

lemma prepare_value_block:
  assumes cd: "ceil_div cd" and "registered db" and "stop - start = db_block_size db"
    and ids: "py_index block_ids (start div db_block_size db) = Inr b"
  shows "prepare_value cd db start stop block_ids =
    Inr (map2 (\<lambda>a l. a + b * l) (db_base_addr db) (db_block_len db), db_block_len db, b)"
proof -
  have sz: "cd (stop - start) (db_block_size db) = 1"
    using cdiv_mult[OF cd, of "db_block_size db" 1] assms by (simp add: registered_def)
  let ?n = "length (db_base_addr db)"
  have len: "length (db_block_len db) = ?n" using assms by (simp add: registered_def)
  have slot: "region_slot cd db start stop b (k, db_base_addr db ! k) =
      Inr (db_base_addr db ! k + b * db_block_len db ! k, db_block_len db ! k)" if "k < ?n" for k
  proof -
    have ne: "db_block_len db \<noteq> []" using that len by auto
    show ?thesis unfolding region_slot_def Let_def prod.case using that len sz ne assms(3) by simp
  qed
  have "map_res (region_slot cd db start stop b) (List.enumerate 0 (db_base_addr db)) =
    Inr (map (\<lambda>k. (db_base_addr db ! k + b * db_block_len db ! k, db_block_len db ! k)) [0..<?n])"
    by (simp add: map_res_Inr_iff list_all2_conv_all_nth nth_enumerate_eq slot)
  moreover have "map (\<lambda>k. db_base_addr db ! k + b * db_block_len db ! k) [0..<?n] =
      map2 (\<lambda>a l. a + b * l) (db_base_addr db) (db_block_len db)"
    by (rule nth_equalityI) (simp_all add: len)
  moreover have "map (\<lambda>k. db_block_len db ! k) [0..<?n] = db_block_len db"
    by (rule nth_equalityI) (simp_all add: len)
  ultimately show ?thesis by (simp add: prepare_value_def ids comp_def)
qed

text \<open>
  Every chunk the pool transfers for an aligned token count is one whole block, and its slots
  are exactly that block's memory. \<open>prepare_value\<close> succeeds for each yielded chunk whose block
  is known, every slot has the region's block length and lies inside the registered region, and
  the slots of two different blocks of a region do not overlap.
\<close>

theorem chunk_slots_exact:
  assumes "ceil_div cd" and "registered db" and "db_block_size db dvd n"
    and "(start, stop, key) \<in> set (process_tokens merge db n hashes lo)" and "0 \<le> lo"
    and "py_index block_ids (start div db_block_size db) = Inr b" and "0 \<le> b" and "b < num_blocks"
  shows "stop = start + db_block_size db \<and> (\<exists>addrs sizes.
    prepare_value cd db start stop block_ids = Inr (addrs, sizes, b) \<and>
    length addrs = length (db_base_addr db) \<and> sizes = db_block_len db \<and>
    (\<forall>i < length addrs.
       db_base_addr db ! i \<le> addrs ! i \<and>
       addrs ! i + sizes ! i \<le> db_base_addr db ! i + num_blocks * sizes ! i \<and>
       (\<forall>start' stop' ids' b' addrs' sizes'. stop' - start' = db_block_size db \<longrightarrow>
          prepare_value cd db start' stop' ids' = Inr (addrs', sizes', b') \<longrightarrow> b' \<noteq> b \<longrightarrow>
          addrs' ! i + sizes' ! i \<le> addrs ! i \<or> addrs ! i + sizes ! i \<le> addrs' ! i)))"
proof -
  let ?bs = "db_block_size db"
  have bs: "0 < ?bs" using assms(2) by (simp add: registered_def)
  from assms(4) obtain i where i: "start = i * ?bs" "i * ?bs < n" "stop = min (i * ?bs + ?bs) n"
    by (auto elim: in_process_tokens[OF bs])
  have "i * ?bs + ?bs \<le> n"
  proof -
    obtain k where "n = ?bs * k" using assms(3) by blast
    with i(2) bs have "i + 1 \<le> k" by (simp add: mult.commute)
    with \<open>n = ?bs * k\<close> bs show ?thesis by (metis distrib_right mult_1 mult.commute mult_left_mono less_imp_le)
  qed
  with i have stop: "stop = start + ?bs" by simp
  have pv: "prepare_value cd db start stop block_ids =
      Inr (map2 (\<lambda>a l. a + b * l) (db_base_addr db) (db_block_len db), db_block_len db, b)"
    using prepare_value_block[OF assms(1,2) _ assms(6)] stop by simp
  have len: "length (db_block_len db) = length (db_base_addr db)"
    and nn: "\<And>j. j < length (db_base_addr db) \<Longrightarrow> 0 \<le> db_block_len db ! j"
    using assms(2) by (simp_all add: registered_def)
  have other: "addrs' = map2 (\<lambda>a l. a + b' * l) (db_base_addr db) (db_block_len db) \<and>
      sizes' = db_block_len db"
    if "stop' - start' = ?bs" "prepare_value cd db start' stop' ids' = Inr (addrs', sizes', b')"
    for start' stop' ids' addrs' sizes' b'
  proof (cases "py_index ids' (start' div ?bs)")
    case (Inl e)
    with that show ?thesis by (simp add: prepare_value_def)
  next
    case (Inr c)
    from prepare_value_block[OF assms(1,2) that(1) Inr] that(2) show ?thesis by simp
  qed
  have sep: "c * l + l \<le> b * l \<or> b * l + l \<le> c * l" if "c \<noteq> b" "0 \<le> l" for c l :: int
    using that mult_right_mono[of "c + 1" b l] mult_right_mono[of "b + 1" c l]
    by (auto simp: distrib_right neq_iff)
  have bound: "0 \<le> b * l" "b * l + l \<le> num_blocks * l" if "0 \<le> l" for l
    using that assms(7,8) mult_right_mono[of "b + 1" num_blocks l] by (simp_all add: distrib_right)
  let ?addrs = "map2 (\<lambda>a l. a + b * l) (db_base_addr db) (db_block_len db)"
  have "length ?addrs = length (db_base_addr db)" by (simp add: len)
  moreover have "db_base_addr db ! i \<le> ?addrs ! i \<and>
       ?addrs ! i + db_block_len db ! i \<le> db_base_addr db ! i + num_blocks * db_block_len db ! i \<and>
       (addrs' ! i + sizes' ! i \<le> ?addrs ! i \<or> ?addrs ! i + db_block_len db ! i \<le> addrs' ! i)"
    if "i < length ?addrs" "stop' - start' = ?bs" "b' \<noteq> b"
      "prepare_value cd db start' stop' ids' = Inr (addrs', sizes', b')"
    for i start' stop' ids' addrs' sizes' b'
    using that(1) bound[OF nn, of i] sep[OF that(3) nn, of i] other[OF that(2,4)] by (simp add: len)
  moreover have "db_base_addr db ! i \<le> ?addrs ! i \<and>
       ?addrs ! i + db_block_len db ! i \<le> db_base_addr db ! i + num_blocks * db_block_len db ! i"
    if "i < length ?addrs" for i
    using that bound[OF nn, of i] by (simp add: len)
  ultimately show ?thesis using stop pv by blast
qed

lemma chunk_slots_exact_witness:
  "prepare_value cdiv_ref ex_db 16 32 [4, 7] = Inr ([1000 + 7 * 64, 9000 + 7 * 32], [64, 32], 7)"
proof -
  have "(16, 32, snd (snd ex_chunk)) \<in> set (process_tokens (\<lambda>_ _ hs. hs) ex_db 32 [''b'', ''a''] 16)"
    by code_simp
  moreover have "py_index [4, 7 :: int] (16 div db_block_size ex_db) = Inr 7" by code_simp
  ultimately have "\<exists>addrs sizes. prepare_value cdiv_ref ex_db 16 32 [4, 7] = Inr (addrs, sizes, 7)"
    using chunk_slots_exact[OF ceil_div_ref, of ex_db 32 16 32 "snd (snd ex_chunk)" "\<lambda>_ _ hs. hs"
        "[''b'', ''a'']" 16 "[4, 7]" 7 8]
    by (auto simp: registered_def ex_db_def)
  then obtain addrs sizes where "prepare_value cdiv_ref ex_db 16 32 [4, 7] = Inr (addrs, sizes, 7)"
    by blast
  moreover have "prepare_value cdiv_ref ex_db 16 32 [4, 7] = Inr ([1448, 9224], [64, 32], 7 :: int)"
    by code_simp
  ultimately show ?thesis by simp
qed

end
