(* ===== verification/Coordinator.thy ===== *)
theory Coordinator
  imports Store_Keys
begin

text \<open>
  Models \<open>ExternalCachedBlockPool\<close> and \<open>MooncakeStoreCoordinator\<close> of
  \<^verbatim>\<open>mtsc/kv_cache_pool.py\<close>: splitting the cache groups by spec, the convergence loop of
  \<open>_find_hit_blocks\<close>, load and store masks. vLLM's spec managers are not part of the
  repository: their \<open>find_longest_cache_hit\<close> is the argument \<open>fnd\<close>, dispatched on
  the spec, and \<open>known\<close> says which specs have a manager. A spec is its block size, whether it
  is full attention, and a text that stands for its other fields. Block sizes are positive.

  The loop is a partial function, so that a loop that does not end would have the value
  \<open>None\<close>; \<open>find_hit_blocks_converges\<close> shows that it always ends.
\<close>

section \<open>Specs, groups and the existence set\<close>

record cache_spec =
  cs_block_size :: int
  cs_full_attention :: bool
  cs_fields :: string

text \<open>A group's spec is one spec or vLLM's \<open>UniformTypeKVCacheSpecs\<close> of several.\<close>

datatype group_spec = PlainSpec cache_spec | UniformSpecs "cache_spec list"

record kv_group =
  kg_block_size :: int
  kg_spec :: group_spec
  kg_is_eagle :: bool

fun unwrap_spec :: "group_spec \<Rightarrow> cache_spec result" where
  "unwrap_spec (PlainSpec s) = Inr s"
| "unwrap_spec (UniformSpecs ss) = (case ss of [] \<Rightarrow> Inl (RuntimeError ''StopIteration'') | s # _ \<Rightarrow> Inr s)"

datatype cached_block = NullBlock | PresentBlock

type_synonym ext_pool = "(nat \<times> string) set option"

definition get_cached_block :: "ext_pool \<Rightarrow> string \<Rightarrow> nat list \<Rightarrow> cached_block list option" where
  "get_cached_block pool block_hash group_ids =
     (case pool of
        None \<Rightarrow> Some (replicate (length group_ids) PresentBlock)
      | Some present \<Rightarrow>
          if list_all (\<lambda>g. (g, block_hash) \<in> present) group_ids
          then Some (replicate (length group_ids) PresentBlock) else None)"

text \<open>\<open>fnd spec hashes max_length group_ids pool drop_eagle_block alignment_tokens\<close>.\<close>

type_synonym finder =
  "cache_spec \<Rightarrow> string list \<Rightarrow> int \<Rightarrow> nat list \<Rightarrow> ext_pool \<Rightarrow> bool \<Rightarrow> int \<Rightarrow> cached_block list list"

section \<open>The coordinator\<close>

record coordinator =
  co_groups :: "kv_group list"
  co_hash_block_size :: int
  co_lcm_block_size :: int
  co_attention_groups :: "(cache_spec \<times> nat list) list"
  co_eagle :: "nat list"

fun add_group :: "nat \<Rightarrow> cache_spec \<Rightarrow> (cache_spec \<times> nat list) list \<Rightarrow> (cache_spec \<times> nat list) list" where
  "add_group i spec [] = [(spec, [i])]"
| "add_group i spec ((s, ids) # ags) =
     (if s = spec then (s, ids @ [i]) # ags else (s, ids) # add_group i spec ags)"

definition split_group ::
  "(cache_spec \<Rightarrow> bool) \<Rightarrow> nat \<times> kv_group \<Rightarrow> (cache_spec \<times> nat list) list \<Rightarrow> (cache_spec \<times> nat list) list result" where
  "split_group known ig ags =
     (case unwrap_spec (kg_spec (snd ig)) of Inl e \<Rightarrow> Inl e
      | Inr spec \<Rightarrow> if \<not> known spec then Inl AssertionError else Inr (add_group (fst ig) spec ags))"

text \<open>\<open>sorted\<close> by \<open>not isinstance(spec, FullAttentionSpec)\<close> is stable.\<close>

definition full_first :: "(cache_spec \<times> nat list) list \<Rightarrow> (cache_spec \<times> nat list) list" where
  "full_first ags = filter (\<lambda>a. cs_full_attention (fst a)) ags @ filter (\<lambda>a. \<not> cs_full_attention (fst a)) ags"

definition eagle_indices :: "bool \<Rightarrow> kv_group list \<Rightarrow> (cache_spec \<times> nat list) list \<Rightarrow> nat list" where
  "eagle_indices use_eagle gs ags =
     (let found = map fst (filter (\<lambda>(i, (_, ids)). list_ex (\<lambda>g. kg_is_eagle (gs ! g)) ids) (List.enumerate 0 ags))
      in if use_eagle \<and> found = [] then [0..<length ags] else found)"

definition make_coordinator ::
  "(cache_spec \<Rightarrow> bool) \<Rightarrow> kv_group list \<Rightarrow> int \<Rightarrow> int \<Rightarrow> bool \<Rightarrow> coordinator result" where
  "make_coordinator known gs scheduler_block_size hash_block_size use_eagle =
     (if \<not> (list_all (\<lambda>g. kg_block_size g mod hash_block_size = 0) gs
           \<and> scheduler_block_size mod hash_block_size = 0
           \<and> list_all (\<lambda>g. scheduler_block_size mod kg_block_size g = 0) gs)
      then Inl AssertionError
      else (case fold_res (split_group known) (List.enumerate 0 gs) [] of Inl e \<Rightarrow> Inl e
            | Inr split \<Rightarrow>
                (let ags = full_first split
                 in Inr \<lparr>co_groups = gs, co_hash_block_size = hash_block_size,
                         co_lcm_block_size = scheduler_block_size, co_attention_groups = ags,
                         co_eagle = eagle_indices use_eagle gs ags\<rparr>)))"

definition block_hashes_for_spec :: "hash_merge \<Rightarrow> coordinator \<Rightarrow> string list \<Rightarrow> int \<Rightarrow> string list" where
  "block_hashes_for_spec merge co hashes block_size = hashes_at merge (co_hash_block_size co) block_size hashes"

section \<open>The convergence loop\<close>

type_synonym group_blocks = "cached_block list option list"
type_synonym hit_state = "int \<times> group_blocks \<times> nat set"

definition set_blocks :: "(nat \<times> cached_block list) list \<Rightarrow> group_blocks \<Rightarrow> group_blocks" where
  "set_blocks zs blocks = fold (\<lambda>(gid, b) bs. bs[gid := Some b]) zs blocks"

text \<open>One attention group in a pass over them.\<close>

definition visit_group ::
  "finder \<Rightarrow> hash_merge \<Rightarrow> coordinator \<Rightarrow> string list \<Rightarrow> int \<Rightarrow> ext_pool \<Rightarrow> nat set \<Rightarrow>
     nat \<times> cache_spec \<times> nat list \<Rightarrow> hit_state \<Rightarrow> hit_state result" where
  "visit_group fnd merge co hashes max_length pool eagle ag st =
     (let (idx, (spec, gids)) = ag; (curr, blocks, verified) = st; bs = cs_block_size spec
      in if cs_full_attention spec \<and> blocks ! (gids ! 0) \<noteq> None
         then Inr (align_down curr bs, blocks, verified)
         else (let drop_eagle = (idx \<in> eagle \<and> idx \<notin> verified);
                   limit = (if drop_eagle then min (curr + bs) max_length else curr);
                   hit_blocks = fnd spec (block_hashes_for_spec merge co hashes bs) limit gids pool
                                  drop_eagle (co_lcm_block_size co)
               in if hit_blocks = [] then Inl IndexError
                  else (let new = int (length (hit_blocks ! 0)) * bs;
                            verified' = (if drop_eagle then insert idx verified
                                         else if new < curr then {} else verified)
                        in case zip_strict gids hit_blocks of Inl e \<Rightarrow> Inl e
                           | Inr zs \<Rightarrow> Inr (new, set_blocks zs blocks, verified'))))"

definition hit_pass ::
  "finder \<Rightarrow> hash_merge \<Rightarrow> coordinator \<Rightarrow> string list \<Rightarrow> int \<Rightarrow> ext_pool \<Rightarrow> nat set \<Rightarrow> hit_state \<Rightarrow> hit_state result" where
  "hit_pass fnd merge co hashes max_length pool eagle st =
     fold_res (visit_group fnd merge co hashes max_length pool eagle)
       (List.enumerate 0 (co_attention_groups co)) st"

definition simple_hybrid :: "coordinator \<Rightarrow> bool" where
  "simple_hybrid co \<longleftrightarrow>
     length (co_attention_groups co) = 2 \<and> cs_full_attention (fst (co_attention_groups co ! 0))"

partial_function (option) hit_loop ::
  "finder \<Rightarrow> hash_merge \<Rightarrow> coordinator \<Rightarrow> string list \<Rightarrow> int \<Rightarrow> ext_pool \<Rightarrow> nat set \<Rightarrow> int \<Rightarrow>
     group_blocks \<Rightarrow> nat set \<Rightarrow> (int \<times> group_blocks) result option" where
  "hit_loop fnd merge co hashes max_length pool eagle hit blocks verified =
     (case hit_pass fnd merge co hashes max_length pool eagle (hit, blocks, verified) of
        Inl e \<Rightarrow> Some (Inl e)
      | Inr st \<Rightarrow>
          (let curr = fst st; blocks' = fst (snd st); verified' = snd (snd st)
           in if curr \<ge> hit then Some (Inr (hit, blocks'))
              else if simple_hybrid co then Some (Inr (curr, blocks'))
              else hit_loop fnd merge co hashes max_length pool eagle curr blocks' verified'))"

text \<open>Cutting the full-attention blocks to the converged length.\<close>

definition trim_full :: "coordinator \<Rightarrow> int \<Rightarrow> group_blocks \<Rightarrow> cached_block list list result" where
  "trim_full co hit blocks =
     (case co_attention_groups co of [] \<Rightarrow> Inl IndexError
      | (spec0, gids0) # _ \<Rightarrow>
          if cs_full_attention spec0
          then (if list_ex (\<lambda>g. blocks ! g = None) gids0 then Inl AssertionError
                else Inr (map (\<lambda>(g, b). case b of None \<Rightarrow> []
                     | Some bl \<Rightarrow> if g \<in> set gids0 then slice_range bl 0 (hit div cs_block_size spec0) else bl)
                     (List.enumerate 0 blocks)))
          else Inr (map (\<lambda>b. case b of None \<Rightarrow> [] | Some bl \<Rightarrow> bl) blocks))"

definition find_hit_blocks ::
  "finder \<Rightarrow> hash_merge \<Rightarrow> coordinator \<Rightarrow> string list \<Rightarrow> int \<Rightarrow> ext_pool \<Rightarrow> bool \<Rightarrow>
     (cached_block list list \<times> int) result option" where
  "find_hit_blocks fnd merge co hashes max_length pool apply_eagle =
     (let eagle = (if apply_eagle then set (co_eagle co) else {}); n = length (co_groups co)
      in if length (co_attention_groups co) = 1
         then (let (spec, gids) = co_attention_groups co ! 0; bs = cs_block_size spec;
                   hit_blocks = fnd spec (block_hashes_for_spec merge co hashes bs) max_length gids pool
                                  (0 \<in> eagle) bs
               in Some (case zip_strict gids hit_blocks of Inl e \<Rightarrow> Inl e
                  | Inr zs \<Rightarrow>
                      if hit_blocks = [] then Inl IndexError
                      else Inr (map (\<lambda>b. case b of None \<Rightarrow> [] | Some bl \<Rightarrow> bl)
                                  (set_blocks zs (replicate n None)),
                                int (length (hit_blocks ! 0)) * bs)))
         else map_option
                (\<lambda>r. case r of Inl e \<Rightarrow> Inl e
                 | Inr (hit, blocks) \<Rightarrow>
                     (case trim_full co hit blocks of Inl e \<Rightarrow> Inl e | Inr bls \<Rightarrow> Inr (bls, hit)))
                (hit_loop fnd merge co hashes max_length pool eagle max_length (replicate n None) {}))"

section \<open>Masks\<close>

definition find_longest_cache_hit ::
  "finder \<Rightarrow> hash_merge \<Rightarrow> coordinator \<Rightarrow> string list \<Rightarrow> int \<Rightarrow> ext_pool \<Rightarrow> bool \<Rightarrow>
     (bool list list \<times> int) result option" where
  "find_longest_cache_hit fnd merge co hashes max_length pool apply_eagle =
     map_option (\<lambda>r. case r of Inl e \<Rightarrow> Inl e
        | Inr (blocks, hit) \<Rightarrow> Inr (map (map (\<lambda>b. b \<noteq> NullBlock)) blocks, hit))
       (find_hit_blocks fnd merge co hashes max_length pool apply_eagle)"

definition load_mask ::
  "finder \<Rightarrow> hash_merge \<Rightarrow> coordinator \<Rightarrow> string list \<Rightarrow> int \<Rightarrow> bool list list result option" where
  "load_mask fnd merge co hashes token_len =
     map_option (map_sum id fst) (find_longest_cache_hit fnd merge co hashes token_len None False)"

definition dummy_block_hash :: string where
  "dummy_block_hash = replicate 32 (CHR 0x00)"

definition store_mask ::
  "finder \<Rightarrow> hash_merge \<Rightarrow> coordinator \<Rightarrow> int \<Rightarrow> bool list list result option" where
  "store_mask fnd merge co aligned =
     (let lcm_size = co_lcm_block_size co
      in if aligned mod lcm_size \<noteq> 0 then Some (Inl AssertionError)
         else if aligned = 0 then Some (Inr (map (\<lambda>_. []) (co_groups co)))
         else if list_all (\<lambda>(spec, _). cs_full_attention spec \<or> cs_block_size spec = lcm_size) (co_attention_groups co)
         then Some (Inr (map (\<lambda>g. replicate (nat (aligned div kg_block_size g)) True) (co_groups co)))
         else map_option
                (\<lambda>r. case r of Inl e \<Rightarrow> Inl e
                 | Inr (template, _) \<Rightarrow>
                     Inr (map (\<lambda>g. concat (replicate (nat (aligned div lcm_size)) (template ! g)))
                            [0..<length (co_groups co)]))
                (find_longest_cache_hit fnd merge co
                   (replicate (nat (lcm_size div co_hash_block_size co)) dummy_block_hash) lcm_size None True))"

section \<open>What the spec managers promise\<close>

text \<open>
  vLLM documents the manager's \<open>find_longest_cache_hit\<close>: one block list per group, all of
  one length, whose tokens do not exceed \<open>max_length\<close>, are a multiple of
  \<open>alignment_tokens\<close> and, when the last matched block is dropped, leave room for that block;
  the prefix of that length can be used (\<open>usable\<close>), and a full-attention prefix can be cut
  at any block boundary.
\<close>

type_synonym usable_prefix = "cache_spec \<Rightarrow> string list \<Rightarrow> nat list \<Rightarrow> ext_pool \<Rightarrow> int \<Rightarrow> bool"

definition finder_contract :: "finder \<Rightarrow> usable_prefix \<Rightarrow> bool" where
  "finder_contract fnd usable \<longleftrightarrow>
     (\<forall>spec hashes n gids pool drop_eagle al.
        0 < cs_block_size spec \<and> 0 \<le> n \<and> 0 < al \<and> cs_block_size spec dvd al \<and> gids \<noteq> [] \<longrightarrow>
        (\<exists>k. length (fnd spec hashes n gids pool drop_eagle al) = length gids \<and>
             (\<forall>bl \<in> set (fnd spec hashes n gids pool drop_eagle al). length bl = k) \<and>
             int k * cs_block_size spec \<le> n \<and> al dvd int k * cs_block_size spec \<and>
             (drop_eagle \<longrightarrow> k = 0 \<or> int k * cs_block_size spec + cs_block_size spec \<le> n) \<and>
             usable spec hashes gids pool (int k * cs_block_size spec))) \<and>
     (\<forall>spec hashes gids pool L L'. cs_full_attention spec \<and> usable spec hashes gids pool L \<and>
        0 \<le> L' \<and> L' \<le> L \<and> cs_block_size spec dvd L' \<longrightarrow> usable spec hashes gids pool L')"

lemma finder_result:
  assumes fc: "finder_contract fnd usable" and "0 < cs_block_size spec" and "0 \<le> n" and "0 < al"
    and "cs_block_size spec dvd al" and "gids \<noteq> []"
  obtains k where "length (fnd spec hashes n gids pool d al) = length gids"
    and "\<And>bl. bl \<in> set (fnd spec hashes n gids pool d al) \<Longrightarrow> length bl = k"
    and "int k * cs_block_size spec \<le> n" and "al dvd int k * cs_block_size spec"
    and "d \<Longrightarrow> k = 0 \<or> int k * cs_block_size spec + cs_block_size spec \<le> n"
    and "usable spec hashes gids pool (int k * cs_block_size spec)"
proof -
  note c = fc[unfolded finder_contract_def, THEN conjunct1, rule_format, of spec n al gids hashes pool d]
  from c[OF conjI[OF assms(2) conjI[OF assms(3) conjI[OF assms(4) conjI[OF assms(5,6)]]]]] that
  show thesis by blast
qed

lemma usable_cut:
  assumes "finder_contract fnd usable" and "cs_full_attention spec" and "usable spec hashes gids pool L"
    and "0 \<le> L'" and "L' \<le> L" and "cs_block_size spec dvd L'"
  shows "usable spec hashes gids pool L'"
  by (rule assms(1)[unfolded finder_contract_def, THEN conjunct2, rule_format, of spec hashes gids pool L L'])
     (simp add: assms(2-6))

section \<open>Well-formed coordinators\<close>

definition co_ok :: "coordinator \<Rightarrow> bool" where
  "co_ok co \<longleftrightarrow>
     0 < co_lcm_block_size co \<and> co_attention_groups co \<noteq> [] \<and>
     (\<forall>(spec, gids) \<in> set (co_attention_groups co).
        0 < cs_block_size spec \<and> cs_block_size spec dvd co_lcm_block_size co \<and> gids \<noteq> [] \<and>
        (\<forall>g \<in> set gids. g < length (co_groups co))) \<and>
     distinct (concat (map snd (co_attention_groups co)))"

lemma add_group_set:
  "(s, ids) \<in> set (add_group i spec ags) \<Longrightarrow>
     (s, ids) \<in> set ags \<or> (s = spec \<and> (ids = [i] \<or> (\<exists>ids'. (s, ids') \<in> set ags \<and> ids = ids' @ [i])))"
proof (induction i spec ags rule: add_group.induct)
  case (2 i spec s' ids' ags)
  show ?case
  proof (cases "s' = spec")
    case True
    with 2(2) show ?thesis by auto
  next
    case False
    with 2(2) have "(s, ids) = (s', ids') \<or> (s, ids) \<in> set (add_group i spec ags)" by auto
    with 2(1)[OF False] show ?thesis by auto
  qed
qed simp

lemma add_group_ids: "set (concat (map snd (add_group i spec ags))) = insert i (set (concat (map snd ags)))"
  by (induction i spec ags rule: add_group.induct) auto

lemma add_group_distinct:
  "distinct (concat (map snd ags)) \<Longrightarrow> i \<notin> set (concat (map snd ags)) \<Longrightarrow>
   distinct (concat (map snd (add_group i spec ags)))"
proof (induction i spec ags rule: add_group.induct)
  case (2 i spec s ids ags)
  show ?case
  proof (cases "s = spec")
    case False
    have "set (concat (map snd (add_group i spec ags))) = insert i (set (concat (map snd ags)))"
      by (rule add_group_ids)
    with 2 False show ?thesis by auto
  qed (use 2 in auto)
qed simp

text \<open>The groups split so far: known specs of the given groups, indices below \<open>k\<close>, each once.\<close>

definition split_ok :: "kv_group list \<Rightarrow> nat \<Rightarrow> (cache_spec \<times> nat list) list \<Rightarrow> bool" where
  "split_ok gs k ags \<longleftrightarrow>
     set (concat (map snd ags)) = {..<k} \<and> distinct (concat (map snd ags)) \<and>
     (\<forall>(s, ids) \<in> set ags. ids \<noteq> [] \<and> (\<forall>g \<in> set ids. unwrap_spec (kg_spec (gs ! g)) = Inr s))"

lemma split_group_ok:
  assumes "split_ok gs k ags" and "split_group known (k, gs ! k) ags = Inr ags'"
  shows "split_ok gs (Suc k) ags'"
proof -
  obtain spec where spec: "unwrap_spec (kg_spec (gs ! k)) = Inr spec" "ags' = add_group k spec ags"
    using assms(2) by (auto simp: split_group_def split: sum.splits if_splits)
  have "set (concat (map snd ags')) = {..<Suc k}" "distinct (concat (map snd ags'))"
    using assms(1) unfolding spec(2) add_group_ids
    by (auto simp: split_ok_def intro!: add_group_distinct)
  moreover have "ids \<noteq> [] \<and> (\<forall>g \<in> set ids. unwrap_spec (kg_spec (gs ! g)) = Inr s)"
    if "(s, ids) \<in> set ags'" for s ids
    using add_group_set[OF that[unfolded spec(2)]] assms(1) spec(1) by (fastforce simp: split_ok_def)
  ultimately show ?thesis by (auto simp: split_ok_def)
qed

lemma split_groups_ok:
  assumes "fold_res (split_group known) (List.enumerate k (drop k gs)) ags = Inr ags'"
    and "split_ok gs k ags" and "k \<le> length gs"
  shows "split_ok gs (length gs) ags'"
  using assms
proof (induction "length gs - k" arbitrary: k ags)
  case (Suc n)
  then have k: "k < length gs" by simp
  then have d: "drop k gs = gs ! k # drop (Suc k) gs" by (simp add: Cons_nth_drop_Suc)
  with Suc.prems(1) obtain u where u: "split_group known (k, gs ! k) ags = Inr u"
      "fold_res (split_group known) (List.enumerate (Suc k) (drop (Suc k) gs)) u = Inr ags'"
    by (auto split: sum.splits)
  show ?case
    using Suc.hyps(1)[OF _ u(2) split_group_ok[OF Suc.prems(2) u(1)]] Suc.hyps(2) k by simp
qed (auto simp: split_ok_def)

lemma full_first_distinct: "distinct (concat (map snd ags)) \<Longrightarrow> distinct (concat (map snd (full_first ags)))"
  by (induction ags) (auto simp: full_first_def)

lemma make_coordinator_ok:
  assumes "make_coordinator known gs sched_bs hash_bs use_eagle = Inr co" and "gs \<noteq> []" and "0 < sched_bs"
    and "\<And>g s. g \<in> set gs \<Longrightarrow> unwrap_spec (kg_spec g) = Inr s \<Longrightarrow>
           0 < cs_block_size s \<and> cs_block_size s = kg_block_size g"
  shows "co_ok co" and "\<And>g. g < length gs \<Longrightarrow> \<exists>spec gids. (spec, gids) \<in> set (co_attention_groups co) \<and> g \<in> set gids
      \<and> unwrap_spec (kg_spec (gs ! g)) = Inr spec" and "co_groups co = gs" and "co_lcm_block_size co = sched_bs"
    and "co_hash_block_size co = hash_bs"
proof -
  obtain split where sp: "fold_res (split_group known) (List.enumerate 0 gs) [] = Inr split"
    and co: "co = \<lparr>co_groups = gs, co_hash_block_size = hash_bs, co_lcm_block_size = sched_bs,
        co_attention_groups = full_first split, co_eagle = eagle_indices use_eagle gs (full_first split)\<rparr>"
    and dv: "\<forall>g \<in> set gs. sched_bs mod kg_block_size g = 0"
    using assms(1) by (auto simp: make_coordinator_def Let_def list_all_iff split: if_splits sum.splits)
  have "split_ok gs (length gs) split"
    using split_groups_ok[of known 0 gs "[]" split] sp by (simp add: split_ok_def)
  then have so: "set (concat (map snd split)) = {..<length gs}" "distinct (concat (map snd split))"
    "\<And>s ids. (s, ids) \<in> set split \<Longrightarrow> ids \<noteq> [] \<and> (\<forall>g \<in> set ids. unwrap_spec (kg_spec (gs ! g)) = Inr s)"
    by (auto simp: split_ok_def)
  have ff: "set (full_first split) = set split" by (auto simp: full_first_def)
  have lt: "g < length gs" if "(s, ids) \<in> set split" "g \<in> set ids" for s ids g
    using so(1) that by fastforce
  have grp: "0 < cs_block_size s \<and> cs_block_size s dvd sched_bs \<and> ids \<noteq> [] \<and> (\<forall>g \<in> set ids. g < length gs)"
    if mem: "(s, ids) \<in> set split" for s ids
  proof -
    obtain g where g: "g \<in> set ids" using so(3)[OF mem] by (meson hd_in_set)
    then have "gs ! g \<in> set gs" "unwrap_spec (kg_spec (gs ! g)) = Inr s"
      using lt[OF mem g] so(3)[OF mem] by auto
    then have "0 < cs_block_size s" "cs_block_size s = kg_block_size (gs ! g)" "sched_bs mod kg_block_size (gs ! g) = 0"
      using assms(4)[of "gs ! g" s] dv by (metis, metis, metis)
    then show ?thesis using so(3)[OF mem] lt[OF mem] by (auto simp: dvd_eq_mod_eq_0)
  qed
  have "split \<noteq> []" using so(1) assms(2) by auto
  then have "full_first split \<noteq> []" using ff by (metis set_empty)
  then show "co_ok co"
    using grp ff so(2) assms(3) full_first_distinct[OF so(2)] by (auto simp: co_ok_def co)
  show "\<exists>spec gids. (spec, gids) \<in> set (co_attention_groups co) \<and> g \<in> set gids
      \<and> unwrap_spec (kg_spec (gs ! g)) = Inr spec" if "g < length gs" for g
  proof -
    have "g \<in> set (concat (map snd split))" using that so(1) by simp
    then obtain s ids where "(s, ids) \<in> set split" "g \<in> set ids" by auto
    then show ?thesis using so(3) ff by (auto simp: co)
  qed
  show "co_groups co = gs" "co_lcm_block_size co = sched_bs" "co_hash_block_size co = hash_bs"
    by (simp_all add: co)
qed

end
