(* ===== verification/Coordinator_Props.thy ===== *)
theory Coordinator_Props
  imports Coordinator
begin

text \<open>
  The convergence loop of \<open>MooncakeStoreCoordinator\<close>: a pass over the attention groups never
  raises and never lengthens the hit, a length that survives a pass is usable in every group, and
  the loop ends because each further pass starts from a strictly shorter non-negative length.
\<close>

section \<open>Writing the blocks of a group\<close>

lemma length_set_blocks [simp]: "length (set_blocks zs blocks) = length blocks"
  unfolding set_blocks_def by (induction zs arbitrary: blocks) auto

lemma set_blocks_other: "g \<notin> fst ` set zs \<Longrightarrow> set_blocks zs blocks ! g = blocks ! g"
  unfolding set_blocks_def by (induction zs arbitrary: blocks) auto

lemma set_blocks_in:
  assumes "g \<in> fst ` set zs" and "g < length blocks"
  shows "\<exists>b \<in> snd ` set zs. set_blocks zs blocks ! g = Some b"
  using assms
proof (induction zs arbitrary: blocks)
  case (Cons z zs)
  let ?u = "blocks[fst z := Some (snd z)]"
  have step: "set_blocks (z # zs) blocks = set_blocks zs ?u"
    by (simp add: set_blocks_def split_def)
  show ?case
  proof (cases "g \<in> fst ` set zs")
    case True
    then show ?thesis unfolding step using Cons.IH[of ?u] Cons.prems(2) by auto
  next
    case False
    with Cons.prems have "g = fst z" by simp
    then show ?thesis
      unfolding step using Cons.prems set_blocks_other[OF False, of ?u] by auto
  qed
qed simp

section \<open>One pass\<close>

text \<open>
  Between two groups of a pass: the length is not negative, the groups of one spec have their
  blocks together, and a full-attention group whose blocks are known covers the current length.
\<close>

definition pass_inv ::
  "usable_prefix \<Rightarrow> hash_merge \<Rightarrow> coordinator \<Rightarrow> string list \<Rightarrow> ext_pool \<Rightarrow> int \<Rightarrow> group_blocks \<Rightarrow> bool" where
  "pass_inv usable merge co hashes pool cur blocks \<longleftrightarrow>
     0 \<le> cur \<and> length blocks = length (co_groups co) \<and>
     (\<forall>(spec, gids) \<in> set (co_attention_groups co).
        ((\<forall>g \<in> set gids. blocks ! g = None) \<or> (\<forall>g \<in> set gids. blocks ! g \<noteq> None)) \<and>
        (cs_full_attention spec \<longrightarrow> (\<forall>b. blocks ! (gids ! 0) = Some b \<longrightarrow>
           cur \<le> int (length b) * cs_block_size spec \<and>
           usable spec (block_hashes_for_spec merge co hashes (cs_block_size spec)) gids pool
             (int (length b) * cs_block_size spec))))"

lemma pass_invD:
  assumes "pass_inv usable merge co hashes pool cur blocks" and "(spec, gids) \<in> set (co_attention_groups co)"
  shows "(\<forall>g \<in> set gids. blocks ! g = None) \<or> (\<forall>g \<in> set gids. blocks ! g \<noteq> None)"
    and "cs_full_attention spec \<Longrightarrow> blocks ! (gids ! 0) = Some b \<Longrightarrow>
           cur \<le> int (length b) * cs_block_size spec \<and>
           usable spec (block_hashes_for_spec merge co hashes (cs_block_size spec)) gids pool
             (int (length b) * cs_block_size spec)"
  using assms unfolding pass_inv_def by blast+

lemma pass_inv_shorter:
  "pass_inv usable merge co hashes pool cur blocks \<Longrightarrow> 0 \<le> c \<Longrightarrow> c \<le> cur \<Longrightarrow>
   pass_inv usable merge co hashes pool c blocks"
  unfolding pass_inv_def by fastforce

lemma co_okD:
  assumes "co_ok co" and "(spec, gids) \<in> set (co_attention_groups co)"
  shows "0 < cs_block_size spec" and "cs_block_size spec dvd co_lcm_block_size co" and "gids \<noteq> []"
    and "g \<in> set gids \<Longrightarrow> g < length (co_groups co)" and "0 < co_lcm_block_size co"
    and "gids ! 0 \<in> set gids" and "distinct gids"
  using assms unfolding co_ok_def by (auto simp: distinct_concat_iff)

text \<open>Two attention groups share no cache group.\<close>

lemma co_ok_disjoint:
  assumes "co_ok co" and "(s, ids) \<in> set (co_attention_groups co)" and "(s', ids') \<in> set (co_attention_groups co)"
    and "g \<in> set ids" and "g \<in> set ids'"
  shows "ids = ids'"
proof -
  have "distinct (concat (map snd (co_attention_groups co)))" using assms(1) by (simp add: co_ok_def)
  then have "ids \<noteq> ids' \<Longrightarrow> set ids \<inter> set ids' = {}"
    using assms(2,3) unfolding distinct_concat_iff by (metis image_eqI list.set_map snd_conv)
  with assms(4,5) show ?thesis by blast
qed

lemma concat_snd_unique:
  "distinct (concat (map snd ags)) \<Longrightarrow> (s, ids) \<in> set ags \<Longrightarrow> (s', ids) \<in> set ags \<Longrightarrow> ids \<noteq> [] \<Longrightarrow> s = s'"
proof (induction ags)
  case (Cons a ags)
  have clash: "(t', ids) \<notin> set ags" if "a = (t, ids)" for t t'
  proof
    assume "(t', ids) \<in> set ags"
    then have "ids \<in> set (map snd ags)" by (metis image_eqI list.set_map snd_conv)
    then have "set ids \<subseteq> set (concat (map snd ags))" by auto
    moreover have "set ids \<inter> set (concat (map snd ags)) = {}" using Cons.prems(1) that by simp
    ultimately have "set ids = {}" by (metis inf_absorb1)
    with Cons.prems(4) show False by simp
  qed
  have d: "distinct (concat (map snd ags))" using Cons.prems(1) by simp
  consider "a = (s, ids)" | "a = (s', ids)" | "(s, ids) \<in> set ags" "(s', ids) \<in> set ags"
    using set_ConsD[OF Cons.prems(2)] set_ConsD[OF Cons.prems(3)] by blast
  then show ?case
  proof cases
    case 1
    from set_ConsD[OF Cons.prems(3)] clash[OF 1, of s'] have "(s', ids) = a" by blast
    with 1 show ?thesis by simp
  next
    case 2
    from set_ConsD[OF Cons.prems(2)] clash[OF 2, of s] have "(s, ids) = a" by blast
    with 2 show ?thesis by simp
  next
    case 3
    from Cons.IH[OF d 3 Cons.prems(4)] show ?thesis .
  qed
qed simp

lemma group_spec_unique:
  assumes "co_ok co" and "(s, ids) \<in> set (co_attention_groups co)" and "(s', ids) \<in> set (co_attention_groups co)"
  shows "s = s'"
proof -
  have "distinct (concat (map snd (co_attention_groups co)))" "ids \<noteq> []"
    using assms by (auto simp: co_ok_def)
  then show ?thesis using concat_snd_unique assms(2,3) by metis
qed

lemma visit_group_ok:
  assumes fc: "finder_contract fnd usable" and ok: "co_ok co"
    and mem: "(spec, gids) \<in> set (co_attention_groups co)"
    and inv: "pass_inv usable merge co hashes pool cur blocks" and M: "0 \<le> M"
  obtains cur' blocks' verified' where
    "visit_group fnd merge co hashes M pool eagle (idx, spec, gids) (cur, blocks, verified)
       = Inr (cur', blocks', verified')"
    and "cur' \<le> cur" and "pass_inv usable merge co hashes pool cur' blocks'"
    and "usable spec (block_hashes_for_spec merge co hashes (cs_block_size spec)) gids pool cur'"
    and "\<And>g. g \<in> set gids \<Longrightarrow> blocks' ! g \<noteq> None"
    and "\<And>g. g \<notin> set gids \<Longrightarrow> blocks' ! g = blocks ! g"
    and "co_lcm_block_size co dvd cur \<or> blocks ! (gids ! 0) = None \<Longrightarrow> co_lcm_block_size co dvd cur'"
proof -
  let ?bs = "cs_block_size spec" and ?h = "block_hashes_for_spec merge co hashes (cs_block_size spec)"
  note co = co_okD[OF ok mem]
  have c0: "0 \<le> cur" and len: "length blocks = length (co_groups co)"
    using inv by (simp_all add: pass_inv_def)
  show thesis
  proof (cases "cs_full_attention spec \<and> blocks ! (gids ! 0) \<noteq> None")
    case True
    then obtain b where b: "blocks ! (gids ! 0) = Some b" by blast
    let ?c = "align_down cur ?bs"
    have le: "?c \<le> cur" "0 \<le> ?c" using co(1) c0 by (simp_all add: align_down_le align_down_nonneg)
    have cov: "cur \<le> int (length b) * ?bs" "usable spec ?h gids pool (int (length b) * ?bs)"
      using pass_invD(2)[OF inv mem _ b] True by simp_all
    have "usable spec ?h gids pool ?c"
      by (rule usable_cut[OF fc _ cov(2)]) (use True le cov(1) in auto)
    moreover have "\<forall>g \<in> set gids. blocks ! g \<noteq> None"
      using pass_invD(1)[OF inv mem] b co(6) by fastforce
    moreover have "co_lcm_block_size co dvd cur \<Longrightarrow> ?c = cur"
      using co(2) by (metis align_down_def dvd_trans dvd_div_mult_self)
    moreover have "visit_group fnd merge co hashes M pool eagle (idx, spec, gids) (cur, blocks, verified)
        = Inr (?c, blocks, verified)"
      using True by (simp add: visit_group_def)
    ultimately show ?thesis
      using that[of ?c blocks verified] le pass_inv_shorter[OF inv le(2,1)] b by auto
  next
    case False
    define dr where "dr = (idx \<in> eagle \<and> idx \<notin> verified)"
    define lim where "lim = (if dr then min (cur + ?bs) M else cur)"
    define hb where "hb = fnd spec ?h lim gids pool dr (co_lcm_block_size co)"
    have lim: "0 \<le> lim" "lim \<le> cur + (if dr then ?bs else 0)" using c0 M co(1) by (auto simp: lim_def)
    obtain k where k: "length hb = length gids" "\<And>bl. bl \<in> set hb \<Longrightarrow> length bl = k"
      "int k * ?bs \<le> lim" "co_lcm_block_size co dvd int k * ?bs" "dr \<Longrightarrow> k = 0 \<or> int k * ?bs + ?bs \<le> lim"
      "usable spec ?h gids pool (int k * ?bs)"
      using finder_result[OF fc co(1) lim(1) co(5,2,3), of ?h pool dr] unfolding hb_def by metis
    have ne: "hb \<noteq> []" using k(1) co(3) by auto
    then have k0: "length (hb ! 0) = k" using k(2) by simp
    let ?c = "int k * ?bs"
    have le: "0 \<le> ?c" "?c \<le> cur"
    proof -
      show "0 \<le> ?c" using co(1) by simp
      show "?c \<le> cur" using k(3,5) lim(2) c0 by (cases dr) auto
    qed
    let ?blocks = "set_blocks (zip gids hb) blocks"
    have fsts: "fst ` set (zip gids hb) = set gids" and snds: "snd ` set (zip gids hb) \<subseteq> set hb"
      using k(1) by (simp_all flip: set_map)
    have inn: "\<exists>b. ?blocks ! g = Some b \<and> length b = k" if "g \<in> set gids" for g
      using set_blocks_in[of g "zip gids hb" blocks] that co(4) len fsts snds k(2) by fastforce
    have out: "?blocks ! g = blocks ! g" if "g \<notin> set gids" for g
      using set_blocks_other[of g "zip gids hb"] that fsts by simp
    have "pass_inv usable merge co hashes pool ?c ?blocks"
      unfolding pass_inv_def
    proof (intro conjI ballI, goal_cases)
      case (3 x)
      obtain s ids where x: "x = (s, ids)" by (cases x)
      show ?case
      proof (cases "\<exists>g. g \<in> set ids \<and> g \<in> set gids")
        case True
        then have ids: "ids = gids" using co_ok_disjoint[OF ok _ mem] 3 x by blast
        have "s = spec" using group_spec_unique[OF ok, of s ids spec] 3 x mem ids by simp
        with ids x show ?thesis using inn k(6) co(6) by fastforce
      next
        case False
        have d: "\<And>g. g \<in> set ids \<Longrightarrow> ?blocks ! g = blocks ! g" using False out by blast
        have m: "(s, ids) \<in> set (co_attention_groups co)" using 3 x by simp
        have "(\<forall>g \<in> set ids. blocks ! g = None) \<or> (\<forall>g \<in> set ids. blocks ! g \<noteq> None)"
          by (rule pass_invD(1)[OF inv m])
        moreover have "?blocks ! (ids ! 0) = blocks ! (ids ! 0)" using d co_okD(6)[OF ok m] by blast
        ultimately show ?thesis using d le(2) pass_invD(2)[OF inv m] unfolding x prod.case
          by (metis order.trans)
      qed
    qed (use le len in auto)
    moreover have "visit_group fnd merge co hashes M pool eagle (idx, spec, gids) (cur, blocks, verified)
        = Inr (?c, ?blocks, if dr then insert idx verified else if ?c < cur then {} else verified)"
    proof -
      have eq: "fnd spec ?h (if idx \<in> eagle \<and> idx \<notin> verified then min (cur + ?bs) M else cur) gids pool
          (idx \<in> eagle \<and> idx \<notin> verified) (co_lcm_block_size co) = hb"
        by (simp add: hb_def lim_def dr_def)
      have z: "zip_strict gids hb = Inr (zip gids hb)" using k(1) by simp
      show ?thesis
        unfolding visit_group_def Let_def prod.case if_not_P[OF False] eq z k0 dr_def
        using ne by simp
    qed
    ultimately show ?thesis
      using that[OF _ le(2)] k(4,6) inn out by (metis option.simps(3))
  qed
qed

section \<open>A whole pass\<close>

text \<open>
  What a pass over the groups \<open>ags\<close> achieves: the length does not grow, each group has blocks
  and is usable at some length between the new and the old one, the last group at the new length
  itself, and the new length is aligned unless every group was skipped.
\<close>

definition pass_ok ::
  "usable_prefix \<Rightarrow> hash_merge \<Rightarrow> coordinator \<Rightarrow> string list \<Rightarrow> ext_pool \<Rightarrow> (nat \<times> cache_spec \<times> nat list) list \<Rightarrow>
     int \<Rightarrow> group_blocks \<Rightarrow> int \<Rightarrow> group_blocks \<Rightarrow> bool" where
  "pass_ok usable merge co hashes pool ags cur blocks cur' blocks' \<longleftrightarrow>
     cur' \<le> cur \<and> pass_inv usable merge co hashes pool cur' blocks' \<and>
     (\<forall>i spec gids. (i, spec, gids) \<in> set ags \<longrightarrow> (\<forall>g \<in> set gids. blocks' ! g \<noteq> None)) \<and>
     (\<forall>i spec gids. (i, spec, gids) \<in> set ags \<longrightarrow> (\<exists>c. cur' \<le> c \<and> c \<le> cur \<and>
        usable spec (block_hashes_for_spec merge co hashes (cs_block_size spec)) gids pool c)) \<and>
     (\<forall>i spec gids. ags \<noteq> [] \<longrightarrow> last ags = (i, spec, gids) \<longrightarrow>
        usable spec (block_hashes_for_spec merge co hashes (cs_block_size spec)) gids pool cur') \<and>
     (co_lcm_block_size co dvd cur \<or>
        (ags \<noteq> [] \<and> (\<forall>i spec gids. (i, spec, gids) \<in> set ags \<longrightarrow> blocks ! (gids ! 0) = None))
        \<longrightarrow> co_lcm_block_size co dvd cur') \<and>
     (ags = [] \<longrightarrow> cur' = cur) \<and>
     (\<forall>g. g \<notin> set (concat (map (snd \<circ> snd) ags)) \<longrightarrow> blocks' ! g = blocks ! g)"

lemma pass_okD:
  assumes "pass_ok usable merge co hashes pool ags cur blocks cur' blocks'"
  shows "cur' \<le> cur" and "pass_inv usable merge co hashes pool cur' blocks'"
    and "(i, spec, gids) \<in> set ags \<Longrightarrow> g \<in> set gids \<Longrightarrow> blocks' ! g \<noteq> None"
    and "(i, spec, gids) \<in> set ags \<Longrightarrow> \<exists>c. cur' \<le> c \<and> c \<le> cur \<and>
        usable spec (block_hashes_for_spec merge co hashes (cs_block_size spec)) gids pool c"
    and "ags \<noteq> [] \<Longrightarrow> last ags = (i, spec, gids) \<Longrightarrow>
        usable spec (block_hashes_for_spec merge co hashes (cs_block_size spec)) gids pool cur'"
    and "co_lcm_block_size co dvd cur \<Longrightarrow> co_lcm_block_size co dvd cur'"
    and "ags \<noteq> [] \<Longrightarrow> (\<And>i spec gids. (i, spec, gids) \<in> set ags \<Longrightarrow> blocks ! (gids ! 0) = None) \<Longrightarrow>
        co_lcm_block_size co dvd cur'"
    and "ags = [] \<Longrightarrow> cur' = cur"
    and "g \<notin> set (concat (map (snd \<circ> snd) ags)) \<Longrightarrow> blocks' ! g = blocks ! g"
  using assms unfolding pass_ok_def by blast+

lemma pass_ok_Cons:
  assumes rest: "pass_ok usable merge co hashes pool ags c1 b1 c2 b2"
    and le: "c1 \<le> cur" and use: "usable spec (block_hashes_for_spec merge co hashes (cs_block_size spec)) gids pool c1"
    and set: "\<And>g. g \<in> set gids \<Longrightarrow> b1 ! g \<noteq> None" and keep: "\<And>g. g \<notin> set gids \<Longrightarrow> b1 ! g = blocks ! g"
    and dv: "co_lcm_block_size co dvd cur \<or> blocks ! (gids ! 0) = None \<Longrightarrow> co_lcm_block_size co dvd c1"
    and disj: "set gids \<inter> set (concat (map (snd \<circ> snd) ags)) = {}"
  shows "pass_ok usable merge co hashes pool ((i, spec, gids) # ags) cur blocks c2 b2"
  unfolding pass_ok_def
proof (intro conjI allI impI)
  note R = pass_okD[OF rest]
  show "c2 \<le> cur" using R(1) le by simp
  show "pass_inv usable merge co hashes pool c2 b2" by (rule R(2))
  fix j s ids
  show "\<forall>g \<in> set ids. b2 ! g \<noteq> None" if "(j, s, ids) \<in> set ((i, spec, gids) # ags)"
  proof
    fix g assume g: "g \<in> set ids"
    show "b2 ! g \<noteq> None"
    proof (cases "(j, s, ids) \<in> set ags")
      case True
      then show ?thesis using R(3) g by blast
    next
      case False
      with that have "ids = gids" by simp
      with g disj have "g \<notin> set (concat (map (snd \<circ> snd) ags))" by blast
      from R(9)[OF this] set[of g] g \<open>ids = gids\<close> show ?thesis by simp
    qed
  qed
  show "\<exists>c. c2 \<le> c \<and> c \<le> cur \<and>
      usable s (block_hashes_for_spec merge co hashes (cs_block_size s)) ids pool c"
    if "(j, s, ids) \<in> set ((i, spec, gids) # ags)"
  proof (cases "(j, s, ids) \<in> set ags")
    case True
    then show ?thesis using R(4) le by (meson order.trans)
  next
    case False
    with that use R(1) le show ?thesis by auto
  qed
  show "usable s (block_hashes_for_spec merge co hashes (cs_block_size s)) ids pool c2"
    if "last ((i, spec, gids) # ags) = (j, s, ids)"
  proof (cases "ags = []")
    case False
    with that show ?thesis using R(5) by simp
  next
    case True
    have "c2 = c1" by (rule R(8)[OF True])
    with True that use show ?thesis by simp
  qed
  show "co_lcm_block_size co dvd c2"
    if "co_lcm_block_size co dvd cur \<or> (((i, spec, gids) # ags) \<noteq> [] \<and>
      (\<forall>j s ids. (j, s, ids) \<in> set ((i, spec, gids) # ags) \<longrightarrow> blocks ! (ids ! 0) = None))"
    by (rule R(6)) (use dv that in auto)
  show "b2 ! g = blocks ! g" if "g \<notin> set (concat (map (snd \<circ> snd) ((i, spec, gids) # ags)))" for g
    using R(9)[of g] keep[of g] that by simp
qed simp

lemma hit_pass_ok:
  assumes fc: "finder_contract fnd usable" and ok: "co_ok co" and M: "0 \<le> M"
    and "set (map snd ags) \<subseteq> set (co_attention_groups co)" and "distinct (concat (map (snd \<circ> snd) ags))"
    and "pass_inv usable merge co hashes pool cur blocks"
  shows "\<exists>cur' blocks' verified'.
    fold_res (visit_group fnd merge co hashes M pool eagle) ags (cur, blocks, verified)
      = Inr (cur', blocks', verified') \<and> pass_ok usable merge co hashes pool ags cur blocks cur' blocks'"
  using assms(4-6)
proof (induction ags arbitrary: cur blocks verified)
  case Nil
  then show ?case by (simp add: pass_ok_def)
next
  case (Cons a ags)
  obtain i spec gids where a: "a = (i, spec, gids)" by (cases a)
  have mem: "(spec, gids) \<in> set (co_attention_groups co)" using Cons.prems(1) a by auto
  obtain c1 b1 v1 where v: "visit_group fnd merge co hashes M pool eagle a (cur, blocks, verified) = Inr (c1, b1, v1)"
      "c1 \<le> cur" "pass_inv usable merge co hashes pool c1 b1"
      "usable spec (block_hashes_for_spec merge co hashes (cs_block_size spec)) gids pool c1"
      "\<And>g. g \<in> set gids \<Longrightarrow> b1 ! g \<noteq> None" "\<And>g. g \<notin> set gids \<Longrightarrow> b1 ! g = blocks ! g"
      "co_lcm_block_size co dvd cur \<or> blocks ! (gids ! 0) = None \<Longrightarrow> co_lcm_block_size co dvd c1"
    using visit_group_ok[OF fc ok mem Cons.prems(3) M, of eagle i verified] unfolding a by metis
  have disj: "set gids \<inter> set (concat (map (snd \<circ> snd) ags)) = {}"
    using Cons.prems(2) a by auto
  have rest: "set (map snd ags) \<subseteq> set (co_attention_groups co)" "distinct (concat (map (snd \<circ> snd) ags))"
    using Cons.prems(1,2) by (simp, simp only: list.map concat.simps distinct_append)
  obtain c2 b2 v2 where r: "fold_res (visit_group fnd merge co hashes M pool eagle) ags (c1, b1, v1) = Inr (c2, b2, v2)"
      "pass_ok usable merge co hashes pool ags c1 b1 c2 b2"
    using Cons.IH[OF rest v(3), of v1] by blast
  from pass_ok_Cons[OF r(2) v(2,4,5,6,7) disj, of i] v(1) r(1) show ?case
    unfolding a by simp
qed

section \<open>The loop\<close>

lemma enumerate_snd: "map (snd \<circ> snd) (List.enumerate k ags) = map snd ags"
  by (simp flip: map_map)

lemma in_enumerate: "x \<in> set xs \<Longrightarrow> \<exists>i. (i, x) \<in> set (List.enumerate 0 xs)"
  by (metis in_set_impl_in_set_zip2 enumerate_eq_zip length_upt add_diff_cancel_left' add_0)

lemma last_enumerate: "xs \<noteq> [] \<Longrightarrow> last (List.enumerate 0 xs) = (length xs - 1, last xs)"
  by (simp add: last_conv_nth nth_enumerate_eq flip: length_greater_0_conv)

text \<open>The result of the loop: an aligned length not above the start that every group can use.\<close>

definition loop_ok ::
  "usable_prefix \<Rightarrow> hash_merge \<Rightarrow> coordinator \<Rightarrow> string list \<Rightarrow> ext_pool \<Rightarrow> int \<Rightarrow> int \<Rightarrow> group_blocks \<Rightarrow> bool" where
  "loop_ok usable merge co hashes pool hit hit' blocks' \<longleftrightarrow>
     0 \<le> hit' \<and> hit' \<le> hit \<and> co_lcm_block_size co dvd hit' \<and> length blocks' = length (co_groups co) \<and>
     (\<forall>spec gids. (spec, gids) \<in> set (co_attention_groups co) \<longrightarrow> (\<forall>g \<in> set gids. blocks' ! g \<noteq> None) \<and>
       usable spec (block_hashes_for_spec merge co hashes (cs_block_size spec)) gids pool hit')"

lemma hit_loop_ok:
  assumes fc: "finder_contract fnd usable" and ok: "co_ok co" and M: "0 \<le> M"
    and "pass_inv usable merge co hashes pool hit blocks"
    and "co_lcm_block_size co dvd hit \<or> (\<forall>g < length blocks. blocks ! g = None)"
  shows "\<exists>hit' blocks'.
    hit_loop fnd merge co hashes M pool eagle hit blocks verified = Some (Inr (hit', blocks')) \<and>
    loop_ok usable merge co hashes pool hit hit' blocks'"
  using assms(4,5)
proof (induction "nat hit" arbitrary: hit blocks verified rule: less_induct)
  case less
  let ?ags = "List.enumerate 0 (co_attention_groups co)"
  have ne: "co_attention_groups co \<noteq> []" using ok by (simp add: co_ok_def)
  then have ags: "set (map snd ?ags) \<subseteq> set (co_attention_groups co)"
    "distinct (concat (map (snd \<circ> snd) ?ags))" "?ags \<noteq> []"
    using ok by (simp, simp add: co_ok_def enumerate_snd, metis length_enumerate length_0_conv)
  obtain c b v where p: "hit_pass fnd merge co hashes M pool eagle (hit, blocks, verified) = Inr (c, b, v)"
    and pk: "pass_ok usable merge co hashes pool ?ags hit blocks c b"
    using hit_pass_ok[OF fc ok M ags(1,2) less.prems(1), of eagle verified] unfolding hit_pass_def[symmetric]
    by (elim exE conjE) (rule that)
  note P = pass_okD[OF pk]
  have len: "length blocks = length (co_groups co)" "length b = length (co_groups co)" "0 \<le> c"
    using less.prems(1) P(2) by (simp_all add: pass_inv_def)
  have lcm: "co_lcm_block_size co dvd c"
  proof (cases "co_lcm_block_size co dvd hit")
    case False
    with less.prems(2) have none: "\<forall>g < length blocks. blocks ! g = None" by blast
    have "blocks ! (gids ! 0) = None" if "(i, spec, gids) \<in> set ?ags" for i spec gids
    proof -
      have m: "(spec, gids) \<in> set (co_attention_groups co)"
        using imageI[OF that, of snd] unfolding set_map[symmetric] map_snd_enumerate by simp
      show ?thesis using none len(1) co_okD(4)[OF ok m co_okD(6)[OF ok m]] by simp
    qed
    then show ?thesis using P(7) ags(3) by blast
  qed (rule P(6))
  have blk: "b ! g \<noteq> None" if "(spec, gids) \<in> set (co_attention_groups co)" "g \<in> set gids" for spec gids g
    using in_enumerate[OF that(1)] P(3) that(2) by blast
  have near: "\<exists>d. c \<le> d \<and> d \<le> hit \<and>
      usable spec (block_hashes_for_spec merge co hashes (cs_block_size spec)) gids pool d"
    if "(spec, gids) \<in> set (co_attention_groups co)" for spec gids
    using in_enumerate[OF that] P(4) by blast
  show ?case
  proof (cases "hit \<le> c")
    case True
    then have "c = hit" using P(1) by simp
    have "usable spec (block_hashes_for_spec merge co hashes (cs_block_size spec)) gids pool hit"
      if "(spec, gids) \<in> set (co_attention_groups co)" for spec gids
      using near[OF that] \<open>c = hit\<close> by force
    moreover have "hit_loop fnd merge co hashes M pool eagle hit blocks verified = Some (Inr (hit, b))"
      using p True by (subst hit_loop.simps) (simp add: Let_def)
    ultimately show ?thesis using lcm len blk \<open>c = hit\<close> unfolding loop_ok_def by auto
  next
    case far: False
    show ?thesis
    proof (cases "simple_hybrid co")
      case True
      then obtain s0 g0 s1 g1 where two: "co_attention_groups co = [(s0, g0), (s1, g1)]" and full: "cs_full_attention s0"
        by (auto simp: simple_hybrid_def numeral_2_eq_2 length_Suc_conv)
      have "usable s1 (block_hashes_for_spec merge co hashes (cs_block_size s1)) g1 pool c"
        using P(5)[OF ags(3)] by (simp add: last_enumerate[OF ne] two)
      moreover have m0: "(s0, g0) \<in> set (co_attention_groups co)" by (simp add: two)
      then obtain d where d: "c \<le> d" "usable s0 (block_hashes_for_spec merge co hashes (cs_block_size s0)) g0 pool d"
        using near by blast
      have "usable s0 (block_hashes_for_spec merge co hashes (cs_block_size s0)) g0 pool c"
        by (rule usable_cut[OF fc full d(2) len(3) d(1) dvd_trans[OF co_okD(2)[OF ok m0] lcm]])
      moreover have "hit_loop fnd merge co hashes M pool eagle hit blocks verified = Some (Inr (c, b))"
        using p far True by (subst hit_loop.simps) (simp add: Let_def)
      ultimately show ?thesis using lcm len blk far unfolding loop_ok_def two by auto
    next
      case False
      have "nat c < nat hit" using far len(3) by simp
      from less.hyps[OF this P(2) disjI1[OF lcm], of v] obtain h' b' where
        r: "hit_loop fnd merge co hashes M pool eagle c b v = Some (Inr (h', b'))"
          "loop_ok usable merge co hashes pool c h' b'" by blast
      moreover have "hit_loop fnd merge co hashes M pool eagle hit blocks verified = Some (Inr (h', b'))"
        using p far False r(1) by (subst hit_loop.simps) (simp add: Let_def)
      ultimately show ?thesis using far unfolding loop_ok_def by auto
    qed
  qed
qed

lemma trim_full_ok:
  assumes "co_ok co" and "loop_ok usable merge co hashes pool hit hit' blocks"
  shows "\<exists>bls. trim_full co hit' blocks = Inr bls \<and> length bls = length (co_groups co)"
proof -
  obtain s0 g0 ags where ags: "co_attention_groups co = (s0, g0) # ags"
    using assms(1) by (cases "co_attention_groups co") (auto simp: co_ok_def)
  have "\<forall>g \<in> set g0. blocks ! g \<noteq> None"
    using assms(2) unfolding loop_ok_def ags by (metis list.set_intros(1))
  then have "\<not> list_ex (\<lambda>g. blocks ! g = None) g0" by (simp add: list_ex_iff)
  moreover have "length blocks = length (co_groups co)" using assms(2) by (simp add: loop_ok_def)
  ultimately show ?thesis by (simp add: trim_full_def ags)
qed

section \<open>The hit length\<close>

text \<open>
  C4: looking for the longest Store prefix always ends, without an exception, however many passes
  the hybrid groups need. The returned length is between 0 and the asked length, a multiple of the
  block size of every cache group, and every group can use a prefix of exactly that length: a
  group that was satisfied early in the loop is never left with a length it cannot serve.
\<close>

theorem find_hit_blocks_converges:
  assumes "make_coordinator known gs sched_bs hash_bs use_eagle = Inr co" and "gs \<noteq> []" and "0 < sched_bs"
    and "\<And>g s. g \<in> set gs \<Longrightarrow> unwrap_spec (kg_spec g) = Inr s \<Longrightarrow>
           0 < cs_block_size s \<and> cs_block_size s = kg_block_size g"
    and "finder_contract fnd usable" and "0 \<le> max_length"
  shows "\<exists>blocks hit. find_hit_blocks fnd merge co hashes max_length pool apply_eagle = Some (Inr (blocks, hit)) \<and>
    0 \<le> hit \<and> hit \<le> max_length \<and> length blocks = length gs \<and>
    (\<forall>g < length gs. \<exists>spec gids. unwrap_spec (kg_spec (gs ! g)) = Inr spec \<and> g \<in> set gids \<and>
       cs_block_size spec dvd hit \<and>
       usable spec (block_hashes_for_spec merge co hashes (cs_block_size spec)) gids pool hit)"
proof -
  have ok: "co_ok co" and grp: "\<And>g. g < length gs \<Longrightarrow> \<exists>spec gids. (spec, gids) \<in> set (co_attention_groups co)
      \<and> g \<in> set gids \<and> unwrap_spec (kg_spec (gs ! g)) = Inr spec" and gs: "co_groups co = gs"
    using make_coordinator_ok[OF assms(1-4)] by blast+
  show ?thesis
  proof (cases "length (co_attention_groups co) = 1")
    case True
    then obtain spec gids where one: "co_attention_groups co = [(spec, gids)]"
      by (metis One_nat_def length_0_conv length_Suc_conv surj_pair)
    have mem: "(spec, gids) \<in> set (co_attention_groups co)" by (simp add: one)
    note co = co_okD[OF ok mem]
    let ?bs = "cs_block_size spec" and ?d = "0 \<in> (if apply_eagle then set (co_eagle co) else {})"
    let ?h = "block_hashes_for_spec merge co hashes ?bs"
    let ?hb = "fnd spec ?h max_length gids pool ?d ?bs"
    obtain k where k: "length ?hb = length gids" "\<And>bl. bl \<in> set ?hb \<Longrightarrow> length bl = k"
      "int k * ?bs \<le> max_length" "usable spec ?h gids pool (int k * ?bs)"
      using finder_result[OF assms(5) co(1) assms(6) co(1) dvd_refl co(3), of ?h pool ?d] by metis
    have ne: "?hb \<noteq> []" using k(1) co(3) by auto
    then have k0: "length (?hb ! 0) = k" using k(2) by simp
    define bls where "bls = map (\<lambda>b. case b of None \<Rightarrow> [] | Some bl \<Rightarrow> bl)
        (set_blocks (zip gids ?hb) (replicate (length gs) None))"
    have "find_hit_blocks fnd merge co hashes max_length pool apply_eagle = Some (Inr (bls, int k * ?bs))"
    proof -
      have z: "zip_strict gids ?hb = Inr (zip gids ?hb)" using k(1) by simp
      show ?thesis
        unfolding find_hit_blocks_def Let_def one gs bls_def nth_Cons_0 prod.case z using ne k0
        by (simp split del: if_split)
    qed
    moreover have "length bls = length gs" by (simp add: bls_def)
    moreover have "\<exists>spec gids. unwrap_spec (kg_spec (gs ! g)) = Inr spec \<and> g \<in> set gids \<and>
       cs_block_size spec dvd int k * ?bs \<and>
       usable spec (block_hashes_for_spec merge co hashes (cs_block_size spec)) gids pool (int k * ?bs)"
      if "g < length gs" for g
      using grp[OF that] k(4) by (auto simp: one)
    moreover have "0 \<le> int k * ?bs" using co(1) by simp
    ultimately show ?thesis using k(3) by blast
  next
    case False
    let ?e = "if apply_eagle then set (co_eagle co) else {}"
    have "pass_inv usable merge co hashes pool max_length (replicate (length gs) None)"
      using assms(6) co_okD(4,6)[OF ok] by (auto simp: pass_inv_def gs)
    from hit_loop_ok[OF assms(5) ok assms(6) this, of ?e "{}"] obtain hit blocks where
      r: "hit_loop fnd merge co hashes max_length pool ?e max_length (replicate (length gs) None) {} = Some (Inr (hit, blocks))"
        "loop_ok usable merge co hashes pool max_length hit blocks"
      by auto
    obtain bls where t: "trim_full co hit blocks = Inr bls" "length bls = length gs"
      using trim_full_ok[OF ok r(2)] gs by auto
    have "find_hit_blocks fnd merge co hashes max_length pool apply_eagle = Some (Inr (bls, hit))"
      using False r(1) t(1) by (simp add: find_hit_blocks_def Let_def gs)
    moreover have "\<exists>spec gids. unwrap_spec (kg_spec (gs ! g)) = Inr spec \<and> g \<in> set gids \<and>
       cs_block_size spec dvd hit \<and>
       usable spec (block_hashes_for_spec merge co hashes (cs_block_size spec)) gids pool hit"
      if lt: "g < length gs" for g
    proof -
      obtain spec gids where m: "(spec, gids) \<in> set (co_attention_groups co)" "g \<in> set gids"
        "unwrap_spec (kg_spec (gs ! g)) = Inr spec" using grp[OF lt] by blast
      have "cs_block_size spec dvd hit"
        using dvd_trans[OF co_okD(2)[OF ok m(1)]] r(2) by (simp add: loop_ok_def)
      moreover have "usable spec (block_hashes_for_spec merge co hashes (cs_block_size spec)) gids pool hit"
        using r(2) m(1) unfolding loop_ok_def by blast
      ultimately show ?thesis using m by blast
    qed
    ultimately show ?thesis using r(2) t(2) unfolding loop_ok_def by blast
  qed
qed

text \<open>A manager with that behaviour: full attention over the cached prefix.\<close>

definition cached_prefix :: "ext_pool \<Rightarrow> nat list \<Rightarrow> string list \<Rightarrow> nat" where
  "cached_prefix pool gids hashes =
     length (takeWhile (\<lambda>h. get_cached_block pool h gids \<noteq> None) hashes)"

definition full_finder :: finder where
  "full_finder spec hashes n gids pool drop_eagle al =
     (let bs = cs_block_size spec;
          m = min (cached_prefix pool gids hashes) (nat (n div bs));
          m' = (if drop_eagle then m - 1 else m);
          k = nat (align_down (int m' * bs) al div bs)
      in replicate (length gids) (replicate k PresentBlock))"

definition full_usable :: usable_prefix where
  "full_usable spec hashes gids pool L \<longleftrightarrow>
     L \<le> int (cached_prefix pool gids hashes) * cs_block_size spec"

lemma finder_contract_full: "finder_contract full_finder full_usable"
proof -
  have "\<exists>k. length (full_finder spec hashes n gids pool dr al) = length gids \<and>
     (\<forall>bl \<in> set (full_finder spec hashes n gids pool dr al). length bl = k) \<and>
     int k * cs_block_size spec \<le> n \<and> al dvd int k * cs_block_size spec \<and>
     (dr \<longrightarrow> k = 0 \<or> int k * cs_block_size spec + cs_block_size spec \<le> n) \<and>
     full_usable spec hashes gids pool (int k * cs_block_size spec)"
    if h: "0 < cs_block_size spec" "0 \<le> n" "0 < al" "cs_block_size spec dvd al" "gids \<noteq> []"
    for spec hashes n gids pool dr al
  proof -
    define bs where "bs = cs_block_size spec"
    define m where "m = min (cached_prefix pool gids hashes) (nat (n div bs))"
    define m' where "m' = (if dr then m - 1 else m)"
    define k where "k = nat (align_down (int m' * bs) al div bs)"
    have b: "0 < bs" using h(1) by (simp add: bs_def)
    have nn: "0 \<le> align_down (int m' * bs) al" using b h(3) by (simp add: align_down_nonneg)
    have "bs dvd align_down (int m' * bs) al" using h(4) by (metis align_down_dvd bs_def dvd_trans)
    then have kb: "int k * bs = align_down (int m' * bs) al"
      using nn b by (simp add: k_def pos_imp_zdiv_nonneg_iff)
    then have le: "int k * bs \<le> int m' * bs" using align_down_le[OF h(3)] by simp
    have "0 \<le> n div bs" using h(2) b by (simp add: pos_imp_zdiv_nonneg_iff)
    then have "int m \<le> n div bs" unfolding m_def by linarith
    then have "int m * bs \<le> n div bs * bs" using b by (simp add: mult_right_mono)
    then have mn: "int m * bs \<le> n" using align_down_le[OF b, of n] by (simp add: align_down_def)
    have "m' \<le> m" by (simp add: m'_def)
    then have le2: "int m' * bs \<le> int m * bs" using b by simp
    have "full_finder spec hashes n gids pool dr al = replicate (length gids) (replicate k PresentBlock)"
      by (simp add: full_finder_def Let_def k_def m'_def m_def bs_def)
    moreover have "int k * bs + bs \<le> n" if "dr" "k \<noteq> 0"
    proof -
      have "m' \<noteq> 0" using le that(2) b by (metis of_nat_0 mult_zero_left linorder_not_le mult_pos_pos of_nat_0_less_iff neq0_conv)
      then have "int m' * bs + bs = int m * bs" using that(1) by (simp add: m'_def distrib_right[symmetric] of_nat_diff left_diff_distrib)
      then show ?thesis using le mn by simp
    qed
    moreover have "full_usable spec hashes gids pool (int k * bs)"
    proof -
      have "int m * bs \<le> int (cached_prefix pool gids hashes) * bs" using b by (simp add: m_def)
      then show ?thesis using le le2 by (simp add: full_usable_def bs_def)
    qed
    ultimately show ?thesis
      using kb le le2 mn unfolding bs_def[symmetric] by (intro exI[of _ k]) auto
  qed
  then show ?thesis unfolding finder_contract_def by (auto simp: full_usable_def)
qed

declare hit_loop.simps [code]

definition ex_groups :: "kv_group list" where
  "ex_groups =
     [\<lparr>kg_block_size = 16, kg_spec = PlainSpec \<lparr>cs_block_size = 16, cs_full_attention = True, cs_fields = []\<rparr>,
       kg_is_eagle = False\<rparr>,
      \<lparr>kg_block_size = 32, kg_spec = PlainSpec \<lparr>cs_block_size = 32, cs_full_attention = False, cs_fields = []\<rparr>,
       kg_is_eagle = False\<rparr>]"

definition ex_pairs :: hash_merge where
  "ex_pairs hb bs hashes = map (\<lambda>i. hashes ! (2 * i) @ hashes ! (2 * i + 1)) [0..<length hashes div 2]"

definition ex_pool :: ext_pool where
  "ex_pool = Some {(0, ''a''), (0, ''b''), (0, ''c''), (0, ''d''), (0, ''e''), (1, ''ab''), (1, ''cd'')}"

lemma find_hit_blocks_converges_witness:
  "\<exists>co blocks. make_coordinator (\<lambda>_. True) ex_groups 32 16 False = Inr co \<and>
     find_hit_blocks full_finder ex_pairs co [''a'', ''b'', ''c'', ''d'', ''e'', ''f''] 96 ex_pool True
       = Some (Inr (blocks, 64))"
proof -
  obtain co where co: "make_coordinator (\<lambda>_. True) ex_groups 32 16 False = Inr co"
    "co = \<lparr>co_groups = ex_groups, co_hash_block_size = 16, co_lcm_block_size = 32,
      co_attention_groups = [(\<lparr>cs_block_size = 16, cs_full_attention = True, cs_fields = []\<rparr>, [0]),
        (\<lparr>cs_block_size = 32, cs_full_attention = False, cs_fields = []\<rparr>, [1])], co_eagle = []\<rparr>"
    by (rule that[OF _ refl]) code_simp
  have "\<exists>blocks hit. find_hit_blocks full_finder ex_pairs co [''a'', ''b'', ''c'', ''d'', ''e'', ''f''] 96
      ex_pool True = Some (Inr (blocks, hit)) \<and> 0 \<le> hit \<and> hit \<le> 96 \<and> length blocks = length ex_groups \<and>
    (\<forall>g < length ex_groups. \<exists>spec gids. unwrap_spec (kg_spec (ex_groups ! g)) = Inr spec \<and> g \<in> set gids \<and>
       cs_block_size spec dvd hit \<and>
       full_usable spec (block_hashes_for_spec ex_pairs co [''a'', ''b'', ''c'', ''d'', ''e'', ''f'']
         (cs_block_size spec)) gids ex_pool hit)"
    by (rule find_hit_blocks_converges[OF co(1) _ _ _ finder_contract_full]) (auto simp: ex_groups_def)
  then obtain blocks hit where
    r: "find_hit_blocks full_finder ex_pairs co [''a'', ''b'', ''c'', ''d'', ''e'', ''f''] 96 ex_pool True
        = Some (Inr (blocks, hit))" by blast
  moreover have "map_option (map_sum id snd) (find_hit_blocks full_finder ex_pairs co
      [''a'', ''b'', ''c'', ''d'', ''e'', ''f''] 96 ex_pool True) = Some (Inr 64)"
    unfolding co(2) by code_simp
  ultimately show ?thesis using co(1) by auto
qed

end
