(* ===== verification/Pool_Lookup.thy ===== *)
theory Pool_Lookup
  imports Coordinator_Props Lookup_Rpc
begin

text \<open>
  Models the configuration of \<open>MooncakeKVCachePool\<close> that \<open>__init__\<close> derives from the cache
  groups and the rank layout, and its \<open>lookup\<close>: the keys queried for each candidate chunk,
  the presence test over all ranks and the longest usable prefix. The Store's
  \<open>batch_is_exist\<close> is the argument \<open>exist\<close>. The installed coordinator has no
  \<open>lookup_mask\<close> and its pool no \<open>hash_block_size\<close> parameter, so the probes for these take
  the branch modelled here: every chunk is queried.
\<close>

section \<open>Configuration\<close>

record pool_cfg =
  pc_databases :: "ChunkedTokenDatabase list"
  pc_groups :: "kv_group list"
  pc_coordinator :: coordinator
  pc_topology :: pool_topology
  pc_put_step :: int
  pc_num_blocks :: int
  pc_load_timeout :: rat

text \<open>A single group takes the resolved block size.\<close>

definition resize_group :: "int \<Rightarrow> kv_group \<Rightarrow> kv_group" where
  "resize_group bs g =
     g\<lparr>kg_block_size := bs,
       kg_spec := (case kg_spec g of PlainSpec s \<Rightarrow> PlainSpec (s\<lparr>cs_block_size := bs\<rparr>)
                   | UniformSpecs ss \<Rightarrow> UniformSpecs ss)\<rparr>"

definition pool_groups :: "int \<Rightarrow> kv_group list \<Rightarrow> kv_group list" where
  "pool_groups bs gs =
     (case gs of [g] \<Rightarrow> if kg_block_size g \<noteq> bs then [resize_group bs g] else gs | _ \<Rightarrow> gs)"

definition make_databases :: "KeyMetadata \<Rightarrow> int \<Rightarrow> kv_group list \<Rightarrow> ChunkedTokenDatabase list result" where
  "make_databases m hash_block_size gs =
     map_res (\<lambda>(i, g). make_database (m\<lparr>km_group_id := int i\<rparr>) (kg_block_size g) (Some hash_block_size))
       (List.enumerate 0 gs)"

definition make_pool_cfg ::
  "(cache_spec \<Rightarrow> bool) \<Rightarrow> string \<Rightarrow> pool_topology \<Rightarrow> int \<Rightarrow> int \<Rightarrow> kv_group list \<Rightarrow> bool \<Rightarrow> int \<Rightarrow> rat \<Rightarrow>
     pool_cfg result" where
  "make_pool_cfg known model t block_size hash_block_size gs0 use_eagle num_blocks timeout =
     (if timeout \<le> 0 then Inl (ValueError ''mtsc_store_get_timeout_seconds must be finite and positive'')
      else (case put_striping t of Inl e \<Rightarrow> Inl e
       | Inr (put_step, _) \<Rightarrow>
      (case worker_metadata model t of Inl e \<Rightarrow> Inl e
       | Inr m \<Rightarrow>
      (let gs = pool_groups block_size gs0
       in case make_coordinator known gs block_size hash_block_size use_eagle of Inl e \<Rightarrow> Inl e
          | Inr co \<Rightarrow>
         (case make_databases m hash_block_size gs of Inl e \<Rightarrow> Inl e
          | Inr dbs \<Rightarrow>
              Inr \<lparr>pc_databases = dbs, pc_groups = gs, pc_coordinator = co, pc_topology = t,
                   pc_put_step = put_step, pc_num_blocks = num_blocks, pc_load_timeout = timeout\<rparr>)))))"

section \<open>Lookup\<close>

type_synonym candidate = "nat \<times> string"

definition group_candidates ::
  "cdiv_fun \<Rightarrow> hash_merge \<Rightarrow> pool_cfg \<Rightarrow> int \<Rightarrow> string list \<Rightarrow> nat \<Rightarrow> candidate list" where
  "group_candidates cd merge cfg token_count hashes gi =
     (let gh = block_hashes_for_spec merge (pc_coordinator cfg) hashes (kg_block_size (pc_groups cfg ! gi));
          limit = min (int (length gh)) (cd token_count (db_block_size (pc_databases cfg ! gi)))
      in map (\<lambda>i. (gi, gh ! nat i)) [0..limit - 1])"

definition candidate_keys :: "pool_cfg \<Rightarrow> candidate \<Rightarrow> string list" where
  "candidate_keys cfg c =
     map (\<lambda>m. to_string \<lparr>pk_metadata = m, pk_chunk_hash = bytes_hex (snd c)\<rparr>)
       (init_lookup_metadata (pc_topology cfg) (pc_databases cfg ! fst c))"

text \<open>\<open>all(result[base + rank] == 1 for rank in ranks)\<close>.\<close>

fun ranks_present :: "int list \<Rightarrow> int \<Rightarrow> int list \<Rightarrow> bool result" where
  "ranks_present res base [] = Inr True"
| "ranks_present res base (r # rs) =
     (case py_index res (base + r) of Inl e \<Rightarrow> Inl e
      | Inr v \<Rightarrow> if v = 1 then ranks_present res base rs else Inr False)"

definition present_candidates :: "int list \<Rightarrow> int \<Rightarrow> candidate list \<Rightarrow> candidate set result" where
  "present_candidates res ranks cands =
     (case map_res (\<lambda>(i, c). map_sum id (\<lambda>b. (c, b)) (ranks_present res (int i * ranks) [0..ranks - 1]))
             (List.enumerate 0 cands) of
        Inl e \<Rightarrow> Inl e
      | Inr cs \<Rightarrow> Inr (set (map fst (filter snd cs))))"

definition pool_lookup ::
  "cdiv_fun \<Rightarrow> hash_merge \<Rightarrow> finder \<Rightarrow> (string list \<Rightarrow> int list result) \<Rightarrow> pool_cfg \<Rightarrow> bool \<Rightarrow>
     int \<Rightarrow> string list \<Rightarrow> int result option" where
  "pool_lookup cd merge fnd exist cfg is_closed token_count hashes =
     (if is_closed then Some (Inl (RuntimeError ''KV cache pool is closed''))
      else if token_count \<le> 0 \<or> hashes = [] then Some (Inr 0)
      else (let cands = concat (map (group_candidates cd merge cfg token_count hashes)
                          [0..<length (pc_databases cfg)]);
                keys = concat (map (candidate_keys cfg) cands)
            in if keys = [] then Some (Inr 0)
               else (case exist keys of Inl e \<Rightarrow> Some (Inl e)
                | Inr res \<Rightarrow>
                   (case present_candidates res (int (length (lookup_ranks (pc_topology cfg)))) cands of
                      Inl e \<Rightarrow> Some (Inl e)
                    | Inr present \<Rightarrow>
                        map_option (map_sum id snd)
                          (find_longest_cache_hit fnd merge (pc_coordinator cfg) hashes token_count
                             (Some present) True)))))"

section \<open>Presence\<close>

lemma ranks_present_True:
  "ranks_present res base rs = Inr True \<longleftrightarrow> (\<forall>r \<in> set rs. py_index res (base + r) = Inr 1)"
  by (induction rs) (auto split: sum.splits)

text \<open>The keys of the candidates stand in the query one candidate after the other, rank by rank.\<close>

lemma concat_uniform_nth:
  assumes "\<And>x. x \<in> set xs \<Longrightarrow> length (f x) = n" and "i < length xs" and "r < n"
  shows "concat (map f xs) ! (i * n + r) = f (xs ! i) ! r"
  using assms
proof (induction xs arbitrary: i)
  case (Cons x xs)
  then have l: "length (f x) = n" by simp
  show ?case
  proof (cases i)
    case 0
    then show ?thesis using l Cons.prems(3) by (simp add: nth_append)
  next
    case (Suc j)
    then show ?thesis using l Cons by (simp add: nth_append add.assoc)
  qed
qed simp

lemma length_candidate_keys [simp]:
  "length (candidate_keys cfg c) = length (lookup_ranks (pc_topology cfg))"
  by (simp add: candidate_keys_def init_lookup_metadata_def)

lemma present_all_stored:
  assumes "present_candidates (map stored (concat (map (candidate_keys cfg) cands)))
      (int (length (lookup_ranks (pc_topology cfg)))) cands = Inr present"
    and "c \<in> present" and "k \<in> set (candidate_keys cfg c)"
  shows "stored k = (1 :: int)"
proof -
  let ?n = "length (lookup_ranks (pc_topology cfg))" and ?keys = "concat (map (candidate_keys cfg) cands)"
  let ?F = "\<lambda>(i, c). map_sum id (\<lambda>b. (c, b))
      (ranks_present (map stored ?keys) (int i * int ?n) [0..int ?n - 1])"
  obtain cs where m: "map_res ?F (List.enumerate 0 cands) = Inr cs" and pr: "present = set (map fst (filter snd cs))"
    using assms(1) by (auto simp: present_candidates_def split: sum.splits)
  note cs = iffD1[OF map_res_Inr_iff m]
  obtain j where j: "j < length cs" "cs ! j = (c, True)"
    using assms(2) unfolding pr by (auto simp: in_set_conv_nth)
  have jl: "j < length cands" using j(1) list_all2_lengthD[OF cs] by simp
  have "map_sum id (\<lambda>b. (cands ! j, b)) (ranks_present (map stored ?keys) (int j * int ?n) [0..int ?n - 1]) = Inr (c, True)"
    using list_all2_nthD2[OF cs j(1)] j(2) jl by (simp add: nth_enumerate_eq)
  then have "cands ! j = c" and all: "ranks_present (map stored ?keys) (int j * int ?n) [0..int ?n - 1] = Inr True"
    by (cases "ranks_present (map stored ?keys) (int j * int ?n) [0..int ?n - 1]", simp_all)+
  obtain r where r: "r < ?n" "k = candidate_keys cfg c ! r"
    using assms(3) by (auto simp: in_set_conv_nth)
  from all r(1) have "py_index (map stored ?keys) (int j * int ?n + int r) = Inr 1"
    by (simp add: ranks_present_True)
  moreover have "int j * int ?n + int r = int (j * ?n + r)" by simp
  ultimately have "map stored ?keys ! (j * ?n + r) = 1" "j * ?n + r < length ?keys"
    by (auto simp: py_index_def simp del: of_nat_add of_nat_mult split: if_splits)
  moreover have "?keys ! (j * ?n + r) = candidate_keys cfg (cands ! j) ! r"
    by (rule concat_uniform_nth) (use jl r(1) in auto)
  ultimately show ?thesis using r(2) \<open>cands ! j = c\<close> by simp
qed

lemma length_candidate_keys_concat:
  "length (concat (map (candidate_keys cfg) cands)) = length cands * length (lookup_ranks (pc_topology cfg))"
  by (induction cands) auto

lemma ranks_present_total:
  assumes "\<And>r. r \<in> set rs \<Longrightarrow> 0 \<le> base + r \<and> base + r < int (length res)"
  shows "\<exists>b. ranks_present res base rs = Inr b"
  using assms
proof (induction rs)
  case (Cons r rs)
  have "py_index res (base + r) = Inr (res ! nat (base + r))"
    using Cons.prems[of r] by (simp add: py_index_def)
  moreover obtain b where "ranks_present res base rs = Inr b" using Cons by auto
  ultimately have "ranks_present res base (r # rs) = Inr (res ! nat (base + r) = 1 \<and> b)" by simp
  then show ?case by blast
next
  case Nil
  show ?case by (rule exI[of _ True]) simp
qed

lemma present_candidates_total:
  "\<exists>p. present_candidates (map stored (concat (map (candidate_keys cfg) cands)))
     (int (length (lookup_ranks (pc_topology cfg)))) cands = Inr p"
proof -
  let ?n = "length (lookup_ranks (pc_topology cfg))"
  let ?res = "map stored (concat (map (candidate_keys cfg) cands))"
  let ?F = "\<lambda>(i, c). map_sum id (\<lambda>b. (c, b)) (ranks_present ?res (int i * int ?n) [0..int ?n - 1])"
  have len: "length ?res = length cands * ?n" by (simp add: length_candidate_keys_concat)
  have "\<exists>y. ?F ic = Inr y" if "ic \<in> set (List.enumerate 0 cands)" for ic
  proof -
    obtain i c where ic1: "ic = (i, c)" by (cases ic) blast
    have ic: "ic = (i, c)" "i < length cands"
      using that unfolding ic1 in_set_enumerate_eq by simp_all
    have "0 \<le> int i * int ?n + r \<and> int i * int ?n + r < int (length ?res)" if "r \<in> set [0..int ?n - 1]" for r
    proof -
      have "nat r < ?n" using that by (simp add: nat_less_iff)
      then have "i * ?n + nat r < Suc i * ?n" by simp
      also have "\<dots> \<le> length cands * ?n" using ic(2) by (intro mult_le_mono1) simp
      finally have "int (i * ?n + nat r) < int (length cands * ?n)" by (rule of_nat_less_iff[THEN iffD2])
      then show ?thesis using that unfolding len by simp
    qed
    from ranks_present_total[of "[0..int ?n - 1]", OF this] show ?thesis by (auto simp: ic(1))
  qed
  then obtain ys where "map_res ?F (List.enumerate 0 cands) = Inr ys"
    using map_res_total[of "List.enumerate 0 cands" ?F] by blast
  then show ?thesis by (simp add: present_candidates_def)
qed

text \<open>For full attention, a usable prefix is one whose chunks are all present in every group.\<close>

definition full_means_cached :: "usable_prefix \<Rightarrow> bool" where
  "full_means_cached usable \<longleftrightarrow>
     (\<forall>spec hashes gids present L i. cs_full_attention spec \<longrightarrow> usable spec hashes gids (Some present) L \<longrightarrow>
        0 < cs_block_size spec \<longrightarrow> int i * cs_block_size spec < L \<longrightarrow>
        i < length hashes \<and> (\<forall>g \<in> set gids. (g, hashes ! i) \<in> present))"

lemma full_means_cached_full: "full_means_cached full_usable"
proof -
  have "i < length hashes \<and> (\<forall>g \<in> set gids. (g, hashes ! i) \<in> present)"
    if u: "full_usable spec hashes gids (Some present) L" "0 < cs_block_size spec"
      "int i * cs_block_size spec < L" for spec hashes gids present L i
  proof -
    let ?t = "takeWhile (\<lambda>h. get_cached_block (Some present) h gids \<noteq> None) hashes"
    have "int i * cs_block_size spec < int (length ?t) * cs_block_size spec"
      using u(3) u(1)[unfolded full_usable_def cached_prefix_def] by (rule order.strict_trans2)
    then have i: "i < length ?t" using u(2) by (simp only: mult_less_cancel_right) (simp del: not_None_eq)
    then have "?t ! i \<in> set ?t" by (rule nth_mem)
    then have "get_cached_block (Some present) (?t ! i) gids \<noteq> None" by (metis (mono_tags, lifting) set_takeWhileD)
    moreover have "?t ! i = hashes ! i" using i by (rule takeWhile_nth)
    moreover have "i < length hashes" using i length_takeWhile_le order.strict_trans2 by blast
    ultimately show ?thesis by (auto simp: get_cached_block_def list_all_iff split: if_splits)
  qed
  then show ?thesis unfolding full_means_cached_def by blast
qed

lemma make_pool_cfg_parts:
  assumes "make_pool_cfg known model t bs hb gs0 use_eagle nb timeout = Inr cfg"
  shows "make_coordinator known (pc_groups cfg) bs hb use_eagle = Inr (pc_coordinator cfg)"
    and "length (pc_databases cfg) = length (pc_groups cfg)" and "pc_topology cfg = t"
    and "\<exists>m. worker_metadata model t = Inr m \<and> (\<forall>g < length (pc_groups cfg).
          db_metadata (pc_databases cfg ! g) = m\<lparr>km_group_id := int g\<rparr> \<and>
          db_block_size (pc_databases cfg ! g) = kg_block_size (pc_groups cfg ! g))"
    and "\<exists>h. put_striping t = Inr (pc_put_step cfg, h)"
proof -
  from assms obtain m dbs h where parts: "worker_metadata model t = Inr m"
    "make_databases m hb (pc_groups cfg) = Inr dbs" "pc_databases cfg = dbs" "pc_topology cfg = t"
    "make_coordinator known (pc_groups cfg) bs hb use_eagle = Inr (pc_coordinator cfg)"
    "put_striping t = Inr (pc_put_step cfg, h)"
    by (auto simp: make_pool_cfg_def Let_def split: if_splits sum.splits prod.splits)
  show "make_coordinator known (pc_groups cfg) bs hb use_eagle = Inr (pc_coordinator cfg)" "pc_topology cfg = t"
    "\<exists>h. put_striping t = Inr (pc_put_step cfg, h)"
    using parts by auto
  from parts(2) have d: "list_all2 (\<lambda>x y. (case x of (i, g) \<Rightarrow>
      make_database (m\<lparr>km_group_id := int i\<rparr>) (kg_block_size g) (Some hb)) = Inr y)
    (List.enumerate 0 (pc_groups cfg)) dbs"
    unfolding make_databases_def map_res_Inr_iff .
  then show len: "length (pc_databases cfg) = length (pc_groups cfg)"
    using list_all2_lengthD[OF d] parts(3) by simp
  have "db_metadata (dbs ! g) = m\<lparr>km_group_id := int g\<rparr> \<and> db_block_size (dbs ! g) = kg_block_size (pc_groups cfg ! g)"
    if "g < length (pc_groups cfg)" for g
    using list_all2_nthD[OF d, of g] that
    by (auto simp: nth_enumerate_eq make_database_def Let_def dest!: sym[of _ "dbs ! g"] split: if_splits)
  with parts(1,3) show "\<exists>m. worker_metadata model t = Inr m \<and> (\<forall>g < length (pc_groups cfg).
          db_metadata (pc_databases cfg ! g) = m\<lparr>km_group_id := int g\<rparr> \<and>
          db_block_size (pc_databases cfg ! g) = kg_block_size (pc_groups cfg ! g))"
    by blast
qed

section \<open>What a hit means\<close>


definition ex_pool_cfg :: pool_cfg where
  "ex_pool_cfg = projr (make_pool_cfg (\<lambda>_. True) ''org/m/'' ex_topology 32 16 ex_groups False 100 180)"

lemma ex_pool_cfg:
  "make_pool_cfg (\<lambda>_. True) ''org/m/'' ex_topology 32 16 ex_groups False 100 180 = Inr ex_pool_cfg"
  by code_simp

lemma ex_pool_cfg_groups: "pc_groups ex_pool_cfg = ex_groups"
  by code_simp

lemma ex_groups_specs:
  "g \<in> set ex_groups \<Longrightarrow> unwrap_spec (kg_spec g) = Inr s \<Longrightarrow> 0 < cs_block_size s \<and> cs_block_size s = kg_block_size g"
  by (auto simp: ex_groups_def)


end
