(* ===== verification/Executor.thy ===== *)
theory Executor
  imports Base
begin

text \<open>
  The part of Python's \<open>ThreadPoolExecutor\<close> and \<open>Future\<close> that the pool and the transfer
  code rely on. A future is an index into the list of submitted tasks, which keeps the order of
  submission; a worker thread starts the oldest pending task and finishes it later with a value
  or an exception. A call that blocks (\<open>future.result()\<close>, \<open>shutdown(wait=True)\<close>) is an
  operation that takes the outcomes the awaited tasks will have; any progress of other tasks is
  a separate step of the environment.
\<close>

section \<open>Tasks and futures\<close>

datatype 'r task_state = Pending | Running | Finished "'r result" | Cancelled

record ('j, 'r) executor =
  ex_workers :: nat
  ex_tasks :: "('j \<times> 'r task_state) list"
  ex_open :: bool

type_synonym future = nat

definition new_executor :: "nat \<Rightarrow> ('j, 'r) executor" where
  "new_executor n = \<lparr>ex_workers = n, ex_tasks = [], ex_open = True\<rparr>"

definition task_of :: "('j, 'r) executor \<Rightarrow> future \<Rightarrow> 'j" where
  "task_of ex f = fst (ex_tasks ex ! f)"

text \<open>An index that was never handed out counts as cancelled: no task can run for it.\<close>

definition task_state :: "('j, 'r) executor \<Rightarrow> future \<Rightarrow> 'r task_state" where
  "task_state ex f = (if f < length (ex_tasks ex) then snd (ex_tasks ex ! f) else Cancelled)"

definition set_state :: "future \<Rightarrow> 'r task_state \<Rightarrow> ('j, 'r) executor \<Rightarrow> ('j, 'r) executor" where
  "set_state f st ex =
     (if f < length (ex_tasks ex)
      then ex\<lparr>ex_tasks := (ex_tasks ex)[f := (fst (ex_tasks ex ! f), st)]\<rparr> else ex)"

definition submit :: "('j, 'r) executor \<Rightarrow> 'j \<Rightarrow> (future \<times> ('j, 'r) executor) result" where
  "submit ex j =
     (if ex_open ex then Inr (length (ex_tasks ex), ex\<lparr>ex_tasks := ex_tasks ex @ [(j, Pending)]\<rparr>)
      else Inl (RuntimeError ''cannot schedule new futures after shutdown''))"

fun is_done :: "'r task_state \<Rightarrow> bool" where
  "is_done (Finished r) = True"
| "is_done Cancelled = True"
| "is_done Pending = False"
| "is_done Running = False"

definition fut_done :: "('j, 'r) executor \<Rightarrow> future \<Rightarrow> bool" where
  "fut_done ex f = is_done (task_state ex f)"

text \<open>\<open>future.result()\<close> of a future that is done; \<open>None\<close> where the call would block.\<close>

definition fut_result :: "('j, 'r) executor \<Rightarrow> future \<Rightarrow> 'r result option" where
  "fut_result ex f =
     (case task_state ex f of Finished r \<Rightarrow> Some r | Cancelled \<Rightarrow> Some (Inl CancelledError)
      | _ \<Rightarrow> None)"

text \<open>\<open>future.cancel()\<close> fails once the task runs or is finished.\<close>

definition cancel :: "('j, 'r) executor \<Rightarrow> future \<Rightarrow> bool \<times> ('j, 'r) executor" where
  "cancel ex f =
     (case task_state ex f of
        Pending \<Rightarrow> (True, set_state f Cancelled ex)
      | Cancelled \<Rightarrow> (True, ex)
      | _ \<Rightarrow> (False, ex))"

section \<open>Progress of the worker threads\<close>

definition running_count :: "('j, 'r) executor \<Rightarrow> nat" where
  "running_count ex = length (filter (\<lambda>t. snd t = Running) (ex_tasks ex))"

text \<open>The oldest pending task.\<close>

fun first_pending :: "('j \<times> 'r task_state) list \<Rightarrow> nat option" where
  "first_pending [] = None"
| "first_pending ((j, st) # ts) =
     (if st = Pending then Some 0 else map_option Suc (first_pending ts))"

definition start_next :: "('j, 'r) executor \<Rightarrow> ('j, 'r) executor" where
  "start_next ex =
     (case first_pending (ex_tasks ex) of None \<Rightarrow> ex
      | Some f \<Rightarrow> if running_count ex < ex_workers ex then set_state f Running ex else ex)"

definition finish :: "future \<Rightarrow> 'r result \<Rightarrow> ('j, 'r) executor \<Rightarrow> ('j, 'r) executor" where
  "finish f r ex = (if task_state ex f = Running then set_state f (Finished r) ex else ex)"

section \<open>Blocking calls\<close>

text \<open>Waiting for a task that is running or done.\<close>

definition await_task :: "(future \<Rightarrow> 'r result) \<Rightarrow> future \<Rightarrow> ('j, 'r) executor \<Rightarrow> ('j, 'r) executor" where
  "await_task out f ex = finish f (out f) ex"

text \<open>Waiting for a task that may still be queued: a one-worker lane first finishes every task
  submitted before it, in order.\<close>

fun run_state :: "'r result \<Rightarrow> 'r task_state \<Rightarrow> 'r task_state" where
  "run_state r Pending = Finished r"
| "run_state r Running = Finished r"
| "run_state r (Finished r') = Finished r'"
| "run_state r Cancelled = Cancelled"

definition run_through :: "(future \<Rightarrow> 'r result) \<Rightarrow> future \<Rightarrow> ('j, 'r) executor \<Rightarrow> ('j, 'r) executor" where
  "run_through out f ex =
     fold (\<lambda>g ex. set_state g (run_state (out g) (task_state ex g)) ex) [0..<Suc f] ex"

text \<open>\<open>shutdown(wait=True, cancel_futures=True)\<close>.\<close>

definition shutdown :: "(future \<Rightarrow> 'r result) \<Rightarrow> ('j, 'r) executor \<Rightarrow> ('j, 'r) executor" where
  "shutdown out ex =
     ex\<lparr>ex_open := False,
        ex_tasks := map (\<lambda>(f, (j, st)).
            (j, case st of Pending \<Rightarrow> Cancelled | Running \<Rightarrow> Finished (out f) | _ \<Rightarrow> st))
          (List.enumerate 0 (ex_tasks ex))\<rparr>"

section \<open>Facts\<close>

named_theorems exec_simps \<open>state of a task after an operation of the executor\<close>

lemma task_state_set [exec_simps]:
  "task_state (set_state f st ex) g =
     (if g = f \<and> f < length (ex_tasks ex) then st else task_state ex g)"
  by (auto simp: task_state_def set_state_def)

lemma length_set_state [simp]: "length (ex_tasks (set_state f st ex)) = length (ex_tasks ex)"
  by (simp add: set_state_def)

lemma task_of_set_state [simp]: "task_of (set_state f st ex) g = task_of ex g"
  by (cases "f = g") (auto simp: task_of_def set_state_def)

lemma ex_open_set_state [simp]: "ex_open (set_state f st ex) = ex_open ex"
  by (simp add: set_state_def)

lemma task_state_unknown [exec_simps]: "length (ex_tasks ex) \<le> f \<Longrightarrow> task_state ex f = Cancelled"
  by (simp add: task_state_def)

lemma task_state_submit [exec_simps]:
  "submit ex j = Inr (f, ex') \<Longrightarrow> task_state ex' g = (if g = f then Pending else task_state ex g)"
  by (auto simp: submit_def task_state_def nth_append split: if_splits)

lemma submit_fresh: "submit ex j = Inr (f, ex') \<Longrightarrow>
    f = length (ex_tasks ex) \<and> length (ex_tasks ex') = Suc f \<and> task_of ex' f = j"
  by (auto simp: submit_def task_of_def split: if_splits)

lemma task_of_submit: "submit ex j = Inr (f, ex') \<Longrightarrow> g < f \<Longrightarrow> task_of ex' g = task_of ex g"
  by (auto simp: submit_def task_of_def nth_append split: if_splits)

lemma task_state_active: "task_state ex f = Pending \<or> task_state ex f = Running \<Longrightarrow> f < length (ex_tasks ex)"
  by (auto simp: task_state_def split: if_splits)

lemma run_state_idem [simp]: "run_state r (run_state r st) = run_state r st"
  by (cases st) auto

lemma cancel_state [exec_simps]:
  "task_state (snd (cancel ex f)) g =
     (if g = f \<and> task_state ex f = Pending then Cancelled else task_state ex g)"
  by (auto simp: cancel_def exec_simps dest: task_state_active split: task_state.splits)

lemma cancel_true: "fst (cancel ex f) \<longleftrightarrow> task_state ex f = Pending \<or> task_state ex f = Cancelled"
  by (auto simp: cancel_def split: task_state.splits)

lemma length_cancel [simp]: "length (ex_tasks (snd (cancel ex f))) = length (ex_tasks ex)"
  by (auto simp: cancel_def split: task_state.splits)

lemma task_of_cancel [simp]: "task_of (snd (cancel ex f)) g = task_of ex g"
  by (auto simp: cancel_def split: task_state.splits)

lemma finish_state [exec_simps]:
  "task_state (finish f r ex) g =
     (if g = f \<and> task_state ex f = Running then Finished r else task_state ex g)"
  by (auto simp: finish_def exec_simps dest: task_state_active)

lemma length_finish [simp]: "length (ex_tasks (finish f r ex)) = length (ex_tasks ex)"
  by (simp add: finish_def)

lemma task_of_finish [simp]: "task_of (finish f r ex) g = task_of ex g"
  by (simp add: finish_def)

lemma fut_done_iff: "fut_done ex f \<longleftrightarrow> task_state ex f \<noteq> Pending \<and> task_state ex f \<noteq> Running"
  by (cases "task_state ex f") (auto simp: fut_done_def)

lemma fut_result_done: "fut_done ex f \<longleftrightarrow> fut_result ex f \<noteq> None"
  by (cases "task_state ex f") (auto simp: fut_done_def fut_result_def)

text \<open>The fence every component uses: cancel, and wait where that fails.\<close>

definition fence :: "(future \<Rightarrow> 'r result) \<Rightarrow> future \<Rightarrow> ('j, 'r) executor \<Rightarrow> ('j, 'r) executor" where
  "fence out f ex =
     (let (ok, ex') = cancel ex f in if ok then ex' else await_task out f ex')"

lemma fence_state [exec_simps]:
  "task_state (fence out f ex) g =
     (if g \<noteq> f then task_state ex g
      else case task_state ex f of Pending \<Rightarrow> Cancelled | Running \<Rightarrow> Finished (out f) | st \<Rightarrow> st)"
  by (cases "task_state ex f")
     (auto simp: fence_def cancel_def await_task_def exec_simps dest: task_state_active)

lemma fence_done: "fut_done (fence out f ex) f"
  by (cases "task_state ex f") (simp_all add: fut_done_def exec_simps)

lemma fence_keeps_done: "fut_done ex g \<Longrightarrow> fut_done (fence out f ex) g"
  by (cases "task_state ex g") (auto simp: fut_done_def exec_simps)

lemma length_fence [simp]: "length (ex_tasks (fence out f ex)) = length (ex_tasks ex)"
  by (auto simp: fence_def await_task_def cancel_def split: task_state.splits)

lemma run_fold_state:
  "task_state (fold (\<lambda>g ex. set_state g (run_state (out g) (task_state ex g)) ex) gs ex) h =
     (if h \<in> set gs then run_state (out h) (task_state ex h) else task_state ex h)"
proof (induction gs arbitrary: ex)
  case (Cons g gs)
  show ?case
    by (cases "h < length (ex_tasks ex)") (auto simp: Cons.IH exec_simps)
qed simp

lemma run_through_state [exec_simps]:
  "task_state (run_through out f ex) g =
     (if g \<le> f then run_state (out g) (task_state ex g) else task_state ex g)"
  unfolding run_through_def run_fold_state by (auto simp: less_Suc_eq_le)

lemma run_through_done: "fut_done (run_through out f ex) f"
  by (cases "task_state ex f") (simp_all add: fut_done_def exec_simps)

lemma run_through_keeps_done: "fut_done ex g \<Longrightarrow> fut_done (run_through out f ex) g"
  by (cases "task_state ex g") (auto simp: fut_done_def exec_simps)

lemma shutdown_state [exec_simps]:
  "task_state (shutdown out ex) f =
     (case task_state ex f of Pending \<Rightarrow> Cancelled | Running \<Rightarrow> Finished (out f) | st \<Rightarrow> st)"
  by (auto simp: shutdown_def task_state_def nth_enumerate_eq split: prod.splits task_state.splits)

lemma shutdown_done: "fut_done (shutdown out ex) f"
  by (cases "task_state ex f") (simp_all add: fut_done_def exec_simps)

lemma submit_after_shutdown: "submit (shutdown out ex) j \<noteq> Inr r"
  by (simp add: submit_def shutdown_def)

text \<open>The worker threads keep the order: while a task of a lane is pending, so is every later one.\<close>

definition lane_ordered :: "('j, 'r) executor \<Rightarrow> bool" where
  "lane_ordered ex \<longleftrightarrow>
     (\<forall>f g. f < g \<and> task_state ex f = Pending \<longrightarrow>
        task_state ex g = Pending \<or> task_state ex g = Cancelled)"

lemma first_pending_Some:
  "first_pending ts = Some f \<Longrightarrow> f < length ts \<and> snd (ts ! f) = Pending \<and>
     (\<forall>g < f. snd (ts ! g) \<noteq> Pending)"
proof (induction ts arbitrary: f rule: first_pending.induct)
  case (2 j st ts)
  show ?case
  proof (cases "st = Pending")
    case False
    with 2(2) obtain k where k: "first_pending ts = Some k" "f = Suc k" by auto
    with 2(1)[OF False k(1)] False show ?thesis by (auto simp: less_Suc_eq_0_disj)
  qed (use 2 in auto)
qed simp

lemma lane_ordered_start: "lane_ordered ex \<Longrightarrow> lane_ordered (start_next ex)"
proof -
  assume o: "lane_ordered ex"
  show ?thesis
  proof (cases "first_pending (ex_tasks ex)")
    case (Some f)
    then have f: "f < length (ex_tasks ex)" "\<forall>g < f. task_state ex g \<noteq> Pending"
      using first_pending_Some[OF Some] by (auto simp: task_state_def)
    then show ?thesis
      using o Some by (fastforce simp: start_next_def lane_ordered_def exec_simps)
  qed (use o in \<open>simp add: start_next_def\<close>)
qed

lemma lane_ordered_finish: "lane_ordered ex \<Longrightarrow> lane_ordered (finish f r ex)"
  by (fastforce simp: lane_ordered_def exec_simps)

lemma lane_ordered_submit: "lane_ordered ex \<Longrightarrow> submit ex j = Inr (f, ex') \<Longrightarrow> lane_ordered ex'"
  using submit_fresh[of ex j f ex'] task_state_submit[of ex j f ex']
  by (auto simp: lane_ordered_def task_state_unknown)

lemma lane_ordered_cancel: "lane_ordered ex \<Longrightarrow> lane_ordered (snd (cancel ex f))"
  by (auto simp: lane_ordered_def exec_simps)

section \<open>The fence as an interface\<close>

text \<open>
  What a client of a fence relies on: afterwards the awaited future is done, and no future that
  was done comes back to life. Fencing a list of futures then ends all of them.
\<close>

locale io_fence =
  fixes ended :: "'e \<Rightarrow> nat \<Rightarrow> bool"
    and stop :: "nat \<Rightarrow> 'e \<Rightarrow> 'e"
  assumes stop_ends: "ended (stop f e) f"
    and stop_keeps: "ended e g \<Longrightarrow> ended (stop f e) g"
begin

lemma fold_keeps: "ended e g \<Longrightarrow> ended (fold stop fs e) g"
  by (induction fs arbitrary: e) (auto intro: stop_keeps)

lemma fold_ends: "f \<in> set fs \<Longrightarrow> ended (fold stop fs e) f"
  by (induction fs arbitrary: e) (auto intro: fold_keeps stop_ends)

end

interpretation fenced: io_fence fut_done "fence out"
  by unfold_locales (rule fence_done, rule fence_keeps_done)

interpretation drained: io_fence fut_done "run_through out"
  by unfold_locales (rule run_through_done, rule run_through_keeps_done)

end
