(* ===== verification/Cache_Pool.thy ===== *)
theory Cache_Pool
  imports Pool_Lookup Executor Protocol
begin

text \<open>
  Models the I/O of \<open>MooncakeKVCachePool\<close> (\<^verbatim>\<open>mtsc/kv_cache_pool.py\<close>): the two
  background tasks (\<open>_load_work\<close>, \<open>_save\<close>), submission and coalescing of saves, polling,
  error collection, the preemption fence, draining and closing. The Store's bindings are
  arguments: \<open>store_get\<close> (\<open>batch_get_into_multi_buffers\<close>), \<open>exist\<close> and
  \<open>store_put\<close>. The monotonic clock is the argument \<open>now\<close>. A device event is its identity.
  The pool lock makes each operation atomic; the worker threads progress between operations.
  Of \<open>_SaveState\<close>'s fields for the log line the token range is kept, the start time is not.
\<close>

section \<open>Events and results\<close>


record LoadEvent =
  le_request_id :: string
  le_block_ids :: block_groups
  le_block_hashes :: "string list"
  le_start_load :: int
  le_end_load :: int

datatype ready = Signal nat | ReadySignals "nat list"

record SaveEvent =
  se_request_id :: string
  se_block_ids :: block_groups
  se_block_hashes :: "string list"
  se_start_save :: int
  se_end_save :: int
  se_ready_event :: "ready option"
  se_prompt_tokens :: "int option"

record LoadResult =
  rl_request_id :: string
  rl_loaded_tokens :: int
  rl_error :: "string option"
  rl_elapsed_ms :: rat

record SaveResult =
  rs_request_id :: string
  rs_error :: "string option"

record PoolPollResult =
  pr_loads :: "LoadResult list"
  pr_saves :: "SaveResult list"

record LoadOutcome =
  lo_loaded_tokens :: int
  lo_error :: "string option"
  lo_invalid :: "int set"

section \<open>Loading\<close>

type_synonym store_get = "string list \<Rightarrow> int list list \<Rightarrow> int list list \<Rightarrow> int list result"
type_synonym transfer_item = "string \<times> int list \<times> int list \<times> int"

text \<open>The chunks of one group that the load reads: key, addresses, sizes and block.\<close>

definition item_of :: "cdiv_fun \<Rightarrow> ChunkedTokenDatabase \<Rightarrow> int list \<Rightarrow> chunk \<Rightarrow> transfer_item result" where
  "item_of cd db ids ch =
     (case prepare_value cd db (fst ch) (fst (snd ch)) ids of Inl e \<Rightarrow> Inl e
      | Inr (addrs, sizes, b) \<Rightarrow> Inr (to_string (snd (snd ch)), addrs, sizes, b))"

definition group_load_items ::
  "cdiv_fun \<Rightarrow> hash_merge \<Rightarrow> pool_cfg \<Rightarrow> bool list list \<Rightarrow> LoadEvent \<Rightarrow> nat \<Rightarrow> transfer_item list result" where
  "group_load_items cd merge cfg masks ev gi =
     (let db = pc_databases cfg ! gi
      in case pool_process_tokens cd merge db (le_end_load ev) (le_block_hashes ev) (le_start_load ev) None 1 0 of
           Inl e \<Rightarrow> Inl e
         | Inr chunks \<Rightarrow>
            if chunks = [] then Inr []
            else (case py_index masks (int gi) of Inl e \<Rightarrow> Inl e
             | Inr m \<Rightarrow>
                (let selected = filter (\<lambda>ch. let c = fst ch div db_block_size db
                          in c < int (length m) \<and> m ! nat c) chunks
                 in if selected = [] then Inr []
                    else (case py_index (le_block_ids ev) (int gi) of Inl e \<Rightarrow> Inl e
                      | Inr ids \<Rightarrow> map_res (item_of cd db ids) selected))))"

definition load_items ::
  "cdiv_fun \<Rightarrow> hash_merge \<Rightarrow> pool_cfg \<Rightarrow> bool list list \<Rightarrow> LoadEvent \<Rightarrow> transfer_item list result" where
  "load_items cd merge cfg masks ev =
     map_sum id concat
       (map_res (group_load_items cd merge cfg masks ev) [0..<length (pc_databases cfg)])"

text \<open>The blocks whose chunks failed: negative statuses, or every block where the call raised or
  returned the wrong number of statuses.\<close>

definition failed_blocks :: "transfer_item list \<Rightarrow> int list result \<Rightarrow> int set" where
  "failed_blocks items reply =
     (let blocks = map (\<lambda>(k, a, s, b). b) items
      in case reply of Inl e \<Rightarrow> set blocks
         | Inr statuses \<Rightarrow>
             (case zip_strict blocks statuses of Inl e \<Rightarrow> set blocks
              | Inr zs \<Rightarrow> set (map fst (filter (\<lambda>(b, s). s < 0) zs))))"

definition pool_load ::
  "cdiv_fun \<Rightarrow> hash_merge \<Rightarrow> finder \<Rightarrow> pool_cfg \<Rightarrow> store_get \<Rightarrow> LoadEvent \<Rightarrow> int set result option" where
  "pool_load cd merge fnd cfg store_get ev =
     (case load_mask fnd merge (pc_coordinator cfg) (le_block_hashes ev) (le_end_load ev) of
        None \<Rightarrow> None
      | Some (Inl e) \<Rightarrow> Some (Inl e)
      | Some (Inr masks) \<Rightarrow>
         (case load_items cd merge cfg masks ev of Inl e \<Rightarrow> Some (Inl e)
          | Inr items \<Rightarrow>
              Some (Inr (if items = [] then {}
                else failed_blocks items
                  (store_get (map fst items) (map (fst \<circ> snd) items) (map (fst \<circ> snd \<circ> snd) items))))))"

definition group_range :: "cdiv_fun \<Rightarrow> int \<Rightarrow> int \<Rightarrow> int list \<times> ChunkedTokenDatabase \<Rightarrow> int list" where
  "group_range cd start stop g =
     filter (\<lambda>b. b \<ge> 0)
       (slice_range (fst g) (cd start (db_block_size (snd g))) (cd stop (db_block_size (snd g))))"

definition range_blocks :: "cdiv_fun \<Rightarrow> pool_cfg \<Rightarrow> LoadEvent \<Rightarrow> int \<Rightarrow> int \<Rightarrow> block_groups result" where
  "range_blocks cd cfg ev start stop =
     map_sum id (map (group_range cd start stop)) (zip_strict (le_block_ids ev) (pc_databases cfg))"

definition request_load_blocks :: "cdiv_fun \<Rightarrow> pool_cfg \<Rightarrow> LoadEvent \<Rightarrow> int set result" where
  "request_load_blocks cd cfg ev =
     map_sum id (\<lambda>zs. set (concat (map (\<lambda>(ids, db).
         let start = cd (le_start_load ev) (db_block_size db);
             stop = min (cd (le_end_load ev) (db_block_size db)) (int (length ids))
         in filter (\<lambda>b. b \<ge> 0) (slice_range ids start stop)) zs)))
       (zip_strict (le_block_ids ev) (pc_databases cfg))"

text \<open>The scan of one group for its first failed block.\<close>

definition group_prefix ::
  "cdiv_fun \<Rightarrow> LoadEvent \<Rightarrow> int set \<Rightarrow> int list \<times> ChunkedTokenDatabase \<Rightarrow> int \<Rightarrow> int" where
  "group_prefix cd ev failed g actual =
     (let (ids, db) = g; bs = db_block_size db;
          start = cd (le_start_load ev) bs;
          stop = min (cd (le_end_load ev) bs) (int (length ids))
      in case List.find (\<lambda>i. ids ! nat i \<in> failed) [start..stop - 1] of None \<Rightarrow> actual
         | Some i \<Rightarrow> min actual (i * bs))"

definition loaded_prefix :: "cdiv_fun \<Rightarrow> pool_cfg \<Rightarrow> LoadEvent \<Rightarrow> int set \<Rightarrow> int result" where
  "loaded_prefix cd cfg ev failed =
     map_sum id (\<lambda>zs. max (le_start_load ev) (fold (group_prefix cd ev failed) zs (le_end_load ev)))
       (zip_strict (le_block_ids ev) (pc_databases cfg))"

text \<open>The verdict of a load, once \<open>_load\<close> has returned the failed blocks or raised.\<close>

definition load_verdict :: "cdiv_fun \<Rightarrow> pool_cfg \<Rightarrow> LoadEvent \<Rightarrow> int set result \<Rightarrow> LoadOutcome result" where
  "load_verdict cd cfg ev loaded =
     (let judged = (case loaded of
              Inr failed \<Rightarrow> Inr (failed, if failed \<noteq> {} then Some ''Mooncake load missed or failed'' else None)
            | Inl exc \<Rightarrow> (case request_load_blocks cd cfg ev of Inl e \<Rightarrow> Inl e
                         | Inr failed \<Rightarrow> Inr (failed, Some (exc_text exc))))
      in case judged of Inl e \<Rightarrow> Inl e
         | Inr (failed, error) \<Rightarrow>
            (case loaded_prefix cd cfg ev failed of Inl e \<Rightarrow> Inl e
             | Inr actual \<Rightarrow>
                (case range_blocks cd cfg ev actual (le_end_load ev) of Inl e \<Rightarrow> Inl e
                 | Inr blocks \<Rightarrow>
                     Inr \<lparr>lo_loaded_tokens = actual, lo_error = error, lo_invalid = set (concat blocks)\<rparr>)))"

definition load_work ::
  "cdiv_fun \<Rightarrow> hash_merge \<Rightarrow> finder \<Rightarrow> pool_cfg \<Rightarrow> store_get \<Rightarrow> LoadEvent \<Rightarrow> LoadOutcome result option" where
  "load_work cd merge fnd cfg store_get ev =
     map_option (load_verdict cd cfg ev) (pool_load cd merge fnd cfg store_get ev)"

section \<open>Saving\<close>

type_synonym store_exist = "string list \<Rightarrow> int list result"
type_synonym store_put = "string list \<Rightarrow> int list list \<Rightarrow> int list list \<Rightarrow> int list result"

definition store_masks ::
  "cdiv_fun \<Rightarrow> hash_merge \<Rightarrow> finder \<Rightarrow> pool_cfg \<Rightarrow> int \<Rightarrow> int \<Rightarrow> bool list list result option" where
  "store_masks cd merge fnd cfg token_count save_from =
     map_option (\<lambda>r. case r of Inl e \<Rightarrow> Inl e
        | Inr masks \<Rightarrow>
            map_sum id (map (\<lambda>(m, db). slice_from m (cd save_from (db_block_size db))))
              (zip_strict masks (pc_databases cfg)))
       (store_mask fnd merge (pc_coordinator cfg) token_count)"

definition group_save_items ::
  "cdiv_fun \<Rightarrow> hash_merge \<Rightarrow> pool_cfg \<Rightarrow> bool list list \<Rightarrow> int \<Rightarrow> SaveEvent \<Rightarrow> nat \<Rightarrow> transfer_item list result" where
  "group_save_items cd merge cfg masks token_count ev gi =
     (let db = pc_databases cfg ! gi;
          phase = (po_tp_rank (pc_topology cfg) + int gi) mod pc_put_step cfg
      in case py_index masks (int gi) of Inl e \<Rightarrow> Inl e
         | Inr m \<Rightarrow>
            (case pool_process_tokens cd merge db token_count (se_block_hashes ev) (se_start_save ev)
                    (Some m) (pc_put_step cfg) phase of
               Inl e \<Rightarrow> Inl e
             | Inr chunks \<Rightarrow>
                 if chunks = [] then Inr []
                 else (case py_index (se_block_ids ev) (int gi) of Inl e \<Rightarrow> Inl e
                  | Inr ids \<Rightarrow> map_res (item_of cd db ids) chunks)))"

definition signals_of :: "ready option \<Rightarrow> nat list" where
  "signals_of r = (case r of None \<Rightarrow> [] | Some (Signal s) \<Rightarrow> [s] | Some (ReadySignals ss) \<Rightarrow> ss)"

text \<open>What a save did: the events it waited for, the put it issued and how it ended.\<close>

record save_effect =
  sw_waited :: "nat list"
  sw_put :: "transfer_item list"
  sw_result :: "unit result"

definition no_put :: "unit result \<Rightarrow> save_effect" where
  "no_put r = \<lparr>sw_waited = [], sw_put = [], sw_result = r\<rparr>"

definition put_missing :: "store_exist \<Rightarrow> store_put \<Rightarrow> SaveEvent \<Rightarrow> transfer_item list \<Rightarrow> save_effect" where
  "put_missing exist store_put ev items =
     (case exist (map fst items) of Inl e \<Rightarrow> no_put (Inl e)
      | Inr statuses \<Rightarrow>
         (let missing = map fst (filter (\<lambda>(i, s). s \<noteq> 1) (List.enumerate 0 statuses))
          in if missing = [] then no_put (Inr ())
             else if list_ex (\<lambda>i. length items \<le> i) missing
             then \<lparr>sw_waited = signals_of (se_ready_event ev), sw_put = [], sw_result = Inl IndexError\<rparr>
             else (let todo = map (nth items) missing
                   in \<lparr>sw_waited = signals_of (se_ready_event ev), sw_put = todo,
                       sw_result = (case store_put (map fst todo) (map (fst \<circ> snd) todo) (map (fst \<circ> snd \<circ> snd) todo) of
                          Inl e \<Rightarrow> Inl e
                        | Inr result \<Rightarrow> if list_ex (\<lambda>s. s < 0) result
                            then Inl (RuntimeError ''Mooncake Store PUT partially failed'') else Inr ())\<rparr>)))"

definition pool_save ::
  "cdiv_fun \<Rightarrow> hash_merge \<Rightarrow> finder \<Rightarrow> pool_cfg \<Rightarrow> store_exist \<Rightarrow> store_put \<Rightarrow> SaveEvent \<Rightarrow> save_effect option" where
  "pool_save cd merge fnd cfg exist store_put ev =
     (let token_count = align_down (se_end_save ev) (co_lcm_block_size (pc_coordinator cfg))
      in if token_count \<le> se_start_save ev then Some (no_put (Inr ()))
         else map_option
           (\<lambda>r. case r of Inl e \<Rightarrow> no_put (Inl e)
            | Inr masks \<Rightarrow>
               (case map_res (group_save_items cd merge cfg masks token_count ev) [0..<length (pc_databases cfg)] of
                  Inl e \<Rightarrow> no_put (Inl e)
                | Inr itemss \<Rightarrow>
                    if concat itemss = [] then no_put (Inr ())
                    else put_missing exist store_put ev (concat itemss)))
           (store_masks cd merge fnd cfg token_count (se_start_save ev)))"

section \<open>State\<close>

record SaveState =
  sv_running :: "future option"
  sv_pending :: "SaveEvent list"
  sv_errors :: "string list"
  sv_start_token :: int
  sv_end_token :: int

record LoadState =
  ld_event :: LoadEvent
  ld_future :: future
  ld_started_at :: rat
  ld_timed_out :: bool

record cache_pool =
  cp_closed :: bool
  cp_registered :: bool
  cp_save_states :: "(string, SaveState) dict"
  cp_invalid :: "(string, int set) dict"
  cp_loads :: "(string, LoadState) dict"
  cp_load_pool :: "(LoadEvent, LoadOutcome) executor"
  cp_save_pool :: "(SaveEvent, unit) executor"
  cp_store_open :: bool

definition new_cache_pool :: "int \<Rightarrow> cache_pool" where
  "new_cache_pool recv_workers =
     \<lparr>cp_closed = False, cp_registered = False, cp_save_states = [], cp_invalid = [], cp_loads = [],
      cp_load_pool = new_executor (nat (max 1 recv_workers)), cp_save_pool = new_executor 1,
      cp_store_open = True\<rparr>"

section \<open>Submission\<close>

definition validate_event :: "pool_cfg \<Rightarrow> cache_pool \<Rightarrow> block_groups \<Rightarrow> int \<Rightarrow> int \<Rightarrow> unit result" where
  "validate_event cfg st block_ids start stop =
     (if cp_closed st then Inl (RuntimeError ''KV cache pool is closed'')
      else if \<not> cp_registered st then Inl (RuntimeError ''Register KV memory before submitting I/O'')
      else if start < 0 \<or> stop < start then Inl (ValueError ''Invalid KV token range'')
      else if length block_ids \<noteq> length (pc_databases cfg)
           then Inl (ValueError ''KV group count does not match registered layout'')
      else if list_ex (\<lambda>ids. list_ex (\<lambda>b. b \<ge> pc_num_blocks cfg) ids) block_ids
           then Inl (ValueError ''KV block ID exceeds registered memory'')
      else Inr ())"

definition cp_load :: "pool_cfg \<Rightarrow> rat \<Rightarrow> LoadEvent \<Rightarrow> cache_pool \<Rightarrow> cache_pool result" where
  "cp_load cfg now ev st =
     (case validate_event cfg st (le_block_ids ev) (le_start_load ev) (le_end_load ev) of Inl e \<Rightarrow> Inl e
      | Inr _ \<Rightarrow>
         if dict_has (cp_loads st) (le_request_id ev) \<or> dict_has (cp_invalid st) (le_request_id ev)
         then Inl (ValueError ''Uncollected load'')
         else (case submit (cp_load_pool st) ev of Inl e \<Rightarrow> Inl e
               | Inr (f, ex) \<Rightarrow>
                   Inr (st\<lparr>cp_load_pool := ex,
                           cp_loads := dict_set (le_request_id ev)
                             \<lparr>ld_event = ev, ld_future = f, ld_started_at = now, ld_timed_out = False\<rparr>
                             (cp_loads st)\<rparr>)))"

text \<open>\<open>_merge\<close>: the block lists of the newer event extend those of the older one.\<close>

fun blocks_extend :: "cdiv_fun \<Rightarrow> int \<Rightarrow> block_groups \<Rightarrow> block_groups \<Rightarrow> int list \<Rightarrow> bool result" where
  "blocks_extend cd stop [] [] [] = Inr True"
| "blocks_extend cd stop (old # olds) (new # news) (bs # bss) =
     (if int (length new) < cd stop bs \<or> take (length old) new \<noteq> old then Inr False
      else blocks_extend cd stop olds news bss)"
| "blocks_extend cd stop _ _ _ = Inl (ValueError ''zip() argument lengths differ'')"

definition merge_signals :: "ready option \<Rightarrow> ready option \<Rightarrow> ready option" where
  "merge_signals a b =
     (let signals = fold (\<lambda>s acc. if s \<in> set acc then acc else acc @ [s]) (signals_of a @ signals_of b) []
      in if signals = [] then None else Some (ReadySignals signals))"

definition merge_saves :: "cdiv_fun \<Rightarrow> int list \<Rightarrow> SaveEvent \<Rightarrow> SaveEvent \<Rightarrow> SaveEvent option result" where
  "merge_saves cd block_sizes old new =
     (let stop = max (se_end_save old) (se_end_save new)
      in if se_prompt_tokens old \<noteq> se_prompt_tokens new then Inr None
         else if max (se_start_save old) (se_start_save new) > min (se_end_save old) (se_end_save new) then Inr None
         else if se_end_save new < stop \<or> length (se_block_hashes new) < length (se_block_hashes old) then Inr None
         else if take (length (se_block_hashes old)) (se_block_hashes new) \<noteq> se_block_hashes old then Inr None
         else (case blocks_extend cd stop (se_block_ids old) (se_block_ids new) block_sizes of
                 Inl e \<Rightarrow> Inl e
               | Inr False \<Rightarrow> Inr None
               | Inr True \<Rightarrow>
                   Inr (Some (new\<lparr>se_start_save := min (se_start_save old) (se_start_save new),
                                  se_end_save := stop,
                                  se_ready_event := merge_signals (se_ready_event old) (se_ready_event new)\<rparr>))))"

text \<open>\<open>_advance_save\<close>: collect a finished task, then start the next pending event.\<close>

definition collect_running :: "(SaveEvent, unit) executor \<Rightarrow> SaveState \<Rightarrow> SaveState" where
  "collect_running ex s =
     (case sv_running s of None \<Rightarrow> s
      | Some f \<Rightarrow>
          (case fut_result ex f of None \<Rightarrow> s
           | Some (Inr _) \<Rightarrow> s\<lparr>sv_running := None\<rparr>
           | Some (Inl e) \<Rightarrow> s\<lparr>sv_running := None, sv_errors := sv_errors s @ [exc_text e]\<rparr>))"

definition advance_save ::
  "(SaveEvent, unit) executor \<Rightarrow> SaveState \<Rightarrow> (SaveState \<times> (SaveEvent, unit) executor) result" where
  "advance_save ex s0 =
     (let s = collect_running ex s0
      in if sv_running s \<noteq> None then Inr (s, ex)
         else (case sv_pending s of [] \<Rightarrow> Inr (s, ex)
               | ev # rest \<Rightarrow>
                   (case submit ex ev of Inl e \<Rightarrow> Inl e
                    | Inr (f, ex') \<Rightarrow> Inr (s\<lparr>sv_running := Some f, sv_pending := rest\<rparr>, ex'))))"

definition new_save_state :: "SaveEvent \<Rightarrow> SaveState" where
  "new_save_state ev =
     \<lparr>sv_running = None, sv_pending = [], sv_errors = [], sv_start_token = se_start_save ev,
      sv_end_token = se_end_save ev\<rparr>"

definition widen :: "SaveEvent \<Rightarrow> SaveState \<Rightarrow> SaveState" where
  "widen ev s = s\<lparr>sv_start_token := min (sv_start_token s) (se_start_save ev),
                  sv_end_token := max (sv_end_token s) (se_end_save ev)\<rparr>"

definition enqueue_save :: "cdiv_fun \<Rightarrow> pool_cfg \<Rightarrow> SaveEvent \<Rightarrow> SaveState \<Rightarrow> SaveState result" where
  "enqueue_save cd cfg ev s =
     (if sv_pending s = [] then Inr (s\<lparr>sv_pending := [ev]\<rparr>)
      else (case merge_saves cd (map db_block_size (pc_databases cfg)) (last (sv_pending s)) ev of
              Inl e \<Rightarrow> Inl e
            | Inr (Some merged) \<Rightarrow> Inr (s\<lparr>sv_pending := butlast (sv_pending s) @ [merged]\<rparr>)
            | Inr None \<Rightarrow> Inr (s\<lparr>sv_pending := sv_pending s @ [ev]\<rparr>)))"

definition cp_save :: "cdiv_fun \<Rightarrow> pool_cfg \<Rightarrow> SaveEvent \<Rightarrow> cache_pool \<Rightarrow> cache_pool result" where
  "cp_save cd cfg ev st =
     (case validate_event cfg st (se_block_ids ev) (se_start_save ev) (se_end_save ev) of Inl e \<Rightarrow> Inl e
      | Inr _ \<Rightarrow>
         (let s0 = (case dict_get (cp_save_states st) (se_request_id ev) of
                      None \<Rightarrow> new_save_state ev | Some s \<Rightarrow> widen ev s)
          in case enqueue_save cd cfg ev s0 of Inl e \<Rightarrow> Inl e
             | Inr s1 \<Rightarrow>
                (case advance_save (cp_save_pool st) s1 of Inl e \<Rightarrow> Inl e
                 | Inr (s2, ex) \<Rightarrow>
                     Inr (st\<lparr>cp_save_states := dict_set (se_request_id ev) s2 (cp_save_states st),
                             cp_save_pool := ex\<rparr>))))"

section \<open>Collection\<close>

text \<open>The outcome that \<open>poll\<close> publishes for a finished load.\<close>

definition published_outcome ::
  "cdiv_fun \<Rightarrow> pool_cfg \<Rightarrow> LoadState \<Rightarrow> LoadOutcome result \<Rightarrow> LoadOutcome result" where
  "published_outcome cd cfg s r =
     (let ev = ld_event s;
          fail = (\<lambda>msg. map_sum id (\<lambda>blocks. \<lparr>lo_loaded_tokens = le_start_load ev, lo_error = Some msg,
                                             lo_invalid = blocks\<rparr>) (request_load_blocks cd cfg ev))
      in case (case r of Inl e \<Rightarrow> fail (exc_text e) | Inr out \<Rightarrow> Inr out) of Inl e \<Rightarrow> Inl e
         | Inr out \<Rightarrow> if ld_timed_out s then fail ''Mooncake load timed out (I/O fenced)'' else Inr out)"

definition poll_load ::
  "cdiv_fun \<Rightarrow> pool_cfg \<Rightarrow> rat \<Rightarrow> string \<times> LoadState \<Rightarrow> cache_pool \<times> LoadResult list \<Rightarrow>
     (cache_pool \<times> LoadResult list) result" where
  "poll_load cd cfg now rs acc =
     (let (rid, s) = rs; (st, out) = acc
      in case fut_result (cp_load_pool st) (ld_future s) of
           None \<Rightarrow>
             Inr (if now - ld_started_at s \<ge> pc_load_timeout cfg
                  then st\<lparr>cp_loads := dict_set rid (s\<lparr>ld_timed_out := True\<rparr>) (cp_loads st)\<rparr> else st, out)
         | Some r \<Rightarrow>
             (case published_outcome cd cfg s r of Inl e \<Rightarrow> Inl e
              | Inr o' \<Rightarrow>
                  Inr (st\<lparr>cp_invalid := (if lo_invalid o' \<noteq> {} then dict_set rid (lo_invalid o') (cp_invalid st)
                                         else cp_invalid st),
                          cp_loads := dict_pop rid (cp_loads st)\<rparr>,
                       out @ [\<lparr>rl_request_id = rid, rl_loaded_tokens = lo_loaded_tokens o',
                               rl_error = lo_error o', rl_elapsed_ms = (now - ld_started_at s) * 1000\<rparr>])))"

definition join_errors :: "string list \<Rightarrow> string option" where
  "join_errors es = (let text = str_join ''; '' es in if text = [] then None else Some text)"

definition poll_save ::
  "string \<times> SaveState \<Rightarrow> cache_pool \<times> SaveResult list \<Rightarrow> (cache_pool \<times> SaveResult list) result" where
  "poll_save rs acc =
     (let (rid, s) = rs; (st, out) = acc
      in case advance_save (cp_save_pool st) s of Inl e \<Rightarrow> Inl e
         | Inr (s', ex) \<Rightarrow>
             Inr (if sv_running s' = None \<and> sv_pending s' = []
                  then (st\<lparr>cp_save_pool := ex, cp_save_states := dict_pop rid (cp_save_states st)\<rparr>,
                        out @ [\<lparr>rs_request_id = rid, rs_error = join_errors (sv_errors s')\<rparr>])
                  else (st\<lparr>cp_save_pool := ex, cp_save_states := dict_set rid s' (cp_save_states st)\<rparr>, out)))"

definition cp_poll :: "cdiv_fun \<Rightarrow> pool_cfg \<Rightarrow> rat \<Rightarrow> cache_pool \<Rightarrow> (PoolPollResult \<times> cache_pool) result" where
  "cp_poll cd cfg now st =
     (case fold_res (poll_load cd cfg now) (cp_loads st) (st, []) of Inl e \<Rightarrow> Inl e
      | Inr (st1, loads) \<Rightarrow>
         (case fold_res poll_save (cp_save_states st1) (st1, []) of Inl e \<Rightarrow> Inl e
          | Inr (st2, saves) \<Rightarrow> Inr (\<lparr>pr_loads = loads, pr_saves = saves\<rparr>, st2)))"

definition cp_take_errors :: "cache_pool \<Rightarrow> int set \<times> cache_pool" where
  "cp_take_errors st = (\<Union> (set (map snd (cp_invalid st))), st\<lparr>cp_invalid := []\<rparr>)"

section \<open>Fences\<close>

text \<open>
  The two outcome functions say how the running tasks end that the call waits for.
\<close>

definition fence_load :: "(future \<Rightarrow> LoadOutcome result) \<Rightarrow> string \<Rightarrow> cache_pool \<Rightarrow> cache_pool" where
  "fence_load load_ends rid st =
     st\<lparr>cp_loads := dict_pop rid (cp_loads st),
        cp_load_pool := (case dict_get (cp_loads st) rid of
             Some s \<Rightarrow> fence load_ends (ld_future s) (cp_load_pool st) | None \<Rightarrow> cp_load_pool st)\<rparr>"

definition fence_loads :: "(future \<Rightarrow> LoadOutcome result) \<Rightarrow> string list \<Rightarrow> cache_pool \<Rightarrow> cache_pool" where
  "fence_loads load_ends request_ids st = fold (fence_load load_ends) request_ids st"

definition cp_preempt ::
  "(future \<Rightarrow> LoadOutcome result) \<Rightarrow> (future \<Rightarrow> unit result) \<Rightarrow> string \<Rightarrow> cache_pool \<Rightarrow> cache_pool" where
  "cp_preempt load_ends save_ends rid st =
     (let save_ex = (case dict_get (cp_save_states st) rid of
             Some s \<Rightarrow> (case sv_running s of Some f \<Rightarrow> fence save_ends f (cp_save_pool st) | None \<Rightarrow> cp_save_pool st)
           | None \<Rightarrow> cp_save_pool st);
          st1 = fence_loads load_ends [rid]
            (st\<lparr>cp_save_states := dict_pop rid (cp_save_states st), cp_save_pool := save_ex\<rparr>)
      in st1\<lparr>cp_invalid := dict_pop rid (cp_invalid st1)\<rparr>)"

lemma cp_preempt_eq:
  "cp_preempt load_ends save_ends rid st =
     st\<lparr>cp_save_states := dict_pop rid (cp_save_states st),
        cp_save_pool := (case dict_get (cp_save_states st) rid of
             Some s \<Rightarrow> (case sv_running s of Some f \<Rightarrow> fence save_ends f (cp_save_pool st) | None \<Rightarrow> cp_save_pool st)
           | None \<Rightarrow> cp_save_pool st),
        cp_loads := dict_pop rid (cp_loads st),
        cp_load_pool := (case dict_get (cp_loads st) rid of
             Some s \<Rightarrow> fence load_ends (ld_future s) (cp_load_pool st) | None \<Rightarrow> cp_load_pool st),
        cp_invalid := dict_pop rid (cp_invalid st)\<rparr>"
  by (cases "dict_get (cp_loads st) rid") (simp_all add: cp_preempt_def fence_loads_def fence_load_def Let_def)

text \<open>The \<open>while\<close> loop of \<open>wait_for_all_saves\<close> for one request.\<close>

partial_function (option) drain_save ::
  "(future \<Rightarrow> unit result) \<Rightarrow> (SaveEvent, unit) executor \<Rightarrow> SaveState \<Rightarrow>
     (SaveState \<times> (SaveEvent, unit) executor) result option" where
  "drain_save ends ex s =
     (if sv_running s = None \<and> sv_pending s = [] then Some (Inr (s, ex))
      else (case advance_save ex s of Inl e \<Rightarrow> Some (Inl e)
            | Inr sx \<Rightarrow>
                drain_save ends
                  (case sv_running (fst sx) of Some f \<Rightarrow> run_through ends f (snd sx) | None \<Rightarrow> snd sx) (fst sx)))"

fun drain_states ::
  "(future \<Rightarrow> unit result) \<Rightarrow> (string \<times> SaveState) list \<Rightarrow> cache_pool \<Rightarrow> cache_pool result option" where
  "drain_states ends [] st = Some (Inr st)"
| "drain_states ends ((rid, s) # rest) st =
     (case drain_save ends (cp_save_pool st) s of None \<Rightarrow> None
      | Some (Inl e) \<Rightarrow> Some (Inl e)
      | Some (Inr (s', ex)) \<Rightarrow>
          drain_states ends rest
            (st\<lparr>cp_save_states := dict_set rid s' (cp_save_states st), cp_save_pool := ex\<rparr>))"

definition cp_wait_for_all_saves :: "(future \<Rightarrow> unit result) \<Rightarrow> cache_pool \<Rightarrow> cache_pool result option" where
  "cp_wait_for_all_saves ends st = drain_states ends (cp_save_states st) st"

definition cp_close ::
  "(future \<Rightarrow> LoadOutcome result) \<Rightarrow> (future \<Rightarrow> unit result) \<Rightarrow> cache_pool \<Rightarrow> cache_pool" where
  "cp_close load_ends save_ends st =
     (if cp_closed st then st
      else st\<lparr>cp_closed := True, cp_load_pool := shutdown load_ends (cp_load_pool st),
              cp_save_pool := shutdown save_ends (cp_save_pool st), cp_store_open := False,
              cp_save_states := [], cp_loads := [], cp_invalid := []\<rparr>)"

end
