(* ===== verification/Cache_Pool_Props.thy ===== *)
theory Cache_Pool_Props
  imports Cache_Pool
begin

text \<open>
  Safety of the pool's background I/O. An inductive step relation interleaves the pool's operations
  with the progress of its worker threads; the invariant ties every task that may still touch
  memory to the request that owns it, so a fence or a published result leaves nothing behind.
\<close>

section \<open>Tasks and their owners\<close>

definition active :: "('j, 'r) executor \<Rightarrow> future \<Rightarrow> bool" where
  "active ex f \<longleftrightarrow> task_state ex f = Pending \<or> task_state ex f = Running"

lemma active_not_done: "active ex f \<longleftrightarrow> \<not> fut_done ex f"
  by (auto simp: active_def fut_done_iff)

lemma active_lt: "active ex f \<Longrightarrow> f < length (ex_tasks ex)"
  unfolding active_def by (rule task_state_active)

text \<open>Progress: tasks keep their job, and a task that is over stays over.\<close>

definition progress :: "('j, 'r) executor \<Rightarrow> ('j, 'r) executor \<Rightarrow> bool" where
  "progress ex ex' \<longleftrightarrow>
     length (ex_tasks ex') = length (ex_tasks ex) \<and>
     (\<forall>f < length (ex_tasks ex). task_of ex' f = task_of ex f) \<and>
     (\<forall>f. active ex' f \<longrightarrow> active ex f)"

lemma progressD:
  assumes "progress ex ex'"
  shows "length (ex_tasks ex') = length (ex_tasks ex)"
    and "f < length (ex_tasks ex) \<Longrightarrow> task_of ex' f = task_of ex f"
    and "active ex' f \<Longrightarrow> active ex f"
  using assms by (simp_all add: progress_def)

lemma progress_refl [simp]: "progress ex ex"
  by (simp add: progress_def)

lemma progress_trans: "progress a b \<Longrightarrow> progress b c \<Longrightarrow> progress a c"
  by (simp add: progress_def)

lemma progress_set_state:
  "active ex f \<or> \<not> is_done st \<longrightarrow> active ex f \<Longrightarrow> progress ex (set_state f st ex)"
  by (cases st) (auto simp: progress_def active_def exec_simps)

lemma progress_start: "progress ex (start_next ex)"
proof (cases "first_pending (ex_tasks ex)")
  case (Some f)
  then have "active ex f"
    using first_pending_Some[OF Some] by (auto simp: task_state_def active_def)
  then show ?thesis using Some by (simp add: start_next_def progress_set_state)
qed (simp add: start_next_def)

lemma progress_finish: "progress ex (finish f r ex)"
  by (auto simp: progress_def active_def exec_simps)

lemma progress_cancel: "progress ex (snd (cancel ex f))"
  by (auto simp: progress_def active_def exec_simps)

lemma progress_fence: "progress ex (fence out f ex)"
  using progress_trans[OF progress_cancel progress_finish] progress_cancel[of ex f]
  by (auto simp: fence_def await_task_def split_def Let_def)

lemma progress_run_step: "progress ex (set_state g (run_state (out g) (task_state ex g)) ex)"
  by (cases "task_state ex g") (auto simp: progress_def active_def exec_simps)

lemma progress_run_through: "progress ex (run_through out f ex)"
  unfolding run_through_def
proof (rule fold_inv[where P = "progress ex"])
  fix g and ex' :: "('a, 'b) executor"
  assume "progress ex ex'"
  then show "progress ex (set_state g (run_state (out g) (task_state ex' g)) ex')"
    using progress_run_step progress_trans by blast
qed simp

lemma progress_shutdown: "progress ex (shutdown out ex)"
proof -
  have "task_of (shutdown out ex) f = task_of ex f" if "f < length (ex_tasks ex)" for f
    using that by (auto simp: task_of_def shutdown_def nth_enumerate_eq split: prod.splits)
  moreover have "length (ex_tasks (shutdown out ex)) = length (ex_tasks ex)"
    by (simp add: shutdown_def)
  moreover have "active ex f" if "active (shutdown out ex) f" for f
    using that shutdown_done[of out ex f] by (simp add: active_not_done)
  ultimately show ?thesis by (simp add: progress_def)
qed

section \<open>The invariant\<close>

lemma dict_pop_set: "dict_pop k (dict_set k v d) = dict_pop k d"
  by (simp add: dict_pop_def dict_set_def delete_update_same)

definition loads_inv :: "(string, LoadState) dict \<Rightarrow> (LoadEvent, LoadOutcome) executor \<Rightarrow> bool" where
  "loads_inv loads ex \<longleftrightarrow> dict_wf loads \<and>
     (\<forall>rid s. dict_get loads rid = Some s \<longrightarrow> ld_future s < length (ex_tasks ex) \<and>
        task_of ex (ld_future s) = ld_event s \<and> le_request_id (ld_event s) = rid) \<and>
     (\<forall>f. active ex f \<longrightarrow> (\<exists>rid s. dict_get loads rid = Some s \<and> ld_future s = f))"

definition saves_inv :: "(string, SaveState) dict \<Rightarrow> (SaveEvent, unit) executor \<Rightarrow> bool" where
  "saves_inv states ex \<longleftrightarrow> dict_wf states \<and>
     (\<forall>rid s f. dict_get states rid = Some s \<longrightarrow> sv_running s = Some f \<longrightarrow>
        f < length (ex_tasks ex) \<and> se_request_id (task_of ex f) = rid) \<and>
     (\<forall>rid s. dict_get states rid = Some s \<longrightarrow> (\<forall>ev \<in> set (sv_pending s). se_request_id ev = rid)) \<and>
     (\<forall>f. active ex f \<longrightarrow> (\<exists>rid s. dict_get states rid = Some s \<and> sv_running s = Some f))"

definition pool_inv :: "cache_pool \<Rightarrow> bool" where
  "pool_inv st \<longleftrightarrow> loads_inv (cp_loads st) (cp_load_pool st) \<and> saves_inv (cp_save_states st) (cp_save_pool st)"

lemma loads_invD:
  assumes "loads_inv loads ex"
  shows "dict_wf loads"
    and "dict_get loads rid = Some s \<Longrightarrow> ld_future s < length (ex_tasks ex) \<and>
           task_of ex (ld_future s) = ld_event s \<and> le_request_id (ld_event s) = rid"
    and "active ex f \<Longrightarrow> \<exists>rid s. dict_get loads rid = Some s \<and> ld_future s = f"
  using assms unfolding loads_inv_def by blast+

lemma saves_invD:
  assumes "saves_inv states ex"
  shows "dict_wf states"
    and "dict_get states rid = Some s \<Longrightarrow> sv_running s = Some f \<Longrightarrow>
           f < length (ex_tasks ex) \<and> se_request_id (task_of ex f) = rid"
    and "dict_get states rid = Some s \<Longrightarrow> ev \<in> set (sv_pending s) \<Longrightarrow> se_request_id ev = rid"
    and "active ex f \<Longrightarrow> \<exists>rid s. dict_get states rid = Some s \<and> sv_running s = Some f"
  using assms unfolding saves_inv_def by blast+

subsection \<open>Loads\<close>

lemma loads_inv_progress: "loads_inv loads ex \<Longrightarrow> progress ex ex' \<Longrightarrow> loads_inv loads ex'"
  unfolding loads_inv_def progress_def by metis

lemma loads_inv_submit:
  assumes inv: "loads_inv loads ex" and sub: "submit ex ev = Inr (f, ex')"
    and new: "dict_get loads (le_request_id ev) = None" and s: "ld_event s = ev" "ld_future s = f"
  shows "loads_inv (dict_set (le_request_id ev) s loads) ex'"
proof -
  note fr = submit_fresh[OF sub] and I = loads_invD[OF inv]
  have act: "active ex' g \<longleftrightarrow> g = f \<or> active ex g" for g
    using fr by (auto simp: active_def task_state_submit[OF sub])
  have old: "g < length (ex_tasks ex') \<and> task_of ex' g = task_of ex g" if "g < length (ex_tasks ex)" for g
    using that fr task_of_submit[OF sub] by auto
  show ?thesis
    unfolding loads_inv_def
  proof (intro conjI allI impI)
    show "dict_wf (dict_set (le_request_id ev) s loads)" using I(1) by (rule pd.wf_put)
  next
    fix rid t
    assume "dict_get (dict_set (le_request_id ev) s loads) rid = Some t"
    then have "(rid = le_request_id ev \<and> t = s) \<or> dict_get loads rid = Some t"
      by (simp add: dict_simps split: if_splits)
    then show "ld_future t < length (ex_tasks ex')" "task_of ex' (ld_future t) = ld_event t"
      "le_request_id (ld_event t) = rid"
      using I(2)[of rid t] old fr s by auto
  next
    fix g
    assume "active ex' g"
    then consider "g = f" | "active ex g" using act by blast
    then show "\<exists>rid t. dict_get (dict_set (le_request_id ev) s loads) rid = Some t \<and> ld_future t = g"
    proof cases
      case 1
      then show ?thesis using s by (auto simp: dict_simps)
    next
      case 2
      from I(3)[OF 2] obtain rid t where "dict_get loads rid = Some t" "ld_future t = g" by blast
      moreover from this new have "rid \<noteq> le_request_id ev" by auto
      ultimately show ?thesis by (auto simp: dict_simps)
    qed
  qed
qed

lemma loads_inv_pop:
  assumes inv: "loads_inv loads ex" and "\<And>s. dict_get loads rid = Some s \<Longrightarrow> \<not> active ex (ld_future s)"
  shows "loads_inv (dict_pop rid loads) ex"
proof -
  note I = loads_invD[OF inv]
  show ?thesis
    unfolding loads_inv_def
  proof (intro conjI allI impI)
    show "dict_wf (dict_pop rid loads)" using I(1) by (rule pd.wf_pop)
  next
    fix r t
    assume "dict_get (dict_pop rid loads) r = Some t"
    then have "dict_get loads r = Some t" by (simp add: dict_simps split: if_splits)
    from I(2)[OF this] show "ld_future t < length (ex_tasks ex)" "task_of ex (ld_future t) = ld_event t"
      "le_request_id (ld_event t) = r" by auto
  next
    fix f
    assume a: "active ex f"
    from I(3)[OF a] obtain r t where rt: "dict_get loads r = Some t" "ld_future t = f" by blast
    with assms(2) a have "r \<noteq> rid" by auto
    with rt show "\<exists>r t. dict_get (dict_pop rid loads) r = Some t \<and> ld_future t = f"
      by (auto simp: dict_simps)
  qed
qed

lemma loads_inv_mark:
  assumes inv: "loads_inv loads ex" and "dict_get loads rid = Some s"
  shows "loads_inv (dict_set rid (s\<lparr>ld_timed_out := True\<rparr>) loads) ex"
proof -
  note I = loads_invD[OF inv]
  show ?thesis
    unfolding loads_inv_def
  proof (intro conjI allI impI)
    show "dict_wf (dict_set rid (s\<lparr>ld_timed_out := True\<rparr>) loads)" using I(1) by (rule pd.wf_put)
  next
    fix r t
    assume "dict_get (dict_set rid (s\<lparr>ld_timed_out := True\<rparr>) loads) r = Some t"
    then have "(r = rid \<and> t = s\<lparr>ld_timed_out := True\<rparr>) \<or> dict_get loads r = Some t"
      by (simp add: dict_simps split: if_splits)
    then show "ld_future t < length (ex_tasks ex)" "task_of ex (ld_future t) = ld_event t"
      "le_request_id (ld_event t) = r" using I(2)[OF assms(2)] I(2)[of r t] by auto
  next
    fix f
    assume "active ex f"
    from I(3)[OF this] obtain r t where rt: "dict_get loads r = Some t" "ld_future t = f" by blast
    then show "\<exists>r t. dict_get (dict_set rid (s\<lparr>ld_timed_out := True\<rparr>) loads) r = Some t \<and> ld_future t = f"
      using assms(2) by (cases "r = rid") (auto simp: dict_simps intro!: exI[of _ r])
  qed
qed

subsection \<open>Saves\<close>

lemma saves_inv_progress: "saves_inv states ex \<Longrightarrow> progress ex ex' \<Longrightarrow> saves_inv states ex'"
proof -
  assume inv: "saves_inv states ex" and p: "progress ex ex'"
  note I = saves_invD[OF inv] and P = progressD[OF p]
  show "saves_inv states ex'"
    unfolding saves_inv_def
  proof (intro conjI allI impI ballI)
    show "dict_wf states" by (rule I(1))
  next
    fix rid s f assume "dict_get states rid = Some s" "sv_running s = Some f"
    from I(2)[OF this] P(1,2) show "f < length (ex_tasks ex')" "se_request_id (task_of ex' f) = rid" by simp_all
  next
    fix rid s ev assume "dict_get states rid = Some s" "ev \<in> set (sv_pending s)"
    then show "se_request_id ev = rid" by (rule I(3))
  next
    fix f assume "active ex' f"
    from I(4)[OF P(3)[OF this]] show "\<exists>rid s. dict_get states rid = Some s \<and> sv_running s = Some f" .
  qed
qed

lemma saves_inv_set:
  assumes inv: "saves_inv states ex"
    and run: "\<And>f. sv_running s = Some f \<Longrightarrow> f < length (ex_tasks ex) \<and> se_request_id (task_of ex f) = rid"
    and pend: "\<And>ev. ev \<in> set (sv_pending s) \<Longrightarrow> se_request_id ev = rid"
    and keep: "\<And>s0 f. dict_get states rid = Some s0 \<Longrightarrow> sv_running s0 = Some f \<Longrightarrow> active ex f \<Longrightarrow> sv_running s = Some f"
  shows "saves_inv (dict_set rid s states) ex"
proof -
  note I = saves_invD[OF inv]
  show ?thesis
    unfolding saves_inv_def
  proof (intro conjI allI impI ballI)
    show "dict_wf (dict_set rid s states)" using I(1) by (rule pd.wf_put)
  next
    fix r t f assume "dict_get (dict_set rid s states) r = Some t" "sv_running t = Some f"
    then show "f < length (ex_tasks ex)" "se_request_id (task_of ex f) = r"
      using I(2)[of r t f] run by (auto simp: dict_simps split: if_splits)
  next
    fix r t ev assume "dict_get (dict_set rid s states) r = Some t" "ev \<in> set (sv_pending t)"
    then show "se_request_id ev = r"
      using I(3)[of r t ev] pend by (auto simp: dict_simps split: if_splits)
  next
    fix f assume a: "active ex f"
    from I(4)[OF a] obtain r t where rt: "dict_get states r = Some t" "sv_running t = Some f" by blast
    show "\<exists>r t. dict_get (dict_set rid s states) r = Some t \<and> sv_running t = Some f"
    proof (cases "r = rid")
      case True
      then show ?thesis using keep rt a by (auto simp: dict_simps)
    next
      case False
      then show ?thesis using rt by (intro exI[of _ r] exI[of _ t]) (simp add: dict_simps)
    qed
  qed
qed

lemma saves_inv_pop:
  assumes inv: "saves_inv states ex"
    and idle: "\<And>s f. dict_get states rid = Some s \<Longrightarrow> sv_running s = Some f \<Longrightarrow> \<not> active ex f"
  shows "saves_inv (dict_pop rid states) ex"
proof -
  note I = saves_invD[OF inv]
  show ?thesis
    unfolding saves_inv_def
  proof (intro conjI allI impI ballI)
    show "dict_wf (dict_pop rid states)" using I(1) by (rule pd.wf_pop)
  next
    fix r t f assume "dict_get (dict_pop rid states) r = Some t" "sv_running t = Some f"
    then show "f < length (ex_tasks ex)" "se_request_id (task_of ex f) = r"
      using I(2)[of r t f] by (auto simp: dict_simps split: if_splits)
  next
    fix r t ev assume "dict_get (dict_pop rid states) r = Some t" "ev \<in> set (sv_pending t)"
    then show "se_request_id ev = r" using I(3)[of r t ev] by (auto simp: dict_simps split: if_splits)
  next
    fix f assume a: "active ex f"
    from I(4)[OF a] obtain r t where rt: "dict_get states r = Some t" "sv_running t = Some f" by blast
    moreover from this a idle have "r \<noteq> rid" by auto
    ultimately show "\<exists>r t. dict_get (dict_pop rid states) r = Some t \<and> sv_running t = Some f"
      by (intro exI[of _ r] exI[of _ t]) (simp add: dict_simps)
  qed
qed

lemma saves_inv_submit:
  assumes inv: "saves_inv states ex" and sub: "submit ex ev = Inr (f, ex')"
    and id: "se_request_id ev = rid" and s: "sv_running s = Some f"
    and pend: "\<And>e. e \<in> set (sv_pending s) \<Longrightarrow> se_request_id e = rid"
    and idle: "\<And>s0 g. dict_get states rid = Some s0 \<Longrightarrow> sv_running s0 = Some g \<Longrightarrow> \<not> active ex g"
  shows "saves_inv (dict_set rid s states) ex'"
proof -
  note fr = submit_fresh[OF sub] and I = saves_invD[OF inv]
  have act: "active ex' g \<longleftrightarrow> g = f \<or> active ex g" for g
    using fr by (auto simp: active_def task_state_submit[OF sub])
  have old: "g < length (ex_tasks ex') \<and> task_of ex' g = task_of ex g" if "g < length (ex_tasks ex)" for g
    using that fr task_of_submit[OF sub] by auto
  show ?thesis
    unfolding saves_inv_def
  proof (intro conjI allI impI ballI)
    show "dict_wf (dict_set rid s states)" using I(1) by (rule pd.wf_put)
  next
    fix r t g assume rt: "dict_get (dict_set rid s states) r = Some t" "sv_running t = Some g"
    show "g < length (ex_tasks ex')" "se_request_id (task_of ex' g) = r"
      using rt fr s id I(2)[of r t g] old[of g] by (auto simp: dict_simps split: if_splits)
  next
    fix r t e assume "dict_get (dict_set rid s states) r = Some t" "e \<in> set (sv_pending t)"
    then show "se_request_id e = r" using I(3)[of r t e] pend by (auto simp: dict_simps split: if_splits)
  next
    fix g assume "active ex' g"
    then consider "g = f" | "active ex g" using act by blast
    then show "\<exists>r t. dict_get (dict_set rid s states) r = Some t \<and> sv_running t = Some g"
    proof cases
      case 1
      then show ?thesis using s by (intro exI[of _ rid] exI[of _ s]) (simp add: dict_simps)
    next
      case 2
      from I(4)[OF 2] obtain r t where rt: "dict_get states r = Some t" "sv_running t = Some g" by blast
      moreover from this 2 idle have "r \<noteq> rid" by auto
      ultimately show ?thesis by (intro exI[of _ r] exI[of _ t]) (simp add: dict_simps)
    qed
  qed
qed

text \<open>Collecting drops a finished task and keeps a running one.\<close>

lemma collect_running_cases:
  obtains (busy) f where "sv_running s = Some f" and "active ex f" and "collect_running ex s = s"
  | (idle) "sv_running (collect_running ex s) = None" and "sv_pending (collect_running ex s) = sv_pending s"
      and "\<And>f. sv_running s = Some f \<Longrightarrow> \<not> active ex f"
proof (cases "sv_running s")
  case None
  then show thesis by (intro idle) (simp_all add: collect_running_def)
next
  case (Some f)
  show thesis
  proof (cases "fut_result ex f")
    case None
    then have "active ex f" using fut_result_done[of ex f] by (simp add: active_not_done)
    then show thesis using Some None by (intro busy) (simp_all add: collect_running_def)
  next
    case r: (Some r)
    then have "\<not> active ex f" using fut_result_done[of ex f] by (simp add: active_not_done)
    then show thesis using Some r by (intro idle) (simp_all add: collect_running_def split: sum.splits)
  qed
qed

lemma advance_save_inv:
  assumes inv: "saves_inv states ex" and adv: "advance_save ex s = Inr (s', ex')"
    and same: "\<And>s0. dict_get states rid = Some s0 \<Longrightarrow> sv_running s0 = sv_running s"
    and none: "dict_get states rid = None \<Longrightarrow> sv_running s = None"
    and pend: "\<And>ev. ev \<in> set (sv_pending s) \<Longrightarrow> se_request_id ev = rid"
  shows "saves_inv (dict_set rid s' states) ex'" and "sv_running s' = None \<Longrightarrow> sv_pending s' = []"
proof -
  note I = saves_invD[OF inv]
  have "saves_inv (dict_set rid s' states) ex' \<and> (sv_running s' = None \<longrightarrow> sv_pending s' = [])"
  proof (cases rule: collect_running_cases[of s ex])
    case (busy f)
    then have "s' = s" "ex' = ex" using adv by (simp_all add: advance_save_def)
    moreover have "f < length (ex_tasks ex) \<and> se_request_id (task_of ex f) = rid"
    proof (cases "dict_get states rid")
      case (Some s0)
      then have "sv_running s0 = Some f" using same[OF Some] busy(1) by simp
      from I(2)[OF Some this] show ?thesis .
    qed (use none busy(1) in simp)
    moreover have "saves_inv (dict_set rid s states) ex"
    proof (rule saves_inv_set[OF inv])
      show "g < length (ex_tasks ex) \<and> se_request_id (task_of ex g) = rid" if "sv_running s = Some g" for g
        using that busy(1) calculation(3) by simp
      show "se_request_id ev = rid" if "ev \<in> set (sv_pending s)" for ev using that by (rule pend)
      show "sv_running s = Some g" if "dict_get states rid = Some s0" "sv_running s0 = Some g" for s0 g
        using same[OF that(1)] that(2) by simp
    qed
    ultimately show ?thesis using busy(1) by simp
  next
    case idle
    have idle': "\<not> active ex f" if "dict_get states rid = Some s0" "sv_running s0 = Some f" for s0 f
      using idle(3)[of f] same[OF that(1)] that(2) by simp
    show ?thesis
    proof (cases "sv_pending s")
      case Nil
      then have "s' = collect_running ex s" "ex' = ex"
        using adv idle(1,2) by (auto simp: advance_save_def)
      moreover have "saves_inv (dict_set rid (collect_running ex s) states) ex"
        by (rule saves_inv_set[OF inv]) (use idle(1,2) Nil in simp, use idle(1,2) Nil in simp, use idle' in blast)
      ultimately show ?thesis using idle(2) Nil by simp
    next
      case (Cons ev rest)
      then obtain f where sub: "submit ex ev = Inr (f, ex')"
        and s': "s' = (collect_running ex s)\<lparr>sv_running := Some f, sv_pending := rest\<rparr>"
        using adv idle(1,2) by (auto simp: advance_save_def split: sum.splits)
      have "saves_inv (dict_set rid s' states) ex'"
        by (rule saves_inv_submit[OF inv sub]) (use pend Cons s' in simp, use s' in simp, use pend Cons s' in simp, use idle' in blast)
      then show ?thesis using s' by simp
    qed
  qed
  then show "saves_inv (dict_set rid s' states) ex'" "sv_running s' = None \<Longrightarrow> sv_pending s' = []" by simp_all
qed

lemma enqueue_save_frame:
  assumes "enqueue_save cd cfg ev s = Inr s'"
  shows "sv_running s' = sv_running s" and "sv_errors s' = sv_errors s" and "sv_pending s' \<noteq> []"
    and "se_request_id ev = rid \<Longrightarrow> (\<And>e. e \<in> set (sv_pending s) \<Longrightarrow> se_request_id e = rid) \<Longrightarrow>
         e \<in> set (sv_pending s') \<Longrightarrow> se_request_id e = rid"
proof -
  have m: "se_request_id m = se_request_id ev"
    if "merge_saves cd bs old ev = Inr (Some m)" for old m bs
    using that by (auto simp: merge_saves_def Let_def split: if_splits sum.splits bool.splits)
  show "sv_running s' = sv_running s" "sv_errors s' = sv_errors s" "sv_pending s' \<noteq> []"
    using assms by (auto simp: enqueue_save_def split: if_splits sum.splits option.splits)
  show "se_request_id e = rid"
    if "se_request_id ev = rid" "\<And>e. e \<in> set (sv_pending s) \<Longrightarrow> se_request_id e = rid" "e \<in> set (sv_pending s')"
    using assms that m in_set_butlastD[of e "sv_pending s"]
    by (auto simp: enqueue_save_def split: if_splits sum.splits option.splits)
qed

section \<open>Operations and worker threads as steps\<close>

inductive pool_step :: "cdiv_fun \<Rightarrow> pool_cfg \<Rightarrow> cache_pool \<Rightarrow> cache_pool \<Rightarrow> bool" for cd cfg where
  step_register: "\<not> cp_closed st \<Longrightarrow> \<not> cp_registered st \<Longrightarrow> pool_step cd cfg st (st\<lparr>cp_registered := True\<rparr>)"
| step_load: "cp_load cfg now ev st = Inr st' \<Longrightarrow> pool_step cd cfg st st'"
| step_save: "cp_save cd cfg sev st = Inr st' \<Longrightarrow> pool_step cd cfg st st'"
| step_poll: "cp_poll cd cfg now st = Inr (res, st') \<Longrightarrow> pool_step cd cfg st st'"
| step_take: "pool_step cd cfg st (snd (cp_take_errors st))"
| step_preempt: "pool_step cd cfg st (cp_preempt load_ends save_ends rid st)"
| step_wait: "cp_wait_for_all_saves save_ends st = Some (Inr st') \<Longrightarrow> pool_step cd cfg st st'"
| step_close: "pool_step cd cfg st (cp_close load_ends save_ends st)"
| step_start_load: "pool_step cd cfg st (st\<lparr>cp_load_pool := start_next (cp_load_pool st)\<rparr>)"
| step_finish_load: "pool_step cd cfg st (st\<lparr>cp_load_pool := finish f lr (cp_load_pool st)\<rparr>)"
| step_start_save: "pool_step cd cfg st (st\<lparr>cp_save_pool := start_next (cp_save_pool st)\<rparr>)"
| step_finish_save: "pool_step cd cfg st (st\<lparr>cp_save_pool := finish f sr (cp_save_pool st)\<rparr>)"

inductive pool_reachable :: "cdiv_fun \<Rightarrow> pool_cfg \<Rightarrow> cache_pool \<Rightarrow> bool" for cd cfg where
  pool_start: "pool_reachable cd cfg (new_cache_pool n)"
| pool_next: "pool_reachable cd cfg st \<Longrightarrow> pool_step cd cfg st st' \<Longrightarrow> pool_reachable cd cfg st'"

lemma pool_invI: "loads_inv (cp_loads st) (cp_load_pool st) \<Longrightarrow> saves_inv (cp_save_states st) (cp_save_pool st) \<Longrightarrow> pool_inv st"
  by (simp add: pool_inv_def)

lemma pool_inv_new: "pool_inv (new_cache_pool n)"
  by (simp add: pool_inv_def loads_inv_def saves_inv_def new_cache_pool_def new_executor_def active_def
      exec_simps dict_simps pd.wf_empty)

lemma pool_inv_load: "pool_inv st \<Longrightarrow> cp_load cfg now ev st = Inr st' \<Longrightarrow> pool_inv st'"
  by (auto simp: cp_load_def pool_inv_def dict_has_def split: sum.splits if_splits
      intro!: loads_inv_submit)

lemma pool_inv_save:
  assumes "pool_inv st" and "cp_save cd cfg ev st = Inr st'"
  shows "pool_inv st'"
proof -
  let ?rid = "se_request_id ev"
  define s0 where "s0 = (case dict_get (cp_save_states st) ?rid of None \<Rightarrow> new_save_state ev | Some s \<Rightarrow> widen ev s)"
  obtain s1 s2 ex where s1: "enqueue_save cd cfg ev s0 = Inr s1"
    and s2: "advance_save (cp_save_pool st) s1 = Inr (s2, ex)"
    and st': "st' = st\<lparr>cp_save_states := dict_set ?rid s2 (cp_save_states st), cp_save_pool := ex\<rparr>"
    using assms(2) by (auto simp: cp_save_def Let_def s0_def split: sum.splits)
  have inv: "saves_inv (cp_save_states st) (cp_save_pool st)" using assms(1) by (simp add: pool_inv_def)
  have p0: "se_request_id e = ?rid" if "e \<in> set (sv_pending s0)" for e
    using that saves_invD(3)[OF inv, of ?rid _ e]
    by (auto simp: s0_def new_save_state_def widen_def split: option.splits)
  have r0: "dict_get (cp_save_states st) ?rid = Some s \<Longrightarrow> sv_running s = sv_running s1"
    "dict_get (cp_save_states st) ?rid = None \<Longrightarrow> sv_running s1 = None" for s
    by (simp_all add: enqueue_save_frame(1)[OF s1] s0_def new_save_state_def widen_def)
  have "saves_inv (dict_set ?rid s2 (cp_save_states st)) ex"
    by (rule advance_save_inv(1)[OF inv s2 r0(1) r0(2) enqueue_save_frame(4)[OF s1 refl p0]])
  with assms(1) show ?thesis by (simp add: pool_inv_def st')
qed

text \<open>Polling: each entry of the snapshot is still the current one when its turn comes.\<close>

lemma poll_loads_inv:
  assumes "fold_res (poll_load cd cfg now) xs (st, out) = Inr (st', out')"
    and "pool_inv st" and "distinct (map fst xs)"
    and "\<And>rid s. (rid, s) \<in> set xs \<Longrightarrow> dict_get (cp_loads st) rid = Some s"
  shows "pool_inv st' \<and> cp_save_states st' = cp_save_states st \<and> cp_save_pool st' = cp_save_pool st
    \<and> cp_load_pool st' = cp_load_pool st \<and> cp_closed st' = cp_closed st
    \<and> (\<forall>r. r \<notin> fst ` set xs \<longrightarrow> dict_get (cp_loads st') r = dict_get (cp_loads st) r)
    \<and> (\<forall>r \<in> set out'. r \<in> set out \<or>
         (rl_request_id r \<in> fst ` set xs \<and> dict_get (cp_loads st') (rl_request_id r) = None))"
  using assms
proof (induction xs arbitrary: st out)
  case (Cons x xs)
  obtain rid s where x: "x = (rid, s)" by (cases x)
  obtain st1 out1 where step: "poll_load cd cfg now (rid, s) (st, out) = Inr (st1, out1)"
    and rest: "fold_res (poll_load cd cfg now) xs (st1, out1) = Inr (st', out')"
    using Cons.prems(1) by (auto simp: x split: sum.splits)
  have cur: "dict_get (cp_loads st) rid = Some s" using Cons.prems(4) x by simp
  have L: "loads_inv (cp_loads st) (cp_load_pool st)" and S: "saves_inv (cp_save_states st) (cp_save_pool st)"
    using Cons.prems(2) by (simp_all add: pool_inv_def)
  have one: "pool_inv st1 \<and> cp_save_states st1 = cp_save_states st \<and> cp_save_pool st1 = cp_save_pool st
      \<and> cp_load_pool st1 = cp_load_pool st \<and> cp_closed st1 = cp_closed st
      \<and> (\<forall>r. r \<noteq> rid \<longrightarrow> dict_get (cp_loads st1) r = dict_get (cp_loads st) r)"
  proof (cases "fut_result (cp_load_pool st) (ld_future s)")
    case None
    then show ?thesis
      using step Cons.prems(2) L S loads_inv_mark[OF L cur]
      by (auto simp: poll_load_def pool_inv_def dict_simps split: if_splits)
  next
    case (Some r)
    then have "\<not> active (cp_load_pool st) (ld_future s)"
      using fut_result_done by (fastforce simp: active_not_done)
    then have "loads_inv (dict_pop rid (cp_loads st)) (cp_load_pool st)"
      using loads_inv_pop[OF L, of rid] cur by simp
    then show ?thesis
      using step Some S by (auto simp: poll_load_def pool_inv_def dict_simps split: sum.splits)
  qed
  have "dict_get (cp_loads st1) r = Some t" if "(r, t) \<in> set xs" for r t
  proof -
    have "r \<noteq> rid" using that Cons.prems(3) x by force
    then show ?thesis using one Cons.prems(4)[of r t] that by simp
  qed
  note IH = Cons.IH[OF rest _ _ this]
  have rid: "rid \<notin> fst ` set xs" using Cons.prems(3) x by simp
  have out1: "out1 = out \<or> (dict_get (cp_loads st1) rid = None \<and> (\<exists>r. out1 = out @ [r] \<and> rl_request_id r = rid))"
    using step by (auto simp: poll_load_def dict_simps split: option.splits sum.splits if_splits)
  have res: "r \<in> set out \<or> (rl_request_id r \<in> fst ` set (x # xs) \<and>
      dict_get (cp_loads st') (rl_request_id r) = None)" if r: "r \<in> set out'" for r
  proof -
    have "r \<in> set out1 \<or> (rl_request_id r \<in> fst ` set xs \<and> dict_get (cp_loads st') (rl_request_id r) = None)"
      using IH one Cons.prems(3) r by simp
    moreover have "dict_get (cp_loads st') rid = dict_get (cp_loads st1) rid"
      using IH one Cons.prems(3) rid by simp
    ultimately show ?thesis using out1 by (auto simp: x)
  qed
  have keep: "dict_get (cp_loads st') r = dict_get (cp_loads st) r" if "r \<notin> fst ` set (x # xs)" for r
    using IH one Cons.prems(3) that by (simp add: x)
  show ?case using IH one Cons.prems(3) res keep by simp
qed simp

lemma poll_saves_inv:
  assumes "fold_res poll_save xs (st, out) = Inr (st', out')"
    and "pool_inv st" and "distinct (map fst xs)"
    and "\<And>rid s. (rid, s) \<in> set xs \<Longrightarrow> dict_get (cp_save_states st) rid = Some s"
  shows "pool_inv st' \<and> cp_loads st' = cp_loads st \<and> cp_load_pool st' = cp_load_pool st
    \<and> cp_invalid st' = cp_invalid st \<and> cp_closed st' = cp_closed st
    \<and> (\<forall>rid. rid \<notin> fst ` set xs \<longrightarrow> dict_get (cp_save_states st') rid = dict_get (cp_save_states st) rid)
    \<and> (\<forall>r \<in> set out'. r \<in> set out \<or>
         (rs_request_id r \<in> fst ` set xs \<and> dict_get (cp_save_states st') (rs_request_id r) = None))"
  using assms
proof (induction xs arbitrary: st out)
  case (Cons x xs)
  obtain rid s where x: "x = (rid, s)" by (cases x)
  obtain st1 out1 where step: "poll_save (rid, s) (st, out) = Inr (st1, out1)"
    and rest: "fold_res poll_save xs (st1, out1) = Inr (st', out')"
    using Cons.prems(1) by (auto simp: x split: sum.splits)
  have cur: "dict_get (cp_save_states st) rid = Some s" using Cons.prems(4) x by simp
  have S: "saves_inv (cp_save_states st) (cp_save_pool st)"
    using Cons.prems(2) by (simp add: pool_inv_def)
  obtain s' ex where adv: "advance_save (cp_save_pool st) s = Inr (s', ex)"
    using step by (auto simp: poll_save_def split: sum.splits)
  have inv: "saves_inv (dict_set rid s' (cp_save_states st)) ex"
    by (rule advance_save_inv(1)[OF S adv]) (use cur saves_invD(3)[OF S cur] in auto)
  have pop: "saves_inv (dict_pop rid (cp_save_states st)) ex" if "sv_running s' = None"
    by (rule saves_inv_pop[OF inv, of rid, unfolded dict_pop_set]) (use that in \<open>auto simp: dict_simps\<close>)
  have one: "pool_inv st1 \<and> cp_loads st1 = cp_loads st \<and> cp_load_pool st1 = cp_load_pool st
      \<and> cp_invalid st1 = cp_invalid st \<and> cp_closed st1 = cp_closed st
      \<and> (\<forall>r. r \<noteq> rid \<longrightarrow> dict_get (cp_save_states st1) r = dict_get (cp_save_states st) r)"
    using step adv inv pop Cons.prems(2)
    by (auto simp: poll_save_def pool_inv_def dict_simps split: if_splits)
  have out1: "out1 = out \<or> (dict_get (cp_save_states st1) rid = None \<and> (\<exists>r. out1 = out @ [r] \<and> rs_request_id r = rid))"
    using step adv by (auto simp: poll_save_def dict_simps split: if_splits)
  have rid: "rid \<notin> fst ` set xs" using Cons.prems(3) x by simp
  have "dict_get (cp_save_states st1) r = Some t" if "(r, t) \<in> set xs" for r t
  proof -
    have "r \<noteq> rid" using that rid by force
    then show ?thesis using one Cons.prems(4)[of r t] that by simp
  qed
  note IH = Cons.IH[OF rest _ _ this]
  have res: "r \<in> set out \<or> (rs_request_id r \<in> fst ` set (x # xs) \<and>
      dict_get (cp_save_states st') (rs_request_id r) = None)" if r: "r \<in> set out'" for r
  proof -
    have "r \<in> set out1 \<or> (rs_request_id r \<in> fst ` set xs \<and> dict_get (cp_save_states st') (rs_request_id r) = None)"
      using IH one Cons.prems(3) r by simp
    moreover have "dict_get (cp_save_states st') rid = dict_get (cp_save_states st1) rid"
      using IH one Cons.prems(3) rid by simp
    ultimately show ?thesis using out1 by (auto simp: x)
  qed
  have keep: "dict_get (cp_save_states st') r = dict_get (cp_save_states st) r" if "r \<notin> fst ` set (x # xs)" for r
    using IH one Cons.prems(3) that by (simp add: x)
  show ?case using IH one Cons.prems(3) res keep by simp
qed simp

lemma cp_poll_inv:
  assumes "pool_inv st" and "cp_poll cd cfg now st = Inr (res, st')"
  shows "pool_inv st'" and "r \<in> set (pr_saves res) \<Longrightarrow> dict_get (cp_save_states st') (rs_request_id r) = None"
    and "cp_closed st' = cp_closed st"
    and "l \<in> set (pr_loads res) \<Longrightarrow> dict_get (cp_loads st') (rl_request_id l) = None"
proof -
  obtain st1 loads saves where l: "fold_res (poll_load cd cfg now) (cp_loads st) (st, []) = Inr (st1, loads)"
    and s: "fold_res poll_save (cp_save_states st1) (st1, []) = Inr (st', saves)"
    and res: "res = \<lparr>pr_loads = loads, pr_saves = saves\<rparr>"
    using assms(2) by (auto simp: cp_poll_def split: sum.splits)
  have wl: "dict_wf (cp_loads st)" using assms(1) loads_invD(1) by (auto simp: pool_inv_def)
  note Q = poll_loads_inv[OF l assms(1) _ dict_in_get[OF wl]]
  have I1: "pool_inv st1" "cp_closed st1 = cp_closed st" using Q wl by (auto simp: dict_wf_def)
  have ws: "dict_wf (cp_save_states st1)" using I1 saves_invD(1) by (auto simp: pool_inv_def)
  note P = poll_saves_inv[OF s I1(1) _ dict_in_get[OF ws]]
  show "pool_inv st'" "cp_closed st' = cp_closed st"
    using P ws I1(2) by (auto simp: dict_wf_def)
  show "dict_get (cp_save_states st') (rs_request_id r) = None" if "r \<in> set (pr_saves res)"
    using P ws that res by (auto simp: dict_wf_def)
  show "dict_get (cp_loads st') (rl_request_id l) = None" if "l \<in> set (pr_loads res)"
    using P Q ws wl that res by (auto simp: dict_wf_def)
qed

text \<open>Draining one request: each round finishes or starts a task, so the loop ends.\<close>

definition drain_measure :: "(SaveEvent, unit) executor \<Rightarrow> SaveState \<Rightarrow> nat" where
  "drain_measure ex s =
     3 * length (sv_pending s) + (case sv_running s of None \<Rightarrow> 0 | Some f \<Rightarrow> if active ex f then 2 else 1)"

lemma run_through_open [simp]: "ex_open (run_through out f ex) = ex_open ex"
  unfolding run_through_def by (rule fold_inv[where P = "\<lambda>e. ex_open e = ex_open ex"]) simp_all

lemma submit_open: "submit ex j = Inr (f, ex') \<Longrightarrow> ex_open ex'"
  by (auto simp: submit_def split: if_splits)

lemma advance_save_open: "ex_open ex \<Longrightarrow> \<exists>s' ex'. advance_save ex s = Inr (s', ex') \<and> ex_open ex'"
  by (cases "sv_running (collect_running ex s)"; cases "sv_pending (collect_running ex s)")
     (simp_all add: advance_save_def submit_def Let_def)

lemma run_through_idle: "\<not> active (run_through out f ex) f"
  using run_through_done[of out f ex] by (simp add: active_not_done)

lemma drain_save_total:
  assumes "ex_open ex" and "saves_inv states ex" and "dict_get states rid = Some s0"
    and "sv_running s0 = sv_running s" and "\<And>ev. ev \<in> set (sv_pending s) \<Longrightarrow> se_request_id ev = rid"
  shows "\<exists>s' ex'. drain_save ends ex s = Some (Inr (s', ex')) \<and> sv_running s' = None \<and> sv_pending s' = [] \<and>
    ex_open ex' \<and> saves_inv (dict_set rid s' states) ex'"
  using assms
proof (induction "drain_measure ex s" arbitrary: ex s states s0 rule: less_induct)
  case less
  show ?case
  proof (cases "sv_running s = None \<and> sv_pending s = []")
    case True
    have "saves_inv (dict_set rid s states) ex"
      by (rule saves_inv_set[OF less.prems(2)]) (use True less.prems(3,4) in auto)
    then show ?thesis using True less.prems(1) by (subst drain_save.simps) simp
  next
    case False
    obtain s1 ex1 where adv: "advance_save ex s = Inr (s1, ex1)" and op: "ex_open ex1"
      using advance_save_open[OF less.prems(1)] by blast
    let ?ex2 = "case sv_running s1 of Some f \<Rightarrow> run_through ends f ex1 | None \<Rightarrow> ex1"
    have op2: "ex_open ?ex2" using op by (simp split: option.splits)
    have inv1: "saves_inv (dict_set rid s1 states) ex1"
      by (rule advance_save_inv(1)[OF less.prems(2) adv]) (use less.prems(3-5) in auto)
    have inv2: "saves_inv (dict_set rid s1 states) ?ex2"
      using saves_inv_progress[OF inv1 progress_run_through] inv1 by (simp split: option.splits)
    have pend: "se_request_id ev = rid" if "ev \<in> set (sv_pending s1)" for ev
      using saves_invD(3)[OF inv1, of rid s1 ev] that by (simp add: dict_simps)
    have m: "drain_measure ?ex2 s1 < drain_measure ex s"
    proof (cases rule: collect_running_cases[of s ex])
      case (busy f)
      then have "s1 = s" "ex1 = ex" using adv by (simp_all add: advance_save_def)
      then show ?thesis using busy(1,2) run_through_idle[of ends f ex] by (simp add: drain_measure_def)
    next
      case idle
      have old: "sv_running s = Some f \<Longrightarrow> \<not> active ex f" for f by (rule idle(3))
      show ?thesis
      proof (cases "sv_pending s")
        case Nil
        then have "s1 = collect_running ex s" "ex1 = ex" "sv_running s \<noteq> None"
          using adv idle(1,2) False by (auto simp: advance_save_def)
        then show ?thesis using idle(1,2) Nil by (auto simp: drain_measure_def)
      next
        case (Cons ev rest)
        then obtain f where "s1 = (collect_running ex s)\<lparr>sv_running := Some f, sv_pending := rest\<rparr>"
          using adv idle(1,2) by (auto simp: advance_save_def split: sum.splits)
        then show ?thesis using Cons run_through_idle[of ends f ex1] by (simp add: drain_measure_def split: option.splits)
      qed
    qed
    obtain s' ex' where r: "drain_save ends ?ex2 s1 = Some (Inr (s', ex'))" "sv_running s' = None" "sv_pending s' = []"
      "ex_open ex'" "saves_inv (dict_set rid s' (dict_set rid s1 states)) ex'"
      using less.hyps[OF m op2 inv2 _ refl pend] by (auto simp: dict_simps)
    moreover have "drain_save ends ex s = Some (Inr (s', ex'))"
      by (subst drain_save.simps) (simp only: False if_False adv sum.case fst_conv snd_conv r(1))
    moreover have "dict_set rid s' (dict_set rid s1 states) = dict_set rid s' states"
      by (simp add: dict_set_def)
    ultimately show ?thesis by auto
  qed
qed

lemma drain_states_total:
  assumes "ex_open (cp_save_pool st)" and "pool_inv st" and "distinct (map fst xs)"
    and "\<And>rid s. (rid, s) \<in> set xs \<Longrightarrow> dict_get (cp_save_states st) rid = Some s"
  shows "\<exists>st'. drain_states ends xs st = Some (Inr st') \<and> pool_inv st' \<and> ex_open (cp_save_pool st') \<and>
    cp_loads st' = cp_loads st \<and> cp_load_pool st' = cp_load_pool st \<and> cp_closed st' = cp_closed st \<and>
    dict_keys (cp_save_states st') = dict_keys (cp_save_states st) \<and>
    (\<forall>rid. rid \<notin> fst ` set xs \<longrightarrow> dict_get (cp_save_states st') rid = dict_get (cp_save_states st) rid) \<and>
    (\<forall>rid \<in> fst ` set xs. \<exists>s. dict_get (cp_save_states st') rid = Some s \<and> sv_running s = None \<and> sv_pending s = [])"
  using assms
proof (induction xs arbitrary: st)
  case (Cons x xs)
  obtain rid s where x: "x = (rid, s)" by (cases x)
  have cur: "dict_get (cp_save_states st) rid = Some s" using Cons.prems(4) x by simp
  have S: "saves_inv (cp_save_states st) (cp_save_pool st)" using Cons.prems(2) by (simp add: pool_inv_def)
  obtain s' ex where d: "drain_save ends (cp_save_pool st) s = Some (Inr (s', ex))" "sv_running s' = None"
      "sv_pending s' = []" "ex_open ex" "saves_inv (dict_set rid s' (cp_save_states st)) ex"
    using drain_save_total[OF Cons.prems(1) S cur refl saves_invD(3)[OF S cur]] by blast
  let ?st = "st\<lparr>cp_save_states := dict_set rid s' (cp_save_states st), cp_save_pool := ex\<rparr>"
  have inv: "pool_inv ?st" using Cons.prems(2) d(5) by (simp add: pool_inv_def)
  have rid: "rid \<notin> fst ` set xs" using Cons.prems(3) x by simp
  have "dict_get (cp_save_states ?st) r = Some t" if "(r, t) \<in> set xs" for r t
  proof -
    have "r \<noteq> rid" using that rid by force
    then show ?thesis using Cons.prems(4)[of r t] that by (simp add: dict_simps)
  qed
  note IH = Cons.IH[OF _ inv _ this, simplified]
  have "distinct (map fst xs)" using Cons.prems(3) by simp
  from IH[OF d(4) this] obtain st' where
    r: "drain_states ends xs ?st = Some (Inr st')" "pool_inv st'" "ex_open (cp_save_pool st')"
      "cp_loads st' = cp_loads st" "cp_load_pool st' = cp_load_pool st" "cp_closed st' = cp_closed st"
      "dict_keys (cp_save_states st') = dict_keys (dict_set rid s' (cp_save_states st))"
      "\<forall>q. q \<notin> fst ` set xs \<longrightarrow> dict_get (cp_save_states st') q = dict_get (dict_set rid s' (cp_save_states st)) q"
      "\<forall>x \<in> set xs. \<exists>s. dict_get (cp_save_states st') (fst x) = Some s \<and> sv_running s = None \<and> sv_pending s = []"
    by (elim exE conjE) (rule that)
  have "rid \<in> set (dict_keys (cp_save_states st))" using cur by (simp add: pd.keys_get)
  then have keys: "dict_keys (cp_save_states st') = dict_keys (cp_save_states st)" by (simp add: r(7) pd.keys_put)
  have this_one: "dict_get (cp_save_states st') rid = Some s'" using r(8) rid by (simp add: dict_simps)
  have others: "dict_get (cp_save_states st') q = dict_get (cp_save_states st) q" if "q \<notin> fst ` set (x # xs)" for q
    using r(8) that by (simp add: x dict_simps)
  have each: "\<exists>s. dict_get (cp_save_states st') q = Some s \<and> sv_running s = None \<and> sv_pending s = []"
    if "q \<in> fst ` set (x # xs)" for q
    using that r(9) this_one d(2,3) by (auto simp: x)
  have "drain_states ends (x # xs) st = Some (Inr st')" using d(1) r(1) by (simp add: x)
  then show ?case using r(2-6) keys others each by blast
qed simp

lemma cp_wait_total:
  assumes "ex_open (cp_save_pool st)" and "pool_inv st"
  shows "\<exists>st'. cp_wait_for_all_saves ends st = Some (Inr st') \<and> pool_inv st' \<and> ex_open (cp_save_pool st') \<and>
    cp_loads st' = cp_loads st \<and> cp_load_pool st' = cp_load_pool st \<and> cp_closed st' = cp_closed st \<and>
    dict_keys (cp_save_states st') = dict_keys (cp_save_states st) \<and>
    (\<forall>rid s. dict_get (cp_save_states st') rid = Some s \<longrightarrow> sv_running s = None \<and> sv_pending s = [])"
proof -
  have wf: "dict_wf (cp_save_states st)" using assms(2) saves_invD(1) by (auto simp: pool_inv_def)
  have d: "distinct (map fst (cp_save_states st))" using wf by (simp add: dict_wf_def)
  obtain st' where st': "drain_states ends (cp_save_states st) st = Some (Inr st')" "pool_inv st'"
      "ex_open (cp_save_pool st')" "cp_loads st' = cp_loads st" "cp_load_pool st' = cp_load_pool st"
      "cp_closed st' = cp_closed st" "dict_keys (cp_save_states st') = dict_keys (cp_save_states st)"
      "\<forall>rid \<in> fst ` set (cp_save_states st). \<exists>s. dict_get (cp_save_states st') rid = Some s \<and>
         sv_running s = None \<and> sv_pending s = []"
    using drain_states_total[OF assms d dict_in_get[OF wf]] by blast
  have "sv_running s = None \<and> sv_pending s = []" if "dict_get (cp_save_states st') rid = Some s" for rid s
  proof -
    have "rid \<in> set (dict_keys (cp_save_states st'))" using that by (simp add: pd.keys_get)
    then have "rid \<in> fst ` set (cp_save_states st)" by (simp add: st'(7)) (simp add: dict_keys_def)
    with st'(8) that show ?thesis by auto
  qed
  with st' show ?thesis by (auto simp: cp_wait_for_all_saves_def)
qed

lemma pool_inv_preempt: "pool_inv st \<Longrightarrow> pool_inv (cp_preempt load_ends save_ends rid st)"
proof -
  assume inv: "pool_inv st"
  then have L: "loads_inv (cp_loads st) (cp_load_pool st)" and S: "saves_inv (cp_save_states st) (cp_save_pool st)"
    by (simp_all add: pool_inv_def)
  have idle: "\<not> active (fence out f ex) f" for out f and ex :: "('j, 'r) executor"
    using fence_done[of out f ex] by (simp add: active_not_done)
  show ?thesis
  proof (rule pool_invI)
    show "loads_inv (cp_loads (cp_preempt load_ends save_ends rid st)) (cp_load_pool (cp_preempt load_ends save_ends rid st))"
    proof (cases "dict_get (cp_loads st) rid")
      case None
      then show ?thesis using loads_inv_pop[OF L, of rid] by (simp add: cp_preempt_eq)
    next
      case (Some s)
      have "loads_inv (dict_pop rid (cp_loads st)) (fence load_ends (ld_future s) (cp_load_pool st))"
        by (rule loads_inv_pop[OF loads_inv_progress[OF L progress_fence]]) (use Some idle in simp)
      then show ?thesis using Some by (simp add: cp_preempt_eq)
    qed
    show "saves_inv (cp_save_states (cp_preempt load_ends save_ends rid st)) (cp_save_pool (cp_preempt load_ends save_ends rid st))"
    proof (cases "\<exists>s f. dict_get (cp_save_states st) rid = Some s \<and> sv_running s = Some f")
      case False
      then have "saves_inv (dict_pop rid (cp_save_states st)) (cp_save_pool st)"
        using saves_inv_pop[OF S, of rid] by blast
      then show ?thesis using False by (auto simp: cp_preempt_eq split: option.splits)
    next
      case True
      then obtain s f where sf: "dict_get (cp_save_states st) rid = Some s" "sv_running s = Some f" by blast
      have "saves_inv (dict_pop rid (cp_save_states st)) (fence save_ends f (cp_save_pool st))"
        by (rule saves_inv_pop[OF saves_inv_progress[OF S progress_fence]]) (use sf idle in simp)
      then show ?thesis using sf by (simp add: cp_preempt_eq)
    qed
  qed
qed

lemma shutdown_idle [simp]: "\<not> active (shutdown out ex) f"
  using shutdown_done[of out ex f] by (simp add: active_not_done)

lemma loads_inv_shutdown: "loads_inv [] (shutdown out ex)"
  by (simp add: loads_inv_def dict_simps pd.wf_empty)

lemma saves_inv_shutdown: "saves_inv [] (shutdown out ex)"
  by (simp add: saves_inv_def dict_simps pd.wf_empty)

text \<open>Reachable states: the invariant, and the lanes accept tasks exactly while the pool is open.\<close>

definition pool_ok :: "cache_pool \<Rightarrow> bool" where
  "pool_ok st \<longleftrightarrow> pool_inv st \<and>
     (cp_closed st \<longleftrightarrow> \<not> ex_open (cp_load_pool st)) \<and> (cp_closed st \<longleftrightarrow> \<not> ex_open (cp_save_pool st)) \<and>
     (cp_closed st \<longrightarrow> cp_loads st = [] \<and> cp_save_states st = [])"

lemma ex_open_frame [simp]:
  "ex_open (start_next ex) = ex_open ex" "ex_open (finish f r ex) = ex_open ex"
  "ex_open (fence out f ex) = ex_open ex" "\<not> ex_open (shutdown out ex)"
  by (simp_all add: start_next_def finish_def fence_def cancel_def await_task_def shutdown_def
      split: option.splits task_state.splits)

lemma advance_save_keeps_open: "advance_save ex s = Inr (s', ex') \<Longrightarrow> ex_open ex' = ex_open ex"
  by (auto simp: advance_save_def Let_def submit_def split: if_splits list.splits)

lemma cp_poll_open:
  assumes "cp_poll cd cfg now st = Inr (res, st')" and "pool_inv st"
  shows "ex_open (cp_load_pool st') = ex_open (cp_load_pool st)"
    and "ex_open (cp_save_pool st') = ex_open (cp_save_pool st)"
proof -
  obtain st1 loads saves where l: "fold_res (poll_load cd cfg now) (cp_loads st) (st, []) = Inr (st1, loads)"
    and s: "fold_res poll_save (cp_save_states st1) (st1, []) = Inr (st', saves)"
    using assms(1) by (auto simp: cp_poll_def split: sum.splits)
  have "cp_load_pool (fst (st1, loads)) = cp_load_pool st \<and> cp_save_pool (fst (st1, loads)) = cp_save_pool st"
    by (rule fold_res_inv[OF l, where P = "\<lambda>a. cp_load_pool (fst a) = cp_load_pool st \<and> cp_save_pool (fst a) = cp_save_pool st"])
       (auto simp: poll_load_def Let_def split: option.splits sum.splits if_splits prod.splits)
  moreover have "cp_load_pool (fst (st', saves)) = cp_load_pool st1 \<and>
      ex_open (cp_save_pool (fst (st', saves))) = ex_open (cp_save_pool st1)"
    by (rule fold_res_inv[OF s, where P = "\<lambda>a. cp_load_pool (fst a) = cp_load_pool st1 \<and>
            ex_open (cp_save_pool (fst a)) = ex_open (cp_save_pool st1)"])
       (auto simp: poll_save_def Let_def dest: advance_save_keeps_open split: sum.splits if_splits prod.splits)
  ultimately show "ex_open (cp_load_pool st') = ex_open (cp_load_pool st)"
    "ex_open (cp_save_pool st') = ex_open (cp_save_pool st)" by simp_all
qed

lemma cp_poll_closed:
  "cp_poll cd cfg now st = Inr (res, st') \<Longrightarrow> cp_loads st = [] \<Longrightarrow> cp_save_states st = [] \<Longrightarrow> st' = st"
  by (auto simp: cp_poll_def)

lemma pool_ok_step:
  assumes "pool_step cd cfg st st'" and "pool_ok st"
  shows "pool_ok st'"
  using assms
proof (cases rule: pool_step.cases)
  case (step_load now ev)
  then have "\<not> cp_closed st" by (auto simp: cp_load_def validate_event_def split: if_splits)
  moreover have "cp_closed st' = cp_closed st" "ex_open (cp_load_pool st') = ex_open (cp_load_pool st)"
    "cp_save_pool st' = cp_save_pool st"
    using step_load by (auto simp: cp_load_def submit_def split: sum.splits if_splits)
  ultimately show ?thesis
    using assms(2) pool_inv_load[OF _ step_load] by (simp add: pool_ok_def)
next
  case (step_save sev)
  then have "\<not> cp_closed st" by (auto simp: cp_save_def validate_event_def split: if_splits)
  moreover have "cp_closed st' = cp_closed st" "cp_load_pool st' = cp_load_pool st"
    "ex_open (cp_save_pool st') = ex_open (cp_save_pool st)"
    using step_save by (auto simp: cp_save_def Let_def dest: advance_save_keeps_open split: sum.splits)
  ultimately show ?thesis
    using assms(2) pool_inv_save[OF _ step_save] by (simp add: pool_ok_def)
next
  case (step_poll now res)
  have inv: "pool_inv st" using assms(2) by (simp add: pool_ok_def)
  show ?thesis
    using assms(2) cp_poll_inv(1,3)[OF inv step_poll] cp_poll_open[OF step_poll inv] cp_poll_closed[OF step_poll]
    by (auto simp: pool_ok_def)
next
  case step_take
  then show ?thesis using assms(2) by (auto simp: pool_ok_def pool_inv_def cp_take_errors_def)
next
  case (step_preempt load_ends save_ends rid)
  have "cp_closed st' = cp_closed st" "ex_open (cp_load_pool st') = ex_open (cp_load_pool st)"
    "ex_open (cp_save_pool st') = ex_open (cp_save_pool st)"
    "cp_loads st = [] \<Longrightarrow> cp_loads st' = []" "cp_save_states st = [] \<Longrightarrow> cp_save_states st' = []"
    unfolding step_preempt by (auto simp: cp_preempt_eq dict_pop_def Let_def split: option.splits)
  then show ?thesis using assms(2) pool_inv_preempt[of st] step_preempt by (auto simp: pool_ok_def)
next
  case (step_wait save_ends)
  show ?thesis
  proof (cases "cp_closed st")
    case True
    then have "st' = st" using step_wait assms(2) by (simp add: cp_wait_for_all_saves_def pool_ok_def)
    with assms(2) show ?thesis by simp
  next
    case False
    then have "ex_open (cp_save_pool st)" "pool_inv st" using assms(2) by (simp_all add: pool_ok_def)
    from cp_wait_total[OF this, of save_ends] step_wait False assms(2) show ?thesis by (auto simp: pool_ok_def)
  qed
next
  case (step_close load_ends save_ends)
  show ?thesis
  proof (cases "cp_closed st")
    case False
    then show ?thesis
      by (simp add: step_close cp_close_def pool_ok_def pool_inv_def loads_inv_shutdown saves_inv_shutdown)
  qed (use assms(2) step_close in \<open>simp add: cp_close_def\<close>)
next
  case step_start_load
  then show ?thesis using assms(2) loads_inv_progress[OF _ progress_start] by (auto simp: pool_ok_def pool_inv_def)
next
  case (step_finish_load f lr)
  then show ?thesis using assms(2) loads_inv_progress[OF _ progress_finish] by (auto simp: pool_ok_def pool_inv_def)
next
  case step_start_save
  then show ?thesis using assms(2) saves_inv_progress[OF _ progress_start] by (auto simp: pool_ok_def pool_inv_def)
next
  case (step_finish_save f sr)
  then show ?thesis using assms(2) saves_inv_progress[OF _ progress_finish] by (auto simp: pool_ok_def pool_inv_def)
qed (auto simp: pool_ok_def pool_inv_def)

lemma pool_reachable_ok: "pool_reachable cd cfg st \<Longrightarrow> pool_ok st"
proof (induction rule: pool_reachable.induct)
  case (pool_start n)
  then show ?case using pool_inv_new[of n] by (simp add: pool_ok_def new_cache_pool_def new_executor_def)
qed (blast intro: pool_ok_step)

section \<open>Properties\<close>

lemma pool_tasks_owned_lemma:
  assumes "pool_reachable cd cfg st"
  shows "active (cp_load_pool st) f \<Longrightarrow> \<exists>s. ld_future s = f \<and>
            dict_get (cp_loads st) (le_request_id (task_of (cp_load_pool st) f)) = Some s"
    and "active (cp_save_pool st) g \<Longrightarrow> \<exists>s. sv_running s = Some g \<and>
            dict_get (cp_save_states st) (se_request_id (task_of (cp_save_pool st) g)) = Some s"
proof -
  have ok: "pool_ok st" by (rule pool_reachable_ok[OF assms])
  then have L: "loads_inv (cp_loads st) (cp_load_pool st)" and S: "saves_inv (cp_save_states st) (cp_save_pool st)"
    by (simp_all add: pool_ok_def pool_inv_def)
  show "\<exists>s. ld_future s = f \<and> dict_get (cp_loads st) (le_request_id (task_of (cp_load_pool st) f)) = Some s"
    if a: "active (cp_load_pool st) f"
  proof -
    obtain rid s where "dict_get (cp_loads st) rid = Some s" "ld_future s = f"
      using loads_invD(3)[OF L a] by blast
    with loads_invD(2)[OF L this(1)] show ?thesis by auto
  qed
  show "\<exists>s. sv_running s = Some g \<and> dict_get (cp_save_states st) (se_request_id (task_of (cp_save_pool st) g)) = Some s"
    if a: "active (cp_save_pool st) g"
  proof -
    obtain rid s where "dict_get (cp_save_states st) rid = Some s" "sv_running s = Some g"
      using saves_invD(4)[OF S a] by blast
    with saves_invD(2)[OF S this] show ?thesis by auto
  qed
qed

text \<open>
  In every reachable state of the Store pool, whatever the interleaving of its operations with the
  worker threads, each task that still runs or waits is owned by a live request of the pool, no request
  has two loads or two saves in flight at once, and a closed pool has no task left that could touch
  the registered memory.
\<close>

theorem pool_tasks_owned:
  assumes "pool_reachable cd cfg st"
  shows "(\<forall>f. active (cp_load_pool st) f \<longrightarrow> (\<exists>s. ld_future s = f \<and>
            dict_get (cp_loads st) (le_request_id (task_of (cp_load_pool st) f)) = Some s)) \<and>
    (\<forall>f. active (cp_save_pool st) f \<longrightarrow> (\<exists>s. sv_running s = Some f \<and>
            dict_get (cp_save_states st) (se_request_id (task_of (cp_save_pool st) f)) = Some s)) \<and>
    (\<forall>f g. active (cp_load_pool st) f \<and> active (cp_load_pool st) g \<and>
       le_request_id (task_of (cp_load_pool st) f) = le_request_id (task_of (cp_load_pool st) g) \<longrightarrow> f = g) \<and>
    (\<forall>f g. active (cp_save_pool st) f \<and> active (cp_save_pool st) g \<and>
       se_request_id (task_of (cp_save_pool st) f) = se_request_id (task_of (cp_save_pool st) g) \<longrightarrow> f = g) \<and>
    (cp_closed st \<longrightarrow> (\<forall>f. \<not> active (cp_load_pool st) f \<and> \<not> active (cp_save_pool st) f))"
proof -
  have ok: "pool_ok st" by (rule pool_reachable_ok[OF assms])
  note l = pool_tasks_owned_lemma(1)[OF assms] and s = pool_tasks_owned_lemma(2)[OF assms]
  have same_load: "f = g" if a1: "active (cp_load_pool st) f" and a2: "active (cp_load_pool st) g"
      and a3: "le_request_id (task_of (cp_load_pool st) f) = le_request_id (task_of (cp_load_pool st) g)" for f g
  proof -
    obtain s where "ld_future s = f" "dict_get (cp_loads st) (le_request_id (task_of (cp_load_pool st) f)) = Some s"
      using l[OF a1] by blast
    moreover obtain t where "ld_future t = g" "dict_get (cp_loads st) (le_request_id (task_of (cp_load_pool st) g)) = Some t"
      using l[OF a2] by blast
    ultimately show ?thesis using a3 by simp
  qed
  have same_save: "f = g" if a1: "active (cp_save_pool st) f" and a2: "active (cp_save_pool st) g"
      and a3: "se_request_id (task_of (cp_save_pool st) f) = se_request_id (task_of (cp_save_pool st) g)" for f g
  proof -
    obtain s where "sv_running s = Some f" "dict_get (cp_save_states st) (se_request_id (task_of (cp_save_pool st) f)) = Some s"
      using s[OF a1] by blast
    moreover obtain t where "sv_running t = Some g" "dict_get (cp_save_states st) (se_request_id (task_of (cp_save_pool st) g)) = Some t"
      using s[OF a2] by blast
    ultimately show ?thesis using a3 by simp
  qed
  have none: "\<not> active (cp_load_pool st) f \<and> \<not> active (cp_save_pool st) f" if "cp_closed st" for f
  proof -
    have "cp_loads st = []" "cp_save_states st = []" using ok that by (simp_all add: pool_ok_def)
    then show ?thesis using l[of f] s[of f] by (auto simp: dict_simps)
  qed
  show ?thesis
    by (intro conjI allI impI; (elim conjE)?)
       (erule l, erule s, rule same_load, assumption+, rule same_save, assumption+,
        simp add: none, simp add: none)
qed

text \<open>
  Preempting a request fences its Store I/O. When \<open>preempt\<close> returns, no load or save task of
  the request is running or queued, no load, save state, pending save or invalid block of it is left,
  and no SaveResult or LoadResult will be published for it; the tasks, results and state of every
  other request are untouched.
\<close>

theorem preempt_fences:
  assumes "pool_reachable cd cfg st" and "st' = cp_preempt load_ends save_ends rid st"
  shows "(\<forall>f. active (cp_load_pool st') f \<longrightarrow> le_request_id (task_of (cp_load_pool st') f) \<noteq> rid) \<and>
    (\<forall>f. active (cp_save_pool st') f \<longrightarrow> se_request_id (task_of (cp_save_pool st') f) \<noteq> rid) \<and>
    dict_get (cp_loads st') rid = None \<and> dict_get (cp_save_states st') rid = None \<and>
    dict_get (cp_invalid st') rid = None \<and>
    (\<forall>r. r \<noteq> rid \<longrightarrow> dict_get (cp_loads st') r = dict_get (cp_loads st) r \<and>
       dict_get (cp_save_states st') r = dict_get (cp_save_states st) r \<and>
       dict_get (cp_invalid st') r = dict_get (cp_invalid st) r) \<and>
    (\<forall>f. le_request_id (task_of (cp_load_pool st) f) \<noteq> rid \<longrightarrow>
       task_state (cp_load_pool st') f = task_state (cp_load_pool st) f) \<and>
    (\<forall>f. se_request_id (task_of (cp_save_pool st) f) \<noteq> rid \<longrightarrow>
       task_state (cp_save_pool st') f = task_state (cp_save_pool st) f)"
proof -
  have reach: "pool_reachable cd cfg st'" unfolding assms(2) by (rule pool_next[OF assms(1) step_preempt])
  note own = pool_tasks_owned_lemma[OF reach]
  have gone: "dict_get (cp_loads st') rid = None" "dict_get (cp_save_states st') rid = None"
    "dict_get (cp_invalid st') rid = None"
    by (simp_all add: assms(2) cp_preempt_eq dict_simps)
  have others: "r \<noteq> rid \<longrightarrow> dict_get (cp_loads st') r = dict_get (cp_loads st) r \<and>
       dict_get (cp_save_states st') r = dict_get (cp_save_states st) r \<and>
       dict_get (cp_invalid st') r = dict_get (cp_invalid st) r" for r
    by (simp add: assms(2) cp_preempt_eq dict_simps)
  have "pool_inv st" using pool_reachable_ok[OF assms(1)] by (simp add: pool_ok_def)
  then have L: "loads_inv (cp_loads st) (cp_load_pool st)" and S: "saves_inv (cp_save_states st) (cp_save_pool st)"
    by (simp_all add: pool_inv_def)
  have "task_state (cp_load_pool st') f = task_state (cp_load_pool st) f"
    if "le_request_id (task_of (cp_load_pool st) f) \<noteq> rid" for f
    using that loads_invD(2)[OF L, of rid] by (auto simp: assms(2) cp_preempt_eq exec_simps split: option.splits)
  moreover have "task_state (cp_save_pool st') f = task_state (cp_save_pool st) f"
    if "se_request_id (task_of (cp_save_pool st) f) \<noteq> rid" for f
    using that saves_invD(2)[OF S, of rid] by (auto simp: assms(2) cp_preempt_eq exec_simps split: option.splits)
  moreover have "le_request_id (task_of (cp_load_pool st') f) \<noteq> rid" if "active (cp_load_pool st') f" for f
    using own(1)[OF that] gone by auto
  moreover have "se_request_id (task_of (cp_save_pool st') f) \<noteq> rid" if "active (cp_save_pool st') f" for f
    using own(2)[OF that] gone by auto
  ultimately show ?thesis using gone others by blast
qed

text \<open>
  C20: a published result is final. When \<open>poll\<close> returns a SaveResult for a request, no save task of
  the request runs or waits and none of its accepted events is still pending; when it returns a
  LoadResult, no load task of the request is left that could still write to its blocks.
\<close>

theorem poll_results_final:
  assumes "pool_reachable cd cfg st" and "cp_poll cd cfg now st = Inr (res, st')"
  shows "(\<forall>r \<in> set (pr_saves res). dict_get (cp_save_states st') (rs_request_id r) = None \<and>
      (\<forall>f. active (cp_save_pool st') f \<longrightarrow> se_request_id (task_of (cp_save_pool st') f) \<noteq> rs_request_id r)) \<and>
    (\<forall>l \<in> set (pr_loads res). dict_get (cp_loads st') (rl_request_id l) = None \<and>
      (\<forall>f. active (cp_load_pool st') f \<longrightarrow> le_request_id (task_of (cp_load_pool st') f) \<noteq> rl_request_id l))"
proof -
  have inv: "pool_inv st" using pool_reachable_ok[OF assms(1)] by (simp add: pool_ok_def)
  have reach: "pool_reachable cd cfg st'" by (rule pool_next[OF assms(1) step_poll[OF assms(2)]])
  note own = pool_tasks_owned_lemma[OF reach]
  note gone = cp_poll_inv(2,4)[OF inv assms(2)]
  have "se_request_id (task_of (cp_save_pool st') f) \<noteq> rs_request_id r"
    if "r \<in> set (pr_saves res)" "active (cp_save_pool st') f" for r f
    using own(2)[OF that(2)] gone(1)[OF that(1)] by auto
  moreover have "le_request_id (task_of (cp_load_pool st') f) \<noteq> rl_request_id l"
    if "l \<in> set (pr_loads res)" "active (cp_load_pool st') f" for l f
    using own(1)[OF that(2)] gone(2)[OF that(1)] by auto
  ultimately show ?thesis using gone by blast
qed

text \<open>
  C21: \<open>wait_for_all_saves\<close>, the fence before the Store is reset, always returns on an open pool,
  whatever the outcomes of the tasks, and then no accepted save is running, queued or pending; no
  request is forgotten, so its result is still published by the next poll.
\<close>

theorem wait_for_all_saves_drains:
  assumes "pool_reachable cd cfg st" and "\<not> cp_closed st"
  shows "\<exists>st'. cp_wait_for_all_saves ends st = Some (Inr st') \<and> (\<forall>f. \<not> active (cp_save_pool st') f) \<and>
    (\<forall>rid s. dict_get (cp_save_states st') rid = Some s \<longrightarrow> sv_running s = None \<and> sv_pending s = []) \<and>
    dict_keys (cp_save_states st') = dict_keys (cp_save_states st) \<and> cp_loads st' = cp_loads st"
proof -
  have "ex_open (cp_save_pool st)" "pool_inv st"
    using pool_reachable_ok[OF assms(1)] assms(2) by (simp_all add: pool_ok_def)
  from cp_wait_total[OF this, of ends] obtain st' where
    w: "cp_wait_for_all_saves ends st = Some (Inr st')" "pool_inv st'" "cp_loads st' = cp_loads st"
      "dict_keys (cp_save_states st') = dict_keys (cp_save_states st)"
      "\<forall>rid s. dict_get (cp_save_states st') rid = Some s \<longrightarrow> sv_running s = None \<and> sv_pending s = []"
    by blast
  have S: "saves_inv (cp_save_states st') (cp_save_pool st')" using w(2) by (simp add: pool_inv_def)
  have "\<not> active (cp_save_pool st') f" for f
    using saves_invD(4)[OF S, of f] w(5) by fastforce
  with w show ?thesis by blast
qed

section \<open>A run of the pool\<close>

definition ex_save :: "string \<Rightarrow> SaveEvent" where
  "ex_save rid = \<lparr>se_request_id = rid, se_block_ids = [[1, 2], [3]], se_block_hashes = [''x'', ''y''],
      se_start_save = 0, se_end_save = 32, se_ready_event = Some (Signal 7), se_prompt_tokens = Some 40\<rparr>"

definition ex_load :: "string \<Rightarrow> LoadEvent" where
  "ex_load rid = \<lparr>le_request_id = rid, le_block_ids = [[4, 5], [6]], le_block_hashes = [''x'', ''y''],
      le_start_load = 0, le_end_load = 32\<rparr>"

definition ex_p0 :: cache_pool where "ex_p0 = (new_cache_pool 2)\<lparr>cp_registered := True\<rparr>"
definition ex_p1 :: cache_pool where "ex_p1 = projr (cp_load ex_pool_cfg 10 (ex_load ''b'') ex_p0)"
definition ex_p2 :: cache_pool where "ex_p2 = projr (cp_save cdiv_ref ex_pool_cfg (ex_save ''a'') ex_p1)"
definition ex_p3 :: cache_pool where "ex_p3 = ex_p2\<lparr>cp_save_pool := start_next (cp_save_pool ex_p2)\<rparr>"
definition ex_p4 :: cache_pool where "ex_p4 = ex_p3\<lparr>cp_save_pool := finish 0 (Inl (RuntimeError ''put'')) (cp_save_pool ex_p3)\<rparr>"
definition ex_polled :: "PoolPollResult \<times> cache_pool" where "ex_polled = projr (cp_poll cdiv_ref ex_pool_cfg 20 ex_p4)"

lemma ex_pool_runs:
  "cp_load ex_pool_cfg 10 (ex_load ''b'') ex_p0 = Inr ex_p1"
  "cp_save cdiv_ref ex_pool_cfg (ex_save ''a'') ex_p1 = Inr ex_p2"
  "cp_poll cdiv_ref ex_pool_cfg 20 ex_p4 = Inr ex_polled"
  by code_simp+

lemma ex_pool_reachable:
  "pool_reachable cdiv_ref ex_pool_cfg ex_p3" "pool_reachable cdiv_ref ex_pool_cfg ex_p4"
proof -
  have "pool_reachable cdiv_ref ex_pool_cfg ex_p0"
    unfolding ex_p0_def
    by (rule pool_next[OF pool_start step_register]) (simp_all add: new_cache_pool_def)
  note r2 = pool_next[OF pool_next[OF this step_load[OF ex_pool_runs(1)]] step_save[OF ex_pool_runs(2)]]
  from pool_next[OF r2 step_start_save] show r3: "pool_reachable cdiv_ref ex_pool_cfg ex_p3" by (simp add: ex_p3_def)
  from pool_next[OF r3 step_finish_save] show "pool_reachable cdiv_ref ex_pool_cfg ex_p4" by (simp add: ex_p4_def)
qed

lemma pool_tasks_owned_witness:
  "active (cp_save_pool ex_p3) 0 \<and> (\<exists>s. sv_running s = Some 0 \<and> dict_get (cp_save_states ex_p3) ''a'' = Some s)"
proof -
  have "active (cp_save_pool ex_p3) 0" "se_request_id (task_of (cp_save_pool ex_p3) 0) = ''a''" by code_simp+
  with pool_tasks_owned[OF ex_pool_reachable(1)] show ?thesis by metis
qed

lemma preempt_fences_witness:
  "let st' = cp_preempt (\<lambda>_. Inr \<lparr>lo_loaded_tokens = 0, lo_error = None, lo_invalid = {}\<rparr>) (\<lambda>_. Inr ()) ''a'' ex_p3
   in \<not> active (cp_save_pool st') 0 \<and> active (cp_load_pool st') 0 \<and> dict_get (cp_save_states st') ''a'' = None"
proof -
  define st' where "st' = cp_preempt (\<lambda>_. Inr \<lparr>lo_loaded_tokens = 0, lo_error = None, lo_invalid = {}\<rparr>)
      (\<lambda>_. Inr ()) ''a'' ex_p3"
  note p = preempt_fences[OF ex_pool_reachable(1) st'_def]
  have "se_request_id (task_of (cp_save_pool st') 0) = ''a''" "active (cp_load_pool st') 0"
    unfolding st'_def by code_simp+
  with p have "\<not> active (cp_save_pool st') 0" by metis
  with p \<open>active (cp_load_pool st') 0\<close> show ?thesis unfolding st'_def[symmetric] Let_def by blast
qed

lemma poll_results_final_witness:
  "pr_saves (fst ex_polled) = [\<lparr>rs_request_id = ''a'', rs_error = Some ''put''\<rparr>] \<and>
   dict_get (cp_save_states (snd ex_polled)) ''a'' = None"
proof -
  have r: "pr_saves (fst ex_polled) = [\<lparr>rs_request_id = ''a'', rs_error = Some ''put''\<rparr>]" by code_simp
  from poll_results_final[OF ex_pool_reachable(2), of 20 "fst ex_polled" "snd ex_polled"] ex_pool_runs(3) r
  show ?thesis by simp
qed

lemma wait_for_all_saves_drains_witness:
  "\<exists>st'. cp_wait_for_all_saves (\<lambda>_. Inr ()) ex_p3 = Some (Inr st') \<and> (\<forall>f. \<not> active (cp_save_pool st') f)"
proof -
  have "\<not> cp_closed ex_p3" by code_simp
  from wait_for_all_saves_drains[OF ex_pool_reachable(1) this, of "\<lambda>_. Inr ()"] show ?thesis by blast
qed

end
