(* ===== verification/Cache_Pool_Work.thy ===== *)
theory Cache_Pool_Work
  imports Cache_Pool_Props
begin

text \<open>
  What the pool's tasks achieve: the verdict of a load (usable prefix and invalid blocks), the
  coalescing of pending saves and the effect of a save on the Store.
\<close>

section \<open>The usable prefix\<close>

lemma find_min:
  assumes "List.find P [a..b :: int] = Some i"
  shows "a \<le> i" and "i \<le> b" and "P i" and "\<And>j. a \<le> j \<Longrightarrow> j < i \<Longrightarrow> \<not> P j"
proof -
  obtain k where k: "k < length [a..b]" "P ([a..b] ! k)" "i = [a..b] ! k" "\<forall>j < k. \<not> P ([a..b] ! j)"
    using assms by (auto simp: find_Some_iff)
  have i: "i = a + int k" "int k < b - a + 1" using k(1,3) by (auto simp: nth_upto)
  show "a \<le> i" "i \<le> b" "P i" using i k(2,3) by auto
  show "\<not> P j" if "a \<le> j" "j < i" for j
  proof -
    have "nat (j - a) < k" using that i by linarith
    moreover have "[a..b] ! nat (j - a) = j" using that i(1) \<open>i \<le> b\<close> by (simp add: nth_upto)
    ultimately show ?thesis using k(4) by metis
  qed
qed

lemma find_none: "List.find P [a..b :: int] = None \<Longrightarrow> a \<le> j \<Longrightarrow> j \<le> b \<Longrightarrow> \<not> P j"
  by (auto simp: find_None_iff)

text \<open>Position \<open>i\<close> of a group lies in the loaded range.\<close>

definition in_range :: "cdiv_fun \<Rightarrow> LoadEvent \<Rightarrow> int list \<times> ChunkedTokenDatabase \<Rightarrow> nat \<Rightarrow> bool" where
  "in_range cd ev g i \<longleftrightarrow> i < length (fst g) \<and> le_start_load ev \<le> int i * db_block_size (snd g) \<and>
     int i * db_block_size (snd g) < le_end_load ev"

lemma in_range_cd:
  assumes "ceil_div cd" and "0 < db_block_size (snd g)"
  shows "in_range cd ev g i \<longleftrightarrow> i < length (fst g) \<and> cd (le_start_load ev) (db_block_size (snd g)) \<le> int i \<and>
     int i < cd (le_end_load ev) (db_block_size (snd g))"
  using assms by (simp add: in_range_def cdiv_le_iff less_cdiv_iff mult.commute)

lemma group_prefix_ok:
  assumes "ceil_div cd" and "0 < db_block_size (snd g)" and "0 \<le> le_start_load ev"
  shows "group_prefix cd ev failed g a \<le> a"
    and "in_range cd ev g i \<Longrightarrow> fst g ! i \<in> failed \<Longrightarrow> group_prefix cd ev failed g a \<le> int i * db_block_size (snd g)"
    and "le_start_load ev \<le> a \<Longrightarrow> le_start_load ev \<le> group_prefix cd ev failed g a"
    and "group_prefix cd ev {} g a = a"
proof -
  obtain ids db where g: "g = (ids, db)" by (cases g)
  let ?bs = "db_block_size db"
  define st where "st = cd (le_start_load ev) ?bs"
  define sp where "sp = min (cd (le_end_load ev) ?bs) (int (length ids))"
  have bs: "0 < ?bs" using assms(2) g by simp
  have st: "0 \<le> st" "le_start_load ev \<le> ?bs * st"
    using cdiv_nonneg[OF assms(1) bs assms(3)] cdiv_le_iff[OF assms(1) bs, of "le_start_load ev" st]
    by (simp_all add: st_def)
  have def: "group_prefix cd ev failed g a =
      (case List.find (\<lambda>i. ids ! nat i \<in> failed) [st..sp - 1] of None \<Rightarrow> a | Some i \<Rightarrow> min a (i * ?bs))" for failed a
    by (simp add: group_prefix_def g st_def sp_def Let_def)
  show "group_prefix cd ev failed g a \<le> a" by (simp add: def split: option.splits)
  show "group_prefix cd ev {} g a = a" by (simp add: def find_None_iff split: option.splits) (auto simp: find_Some_iff)
  show "group_prefix cd ev failed g a \<le> int i * db_block_size (snd g)"
    if r: "in_range cd ev g i" "fst g ! i \<in> failed"
  proof -
    have i: "st \<le> int i" "int i \<le> sp - 1" "ids ! i \<in> failed"
      using r(1)[unfolded in_range_cd[OF assms(1,2)]] r(2) by (simp_all add: g st_def sp_def)
    show ?thesis
    proof (cases "List.find (\<lambda>i. ids ! nat i \<in> failed) [st..sp - 1]")
      case None
      from find_none[OF None i(1,2)] i(3) show ?thesis by simp
    next
      case (Some j)
      have "j \<le> int i" using find_min(4)[OF Some i(1)] i(3) by force
      then have "j * ?bs \<le> int i * ?bs" using bs by simp
      then show ?thesis unfolding def using Some by (simp add: g min.coboundedI2)
    qed
  qed
  show "le_start_load ev \<le> group_prefix cd ev failed g a" if "le_start_load ev \<le> a"
  proof (cases "List.find (\<lambda>i. ids ! nat i \<in> failed) [st..sp - 1]")
    case (Some j)
    have "?bs * st \<le> j * ?bs" using find_min(1)[OF Some] bs by (simp add: mult.commute)
    with Some st(2) that show ?thesis by (simp add: def)
  qed (use that in \<open>simp add: def\<close>)
qed

lemma fold_prefix_le:
  assumes "ceil_div cd" and "\<forall>g \<in> set zs. 0 < db_block_size (snd g)" and "0 \<le> le_start_load ev"
  shows "fold (group_prefix cd ev failed) zs a \<le> a"
  using fold_inv[of "\<lambda>x. x \<le> a" a zs "group_prefix cd ev failed"] group_prefix_ok(1)[OF assms(1) _ assms(3)] assms(2)
  by (meson order.refl order.trans)

lemma fold_prefix_ge:
  assumes "ceil_div cd" and "\<forall>g \<in> set zs. 0 < db_block_size (snd g)" and "0 \<le> le_start_load ev"
    and "le_start_load ev \<le> a"
  shows "le_start_load ev \<le> fold (group_prefix cd ev failed) zs a"
  using fold_inv[of "\<lambda>x. le_start_load ev \<le> x" a zs "group_prefix cd ev failed"]
    group_prefix_ok(3)[OF assms(1) _ assms(3)] assms(2,4) by blast

lemma fold_prefix_empty:
  assumes "ceil_div cd" and "\<forall>g \<in> set zs. 0 < db_block_size (snd g)" and "0 \<le> le_start_load ev"
  shows "fold (group_prefix cd ev {}) zs a = a"
  using assms(2) group_prefix_ok(4)[OF assms(1) _ assms(3)] by (induction zs) auto

lemma fold_prefix_failed:
  assumes cd: "ceil_div cd" and bs: "\<forall>g \<in> set zs. 0 < db_block_size (snd g)" and st: "0 \<le> le_start_load ev"
    and g: "g \<in> set zs" "in_range cd ev g i" "fst g ! i \<in> failed"
  shows "fold (group_prefix cd ev failed) zs a \<le> int i * db_block_size (snd g)"
  using bs g(1)
proof (induction zs arbitrary: a)
  case (Cons z zs)
  show ?case
  proof (cases "g \<in> set zs")
    case True
    then show ?thesis using Cons by simp
  next
    case False
    then have "g = z" using Cons.prems(2) by simp
    then have "group_prefix cd ev failed z a \<le> int i * db_block_size (snd g)"
      using group_prefix_ok(2)[OF cd _ st g(2,3)] Cons.prems(1) by simp
    then show ?thesis
      using fold_prefix_le[OF cd _ st, of zs failed "group_prefix cd ev failed z a"] Cons.prems(1) by simp
  qed
qed simp

lemma in_group_range:
  assumes cd: "ceil_div cd" and bs: "0 < db_block_size (snd g)" and "0 \<le> start" and "0 \<le> stop"
  shows "b \<in> set (group_range cd start stop g) \<longleftrightarrow> 0 \<le> b \<and> (\<exists>i. i < length (fst g) \<and> fst g ! i = b \<and>
    start \<le> int i * db_block_size (snd g) \<and> int i * db_block_size (snd g) < stop)"
  using set_slice_range_nth[OF cdiv_nonneg[OF cd bs assms(3)] cdiv_nonneg[OF cd bs assms(4)], of b "fst g"]
  by (auto simp: group_range_def cdiv_le_iff[OF cd bs] less_cdiv_iff[OF cd bs] mult.commute)

lemma load_verdict_exact:
  assumes cd: "ceil_div cd" and bs: "\<forall>db \<in> set (pc_databases cfg). 0 < db_block_size db"
    and rng: "0 \<le> le_start_load ev" "le_start_load ev \<le> le_end_load ev"
    and v: "load_verdict cd cfg ev loaded = Inr out"
  shows "le_start_load ev \<le> lo_loaded_tokens out \<and> lo_loaded_tokens out \<le> le_end_load ev \<and>
    (\<forall>g \<in> set (zip (le_block_ids ev) (pc_databases cfg)). \<forall>i. in_range cd ev g i \<longrightarrow>
       int i * db_block_size (snd g) < lo_loaded_tokens out \<longrightarrow>
       (case loaded of Inr failed \<Rightarrow> fst g ! i \<notin> failed | Inl _ \<Rightarrow> fst g ! i < 0)) \<and>
    (\<forall>b. b \<in> lo_invalid out \<longleftrightarrow> 0 \<le> b \<and> (\<exists>g \<in> set (zip (le_block_ids ev) (pc_databases cfg)). \<exists>i.
       in_range cd ev g i \<and> fst g ! i = b \<and> lo_loaded_tokens out \<le> int i * db_block_size (snd g))) \<and>
    (lo_error out = None \<longleftrightarrow> loaded = Inr {}) \<and>
    (loaded = Inr {} \<longrightarrow> lo_loaded_tokens out = le_end_load ev \<and> lo_invalid out = {})"
proof -
  let ?zs = "zip (le_block_ids ev) (pc_databases cfg)"
  have zs: "\<forall>g \<in> set ?zs. 0 < db_block_size (snd g)"
    using bs by (auto dest: set_zip_rightD)
  obtain failed where judged: "case loaded of Inr f \<Rightarrow> f = failed
        | Inl _ \<Rightarrow> request_load_blocks cd cfg ev = Inr failed"
    and act: "loaded_prefix cd cfg ev failed = Inr (lo_loaded_tokens out)"
    and inv: "range_blocks cd cfg ev (lo_loaded_tokens out) (le_end_load ev) = Inr (map (group_range cd (lo_loaded_tokens out) (le_end_load ev)) ?zs)"
      "lo_invalid out = set (concat (map (group_range cd (lo_loaded_tokens out) (le_end_load ev)) ?zs))"
    and err: "lo_error out = None \<longleftrightarrow> loaded = Inr {}"
    using v by (auto simp: load_verdict_def range_blocks_def Let_def zip_strict_def
        split: sum.splits prod.splits if_splits)
  let ?f = "fold (group_prefix cd ev failed) ?zs (le_end_load ev)"
  have L: "lo_loaded_tokens out = ?f"
    using act fold_prefix_ge[OF cd zs rng(1,2), of failed]
    by (auto simp: loaded_prefix_def zip_strict_def split: if_splits)
  have le: "le_start_load ev \<le> lo_loaded_tokens out" "lo_loaded_tokens out \<le> le_end_load ev"
    unfolding L using fold_prefix_ge[OF cd zs rng] fold_prefix_le[OF cd zs rng(1)] by blast+
  have low: "fst g ! i \<notin> failed"
    if "g \<in> set ?zs" "in_range cd ev g i" "int i * db_block_size (snd g) < lo_loaded_tokens out" for g i
    using fold_prefix_failed[OF cd zs rng(1) that(1,2), of failed "le_end_load ev"] that(3) L by force
  have neg: "b < 0" if "loaded = Inl e" "g \<in> set ?zs" "in_range cd ev g i" "fst g ! i = b" "b \<notin> failed" for e g i b
  proof (rule ccontr)
    assume "\<not> b < 0"
    obtain ids db where g: "g = (ids, db)" by (cases g)
    have p: "0 < db_block_size db" using zs that(2) g by auto
    have r: "i < length ids" "cd (le_start_load ev) (db_block_size db) \<le> int i"
      "int i < cd (le_end_load ev) (db_block_size db)"
      using that(3) p by (simp_all add: in_range_cd[OF cd] g)
    have "b \<in> set (filter (\<lambda>b. b \<ge> 0) (slice_range ids (cd (le_start_load ev) (db_block_size db))
        (min (cd (le_end_load ev) (db_block_size db)) (int (length ids)))))"
      using r that(4) \<open>\<not> b < 0\<close> g
        set_slice_range_nth[OF cdiv_nonneg[OF cd p rng(1)], of "min (cd (le_end_load ev) (db_block_size db)) (int (length ids))" b ids]
      by auto
    then have "b \<in> failed" using judged that(1,2) g
      by (auto simp: request_load_blocks_def zip_strict_def Let_def split: if_splits)
    with that(5) show False by simp
  qed
  have pos: "0 \<le> lo_loaded_tokens out" "0 \<le> le_end_load ev" using le rng by simp_all
  have exact: "b \<in> lo_invalid out \<longleftrightarrow> 0 \<le> b \<and> (\<exists>g \<in> set ?zs. \<exists>i. in_range cd ev g i \<and> fst g ! i = b \<and>
      lo_loaded_tokens out \<le> int i * db_block_size (snd g))" for b
  proof -
    have "b \<in> lo_invalid out \<longleftrightarrow> (\<exists>g \<in> set ?zs. b \<in> set (group_range cd (lo_loaded_tokens out) (le_end_load ev) g))"
      unfolding inv(2) by auto
    also have "\<dots> \<longleftrightarrow> (\<exists>g \<in> set ?zs. 0 \<le> b \<and> (\<exists>i. i < length (fst g) \<and> fst g ! i = b \<and>
        lo_loaded_tokens out \<le> int i * db_block_size (snd g) \<and> int i * db_block_size (snd g) < le_end_load ev))"
      using in_group_range[OF cd _ pos] zs by blast
    also have "\<dots> \<longleftrightarrow> 0 \<le> b \<and> (\<exists>g \<in> set ?zs. \<exists>i. in_range cd ev g i \<and> fst g ! i = b \<and>
        lo_loaded_tokens out \<le> int i * db_block_size (snd g))"
      unfolding in_range_def using le(1) by (meson order.trans)
    finally show ?thesis .
  qed
  have all: "lo_loaded_tokens out = le_end_load ev \<and> lo_invalid out = {}" if "loaded = Inr {}"
  proof -
    have "failed = {}" using judged that by simp
    then have full: "lo_loaded_tokens out = le_end_load ev" using L fold_prefix_empty[OF cd zs rng(1)] by simp
    then have "b \<notin> lo_invalid out" for b unfolding exact in_range_def by force
    with full show ?thesis by blast
  qed
  have "case loaded of Inr failed \<Rightarrow> fst g ! i \<notin> failed | Inl _ \<Rightarrow> fst g ! i < 0"
    if "g \<in> set ?zs" "in_range cd ev g i" "int i * db_block_size (snd g) < lo_loaded_tokens out" for g i
    using low[OF that] neg[OF _ that(1,2) refl] judged by (cases loaded) auto
  with le exact err all show ?thesis by blast
qed

text \<open>
  C2: the verdict of a Store load is sound and exact. The usable prefix lies between the requested
  bounds; no group has a failed block below it, and the blocks reported as invalid are exactly the
  allocated blocks of the range at or above it, so every block whose read failed is reported and no
  block of the usable prefix is. There is no error exactly when nothing failed, and then the whole
  range is usable. After an exception in the task every allocated block of the range counts as failed.
\<close>

theorem load_verdict_sound:
  assumes cd: "ceil_div cd" and bs: "\<forall>db \<in> set (pc_databases cfg). 0 < db_block_size db"
    and rng: "0 \<le> le_start_load ev" "le_start_load ev \<le> le_end_load ev"
    and v: "load_verdict cd cfg ev loaded = Inr out"
  shows "le_start_load ev \<le> lo_loaded_tokens out \<and> lo_loaded_tokens out \<le> le_end_load ev \<and>
    (\<forall>g \<in> set (zip (le_block_ids ev) (pc_databases cfg)). \<forall>i. in_range cd ev g i \<longrightarrow>
       int i * db_block_size (snd g) < lo_loaded_tokens out \<longrightarrow>
       (case loaded of Inr failed \<Rightarrow> fst g ! i \<notin> failed | Inl _ \<Rightarrow> fst g ! i < 0)) \<and>
    (\<forall>b. b \<in> lo_invalid out \<longleftrightarrow> 0 \<le> b \<and> (\<exists>g \<in> set (zip (le_block_ids ev) (pc_databases cfg)). \<exists>i.
       in_range cd ev g i \<and> fst g ! i = b \<and> lo_loaded_tokens out \<le> int i * db_block_size (snd g))) \<and>
    (lo_error out = None \<longleftrightarrow> loaded = Inr {}) \<and>
    (loaded = Inr {} \<longrightarrow> lo_loaded_tokens out = le_end_load ev \<and> lo_invalid out = {})"
  by (rule load_verdict_exact[OF assms])

lemma load_verdict_sound_witness:
  "\<exists>out. load_verdict cdiv_ref ex_pool_cfg (ex_load ''b'') (Inr {5}) = Inr out \<and> lo_loaded_tokens out = 16 \<and>
     5 \<in> lo_invalid out \<and> 4 \<notin> lo_invalid out \<and> lo_error out \<noteq> None"
proof -
  define out where "out = projr (load_verdict cdiv_ref ex_pool_cfg (ex_load ''b'') (Inr {5}))"
  have v: "load_verdict cdiv_ref ex_pool_cfg (ex_load ''b'') (Inr {5}) = Inr out"
    and l: "lo_loaded_tokens out = 16"
    unfolding out_def by code_simp+
  have bs: "\<forall>db \<in> set (pc_databases ex_pool_cfg). 0 < db_block_size db" by code_simp
  have rng: "0 \<le> le_start_load (ex_load ''b'')" "le_start_load (ex_load ''b'') \<le> le_end_load (ex_load ''b'')"
    by code_simp+
  note S = load_verdict_sound[OF ceil_div_ref bs rng v]
  have "(Inr {5} :: int set result) \<noteq> Inr {}" by simp
  then have err: "lo_error out \<noteq> None" using S by meson
  note inv = S[THEN conjunct2, THEN conjunct2, THEN conjunct2, THEN conjunct1, rule_format]
  let ?zs = "zip (le_block_ids (ex_load ''b'')) (pc_databases ex_pool_cfg)"
  have g: "([4, 5], pc_databases ex_pool_cfg ! 0) \<in> set ?zs" by code_simp
  have "in_range cdiv_ref (ex_load ''b'') ([4, 5], pc_databases ex_pool_cfg ! 0) 1"
    "16 = int 1 * db_block_size (pc_databases ex_pool_cfg ! 0)"
    unfolding in_range_def by code_simp+
  then have "5 \<in> lo_invalid out"
    unfolding inv using g l by (intro conjI bexI[OF _ g] exI[of _ 1]) simp_all
  moreover have "4 \<notin> lo_invalid out" unfolding out_def by code_simp
  ultimately show ?thesis using v l err by blast
qed

section \<open>Coalescing saves\<close>

definition token_range_of :: "SaveEvent \<Rightarrow> int set" where
  "token_range_of ev = {se_start_save ev ..< se_end_save ev}"

definition covered :: "SaveEvent list \<Rightarrow> int set" where
  "covered evs = (\<Union>ev \<in> set evs. token_range_of ev)"

definition ready_signals :: "SaveEvent list \<Rightarrow> nat set" where
  "ready_signals evs = (\<Union>ev \<in> set evs. set (signals_of (se_ready_event ev)))"

lemma merge_signals_set: "set (signals_of (merge_signals a b)) = set (signals_of a) \<union> set (signals_of b)"
proof -
  have "set (fold (\<lambda>s acc. if s \<in> set acc then acc else acc @ [s]) xs acc) = set acc \<union> set xs" for xs acc :: "nat list"
    by (induction xs arbitrary: acc) auto
  from this[of "signals_of a @ signals_of b" "[]"] show ?thesis
    unfolding merge_signals_def Let_def
    by (cases "fold (\<lambda>s acc. if s \<in> set acc then acc else acc @ [s]) (signals_of a @ signals_of b) []")
       (auto simp: signals_of_def)
qed

lemma blocks_extend_True:
  "blocks_extend cd stop olds news sizes = Inr True \<Longrightarrow> length news = length olds \<and> length sizes = length olds \<and>
     (\<forall>g < length olds. take (length (olds ! g)) (news ! g) = olds ! g \<and> cd stop (sizes ! g) \<le> int (length (news ! g)))"
proof (induction cd stop olds news sizes rule: blocks_extend.induct)
  case (2 cd stop old olds new news bs bss)
  then show ?case by (auto simp: nth_Cons not_less split: if_splits nat.splits)
qed auto

text \<open>
  C5: coalescing saves loses nothing. When the pool merges a new save into the last pending one, the
  merged save covers exactly the tokens of both, is made of the newer block lists, which extend the
  older ones and reach every block of the range, and waits for every device event of either; when
  the merge is refused both stay queued in order. In every case the pending saves cover exactly the
  tokens accepted so far and at most one event is added.
\<close>

theorem save_coalescing_lossless:
  assumes "enqueue_save cd cfg ev s = Inr s'"
    and "\<forall>e \<in> set (ev # sv_pending s). se_start_save e \<le> se_end_save e"
  shows "covered (sv_pending s') = covered (sv_pending s) \<union> token_range_of ev \<and>
    ready_signals (sv_pending s') = ready_signals (sv_pending s) \<union> set (signals_of (se_ready_event ev)) \<and>
    sv_errors s' = sv_errors s \<and> sv_running s' = sv_running s \<and>
    (sv_pending s' = sv_pending s @ [ev] \<or>
     (\<exists>old m. sv_pending s \<noteq> [] \<and> old = last (sv_pending s) \<and> sv_pending s' = butlast (sv_pending s) @ [m] \<and>
        token_range_of m = token_range_of old \<union> token_range_of ev \<and>
        se_prompt_tokens m = se_prompt_tokens old \<and> se_block_ids m = se_block_ids ev \<and>
        take (length (se_block_hashes old)) (se_block_hashes m) = se_block_hashes old \<and>
        (\<forall>g < length (se_block_ids old). take (length (se_block_ids old ! g)) (se_block_ids m ! g) = se_block_ids old ! g \<and>
           cd (se_end_save m) (db_block_size (pc_databases cfg ! g)) \<le> int (length (se_block_ids m ! g)))))"
proof (cases "sv_pending s = []")
  case True
  then show ?thesis using assms(1) by (auto simp: enqueue_save_def covered_def ready_signals_def)
next
  case False
  define old where "old = last (sv_pending s)"
  have split: "sv_pending s = butlast (sv_pending s) @ [old]" using False by (simp add: old_def)
  have cov: "covered (sv_pending s) = covered (butlast (sv_pending s)) \<union> token_range_of old"
    "ready_signals (sv_pending s) = ready_signals (butlast (sv_pending s)) \<union> set (signals_of (se_ready_event old))"
    by (subst split; simp add: covered_def ready_signals_def Un_commute)+
  let ?sizes = "map db_block_size (pc_databases cfg)"
  obtain r where r: "merge_saves cd ?sizes old ev = Inr r" using assms(1) False by (auto simp: enqueue_save_def old_def split: sum.splits)
  show ?thesis
  proof (cases r)
    case None
    then have "s' = s\<lparr>sv_pending := sv_pending s @ [ev]\<rparr>" using assms(1) False r by (simp add: enqueue_save_def old_def)
    then show ?thesis by (auto simp: covered_def ready_signals_def)
  next
    case (Some m)
    then have s': "s' = s\<lparr>sv_pending := butlast (sv_pending s) @ [m]\<rparr>" using assms(1) False r by (simp add: enqueue_save_def old_def)
    have mm: "m = ev\<lparr>se_start_save := min (se_start_save old) (se_start_save ev),
          se_end_save := max (se_end_save old) (se_end_save ev),
          se_ready_event := merge_signals (se_ready_event old) (se_ready_event ev)\<rparr>"
      and c: "se_prompt_tokens old = se_prompt_tokens ev"
        "max (se_start_save old) (se_start_save ev) \<le> min (se_end_save old) (se_end_save ev)"
        "take (length (se_block_hashes old)) (se_block_hashes ev) = se_block_hashes old"
        "blocks_extend cd (max (se_end_save old) (se_end_save ev)) (se_block_ids old) (se_block_ids ev) ?sizes = Inr True"
      using r Some by (auto simp: merge_saves_def Let_def not_less split: if_splits sum.splits bool.splits)
    have rng: "token_range_of m = token_range_of old \<union> token_range_of ev"
      using c(2) by (auto simp: mm token_range_of_def min_def max_def split: if_splits)
    have sig: "set (signals_of (se_ready_event m)) = set (signals_of (se_ready_event old)) \<union> set (signals_of (se_ready_event ev))"
      by (simp add: mm merge_signals_set)
    note be = blocks_extend_True[OF c(4)]
    have "covered (sv_pending s') = covered (sv_pending s) \<union> token_range_of ev"
      unfolding cov(1) by (simp add: s' covered_def rng Un_ac)
    moreover have "ready_signals (sv_pending s') = ready_signals (sv_pending s) \<union> set (signals_of (se_ready_event ev))"
      unfolding cov(2) by (simp add: s' ready_signals_def sig Un_ac)
    moreover have "\<forall>g < length (se_block_ids old). take (length (se_block_ids old ! g)) (se_block_ids m ! g) = se_block_ids old ! g \<and>
           cd (se_end_save m) (db_block_size (pc_databases cfg ! g)) \<le> int (length (se_block_ids m ! g))"
      using be by (auto simp: mm)
    ultimately show ?thesis using False c rng by (simp add: s' mm old_def)
  qed
qed

lemma save_coalescing_lossless_witness:
  "enqueue_save cdiv_ref ex_pool_cfg ((ex_save ''a'')\<lparr>se_ready_event := Some (Signal 8)\<rparr>)
     ((new_save_state (ex_save ''a''))\<lparr>sv_pending := [(ex_save ''a'')\<lparr>se_start_save := 0, se_end_save := 16\<rparr>]\<rparr>) =
     Inr ((new_save_state (ex_save ''a''))\<lparr>sv_pending := [(ex_save ''a'')\<lparr>se_ready_event := Some (ReadySignals [7, 8])\<rparr>]\<rparr>) \<and>
   covered [(ex_save ''a'')\<lparr>se_ready_event := Some (ReadySignals [7, 8])\<rparr>] = {0..<32}"
proof -
  let ?ev = "(ex_save ''a'')\<lparr>se_ready_event := Some (Signal 8)\<rparr>"
  let ?s = "(new_save_state (ex_save ''a''))\<lparr>sv_pending := [(ex_save ''a'')\<lparr>se_start_save := 0, se_end_save := 16\<rparr>]\<rparr>"
  let ?s' = "(new_save_state (ex_save ''a''))\<lparr>sv_pending := [(ex_save ''a'')\<lparr>se_ready_event := Some (ReadySignals [7, 8])\<rparr>]\<rparr>"
  have e: "enqueue_save cdiv_ref ex_pool_cfg ?ev ?s = Inr ?s'" by code_simp
  have r: "\<forall>e \<in> set (?ev # sv_pending ?s). se_start_save e \<le> se_end_save e" by code_simp
  have "covered (sv_pending ?s') = covered (sv_pending ?s) \<union> token_range_of ?ev"
    using save_coalescing_lossless[OF e r] by blast
  also have "\<dots> = {0..<32}" by (auto simp: covered_def token_range_of_def ex_save_def)
  finally show ?thesis using e by simp
qed

section \<open>What a save leaves in the Store\<close>

text \<open>The chunks of a group that a save selects: what \<open>process_tokens\<close> yields under the mask and the stripe.\<close>

definition save_chunks ::
  "cdiv_fun \<Rightarrow> hash_merge \<Rightarrow> pool_cfg \<Rightarrow> bool list list \<Rightarrow> int \<Rightarrow> SaveEvent \<Rightarrow> nat \<Rightarrow> chunk list result" where
  "save_chunks cd merge cfg masks token_count ev gi =
     (case py_index masks (int gi) of Inl e \<Rightarrow> Inl e
      | Inr m \<Rightarrow> pool_process_tokens cd merge (pc_databases cfg ! gi) token_count (se_block_hashes ev)
                  (se_start_save ev) (Some m) (pc_put_step cfg)
                  ((po_tp_rank (pc_topology cfg) + int gi) mod pc_put_step cfg))"

lemma group_save_items_Inr:
  assumes "group_save_items cd merge cfg masks tc ev gi = Inr items"
  obtains chunks where "save_chunks cd merge cfg masks tc ev gi = Inr chunks"
    and "chunks = [] \<and> items = [] \<or> (\<exists>ids. py_index (se_block_ids ev) (int gi) = Inr ids \<and>
      list_all2 (\<lambda>ch it. item_of cd (pc_databases cfg ! gi) ids ch = Inr it) chunks items)"
  using assms that
  by (auto simp: group_save_items_def save_chunks_def Let_def map_res_Inr_iff split: sum.splits if_splits)

lemma list_all2_in1: "list_all2 P xs ys \<Longrightarrow> x \<in> set xs \<Longrightarrow> \<exists>y \<in> set ys. P x y"
  by (fastforce simp: list_all2_conv_all_nth in_set_conv_nth)

lemma item_of_key: "item_of cd db ids ch = Inr it \<Longrightarrow> fst it = to_string (snd (snd ch))"
  by (auto simp: item_of_def split: sum.splits)

lemma put_missing_ok:
  assumes ok: "sw_result (put_missing exist store_put ev items) = Inr ()"
    and ex: "\<And>ks st. exist ks = Inr st \<Longrightarrow> length st = length ks \<and> (\<forall>i < length ks. st ! i = 1 \<longleftrightarrow> ks ! i \<in> present)"
  shows "sw_put (put_missing exist store_put ev items) = filter (\<lambda>it. fst it \<notin> present) items"
    and "\<exists>it \<in> set items. fst it \<notin> present \<Longrightarrow>
       sw_waited (put_missing exist store_put ev items) = signals_of (se_ready_event ev) \<and>
       (\<exists>r. store_put (map fst (filter (\<lambda>it. fst it \<notin> present) items))
          (map (fst \<circ> snd) (filter (\<lambda>it. fst it \<notin> present) items))
          (map (fst \<circ> snd \<circ> snd) (filter (\<lambda>it. fst it \<notin> present) items)) = Inr r \<and> (\<forall>s \<in> set r. 0 \<le> s))"
proof -
  obtain st where st: "exist (map fst items) = Inr st"
    using ok by (auto simp: put_missing_def no_put_def split: sum.splits)
  note len = ex[OF st, THEN conjunct1, simplified]
  have st_i: "st ! i = 1 \<longleftrightarrow> fst (items ! i) \<in> present" if "i < length items" for i
    using ex[OF st] that by simp
  define missing where "missing = map fst (filter (\<lambda>(i, s). s \<noteq> 1) (List.enumerate 0 st))"
  have m: "missing = filter (\<lambda>i. fst (items ! i) \<notin> present) [0..<length items]"
  proof -
    have E: "List.enumerate 0 st = map (\<lambda>i. (i, st ! i)) [0..<length items]"
      by (intro nth_equalityI) (simp_all add: nth_enumerate_eq len)
    have "missing = filter (\<lambda>i. st ! i \<noteq> 1) [0..<length items]"
      unfolding missing_def E by (simp only: filter_map comp_def case_prod_conv map_map fst_conv list.map_ident)
    also have "\<dots> = filter (\<lambda>i. fst (items ! i) \<notin> present) [0..<length items]"
      by (rule filter_cong[OF refl]) (simp add: st_i)
    finally show ?thesis .
  qed
  have todo: "map (nth items) missing = filter (\<lambda>it. fst it \<notin> present) items"
  proof -
    have "filter (\<lambda>it. fst it \<notin> present) items = filter (\<lambda>it. fst it \<notin> present) (map (nth items) [0..<length items])"
      by (simp add: map_nth)
    then show ?thesis by (simp only: m filter_map comp_def)
  qed
  have bound: "\<not> list_ex (\<lambda>i. length items \<le> i) missing" by (auto simp: m list_ex_iff)
  have eq: "put_missing exist store_put ev items =
      (if missing = [] then no_put (Inr ())
       else (let todo = map (nth items) missing
                   in \<lparr>sw_waited = signals_of (se_ready_event ev), sw_put = todo,
                       sw_result = (case store_put (map fst todo) (map (fst \<circ> snd) todo) (map (fst \<circ> snd \<circ> snd) todo) of
                          Inl e \<Rightarrow> Inl e
                        | Inr result \<Rightarrow> if list_ex (\<lambda>s. s < 0) result
                            then Inl (RuntimeError ''Mooncake Store PUT partially failed'') else Inr ())\<rparr>))"
    using bound by (simp add: put_missing_def st missing_def Let_def)
  show put: "sw_put (put_missing exist store_put ev items) = filter (\<lambda>it. fst it \<notin> present) items"
  proof (cases "missing = []")
    case True
    with todo have "filter (\<lambda>it. fst it \<notin> present) items = []" by simp
    with True show ?thesis by (simp add: eq no_put_def)
  next
    case False
    then show ?thesis by (simp add: eq Let_def todo)
  qed
  show "sw_waited (put_missing exist store_put ev items) = signals_of (se_ready_event ev) \<and>
       (\<exists>r. store_put (map fst (filter (\<lambda>it. fst it \<notin> present) items))
          (map (fst \<circ> snd) (filter (\<lambda>it. fst it \<notin> present) items))
          (map (fst \<circ> snd \<circ> snd) (filter (\<lambda>it. fst it \<notin> present) items)) = Inr r \<and> (\<forall>s \<in> set r. 0 \<le> s))"
    if a: "\<exists>it \<in> set items. fst it \<notin> present"
  proof -
    have "filter (\<lambda>it. fst it \<notin> present) items \<noteq> []" using a by (simp add: filter_empty_conv)
    then have "missing \<noteq> []" using todo by force
    then have "put_missing exist store_put ev items =
      (let todo = filter (\<lambda>it. fst it \<notin> present) items
                   in \<lparr>sw_waited = signals_of (se_ready_event ev), sw_put = todo,
                       sw_result = (case store_put (map fst todo) (map (fst \<circ> snd) todo) (map (fst \<circ> snd \<circ> snd) todo) of
                          Inl e \<Rightarrow> Inl e
                        | Inr result \<Rightarrow> if list_ex (\<lambda>s. s < 0) result
                            then Inl (RuntimeError ''Mooncake Store PUT partially failed'') else Inr ())\<rparr>)"
      by (simp only: eq todo if_False)
    then show ?thesis using ok
      by (simp add: Let_def list_ex_iff not_less split: sum.splits if_splits)
  qed
qed


definition ex_exist :: store_exist where
  "ex_exist ks = Inr (map (\<lambda>_. 0) ks)"

definition ex_put :: store_put where
  "ex_put ks addrs sizes = Inr (map (\<lambda>_. 0) ks)"

definition ex_eff :: save_effect where
  "ex_eff = the (pool_save cdiv_ref ex_pairs full_finder ex_pool_cfg ex_exist ex_put (ex_save ''a''))"

definition ex_masks :: "bool list list" where
  "ex_masks = projr (the (store_masks cdiv_ref ex_pairs full_finder ex_pool_cfg 32 0))"


end
