(* ===== verification/Transfer_Plan.thy ===== *)
theory Transfer_Plan
  imports Protocol
begin

text \<open>
  Models the planning half of \<^verbatim>\<open>mtsc/kv_transfer.py\<close>: the TP ratio, the expansion of
  registered tensors into transfer regions, the plan of one producer-rank to consumer-rank copy,
  region validation, grouping of contiguous blocks, the Ascend topology and the descriptors that
  \<open>_build_transfer_params\<close> hands to the Transfer Engine. The three parallel lists of source
  addresses, destination addresses and sizes are one list of triples. A producer's topology
  (\<open>topo\<close>) is what the code asks of it; on CUDA it comes from vLLM, on Ascend it is
  \<open>npu_topo\<close>. NumPy's index arithmetic is exact here: block IDs are far below \<open>2 ^ 63\<close>.
\<close>

section \<open>TP ratio and regions\<close>

definition get_tp_ratio :: "int \<Rightarrow> int \<Rightarrow> int result" where
  "get_tp_ratio local_tp_size remote_tp_size =
     (if local_tp_size \<ge> remote_tp_size
      then (if remote_tp_size = 0 then Inl ZeroDivisionError
            else if local_tp_size mod remote_tp_size = 0 then Inr (local_tp_size div remote_tp_size)
            else Inl (AssertionMsg (''Local tensor parallel size '' @ int_str local_tp_size
                   @ '' is not divisible by remote tensor parallel size '' @ int_str remote_tp_size @ ''.'')))
      else (if local_tp_size = 0 then Inl ZeroDivisionError
            else if remote_tp_size mod local_tp_size = 0 then Inr (- (remote_tp_size div local_tp_size))
            else Inl (AssertionMsg (''Remote tensor parallel size '' @ int_str remote_tp_size
                   @ '' is not divisible by local tensor parallel size '' @ int_str local_tp_size @ ''.''))))"

record TransferRegion =
  tr_base_addr :: int
  tr_block_len :: int
  tr_kv_block_len :: int

definition expand_region :: "bool \<Rightarrow> int \<times> int \<Rightarrow> TransferRegion list" where
  "expand_region blocks_first bl =
     (let (base_addr, block_len) = bl;
          kv_block_len = (if blocks_first then block_len div 2 else block_len)
      in \<lparr>tr_base_addr = base_addr, tr_block_len = block_len, tr_kv_block_len = kv_block_len\<rparr> #
         (if blocks_first
          then [\<lparr>tr_base_addr = base_addr + kv_block_len, tr_block_len = block_len,
                 tr_kv_block_len = kv_block_len\<rparr>] else []))"

definition expand_transfer_regions :: "int list \<Rightarrow> int list \<Rightarrow> bool \<Rightarrow> TransferRegion list result" where
  "expand_transfer_regions base_addrs block_lens blocks_first =
     (if length base_addrs \<noteq> length block_lens
      then Inl (AssertionMsg (''Mooncake transfer regions require matching numbers of base addresses and block lengths, got ''
             @ int_str (int (length base_addrs)) @ '' and '' @ int_str (int (length block_lens)) @ ''.''))
      else Inr (concat (map (expand_region blocks_first) (zip base_addrs block_lens))))"

section \<open>One producer rank to one consumer rank\<close>

text \<open>\<open>(copy, src_offset, dst_offset, length)\<close>.\<close>

type_synonym sender_plan = "bool \<times> int \<times> int \<times> int"

definition compute_sender_transfer_plan ::
  "int \<Rightarrow> int \<Rightarrow> int \<Rightarrow> int \<Rightarrow> int \<Rightarrow> int \<Rightarrow> bool \<Rightarrow> sender_plan result" where
  "compute_sender_transfer_plan local_tp_rank local_tp_size remote_tp_rank remote_tp_size
       local_kv_block_len remote_kv_block_len producer_cache_replicated =
     (case get_tp_ratio local_tp_size remote_tp_size of Inl e \<Rightarrow> Inl e
      | Inr tp_ratio \<Rightarrow>
          if tp_ratio = 1 then Inr (True, 0, 0, local_kv_block_len)
          else if tp_ratio > 0
          then (if producer_cache_replicated
                then Inr (local_tp_rank mod tp_ratio = 0, 0, 0, local_kv_block_len)
                else Inr (True, 0, (local_tp_rank mod tp_ratio) * local_kv_block_len, local_kv_block_len))
          else if producer_cache_replicated then Inr (True, 0, 0, local_kv_block_len)
          else if tp_ratio = 0 then Inl ZeroDivisionError
          else Inr (True, (remote_tp_rank mod (- tp_ratio)) * remote_kv_block_len, 0, remote_kv_block_len))"

definition can_coalesce_block_transfers :: "int \<Rightarrow> int \<Rightarrow> int \<Rightarrow> int \<Rightarrow> int \<Rightarrow> bool" where
  "can_coalesce_block_transfers local_block_len remote_block_len src_offset dst_offset transfer_len \<longleftrightarrow>
     src_offset = 0 \<and> dst_offset = 0 \<and> transfer_len = local_block_len \<and> transfer_len = remote_block_len"

definition region_mismatch :: "int \<Rightarrow> nat \<times> TransferRegion \<times> TransferRegion \<Rightarrow> string option" where
  "region_mismatch tp_ratio irs =
     (let (idx, lr, rr) = irs; l = tr_kv_block_len lr; r = tr_kv_block_len rr;
          lens = ''local='' @ int_str l @ '', remote='' @ int_str r
      in if tp_ratio = 1
         then (if l \<noteq> r
               then Some (''Mooncake KV region length mismatch for homogeneous TP at region ''
                     @ int_str (int idx) @ '': '' @ lens @ ''.'') else None)
         else if tp_ratio > 0
         then (if r \<noteq> l * tp_ratio
               then Some (''Mooncake destination KV region length does not match the producer TP ratio at region ''
                     @ int_str (int idx) @ '': '' @ lens @ '', tp_ratio='' @ int_str tp_ratio @ ''.'') else None)
         else (if l \<noteq> r * (- tp_ratio)
               then Some (''Mooncake source KV region length does not match the consumer TP ratio at region ''
                     @ int_str (int idx) @ '': '' @ lens @ '', tp_ratio='' @ int_str tp_ratio @ ''.'') else None))"

fun first_some :: "('a \<Rightarrow> 'b option) \<Rightarrow> 'a list \<Rightarrow> 'b option" where
  "first_some f [] = None"
| "first_some f (x # xs) = (case f x of Some y \<Rightarrow> Some y | None \<Rightarrow> first_some f xs)"

definition validate_asymmetric_region_lengths ::
  "TransferRegion list \<Rightarrow> TransferRegion list \<Rightarrow> int \<Rightarrow> int \<Rightarrow> bool \<Rightarrow> string option result" where
  "validate_asymmetric_region_lengths local_regions remote_regions local_tp_size remote_tp_size replicated =
     (if length local_regions \<noteq> length remote_regions
      then Inr (Some ''Mooncake asymmetric TP requires matching KV region counts between producer and consumer.'')
      else if replicated then Inr None
      else (case get_tp_ratio local_tp_size remote_tp_size of Inl e \<Rightarrow> Inl e
            | Inr tp_ratio \<Rightarrow>
                Inr (first_some (region_mismatch tp_ratio)
                       (List.enumerate 0 (zip local_regions remote_regions)))))"

section \<open>Contiguous runs\<close>

text \<open>\<open>np.where(...)[0] + 1\<close>: the positions where either index list jumps; both lists have the
  same length at the only call.\<close>

definition run_breaks :: "int list \<Rightarrow> int list \<Rightarrow> nat list" where
  "run_breaks src dst =
     map Suc (filter (\<lambda>i. src ! Suc i - src ! i \<noteq> 1 \<or> dst ! Suc i - dst ! i \<noteq> 1) [0..<length src - 1])"

text \<open>\<open>np.split(xs, breaks)\<close>, from position \<open>p\<close> on.\<close>

fun np_split :: "'a list \<Rightarrow> nat \<Rightarrow> nat list \<Rightarrow> 'a list list" where
  "np_split xs p [] = [drop p xs]"
| "np_split xs p (b # bs) = take (b - p) (drop p xs) # np_split xs b bs"

definition group_concurrent_contiguous :: "int list \<Rightarrow> int list \<Rightarrow> int list list \<times> int list list" where
  "group_concurrent_contiguous src dst =
     (if src = [] then ([], [])
      else (np_split src 0 (run_breaks src dst), np_split dst 0 (run_breaks src dst)))"

section \<open>Topology\<close>

record npu_topology =
  nt_tp_rank :: int
  nt_tp_size :: int
  nt_block_size :: int
  nt_is_mla :: bool
  nt_total_num_kv_heads :: int

definition local_replicates_kv_cache :: "npu_topology \<Rightarrow> bool" where
  "local_replicates_kv_cache t \<longleftrightarrow> nt_is_mla t \<or> nt_tp_size t > nt_total_num_kv_heads t"

definition handshake_target_ranks :: "npu_topology \<Rightarrow> int \<Rightarrow> int list result" where
  "handshake_target_ranks t remote_tp_size =
     (if nt_tp_size t \<ge> remote_tp_size
      then (if remote_tp_size = 0 then Inl ZeroDivisionError
            else if nt_tp_size t mod remote_tp_size \<noteq> 0
            then Inl (ValueError ''P/D TP sizes must have an integer ratio'')
            else Inr [nt_tp_rank t div (nt_tp_size t div remote_tp_size)])
      else (if nt_tp_size t = 0 then Inl ZeroDivisionError
            else if remote_tp_size mod nt_tp_size t \<noteq> 0
            then Inl (ValueError ''P/D TP sizes must have an integer ratio'')
            else (let ratio = remote_tp_size div nt_tp_size t
                  in Inr (map (\<lambda>offset. nt_tp_rank t * ratio + offset) [0..ratio - 1]))))"

text \<open>What the transfer asks of its topology.\<close>

record topo =
  to_is_mla :: bool
  to_replicates :: bool
  to_virtually_split :: bool
  to_targets :: "int \<Rightarrow> int list result"

definition npu_topo :: "npu_topology \<Rightarrow> topo" where
  "npu_topo t =
     \<lparr>to_is_mla = nt_is_mla t, to_replicates = local_replicates_kv_cache t,
      to_virtually_split = False, to_targets = handshake_target_ranks t\<rparr>"

section \<open>The descriptors of a send\<close>

record transfer_cfg =
  kt_tp_rank :: int
  kt_tp_size :: int
  kt_topo :: topo
  kt_num_blocks :: int
  kt_base_addr :: "int list"
  kt_block_len :: "int list"
  kt_is_npu :: bool
  kt_layout :: string

definition get_transfer_regions :: "transfer_cfg \<Rightarrow> int list \<Rightarrow> int list \<Rightarrow> TransferRegion list result" where
  "get_transfer_regions cfg addresses lengths =
     expand_transfer_regions addresses lengths (to_virtually_split (kt_topo cfg))"

definition prepare_transfer_regions :: "transfer_cfg \<Rightarrow> KVTransferRequest \<Rightarrow> TransferRegion list result" where
  "prepare_transfer_regions cfg request =
     (case get_transfer_regions cfg (kt_base_addr cfg) (kt_block_len cfg) of Inl e \<Rightarrow> Inl e
      | Inr lregions \<Rightarrow>
     (case get_transfer_regions cfg (xr_kv_caches_base_addr request) (xr_block_lens request) of Inl e \<Rightarrow> Inl e
      | Inr rregions \<Rightarrow>
     (case validate_asymmetric_region_lengths lregions rregions (kt_tp_size cfg)
             (xr_remote_tp_size request) (to_replicates (kt_topo cfg)) of Inl e \<Rightarrow> Inl e
      | Inr (Some error) \<Rightarrow> Inl (ValueError error)
      | Inr None \<Rightarrow>
          if kt_is_npu cfg \<and> \<not> to_is_mla (kt_topo cfg) \<and> kt_tp_size cfg \<noteq> xr_remote_tp_size request
             \<and> kt_layout cfg \<noteq> ''HND''
          then Inl (ValueError ''Heterogeneous TP requires HND KV cache layout'')
          else Inr rregions)))"

text \<open>Each destination group takes the last source blocks of its group.\<close>

definition suffix_pairs :: "int list \<times> int list \<Rightarrow> (int \<times> int) list result" where
  "suffix_pairs lr =
     (let (lids, rids) = lr
      in if length lids < length rids then Inl (ValueError ''P has fewer source blocks than D requested'')
         else Inr (zip (if rids \<noteq> [] then slice_from lids (- int (length rids)) else []) rids))"

definition block_pairs :: "block_groups \<Rightarrow> block_groups \<Rightarrow> (int \<times> int) list result" where
  "block_pairs lgroups rgroups =
     (if length lgroups \<noteq> length rgroups then Inl (ValueError ''P/D KV group count mismatch'')
      else (case map_res suffix_pairs (zip lgroups rgroups) of Inl e \<Rightarrow> Inl e
            | Inr pss \<Rightarrow> Inr (filter (\<lambda>(s, d). d \<ge> 0) (concat pss))))"

type_synonym descriptor = "int \<times> int \<times> int"

text \<open>The descriptors of one run of blocks.\<close>

definition run_copies ::
  "TransferRegion \<Rightarrow> TransferRegion \<Rightarrow> int \<times> int \<times> int \<Rightarrow> int list \<times> int list \<Rightarrow> descriptor list" where
  "run_copies lr rr plan run =
     (let (src_offset, dst_offset, len) = plan; (source_run, destination_run) = run
      in if can_coalesce_block_transfers (tr_block_len lr) (tr_block_len rr) src_offset dst_offset len
         then [(tr_base_addr lr + hd source_run * tr_block_len lr,
                tr_base_addr rr + hd destination_run * tr_block_len rr, len * int (length source_run))]
         else map (\<lambda>(s, d). (tr_base_addr lr + s * tr_block_len lr + src_offset,
                             tr_base_addr rr + d * tr_block_len rr + dst_offset, len))
                (zip source_run destination_run))"

definition region_copies ::
  "transfer_cfg \<Rightarrow> KVTransferRequest \<Rightarrow> (int \<times> int) list \<Rightarrow> TransferRegion \<times> TransferRegion \<Rightarrow>
     descriptor list result" where
  "region_copies cfg request blocks lrr =
     (let (lr, rr) = lrr
      in if list_ex (\<lambda>(s, d). s < 0 \<or> s \<ge> kt_num_blocks cfg) blocks
         then Inl (ValueError ''Requested source block is outside registered memory'')
         else (case compute_sender_transfer_plan (kt_tp_rank cfg) (kt_tp_size cfg) (xr_remote_tp_rank request)
                      (xr_remote_tp_size request) (tr_kv_block_len lr) (tr_kv_block_len rr)
                      (to_replicates (kt_topo cfg)) of Inl e \<Rightarrow> Inl e
          | Inr (copy, src_offset, dst_offset, len) \<Rightarrow>
              if \<not> copy then Inr []
              else if \<not> src_offset + len \<le> tr_kv_block_len lr
              then Inl (AssertionMsg ''Computed source transfer region exceeds local KV block size.'')
              else if \<not> dst_offset + len \<le> tr_kv_block_len rr
              then Inl (AssertionMsg ''Computed destination transfer region exceeds remote KV block size.'')
              else (let (sruns, druns) = group_concurrent_contiguous (map fst blocks) (map snd blocks)
                    in Inr (concat (map (run_copies lr rr (src_offset, dst_offset, len)) (zip sruns druns))))))"

text \<open>\<open>zip(..., strict=True)\<close> over the regions raises only after the common part was visited.\<close>

definition build_request_transfer_params ::
  "transfer_cfg \<Rightarrow> string \<Rightarrow> block_groups \<Rightarrow> KVTransferRequest \<Rightarrow> TransferRegion list \<Rightarrow> descriptor list result" where
  "build_request_transfer_params cfg request_id local_block_ids request rregions =
     (case dict_get (xr_req_blocks request) request_id of None \<Rightarrow> Inl (KeyError request_id)
      | Some (_, requested) \<Rightarrow>
     (case block_pairs local_block_ids requested of Inl e \<Rightarrow> Inl e
      | Inr blocks \<Rightarrow>
     (case get_transfer_regions cfg (kt_base_addr cfg) (kt_block_len cfg) of Inl e \<Rightarrow> Inl e
      | Inr lregions \<Rightarrow>
     (case map_res (region_copies cfg request blocks) (zip lregions rregions) of Inl e \<Rightarrow> Inl e
      | Inr css \<Rightarrow> if length lregions \<noteq> length rregions
                    then Inl (ValueError ''zip() argument lengths differ'')
                    else Inr (concat css)))))"

record transfer_params =
  px_copies :: "descriptor list"
  px_err_reqs :: "string list"
  px_err_msg :: "string option"

definition add_request ::
  "transfer_cfg \<Rightarrow> KVTransferRequest \<Rightarrow> TransferRegion list \<Rightarrow> string \<times> block_groups \<Rightarrow>
     transfer_params \<Rightarrow> transfer_params" where
  "add_request cfg request rregions rb px =
     (case build_request_transfer_params cfg (fst rb) (snd rb) request rregions of
        Inl e \<Rightarrow> px\<lparr>px_err_reqs := px_err_reqs px @ [fst rb],
                    px_err_msg := (case px_err_msg px of None \<Rightarrow> Some (exc_text e) | Some m \<Rightarrow> Some m)\<rparr>
      | Inr copies \<Rightarrow> px\<lparr>px_copies := px_copies px @ copies\<rparr>)"

definition build_transfer_params ::
  "transfer_cfg \<Rightarrow> (string \<times> block_groups) list \<Rightarrow> KVTransferRequest \<Rightarrow> TransferRegion list \<Rightarrow> transfer_params" where
  "build_transfer_params cfg ready_reqs request rregions =
     fold (add_request cfg request rregions) ready_reqs
       \<lparr>px_copies = [], px_err_reqs = [], px_err_msg = None\<rparr>"

end
