(* ===== verification/Transfer_Plan_Props.thy ===== *)
theory Transfer_Plan_Props
  imports Transfer_Plan
begin

text \<open>
  What the descriptors of a P/D send copy: contiguous runs lose no block, a request's descriptors
  copy exactly the bytes its block tables and the TP plan ask for, and the producers paired with a
  consumer fill its blocks with the right bytes, each exactly once.
\<close>

section \<open>Contiguous runs\<close>

lemma np_split_pieces:
  "np_split xs p bs = map (\<lambda>(a, b). take (b - a) (drop a xs)) (zip (p # bs) (bs @ [length xs]))"
proof (induction xs p bs rule: np_split.induct)
  case (1 xs p)
  then show ?case by simp
qed simp

lemma concat_np_split:
  "sorted (p # bs) \<Longrightarrow> \<forall>b \<in> set (p # bs). b \<le> length xs \<Longrightarrow> concat (np_split xs p bs) = drop p xs"
proof (induction xs p bs rule: np_split.induct)
  case (2 xs p b bs)
  then have "concat (np_split xs p (b # bs)) = take (b - p) (drop p xs) @ drop b xs" by simp
  also have "drop b xs = drop (b - p) (drop p xs)" using 2(2) by simp
  finally show ?case by (simp only: append_take_drop_id)
qed simp

lemma run_breaks_mem:
  "b \<in> set (run_breaks src dst) \<longleftrightarrow> 0 < b \<and> b < length src \<and>
     (src ! b - src ! (b - 1) \<noteq> 1 \<or> dst ! b - dst ! (b - 1) \<noteq> 1)"
proof (cases b)
  case (Suc i)
  then show ?thesis by (auto simp: run_breaks_def)
qed (auto simp: run_breaks_def)

lemma run_breaks_sorted: "sorted_wrt (<) (0 # run_breaks src dst @ [length src])" if "src \<noteq> []"
proof -
  have "sorted_wrt (<) (map Suc (filter Q [0..<n]))" for Q n
    by (simp add: sorted_wrt_map sorted_wrt_filter)
  then have "sorted_wrt (<) (run_breaks src dst)" by (simp add: run_breaks_def)
  then show ?thesis using that by (auto simp: sorted_wrt_append run_breaks_mem)
qed

lemma consecutive_run:
  fixes xs :: "int list"
  assumes "\<And>i. a < i \<Longrightarrow> i < b \<Longrightarrow> xs ! i - xs ! (i - 1) = 1" and "a + k < b"
  shows "xs ! (a + k) = xs ! a + int k"
  using assms(2)
proof (induction k)
  case (Suc k)
  then show ?case using assms(1)[of "a + Suc k"] by simp
qed simp

text \<open>The boundaries of the runs.\<close>

definition run_bounds :: "int list \<Rightarrow> int list \<Rightarrow> (nat \<times> nat) list" where
  "run_bounds src dst = zip (0 # run_breaks src dst) (run_breaks src dst @ [length src])"

lemma group_runs_pieces:
  assumes "length dst = length src" and "src \<noteq> []"
  shows "group_concurrent_contiguous src dst =
    (map (\<lambda>(a, b). take (b - a) (drop a src)) (run_bounds src dst),
     map (\<lambda>(a, b). take (b - a) (drop a dst)) (run_bounds src dst))"
  using assms by (simp add: group_concurrent_contiguous_def np_split_pieces run_bounds_def)

lemma run_bounds_nth:
  assumes "src \<noteq> []" and "k < length (run_bounds src dst)"
  defines "ps \<equiv> 0 # run_breaks src dst @ [length src]"
  shows "run_bounds src dst ! k = (ps ! k, ps ! Suc k)" and "ps ! k < ps ! Suc k" and "ps ! Suc k \<le> length src"
    and "\<And>i. ps ! k < i \<Longrightarrow> i < ps ! Suc k \<Longrightarrow> i \<notin> set (run_breaks src dst)"
    and "Suc k < length (run_bounds src dst) \<Longrightarrow> ps ! Suc k \<in> set (run_breaks src dst)"
proof -
  have k: "k < Suc (length (run_breaks src dst))" using assms(2) by (simp add: run_bounds_def)
  have s: "sorted_wrt (<) ps" unfolding ps_def by (rule run_breaks_sorted[OF assms(1)])
  show "run_bounds src dst ! k = (ps ! k, ps ! Suc k)"
    using k by (simp add: run_bounds_def ps_def nth_append nth_Cons split: nat.split)
  have lt: "i < j \<Longrightarrow> j < length ps \<Longrightarrow> ps ! i < ps ! j" for i j
    using s sorted_wrt_nth_less by blast
  show "ps ! k < ps ! Suc k" using lt[of k "Suc k"] k by (simp add: ps_def)
  have mem: "\<forall>x \<in> set ps. x \<le> length src" by (auto simp: ps_def run_breaks_mem)
  have "ps ! Suc k \<in> set ps" by (rule nth_mem) (use k in \<open>simp add: ps_def\<close>)
  then show "ps ! Suc k \<le> length src" using mem by blast
  show "i \<notin> set (run_breaks src dst)" if i: "ps ! k < i" "i < ps ! Suc k" for i
  proof
    assume "i \<in> set (run_breaks src dst)"
    then obtain j where j: "j < length ps" "ps ! j = i" unfolding ps_def by (metis in_set_conv_nth Un_iff list.set_intros(2) set_append)
    show False
    proof (cases "j \<le> k")
      case True
      then have "ps ! j \<le> ps ! k" using lt[of j k] k by (cases "j = k") (auto simp: ps_def)
      then show False using i(1) j(2) by simp
    next
      case False
      then have "ps ! Suc k \<le> ps ! j" using lt[of "Suc k" j] j(1) by (cases "j = Suc k") auto
      then show False using i(2) j(2) by simp
    qed
  qed
  show "ps ! Suc k \<in> set (run_breaks src dst)" if "Suc k < length (run_bounds src dst)"
    using that by (simp add: run_bounds_def ps_def nth_append)
qed

lemma contiguous_runs:
  assumes "length dst = length src"
  shows "concat (fst (group_concurrent_contiguous src dst)) = src \<and>
    concat (snd (group_concurrent_contiguous src dst)) = dst \<and>
    list_all2 (\<lambda>s d. s \<noteq> [] \<and> length d = length s \<and>
        (\<forall>i < length s. s ! i = hd s + int i \<and> d ! i = hd d + int i))
      (fst (group_concurrent_contiguous src dst)) (snd (group_concurrent_contiguous src dst)) \<and>
    (\<forall>k. Suc k < length (fst (group_concurrent_contiguous src dst)) \<longrightarrow>
      \<not> (hd (fst (group_concurrent_contiguous src dst) ! Suc k) = last (fst (group_concurrent_contiguous src dst) ! k) + 1 \<and>
         hd (snd (group_concurrent_contiguous src dst) ! Suc k) = last (snd (group_concurrent_contiguous src dst) ! k) + 1))"
proof (cases "src = []")
  case True
  then show ?thesis using assms by (simp add: group_concurrent_contiguous_def)
next
  case False
  let ?B = "run_bounds src dst" and ?ps = "0 # run_breaks src dst @ [length src]"
  let ?piece = "\<lambda>(xs :: int list) (a, b). take (b - a) (drop a xs)"
  note g = group_runs_pieces[OF assms False]
  note nth = run_bounds_nth[OF False, of _ dst]
  have so: "sorted (0 # run_breaks src dst)"
    using run_breaks_sorted[OF False, of dst] by (auto simp: sorted_wrt_append strict_sorted_iff)
  have "concat (np_split xs 0 (run_breaks src dst)) = xs" if "length xs = length src" for xs :: "int list"
    using concat_np_split[OF so, of xs] that by (auto simp: run_breaks_mem less_imp_le)
  then have c: "concat (map (?piece src) ?B) = src" "concat (map (?piece dst) ?B) = dst"
    using assms by (simp_all add: np_split_pieces run_bounds_def)
  have run: "?piece xs (?B ! k) \<noteq> [] \<and> length (?piece xs (?B ! k)) = ?ps ! Suc k - ?ps ! k \<and>
      hd (?piece xs (?B ! k)) = xs ! (?ps ! k) \<and> last (?piece xs (?B ! k)) = xs ! (?ps ! Suc k - 1) \<and>
      (\<forall>i < ?ps ! Suc k - ?ps ! k. ?piece xs (?B ! k) ! i = xs ! (?ps ! k) + int i)"
    if k: "k < length ?B" and xs: "xs = src \<or> xs = dst" for k xs
  proof -
    have l: "length xs = length src" using xs assms by auto
    have bd: "?ps ! k < ?ps ! Suc k" "?ps ! Suc k \<le> length xs" using nth(2,3)[OF k] l by auto
    have step: "xs ! i - xs ! (i - 1) = 1" if "?ps ! k < i" "i < ?ps ! Suc k" for i
      using nth(4)[OF k that] xs that nth(3)[OF k] by (auto simp: run_breaks_mem simp del: nth_Cons_Suc)
    have vals: "\<forall>i < ?ps ! Suc k - ?ps ! k. ?piece xs (?B ! k) ! i = xs ! (?ps ! k) + int i"
      using consecutive_run[of "?ps ! k" "?ps ! Suc k" xs, OF step] bd
      by (simp add: nth(1)[OF k] del: nth_Cons_Suc)
    show ?thesis using bd vals
      by (simp add: nth(1)[OF k] hd_drop_conv_nth last_conv_nth del: nth_Cons_Suc)
  qed
  have "\<not> (hd (map (?piece src) ?B ! Suc k) = last (map (?piece src) ?B ! k) + 1 \<and>
           hd (map (?piece dst) ?B ! Suc k) = last (map (?piece dst) ?B ! k) + 1)" if k: "Suc k < length ?B" for k
    using run[OF k, of src] run[OF k, of dst] run[of k src] run[of k dst] nth(5)[OF _ k] k
    by (auto simp: run_breaks_mem simp del: nth_Cons_Suc)
  moreover have "list_all2 (\<lambda>s d. s \<noteq> [] \<and> length d = length s \<and>
        (\<forall>i < length s. s ! i = hd s + int i \<and> d ! i = hd d + int i)) (map (?piece src) ?B) (map (?piece dst) ?B)"
    using run[of _ src] run[of _ dst] by (simp add: list_all2_conv_all_nth del: nth_Cons_Suc)
  ultimately show ?thesis unfolding g fst_conv snd_conv using c by (simp del: nth_Cons_Suc)
qed

text \<open>
  grouping into contiguous runs loses and reorders nothing. The runs, put together, are the two
  index lists; each run is non-empty, as long on both sides, and advances by one block on both sides
  together; and runs are maximal, so no two neighbours could be one copy.
\<close>

theorem contiguous_runs_exact:
  assumes "length dst = length src"
  shows "concat (fst (group_concurrent_contiguous src dst)) = src \<and>
    concat (snd (group_concurrent_contiguous src dst)) = dst \<and>
    list_all2 (\<lambda>s d. s \<noteq> [] \<and> length d = length s \<and>
        (\<forall>i < length s. s ! i = hd s + int i \<and> d ! i = hd d + int i))
      (fst (group_concurrent_contiguous src dst)) (snd (group_concurrent_contiguous src dst)) \<and>
    (\<forall>k. Suc k < length (fst (group_concurrent_contiguous src dst)) \<longrightarrow>
      \<not> (hd (fst (group_concurrent_contiguous src dst) ! Suc k) = last (fst (group_concurrent_contiguous src dst) ! k) + 1 \<and>
         hd (snd (group_concurrent_contiguous src dst) ! Suc k) = last (snd (group_concurrent_contiguous src dst) ! k) + 1))"
  by (rule contiguous_runs[OF assms])

lemma contiguous_runs_exact_witness:
  "group_concurrent_contiguous [3, 4, 5, 9] [7, 8, 2, 3] = ([[3, 4], [5], [9]], [[7, 8], [2], [3]]) \<and>
   concat (fst (group_concurrent_contiguous [3, 4, 5, 9] [7, 8, 2, 3])) = [3, 4, 5, 9]"
proof -
  have "group_concurrent_contiguous [3, 4, 5, 9] [7, 8, 2, 3] = ([[3, 4], [5], [9]], [[7, 8], [2], [3]])"
    by code_simp
  with contiguous_runs_exact[of "[7, 8, 2, 3]" "[3, 4, 5, 9]"] show ?thesis by simp
qed

section \<open>The bytes a descriptor list copies\<close>

text \<open>A pair of destination and source address for every byte.\<close>

definition bytes_of :: "descriptor list \<Rightarrow> (int \<times> int) set" where
  "bytes_of cs = (\<Union>(s, d, n) \<in> set cs. (\<lambda>i. (d + i, s + i)) ` {0..<n})"

definition block_bytes :: "TransferRegion \<Rightarrow> TransferRegion \<Rightarrow> int \<times> int \<times> int \<Rightarrow> int \<times> int \<Rightarrow> (int \<times> int) set" where
  "block_bytes lr rr plan sd =
     (let (src_offset, dst_offset, len) = plan; (s, d) = sd
      in (\<lambda>i. (tr_base_addr rr + d * tr_block_len rr + dst_offset + i,
               tr_base_addr lr + s * tr_block_len lr + src_offset + i)) ` {0..<len})"

lemma bytes_of_append [simp]: "bytes_of (cs @ ds) = bytes_of cs \<union> bytes_of ds"
  by (auto simp: bytes_of_def)

lemma bytes_of_concat: "bytes_of (concat css) = (\<Union>cs \<in> set css. bytes_of cs)"
  by (induction css) (auto simp: bytes_of_def)

lemma bex_set_nth: "(\<exists>x \<in> set xs. P x) \<longleftrightarrow> (\<exists>i < length xs. P (xs ! i))"
  by (metis in_set_conv_nth)

lemma in_bytes_of: "(x, y) \<in> bytes_of cs \<longleftrightarrow> (\<exists>s d n i. (s, d, n) \<in> set cs \<and> 0 \<le> i \<and> i < n \<and> x = d + i \<and> y = s + i)"
  by (force simp: bytes_of_def)

text \<open>Splitting a long copy into blocks of \<open>len\<close> bytes.\<close>

lemma coalesced_bytes:
  fixes len :: int
  assumes "0 < len"
  shows "(\<lambda>i. (D + i, S + i)) ` {0..<len * int n} =
    (\<Union>k < n. (\<lambda>i. (D + int k * len + i, S + int k * len + i)) ` {0..<len})"
proof (intro equalityI subsetI)
  fix p assume "p \<in> (\<lambda>i. (D + i, S + i)) ` {0..<len * int n}"
  then obtain i where i: "0 \<le> i" "i < len * int n" "p = (D + i, S + i)" by auto
  define k where "k = nat (i div len)"
  have dm: "int k * len + i mod len = i" using i(1) assms by (simp add: k_def pos_imp_zdiv_nonneg_iff)
  have "int k * len \<le> i" using dm pos_mod_sign[OF assms, of i] by linarith
  then have "int k * len < int n * len" using i(2) by (simp add: mult.commute)
  then have "k < n" using assms by simp
  moreover have "p = (D + int k * len + i mod len, S + int k * len + i mod len)" using i(3) dm by simp
  moreover have "i mod len \<in> {0..<len}" using assms by simp
  ultimately show "p \<in> (\<Union>k < n. (\<lambda>i. (D + int k * len + i, S + int k * len + i)) ` {0..<len})" by blast
next
  fix p assume "p \<in> (\<Union>k < n. (\<lambda>i. (D + int k * len + i, S + int k * len + i)) ` {0..<len})"
  then obtain k i where k: "k < n" "0 \<le> i" "i < len" "p = (D + (int k * len + i), S + (int k * len + i))" by auto
  have "int k * len + i < (int k + 1) * len" using k(3) by (simp add: distrib_right)
  also have "\<dots> \<le> int n * len" using k(1) assms by (intro mult_right_mono) simp_all
  finally have "int k * len + i < len * int n" by (simp add: mult.commute)
  moreover have "0 \<le> int k * len + i" using k(2) assms by simp
  ultimately show "p \<in> (\<lambda>i. (D + i, S + i)) ` {0..<len * int n}" using k(4) by (intro image_eqI[of _ _ "int k * len + i"]) auto
qed

lemma run_copies_bytes:
  assumes "length ds = length ss" and "ss \<noteq> []"
    and "\<forall>i < length ss. ss ! i = hd ss + int i \<and> ds ! i = hd ds + int i"
  shows "bytes_of (run_copies lr rr plan (ss, ds)) = (\<Union>sd \<in> set (zip ss ds). block_bytes lr rr plan sd)"
proof -
  obtain so d len where plan: "plan = (so, d, len)" by (cases plan)
  show ?thesis
  proof (cases "can_coalesce_block_transfers (tr_block_len lr) (tr_block_len rr) so d len")
    case False
    then show ?thesis by (auto simp: run_copies_def plan bytes_of_def block_bytes_def)
  next
    case True
    then have c: "so = 0" "d = 0" "tr_block_len lr = len" "tr_block_len rr = len"
      by (auto simp: can_coalesce_block_transfers_def)
    have b: "bytes_of (run_copies lr rr plan (ss, ds)) =
        (\<lambda>i. (tr_base_addr rr + hd ds * len + i, tr_base_addr lr + hd ss * len + i)) ` {0..<len * int (length ss)}"
      using True c by (simp add: run_copies_def plan bytes_of_def)
    have z: "set (zip ss ds) = (\<lambda>k. (hd ss + int k, hd ds + int k)) ` {..<length ss}"
      using assms(1,3) by (force simp: set_zip)
    have r: "(\<Union>sd \<in> set (zip ss ds). block_bytes lr rr plan sd) =
        (\<Union>k < length ss. (\<lambda>i. (tr_base_addr rr + hd ds * len + int k * len + i,
                                tr_base_addr lr + hd ss * len + int k * len + i)) ` {0..<len})"
      unfolding z by (simp add: block_bytes_def plan c distrib_right add.assoc)
    show ?thesis
    proof (cases "0 < len")
      case True
      show ?thesis unfolding b r by (rule coalesced_bytes[OF True])
    next
      case False
      then have "len * int (length ss) \<le> 0" by (simp add: mult_nonpos_nonneg)
      with False show ?thesis unfolding b r by simp
    qed
  qed
qed

text \<open>Coalescing does not change what is copied: a region's descriptors copy exactly the planned
  bytes of every block pair.\<close>

lemma region_copies_bytes:
  assumes "region_copies cfg request blocks (lr, rr) = Inr cs"
  shows "\<exists>copy so d len. compute_sender_transfer_plan (kt_tp_rank cfg) (kt_tp_size cfg) (xr_remote_tp_rank request)
        (xr_remote_tp_size request) (tr_kv_block_len lr) (tr_kv_block_len rr) (to_replicates (kt_topo cfg)) = Inr (copy, so, d, len) \<and>
      (copy \<longrightarrow> so + len \<le> tr_kv_block_len lr \<and> d + len \<le> tr_kv_block_len rr) \<and>
      (\<forall>(s, b) \<in> set blocks. 0 \<le> s \<and> s < kt_num_blocks cfg) \<and>
      bytes_of cs = (if copy then \<Union>sd \<in> set blocks. block_bytes lr rr (so, d, len) sd else {})"
proof -
  obtain copy so d len where plan: "compute_sender_transfer_plan (kt_tp_rank cfg) (kt_tp_size cfg) (xr_remote_tp_rank request)
        (xr_remote_tp_size request) (tr_kv_block_len lr) (tr_kv_block_len rr) (to_replicates (kt_topo cfg)) = Inr (copy, so, d, len)"
    using assms by (auto simp: region_copies_def split: if_splits sum.splits)
  have blocks: "\<forall>(s, b) \<in> set blocks. 0 \<le> s \<and> s < kt_num_blocks cfg"
    using assms by (auto simp: region_copies_def list_ex_iff not_le not_less split: if_splits)
  show ?thesis
  proof (cases copy)
    case False
    then have "cs = []" using assms plan by (simp add: region_copies_def split: if_splits)
    then show ?thesis using plan blocks False by (auto simp: bytes_of_def)
  next
    case True
    define src dst where "src = map fst blocks" and "dst = map snd blocks"
    obtain sr dr where sr: "group_concurrent_contiguous src dst = (sr, dr)" by (cases "group_concurrent_contiguous src dst")
    have bd: "so + len \<le> tr_kv_block_len lr" "d + len \<le> tr_kv_block_len rr"
      and cs: "cs = concat (map (run_copies lr rr (so, d, len)) (zip sr dr))"
      using assms plan True sr by (auto simp: region_copies_def src_def dst_def split: if_splits)
    have l: "length dst = length src" by (simp add: src_def dst_def)
    note runs = contiguous_runs[OF l, unfolded sr fst_conv snd_conv]
    have pieces: "list_all2 (\<lambda>s d. s \<noteq> [] \<and> length d = length s \<and>
        (\<forall>i < length s. s ! i = hd s + int i \<and> d ! i = hd d + int i)) sr dr" using runs by blast
    have "zip src dst = zip (concat sr) (concat dr)" using runs by simp
    also have "\<dots> = concat (map (\<lambda>(x, y). zip x y) (zip sr dr))"
      using pieces by (induction rule: list_all2_induct) (auto simp: zip_append)
    finally have z: "blocks = concat (map (\<lambda>(x, y). zip x y) (zip sr dr))"
      by (simp add: src_def dst_def zip_map_fst_snd)
    have "bytes_of (run_copies lr rr (so, d, len) r) = (\<Union>sd \<in> set ((\<lambda>(x, y). zip x y) r). block_bytes lr rr (so, d, len) sd)"
      if "r \<in> set (zip sr dr)" for r
    proof -
      obtain x y where r: "r = (x, y)" by (cases r)
      have h: "x \<noteq> []" "length y = length x" "\<forall>i < length x. x ! i = hd x + int i \<and> y ! i = hd y + int i"
        using pieces that[unfolded r] by (auto simp: list_all2_iff)
      show ?thesis unfolding r prod.case by (rule run_copies_bytes[OF h(2,1,3)])
    qed
    note each = this
    have sb: "set blocks = (\<Union>r \<in> set (zip sr dr). set ((\<lambda>(x, y). zip x y) r))"
      by (subst z) (simp only: set_concat set_map image_image)
    have "bytes_of cs = (\<Union>r \<in> set (zip sr dr). bytes_of (run_copies lr rr (so, d, len) r))"
      unfolding cs bytes_of_concat by (simp only: set_map image_image)
    also have "\<dots> = (\<Union>r \<in> set (zip sr dr). \<Union>sd \<in> set ((\<lambda>(x, y). zip x y) r). block_bytes lr rr (so, d, len) sd)"
      by (rule SUP_cong[OF refl each])
    also have "\<dots> = (\<Union>sd \<in> set blocks. block_bytes lr rr (so, d, len) sd)"
      unfolding sb by (simp only: UN_UN_flatten)
    finally have "bytes_of cs = (\<Union>sd \<in> set blocks. block_bytes lr rr (so, d, len) sd)" .
    then show ?thesis using plan blocks True bd by auto
  qed
qed

section \<open>A request's descriptors\<close>

text \<open>The block pairs a request asks for: destination blocks with a non-negative ID take the blocks
  at the end of the source table, position by position.\<close>

definition requested_pairs :: "block_groups \<Rightarrow> block_groups \<Rightarrow> (int \<times> int) set" where
  "requested_pairs lids rids =
     {(lids ! g ! (length (lids ! g) - length (rids ! g) + j), rids ! g ! j) | g j.
        g < length rids \<and> j < length (rids ! g) \<and> 0 \<le> rids ! g ! j}"

lemma suffix_pairs_Inr:
  "suffix_pairs (l, r) = Inr ps \<longleftrightarrow> length r \<le> length l \<and> ps = zip (drop (length l - length r) l) r"
  by (cases "r = []") (auto simp: suffix_pairs_def slice_simps)

lemma block_pairs_set:
  assumes "block_pairs lids rids = Inr blocks"
  shows "length lids = length rids \<and> (\<forall>g < length rids. length (rids ! g) \<le> length (lids ! g)) \<and>
    set blocks = requested_pairs lids rids"
proof -
  obtain pss where l: "length lids = length rids" and m: "map_res suffix_pairs (zip lids rids) = Inr pss"
    and b: "blocks = filter (\<lambda>(s, d). d \<ge> 0) (concat pss)"
    using assms by (auto simp: block_pairs_def split: if_splits sum.splits)
  have lp: "length pss = length rids" using m l by (auto simp: map_res_Inr_iff dest: list_all2_lengthD)
  have g: "length (rids ! g) \<le> length (lids ! g)"
    "pss ! g = zip (drop (length (lids ! g) - length (rids ! g)) (lids ! g)) (rids ! g)" if "g < length rids" for g
    using m that l by (auto simp: map_res_Inr_iff list_all2_conv_all_nth suffix_pairs_Inr)
  have "(s, d) \<in> set (concat pss) \<longleftrightarrow> (\<exists>g j. g < length rids \<and> j < length (rids ! g) \<and>
      s = lids ! g ! (length (lids ! g) - length (rids ! g) + j) \<and> d = rids ! g ! j)" for s d
  proof -
    have "(s, d) \<in> set (concat pss) \<longleftrightarrow> (\<exists>g < length rids. (s, d) \<in> set (pss ! g))"
      by (auto simp: in_set_conv_nth[of _ pss] lp) (metis nth_mem lp)
    also have "\<dots> \<longleftrightarrow> (\<exists>g < length rids. \<exists>j < length (rids ! g).
        s = lids ! g ! (length (lids ! g) - length (rids ! g) + j) \<and> d = rids ! g ! j)"
      using g by (intro ex_cong1 conj_cong refl) (auto simp: set_zip)
    finally show ?thesis by blast
  qed
  note mem = this
  have "p \<in> set blocks \<longleftrightarrow> p \<in> requested_pairs lids rids" for p
  proof -
    obtain s d where p: "p = (s, d)" by (cases p)
    have "p \<in> set blocks \<longleftrightarrow> 0 \<le> d \<and> (s, d) \<in> set (concat pss)" by (auto simp: b p)
    also have "\<dots> \<longleftrightarrow> p \<in> requested_pairs lids rids" unfolding mem p requested_pairs_def by blast
    finally show ?thesis .
  qed
  then have "set blocks = requested_pairs lids rids" by blast
  with l g(1) show ?thesis by blast
qed

lemma plan_offsets:
  assumes "compute_sender_transfer_plan lr ls rr rs lk rk rep = Inr (copy, so, d, len)" and "0 < len"
  shows "0 \<le> so" and "0 \<le> d"
proof -
  obtain t where t: "get_tp_ratio ls rs = Inr t"
    using assms(1) by (auto simp: compute_sender_transfer_plan_def split: sum.splits)
  have "0 \<le> lr mod t" if "t > 0" using that by simp
  moreover have "0 \<le> rr mod (- t)" if "t < 0" using that by simp
  ultimately show "0 \<le> so" "0 \<le> d"
    using assms t by (auto simp: compute_sender_transfer_plan_def not_less split: if_splits)
qed

text \<open>The plan that the code computes for a pair of regions.\<close>

definition plan_for :: "transfer_cfg \<Rightarrow> KVTransferRequest \<Rightarrow> TransferRegion \<Rightarrow> TransferRegion \<Rightarrow> sender_plan result" where
  "plan_for cfg request lr rr =
     compute_sender_transfer_plan (kt_tp_rank cfg) (kt_tp_size cfg) (xr_remote_tp_rank request)
       (xr_remote_tp_size request) (tr_kv_block_len lr) (tr_kv_block_len rr) (to_replicates (kt_topo cfg))"

lemma request_copies:
  assumes "build_request_transfer_params cfg rid lids request rregions = Inr cs"
  shows "\<exists>tid rids lregions. dict_get (xr_req_blocks request) rid = Some (tid, rids) \<and>
    get_transfer_regions cfg (kt_base_addr cfg) (kt_block_len cfg) = Inr lregions \<and>
    length lregions = length rregions \<and>
    bytes_of cs = {xy. \<exists>k < length rregions. \<exists>so d len. \<exists>sd \<in> requested_pairs lids rids.
        plan_for cfg request (lregions ! k) (rregions ! k) = Inr (True, so, d, len) \<and>
        xy \<in> block_bytes (lregions ! k) (rregions ! k) (so, d, len) sd} \<and>
    (\<forall>(x, y) \<in> bytes_of cs. \<exists>k < length rregions. \<exists>s b. (s, b) \<in> requested_pairs lids rids \<and>
        0 \<le> s \<and> s < kt_num_blocks cfg \<and>
        tr_base_addr (lregions ! k) + s * tr_block_len (lregions ! k) \<le> y \<and>
        y < tr_base_addr (lregions ! k) + s * tr_block_len (lregions ! k) + tr_kv_block_len (lregions ! k) \<and>
        tr_base_addr (rregions ! k) + b * tr_block_len (rregions ! k) \<le> x \<and>
        x < tr_base_addr (rregions ! k) + b * tr_block_len (rregions ! k) + tr_kv_block_len (rregions ! k))"
proof -
  obtain tid rids blocks lregions css where get: "dict_get (xr_req_blocks request) rid = Some (tid, rids)"
    and bp: "block_pairs lids rids = Inr blocks"
    and lr: "get_transfer_regions cfg (kt_base_addr cfg) (kt_block_len cfg) = Inr lregions"
    and m: "map_res (region_copies cfg request blocks) (zip lregions rregions) = Inr css"
    and len: "length lregions = length rregions" and cs: "cs = concat css"
    using assms by (auto simp: build_request_transfer_params_def split: option.splits sum.splits if_splits)
  note pairs = block_pairs_set[OF bp]
  have lc: "length css = length rregions" using m len by (auto simp: map_res_Inr_iff dest: list_all2_lengthD)
  have reg: "\<exists>copy so d n. plan_for cfg request (lregions ! k) (rregions ! k) = Inr (copy, so, d, n) \<and>
      (copy \<longrightarrow> so + n \<le> tr_kv_block_len (lregions ! k) \<and> d + n \<le> tr_kv_block_len (rregions ! k)) \<and>
      (\<forall>(s, b) \<in> set blocks. 0 \<le> s \<and> s < kt_num_blocks cfg) \<and>
      bytes_of (css ! k) = (if copy then \<Union>sd \<in> set blocks. block_bytes (lregions ! k) (rregions ! k) (so, d, n) sd else {})"
    if k: "k < length rregions" for k
  proof -
    have "region_copies cfg request blocks (lregions ! k, rregions ! k) = Inr (css ! k)"
      using m k len by (auto simp: map_res_Inr_iff list_all2_conv_all_nth)
    from region_copies_bytes[OF this] show ?thesis by (simp add: plan_for_def)
  qed
  have inb: "xy \<in> bytes_of cs \<longleftrightarrow> (\<exists>k < length rregions. xy \<in> bytes_of (css ! k))" for xy
    unfolding cs bytes_of_concat by (simp add: lc[symmetric] all_set_conv_all_nth bex_set_nth)
  have mem: "xy \<in> bytes_of (css ! k) \<longleftrightarrow> (\<exists>so d n. \<exists>sd \<in> requested_pairs lids rids.
      plan_for cfg request (lregions ! k) (rregions ! k) = Inr (True, so, d, n) \<and>
      xy \<in> block_bytes (lregions ! k) (rregions ! k) (so, d, n) sd)" if k: "k < length rregions" for k xy
    using reg[OF k] pairs by (elim exE conjE) auto
  have eq: "bytes_of cs = {xy. \<exists>k < length rregions. \<exists>so d n. \<exists>sd \<in> requested_pairs lids rids.
        plan_for cfg request (lregions ! k) (rregions ! k) = Inr (True, so, d, n) \<and>
        xy \<in> block_bytes (lregions ! k) (rregions ! k) (so, d, n) sd}"
    using inb mem by blast
  have bnd: "\<exists>k < length rregions. \<exists>s b. (s, b) \<in> requested_pairs lids rids \<and>
        0 \<le> s \<and> s < kt_num_blocks cfg \<and>
        tr_base_addr (lregions ! k) + s * tr_block_len (lregions ! k) \<le> y \<and>
        y < tr_base_addr (lregions ! k) + s * tr_block_len (lregions ! k) + tr_kv_block_len (lregions ! k) \<and>
        tr_base_addr (rregions ! k) + b * tr_block_len (rregions ! k) \<le> x \<and>
        x < tr_base_addr (rregions ! k) + b * tr_block_len (rregions ! k) + tr_kv_block_len (rregions ! k)"
    if xy: "(x, y) \<in> bytes_of cs" for x y
  proof -
    obtain k so d n s b where k: "k < length rregions" and sd: "(s, b) \<in> requested_pairs lids rids"
      and plan: "plan_for cfg request (lregions ! k) (rregions ! k) = Inr (True, so, d, n)"
      and bb: "(x, y) \<in> block_bytes (lregions ! k) (rregions ! k) (so, d, n) (s, b)"
      using xy unfolding eq by auto
    obtain i where i: "0 \<le> i" "i < n" "x = tr_base_addr (rregions ! k) + b * tr_block_len (rregions ! k) + d + i"
      "y = tr_base_addr (lregions ! k) + s * tr_block_len (lregions ! k) + so + i"
      using bb by (auto simp: block_bytes_def)
    have off: "0 \<le> so" "0 \<le> d" using plan_offsets[OF plan[unfolded plan_for_def]] i by auto
    have le: "so + n \<le> tr_kv_block_len (lregions ! k)" "d + n \<le> tr_kv_block_len (rregions ! k)"
      and s: "0 \<le> s \<and> s < kt_num_blocks cfg"
      using reg[OF k] plan sd pairs by auto
    show ?thesis using k sd s off le i by (intro exI[of _ k] exI[of _ s] exI[of _ b] conjI) auto
  qed
  show ?thesis using get lr len eq bnd by blast
qed

text \<open>
  C26: the descriptors built for a request copy exactly what the request asks for, whatever runs were
  coalesced: in every pair of regions and for every requested pair of blocks, the bytes that the TP
  plan selects, from the block at the same position counted from the end of the source table. No byte
  is read outside a registered source block or written outside the destination's part of a requested
  block, and no destination block with a negative ID is written.
\<close>

theorem request_copies_exact:
  assumes "build_request_transfer_params cfg rid lids request rregions = Inr cs"
  shows "\<exists>tid rids lregions. dict_get (xr_req_blocks request) rid = Some (tid, rids) \<and>
    get_transfer_regions cfg (kt_base_addr cfg) (kt_block_len cfg) = Inr lregions \<and>
    length lregions = length rregions \<and>
    bytes_of cs = {xy. \<exists>k < length rregions. \<exists>so d len. \<exists>sd \<in> requested_pairs lids rids.
        plan_for cfg request (lregions ! k) (rregions ! k) = Inr (True, so, d, len) \<and>
        xy \<in> block_bytes (lregions ! k) (rregions ! k) (so, d, len) sd} \<and>
    (\<forall>(x, y) \<in> bytes_of cs. \<exists>k < length rregions. \<exists>s b. (s, b) \<in> requested_pairs lids rids \<and>
        0 \<le> s \<and> s < kt_num_blocks cfg \<and>
        tr_base_addr (lregions ! k) + s * tr_block_len (lregions ! k) \<le> y \<and>
        y < tr_base_addr (lregions ! k) + s * tr_block_len (lregions ! k) + tr_kv_block_len (lregions ! k) \<and>
        tr_base_addr (rregions ! k) + b * tr_block_len (rregions ! k) \<le> x \<and>
        x < tr_base_addr (rregions ! k) + b * tr_block_len (rregions ! k) + tr_kv_block_len (rregions ! k))"
  using assms by (rule request_copies)

lemma request_copies_exact_witness:
  "\<exists>cfg request cs. build_request_transfer_params cfg ''d'' [[4, 5, 6]] request
       [\<lparr>tr_base_addr = 2000, tr_block_len = 64, tr_kv_block_len = 64\<rparr>] = Inr cs \<and>
     cs = [(1000 + 5 * 32, 2000 + 8 * 64 + 32, 32), (1000 + 6 * 32, 2000 + 9 * 64 + 32, 32)] \<and>
     (2000 + 8 * 64 + 32, 1000 + 5 * 32) \<in> bytes_of cs \<and>
     (\<forall>(x, y) \<in> bytes_of cs. 1000 \<le> y \<and> y < 1000 + 10 * 32)"
proof -
  define cfg where "cfg = \<lparr>kt_tp_rank = 1, kt_tp_size = 2,
      kt_topo = npu_topo \<lparr>nt_tp_rank = 1, nt_tp_size = 2, nt_block_size = 16, nt_is_mla = False, nt_total_num_kv_heads = 8\<rparr>,
      kt_num_blocks = 10, kt_base_addr = [1000], kt_block_len = [32], kt_is_npu = True, kt_layout = ''HND''\<rparr>"
  define request where "request = \<lparr>xr_remote_hostname = ''h'', xr_remote_port = 1, xr_remote_tp_size = 1,
      xr_remote_tp_rank = 0, xr_req_blocks = [(''d'', (''x'', [[8, 9]]))], xr_kv_caches_base_addr = [2000],
      xr_block_lens = [64]\<rparr>"
  define cs where "cs = [(1000 + 5 * 32, 2000 + 8 * 64 + 32, 32), (1000 + 6 * 32, 2000 + 9 * 64 + 32, 32) :: descriptor]"
  define rr where "rr = [\<lparr>tr_base_addr = 2000, tr_block_len = 64, tr_kv_block_len = 64\<rparr>]"
  have b: "build_request_transfer_params cfg ''d'' [[4, 5, 6]] request rr = Inr cs"
    unfolding cfg_def request_def cs_def rr_def by code_simp
  obtain lregions where l: "get_transfer_regions cfg (kt_base_addr cfg) (kt_block_len cfg) = Inr lregions"
    and C: "\<forall>(x, y) \<in> bytes_of cs. \<exists>k < length rr. \<exists>s b. (s, b) \<in> requested_pairs [[4, 5, 6]]
        (snd (the (dict_get (xr_req_blocks request) ''d''))) \<and> 0 \<le> s \<and> s < kt_num_blocks cfg \<and>
        tr_base_addr (lregions ! k) + s * tr_block_len (lregions ! k) \<le> y \<and>
        y < tr_base_addr (lregions ! k) + s * tr_block_len (lregions ! k) + tr_kv_block_len (lregions ! k) \<and>
        tr_base_addr (rr ! k) + b * tr_block_len (rr ! k) \<le> x \<and>
        x < tr_base_addr (rr ! k) + b * tr_block_len (rr ! k) + tr_kv_block_len (rr ! k)"
    using request_copies_exact[OF b] by (elim exE conjE) (simp only: option.sel snd_conv)
  have r: "\<exists>s. 0 \<le> s \<and> s < 10 \<and> tr_base_addr (lregions ! 0) + s * tr_block_len (lregions ! 0) \<le> y \<and>
        y < tr_base_addr (lregions ! 0) + s * tr_block_len (lregions ! 0) + tr_kv_block_len (lregions ! 0)"
    if "(x, y) \<in> bytes_of cs" for x y
  proof -
    from C that obtain k s where "k < length rr" "0 \<le> s" "s < kt_num_blocks cfg"
      "tr_base_addr (lregions ! k) + s * tr_block_len (lregions ! k) \<le> y"
      "y < tr_base_addr (lregions ! k) + s * tr_block_len (lregions ! k) + tr_kv_block_len (lregions ! k)" by blast
    then show ?thesis by (simp add: rr_def cfg_def) blast
  qed
  have lr: "lregions = [\<lparr>tr_base_addr = 1000, tr_block_len = 32, tr_kv_block_len = 32\<rparr>]"
    using l by (simp add: cfg_def get_transfer_regions_def npu_topo_def expand_transfer_regions_def expand_region_def)
  have "\<forall>(x, y) \<in> bytes_of cs. 1000 \<le> y \<and> y < 1000 + 10 * 32"
  proof safe
    fix x y assume "(x, y) \<in> bytes_of cs"
    with r obtain s where "0 \<le> s" "s < 10" "1000 + s * 32 \<le> y" "y < 1000 + s * 32 + 32"
      unfolding lr by fastforce
    then show "1000 \<le> y" "y < 1000 + 10 * 32" by simp_all
  qed
  moreover have "(2000 + 8 * 64 + 32, 1000 + 5 * 32) \<in> bytes_of cs"
    unfolding in_bytes_of cs_def by (intro exI[of _ "1000 + 5 * 32"] exI[of _ "2000 + 8 * 64 + 32"] exI[of _ 32] exI[of _ 0]) simp
  ultimately show ?thesis using b unfolding rr_def cs_def by blast
qed

section \<open>Pairing of producer and consumer ranks\<close>

text \<open>
  What both sides rely on when they compute their peers independently: the ranks are in range and
  distinct, and a consumer asks a producer exactly when that producer expects the consumer. The
  producer's send is complete after as many requests as it has peers.
\<close>

locale tp_pairing =
  fixes targets :: "int \<Rightarrow> int \<Rightarrow> int \<Rightarrow> int list result"
  assumes in_range: "targets rank sz remote = Inr rs \<Longrightarrow> 0 < remote \<Longrightarrow> 0 \<le> rank \<Longrightarrow> rank < sz \<Longrightarrow>
      r \<in> set rs \<Longrightarrow> 0 \<le> r \<and> r < remote"
    and distinct_targets: "targets rank sz remote = Inr rs \<Longrightarrow> distinct rs"
    and some_target: "targets rank sz remote = Inr rs \<Longrightarrow> 0 < remote \<Longrightarrow> 0 < sz \<Longrightarrow> rs \<noteq> []"
    and total: "targets rank sz remote = Inr rs \<Longrightarrow> 0 < remote \<Longrightarrow> 0 < sz \<Longrightarrow> \<exists>qs. targets rank' remote sz = Inr qs"
    and symmetric: "targets q d p = Inr rs \<Longrightarrow> targets r p d = Inr qs \<Longrightarrow> 0 \<le> q \<Longrightarrow> q < d \<Longrightarrow> 0 \<le> r \<Longrightarrow> r < p \<Longrightarrow>
      r \<in> set rs \<longleftrightarrow> q \<in> set qs"
begin

lemma askers:
  assumes "targets r p d = Inr qs" and "0 \<le> r" and "r < p" and "0 < d"
  shows "{q. 0 \<le> q \<and> q < d \<and> (\<exists>rs. targets q d p = Inr rs \<and> r \<in> set rs)} = set qs"
proof (intro equalityI subsetI)
  fix q assume "q \<in> set qs"
  then have q: "0 \<le> q" "q < d" using in_range[OF assms(1,4,2,3)] by auto
  obtain rs where rs: "targets q d p = Inr rs" using total[OF assms(1,4)] assms(2,3) by fastforce
  with symmetric[OF rs assms(1) q assms(2,3)] \<open>q \<in> set qs\<close> q
  show "q \<in> {q. 0 \<le> q \<and> q < d \<and> (\<exists>rs. targets q d p = Inr rs \<and> r \<in> set rs)}" by blast
qed (use symmetric[OF _ assms(1) _ _ assms(2,3)] in blast)

lemma asker_count:
  assumes "targets r p d = Inr qs" and "0 \<le> r" and "r < p" and "0 < d"
  shows "card {q. 0 \<le> q \<and> q < d \<and> (\<exists>rs. targets q d p = Inr rs \<and> r \<in> set rs)} = length qs"
  using askers[OF assms] distinct_targets[OF assms(1)] by (simp add: distinct_card)

end

definition npu_targets :: "int \<Rightarrow> int \<Rightarrow> int \<Rightarrow> int list result" where
  "npu_targets rank sz remote =
     handshake_target_ranks \<lparr>nt_tp_rank = rank, nt_tp_size = sz, nt_block_size = 1, nt_is_mla = False,
                             nt_total_num_kv_heads = 1\<rparr> remote"

lemma npu_targets_eq: "handshake_target_ranks t remote = npu_targets (nt_tp_rank t) (nt_tp_size t) remote"
  by (simp add: npu_targets_def handshake_target_ranks_def)

text \<open>The two shapes of a target list.\<close>

lemma npu_targets_cases:
  assumes "npu_targets rank sz remote = Inr rs" and "0 < remote" and "0 < sz"
  obtains (wide) k where "0 < k" and "sz = k * remote" and "rs = [rank div k]"
  | (narrow) k where "1 < k" and "remote = k * sz" and "rs = map (\<lambda>o'. rank * k + o') [0..k - 1]"
proof (cases "sz \<ge> remote")
  case True
  then have m: "sz mod remote = 0" and rs: "rs = [rank div (sz div remote)]"
    using assms by (auto simp: npu_targets_def handshake_target_ranks_def split: if_splits)
  then obtain k where k: "sz = remote * k" by (auto elim: dvdE)
  then have "0 < k" using assms(2,3) by (simp add: zero_less_mult_iff)
  with k rs show ?thesis using wide[of k] assms(2) by simp
next
  case False
  then have m: "remote mod sz = 0" and rs: "rs = map (\<lambda>o'. rank * (remote div sz) + o') [0..remote div sz - 1]"
    using assms by (auto simp: npu_targets_def handshake_target_ranks_def Let_def split: if_splits)
  then obtain k where k: "remote = sz * k" by (auto elim: dvdE)
  have "1 < k"
  proof (rule ccontr)
    assume "\<not> 1 < k"
    then have "sz * k \<le> sz * 1" using assms(3) by (intro mult_left_mono) auto
    with False k show False by simp
  qed
  with k rs show ?thesis using narrow[of k] assms(3) by simp
qed

lemma div_block: "0 < (k :: int) \<Longrightarrow> q div k = r \<longleftrightarrow> r * k \<le> q \<and> q < r * k + k"
proof
  assume k: "0 < k" "q div k = r"
  then show "r * k \<le> q \<and> q < r * k + k"
    using div_mult_mod_eq[of q k] pos_mod_sign[OF k(1), of q] pos_mod_bound[OF k(1), of q] by auto
next
  assume k: "0 < k" "r * k \<le> q \<and> q < r * k + k"
  then show "q div k = r" using int_div_pos_eq[of q k r "q - r * k"] by (simp add: mult.commute)
qed

lemma mem_narrow: "(r :: int) \<in> set (map (\<lambda>o'. q * k + o') [0..k - 1]) \<longleftrightarrow> q * k \<le> r \<and> r < q * k + k"
  by (auto intro!: image_eqI[of _ _ "r - q * k"])

interpretation npu: tp_pairing npu_targets
proof
  fix rank sz remote r rs assume t: "npu_targets rank sz remote = Inr rs"
  show "0 \<le> r \<and> r < remote" if h: "0 < remote" "0 \<le> rank" "rank < sz" "r \<in> set rs"
  proof -
    have "0 < sz" using h by linarith
    from t h(1) this show ?thesis
    proof (cases rule: npu_targets_cases)
      case (wide k)
      then have "r = rank div k" using h(4) by simp
      moreover have "rank < remote * k" using h(3) wide(2) by (simp add: mult.commute)
      moreover have "rank div k * k \<le> rank" using div_block[OF wide(1), of rank "rank div k"] by simp
      ultimately have "rank div k * k < remote * k" using order.strict_trans1 by blast
      with \<open>r = rank div k\<close> show ?thesis using h wide(1) by (auto simp: pos_imp_zdiv_nonneg_iff)
    next
      case (narrow k)
      then have "rank * k \<le> r" "r < rank * k + k" using h(4) mem_narrow by blast+
      have "(rank + 1) * k \<le> sz * k" using h narrow(1) by (intro mult_right_mono) auto
      then have "rank * k + k \<le> sz * k" by (simp only: distrib_right mult_1)
      with \<open>r < rank * k + k\<close> have "r < sz * k" by (rule order.strict_trans2)
      moreover have "0 \<le> rank * k" using h narrow(1) by simp
      then have "0 \<le> r" using \<open>rank * k \<le> r\<close> by (rule order.trans)
      ultimately show ?thesis using narrow(2) by (simp add: mult.commute)
    qed
  qed
next
  fix rank sz remote rs assume t: "npu_targets rank sz remote = Inr rs"
  show "distinct rs" using t
    by (auto simp: npu_targets_def handshake_target_ranks_def Let_def distinct_map inj_on_def split: if_splits)
next
  fix rank sz remote rs assume t: "npu_targets rank sz remote = Inr rs" "0 < remote" "0 < sz"
  then show "rs \<noteq> []" by (cases rule: npu_targets_cases) auto
next
  fix rank sz remote rs rank' assume t: "npu_targets rank sz remote = Inr rs" "0 < remote" "0 < sz"
  then have "remote mod sz = 0 \<or> sz mod remote = 0" and "sz < remote \<longrightarrow> remote mod sz = 0" and "remote < sz \<longrightarrow> sz mod remote = 0"
    by (auto simp: npu_targets_def handshake_target_ranks_def Let_def split: if_splits)
  moreover have "remote = sz \<longrightarrow> remote mod sz = 0" by simp
  ultimately show "\<exists>qs. npu_targets rank' remote sz = Inr qs"
    using t(2,3) by (cases "remote = sz") (auto simp: npu_targets_def handshake_target_ranks_def Let_def)
next
  fix q d p r rs qs
  assume t: "npu_targets q d p = Inr rs" "npu_targets r p d = Inr qs" and b: "0 \<le> q" "q < d" "0 \<le> r" "r < p"
  then have pos: "0 < p" "0 < d" by simp_all
  from t(1) pos show "r \<in> set rs \<longleftrightarrow> q \<in> set qs"
  proof (cases rule: npu_targets_cases)
    case (wide k)
    from t(2) pos(2,1) show ?thesis
    proof (cases rule: npu_targets_cases)
      case (wide k')
      with \<open>d = k * p\<close> \<open>0 < k\<close> pos have "k = 1 \<and> k' = 1"
        by (metis mult.assoc mult_cancel_right1 pos_zmult_eq_1_iff order_less_irrefl)
      with wide \<open>rs = [q div k]\<close> show ?thesis by auto
    next
      case (narrow k')
      with wide pos have "k = k'" by simp
      have "r \<in> set rs \<longleftrightarrow> q div k = r" using wide by auto
      also have "\<dots> \<longleftrightarrow> q \<in> set qs" unfolding narrow(3) mem_narrow \<open>k = k'\<close>[symmetric] by (rule div_block[OF wide(1)])
      finally show ?thesis .
    qed
  next
    case (narrow k)
    from t(2) pos(2,1) show ?thesis
    proof (cases rule: npu_targets_cases)
      case (wide k')
      with narrow pos have "k = k'" by simp
      have "q \<in> set qs \<longleftrightarrow> r div k' = q" using wide by auto
      also have "\<dots> \<longleftrightarrow> r \<in> set rs" unfolding narrow(3) mem_narrow \<open>k = k'\<close> by (rule div_block[OF wide(1)])
      finally show ?thesis by blast
    next
      case (narrow k')
      with \<open>p = k * d\<close> \<open>1 < k\<close> pos show ?thesis
        by (metis mult.assoc mult_cancel_right1 pos_zmult_eq_1_iff order_less_irrefl order_less_trans zero_less_one)
    qed
  qed
qed



section \<open>The producers of a block fill it\<close>

text \<open>Byte \<open>j\<close> of a consumer's block part is written by producer \<open>r\<close> from its byte \<open>y\<close>.\<close>

definition written_from :: "int \<Rightarrow> int \<Rightarrow> int \<Rightarrow> int \<Rightarrow> int \<Rightarrow> int \<Rightarrow> bool \<Rightarrow> int \<Rightarrow> int \<Rightarrow> bool" where
  "written_from r p q d L R rep j y \<longleftrightarrow>
     (\<exists>so dof len i. compute_sender_transfer_plan r p q d L R rep = Inr (True, so, dof, len) \<and>
        0 \<le> i \<and> i < len \<and> j = dof + i \<and> y = so + i)"

lemma ratio_of:
  assumes "npu_targets q d p = Inr rs" and "0 < p" and "0 < d"
  obtains (equal) "p = d" and "get_tp_ratio p d = Inr 1" and "rs = [q]"
  | (gather) k where "1 < k" and "p = k * d" and "get_tp_ratio p d = Inr k" and "rs = map (\<lambda>o'. q * k + o') [0..k - 1]"
  | (scatter) k where "1 < k" and "d = k * p" and "get_tp_ratio p d = Inr (- k)" and "rs = [q div k]"
  using assms
proof (cases rule: npu_targets_cases)
  case (wide k)
  show ?thesis
  proof (cases "k = 1")
    case True
    then show ?thesis using wide equal assms(2,3) by (simp add: get_tp_ratio_def)
  next
    case False
    then have k: "1 < k" using wide(1) by simp
    then have "p < d" using wide(2) assms(2) by simp
    then have "get_tp_ratio p d = Inr (- k)" using wide(2) assms(2) by (simp add: get_tp_ratio_def)
    then show ?thesis using scatter[OF k wide(2)] wide(3) by blast
  qed
next
  case (narrow k)
  then have "d < p" using assms(3) by simp
  then have "get_tp_ratio p d = Inr k" using narrow(2) assms(3) by (simp add: get_tp_ratio_def)
  then show ?thesis using gather[OF narrow(1,2)] narrow(3) by blast
qed

lemma region_lengths:
  assumes "validate_asymmetric_region_lengths [lr] [rr] p d False = Inr None" and "get_tp_ratio p d = Inr t"
  shows "if t = 1 then tr_kv_block_len lr = tr_kv_block_len rr
    else if t > 0 then tr_kv_block_len rr = tr_kv_block_len lr * t
    else tr_kv_block_len lr = tr_kv_block_len rr * (- t)"
  using assms by (auto simp: validate_asymmetric_region_lengths_def region_mismatch_def Let_def split: if_splits)

lemma mod_slice: "0 < (k :: int) \<Longrightarrow> q * k \<le> r \<Longrightarrow> r < q * k + k \<Longrightarrow> r mod k = r - q * k"
  using div_block[of k r q] minus_div_mult_eq_mod[of r k] by simp

text \<open>
  C28: with sharded KV heads, the producers paired with a consumer rank fill its part of a block
  exactly: every byte is written by exactly one of them, and what is written there is the right
  content. A logical block is the concatenation of the producers' shards and equally of the
  consumers' shards; byte \<open>j\<close> of consumer \<open>q\<close>'s shard comes from the producer byte at
  the same place of the logical block.
\<close>

theorem tp_slices_tile:
  assumes "handshake_target_ranks ct p = Inr rs" and "0 < p"
    and "0 \<le> nt_tp_rank ct" and "nt_tp_rank ct < nt_tp_size ct"
    and "validate_asymmetric_region_lengths [lr] [rr] p (nt_tp_size ct) False = Inr None"
    and "0 \<le> j" and "j < tr_kv_block_len rr"
  shows "(\<exists>!r. r \<in> set rs \<and> (\<exists>y. written_from r p (nt_tp_rank ct) (nt_tp_size ct) (tr_kv_block_len lr) (tr_kv_block_len rr) False j y)) \<and>
    (\<forall>r \<in> set rs. \<forall>y. written_from r p (nt_tp_rank ct) (nt_tp_size ct) (tr_kv_block_len lr) (tr_kv_block_len rr) False j y \<longrightarrow>
       0 \<le> y \<and> y < tr_kv_block_len lr \<and>
       r * tr_kv_block_len lr + y = nt_tp_rank ct * tr_kv_block_len rr + j)"
proof -
  define q d L R where "q = nt_tp_rank ct" and "d = nt_tp_size ct" and "L = tr_kv_block_len lr" and "R = tr_kv_block_len rr"
  have t: "npu_targets q d p = Inr rs" using assms(1) by (simp add: npu_targets_eq q_def d_def)
  have q: "0 \<le> q" "q < d" "0 < d" using assms(3,4) by (simp_all add: q_def d_def)
  have j: "0 \<le> j" "j < R" using assms(6,7) by (simp_all add: R_def)
  from t assms(2) q(3) have "(\<exists>!r. r \<in> set rs \<and> (\<exists>y. written_from r p q d L R False j y)) \<and>
    (\<forall>r \<in> set rs. \<forall>y. written_from r p q d L R False j y \<longrightarrow> 0 \<le> y \<and> y < L \<and> r * L + y = q * R + j)"
  proof (cases rule: ratio_of)
    case equal
    then have "L = R" using region_lengths[OF assms(5)] equal(2) by (simp add: L_def R_def d_def)
    moreover have "written_from r p q d L R False j y \<longleftrightarrow> 0 \<le> j \<and> j < L \<and> y = j" for r y
      using equal(2) by (auto simp: written_from_def compute_sender_transfer_plan_def)
    ultimately show ?thesis using equal(3) j by auto
  next
    case (gather k)
    then have R: "R = L * k" using region_lengths[OF assms(5)] gather(1,3) by (simp add: L_def R_def d_def)
    then have "0 < L * k" using j by simp
    then have "0 < L" using gather(1) by (simp add: zero_less_mult_iff)
    have w: "written_from r p q d L R False j y \<longleftrightarrow> (r - q * k) * L \<le> j \<and> j < (r - q * k) * L + L \<and> y = j - (r - q * k) * L"
      if "r \<in> set rs" for r y
    proof -
      have "q * k \<le> r" "r < q * k + k" using that[unfolded gather(4) mem_narrow] by simp_all
      then have "r mod k = r - q * k" using gather(1) by (intro mod_slice) simp_all
      then show ?thesis using gather(1,3)
        by (auto simp: written_from_def compute_sender_transfer_plan_def intro!: exI[of _ "j - (r - q * k) * L"])
    qed
    have w': "written_from r p q d L R False j y \<longleftrightarrow> j div L = r - q * k \<and> y = j - (r - q * k) * L" if "r \<in> set rs" for r y
      unfolding w[OF that] div_block[OF \<open>0 < L\<close>] by blast
    have jd: "0 \<le> j div L" "j div L < k"
    proof -
      show "0 \<le> j div L" using j(1) \<open>0 < L\<close> by (simp add: pos_imp_zdiv_nonneg_iff)
      have "j div L * L \<le> j" using div_block[OF \<open>0 < L\<close>, of j "j div L"] by simp
      then have "j div L * L < k * L" using j(2) unfolding R by (simp only: mult.commute[of k L])
      then show "j div L < k" using \<open>0 < L\<close> by simp
    qed
    have "q * k + j div L \<in> set rs" unfolding gather(4) mem_narrow using jd by simp
    moreover have "r * L + y = q * R + j" if "y = j - (r - q * k) * L" for r y
      using that unfolding R by (simp add: algebra_simps)
    moreover have "0 \<le> y \<and> y < L" if "r \<in> set rs" "written_from r p q d L R False j y" for r y
      using that(2) unfolding w[OF that(1)] by auto
    ultimately show ?thesis using w' by (intro conjI ex1I[of _ "q * k + j div L"] ballI allI impI) auto
  next
    case (scatter k)
    then have L: "L = R * k" using region_lengths[OF assms(5)] scatter(1,3) by (simp add: L_def R_def d_def)
    have w: "written_from r p q d L R False j y \<longleftrightarrow> y = (q mod k) * R + j" for r y
      using scatter(1,3) j by (auto simp: written_from_def compute_sender_transfer_plan_def)
    have "q mod k + 1 \<le> k" using scatter(1) pos_mod_bound[of k q] by linarith
    then have "(q mod k + 1) * R \<le> k * R" using j by (intro mult_right_mono) simp_all
    then have "(q mod k) * R + R \<le> L" unfolding L mult.commute[of R k] by (simp only: distrib_right mult_1)
    with add_strict_left_mono[OF j(2)] have "(q mod k) * R + j < L" by (rule order.strict_trans2)
    moreover have "0 \<le> (q mod k) * R + j" using j scatter(1) by simp
    moreover have "(q div k) * L + ((q mod k) * R + j) = q * R + j"
    proof -
      have "(q div k) * L + (q mod k) * R = (q div k * k + q mod k) * R"
        unfolding L mult.commute[of R k] by (simp only: distrib_right mult.assoc)
      also have "\<dots> = q * R" by (simp only: div_mult_mod_eq)
      finally show ?thesis by simp
    qed
    ultimately show ?thesis using w scatter(4) by auto
  qed
  then show ?thesis unfolding q_def d_def L_def R_def .
qed

lemma tp_slices_tile_witness:
  "\<exists>!r. r \<in> set [2, 3] \<and> (\<exists>y. written_from r 4 1 2 32 64 False 40 y)"
proof -
  define ct where "ct = \<lparr>nt_tp_rank = 1, nt_tp_size = 2, nt_block_size = 16, nt_is_mla = False, nt_total_num_kv_heads = 8\<rparr>"
  define lr where "lr = \<lparr>tr_base_addr = 1000, tr_block_len = 32, tr_kv_block_len = 32\<rparr>"
  define rr where "rr = \<lparr>tr_base_addr = 2000, tr_block_len = 64, tr_kv_block_len = 64\<rparr>"
  have h: "handshake_target_ranks ct 4 = Inr [2, 3]" unfolding ct_def by code_simp
  have v: "validate_asymmetric_region_lengths [lr] [rr] 4 (nt_tp_size ct) False = Inr None"
    unfolding ct_def lr_def rr_def by code_simp
  from tp_slices_tile[OF h _ _ _ v, of 40] show ?thesis by (simp add: ct_def lr_def rr_def)
qed

section \<open>Replicated KV heads\<close>

text \<open>With more producer ranks than KV heads, producer \<open>r\<close> of \<open>p\<close> holds head \<open>r * heads div p\<close>,
  and a consumer of at least as many ranks holds head \<open>q * heads div d\<close>. MLA has one head.\<close>

lemma head_of_multiple:
  fixes m :: int
  assumes "0 < m" and "0 < heads"
  shows "r * heads div (heads * m) = r div m"
  using assms by (metis mult.commute nonzero_mult_div_cancel_left div_mult_mult1 less_irrefl)

text \<open>
  with replicated KV heads and at least as many consumer ranks as heads, each consumer rank gets
  its block from exactly one of the producers it asks, whole, from offset 0, and that producer holds
  the consumer's head; the other producers answer without writing, so nothing is written twice.
\<close>

theorem replicated_one_sender:
  assumes "handshake_target_ranks ct p = Inr rs" and "0 < p"
    and "0 \<le> nt_tp_rank ct" and "nt_tp_rank ct < nt_tp_size ct"
    and "0 < heads" and "heads dvd p" and "heads dvd nt_tp_size ct"
    and "0 \<le> j" and "j < L"
  shows "\<exists>r \<in> set rs. (\<forall>r' \<in> set rs. \<forall>y. written_from r' p (nt_tp_rank ct) (nt_tp_size ct) L L True j y \<longleftrightarrow> r' = r \<and> y = j) \<and>
    r * heads div p = nt_tp_rank ct * heads div nt_tp_size ct"
proof -
  define q d where "q = nt_tp_rank ct" and "d = nt_tp_size ct"
  have t: "npu_targets q d p = Inr rs" using assms(1) by (simp add: npu_targets_eq q_def d_def)
  have q: "0 \<le> q" "q < d" "0 < d" using assms(3,4) by (simp_all add: q_def d_def)
  obtain m where m: "p = heads * m" "0 < m" using assms(2,5,6) by (metis dvdE zero_less_mult_pos)
  obtain n where n: "d = heads * n" "0 < n" using assms(5,7) q(3) by (metis d_def dvdE zero_less_mult_pos)
  from t assms(2) q(3) have "\<exists>r \<in> set rs. (\<forall>r' \<in> set rs. \<forall>y. written_from r' p q d L L True j y \<longleftrightarrow> r' = r \<and> y = j) \<and>
    r * heads div p = q * heads div d"
  proof (cases rule: ratio_of)
    case equal
    then show ?thesis using assms(8,9)
      by (auto simp: written_from_def compute_sender_transfer_plan_def)
  next
    case (gather k)
    have "heads * m = k * (heads * n)" using m(1) n(1) gather(2) by metis
    then have "heads * m = heads * (k * n)" by (simp only: mult.left_commute)
    then have mk: "m = k * n" using assms(5) by (simp only: mult_cancel_left) simp
    have w: "written_from r p q d L L True j y \<longleftrightarrow> r = q * k \<and> y = j" if "r \<in> set rs" for r y
    proof -
      have "q * k \<le> r" "r < q * k + k" using that[unfolded gather(4) mem_narrow] by simp_all
      then have "r mod k = r - q * k" using gather(1) by (intro mod_slice) simp_all
      then show ?thesis using gather(1,3) assms(8,9)
        by (auto simp: written_from_def compute_sender_transfer_plan_def)
    qed
    have "q * k \<in> set rs" unfolding gather(4) mem_narrow using gather(1) by simp
    moreover have "q * k * heads div p = q * heads div d"
    proof -
      have "q * k * heads div p = q * k div m" unfolding m(1) by (rule head_of_multiple[OF m(2) assms(5)])
      also have "\<dots> = q div n" using gather(1) unfolding mk by (simp add: mult.commute)
      also have "\<dots> = q * heads div d" unfolding n(1) by (rule head_of_multiple[OF n(2) assms(5), symmetric])
      finally show ?thesis .
    qed
    ultimately show ?thesis using w by blast
  next
    case (scatter k)
    have "heads * n = k * (heads * m)" using m(1) n(1) scatter(2) by metis
    then have "heads * n = heads * (k * m)" by (simp only: mult.left_commute)
    then have nk: "n = k * m" using assms(5) by (simp only: mult_cancel_left) simp
    have "written_from r p q d L L True j y \<longleftrightarrow> y = j" for r y
      using scatter(1,3) assms(8,9) by (auto simp: written_from_def compute_sender_transfer_plan_def)
    moreover have "(q div k) * heads div p = q * heads div d"
    proof -
      have "(q div k) * heads div p = q div k div m" unfolding m(1) by (rule head_of_multiple[OF m(2) assms(5)])
      also have "\<dots> = q div n" using scatter(1) m(2) unfolding nk by (simp add: zdiv_zmult2_eq)
      also have "\<dots> = q * heads div d" unfolding n(1) by (rule head_of_multiple[OF n(2) assms(5), symmetric])
      finally show ?thesis .
    qed
    ultimately show ?thesis using scatter(4) by simp
  qed
  then show ?thesis unfolding q_def d_def .
qed

lemma replicated_one_sender_witness:
  "\<exists>r \<in> set [4, 5, 6, 7]. r * 2 div 8 = (1 :: int) \<and> written_from r 8 1 2 64 64 True 63 63"
proof -
  define ct where "ct = \<lparr>nt_tp_rank = 1, nt_tp_size = 2, nt_block_size = 16, nt_is_mla = False, nt_total_num_kv_heads = 2\<rparr>"
  have h: "handshake_target_ranks ct 8 = Inr [4, 5, 6, 7]" unfolding ct_def by code_simp
  from replicated_one_sender[OF h, of 2 63 64] show ?thesis by (fastforce simp: ct_def)
qed



end
