(* ===== verification/Transfer_Events.thy ===== *)
theory Transfer_Events
  imports Protocol
begin

text \<open>The events and results of \<^verbatim>\<open>mtsc/kv_transfer.py\<close> that the worker exchanges
  with the P/D transfer.\<close>

record SendEvent =
  sd_request_id :: string
  sd_transfer_id :: string
  sd_block_ids :: block_groups

record RecvEvent =
  re_request_id :: string
  re_transfer_id :: string
  re_block_ids :: block_groups
  re_bootstrap_addr :: string
  re_remote_engine_id :: string
  re_remote_dp_rank :: int

record TransferResult =
  tf_request_id :: string
  tf_error :: "string option"

record TransferPollResult =
  tpr_sends :: "TransferResult list"
  tpr_recvs :: "TransferResult list"

text \<open>The non-negative IDs of a block table.\<close>

definition block_set :: "block_groups \<Rightarrow> int set" where
  "block_set ids = {b \<in> set (concat ids). 0 \<le> b}"

end
