(* ===== verification/Worker.thy ===== *)
theory Worker
  imports Cache_Pool Transfer_Events
begin

text \<open>
  Models \<^verbatim>\<open>mtsc/worker.py\<close>. The pool and the transfer are a backend: its operations are
  the fields of the record \<open>'b backend\<close> over a backend state \<open>'b\<close>. An operation of the
  worker takes its state and the backend's and returns both, or the exception that leaves it. The
  monotonic clock is read once per call (\<open>now\<close>). A device event is its identity, the argument
  \<open>event\<close>; \<open>bk_sync\<close> is the device fence. vLLM's \<open>cdiv\<close> is the argument
  \<open>cd\<close>. Sets the worker only iterates over are lists.
\<close>

section \<open>State\<close>

datatype stage = POOL_LOADING | POOL_DONE | TRANSFER_LOADING

record TransferState =
  ts_plan :: KVTransferPlan
  ts_stage :: stage
  ts_suffix_block_ids :: block_groups
  ts_load_started_at :: rat
  ts_store_ms :: rat
  ts_store_status :: string
  ts_pd_started_at :: rat
  ts_actual_pool_prefix :: int

record FinishedWaitState =
  fs_wait_for :: FinishedWait
  fs_pool_save_done :: bool
  fs_kv_transfer_done :: bool

definition is_finished :: "FinishedWaitState \<Rightarrow> bool" where
  "is_finished s \<longleftrightarrow>
     (\<not> fw_store_save (fs_wait_for s) \<or> fs_pool_save_done s) \<and>
     (\<not> fw_kv_transfer (fs_wait_for s) \<or> fs_kv_transfer_done s)"

record worker =
  wk_on_load :: "(string, KVPoolLoadRequest) dict"
  wk_on_save :: "(string, KVPoolSaveRequest) dict"
  wk_on_transfer :: "(string, TransferState) dict"
  wk_finished_waits :: "(string, FinishedWaitState) dict"
  wk_load_errors :: "int set"
  wk_rank :: int
  wk_reports :: "MTSCLoadReport list"
  wk_closed :: bool

definition new_worker :: "int \<Rightarrow> worker" where
  "new_worker rank =
     \<lparr>wk_on_load = [], wk_on_save = [], wk_on_transfer = [], wk_finished_waits = [], wk_load_errors = {},
      wk_rank = rank, wk_reports = [], wk_closed = False\<rparr>"

record 'b backend =
  bk_pool_register :: "'b \<Rightarrow> 'b \<times> unit result"
  bk_register :: "'b \<Rightarrow> 'b \<times> unit result"
  bk_pool_load :: "LoadEvent \<Rightarrow> 'b \<Rightarrow> 'b result"
  bk_pool_save :: "SaveEvent \<Rightarrow> 'b \<Rightarrow> 'b result"
  bk_pool_poll :: "'b \<Rightarrow> (PoolPollResult \<times> 'b) result"
  bk_pool_errors :: "'b \<Rightarrow> int set \<times> 'b"
  bk_pool_preempt :: "string \<Rightarrow> 'b \<Rightarrow> 'b result"
  bk_pool_close :: "'b \<Rightarrow> 'b \<times> unit result"
  bk_sync :: "'b \<Rightarrow> 'b"
  bk_cancel :: "string \<Rightarrow> string \<Rightarrow> 'b \<Rightarrow> 'b result"
  bk_prepare :: "string \<Rightarrow> string \<Rightarrow> 'b \<Rightarrow> 'b result"
  bk_send :: "SendEvent \<Rightarrow> 'b \<Rightarrow> 'b result"
  bk_recv :: "RecvEvent list \<Rightarrow> 'b \<Rightarrow> 'b result"
  bk_poll :: "'b \<Rightarrow> (TransferPollResult \<times> 'b) result"
  bk_errors :: "'b \<Rightarrow> (int set \<times> 'b) result"
  bk_preempt :: "string \<Rightarrow> 'b \<Rightarrow> 'b result"
  bk_close :: "'b \<Rightarrow> 'b \<times> unit result"

section \<open>Registration and preemption\<close>

text \<open>\<open>try: x finally: pool.close()\<close>: an exception of the close replaces the first one.\<close>

definition finally_close_pool :: "'b backend \<Rightarrow> 'b \<times> unit result \<Rightarrow> 'b \<times> unit result" where
  "finally_close_pool bk br =
     (let (b', r') = bk_pool_close bk (fst br)
      in (b', case r' of Inl e \<Rightarrow> Inl e | Inr _ \<Rightarrow> snd br))"

definition register_kv_caches :: "'b backend \<Rightarrow> 'b \<Rightarrow> 'b \<times> unit result" where
  "register_kv_caches bk b =
     (case bk_pool_register bk b of
        (b1, Inl e) \<Rightarrow> (b1, Inl e)
      | (b1, Inr _) \<Rightarrow>
         (case bk_register bk b1 of
            (b2, Inr _) \<Rightarrow> (b2, Inr ())
          | (b2, Inl e) \<Rightarrow>
              (case finally_close_pool bk (bk_close bk b2) of
                 (b3, Inl e') \<Rightarrow> (b3, Inl e')
               | (b3, Inr _) \<Rightarrow> (b3, Inl e))))"

definition forget_request :: "string \<Rightarrow> worker \<Rightarrow> worker" where
  "forget_request rid w =
     w\<lparr>wk_on_save := dict_pop rid (wk_on_save w), wk_on_transfer := dict_pop rid (wk_on_transfer w),
       wk_on_load := dict_pop rid (wk_on_load w), wk_finished_waits := dict_pop rid (wk_finished_waits w)\<rparr>"

definition preempt_one :: "'b backend \<Rightarrow> string \<Rightarrow> worker \<times> 'b \<Rightarrow> (worker \<times> 'b) result" where
  "preempt_one bk rid wb =
     (case bk_pool_preempt bk rid (snd wb) of Inl e \<Rightarrow> Inl e
      | Inr b1 \<Rightarrow>
         (case bk_preempt bk rid b1 of Inl e \<Rightarrow> Inl e
          | Inr b2 \<Rightarrow> Inr (forget_request rid (fst wb), b2)))"

definition handle_preemptions ::
  "'b backend \<Rightarrow> MTSCConnectorMetadata \<Rightarrow> worker \<times> 'b \<Rightarrow> (worker \<times> 'b) result" where
  "handle_preemptions bk md wb = fold_res (preempt_one bk) (md_preempted_request_ids md) wb"

section \<open>Two-stage loading\<close>

definition candidate_group :: "cdiv_fun \<Rightarrow> KVTransferPlan \<Rightarrow> int list \<times> int \<Rightarrow> int set" where
  "candidate_group cd plan gb =
     (let (group_ids, block_size) = gb;
          start = cd (tp_computed_tokens plan) block_size;
          stop = min (cd (tp_pool_hit_tokens plan) block_size) (int (length group_ids))
      in set (slice_range group_ids start stop))"

definition pool_candidate_block_ids :: "cdiv_fun \<Rightarrow> KVTransferPlan \<Rightarrow> int set result" where
  "pool_candidate_block_ids cd plan =
     map_sum id (\<lambda>zs. \<Union> (set (map (candidate_group cd plan) zs)))
       (zip_strict (tp_all_block_ids plan) (tp_group_block_sizes plan))"

definition suffix_group :: "cdiv_fun \<Rightarrow> int \<Rightarrow> int list \<times> int \<times> int \<Rightarrow> int list" where
  "suffix_group cd offset gbw =
     (let (ids, block_size, window) = gbw;
          suffix = slice_from ids (cd offset block_size)
      in if window \<noteq> 0 then slice_from suffix (- window) else suffix)"

definition suffix_blocks :: "cdiv_fun \<Rightarrow> KVTransferPlan \<Rightarrow> int \<Rightarrow> block_groups result" where
  "suffix_blocks cd plan actual =
     (let offset = actual - tp_computed_tokens plan
      in if length (tp_external_block_ids plan) = length (tp_group_block_sizes plan)
            \<and> length (tp_group_block_sizes plan) = length (tp_blocks_per_sliding_window plan)
         then Inr (map (suffix_group cd offset)
                (zip (tp_external_block_ids plan)
                     (zip (tp_group_block_sizes plan) (tp_blocks_per_sliding_window plan))))
         else Inl (ValueError ''zip() argument lengths differ''))"

definition recv_event_of :: "KVTransferPlan \<Rightarrow> block_groups \<Rightarrow> RecvEvent result" where
  "recv_event_of plan suffix =
     (case dict_get (tp_transfer_params plan) ''remote_bootstrap_addr'' of
        None \<Rightarrow> Inl (KeyError ''remote_bootstrap_addr'')
      | Some addr \<Rightarrow>
     (case dict_get (tp_transfer_params plan) ''remote_engine_id'' of
        None \<Rightarrow> Inl (KeyError ''remote_engine_id'')
      | Some engine \<Rightarrow>
     (case py_int (case dict_get (tp_transfer_params plan) ''remote_dp_rank'' of None \<Rightarrow> PInt 0 | Some v \<Rightarrow> v) of
        Inl e \<Rightarrow> Inl e
      | Inr dp \<Rightarrow> Inr \<lparr>re_request_id = tp_request_id plan, re_transfer_id = tp_transfer_id plan,
            re_block_ids = suffix, re_bootstrap_addr = py_str addr, re_remote_engine_id = py_str engine,
            re_remote_dp_rank = dp\<rparr>)))"

definition start_transfer ::
  "cdiv_fun \<Rightarrow> rat \<Rightarrow> TransferState \<Rightarrow> int \<Rightarrow> (TransferState \<times> RecvEvent) result" where
  "start_transfer cd now s actual =
     (case suffix_blocks cd (ts_plan s) actual of Inl e \<Rightarrow> Inl e
      | Inr suffix \<Rightarrow>
         (case recv_event_of (ts_plan s) suffix of Inl e \<Rightarrow> Inl e
          | Inr ev \<Rightarrow> Inr (s\<lparr>ts_suffix_block_ids := suffix, ts_actual_pool_prefix := actual,
                            ts_stage := TRANSFER_LOADING, ts_pd_started_at := now\<rparr>, ev)))"

section \<open>Aggregation of results\<close>

definition mark_saved :: "string \<Rightarrow> worker \<Rightarrow> worker" where
  "mark_saved rid w =
     w\<lparr>wk_on_save := dict_pop rid (wk_on_save w),
       wk_finished_waits := (case dict_get (wk_finished_waits w) rid of None \<Rightarrow> wk_finished_waits w
          | Some s \<Rightarrow> dict_set rid (s\<lparr>fs_pool_save_done := True\<rparr>) (wk_finished_waits w))\<rparr>"

definition mark_sent :: "string \<Rightarrow> worker \<Rightarrow> worker" where
  "mark_sent rid w =
     w\<lparr>wk_finished_waits := (case dict_get (wk_finished_waits w) rid of None \<Rightarrow> wk_finished_waits w
          | Some s \<Rightarrow> dict_set rid (s\<lparr>fs_kv_transfer_done := True\<rparr>) (wk_finished_waits w))\<rparr>"

definition aggregate_send_finished :: "string list \<Rightarrow> string list \<Rightarrow> worker \<Rightarrow> string set \<times> worker" where
  "aggregate_send_finished pool_save_done kv_transfer_done w =
     (let w1 = fold mark_sent kv_transfer_done (fold mark_saved pool_save_done w);
          ready = map fst (filter (\<lambda>(_, s). is_finished s) (wk_finished_waits w1))
      in (set ready, w1\<lparr>wk_finished_waits := fold dict_pop ready (wk_finished_waits w1)\<rparr>))"

text \<open>\<open>if result.error\<close>: an empty text counts as no error.\<close>

definition error_status :: "string option \<Rightarrow> string" where
  "error_status e = (case e of None \<Rightarrow> ''ok'' | Some t \<Rightarrow> if t = [] then ''ok'' else ''error'')"

definition store_report :: "int \<Rightarrow> KVPoolLoadRequest \<Rightarrow> LoadResult \<Rightarrow> MTSCLoadReport" where
  "store_report rank req r =
     \<lparr>rp_request_id = rl_request_id r, rp_load_id = lr_load_id req, rp_worker_rank = rank,
      rp_local_tokens = lr_start_token req, rp_store_tokens = rl_loaded_tokens r - lr_start_token req,
      rp_pd_tokens = 0, rp_store_ms = rl_elapsed_ms r, rp_pd_ms = 0, rp_total_ms = rl_elapsed_ms r,
      rp_store_status = error_status (rl_error r), rp_status = error_status (rl_error r)\<rparr>"

definition collect_load :: "string \<times> LoadResult \<Rightarrow> worker \<times> string set \<Rightarrow> worker \<times> string set" where
  "collect_load rr acc =
     (let (rid, r) = rr; (w, finished) = acc;
          w1 = w\<lparr>wk_on_load := dict_pop rid (wk_on_load w)\<rparr>
      in if dict_has (wk_on_transfer w) rid then (w1, finished)
         else ((case dict_get (wk_on_load w) rid of None \<Rightarrow> w1
                | Some req \<Rightarrow> w1\<lparr>wk_reports := wk_reports w1 @ [store_report (wk_rank w1) req r]\<rparr>),
               insert rid finished))"

text \<open>One request of the second loop: \<open>None\<close> where it is neither past the pool stage nor loaded.\<close>

definition advance_transfer ::
  "cdiv_fun \<Rightarrow> rat \<Rightarrow> (string, LoadResult) dict \<Rightarrow> string \<Rightarrow> TransferState \<Rightarrow>
     (TransferState \<times> RecvEvent) result option" where
  "advance_transfer cd now results rid s =
     (case ts_stage s of
        POOL_DONE \<Rightarrow> Some (start_transfer cd now s (tp_computed_tokens (ts_plan s)))
      | POOL_LOADING \<Rightarrow>
          (case dict_get results rid of None \<Rightarrow> None
           | Some r \<Rightarrow> Some (start_transfer cd now
                 (s\<lparr>ts_store_ms := rl_elapsed_ms r, ts_store_status := error_status (rl_error r)\<rparr>)
                 (rl_loaded_tokens r)))
      | TRANSFER_LOADING \<Rightarrow> None)"

definition start_one ::
  "cdiv_fun \<Rightarrow> rat \<Rightarrow> (string, LoadResult) dict \<Rightarrow> string \<times> TransferState \<Rightarrow>
     worker \<times> RecvEvent list \<Rightarrow> (worker \<times> RecvEvent list) result" where
  "start_one cd now results rs we =
     (case advance_transfer cd now results (fst rs) (snd rs) of
        None \<Rightarrow> Inr we
      | Some (Inl e) \<Rightarrow> Inl e
      | Some (Inr (s', ev)) \<Rightarrow>
          Inr ((fst we)\<lparr>wk_on_transfer := dict_set (fst rs) s' (wk_on_transfer (fst we))\<rparr>, snd we @ [ev]))"

definition pd_report :: "int \<Rightarrow> rat \<Rightarrow> TransferState \<Rightarrow> TransferResult \<Rightarrow> MTSCLoadReport" where
  "pd_report rank now s r =
     \<lparr>rp_request_id = tf_request_id r, rp_load_id = tp_load_id (ts_plan s), rp_worker_rank = rank,
      rp_local_tokens = tp_computed_tokens (ts_plan s),
      rp_store_tokens = ts_actual_pool_prefix s - tp_computed_tokens (ts_plan s),
      rp_pd_tokens = tp_target_tokens (ts_plan s) - ts_actual_pool_prefix s,
      rp_store_ms = ts_store_ms s, rp_pd_ms = (now - ts_pd_started_at s) * 1000,
      rp_total_ms = (now - ts_load_started_at s) * 1000,
      rp_store_status = ts_store_status s, rp_status = error_status (tf_error r)\<rparr>"

definition collect_recv :: "rat \<Rightarrow> TransferResult \<Rightarrow> worker \<times> string set \<Rightarrow> worker \<times> string set" where
  "collect_recv now r acc =
     (let (w, finished) = acc; rid = tf_request_id r
      in case dict_get (wk_on_transfer w) rid of None \<Rightarrow> (w, finished)
         | Some s \<Rightarrow>
             (w\<lparr>wk_on_transfer := dict_pop rid (wk_on_transfer w),
                wk_reports := wk_reports w @ [pd_report (wk_rank w) now s r],
                wk_load_errors := (if tf_error r \<noteq> None
                   then wk_load_errors w \<union> block_set (ts_suffix_block_ids s) else wk_load_errors w)\<rparr>,
              if tp_target_tokens (ts_plan s) > tp_computed_tokens (ts_plan s)
              then insert rid finished else finished))"

definition results_dict :: "LoadResult list \<Rightarrow> (string, LoadResult) dict" where
  "results_dict rs = fold (\<lambda>r. dict_set (rl_request_id r) r) rs []"

definition aggregate_recv_finished ::
  "'b backend \<Rightarrow> cdiv_fun \<Rightarrow> rat \<Rightarrow> LoadResult list \<Rightarrow> TransferResult list \<Rightarrow> worker \<times> 'b \<Rightarrow>
     (string set \<times> worker \<times> 'b) result" where
  "aggregate_recv_finished bk cd now loads recvs wb =
     (let results = results_dict loads;
          (w1, finished) = fold collect_load results (fst wb, {})
      in case fold_res (start_one cd now results) (wk_on_transfer w1) (w1, []) of Inl e \<Rightarrow> Inl e
         | Inr (w2, evs) \<Rightarrow>
            (case (if evs = [] then Inr (snd wb) else bk_recv bk evs (snd wb)) of Inl e \<Rightarrow> Inl e
             | Inr b' \<Rightarrow>
                (let (w3, finished') = fold (collect_recv now) recvs (w2, finished)
                 in Inr (finished', w3, b'))))"

section \<open>The step\<close>

definition load_event_of :: "KVPoolLoadRequest \<Rightarrow> LoadEvent" where
  "load_event_of m =
     \<lparr>le_request_id = lr_request_id m, le_block_ids = lr_block_ids m, le_block_hashes = lr_block_hashes m,
      le_start_load = lr_start_token m, le_end_load = lr_end_token m\<rparr>"

definition submit_load :: "'b backend \<Rightarrow> KVPoolLoadRequest \<Rightarrow> worker \<times> 'b \<Rightarrow> (worker \<times> 'b) result" where
  "submit_load bk m wb =
     (case bk_pool_load bk (load_event_of m) (snd wb) of Inl e \<Rightarrow> Inl e
      | Inr b' \<Rightarrow> Inr ((fst wb)\<lparr>wk_on_load := dict_set (lr_request_id m) m (wk_on_load (fst wb))\<rparr>, b'))"

definition new_transfer_state :: "rat \<Rightarrow> KVTransferPlan \<Rightarrow> TransferState" where
  "new_transfer_state now plan =
     \<lparr>ts_plan = plan,
      ts_stage = (if tp_pool_hit_tokens plan > tp_computed_tokens plan then POOL_LOADING else POOL_DONE),
      ts_suffix_block_ids = [], ts_load_started_at = now, ts_store_ms = 0, ts_store_status = ''skipped'',
      ts_pd_started_at = 0, ts_actual_pool_prefix = 0\<rparr>"

definition add_plan :: "rat \<Rightarrow> KVTransferPlan \<Rightarrow> worker \<Rightarrow> worker" where
  "add_plan now plan w =
     (if dict_has (wk_on_transfer w) (tp_request_id plan) then w
      else w\<lparr>wk_on_transfer := dict_set (tp_request_id plan) (new_transfer_state now plan) (wk_on_transfer w)\<rparr>)"

definition update_load_metadata ::
  "'b backend \<Rightarrow> rat \<Rightarrow> MTSCConnectorMetadata \<Rightarrow> worker \<times> 'b \<Rightarrow> (worker \<times> 'b) result" where
  "update_load_metadata bk now md wb =
     (case fold_res (submit_load bk) (md_pool_loads md) wb of Inl e \<Rightarrow> Inl e
      | Inr (w, b) \<Rightarrow> Inr (fold (add_plan now) (md_transfer_plans md) w, b))"

definition save_event_of :: "nat \<Rightarrow> KVPoolSaveRequest \<Rightarrow> SaveEvent" where
  "save_event_of event m =
     \<lparr>se_request_id = sr_request_id m, se_block_ids = sr_block_ids m, se_block_hashes = sr_block_hashes m,
      se_start_save = sr_start_token m, se_end_save = sr_end_token m, se_ready_event = Some (Signal event),
      se_prompt_tokens = sr_prompt_tokens m\<rparr>"

definition submit_save :: "'b backend \<Rightarrow> nat \<Rightarrow> KVPoolSaveRequest \<Rightarrow> worker \<times> 'b \<Rightarrow> (worker \<times> 'b) result" where
  "submit_save bk event m wb =
     (let (w, b) = wb; rid = sr_request_id m
      in case bk_pool_save bk (save_event_of event m) b of Inl e \<Rightarrow> Inl e
         | Inr b' \<Rightarrow>
             Inr (w\<lparr>wk_on_save := dict_set rid m (wk_on_save w),
                    wk_finished_waits := (case dict_get (wk_finished_waits w) rid of None \<Rightarrow> wk_finished_waits w
                      | Some s \<Rightarrow> dict_set rid (s\<lparr>fs_pool_save_done := False\<rparr>) (wk_finished_waits w))\<rparr>, b'))"

definition update_save_metadata ::
  "'b backend \<Rightarrow> nat \<Rightarrow> MTSCConnectorMetadata \<Rightarrow> worker \<times> 'b \<Rightarrow> (worker \<times> 'b) result" where
  "update_save_metadata bk event md wb = fold_res (submit_save bk event) (md_pool_saves md) wb"

definition publish_state :: "'b backend \<Rightarrow> KVTransferSourceState \<Rightarrow> 'b \<Rightarrow> 'b result" where
  "publish_state bk s b =
     (if ss_cancelled s then bk_cancel bk (ss_request_id s) (ss_transfer_id s) b
      else if ss_ready s
      then bk_send bk \<lparr>sd_request_id = ss_request_id s, sd_transfer_id = ss_transfer_id s,
                       sd_block_ids = ss_source_block_ids s\<rparr> b
      else bk_prepare bk (ss_request_id s) (ss_transfer_id s) b)"

definition add_wait :: "string \<times> FinishedWait \<Rightarrow> worker \<Rightarrow> worker" where
  "add_wait rw w =
     w\<lparr>wk_finished_waits := dict_setdefault (fst rw)
          \<lparr>fs_wait_for = snd rw, fs_pool_save_done = (\<not> dict_has (wk_on_save w) (fst rw)),
           fs_kv_transfer_done = False\<rparr> (wk_finished_waits w)\<rparr>"

definition update_finished_metadata ::
  "'b backend \<Rightarrow> MTSCConnectorMetadata \<Rightarrow> worker \<times> 'b \<Rightarrow> (worker \<times> 'b) result" where
  "update_finished_metadata bk md wb =
     (let b0 = (if list_ex ss_ready (md_transfer_states md) then bk_sync bk (snd wb) else snd wb)
      in case fold_res (publish_state bk) (md_transfer_states md) b0 of Inl e \<Rightarrow> Inl e
         | Inr b1 \<Rightarrow> Inr (fold add_wait (md_finished_waits md) (fst wb), b1))"

definition can_transfer_blocks :: "cdiv_fun \<Rightarrow> worker \<Rightarrow> int set result" where
  "can_transfer_blocks cd w =
     map_sum id (\<lambda>bs. \<Union> (set bs))
       (map_res (\<lambda>(_, s). pool_candidate_block_ids cd (ts_plan s)) (wk_on_transfer w))"

definition or_none :: "string set \<Rightarrow> string set option" where
  "or_none s = (if s = {} then None else Some s)"

text \<open>Steps 2 to 4 of \<open>get_finished\<close>: what the backends report, and what it means.\<close>

definition process_results ::
  "'b backend \<Rightarrow> cdiv_fun \<Rightarrow> rat \<Rightarrow> worker \<times> 'b \<Rightarrow>
     ((string set option \<times> string set option) \<times> worker \<times> 'b) result" where
  "process_results bk cd now wb =
     (case bk_pool_poll bk (snd wb) of Inl e \<Rightarrow> Inl e
      | Inr (pool_results, b1) \<Rightarrow>
     (let (load_errors, b2) = bk_pool_errors bk b1
      in case bk_poll bk b2 of Inl e \<Rightarrow> Inl e
      | Inr (transfer_results, b3) \<Rightarrow>
     (case bk_errors bk b3 of Inl e \<Rightarrow> Inl e
      | Inr (transfer_errors, b4) \<Rightarrow>
     (case can_transfer_blocks cd (fst wb) of Inl e \<Rightarrow> Inl e
      | Inr candidates \<Rightarrow>
     (let w1 = (fst wb)\<lparr>wk_load_errors := wk_load_errors (fst wb) \<union> (load_errors - candidates) \<union> transfer_errors\<rparr>
      in case aggregate_recv_finished bk cd now (pr_loads pool_results) (tpr_recvs transfer_results) (w1, b4) of
           Inl e \<Rightarrow> Inl e
         | Inr (finished_recv, w2, b5) \<Rightarrow>
             (let (finished_send, w3) = aggregate_send_finished (map rs_request_id (pr_saves pool_results))
                      (map tf_request_id (tpr_sends transfer_results)) w2
              in Inr ((or_none finished_send, or_none finished_recv), w3, b5)))))))"

definition get_finished ::
  "'b backend \<Rightarrow> cdiv_fun \<Rightarrow> rat \<Rightarrow> nat \<Rightarrow> MTSCConnectorMetadata \<Rightarrow> worker \<times> 'b \<Rightarrow>
     ((string set option \<times> string set option) \<times> worker \<times> 'b) result" where
  "get_finished bk cd now event md wb =
     (case update_load_metadata bk now md wb of Inl e \<Rightarrow> Inl e
      | Inr wb1 \<Rightarrow>
     (case update_save_metadata bk event md wb1 of Inl e \<Rightarrow> Inl e
      | Inr wb2 \<Rightarrow>
     (case update_finished_metadata bk md wb2 of Inl e \<Rightarrow> Inl e
      | Inr wb3 \<Rightarrow> process_results bk cd now wb3)))"

definition get_block_ids_with_load_errors :: "worker \<Rightarrow> int set \<times> worker" where
  "get_block_ids_with_load_errors w = (wk_load_errors w, w\<lparr>wk_load_errors := {}\<rparr>)"

definition build_connector_worker_meta :: "worker \<Rightarrow> MTSCWorkerMetadata option \<times> worker" where
  "build_connector_worker_meta w =
     (if wk_reports w = [] then (None, w)
      else (Some \<lparr>wm_load_reports = wk_reports w\<rparr>, w\<lparr>wk_reports := []\<rparr>))"

definition close_worker :: "'b backend \<Rightarrow> worker \<times> 'b \<Rightarrow> worker \<times> 'b \<times> unit result" where
  "close_worker bk wb =
     (if wk_closed (fst wb) then (fst wb, snd wb, Inr ())
      else ((fst wb)\<lparr>wk_closed := True, wk_reports := []\<rparr>, finally_close_pool bk (bk_close bk (snd wb))))"

end
