(* ===== verification/Worker_Props.thy ===== *)
theory Worker_Props
  imports Worker Cache_Pool_Work
begin

text \<open>
  What makes the worker correct: the suffix it asks the producer for covers every block the Store
  did not deliver, every plan starts its transfer once, a finished request's blocks are released
  only when its I/O is over, and preemption and closing reach both backends.
\<close>

section \<open>The suffix after the Store\<close>

lemma suffix_blocks_Inr:
  assumes "suffix_blocks cd plan actual = Inr sfx"
  shows "length sfx = length (tp_external_block_ids plan)"
    and "length (tp_group_block_sizes plan) = length (tp_external_block_ids plan)"
    and "length (tp_blocks_per_sliding_window plan) = length (tp_external_block_ids plan)"
    and "g < length sfx \<Longrightarrow> sfx ! g = suffix_group cd (actual - tp_computed_tokens plan)
      (tp_external_block_ids plan ! g, tp_group_block_sizes plan ! g, tp_blocks_per_sliding_window plan ! g)"
  using assms by (auto simp: suffix_blocks_def Let_def split: if_splits)

text \<open>A group without a sliding window keeps exactly the external blocks from the usable prefix on.\<close>

lemma suffix_group_full:
  assumes "ceil_div cd" and "0 < bs" and "0 \<le> offset"
  shows "b \<in> set (suffix_group cd offset (ids, bs, 0)) \<longleftrightarrow>
    (\<exists>i. i < length ids \<and> ids ! i = b \<and> offset \<le> int i * bs)"
proof -
  have n: "0 \<le> cd offset bs" by (rule cdiv_nonneg[OF assms])
  have "b \<in> set (drop (nat (cd offset bs)) ids) \<longleftrightarrow> (\<exists>i. i < length ids \<and> ids ! i = b \<and> nat (cd offset bs) \<le> i)"
  proof
    assume "b \<in> set (drop (nat (cd offset bs)) ids)"
    then obtain k where "k < length ids - nat (cd offset bs)" "ids ! (nat (cd offset bs) + k) = b"
      by (auto simp: in_set_conv_nth)
    then show "\<exists>i. i < length ids \<and> ids ! i = b \<and> nat (cd offset bs) \<le> i"
      by (intro exI[of _ "nat (cd offset bs) + k"]) auto
  next
    assume "\<exists>i. i < length ids \<and> ids ! i = b \<and> nat (cd offset bs) \<le> i"
    then obtain i where i: "i < length ids" "ids ! i = b" "nat (cd offset bs) \<le> i" by blast
    then have "drop (nat (cd offset bs)) ids ! (i - nat (cd offset bs)) = b"
      "i - nat (cd offset bs) < length (drop (nat (cd offset bs)) ids)" by auto
    then show "b \<in> set (drop (nat (cd offset bs)) ids)" by (metis nth_mem)
  qed
  also have "\<dots> \<longleftrightarrow> (\<exists>i. i < length ids \<and> ids ! i = b \<and> cd offset bs \<le> int i)" by (simp add: nat_le_iff)
  finally show ?thesis
    by (simp add: suffix_group_def Let_def slice_simps n cdiv_le_iff[OF assms(1,2)] mult.commute)
qed


definition ex_plan :: KVTransferPlan where
  "ex_plan = \<lparr>tp_request_id = ''b'', tp_transfer_id = ''x'', tp_computed_tokens = 0, tp_pool_hit_tokens = 32,
      tp_target_tokens = 64, tp_all_block_ids = [[4, 5], [6]], tp_external_block_ids = [[4, 5], [6]],
      tp_group_block_sizes = [16, 32], tp_blocks_per_sliding_window = [0, 0],
      tp_transfer_params = [(''remote_bootstrap_addr'', PStr ''a''), (''remote_engine_id'', PStr ''e'')], tp_load_id = 3\<rparr>"

definition ex_out :: LoadOutcome where
  "ex_out = projr (load_verdict cdiv_ref ex_pool_cfg (ex_load ''b'') (Inr {5}))"


section \<open>Each transfer starts once\<close>

lemma start_transfer_Inr:
  "start_transfer cd now s actual = Inr (s', ev) \<Longrightarrow> ts_stage s' = TRANSFER_LOADING \<and> ts_plan s' = ts_plan s \<and>
     ts_actual_pool_prefix s' = actual \<and> re_request_id ev = tp_request_id (ts_plan s) \<and>
     re_transfer_id ev = tp_transfer_id (ts_plan s) \<and> re_block_ids ev = ts_suffix_block_ids s' \<and>
     suffix_blocks cd (ts_plan s) actual = Inr (ts_suffix_block_ids s')"
  by (auto simp: start_transfer_def recv_event_of_def split: sum.splits option.splits)

lemma advance_transfer_Inr:
  assumes "advance_transfer cd now results rid s = Some (Inr (s', ev))"
  shows "ts_stage s \<noteq> TRANSFER_LOADING \<and> ts_stage s' = TRANSFER_LOADING \<and> ts_plan s' = ts_plan s \<and>
    re_request_id ev = tp_request_id (ts_plan s) \<and> re_block_ids ev = ts_suffix_block_ids s' \<and>
    suffix_blocks cd (ts_plan s) (ts_actual_pool_prefix s') = Inr (ts_suffix_block_ids s') \<and>
    ts_actual_pool_prefix s' = (case ts_stage s of POOL_LOADING \<Rightarrow> rl_loaded_tokens (the (dict_get results rid))
      | _ \<Rightarrow> tp_computed_tokens (ts_plan s))"
  using assms by (auto simp: advance_transfer_def dest!: start_transfer_Inr split: stage.splits option.splits)

definition startable :: "(string, LoadResult) dict \<Rightarrow> string \<Rightarrow> TransferState \<Rightarrow> bool" where
  "startable results rid s \<longleftrightarrow> ts_stage s = POOL_DONE \<or> (ts_stage s = POOL_LOADING \<and> dict_has results rid)"

lemma advance_startable: "advance_transfer cd now results rid s = None \<longleftrightarrow> \<not> startable results rid s"
  by (auto simp: advance_transfer_def startable_def dict_has_def split: stage.splits option.splits)

text \<open>The effect of the second loop of \<open>_aggregate_recv_finished\<close> on the entries \<open>xs\<close>: each
  startable one is advanced and its event appended, in order; the others stay as they are.\<close>

definition started ::
  "cdiv_fun \<Rightarrow> rat \<Rightarrow> (string, LoadResult) dict \<Rightarrow> (string \<times> TransferState) list \<Rightarrow>
     (string, TransferState) dict \<Rightarrow> RecvEvent list \<Rightarrow> bool" where
  "started cd now results xs t new \<longleftrightarrow>
     list_all2 (\<lambda>(rid, s) ev. \<exists>s'. advance_transfer cd now results rid s = Some (Inr (s', ev)) \<and>
        dict_get t rid = Some s') (filter (\<lambda>(rid, s). startable results rid s) xs) new \<and>
     (\<forall>(rid, s) \<in> set xs. \<not> startable results rid s \<longrightarrow> dict_get t rid = Some s)"

lemma start_loop:
  assumes "fold_res (start_one cd now results) xs (w, evs) = Inr (w', evs')"
    and "distinct (map fst xs)" and "dict_wf (wk_on_transfer w)"
    and "\<forall>(rid, s) \<in> set xs. dict_get (wk_on_transfer w) rid = Some s"
  shows "\<exists>t new. w' = w\<lparr>wk_on_transfer := t\<rparr> \<and> evs' = evs @ new \<and> dict_wf t \<and>
    dict_keys t = dict_keys (wk_on_transfer w) \<and>
    (\<forall>rid. rid \<notin> fst ` set xs \<longrightarrow> dict_get t rid = dict_get (wk_on_transfer w) rid) \<and>
    started cd now results xs t new"
  using assms
proof (induction xs arbitrary: w evs)
  case Nil
  then show ?case by (intro exI[of _ "wk_on_transfer w"] exI[of _ "[]"]) (simp add: started_def)
next
  case (Cons x xs)
  obtain rid s where x: "x = (rid, s)" by (cases x)
  obtain w1 evs1 where one: "start_one cd now results (rid, s) (w, evs) = Inr (w1, evs1)"
    and rest: "fold_res (start_one cd now results) xs (w1, evs1) = Inr (w', evs')"
    using Cons.prems(1) x by (auto split: sum.splits)
  have fresh: "rid \<notin> fst ` set xs" "distinct (map fst xs)" using Cons.prems(2) x by auto
  have rs: "dict_get (wk_on_transfer w) rid = Some s" using Cons.prems(4) x by simp
  show ?case
  proof (cases "startable results rid s")
    case False
    then have w1: "w1 = w" "evs1 = evs" using one advance_startable[of cd now results rid s] by (auto simp: start_one_def)
    have "\<forall>(rid, s) \<in> set xs. dict_get (wk_on_transfer w) rid = Some s" using Cons.prems(4) by simp
    from Cons.IH[OF rest[unfolded w1] fresh(2) Cons.prems(3) this] obtain t new where
      ih: "w' = w\<lparr>wk_on_transfer := t\<rparr>" "evs' = evs @ new" "dict_wf t" "dict_keys t = dict_keys (wk_on_transfer w)"
        "\<forall>rid. rid \<notin> fst ` set xs \<longrightarrow> dict_get t rid = dict_get (wk_on_transfer w) rid"
        "started cd now results xs t new" by blast
    have "started cd now results (x # xs) t new"
      using ih(5,6) fresh(1) rs False x by (simp add: started_def)
    with ih x show ?thesis by (intro exI[of _ t] exI[of _ new]) simp
  next
    case True
    then obtain s' ev where adv: "advance_transfer cd now results rid s = Some (Inr (s', ev))"
      using one advance_startable[of cd now results rid s]
      by (auto simp: start_one_def split: option.splits sum.splits)
    then have w1: "w1 = w\<lparr>wk_on_transfer := dict_set rid s' (wk_on_transfer w)\<rparr>" "evs1 = evs @ [ev]"
      using one by (simp_all add: start_one_def)
    have keys: "dict_keys (wk_on_transfer w1) = dict_keys (wk_on_transfer w)"
      using rs by (simp add: w1 pd.keys_put pd.keys_get)
    have "dict_wf (wk_on_transfer w1)" by (simp add: w1 pd.wf_put Cons.prems(3))
    moreover have "\<forall>(rid, s) \<in> set xs. dict_get (wk_on_transfer w1) rid = Some s"
    proof safe
      fix r u assume "(r, u) \<in> set xs"
      then have "r \<noteq> rid" "dict_get (wk_on_transfer w) r = Some u" using Cons.prems(4) fresh(1) by force+
      then show "dict_get (wk_on_transfer w1) r = Some u" by (simp add: w1 dict_simps)
    qed
    ultimately obtain t new where
      ih: "w' = w1\<lparr>wk_on_transfer := t\<rparr>" "evs' = evs1 @ new" "dict_wf t" "dict_keys t = dict_keys (wk_on_transfer w1)"
        "\<forall>rid. rid \<notin> fst ` set xs \<longrightarrow> dict_get t rid = dict_get (wk_on_transfer w1) rid"
        "started cd now results xs t new" using Cons.IH[OF rest fresh(2)] by blast
    have got: "dict_get t rid = Some s'" using ih(5) fresh(1) by (simp add: w1 dict_simps)
    have "started cd now results (x # xs) t (ev # new)"
      using ih(6) got adv True x by (simp add: started_def)
    moreover have "\<forall>r. r \<notin> fst ` set (x # xs) \<longrightarrow> dict_get t r = dict_get (wk_on_transfer w) r"
      using ih(5) x by (auto simp: w1 dict_simps)
    moreover have "w' = w\<lparr>wk_on_transfer := t\<rparr>" by (simp add: ih(1) w1)
    ultimately show ?thesis using ih(2,3,4) keys w1(2) by (intro exI[of _ t] exI[of _ "ev # new"]) simp
  qed
qed

text \<open>
  The second stage of a two-stage load starts exactly once. When the worker turns the results
  of a step into receives, there is one receive per planned request whose first stage is over, in the
  order of the plans: a plan without Store tokens at once and from its local prefix, the others when
  their load result is in and from the prefix the Store delivered. Each such request moves to
  \<open>TRANSFER_LOADING\<close> with the suffix blocks it asked for recorded; every other request is left
  alone, and one that is already receiving is never started again.
\<close>

theorem transfers_started_once:
  assumes "fold_res (start_one cd now results) (wk_on_transfer w) (w, []) = Inr (w', evs)"
    and "dict_wf (wk_on_transfer w)" and "\<forall>(rid, s) \<in> set (wk_on_transfer w). tp_request_id (ts_plan s) = rid"
  shows "map re_request_id evs = map fst (filter (\<lambda>(rid, s). startable results rid s) (wk_on_transfer w)) \<and>
    distinct (map re_request_id evs) \<and>
    (\<forall>ev \<in> set evs. \<exists>s s'. dict_get (wk_on_transfer w) (re_request_id ev) = Some s \<and>
       dict_get (wk_on_transfer w') (re_request_id ev) = Some s' \<and>
       ts_stage s \<noteq> TRANSFER_LOADING \<and> ts_stage s' = TRANSFER_LOADING \<and> ts_plan s' = ts_plan s \<and>
       ts_actual_pool_prefix s' = (if ts_stage s = POOL_LOADING then rl_loaded_tokens (the (dict_get results (re_request_id ev)))
                                   else tp_computed_tokens (ts_plan s)) \<and>
       suffix_blocks cd (ts_plan s) (ts_actual_pool_prefix s') = Inr (re_block_ids ev) \<and>
       ts_suffix_block_ids s' = re_block_ids ev) \<and>
    (\<forall>rid s. dict_get (wk_on_transfer w) rid = Some s \<longrightarrow> rid \<notin> re_request_id ` set evs \<longrightarrow>
       dict_get (wk_on_transfer w') rid = Some s)"
proof -
  have d: "distinct (map fst (wk_on_transfer w))" using assms(2) by (simp add: dict_wf_def)
  have "\<forall>(rid, s) \<in> set (wk_on_transfer w). dict_get (wk_on_transfer w) rid = Some s"
    using dict_in_get[OF assms(2)] by auto
  from start_loop[OF assms(1) d assms(2) this] obtain t where
    w': "w' = w\<lparr>wk_on_transfer := t\<rparr>" and st: "started cd now results (wk_on_transfer w) t evs" by auto
  let ?F = "filter (\<lambda>(rid, s). startable results rid s) (wk_on_transfer w)"
  have all: "list_all2 (\<lambda>(rid, s) ev. \<exists>s'. advance_transfer cd now results rid s = Some (Inr (s', ev)) \<and>
        dict_get t rid = Some s') ?F evs"
    and rest: "\<forall>(rid, s) \<in> set (wk_on_transfer w). \<not> startable results rid s \<longrightarrow> dict_get t rid = Some s"
    using st by (simp_all add: started_def)
  have ev_of: "\<exists>s'. advance_transfer cd now results (fst (?F ! k)) (snd (?F ! k)) = Some (Inr (s', evs ! k)) \<and>
      dict_get t (fst (?F ! k)) = Some s' \<and> re_request_id (evs ! k) = fst (?F ! k)" if k: "k < length evs" for k
  proof -
    obtain rid s where f: "?F ! k = (rid, s)" by (cases "?F ! k")
    have kl: "k < length ?F" using k list_all2_lengthD[OF all] by simp
    then have "(rid, s) \<in> set (wk_on_transfer w)" using f nth_mem by fastforce
    then have "tp_request_id (ts_plan s) = rid" using assms(3) by auto
    moreover obtain s' where "advance_transfer cd now results rid s = Some (Inr (s', evs ! k))" "dict_get t rid = Some s'"
      using list_all2_nthD[OF all kl] f by auto
    ultimately show ?thesis using advance_transfer_Inr f by fastforce
  qed
  have m: "map re_request_id evs = map fst ?F"
    by (rule nth_equalityI) (use ev_of list_all2_lengthD[OF all] in auto)
  have dis: "distinct (map fst ?F)" using d by (rule distinct_map_filter)
  have "\<exists>s s'. dict_get (wk_on_transfer w) (re_request_id ev) = Some s \<and>
       dict_get (wk_on_transfer w') (re_request_id ev) = Some s' \<and>
       ts_stage s \<noteq> TRANSFER_LOADING \<and> ts_stage s' = TRANSFER_LOADING \<and> ts_plan s' = ts_plan s \<and>
       ts_actual_pool_prefix s' = (if ts_stage s = POOL_LOADING then rl_loaded_tokens (the (dict_get results (re_request_id ev)))
                                   else tp_computed_tokens (ts_plan s)) \<and>
       suffix_blocks cd (ts_plan s) (ts_actual_pool_prefix s') = Inr (re_block_ids ev) \<and>
       ts_suffix_block_ids s' = re_block_ids ev" if e: "ev \<in> set evs" for ev
  proof -
    obtain k where k: "k < length evs" "evs ! k = ev" using e by (auto simp: in_set_conv_nth)
    obtain rid s where f: "?F ! k = (rid, s)" by (cases "?F ! k")
    have kl: "k < length ?F" using k list_all2_lengthD[OF all] by simp
    then have "(rid, s) \<in> set (wk_on_transfer w)" using f nth_mem by fastforce
    then have "dict_get (wk_on_transfer w) rid = Some s" by (rule dict_in_get[OF assms(2)])
    moreover obtain s' where adv: "advance_transfer cd now results rid s = Some (Inr (s', ev))" "dict_get t rid = Some s'"
      and id: "re_request_id ev = rid" using ev_of[OF k(1)] f k(2) by auto
    ultimately show ?thesis using advance_transfer_Inr[OF adv(1)]
      by (intro exI[of _ s] exI[of _ s']) (auto simp: w' id split: stage.splits)
  qed
  moreover have "dict_get (wk_on_transfer w') rid = Some s"
    if g: "dict_get (wk_on_transfer w) rid = Some s" "rid \<notin> re_request_id ` set evs" for rid s
  proof -
    have mem: "(rid, s) \<in> set (wk_on_transfer w)" using g(1) by (rule dict_get_Some_in)
    have "rid \<notin> set (map fst ?F)" using g(2) unfolding m[symmetric] by simp
    then have "\<not> startable results rid s" using mem by force
    then show ?thesis using rest mem by (auto simp: w')
  qed
  ultimately show ?thesis using m dis by simp
qed

definition ex_worker :: worker where
  "ex_worker = (new_worker 0)\<lparr>wk_on_transfer := [(''b'', new_transfer_state 0 ex_plan)]\<rparr>"

definition ex_loaded :: "(string, LoadResult) dict" where
  "ex_loaded = results_dict [\<lparr>rl_request_id = ''b'', rl_loaded_tokens = 16, rl_error = Some ''miss'', rl_elapsed_ms = 4\<rparr>]"

lemma transfers_started_once_witness:
  "\<exists>w' ev. fold_res (start_one cdiv_ref 9 ex_loaded) (wk_on_transfer ex_worker) (ex_worker, []) = Inr (w', [ev]) \<and>
     re_request_id ev = ''b'' \<and> re_block_ids ev = [[5], []] \<and>
     (\<exists>s'. dict_get (wk_on_transfer w') ''b'' = Some s' \<and> ts_stage s' = TRANSFER_LOADING \<and> ts_actual_pool_prefix s' = 16)"
proof -
  define r where "r = projr (fold_res (start_one cdiv_ref 9 ex_loaded) (wk_on_transfer ex_worker) (ex_worker, []))"
  define ev where "ev = hd (snd r)"
  have r: "fold_res (start_one cdiv_ref 9 ex_loaded) (wk_on_transfer ex_worker) (ex_worker, []) = Inr (fst r, [ev])"
    and ids: "re_request_id ev = ''b''" "re_block_ids ev = [[5], []]"
    and l: "rl_loaded_tokens (the (dict_get ex_loaded ''b'')) = 16"
    unfolding ev_def r_def by code_simp+
  have wf: "dict_wf (wk_on_transfer ex_worker)"
    "\<forall>(rid, s) \<in> set (wk_on_transfer ex_worker). tp_request_id (ts_plan s) = rid"
    by (simp_all add: ex_worker_def dict_wf_def new_transfer_state_def ex_plan_def)
  note T = transfers_started_once[OF r wf, THEN conjunct2, THEN conjunct2, THEN conjunct1, rule_format, of ev, unfolded ids(1) l]
  have "ev \<in> set [ev]" by simp
  from T[OF this] obtain s s' where
    "dict_get (wk_on_transfer ex_worker) ''b'' = Some s" "dict_get (wk_on_transfer (fst r)) ''b'' = Some s'"
    "ts_stage s' = TRANSFER_LOADING" "ts_actual_pool_prefix s' = (if ts_stage s = POOL_LOADING then 16
        else tp_computed_tokens (ts_plan s))" by (elim exE conjE)
  moreover have "s = new_transfer_state 0 ex_plan" using calculation(1)
    by (simp add: ex_worker_def dict_get_def)
  moreover have "ts_stage (new_transfer_state 0 ex_plan) = POOL_LOADING"
    by (simp add: new_transfer_state_def ex_plan_def)
  ultimately have "\<exists>s'. dict_get (wk_on_transfer (fst r)) ''b'' = Some s' \<and> ts_stage s' = TRANSFER_LOADING \<and> ts_actual_pool_prefix s' = 16"
    by simp
  then show ?thesis using r ids by blast
qed

section \<open>Releasing a finished request\<close>

text \<open>
  What the worker relies on to release a finished request: a request is \<open>busy\<close> while a Store
  save of it may still read its blocks or publish a result. Only submitting a save makes its request
  busy; a request whose save result was collected, or that was preempted, is not busy any more; no
  other operation makes a request busy. \<open>ok\<close> is the backend's own invariant.
\<close>

locale save_fence =
  fixes bk :: "'b backend" and busy :: "'b \<Rightarrow> string set" and ok :: "'b \<Rightarrow> bool"
  assumes load: "ok b \<Longrightarrow> bk_pool_load bk lev b = Inr b' \<Longrightarrow> ok b' \<and> busy b' \<subseteq> busy b"
    and save: "ok b \<Longrightarrow> bk_pool_save bk sev b = Inr b' \<Longrightarrow> ok b' \<and> busy b' \<subseteq> insert (se_request_id sev) (busy b)"
    and poll: "ok b \<Longrightarrow> bk_pool_poll bk b = Inr (r, b') \<Longrightarrow>
      ok b' \<and> busy b' \<subseteq> busy b - rs_request_id ` set (pr_saves r)"
    and errors: "ok b \<Longrightarrow> bk_pool_errors bk b = (es, b') \<Longrightarrow> ok b' \<and> busy b' \<subseteq> busy b"
    and preempt: "ok b \<Longrightarrow> bk_pool_preempt bk rid b = Inr b' \<Longrightarrow> ok b' \<and> busy b' \<subseteq> busy b - {rid}"
    and sync: "ok b \<Longrightarrow> ok (bk_sync bk b) \<and> busy (bk_sync bk b) \<subseteq> busy b"
    and cancel: "ok b \<Longrightarrow> bk_cancel bk rid tid b = Inr b' \<Longrightarrow> ok b' \<and> busy b' \<subseteq> busy b"
    and prepare: "ok b \<Longrightarrow> bk_prepare bk rid tid b = Inr b' \<Longrightarrow> ok b' \<and> busy b' \<subseteq> busy b"
    and send: "ok b \<Longrightarrow> bk_send bk ev b = Inr b' \<Longrightarrow> ok b' \<and> busy b' \<subseteq> busy b"
    and recv: "ok b \<Longrightarrow> bk_recv bk evs b = Inr b' \<Longrightarrow> ok b' \<and> busy b' \<subseteq> busy b"
    and tpoll: "ok b \<Longrightarrow> bk_poll bk b = Inr (tr, b') \<Longrightarrow> ok b' \<and> busy b' \<subseteq> busy b"
    and terrors: "ok b \<Longrightarrow> bk_errors bk b = Inr (es, b') \<Longrightarrow> ok b' \<and> busy b' \<subseteq> busy b"
    and tpreempt: "ok b \<Longrightarrow> bk_preempt bk rid b = Inr b' \<Longrightarrow> ok b' \<and> busy b' \<subseteq> busy b"
begin

text \<open>Every busy request is tracked, and a wait that counts the save as done tracks none.\<close>

definition tracked :: "worker \<times> 'b \<Rightarrow> bool" where
  "tracked wb \<longleftrightarrow> ok (snd wb) \<and> dict_wf (wk_finished_waits (fst wb)) \<and> (\<forall>rid \<in> busy (snd wb). dict_has (wk_on_save (fst wb)) rid) \<and>
     (\<forall>rid s. dict_get (wk_finished_waits (fst wb)) rid = Some s \<longrightarrow> fs_pool_save_done s \<longrightarrow>
        \<not> dict_has (wk_on_save (fst wb)) rid)"

lemma trackedD: "tracked wb \<Longrightarrow> ok (snd wb)"
  "tracked wb \<Longrightarrow> dict_wf (wk_finished_waits (fst wb))"
  "tracked wb \<Longrightarrow> rid \<in> busy (snd wb) \<Longrightarrow> dict_has (wk_on_save (fst wb)) rid"
  "tracked wb \<Longrightarrow> dict_get (wk_finished_waits (fst wb)) rid = Some s \<Longrightarrow> fs_pool_save_done s \<Longrightarrow>
     \<not> dict_has (wk_on_save (fst wb)) rid"
  by (auto simp: tracked_def)

lemma dict_wf_setdefault: "dict_wf d \<Longrightarrow> dict_wf (dict_setdefault k v d)"
  by (auto simp: dict_setdefault_def pd.wf_put split: option.splits)

text \<open>A step that leaves the save and wait tables alone and makes no request busy.\<close>

lemma tracked_frame:
  assumes "tracked (w, b)" and "ok b'" and "busy b' \<subseteq> busy b"
    and "wk_on_save w' = wk_on_save w" and "wk_finished_waits w' = wk_finished_waits w"
  shows "tracked (w', b')"
  using assms unfolding tracked_def fst_conv snd_conv by (simp only: assms(4,5)) blast

lemma tracked_load:
  assumes "tracked wb" and "submit_load bk m wb = Inr wb'"
  shows "tracked wb'"
proof -
  obtain w b b' where b: "wb = (w, b)" "bk_pool_load bk (load_event_of m) b = Inr b'"
    "wb' = (w\<lparr>wk_on_load := dict_set (lr_request_id m) m (wk_on_load w)\<rparr>, b')"
    using assms(2) by (cases wb) (auto simp: submit_load_def split: sum.splits)
  have "ok b' \<and> busy b' \<subseteq> busy b" using load[OF _ b(2)] trackedD(1)[OF assms(1)] b(1) by simp
  then show ?thesis unfolding b(3) by (intro tracked_frame[OF assms(1)[unfolded b(1)]]) auto
qed

lemma tracked_plan: "tracked (w, b) \<Longrightarrow> tracked (add_plan now plan w, b)"
  using trackedD(1) by (auto simp: add_plan_def intro: tracked_frame)

lemma tracked_save:
  assumes "tracked wb" and "submit_save bk event m wb = Inr wb'"
  shows "tracked wb'"
proof -
  obtain w b where wb: "wb = (w, b)" by (cases wb)
  obtain b' where b': "bk_pool_save bk (save_event_of event m) b = Inr b'"
    and w': "wb' = (w\<lparr>wk_on_save := dict_set (sr_request_id m) m (wk_on_save w),
        wk_finished_waits := (case dict_get (wk_finished_waits w) (sr_request_id m) of None \<Rightarrow> wk_finished_waits w
          | Some s \<Rightarrow> dict_set (sr_request_id m) (s\<lparr>fs_pool_save_done := False\<rparr>) (wk_finished_waits w))\<rparr>, b')"
    using assms(2) by (auto simp: submit_save_def wb Let_def split: sum.splits)
  have "ok b' \<and> busy b' \<subseteq> insert (sr_request_id m) (busy b)"
    using save[OF _ b'] trackedD(1)[OF assms(1)] by (simp add: wb save_event_of_def)
  then show ?thesis using assms(1)
    by (auto simp: tracked_def wb w' dict_simps pd.wf_put split: option.splits if_splits)
qed

lemma tracked_publish: "tracked (w, b) \<Longrightarrow> publish_state bk s b = Inr b' \<Longrightarrow> tracked (w, b')"
proof -
  assume t: "tracked (w, b)" "publish_state bk s b = Inr b'"
  have "ok b' \<and> busy b' \<subseteq> busy b"
  proof (cases "ss_cancelled s")
    case True
    then show ?thesis using t(2) cancel[OF trackedD(1)[OF t(1)]] by (simp add: publish_state_def)
  next
    case False
    then show ?thesis using t(2) send[OF trackedD(1)[OF t(1)]] prepare[OF trackedD(1)[OF t(1)]]
      by (simp add: publish_state_def split: if_splits)
  qed
  then show "tracked (w, b')" by (intro tracked_frame[OF t(1)]) auto
qed

lemma tracked_wait: "tracked (w, b) \<Longrightarrow> tracked (add_wait rw w, b)"
  by (auto simp: tracked_def add_wait_def dict_simps dict_wf_setdefault split: if_splits option.splits)

lemma mark_saved_waits:
  "dict_get (wk_finished_waits (mark_saved rid w)) r = map_option (\<lambda>s. if r = rid then s\<lparr>fs_pool_save_done := True\<rparr> else s)
     (dict_get (wk_finished_waits w) r)"
proof (cases "dict_get (wk_finished_waits w) rid")
  case None
  then have "mark_saved rid w = w\<lparr>wk_on_save := dict_pop rid (wk_on_save w), wk_finished_waits := wk_finished_waits w\<rparr>" by (simp add: mark_saved_def)
  then show ?thesis using None by (cases "dict_get (wk_finished_waits w) r") auto
next
  case (Some s)
  then show ?thesis
    by (cases "r = rid"; cases "dict_get (wk_finished_waits w) r") (simp_all add: mark_saved_def dict_simps)
qed

lemma mark_sent_waits:
  "dict_get (wk_finished_waits (mark_sent rid w)) r = map_option (\<lambda>s. if r = rid then s\<lparr>fs_kv_transfer_done := True\<rparr> else s)
     (dict_get (wk_finished_waits w) r)"
proof (cases "dict_get (wk_finished_waits w) rid")
  case None
  then have "mark_sent rid w = w\<lparr>wk_finished_waits := wk_finished_waits w\<rparr>" by (simp add: mark_sent_def)
  then show ?thesis using None by (cases "dict_get (wk_finished_waits w) r") auto
next
  case (Some s)
  then show ?thesis
    by (cases "r = rid"; cases "dict_get (wk_finished_waits w) r") (simp_all add: mark_sent_def dict_simps)
qed

lemma tracked_saved:
  assumes "tracked (w, b)" and "rid \<notin> busy b"
  shows "tracked (mark_saved rid w, b)"
proof -
  have "dict_has (wk_on_save (mark_saved rid w)) r \<longleftrightarrow> r \<noteq> rid \<and> dict_has (wk_on_save w) r" for r
    by (simp add: mark_saved_def dict_simps)
  moreover have "dict_wf (wk_finished_waits (mark_saved rid w))"
    using trackedD(2)[OF assms(1)] by (auto simp: mark_saved_def pd.wf_put split: option.splits)
  ultimately show ?thesis using assms by (auto simp: tracked_def mark_saved_waits split: if_splits)
qed

lemma tracked_sent:
  assumes "tracked (w, b)"
  shows "tracked (mark_sent rid w, b)"
proof -
  have "wk_on_save (mark_sent rid w) = wk_on_save w" by (simp add: mark_sent_def)
  moreover have "dict_wf (wk_finished_waits (mark_sent rid w))"
    using trackedD(2)[OF assms] by (auto simp: mark_sent_def pd.wf_put split: option.splits)
  ultimately show ?thesis using assms by (auto simp: tracked_def mark_sent_waits split: if_splits)
qed

lemma tracked_forget: "tracked (w, b) \<Longrightarrow> ok b' \<Longrightarrow> busy b' \<subseteq> busy b - {rid} \<Longrightarrow> tracked (forget_request rid w, b')"
  by (auto simp: tracked_def forget_request_def dict_simps pd.wf_pop split: if_splits)

lemma tracked_preempt:
  assumes "tracked wb" and "handle_preemptions bk md wb = Inr wb'"
  shows "tracked wb'"
proof -
  have "tracked wb2" if t: "tracked wb1" "preempt_one bk rid wb1 = Inr wb2" for wb1 wb2 rid
  proof -
    obtain w1 bb where wb1: "wb1 = (w1, bb)" by (cases wb1)
    obtain b1 b2 where b: "bk_pool_preempt bk rid bb = Inr b1" "bk_preempt bk rid b1 = Inr b2"
      "wb2 = (forget_request rid w1, b2)"
      using t(2) by (auto simp: preempt_one_def wb1 split: sum.splits)
    have "ok b1 \<and> busy b1 \<subseteq> busy bb - {rid}" using preempt[OF _ b(1)] trackedD(1)[OF t(1)] wb1 by simp
    then have "ok b2 \<and> busy b2 \<subseteq> busy bb - {rid}" using tpreempt[OF _ b(2)] by blast
    then show ?thesis using tracked_forget t(1) unfolding wb1 b(3) by blast
  qed
  then show ?thesis using assms unfolding handle_preemptions_def by (blast intro: fold_res_inv[where P = tracked])
qed

lemma tracked_updates:
  assumes "tracked wb" and "update_load_metadata bk now md wb = Inr wb1"
    and "update_save_metadata bk event md wb1 = Inr wb2" and "update_finished_metadata bk md wb2 = Inr wb3"
  shows "tracked wb3"
proof -
  obtain w b where l: "fold_res (submit_load bk) (md_pool_loads md) wb = Inr (w, b)"
    "wb1 = (fold (add_plan now) (md_transfer_plans md) w, b)"
    using assms(2) by (auto simp: update_load_metadata_def split: sum.splits)
  have "tracked (w, b)" by (rule fold_res_inv[OF l(1), where P = tracked]) (use assms(1) tracked_load in blast)+
  then have "tracked wb1" unfolding l(2)
    by (rule fold_inv[where P = "\<lambda>w. tracked (w, b)"]) (rule tracked_plan)
  then have t2: "tracked wb2"
    using fold_res_inv[OF assms(3)[unfolded update_save_metadata_def], where P = tracked] tracked_save by blast
  obtain w2 b2 where wb2: "wb2 = (w2, b2)" by (cases wb2)
  define b0 where "b0 = (if list_ex ss_ready (md_transfer_states md) then bk_sync bk b2 else b2)"
  obtain b3 where f: "fold_res (publish_state bk) (md_transfer_states md) b0 = Inr b3"
    "wb3 = (fold add_wait (md_finished_waits md) w2, b3)"
    using assms(4) unfolding update_finished_metadata_def wb2 fst_conv snd_conv b0_def[symmetric] Let_def
    by (auto split: sum.splits)
  have "tracked (w2, b0)" using t2 sync[of b2] trackedD(1)[OF t2] unfolding wb2 b0_def by (auto intro: tracked_frame)
  then have "tracked (w2, b3)" using fold_res_inv[OF f(1), where P = "\<lambda>b. tracked (w2, b)"] tracked_publish by blast
  then show ?thesis unfolding f(2)
    by (rule fold_inv[where P = "\<lambda>w. tracked (w, b3)"]) (rule tracked_wait)
qed

lemma collect_load_frame:
  "wk_on_save (fst (collect_load rr (w, f))) = wk_on_save w \<and> wk_finished_waits (fst (collect_load rr (w, f))) = wk_finished_waits w"
  by (cases rr) (auto simp: collect_load_def Let_def split: option.splits)

lemma collect_recv_frame:
  "wk_on_save (fst (collect_recv now r (w, f))) = wk_on_save w \<and> wk_finished_waits (fst (collect_recv now r (w, f))) = wk_finished_waits w"
  by (auto simp: collect_recv_def Let_def split: option.splits)

lemma start_one_frame: "start_one cd now results rs we = Inr we' \<Longrightarrow>
    wk_on_save (fst we') = wk_on_save (fst we) \<and> wk_finished_waits (fst we') = wk_finished_waits (fst we)"
  by (auto simp: start_one_def split: option.splits sum.splits)

lemma fold_frame:
  assumes "\<And>x v. wk_on_save (fst (f x v)) = wk_on_save (fst v) \<and> wk_finished_waits (fst (f x v)) = wk_finished_waits (fst v)"
  shows "wk_on_save (fst (fold f xs v0)) = wk_on_save (fst v0) \<and> wk_finished_waits (fst (fold f xs v0)) = wk_finished_waits (fst v0)"
  using fold_inv[where P = "\<lambda>v. wk_on_save (fst v) = wk_on_save (fst v0) \<and> wk_finished_waits (fst v) = wk_finished_waits (fst v0)"
      and s = v0 and f = f and xs = xs] assms by simp

lemma tracked_recv:
  assumes "tracked wb" and "aggregate_recv_finished bk cd now loads recvs wb = Inr (fin, wb')"
  shows "tracked wb' \<and> wk_on_save (fst wb') = wk_on_save (fst wb) \<and> wk_finished_waits (fst wb') = wk_finished_waits (fst wb) \<and>
    busy (snd wb') \<subseteq> busy (snd wb)"
proof -
  obtain w b where wb: "wb = (w, b)" by (cases wb)
  obtain w1 f1 where c: "fold collect_load (results_dict loads) (w, {}) = (w1, f1)" by (cases "fold collect_load (results_dict loads) (w, {})")
  obtain w2 evs b2 w3 f3 where s: "fold_res (start_one cd now (results_dict loads)) (wk_on_transfer w1) (w1, []) = Inr (w2, evs)"
    and r: "(if evs = [] then Inr b else bk_recv bk evs b) = Inr b2"
    and d: "fold (collect_recv now) recvs (w2, f1) = (w3, f3)" "wb' = (w3, b2)"
    using assms(2) unfolding aggregate_recv_finished_def wb fst_conv snd_conv c Let_def
    by (auto split: sum.splits prod.splits)
  have 1: "wk_on_save w1 = wk_on_save w \<and> wk_finished_waits w1 = wk_finished_waits w"
    using fold_frame[of collect_load "results_dict loads" "(w, {})"] collect_load_frame c by (metis fst_conv surj_pair)
  have 2: "wk_on_save w2 = wk_on_save w1 \<and> wk_finished_waits w2 = wk_finished_waits w1"
    using fold_res_inv[OF s, where P = "\<lambda>v. wk_on_save (fst v) = wk_on_save w1 \<and> wk_finished_waits (fst v) = wk_finished_waits w1"]
      start_one_frame by fastforce
  have 3: "wk_on_save w3 = wk_on_save w2 \<and> wk_finished_waits w3 = wk_finished_waits w2"
    using fold_frame[of "collect_recv now" recvs "(w2, f1)"] collect_recv_frame d(1) by (metis fst_conv surj_pair)
  have b2: "ok b2 \<and> busy b2 \<subseteq> busy b" using r recv[of b] trackedD(1)[OF assms(1)] by (auto simp: wb split: if_splits)
  have "tracked (w3, b2)" using tracked_frame[of w b b2 w3] assms(1) b2 1 2 3 by (simp add: wb)
  then show ?thesis using 1 2 3 b2 by (simp add: d(2) wb)
qed

lemma saved_waits_back:
  "dict_get (wk_finished_waits (fold mark_saved xs w)) rid = Some s \<Longrightarrow>
     \<exists>s0. dict_get (wk_finished_waits w) rid = Some s0 \<and> fs_wait_for s0 = fs_wait_for s \<and>
       fs_kv_transfer_done s0 = fs_kv_transfer_done s"
proof (induction xs arbitrary: w)
  case (Cons x xs)
  then obtain s1 where s1: "dict_get (wk_finished_waits (mark_saved x w)) rid = Some s1" "fs_wait_for s1 = fs_wait_for s"
    "fs_kv_transfer_done s1 = fs_kv_transfer_done s" by fastforce
  from s1(1) obtain s0 where "dict_get (wk_finished_waits w) rid = Some s0"
    "s1 = (if rid = x then s0\<lparr>fs_pool_save_done := True\<rparr> else s0)" unfolding mark_saved_waits by blast
  with s1(2,3) show ?case by (intro exI[of _ s0]) (simp split: if_splits)
qed simp

lemma sent_waits_back:
  "dict_get (wk_finished_waits (fold mark_sent xs w)) rid = Some s \<Longrightarrow>
     \<exists>s0. dict_get (wk_finished_waits w) rid = Some s0 \<and> fs_wait_for s0 = fs_wait_for s \<and>
       (fs_kv_transfer_done s \<longrightarrow> fs_kv_transfer_done s0 \<or> rid \<in> set xs)"
proof (induction xs arbitrary: w)
  case (Cons x xs)
  then obtain s1 where s1: "dict_get (wk_finished_waits (mark_sent x w)) rid = Some s1" "fs_wait_for s1 = fs_wait_for s"
    "fs_kv_transfer_done s \<longrightarrow> fs_kv_transfer_done s1 \<or> rid \<in> set xs" by fastforce
  from s1(1) obtain s0 where "dict_get (wk_finished_waits w) rid = Some s0"
    "s1 = (if rid = x then s0\<lparr>fs_kv_transfer_done := True\<rparr> else s0)" unfolding mark_sent_waits by blast
  with s1(2,3) show ?case by (intro exI[of _ s0]) (auto split: if_splits)
qed simp

lemma tracked_send:
  assumes "tracked (w, b)" and "busy b \<inter> set saves = {}" and "aggregate_send_finished saves sends w = (fin, w')"
  shows "tracked (w', b)"
    and "rid \<in> fin \<Longrightarrow> \<exists>s. dict_get (wk_finished_waits w) rid = Some s \<and>
      (fw_store_save (fs_wait_for s) \<longrightarrow> rid \<notin> busy b) \<and>
      (fw_kv_transfer (fs_wait_for s) \<longrightarrow> fs_kv_transfer_done s \<or> rid \<in> set sends)"
proof -
  define w1 where "w1 = fold mark_saved saves w"
  define w2 where "w2 = fold mark_sent sends w1"
  have t1: "tracked (w1, b)" unfolding w1_def
    by (rule fold_inv[where P = "\<lambda>w. tracked (w, b)", OF assms(1)]) (use assms(2) tracked_saved in blast)
  have t2: "tracked (w2, b)" unfolding w2_def
    by (rule fold_inv[where P = "\<lambda>w. tracked (w, b)", OF t1]) (rule tracked_sent)
  define ready where "ready = map fst (filter (\<lambda>(_, s). is_finished s) (wk_finished_waits w2))"
  have w': "fin = set ready" "w' = w2\<lparr>wk_finished_waits := fold dict_pop ready (wk_finished_waits w2)\<rparr>"
    using assms(3) by (auto simp: aggregate_send_finished_def Let_def ready_def w1_def w2_def)
  show "tracked (w', b)" using t2 by (auto simp: tracked_def w' dict_simps pd.wf_pops split: if_splits)
  note wf2 = trackedD(2)[OF t2, unfolded fst_conv]
  note back1 = saved_waits_back[of saves w, folded w1_def]
  note back2 = sent_waits_back[of sends w1, folded w2_def]
  show "\<exists>s. dict_get (wk_finished_waits w) rid = Some s \<and>
      (fw_store_save (fs_wait_for s) \<longrightarrow> rid \<notin> busy b) \<and>
      (fw_kv_transfer (fs_wait_for s) \<longrightarrow> fs_kv_transfer_done s \<or> rid \<in> set sends)" if r: "rid \<in> fin"
  proof -
    obtain s where s: "(rid, s) \<in> set (wk_finished_waits w2)" "is_finished s" using r by (auto simp: w' ready_def)
    have g: "dict_get (wk_finished_waits w2) rid = Some s" by (rule dict_in_get[OF wf2 s(1)])
    obtain s1 where s1: "dict_get (wk_finished_waits w1) rid = Some s1" "fs_wait_for s1 = fs_wait_for s"
      "fs_kv_transfer_done s \<longrightarrow> fs_kv_transfer_done s1 \<or> rid \<in> set sends" using back2[OF g] by blast
    obtain s0 where s0: "dict_get (wk_finished_waits w) rid = Some s0" "fs_wait_for s0 = fs_wait_for s1"
      "fs_kv_transfer_done s0 = fs_kv_transfer_done s1" using back1[OF s1(1)] by blast
    have "rid \<notin> busy b" if "fw_store_save (fs_wait_for s)"
      using that s(2) trackedD(3,4)[OF t2, of rid] g by (auto simp: is_finished_def)
    then show ?thesis using s0 s1 s(2) by (intro exI[of _ s0]) (auto simp: is_finished_def)
  qed
qed

lemma tracked_results:
  assumes "tracked wb" and "process_results bk cd now wb = Inr ((fin, fin'), wb')"
  shows "tracked wb'"
    and "fin = Some rids \<Longrightarrow> rid \<in> rids \<Longrightarrow> \<exists>s. dict_get (wk_finished_waits (fst wb)) rid = Some s \<and>
      (fw_store_save (fs_wait_for s) \<longrightarrow> rid \<notin> busy (snd wb'))"
proof -
  obtain w b where wb: "wb = (w, b)" by (cases wb)
  obtain pr b1 es b2 tr b3 tes b4 cands w2 b5 frecv fsend w3 where
    p: "bk_pool_poll bk b = Inr (pr, b1)" "bk_pool_errors bk b1 = (es, b2)" "bk_poll bk b2 = Inr (tr, b3)"
      "bk_errors bk b3 = Inr (tes, b4)"
    and r: "aggregate_recv_finished bk cd now (pr_loads pr) (tpr_recvs tr)
        (w\<lparr>wk_load_errors := wk_load_errors w \<union> (es - cands) \<union> tes\<rparr>, b4) = Inr (frecv, w2, b5)"
    and s: "aggregate_send_finished (map rs_request_id (pr_saves pr)) (map tf_request_id (tpr_sends tr)) w2 = (fsend, w3)"
    and o': "fin = or_none fsend" "wb' = (w3, b5)"
    using assms(2) unfolding process_results_def wb fst_conv snd_conv Let_def
    by (auto split: sum.splits prod.splits)
  have ok: "ok b" using trackedD(1)[OF assms(1)] wb by simp
  note k1 = poll[OF ok p(1)]
  note k2 = errors[OF k1[THEN conjunct1] p(2)]
  note k3 = tpoll[OF k2[THEN conjunct1] p(3)]
  note k4 = terrors[OF k3[THEN conjunct1] p(4)]
  have sub: "busy b4 \<subseteq> busy b - rs_request_id ` set (pr_saves pr)" using k1 k2 k3 k4 by blast
  have "tracked (w\<lparr>wk_load_errors := wk_load_errors w \<union> (es - cands) \<union> tes\<rparr>, b4)"
    by (rule tracked_frame[OF assms(1)[unfolded wb]]) (use k4 sub in auto)
  note t2 = tracked_recv[OF this r, simplified]
  have "busy b5 \<inter> set (map rs_request_id (pr_saves pr)) = {}" using t2 sub by auto
  note t3 = tracked_send[OF t2[THEN conjunct1] this s]
  show "tracked wb'" using t3(1) by (simp add: o')
  show "\<exists>s. dict_get (wk_finished_waits (fst wb)) rid = Some s \<and>
      (fw_store_save (fs_wait_for s) \<longrightarrow> rid \<notin> busy (snd wb'))" if f: "fin = Some rids" "rid \<in> rids"
  proof -
    have "rid \<in> fsend" using f o'(1) by (auto simp: or_none_def split: if_splits)
    from t3(2)[OF this] t2 show ?thesis by (auto simp: o' wb)
  qed
qed

text \<open>The wait that governs the release: the one already kept, or the one the step's metadata adds.\<close>

lemma submit_load_frame: "submit_load bk' m v = Inr v' \<Longrightarrow> wk_finished_waits (fst v') = wk_finished_waits (fst v)"
  by (auto simp: submit_load_def split: sum.splits)

lemma wait_after_updates:
  assumes "update_load_metadata bk now md wb = Inr wb1"
    and "update_save_metadata bk event md wb1 = Inr wb2" and "update_finished_metadata bk md wb2 = Inr wb3"
    and "dict_get (wk_finished_waits (fst wb3)) rid = Some s"
  shows "(\<exists>s0. dict_get (wk_finished_waits (fst wb)) rid = Some s0 \<and> fs_wait_for s = fs_wait_for s0) \<or>
    (\<exists>fw. (rid, fw) \<in> set (md_finished_waits md) \<and> fs_wait_for s = fw)"
proof -
  define Q :: "worker \<Rightarrow> bool" where "Q w \<longleftrightarrow> (\<forall>rid s. dict_get (wk_finished_waits w) rid = Some s \<longrightarrow>
      (\<exists>s0. dict_get (wk_finished_waits (fst wb)) rid = Some s0 \<and> fs_wait_for s = fs_wait_for s0) \<or>
      (\<exists>fw. (rid, fw) \<in> set (md_finished_waits md) \<and> fs_wait_for s = fw))" for w
  obtain w b where l: "fold_res (submit_load bk) (md_pool_loads md) wb = Inr (w, b)"
    "wb1 = (fold (add_plan now) (md_transfer_plans md) w, b)"
    using assms(1) by (auto simp: update_load_metadata_def split: sum.splits)
  have "wk_finished_waits w = wk_finished_waits (fst wb)"
    using fold_res_inv[OF l(1), where P = "\<lambda>v. wk_finished_waits (fst v) = wk_finished_waits (fst wb)"]
      submit_load_frame by fastforce
  moreover have "wk_finished_waits (fold (add_plan now) ps w) = wk_finished_waits w" for ps
    by (rule fold_inv[where P = "\<lambda>v. wk_finished_waits v = wk_finished_waits w"]) (auto simp: add_plan_def)
  ultimately have "Q (fst wb1)" by (auto simp: Q_def l(2))
  moreover have "Q (fst v')" if v: "Q (fst v)" "submit_save bk event m v = Inr v'" for v v' m
  proof -
    obtain va vb where vv: "v = (va, vb)" by (cases v)
    have "fst v' = (fst v)\<lparr>wk_on_save := dict_set (sr_request_id m) m (wk_on_save (fst v)),
        wk_finished_waits := (case dict_get (wk_finished_waits (fst v)) (sr_request_id m) of None \<Rightarrow> wk_finished_waits (fst v)
          | Some s \<Rightarrow> dict_set (sr_request_id m) (s\<lparr>fs_pool_save_done := False\<rparr>) (wk_finished_waits (fst v)))\<rparr>"
      using v(2) unfolding vv fst_conv submit_save_def Let_def by (auto split: sum.splits)
    then show ?thesis using v(1) unfolding Q_def by (auto simp: dict_simps split: option.splits if_splits)
  qed
  ultimately have q2: "Q (fst wb2)"
    using fold_res_inv[OF assms(2)[unfolded update_save_metadata_def], where P = "\<lambda>v. Q (fst v)"] by blast
  obtain b3 where f: "wb3 = (fold add_wait (md_finished_waits md) (fst wb2), b3)"
    using assms(3) unfolding update_finished_metadata_def Let_def by (auto split: sum.splits)
  have "Q (fold add_wait (md_finished_waits md) (fst wb2))"
  proof (rule fold_inv[where P = Q, OF q2])
    fix rw v assume "rw \<in> set (md_finished_waits md)" "Q v"
    then show "Q (add_wait rw v)" unfolding Q_def
      by (cases rw) (auto simp: add_wait_def dict_simps split: if_splits option.splits)
  qed
  then show ?thesis using assms(4) unfolding f Q_def fst_conv by blast
qed

lemma release_after_io:
  assumes "tracked wb" and "get_finished bk cd now event md wb = Inr ((Some rids, fin'), wb')" and "rid \<in> rids"
  shows "tracked wb' \<and> (\<exists>fw. ((\<exists>s0. dict_get (wk_finished_waits (fst wb)) rid = Some s0 \<and> fw = fs_wait_for s0) \<or>
      (rid, fw) \<in> set (md_finished_waits md)) \<and> (fw_store_save fw \<longrightarrow> rid \<notin> busy (snd wb')))"
proof -
  obtain wb1 wb2 wb3 where u: "update_load_metadata bk now md wb = Inr wb1"
    "update_save_metadata bk event md wb1 = Inr wb2" "update_finished_metadata bk md wb2 = Inr wb3"
    and r: "process_results bk cd now wb3 = Inr ((Some rids, fin'), wb')"
    using assms(2) unfolding get_finished_def by (auto split: sum.splits)
  note t = tracked_updates[OF assms(1) u]
  obtain s where s: "dict_get (wk_finished_waits (fst wb3)) rid = Some s"
    "fw_store_save (fs_wait_for s) \<longrightarrow> rid \<notin> busy (snd wb')"
    using tracked_results(2)[OF t r refl assms(3)] by blast
  show ?thesis using tracked_results(1)[OF t r] wait_after_updates[OF u s(1)] s(2) by metis
qed

lemma tracked_get_finished:
  assumes "tracked wb" and "get_finished bk cd now event md wb = Inr (fins, wb')"
  shows "tracked wb'"
proof -
  obtain wb1 wb2 wb3 where u: "update_load_metadata bk now md wb = Inr wb1"
    "update_save_metadata bk event md wb1 = Inr wb2" "update_finished_metadata bk md wb2 = Inr wb3"
    and r: "process_results bk cd now wb3 = Inr (fins, wb')"
    using assms(2) unfolding get_finished_def by (auto split: sum.splits)
  show ?thesis using tracked_results(1)[OF tracked_updates[OF assms(1) u]] r by (cases fins) blast
qed

end

end
