(* ===== verification/Transfer_Send.thy ===== *)
theory Transfer_Send
  imports Transfer_Plan Transfer_Events
begin

text \<open>
  Models the producer half of \<^verbatim>\<open>mtsc/kv_transfer.py\<close>: everything that runs on the sender loop.
  A \<open>SendBlockMeta\<close> is shared and compared by identity, so the metas live in \<open>sn_metas\<close> and are
  named by their position; \<open>sn_reqs_need_send\<close> maps a transfer to one of them. A run of
  \<open>send_kv_to_decode\<close> is a session; it is suspended while it waits for sources to become ready or
  while a batch is being written, and the steps of different sessions may come in any order. What it
  hands to the ROUTER socket is \<open>sx_out\<close>. The decoded payload, the outcome of a write and the
  requests whose wait is over when \<open>asyncio.wait\<close> returns are arguments of a step. A call that fences
  reads (\<open>cancel\<close>, \<open>preempt\<close>) blocks its caller; what is left of it is \<open>sn_fence\<close>. The
  clock is the argument \<open>now\<close>; an expiry that was never set is \<open>None\<close>.
\<close>

section \<open>State\<close>

record SendBlockMeta =
  sb_p_req_id :: string
  sb_transfer_id :: string
  sb_local_block_ids :: block_groups
  sb_ready :: bool
  sb_expire_time :: "rat option"
  sb_need_send :: int
  sb_sent :: int
  sb_sending :: int

definition new_send_meta :: "string \<Rightarrow> string \<Rightarrow> SendBlockMeta" where
  "new_send_meta p_req_id transfer_id =
     \<lparr>sb_p_req_id = p_req_id, sb_transfer_id = transfer_id, sb_local_block_ids = [], sb_ready = False,
      sb_expire_time = None, sb_need_send = 0, sb_sent = 0, sb_sending = 0\<rparr>"

text \<open>A batch that is being written.\<close>

record send_batch =
  sy_ready :: "(string \<times> nat) list"
  sy_expired :: "string list"
  sy_params :: transfer_params
  sy_status :: KVTransferStatus

datatype session_phase = Session_Waiting | Session_Writing send_batch | Session_Over

record session =
  sx_request :: "KVTransferRequest option"
  sx_ranks :: "int list"
  sx_regions :: "TransferRegion list"
  sx_pending :: "(string, nat) dict"
  sx_phase :: session_phase
  sx_out :: "KVTransferResponse list"

text \<open>A fence: the request, the meta whose reads it waits for, the transfers still to cancel.\<close>

type_synonym send_fence = "string \<times> nat \<times> string list"

record sender =
  sn_metas :: "SendBlockMeta list"
  sn_reqs_need_send :: "(string, nat) dict"
  sn_finished :: "string list"
  sn_sessions :: "session list"
  sn_fence :: "send_fence option"

definition new_sender :: sender where
  "new_sender = \<lparr>sn_metas = [], sn_reqs_need_send = [], sn_finished = [], sn_sessions = [], sn_fence = None\<rparr>"

definition upd_meta :: "nat \<Rightarrow> (SendBlockMeta \<Rightarrow> SendBlockMeta) \<Rightarrow> sender \<Rightarrow> sender" where
  "upd_meta i f s = s\<lparr>sn_metas := (sn_metas s)[i := f (sn_metas s ! i)]\<rparr>"

text \<open>\<open>reqs_need_send.setdefault(transfer_id, SendBlockMeta(p_req_id, transfer_id))\<close>.\<close>

definition default_meta :: "string \<Rightarrow> string \<Rightarrow> sender \<Rightarrow> nat \<times> sender" where
  "default_meta p_req_id transfer_id s =
     (case dict_get (sn_reqs_need_send s) transfer_id of
        Some i \<Rightarrow> (i, s)
      | None \<Rightarrow> (length (sn_metas s),
           s\<lparr>sn_metas := sn_metas s @ [new_send_meta p_req_id transfer_id],
             sn_reqs_need_send := dict_set transfer_id (length (sn_metas s)) (sn_reqs_need_send s)\<rparr>))"

section \<open>Publishing sources\<close>

definition prepare_send :: "string \<Rightarrow> string \<Rightarrow> sender \<Rightarrow> nat \<times> sender" where
  "prepare_send request_id transfer_id s =
     (let (i, s1) = default_meta request_id transfer_id s
      in (i, upd_meta i (\<lambda>m. m\<lparr>sb_p_req_id := request_id\<rparr>) s1))"

definition publish_send :: "rat \<Rightarrow> rat \<Rightarrow> SendEvent \<Rightarrow> sender \<Rightarrow> sender" where
  "publish_send timeout now event s =
     (let (i, s1) = prepare_send (sd_request_id event) (sd_transfer_id event) s
      in upd_meta i (\<lambda>m. m\<lparr>sb_local_block_ids := sd_block_ids event, sb_expire_time := Some (now + timeout),
                          sb_ready := True\<rparr>) s1)"

section \<open>Serving a consumer\<close>

definition plain_response :: "KVTransferStatus \<Rightarrow> string list option \<Rightarrow> string \<Rightarrow> KVTransferResponse" where
  "plain_response st err_reqs msg = \<lparr>xs_status = st, xs_ok_reqs = None, xs_err_reqs = err_reqs, xs_err_msg = Some msg\<rparr>"

definition validate_request :: "transfer_cfg \<Rightarrow> KVTransferRequest \<Rightarrow> (int list \<times> TransferRegion list) result" where
  "validate_request cfg request =
     (case to_targets (kt_topo cfg) (xr_remote_tp_size request) of Inl e \<Rightarrow> Inl e
      | Inr ranks \<Rightarrow>
          if xr_remote_tp_rank request \<notin> set ranks
          then Inl (ValueError ''D TP rank is not paired with this P rank'')
          else map_sum id (Pair ranks) (prepare_transfer_regions cfg request))"

text \<open>The waiters of a request: its transfer's meta, created where the producer does not know it yet.\<close>

definition add_pending :: "string \<times> string \<times> block_groups \<Rightarrow> (string, nat) dict \<times> sender \<Rightarrow> (string, nat) dict \<times> sender" where
  "add_pending rtb acc =
     (let (d_req_id, transfer_id, _) = rtb; (pending, s) = acc;
          (i, s1) = default_meta [] transfer_id s
      in (dict_set d_req_id i pending, s1))"

definition open_session :: "transfer_cfg \<Rightarrow> KVTransferRequest result \<Rightarrow> sender \<Rightarrow> sender" where
  "open_session cfg payload s =
     (case (case payload of Inl e \<Rightarrow> Inl e | Inr request \<Rightarrow> map_sum id (Pair request) (validate_request cfg request)) of
        Inl e \<Rightarrow> s\<lparr>sn_sessions := sn_sessions s @ [\<lparr>sx_request = None, sx_ranks = [], sx_regions = [], sx_pending = [],
            sx_phase = Session_Over, sx_out = [plain_response ERROR None (exc_text e)]\<rparr>]\<rparr>
      | Inr (request, ranks, regions) \<Rightarrow>
          (let (pending, s1) = fold add_pending (xr_req_blocks request) ([], s)
           in s1\<lparr>sn_sessions := sn_sessions s1 @ [\<lparr>sx_request = Some request, sx_ranks = ranks, sx_regions = regions,
                sx_pending = pending, sx_phase = (if pending = [] then Session_Over else Session_Waiting), sx_out = []\<rparr>]\<rparr>))"

definition upd_session :: "nat \<Rightarrow> (session \<Rightarrow> session) \<Rightarrow> sender \<Rightarrow> sender" where
  "upd_session k f s = s\<lparr>sn_sessions := (sn_sessions s)[k := f (sn_sessions s ! k)]\<rparr>"

definition session_timeout :: "nat \<Rightarrow> sender \<Rightarrow> sender" where
  "session_timeout k s =
     upd_session k (\<lambda>x. x\<lparr>sx_phase := Session_Over,
        sx_out := sx_out x @ [plain_response FINISH (Some (dict_keys (sx_pending x))) ''Timeout waiting for P side ready.'']\<rparr>) s"

text \<open>One request whose wait is over: its meta joins the batch unless it has been removed since.\<close>

definition take_done ::
  "int list \<Rightarrow> string \<times> nat \<Rightarrow> sender \<times> (string \<times> nat) list \<times> string list \<Rightarrow> sender \<times> (string \<times> nat) list \<times> string list" where
  "take_done ranks di acc =
     (let (d, i) = di; (s, ready, expired) = acc
      in if dict_get (sn_reqs_need_send s) (sb_transfer_id (sn_metas s ! i)) = Some i
         then (upd_meta i (\<lambda>m. m\<lparr>sb_sending := sb_sending m + 1,
                 sb_need_send := (if sb_need_send m = 0 then int (length ranks) else sb_need_send m)\<rparr>) s,
               ready @ [(d, i)], expired)
         else (s, ready, expired @ [d]))"

text \<open>A request of the batch that was written: the last one a source waits for completes it.\<close>

definition count_sent :: "string set \<Rightarrow> string \<times> nat \<Rightarrow> sender \<Rightarrow> sender" where
  "count_sent err di s =
     (let (d, i) = di
      in if d \<in> err then s
         else (let s1 = upd_meta i (\<lambda>m. m\<lparr>sb_sent := sb_sent m + 1\<rparr>) s; m = sn_metas s1 ! i
               in if sb_sent m = sb_need_send m \<and> dict_has (sn_reqs_need_send s1) (sb_transfer_id m)
                  then s1\<lparr>sn_reqs_need_send := dict_pop (sb_transfer_id m) (sn_reqs_need_send s1),
                          sn_finished := (if sb_p_req_id m \<in> set (sn_finished s1) then sn_finished s1
                                          else sn_finished s1 @ [sb_p_req_id m])\<rparr>
                  else s1))"

definition release_reads :: "(string \<times> nat) list \<Rightarrow> sender \<Rightarrow> sender" where
  "release_reads ready s = fold (\<lambda>(_, i). upd_meta i (\<lambda>m. m\<lparr>sb_sending := sb_sending m - 1\<rparr>)) ready s"

text \<open>\<open>x or None\<close> on a list; \<open>err_msg or default\<close> on a text.\<close>

definition list_or_none :: "string list \<Rightarrow> string list option" where
  "list_or_none xs = (if xs = [] then None else Some xs)"

definition msg_or :: "string option \<Rightarrow> string option \<Rightarrow> string option" where
  "msg_or m d = (case m of Some t \<Rightarrow> if t = [] then d else m | None \<Rightarrow> d)"

text \<open>What a batch comes to: the requests written, those in error, the message.\<close>

definition batch_outcome :: "send_batch \<Rightarrow> int \<Rightarrow> string list \<times> string list \<times> string option" where
  "batch_outcome b ret =
     (let err = px_err_reqs (sy_params b);
          ok = filter (\<lambda>d. d \<notin> set err) (map fst (sy_ready b))
      in if px_copies (sy_params b) \<noteq> [] \<and> ret \<noteq> 0
         then ([], err @ ok, Some (''Mooncake transfer engine returned '' @ int_str ret))
         else (ok, err, px_err_msg (sy_params b)))"

definition batch_response :: "send_batch \<Rightarrow> int \<Rightarrow> KVTransferResponse" where
  "batch_response b ret =
     (let (ok, err, msg) = batch_outcome b ret
      in \<lparr>xs_status = sy_status b, xs_ok_reqs = list_or_none ok, xs_err_reqs = list_or_none (err @ sy_expired b),
          xs_err_msg = msg_or msg (if sy_expired b \<noteq> [] then Some ''Source request is no longer available.'' else None)\<rparr>)"

definition finish_batch :: "nat \<Rightarrow> send_batch \<Rightarrow> int \<Rightarrow> sender \<Rightarrow> sender" where
  "finish_batch k b ret s =
     (let (_, err, _) = batch_outcome b ret;
          s1 = release_reads (sy_ready b) (fold (count_sent (set err)) (sy_ready b) s)
      in upd_session k (\<lambda>x. x\<lparr>sx_phase := (if sx_pending x = [] then Session_Over else Session_Waiting),
            sx_out := sx_out x @ [batch_response b ret]\<rparr>) s1)"

text \<open>\<open>asyncio.wait\<close> returns with the waits of \<open>done\<close> over, in the order the loop sees them.\<close>

definition session_wake :: "transfer_cfg \<Rightarrow> nat \<Rightarrow> string list \<Rightarrow> sender \<Rightarrow> sender" where
  "session_wake cfg k dones s =
     (let x = sn_sessions s ! k;
          (s1, ready, expired) = fold (take_done (sx_ranks x)) (map (\<lambda>d. (d, the (dict_get (sx_pending x) d))) dones) (s, [], []);
          pending = fold dict_pop dones (sx_pending x);
          b = \<lparr>sy_ready = ready, sy_expired = expired,
               sy_params = build_transfer_params cfg (map (\<lambda>(d, i). (d, sb_local_block_ids (sn_metas s1 ! i))) ready)
                  (the (sx_request x)) (sx_regions x),
               sy_status = (if pending = [] then FINISH else CONTINUE)\<rparr>;
          s2 = upd_session k (\<lambda>x. x\<lparr>sx_pending := pending, sx_phase := Session_Writing b\<rparr>) s1
      in if px_copies (sy_params b) = [] then finish_batch k b 0 s2 else s2)"

text \<open>The write raises: reads are released, no response is sent.\<close>

definition session_abort :: "nat \<Rightarrow> send_batch \<Rightarrow> sender \<Rightarrow> sender" where
  "session_abort k b s = upd_session k (\<lambda>x. x\<lparr>sx_phase := Session_Over\<rparr>) (release_reads (sy_ready b) s)"

section \<open>Results\<close>

definition expired_send :: "rat \<Rightarrow> sender \<Rightarrow> string \<times> nat \<Rightarrow> bool" where
  "expired_send now s ti \<longleftrightarrow>
     (let m = sn_metas s ! snd ti
      in sb_p_req_id m \<noteq> [] \<and> (case sb_expire_time m of None \<Rightarrow> False | Some t \<Rightarrow> t < now) \<and> sb_sending m = 0)"

definition fetch_finished_sending_reqs :: "rat \<Rightarrow> sender \<Rightarrow> TransferResult list \<times> sender" where
  "fetch_finished_sending_reqs now s =
     (let late = filter (expired_send now s) (sn_reqs_need_send s)
      in (map (\<lambda>rid. \<lparr>tf_request_id = rid, tf_error = None\<rparr>) (sn_finished s) @
          map (\<lambda>(_, i). \<lparr>tf_request_id = sb_p_req_id (sn_metas s ! i), tf_error = Some ''Transfer timed out''\<rparr>) late,
          s\<lparr>sn_finished := [], sn_reqs_need_send := fold dict_pop (map fst late) (sn_reqs_need_send s)\<rparr>))"

section \<open>Fencing reads\<close>

definition discard_finished :: "string \<Rightarrow> sender \<Rightarrow> sender" where
  "discard_finished request_id s = s\<lparr>sn_finished := filter (\<lambda>r. r \<noteq> request_id) (sn_finished s)\<rparr>"

text \<open>\<open>_cancel_send\<close> up to its wait, for one transfer after the other.\<close>

fun cancel_sends :: "string \<Rightarrow> string list \<Rightarrow> sender \<Rightarrow> sender" where
  "cancel_sends request_id [] s = s\<lparr>sn_fence := None\<rparr>"
| "cancel_sends request_id (transfer_id # rest) s =
     (case dict_get (sn_reqs_need_send s) transfer_id of
        None \<Rightarrow> cancel_sends request_id rest (discard_finished request_id s)
      | Some i \<Rightarrow>
          (upd_meta i (\<lambda>m. m\<lparr>sb_ready := True\<rparr>)
             (s\<lparr>sn_reqs_need_send := dict_pop transfer_id (sn_reqs_need_send s)\<rparr>))
          \<lparr>sn_fence := Some (request_id, i, rest)\<rparr>)"

text \<open>The wait is over once nobody reads the source.\<close>

definition fence_step :: "sender \<Rightarrow> sender" where
  "fence_step s =
     (case sn_fence s of None \<Rightarrow> s
      | Some (request_id, i, rest) \<Rightarrow>
          if sb_sending (sn_metas s ! i) \<noteq> 0 then s
          else cancel_sends request_id rest (discard_finished request_id s))"

definition cancel_send :: "string \<Rightarrow> string \<Rightarrow> sender \<Rightarrow> sender" where
  "cancel_send request_id transfer_id s = cancel_sends request_id [transfer_id] s"

definition preempt_send :: "string \<Rightarrow> sender \<Rightarrow> sender" where
  "preempt_send request_id s =
     cancel_sends request_id
       (map fst (filter (\<lambda>(_, i). sb_p_req_id (sn_metas s ! i) = request_id \<and> sb_ready (sn_metas s ! i))
          (sn_reqs_need_send s))) s"

definition abort_all_sends :: "sender \<Rightarrow> sender" where
  "abort_all_sends s =
     fold (\<lambda>i. upd_meta i (\<lambda>m. m\<lparr>sb_ready := True\<rparr>)) (map snd (sn_reqs_need_send s))
       (s\<lparr>sn_reqs_need_send := []\<rparr>)"

section \<open>Steps\<close>

datatype send_act =
    Act_Prepare string string
  | Act_Send rat SendEvent
  | Act_Poll_Sends rat
  | Act_Cancel string string
  | Act_Preempt string
  | Act_Fence_End
  | Act_Abort
  | Act_Serve "KVTransferRequest result"
  | Act_Wake nat "string list"
  | Act_Written nat int
  | Act_Write_Raises nat
  | Act_Timeout nat

definition session_phase_of :: "sender \<Rightarrow> nat \<Rightarrow> session_phase" where
  "session_phase_of s k = (if k < length (sn_sessions s) then sx_phase (sn_sessions s ! k) else Session_Over)"

text \<open>Requests whose waits can be over: open in the session, their source marked ready.\<close>

definition can_wake :: "sender \<Rightarrow> nat \<Rightarrow> string list \<Rightarrow> bool" where
  "can_wake s k dones \<longleftrightarrow> session_phase_of s k = Session_Waiting \<and> dones \<noteq> [] \<and> distinct dones \<and>
     list_all (\<lambda>d. case dict_get (sx_pending (sn_sessions s ! k)) d of None \<Rightarrow> False
                  | Some i \<Rightarrow> sb_ready (sn_metas s ! i)) dones"

text \<open>A caller that fences does nothing else meanwhile; a step whose session is elsewhere cannot happen.\<close>

fun send_step :: "transfer_cfg \<Rightarrow> rat \<Rightarrow> send_act \<Rightarrow> sender \<Rightarrow> sender option" where
  "send_step cfg timeout (Act_Prepare rid tid) s = (if sn_fence s = None then Some (snd (prepare_send rid tid s)) else None)"
| "send_step cfg timeout (Act_Send now ev) s = (if sn_fence s = None then Some (publish_send timeout now ev s) else None)"
| "send_step cfg timeout (Act_Poll_Sends now) s =
     (if sn_fence s = None then Some (snd (fetch_finished_sending_reqs now s)) else None)"
| "send_step cfg timeout (Act_Cancel rid tid) s = (if sn_fence s = None then Some (cancel_send rid tid s) else None)"
| "send_step cfg timeout (Act_Preempt rid) s = (if sn_fence s = None then Some (preempt_send rid s) else None)"
| "send_step cfg timeout Act_Fence_End s =
     (case sn_fence s of None \<Rightarrow> None
      | Some (_, i, _) \<Rightarrow> if sb_sending (sn_metas s ! i) = 0 then Some (fence_step s) else None)"
| "send_step cfg timeout Act_Abort s = (if sn_fence s = None then Some (abort_all_sends s) else None)"
| "send_step cfg timeout (Act_Serve payload) s = Some (open_session cfg payload s)"
| "send_step cfg timeout (Act_Wake k dones) s = (if can_wake s k dones then Some (session_wake cfg k dones s) else None)"
| "send_step cfg timeout (Act_Written k ret) s =
     (case session_phase_of s k of Session_Writing b \<Rightarrow> Some (finish_batch k b ret s) | _ \<Rightarrow> None)"
| "send_step cfg timeout (Act_Write_Raises k) s =
     (case session_phase_of s k of Session_Writing b \<Rightarrow> Some (session_abort k b s) | _ \<Rightarrow> None)"
| "send_step cfg timeout (Act_Timeout k) s =
     (if session_phase_of s k = Session_Waiting then Some (session_timeout k s) else None)"

end
