(* ===== verification/Transfer_Recv.thy ===== *)
theory Transfer_Recv
  imports Transfer_Plan Transfer_Events
begin

text \<open>
  Models the consumer half of \<^verbatim>\<open>mtsc/kv_transfer.py\<close>: everything that runs on the receiver
  loop. A coroutine runs alone between two of its awaits, so each stretch is one step here; the
  steps of the tasks the loop has started (\<open>net_step\<close>) may come in any order. The tasks of
  \<open>handle_new_engine_id\<close> are \<open>rv_queries\<close>, those of \<open>receive_kv_from_single_worker\<close>
  \<open>rv_pulls\<close>; the \<open>pull_metas\<close> dictionaries they share live in \<open>rv_groups\<close> and are
  named by their position, the wake-up events of the bootstrap queries in \<open>rv_wakeups\<close>. A receive
  future is read only through \<open>_receive_futures\<close>, so it is the flag "done" under its request. What
  the network does (a reply of the bootstrap server, a response of a producer, an exception) is an
  argument of the step. An exception that ends a task is lost, as asyncio loses it. Python's
  \<open>repr\<close> of an exception is the configuration's \<open>rc_repr\<close>. \<open>PullReqMeta.expire_time\<close>
  is never read.
\<close>

section \<open>State\<close>

record PullReqMeta =
  pm_d_req_id :: string
  pm_transfer_id :: string
  pm_local_block_ids :: block_groups
  pm_remote_engine_id :: string
  pm_remote_bootstrap_addr :: string
  pm_pull_tasks_count :: int

type_synonym pull_metas = "(string, PullReqMeta) dict"

record receiver_cfg =
  rc_hostname :: string
  rc_rpc_port :: int
  rc_transfer :: transfer_cfg
  rc_repr :: "pyexc \<Rightarrow> string"

text \<open>Where a task of \<open>handle_new_engine_id\<close> stands: not run yet, asking the bootstrap server,
  waiting for another task's answer, or over.\<close>

datatype query_phase = Query_Created | Query_Asking string | Query_Waiting nat | Query_Over

record engine_query =
  eq_engine :: string
  eq_group :: nat
  eq_phase :: query_phase

datatype pull_phase = Pull_Created | Pull_Published | Pull_Over

record pull_task =
  pt_addr :: string
  pt_group :: nat
  pt_remaining :: "string list"
  pt_phase :: pull_phase

type_synonym worker_table = "(int, (int, string) dict) dict"

record receiver =
  rv_recv_events :: "(string, RecvEvent) dict"
  rv_futures :: "(string, bool) dict"
  rv_finished :: "string list"
  rv_failed :: "string set"
  rv_invalid :: "(string, int set) dict"
  rv_retired :: "string set"
  rv_agents :: "(string, worker_table) dict"
  rv_tp_size :: "(string, int) dict"
  rv_pending :: "(string, nat) dict"
  rv_wakeups :: "bool list"
  rv_error :: "string option"
  rv_groups :: "pull_metas list"
  rv_queries :: "engine_query list"
  rv_pulls :: "pull_task list"

definition new_receiver :: receiver where
  "new_receiver =
     \<lparr>rv_recv_events = [], rv_futures = [], rv_finished = [], rv_failed = {}, rv_invalid = [], rv_retired = {},
      rv_agents = [], rv_tp_size = [], rv_pending = [], rv_wakeups = [], rv_error = None, rv_groups = [],
      rv_queries = [], rv_pulls = []\<rparr>"

definition check_receive_error :: "receiver \<Rightarrow> unit result" where
  "check_receive_error s = (case rv_error s of None \<Rightarrow> Inr () | Some t \<Rightarrow> Inl (RuntimeError t))"

section \<open>Completion\<close>

text \<open>\<open>future\<close> is the request whose entry of \<open>_receive_futures\<close> the caller passes.\<close>

definition finish_receive :: "RecvEvent \<Rightarrow> bool \<Rightarrow> string \<Rightarrow> receiver \<Rightarrow> receiver" where
  "finish_receive event failed future s =
     (let rid = re_request_id event
      in s\<lparr>rv_failed := (if failed then insert rid (rv_failed s) else rv_failed s),
           rv_finished := (if rid \<in> set (rv_finished s) then rv_finished s else rv_finished s @ [rid]),
           rv_futures := (if dict_has (rv_futures s) future then dict_set future True (rv_futures s)
                          else rv_futures s)\<rparr>)"

text \<open>The loop of \<open>process_pulling_result\<close>; an exception leaves what was done before it.\<close>

fun count_results :: "nat \<Rightarrow> string list \<Rightarrow> receiver \<Rightarrow> receiver \<times> unit result" where
  "count_results g [] s = (s, Inr ())"
| "count_results g (rid # rids) s =
     (case dict_get (rv_groups s ! g) rid of None \<Rightarrow> (s, Inl (KeyError rid))
      | Some m \<Rightarrow>
          (let c = pm_pull_tasks_count m - 1;
               s1 = s\<lparr>rv_groups := (rv_groups s)[g := dict_set rid (m\<lparr>pm_pull_tasks_count := c\<rparr>) (rv_groups s ! g)]\<rparr>
           in if c = 0
              then (case dict_get (rv_recv_events s) rid of None \<Rightarrow> (s1, Inl (KeyError rid))
                    | Some ev \<Rightarrow> count_results g rids (finish_receive ev (rid \<in> rv_failed s) rid s1))
              else count_results g rids s1))"

definition is_final :: "KVTransferStatus \<Rightarrow> bool" where
  "is_final st \<longleftrightarrow> st = ERROR \<or> st = FINISH"

definition or_empty :: "string list option \<Rightarrow> string list" where
  "or_empty x = (case x of None \<Rightarrow> [] | Some xs \<Rightarrow> xs)"

definition response_errors :: "KVTransferResponse \<Rightarrow> string list \<Rightarrow> string list" where
  "response_errors resp remaining =
     (if is_final (xs_status resp) then filter (\<lambda>r. r \<notin> set (or_empty (xs_ok_reqs resp))) remaining
      else or_empty (xs_err_reqs resp))"

definition process_pulling_result ::
  "KVTransferResponse \<Rightarrow> nat \<Rightarrow> string list \<Rightarrow> receiver \<Rightarrow> (string list \<times> receiver) \<times> unit result" where
  "process_pulling_result resp g remaining s =
     (let ok_reqs = or_empty (xs_ok_reqs resp);
          err_reqs = response_errors resp remaining
      in case count_results g (ok_reqs @ err_reqs) (s\<lparr>rv_failed := rv_failed s \<union> set err_reqs\<rparr>) of
           (s', Inl e) \<Rightarrow> ((remaining, s'), Inl e)
         | (s', Inr _) \<Rightarrow> ((filter (\<lambda>r. r \<notin> set ok_reqs \<and> r \<notin> set err_reqs) remaining, s'), Inr ()))"

section \<open>One producer rank\<close>

definition pull_request :: "receiver_cfg \<Rightarrow> pull_metas \<Rightarrow> KVTransferRequest" where
  "pull_request cfg metas =
     \<lparr>xr_remote_hostname = rc_hostname cfg, xr_remote_port = rc_rpc_port cfg,
      xr_remote_tp_size = kt_tp_size (rc_transfer cfg), xr_remote_tp_rank = kt_tp_rank (rc_transfer cfg),
      xr_req_blocks = dict_map (\<lambda>m. (pm_transfer_id m, pm_local_block_ids m)) metas,
      xr_kv_caches_base_addr = kt_base_addr (rc_transfer cfg), xr_block_lens = kt_block_len (rc_transfer cfg)\<rparr>"

definition set_pull :: "nat \<Rightarrow> string list \<Rightarrow> pull_phase \<Rightarrow> receiver \<Rightarrow> receiver" where
  "set_pull i remaining phase s =
     s\<lparr>rv_pulls := (rv_pulls s)[i := (rv_pulls s ! i)\<lparr>pt_remaining := remaining, pt_phase := phase\<rparr>]\<rparr>"

text \<open>The connection is made and the request is on its way.\<close>

definition pull_publish :: "nat \<Rightarrow> receiver \<Rightarrow> receiver" where
  "pull_publish i s = set_pull i (pt_remaining (rv_pulls s ! i)) Pull_Published s"

definition fence_text :: "receiver_cfg \<Rightarrow> string \<Rightarrow> pyexc \<Rightarrow> string" where
  "fence_text cfg addr exc = ''Lost P completion fence at '' @ addr @ '': '' @ rc_repr cfg exc
     @ ''; worker must stop before KV blocks can be reused''"

text \<open>The exception handler of the task.\<close>

definition pull_fail :: "receiver_cfg \<Rightarrow> nat \<Rightarrow> pyexc \<Rightarrow> receiver \<Rightarrow> receiver" where
  "pull_fail cfg i exc s =
     (let p = rv_pulls s ! i; remaining = pt_remaining p
      in if pt_phase p = Pull_Published \<and> remaining \<noteq> []
         then set_pull i remaining Pull_Over
                (s\<lparr>rv_error := (case rv_error s of None \<Rightarrow> Some (fence_text cfg (pt_addr p) exc) | Some t \<Rightarrow> Some t),
                   rv_futures := dict_map (\<lambda>_. True) (rv_futures s)\<rparr>)
         else (let ((remaining', s'), _) = process_pulling_result
                     \<lparr>xs_status = ERROR, xs_ok_reqs = None, xs_err_reqs = None, xs_err_msg = Some (exc_text exc)\<rparr>
                     (pt_group p) remaining s
               in set_pull i remaining' Pull_Over s'))"

definition pull_response :: "receiver_cfg \<Rightarrow> nat \<Rightarrow> KVTransferResponse \<Rightarrow> receiver \<Rightarrow> receiver" where
  "pull_response cfg i resp s =
     (let p = rv_pulls s ! i
      in case process_pulling_result resp (pt_group p) (pt_remaining p) s of
           (rs, Inl e) \<Rightarrow> pull_fail cfg i e (snd rs)
         | (rs, Inr _) \<Rightarrow> set_pull i (fst rs) (if is_final (xs_status resp) then Pull_Over else Pull_Published) (snd rs))"

section \<open>Starting a group\<close>

definition worker_addr :: "string \<Rightarrow> int \<Rightarrow> receiver \<Rightarrow> string result" where
  "worker_addr engine rank s =
     (case dict_get (rv_agents s) engine of None \<Rightarrow> Inl (KeyError engine)
      | Some workers \<Rightarrow>
     (case dict_get workers rank of None \<Rightarrow> Inl (KeyError (int_str rank))
      | Some pp_map \<Rightarrow>
     (case dict_get pp_map 0 of None \<Rightarrow> Inl (KeyError (int_str 0)) | Some addr \<Rightarrow> Inr addr)))"

fun spawn_pulls :: "string \<Rightarrow> nat \<Rightarrow> int list \<Rightarrow> receiver \<Rightarrow> receiver \<times> unit result" where
  "spawn_pulls engine g [] s = (s, Inr ())"
| "spawn_pulls engine g (rank # ranks) s =
     (case worker_addr engine rank s of Inl e \<Rightarrow> (s, Inl e)
      | Inr addr \<Rightarrow> spawn_pulls engine g ranks
          (s\<lparr>rv_pulls := rv_pulls s @ [\<lparr>pt_addr = addr, pt_group = g,
               pt_remaining = dict_keys (rv_groups s ! g), pt_phase = Pull_Created\<rparr>]\<rparr>))"

definition receive_kv :: "receiver_cfg \<Rightarrow> string \<Rightarrow> nat \<Rightarrow> receiver \<Rightarrow> receiver \<times> unit result" where
  "receive_kv cfg engine g s =
     (case dict_get (rv_tp_size s) engine of None \<Rightarrow> (s, Inl (KeyError engine))
      | Some tp_size \<Rightarrow>
     (case to_targets (kt_topo (rc_transfer cfg)) tp_size of Inl e \<Rightarrow> (s, Inl e)
      | Inr ranks \<Rightarrow>
          spawn_pulls engine g ranks
            (s\<lparr>rv_groups := (rv_groups s)[g :=
                 dict_map (\<lambda>m. m\<lparr>pm_pull_tasks_count := int (length ranks)\<rparr>) (rv_groups s ! g)]\<rparr>)))"

section \<open>Finding the producers of an engine\<close>

text \<open>One entry of the bootstrap server's reply, its rank keys read as integers; an entry of another
  shape is the exception it raises.\<close>

type_synonym bootstrap_entry = "(string \<times> worker_table) result"

definition store_entry :: "bootstrap_entry \<Rightarrow> receiver \<Rightarrow> receiver result" where
  "store_entry entry s =
     (case entry of Inl e \<Rightarrow> Inl e
      | Inr (engine, workers) \<Rightarrow>
          if workers = [] \<or> sort (dict_keys workers) \<noteq> [0..int (length workers) - 1]
          then Inl (ValueError ''Remote P TP workers are not fully registered'')
          else if list_ex (\<lambda>(_, pp_map). sort (dict_keys pp_map) \<noteq> [0]) workers
          then Inl (ValueError ''Mooncake transfer requires PP=1'')
          else Inr (s\<lparr>rv_agents := dict_set engine workers (rv_agents s),
                      rv_tp_size := dict_set engine (int (length workers)) (rv_tp_size s)\<rparr>))"

text \<open>The loop ends at the first bad entry; the ones before it stay.\<close>

fun store_entries :: "bootstrap_entry list \<Rightarrow> receiver \<Rightarrow> receiver" where
  "store_entries [] s = s"
| "store_entries (entry # entries) s =
     (case store_entry entry s of Inl _ \<Rightarrow> s | Inr s' \<Rightarrow> store_entries entries s')"

definition connect_to_prefiller_bootstrap ::
  "string \<Rightarrow> bootstrap_entry list result \<Rightarrow> receiver \<Rightarrow> receiver" where
  "connect_to_prefiller_bootstrap addr reply s =
     (let s1 = (case reply of Inl _ \<Rightarrow> s | Inr entries \<Rightarrow> store_entries entries s)
      in s1\<lparr>rv_pending := dict_pop addr (rv_pending s1),
            rv_wakeups := (case dict_get (rv_pending s1) addr of None \<Rightarrow> rv_wakeups s1
                           | Some e \<Rightarrow> (rv_wakeups s1)[e := True])\<rparr>)"

definition set_query :: "nat \<Rightarrow> query_phase \<Rightarrow> receiver \<Rightarrow> receiver" where
  "set_query i phase s = s\<lparr>rv_queries := (rv_queries s)[i := (rv_queries s ! i)\<lparr>eq_phase := phase\<rparr>]\<rparr>"

fun fail_group :: "pull_metas \<Rightarrow> receiver \<Rightarrow> receiver" where
  "fail_group [] s = s"
| "fail_group ((_, m) # metas) s =
     (case dict_get (rv_recv_events s) (pm_d_req_id m) of None \<Rightarrow> s
      | Some ev \<Rightarrow> fail_group metas (finish_receive ev True (pm_d_req_id m) s))"

text \<open>What \<open>handle_new_engine_id\<close> does once the query has been answered.\<close>

definition after_query :: "receiver_cfg \<Rightarrow> nat \<Rightarrow> receiver \<Rightarrow> receiver" where
  "after_query cfg i s =
     (let q = rv_queries s ! i; s1 = set_query i Query_Over s
      in if \<not> dict_has (rv_agents s) (eq_engine q) then fail_group (rv_groups s ! eq_group q) s1
         else fst (receive_kv cfg (eq_engine q) (eq_group q) s1))"

definition rstrip_slash :: "string \<Rightarrow> string" where
  "rstrip_slash a = rev (dropWhile (\<lambda>c. c = CHR ''/'') (rev a))"

definition query_start :: "nat \<Rightarrow> receiver \<Rightarrow> receiver" where
  "query_start i s =
     (case rv_groups s ! eq_group (rv_queries s ! i) of [] \<Rightarrow> set_query i Query_Over s
      | (_, m) # _ \<Rightarrow>
          (let addr = rstrip_slash (pm_remote_bootstrap_addr m)
           in case dict_get (rv_pending s) addr of
                None \<Rightarrow> set_query i (Query_Asking addr)
                  (s\<lparr>rv_pending := dict_set addr (length (rv_wakeups s)) (rv_pending s),
                     rv_wakeups := rv_wakeups s @ [False]\<rparr>)
              | Some e \<Rightarrow> set_query i (Query_Waiting e) s))"

section \<open>Steps of the receiver loop\<close>

datatype net_event =
    Query_Run nat
  | Query_Reply nat "bootstrap_entry list result"
  | Query_Wake nat
  | Pull_Send nat
  | Pull_Fail nat pyexc
  | Pull_Response nat KVTransferResponse

definition query_in :: "nat \<Rightarrow> receiver \<Rightarrow> query_phase option" where
  "query_in i s = (if i < length (rv_queries s) then Some (eq_phase (rv_queries s ! i)) else None)"

definition pull_in :: "nat \<Rightarrow> receiver \<Rightarrow> pull_phase option" where
  "pull_in i s = (if i < length (rv_pulls s) then Some (pt_phase (rv_pulls s ! i)) else None)"

text \<open>A step whose task is elsewhere changes nothing.\<close>

fun net_step :: "receiver_cfg \<Rightarrow> net_event \<Rightarrow> receiver \<Rightarrow> receiver" where
  "net_step cfg (Query_Run i) s = (if query_in i s = Some Query_Created then query_start i s else s)"
| "net_step cfg (Query_Reply i reply) s =
     (case query_in i s of
        Some (Query_Asking addr) \<Rightarrow> after_query cfg i (connect_to_prefiller_bootstrap addr reply s)
      | _ \<Rightarrow> s)"
| "net_step cfg (Query_Wake i) s =
     (case query_in i s of
        Some (Query_Waiting e) \<Rightarrow> if e < length (rv_wakeups s) \<and> rv_wakeups s ! e then after_query cfg i s else s
      | _ \<Rightarrow> s)"
| "net_step cfg (Pull_Send i) s = (if pull_in i s = Some Pull_Created then pull_publish i s else s)"
| "net_step cfg (Pull_Fail i exc) s =
     (if pull_in i s = Some Pull_Created \<or> pull_in i s = Some Pull_Published then pull_fail cfg i exc s else s)"
| "net_step cfg (Pull_Response i resp) s =
     (if pull_in i s = Some Pull_Published then pull_response cfg i resp s else s)"

section \<open>Calls of the worker\<close>

fun check_events :: "RecvEvent list \<Rightarrow> string set \<Rightarrow> string set \<Rightarrow> unit result" where
  "check_events [] request_ids transfer_ids = Inr ()"
| "check_events (ev # evs) request_ids transfer_ids =
     (if re_request_id ev \<in> request_ids then Inl (ValueError ''Uncollected recv or block errors for request'')
      else if re_transfer_id ev \<in> transfer_ids then Inl (ValueError ''Transfer attempt is retired or duplicated'')
      else check_events evs (insert (re_request_id ev) request_ids) (insert (re_transfer_id ev) transfer_ids))"

definition pull_meta :: "RecvEvent \<Rightarrow> PullReqMeta" where
  "pull_meta ev =
     \<lparr>pm_d_req_id = re_request_id ev, pm_transfer_id = re_transfer_id ev, pm_local_block_ids = re_block_ids ev,
      pm_remote_engine_id = re_remote_engine_id ev, pm_remote_bootstrap_addr = re_bootstrap_addr ev,
      pm_pull_tasks_count = 0\<rparr>"

definition add_pull_meta :: "RecvEvent \<Rightarrow> (string, pull_metas) dict \<Rightarrow> (string, pull_metas) dict" where
  "add_pull_meta ev d =
     dict_set (re_remote_engine_id ev)
       (dict_set (re_request_id ev) (pull_meta ev)
          (case dict_get d (re_remote_engine_id ev) of None \<Rightarrow> [] | Some metas \<Rightarrow> metas)) d"

fun start_load_kv :: "receiver_cfg \<Rightarrow> (string \<times> nat) list \<Rightarrow> receiver \<Rightarrow> receiver \<times> unit result" where
  "start_load_kv cfg [] s = (s, Inr ())"
| "start_load_kv cfg ((engine, g) # rest) s =
     (if \<not> dict_has (rv_agents s) engine
      then start_load_kv cfg rest
             (s\<lparr>rv_queries := rv_queries s @ [\<lparr>eq_engine = engine, eq_group = g, eq_phase = Query_Created\<rparr>]\<rparr>)
      else (case receive_kv cfg engine g s of (s', Inl e) \<Rightarrow> (s', Inl e)
            | (s', Inr _) \<Rightarrow> start_load_kv cfg rest s'))"

definition admit :: "RecvEvent \<Rightarrow> receiver \<Rightarrow> receiver" where
  "admit ev s =
     s\<lparr>rv_futures := dict_set (re_request_id ev) False (rv_futures s),
       rv_recv_events := dict_set (re_request_id ev) ev (rv_recv_events s)\<rparr>"

definition start_receive :: "receiver_cfg \<Rightarrow> RecvEvent list \<Rightarrow> receiver \<Rightarrow> receiver \<times> unit result" where
  "start_receive cfg evs s =
     (case check_receive_error s of Inl e \<Rightarrow> (s, Inl e)
      | Inr _ \<Rightarrow>
     (case check_events evs (set (dict_keys (rv_recv_events s)) \<union> set (dict_keys (rv_invalid s)))
             (rv_retired s \<union> (re_transfer_id \<circ> snd) ` set (rv_recv_events s)) of
        Inl e \<Rightarrow> (s, Inl e)
      | Inr _ \<Rightarrow>
          (let reqs_to_recv = fold add_pull_meta evs [];
               s1 = fold admit evs s;
               n = length (rv_groups s)
           in start_load_kv cfg (zip (map fst reqs_to_recv) [n..<n + length reqs_to_recv])
                (s1\<lparr>rv_groups := rv_groups s1 @ map snd reqs_to_recv\<rparr>))))"

definition collect_finished :: "string \<Rightarrow> TransferResult list \<times> receiver \<Rightarrow> (TransferResult list \<times> receiver) result" where
  "collect_finished rid acc =
     (let (results, s) = acc
      in case dict_get (rv_recv_events s) rid of None \<Rightarrow> Inl (KeyError rid)
         | Some ev \<Rightarrow>
             (let failed = (rid \<in> rv_failed s)
              in Inr (results @ [\<lparr>tf_request_id = rid,
                         tf_error = (if failed then Some ''Transfer receive failed'' else None)\<rparr>],
                   s\<lparr>rv_recv_events := dict_pop rid (rv_recv_events s),
                     rv_invalid := (if failed then dict_set rid (block_set (re_block_ids ev)) (rv_invalid s)
                                    else rv_invalid s),
                     rv_failed := rv_failed s - {rid},
                     rv_retired := insert (re_transfer_id ev) (rv_retired s),
                     rv_futures := dict_pop rid (rv_futures s)\<rparr>)))"

definition fetch_finished_recving_reqs :: "receiver \<Rightarrow> (TransferResult list \<times> receiver) result" where
  "fetch_finished_recving_reqs s =
     (case check_receive_error s of Inl e \<Rightarrow> Inl e
      | Inr _ \<Rightarrow> fold_res collect_finished (rv_finished s) ([], s\<lparr>rv_finished := []\<rparr>))"

definition take_receive_errors :: "receiver \<Rightarrow> (int set \<times> receiver) result" where
  "take_receive_errors s =
     (case check_receive_error s of Inl e \<Rightarrow> Inl e
      | Inr _ \<Rightarrow> Inr (\<Union> (snd ` set (rv_invalid s)), s\<lparr>rv_invalid := []\<rparr>))"

definition retire :: "string \<Rightarrow> receiver \<Rightarrow> receiver" where
  "retire rid s =
     s\<lparr>rv_futures := dict_pop rid (rv_futures s),
       rv_recv_events := dict_pop rid (rv_recv_events s),
       rv_retired := (case dict_get (rv_recv_events s) rid of None \<Rightarrow> rv_retired s
                      | Some ev \<Rightarrow> insert (re_transfer_id ev) (rv_retired s)),
       rv_invalid := dict_pop rid (rv_invalid s)\<rparr>"

text \<open>
  \<open>_wait_for_receives\<close>: \<open>None\<close> as long as an awaited future is not done. The caller is blocked
  until then and only tasks of the loop run, none of which adds or removes a future, so the
  outcome is the one this function gives in the state in which the last awaited future is done.
\<close>

definition wait_for_receives :: "string list option \<Rightarrow> receiver \<Rightarrow> receiver result option" where
  "wait_for_receives request_ids s =
     (case check_receive_error s of Inl e \<Rightarrow> Some (Inl e)
      | Inr _ \<Rightarrow>
          (let ids = (case request_ids of None \<Rightarrow> dict_keys (rv_futures s) | Some rids \<Rightarrow> rids)
           in if list_ex (\<lambda>rid. dict_get (rv_futures s) rid = Some False) ids then None
              else (let s1 = fold retire ids s;
                        s2 = s1\<lparr>rv_finished := filter (\<lambda>r. r \<notin> set ids) (rv_finished s1),
                                rv_failed := rv_failed s1 - set ids\<rparr>
                    in Some (Inr (if request_ids = None then s2\<lparr>rv_invalid := [], rv_retired := {}\<rparr> else s2)))))"

end
