(* ===== verification/Transfer_Recv_Props.thy ===== *)
theory Transfer_Recv_Props
  imports Transfer_Recv
begin

text \<open>
  The receiver loop as a transition system over the calls of the worker and the steps of its tasks,
  in any order. The invariant ties the counters of the shared \<open>pull_metas\<close> to the tasks that
  still have a request open; from it follow that a result is only published once no producer may
  write the request's blocks any more, that a success needs every paired producer's confirmation,
  and that a fence which returns leaves no writer behind.
\<close>

section \<open>Executions\<close>

datatype recv_act = Act_Recv "RecvEvent list" | Act_Net net_event | Act_Poll | Act_Errors | Act_Fence "string list option"

text \<open>\<open>None\<close> where the call is blocked or raises without a new state.\<close>

fun do_act :: "receiver_cfg \<Rightarrow> recv_act \<Rightarrow> receiver \<Rightarrow> receiver option" where
  "do_act cfg (Act_Recv evs) s = Some (fst (start_receive cfg evs s))"
| "do_act cfg (Act_Net n) s = Some (net_step cfg n s)"
| "do_act cfg Act_Poll s = (case fetch_finished_recving_reqs s of Inl _ \<Rightarrow> None | Inr (_, s') \<Rightarrow> Some s')"
| "do_act cfg Act_Errors s = (case take_receive_errors s of Inl _ \<Rightarrow> None | Inr (_, s') \<Rightarrow> Some s')"
| "do_act cfg (Act_Fence ids) s = (case wait_for_receives ids s of Some (Inr s') \<Rightarrow> Some s' | _ \<Rightarrow> None)"

text \<open>What the protocol allows a producer to answer to a request of which \<open>remaining\<close> is open: it
  decides requests that are open, each once.\<close>

definition response_ok :: "string list \<Rightarrow> KVTransferResponse \<Rightarrow> bool" where
  "response_ok remaining resp \<longleftrightarrow>
     set (or_empty (xs_ok_reqs resp)) \<subseteq> set remaining \<and> set (or_empty (xs_err_reqs resp)) \<subseteq> set remaining \<and>
     distinct (or_empty (xs_ok_reqs resp) @ or_empty (xs_err_reqs resp))"

fun legal :: "recv_act \<Rightarrow> receiver \<Rightarrow> bool" where
  "legal (Act_Net (Pull_Response i resp)) s \<longleftrightarrow>
     pull_in i s = Some Pull_Published \<and> response_ok (pt_remaining (rv_pulls s ! i)) resp"
| "legal (Act_Net (Query_Reply i reply)) s \<longleftrightarrow>
     (case query_in i s of Some (Query_Asking _) \<Rightarrow> True | _ \<Rightarrow> False)"
| "legal _ s \<longleftrightarrow> True"

inductive recv_run :: "receiver_cfg \<Rightarrow> recv_act list \<Rightarrow> receiver \<Rightarrow> bool" for cfg where
  run_init: "recv_run cfg [] new_receiver"
| run_step: "recv_run cfg tr s \<Longrightarrow> legal a s \<Longrightarrow> do_act cfg a s = Some s' \<Longrightarrow> recv_run cfg (a # tr) s'"

text \<open>A list of acts run in order; \<open>None\<close> where one of them cannot happen.\<close>

fun exec :: "receiver_cfg \<Rightarrow> recv_act list \<Rightarrow> receiver \<Rightarrow> receiver option" where
  "exec cfg [] s = Some s"
| "exec cfg (a # as) s = (if legal a s then (case do_act cfg a s of None \<Rightarrow> None | Some s' \<Rightarrow> exec cfg as s') else None)"

lemma exec_run: "recv_run cfg tr s \<Longrightarrow> exec cfg as s = Some s' \<Longrightarrow> recv_run cfg (rev as @ tr) s'"
proof (induction as arbitrary: tr s)
  case (Cons a as)
  then obtain s1 where s1: "legal a s" "do_act cfg a s = Some s1" "exec cfg as s1 = Some s'"
    by (auto split: if_splits option.splits)
  from Cons.IH[OF run_step[OF Cons.prems(1) s1(1,2)] s1(3)] show ?case by simp
qed simp

text \<open>What a history says: a producer confirmed a request to task \<open>i\<close>; the bootstrap server
  announced the workers of an engine.\<close>

definition confirmed :: "recv_act list \<Rightarrow> nat \<Rightarrow> string \<Rightarrow> bool" where
  "confirmed tr i rid \<longleftrightarrow>
     (\<exists>resp. Act_Net (Pull_Response i resp) \<in> set tr \<and> rid \<in> set (or_empty (xs_ok_reqs resp)))"

definition announced :: "recv_act list \<Rightarrow> string \<Rightarrow> worker_table \<Rightarrow> bool" where
  "announced tr engine workers \<longleftrightarrow>
     (\<exists>i entries. Act_Net (Query_Reply i (Inr entries)) \<in> set tr \<and> Inr (engine, workers) \<in> set entries)"

lemma confirmed_mono: "confirmed tr i rid \<Longrightarrow> confirmed (a # tr) i rid"
  by (auto simp: confirmed_def)

lemma announced_mono: "announced tr e ws \<Longrightarrow> announced (a # tr) e ws"
  by (auto simp: announced_def)

section \<open>The invariant\<close>

text \<open>The group that holds the current attempt of a request is the youngest that names it.\<close>

definition cur :: "pull_metas list \<Rightarrow> string \<Rightarrow> nat \<Rightarrow> bool" where
  "cur gs rid g \<longleftrightarrow> g < length gs \<and> dict_has (gs ! g) rid \<and>
     (\<forall>h. g < h \<and> h < length gs \<longrightarrow> \<not> dict_has (gs ! h) rid)"

definition waiting :: "receiver \<Rightarrow> nat \<Rightarrow> string \<Rightarrow> bool" where
  "waiting s g rid \<longleftrightarrow> cur (rv_groups s) rid g \<and> dict_has (rv_recv_events s) rid \<and>
     dict_get (rv_futures s) rid = Some False \<and> rid \<notin> set (rv_finished s)"

definition pulls_of :: "nat \<Rightarrow> receiver \<Rightarrow> pull_task list" where
  "pulls_of g s = filter (\<lambda>p. pt_group p = g) (rv_pulls s)"

definition answers :: "nat \<Rightarrow> string \<Rightarrow> receiver \<Rightarrow> nat" where
  "answers g rid s = length (filter (\<lambda>p. rid \<notin> set (pt_remaining p)) (pulls_of g s))"

definition open_query :: "receiver \<Rightarrow> nat \<Rightarrow> bool" where
  "open_query s g \<longleftrightarrow> (\<exists>q \<in> set (rv_queries s). eq_group q = g \<and> eq_phase q \<noteq> Query_Over)"

definition paired :: "worker_table \<Rightarrow> pull_task \<Rightarrow> int \<Rightarrow> bool" where
  "paired workers p rank \<longleftrightarrow> (\<exists>pp. dict_get workers rank = Some pp \<and> dict_get pp 0 = Some (pt_addr p))"

definition launched :: "receiver_cfg \<Rightarrow> recv_act list \<Rightarrow> receiver \<Rightarrow> nat \<Rightarrow> bool" where
  "launched cfg tr s g \<longleftrightarrow> (\<exists>e ws ranks. announced tr e ws \<and>
     to_targets (kt_topo (rc_transfer cfg)) (int (length ws)) = Inr ranks \<and>
     length (pulls_of g s) \<le> length ranks \<and>
     list_all2 (paired ws) (pulls_of g s) (take (length (pulls_of g s)) ranks) \<and>
     (\<forall>rid m. dict_get (rv_groups s ! g) rid = Some m \<longrightarrow>
        pm_remote_engine_id m = e \<and> pm_pull_tasks_count m = int (length ranks) - int (answers g rid s)))"

definition meta_for :: "PullReqMeta \<Rightarrow> RecvEvent \<Rightarrow> bool" where
  "meta_for m ev \<longleftrightarrow> pm_transfer_id m = re_transfer_id ev \<and> pm_local_block_ids m = re_block_ids ev \<and>
     pm_remote_engine_id m = re_remote_engine_id ev"

text \<open>The parts of the invariant.\<close>

definition agents_ok :: "recv_act list \<Rightarrow> receiver \<Rightarrow> bool" where
  "agents_ok tr s \<longleftrightarrow> (\<forall>e ws. dict_get (rv_agents s) e = Some ws \<longrightarrow>
     announced tr e ws \<and> dict_get (rv_tp_size s) e = Some (int (length ws)))"

definition groups_ok :: "receiver_cfg \<Rightarrow> recv_act list \<Rightarrow> receiver \<Rightarrow> bool" where
  "groups_ok cfg tr s \<longleftrightarrow> (\<forall>g < length (rv_groups s). dict_wf (rv_groups s ! g) \<and>
     (\<forall>rid m. dict_get (rv_groups s ! g) rid = Some m \<longrightarrow> pm_d_req_id m = rid) \<and>
     (pulls_of g s \<noteq> [] \<longrightarrow> \<not> open_query s g \<and> launched cfg tr s g))"

definition queries_ok :: "receiver \<Rightarrow> bool" where
  "queries_ok s \<longleftrightarrow>
     (\<forall>i j. i < length (rv_queries s) \<and> j < length (rv_queries s) \<and> eq_phase (rv_queries s ! i) \<noteq> Query_Over \<and>
        eq_phase (rv_queries s ! j) \<noteq> Query_Over \<and> eq_group (rv_queries s ! i) = eq_group (rv_queries s ! j) \<longrightarrow> i = j) \<and>
     (\<forall>g. open_query s g \<longrightarrow> g < length (rv_groups s) \<and> (\<forall>rid. dict_has (rv_groups s ! g) rid \<longrightarrow> waiting s g rid) \<and>
        (\<forall>rid m. dict_get (rv_groups s ! g) rid = Some m \<longrightarrow> (\<forall>q \<in> set (rv_queries s).
           eq_group q = g \<and> eq_phase q \<noteq> Query_Over \<longrightarrow> pm_remote_engine_id m = eq_engine q)))"

definition pulls_ok :: "receiver \<Rightarrow> bool" where
  "pulls_ok s \<longleftrightarrow> (\<forall>p \<in> set (rv_pulls s). pt_group p < length (rv_groups s) \<and> distinct (pt_remaining p) \<and>
     (\<forall>rid \<in> set (pt_remaining p). waiting s (pt_group p) rid))"

definition finished_ok :: "receiver \<Rightarrow> bool" where
  "finished_ok s \<longleftrightarrow> distinct (rv_finished s) \<and> (\<forall>rid \<in> set (rv_finished s). dict_has (rv_recv_events s) rid \<and>
     (rid \<in> rv_failed s \<or> (\<exists>g m. cur (rv_groups s) rid g \<and> pulls_of g s \<noteq> [] \<and>
        dict_get (rv_groups s ! g) rid = Some m \<and> pm_pull_tasks_count m = 0)))"

definition acks_ok :: "recv_act list \<Rightarrow> receiver \<Rightarrow> bool" where
  "acks_ok tr s \<longleftrightarrow> (\<forall>i < length (rv_pulls s). \<forall>rid.
     cur (rv_groups s) rid (pt_group (rv_pulls s ! i)) \<and> dict_has (rv_recv_events s) rid \<and>
     rid \<notin> set (pt_remaining (rv_pulls s ! i)) \<longrightarrow> rid \<in> rv_failed s \<or> confirmed tr i rid)"

definition events_ok :: "receiver \<Rightarrow> bool" where
  "events_ok s \<longleftrightarrow> dict_wf (rv_recv_events s) \<and> (\<forall>rid ev. dict_get (rv_recv_events s) rid = Some ev \<longrightarrow>
     re_request_id ev = rid \<and> dict_has (rv_futures s) rid \<and>
     (\<forall>g m. cur (rv_groups s) rid g \<longrightarrow> dict_get (rv_groups s ! g) rid = Some m \<longrightarrow> meta_for m ev))"

definition recv_inv :: "receiver_cfg \<Rightarrow> recv_act list \<Rightarrow> receiver \<Rightarrow> bool" where
  "recv_inv cfg tr s \<longleftrightarrow> agents_ok tr s \<and> groups_ok cfg tr s \<and> queries_ok s \<and> pulls_ok s \<and> finished_ok s \<and>
     acks_ok tr s \<and> events_ok s"

lemma recv_inv_init: "recv_inv cfg [] new_receiver"
  by (simp add: recv_inv_def agents_ok_def groups_ok_def queries_ok_def pulls_ok_def finished_ok_def acks_ok_def
      events_ok_def new_receiver_def open_query_def dict_simps pd.wf_empty)

lemma cur_unique: "cur gs rid g \<Longrightarrow> cur gs rid h \<Longrightarrow> g = h"
  by (metis cur_def linorder_neqE_nat)

lemma cur_cong:
  assumes "length gs' = length gs" and "\<And>h r. dict_has (gs' ! h) r \<longleftrightarrow> dict_has (gs ! h) r"
  shows "cur gs' = cur gs"
  using assms by (intro ext) (simp add: cur_def)

lemma inv_mono: "recv_inv cfg tr s \<Longrightarrow> recv_inv cfg (a # tr) s"
  unfolding recv_inv_def agents_ok_def groups_ok_def acks_ok_def launched_def
  by (blast intro: announced_mono confirmed_mono)

section \<open>Answers\<close>

text \<open>The effect of counting the answers \<open>rids\<close> of a task of group \<open>g\<close>, in closed form.\<close>

definition done_rids :: "nat \<Rightarrow> string list \<Rightarrow> receiver \<Rightarrow> string set" where
  "done_rids g rids s = {r \<in> set rids. \<exists>m. dict_get (rv_groups s ! g) r = Some m \<and> pm_pull_tasks_count m = 1}"

definition counted :: "nat \<Rightarrow> string list \<Rightarrow> receiver \<Rightarrow> receiver \<Rightarrow> bool" where
  "counted g rids s s' \<longleftrightarrow>
     rv_recv_events s' = rv_recv_events s \<and> rv_failed s' = rv_failed s \<and> rv_pulls s' = rv_pulls s \<and>
     rv_queries s' = rv_queries s \<and> rv_agents s' = rv_agents s \<and> rv_tp_size s' = rv_tp_size s \<and>
     rv_error s' = rv_error s \<and> length (rv_groups s') = length (rv_groups s) \<and>
     (\<forall>h. h \<noteq> g \<longrightarrow> rv_groups s' ! h = rv_groups s ! h) \<and>
     (dict_wf (rv_groups s ! g) \<longrightarrow> dict_wf (rv_groups s' ! g)) \<and>
     (\<forall>r. dict_get (rv_groups s' ! g) r = map_option (\<lambda>m. if r \<in> set rids
        then m\<lparr>pm_pull_tasks_count := pm_pull_tasks_count m - 1\<rparr> else m) (dict_get (rv_groups s ! g) r)) \<and>
     set (rv_finished s') = set (rv_finished s) \<union> done_rids g rids s \<and>
     (distinct (rv_finished s) \<longrightarrow> distinct (rv_finished s')) \<and>
     (\<forall>r. dict_get (rv_futures s') r = (if r \<in> done_rids g rids s \<and> dict_has (rv_futures s) r then Some True
        else dict_get (rv_futures s) r))"

lemma counted_refl: "counted g [] s s"
  by (simp add: counted_def done_rids_def option.map_ident)

lemma count_results_counted:
  assumes "distinct rids" and "g < length (rv_groups s)"
    and "\<And>r. r \<in> set rids \<Longrightarrow> dict_has (rv_groups s ! g) r"
    and "\<And>r. r \<in> set rids \<Longrightarrow> \<exists>ev. dict_get (rv_recv_events s) r = Some ev \<and> re_request_id ev = r"
  shows "\<exists>s'. count_results g rids s = (s', Inr ()) \<and> counted g rids s s'"
  using assms
proof (induction rids arbitrary: s)
  case Nil
  then show ?case using counted_refl by auto
next
  case (Cons r rids)
  obtain m where m: "dict_get (rv_groups s ! g) r = Some m" using Cons.prems(3)[of r] by (auto simp: dict_has_def)
  obtain ev where ev: "dict_get (rv_recv_events s) r = Some ev" "re_request_id ev = r" using Cons.prems(4)[of r] by auto
  define c where "c = pm_pull_tasks_count m - 1"
  define s1 where "s1 = s\<lparr>rv_groups := (rv_groups s)[g := dict_set r (m\<lparr>pm_pull_tasks_count := c\<rparr>) (rv_groups s ! g)]\<rparr>"
  define s2 where "s2 = (if c = 0 then finish_receive ev (r \<in> rv_failed s) r s1 else s1)"
  have eq: "count_results g (r # rids) s = count_results g rids s2"
    by (simp add: m ev(1) s2_def s1_def c_def Let_def)
  have groups: "rv_groups s2 = (rv_groups s)[g := dict_set r (m\<lparr>pm_pull_tasks_count := c\<rparr>) (rv_groups s ! g)]"
    by (simp add: s2_def s1_def finish_receive_def Let_def)
  have same: "rv_recv_events s2 = rv_recv_events s" "rv_failed s2 = rv_failed s" "rv_pulls s2 = rv_pulls s"
    "rv_queries s2 = rv_queries s" "rv_agents s2 = rv_agents s" "rv_tp_size s2 = rv_tp_size s" "rv_error s2 = rv_error s"
    by (auto simp: s2_def s1_def finish_receive_def Let_def ev(2))
  have get2: "dict_get (rv_groups s2 ! g) x = (if x = r then Some (m\<lparr>pm_pull_tasks_count := c\<rparr>)
      else dict_get (rv_groups s ! g) x)" for x
    using Cons.prems(2) by (simp add: groups dict_simps)
  obtain s' where s': "count_results g rids s2 = (s', Inr ())" "counted g rids s2 s'"
    using Cons.IH[of s2] Cons.prems by (auto simp: same groups dict_simps)
  have d: "done_rids g (r # rids) s = (if c = 0 then {r} else {}) \<union> done_rids g rids s2"
    using Cons.prems(1) by (auto simp: done_rids_def get2 m c_def)
  have fin: "set (rv_finished s2) = set (rv_finished s) \<union> (if c = 0 then {r} else {})"
    "distinct (rv_finished s) \<longrightarrow> distinct (rv_finished s2)"
    by (auto simp: s2_def s1_def finish_receive_def Let_def ev(2))
  have fut: "dict_get (rv_futures s2) x = (if x = r \<and> c = 0 \<and> dict_has (rv_futures s) x then Some True
      else dict_get (rv_futures s) x)" for x
    by (auto simp: s2_def s1_def finish_receive_def Let_def dict_simps)
  have wf2: "dict_wf (rv_groups s ! g) \<longrightarrow> dict_wf (rv_groups s2 ! g)"
    using Cons.prems(2) by (simp add: groups pd.wf_put)
  have 1: "set (rv_finished s') = set (rv_finished s) \<union> done_rids g (r # rids) s"
    using s'(2) fin(1) unfolding counted_def d by auto
  have has: "dict_has (rv_futures s2) x \<longleftrightarrow> dict_has (rv_futures s) x" for x
    by (auto simp: dict_has_def fut)
  have 2: "dict_get (rv_futures s') x = (if x \<in> done_rids g (r # rids) s \<and> dict_has (rv_futures s) x then Some True
        else dict_get (rv_futures s) x)" for x
    using s'(2) unfolding counted_def d by (auto simp: fut has)
  have 3: "dict_get (rv_groups s' ! g) x = map_option (\<lambda>m. if x \<in> set (r # rids)
        then m\<lparr>pm_pull_tasks_count := pm_pull_tasks_count m - 1\<rparr> else m) (dict_get (rv_groups s ! g) x)" for x
    using s'(2) Cons.prems(1) unfolding counted_def by (cases "x = r") (simp_all add: get2 m c_def)
  have 4: "rv_groups s' ! h = rv_groups s ! h" if "h \<noteq> g" for h
    using s'(2) that unfolding counted_def by (simp add: groups)
  have "counted g (r # rids) s s'"
    using s'(2) 1 2 3 4 wf2 fin(2) unfolding counted_def by (simp add: same groups)
  then show ?case using eq s'(1) by auto
qed

lemma length_filter_update:
  "i < length xs \<Longrightarrow> int (length (filter P (xs[i := y]))) =
     int (length (filter P xs)) - of_bool (P (xs ! i)) + of_bool (P y)"
proof (induction xs arbitrary: i)
  case (Cons x xs)
  then show ?case by (cases i) auto
qed simp

lemma pulls_of_nonempty: "i < length (rv_pulls s) \<Longrightarrow> pulls_of (pt_group (rv_pulls s ! i)) s \<noteq> []"
  by (auto simp: pulls_of_def filter_empty_conv)

lemma waiting_cong:
  assumes "cur (rv_groups s') = cur (rv_groups s)" and "dict_has (rv_recv_events s') rid \<longleftrightarrow> dict_has (rv_recv_events s) rid"
    and "dict_get (rv_futures s') rid = dict_get (rv_futures s) rid" and "rid \<in> set (rv_finished s') \<longleftrightarrow> rid \<in> set (rv_finished s)"
  shows "waiting s' g rid \<longleftrightarrow> waiting s g rid"
  using assms by (simp add: waiting_def)

lemma map_filter_update:
  "i < length xs \<Longrightarrow> P y = P (xs ! i) \<Longrightarrow> f y = f (xs ! i) \<Longrightarrow> map f (filter P (xs[i := y])) = map f (filter P xs)"
proof (induction xs arbitrary: i)
  case (Cons x xs)
  then show ?case by (cases i) auto
qed simp

lemma paired_addrs: "list_all2 (paired ws) ps rs \<longleftrightarrow>
    list_all2 (\<lambda>a r. \<exists>pp. dict_get ws r = Some pp \<and> dict_get pp 0 = Some a) (map pt_addr ps) rs"
  by (simp add: list.rel_map paired_def[abs_def])

lemma set_pull_simps [simp]:
  "rv_pulls (set_pull i rs ph s) = (rv_pulls s)[i := (rv_pulls s ! i)\<lparr>pt_remaining := rs, pt_phase := ph\<rparr>]"
  "rv_groups (set_pull i rs ph s) = rv_groups s" "rv_recv_events (set_pull i rs ph s) = rv_recv_events s"
  "rv_futures (set_pull i rs ph s) = rv_futures s" "rv_finished (set_pull i rs ph s) = rv_finished s"
  "rv_failed (set_pull i rs ph s) = rv_failed s" "rv_agents (set_pull i rs ph s) = rv_agents s"
  "rv_tp_size (set_pull i rs ph s) = rv_tp_size s" "rv_queries (set_pull i rs ph s) = rv_queries s"
  "rv_error (set_pull i rs ph s) = rv_error s" "rv_invalid (set_pull i rs ph s) = rv_invalid s"
  "rv_retired (set_pull i rs ph s) = rv_retired s"
  by (simp_all add: set_pull_def)

lemma answers_all: "answers g rid s = length (filter (\<lambda>p. pt_group p = g \<and> rid \<notin> set (pt_remaining p)) (rv_pulls s))"
  by (simp add: answers_def pulls_of_def conj_commute)

lemma answers_set_pull:
  assumes "i < length (rv_pulls s)" and "set rs \<subseteq> set (pt_remaining (rv_pulls s ! i))"
  shows "int (answers g rid (set_pull i rs ph s)) = int (answers g rid s) +
    of_bool (g = pt_group (rv_pulls s ! i) \<and> rid \<in> set (pt_remaining (rv_pulls s ! i)) \<and> rid \<notin> set rs)"
  using assms(2) unfolding answers_all set_pull_simps length_filter_update[OF assms(1)] by auto

lemma pulls_of_set_pull:
  assumes "i < length (rv_pulls s)"
  shows "map pt_addr (pulls_of g (set_pull i rs ph s)) = map pt_addr (pulls_of g s)"
    and "length (pulls_of g (set_pull i rs ph s)) = length (pulls_of g s)"
    and "pulls_of g (set_pull i rs ph s) = [] \<longleftrightarrow> pulls_of g s = []"
proof -
  show m: "map pt_addr (pulls_of g (set_pull i rs ph s)) = map pt_addr (pulls_of g s)"
    using assms by (simp add: pulls_of_def map_filter_update)
  from arg_cong[OF this, of length] show "length (pulls_of g (set_pull i rs ph s)) = length (pulls_of g s)" by simp
  from arg_cong[OF m, of "\<lambda>x. x = []"] show "pulls_of g (set_pull i rs ph s) = [] \<longleftrightarrow> pulls_of g s = []" by simp
qed

text \<open>A request all of whose answers are in is open nowhere.\<close>

lemma all_answered:
  assumes "length (pulls_of g s) \<le> answers g rid s" and "p \<in> set (pulls_of g s)"
  shows "rid \<notin> set (pt_remaining p)"
  using assms length_filter_less[of p "pulls_of g s" "\<lambda>p. rid \<notin> set (pt_remaining p)"]
  by (auto simp: answers_def)

lemma groups_okD:
  assumes "groups_ok cfg tr s" and "g < length (rv_groups s)"
  shows "dict_wf (rv_groups s ! g)" and "dict_get (rv_groups s ! g) rid = Some m \<Longrightarrow> pm_d_req_id m = rid"
    and "pulls_of g s \<noteq> [] \<Longrightarrow> \<not> open_query s g \<and> launched cfg tr s g"
  using assms by (auto simp: groups_ok_def)

lemma pulls_okD:
  assumes "pulls_ok s" and "i < length (rv_pulls s)"
  shows "pt_group (rv_pulls s ! i) < length (rv_groups s)" and "distinct (pt_remaining (rv_pulls s ! i))"
    and "rid \<in> set (pt_remaining (rv_pulls s ! i)) \<Longrightarrow> waiting s (pt_group (rv_pulls s ! i)) rid"
  using assms unfolding pulls_ok_def by (auto dest: nth_mem)

lemma finished_event: "events_ok s \<Longrightarrow> dict_has (rv_recv_events s) r \<Longrightarrow>
    \<exists>ev. dict_get (rv_recv_events s) r = Some ev \<and> re_request_id ev = r"
  by (auto simp: events_ok_def dict_has_def)

lemma launched_set_pull:
  assumes l: "launched cfg tr s g" and i: "i < length (rv_pulls s)"
    and rs: "set rs \<subseteq> set (pt_remaining (rv_pulls s ! i))" and ds: "set ds = set (pt_remaining (rv_pulls s ! i)) - set rs"
    and t: "rv_pulls t = rv_pulls s"
      "\<And>r. dict_get (rv_groups t ! g) r = map_option (\<lambda>m. if g = pt_group (rv_pulls s ! i) \<and> r \<in> set ds
         then m\<lparr>pm_pull_tasks_count := pm_pull_tasks_count m - 1\<rparr> else m) (dict_get (rv_groups s ! g) r)"
  shows "launched cfg tr (set_pull i rs ph t) g"
proof -
  obtain e ws ranks where L: "announced tr e ws" "to_targets (kt_topo (rc_transfer cfg)) (int (length ws)) = Inr ranks"
    "length (pulls_of g s) \<le> length ranks" "list_all2 (paired ws) (pulls_of g s) (take (length (pulls_of g s)) ranks)"
    "\<And>rid m. dict_get (rv_groups s ! g) rid = Some m \<Longrightarrow>
        pm_remote_engine_id m = e \<and> pm_pull_tasks_count m = int (length ranks) - int (answers g rid s)"
    using l unfolding launched_def by blast
  have p: "pulls_of g t = pulls_of g s" "answers g rid t = answers g rid s" for rid
    by (simp_all add: pulls_of_def answers_all t(1))
  have i': "i < length (rv_pulls t)" using i t(1) by simp
  note q = pulls_of_set_pull[OF i', of g rs ph, unfolded p]
  have a: "int (answers g rid (set_pull i rs ph t)) = int (answers g rid s) + of_bool (g = pt_group (rv_pulls s ! i) \<and> rid \<in> set ds)" for rid
    using answers_set_pull[OF i', of rs g rid ph] rs ds unfolding p t(1) by auto
  show ?thesis unfolding launched_def
  proof (rule exI[of _ e], rule exI[of _ ws], rule exI[of _ ranks], intro conjI allI impI)
    show "list_all2 (paired ws) (pulls_of g (set_pull i rs ph t)) (take (length (pulls_of g (set_pull i rs ph t))) ranks)"
      using L(4) unfolding paired_addrs q .
    fix rid m assume m: "dict_get (rv_groups (set_pull i rs ph t) ! g) rid = Some m"
    then obtain m0 where m0: "dict_get (rv_groups s ! g) rid = Some m0"
      "m = (if g = pt_group (rv_pulls s ! i) \<and> rid \<in> set ds
         then m0\<lparr>pm_pull_tasks_count := pm_pull_tasks_count m0 - 1\<rparr> else m0)"
      by (auto simp: t(2))
    note l5 = L(5)[OF m0(1)]
    show "pm_remote_engine_id m = e" using l5 m0(2) by simp
    show "pm_pull_tasks_count m = int (length ranks) - int (answers g rid (set_pull i rs ph t))"
      using l5 m0(2) a[of rid] by simp
  qed (use L(1-3) q(2) in simp_all)
qed

lemma queries_okD:
  assumes "queries_ok s" and "open_query s g"
  shows "g < length (rv_groups s)" and "dict_has (rv_groups s ! g) rid \<Longrightarrow> waiting s g rid"
    and "dict_get (rv_groups s ! g) rid = Some m \<Longrightarrow> q \<in> set (rv_queries s) \<Longrightarrow> eq_group q = g \<Longrightarrow>
      eq_phase q \<noteq> Query_Over \<Longrightarrow> pm_remote_engine_id m = eq_engine q"
  using assms unfolding queries_ok_def by blast+

lemma queries_ok_frame:
  assumes "queries_ok s" and "rv_queries u = rv_queries s"
    and "\<And>g. open_query s g \<Longrightarrow> g < length (rv_groups s) \<Longrightarrow> g < length (rv_groups u)"
    and "\<And>g rid. open_query s g \<Longrightarrow> dict_has (rv_groups s ! g) rid \<Longrightarrow> waiting s g rid \<Longrightarrow> waiting u g rid"
    and "\<And>g rid m. open_query s g \<Longrightarrow> dict_get (rv_groups u ! g) rid = Some m \<Longrightarrow>
      \<exists>m0. dict_get (rv_groups s ! g) rid = Some m0 \<and> pm_remote_engine_id m = pm_remote_engine_id m0"
  shows "queries_ok u"
proof -
  have oq: "open_query u = open_query s" by (intro ext) (simp add: open_query_def assms(2))
  have "waiting u g rid" if o: "open_query s g" and h: "dict_has (rv_groups u ! g) rid" for g rid
  proof -
    obtain m where "dict_get (rv_groups u ! g) rid = Some m" using h by (auto simp: dict_has_def)
    from assms(5)[OF o this] have "dict_has (rv_groups s ! g) rid" by (auto simp: dict_has_def)
    from assms(4)[OF o this queries_okD(2)[OF assms(1) o this]] show ?thesis .
  qed
  moreover have "pm_remote_engine_id m = eq_engine q"
    if "open_query s g" "dict_get (rv_groups u ! g) rid = Some m" "q \<in> set (rv_queries s)" "eq_group q = g"
      "eq_phase q \<noteq> Query_Over" for g rid m q
    using assms(5)[OF that(1,2)] queries_okD(3)[OF assms(1) that(1) _ that(3,4,5)] by fastforce
  moreover have "g < length (rv_groups u)" if "open_query s g" for g
    by (rule assms(3)[OF that queries_okD(1)[OF assms(1) that]])
  ultimately show ?thesis using assms(1)[unfolded queries_ok_def, THEN conjunct1]
    unfolding queries_ok_def oq assms(2) by simp
qed

lemma answered_inv:
  assumes inv: "recv_inv cfg tr s" and i: "i < length (rv_pulls s)" and g: "g = pt_group (rv_pulls s ! i)"
    and ds: "distinct ds" "set ds \<subseteq> set (pt_remaining (rv_pulls s ! i))"
    and E: "E \<subseteq> set ds" "\<And>d. d \<in> set ds \<Longrightarrow> d \<in> E \<or> confirmed tr i d"
    and c: "counted g ds (s\<lparr>rv_failed := rv_failed s \<union> E\<rparr>) t"
    and rs: "rs = filter (\<lambda>r. r \<notin> set ds) (pt_remaining (rv_pulls s ! i))"
  shows "recv_inv cfg tr (set_pull i rs ph t)"
proof -
  define u where "u = set_pull i rs ph t"
  define D where "D = done_rids g ds s"
  have D': "done_rids g ds (s\<lparr>rv_failed := rv_failed s \<union> E\<rparr>) = D" by (simp add: D_def done_rids_def)
  have inv': "agents_ok tr s" "groups_ok cfg tr s" "queries_ok s" "pulls_ok s" "finished_ok s" "acks_ok tr s" "events_ok s"
    using inv by (simp_all add: recv_inv_def)
  have t: "rv_recv_events t = rv_recv_events s" "rv_failed t = rv_failed s \<union> E" "rv_pulls t = rv_pulls s"
    "rv_queries t = rv_queries s" "rv_agents t = rv_agents s" "rv_tp_size t = rv_tp_size s"
    "length (rv_groups t) = length (rv_groups s)" "\<And>h. h \<noteq> g \<Longrightarrow> rv_groups t ! h = rv_groups s ! h"
    "dict_wf (rv_groups s ! g) \<Longrightarrow> dict_wf (rv_groups t ! g)"
    "set (rv_finished t) = set (rv_finished s) \<union> D" "distinct (rv_finished s) \<Longrightarrow> distinct (rv_finished t)"
    using c unfolding counted_def D' by simp_all
  have tg: "dict_get (rv_groups t ! h) r = map_option (\<lambda>m. if h = g \<and> r \<in> set ds
      then m\<lparr>pm_pull_tasks_count := pm_pull_tasks_count m - 1\<rparr> else m) (dict_get (rv_groups s ! h) r)" for h r
    using c unfolding counted_def by (cases "h = g") (simp_all add: option.map_ident)
  have tf: "dict_get (rv_futures t) r = (if r \<in> D \<and> dict_has (rv_futures s) r then Some True else dict_get (rv_futures s) r)" for r
    using c unfolding counted_def D' by simp
  have has: "dict_has (rv_groups t ! h) r \<longleftrightarrow> dict_has (rv_groups s ! h) r" for h r by (simp add: dict_has_def tg)
  have hasf: "dict_has (rv_futures t) r \<longleftrightarrow> dict_has (rv_futures s) r" for r by (auto simp: dict_has_def tf)
  have cur: "cur (rv_groups t) = cur (rv_groups s)" by (rule cur_cong[OF t(7) has])
  have gl: "g < length (rv_groups s)" and wd: "\<And>r. r \<in> set ds \<Longrightarrow> waiting s g r"
    using pulls_okD[OF inv'(4) i] ds(2) unfolding g by auto
  have ne: "pulls_of g s \<noteq> []" using pulls_of_nonempty[OF i] g by simp
  note og = groups_okD(3)[OF inv'(2) gl ne]
  have Dds: "D \<subseteq> set ds" by (auto simp: D_def done_rids_def)
  have i': "i < length (rv_pulls t)" using i t(3) by simp
  have po: "pulls_of h u = [] \<longleftrightarrow> pulls_of h s = []" for h
    unfolding u_def pulls_of_set_pull(3)[OF i'] by (simp add: pulls_of_def t(3))
  have oq: "open_query u = open_query s" by (intro ext) (simp add: open_query_def u_def t(4))
  have rsub: "set rs \<subseteq> set (pt_remaining (rv_pulls s ! i))" "set ds = set (pt_remaining (rv_pulls s ! i)) - set rs"
    using ds(2) by (auto simp: rs)
  have lau: "launched cfg tr u h" if "launched cfg tr s h" for h
    unfolding u_def by (rule launched_set_pull[OF that i rsub t(3)]) (simp add: tg g)
  have wait: "waiting u h r \<longleftrightarrow> waiting s h r \<and> r \<notin> D" for h r
    by (auto simp: waiting_def u_def cur t(1,10) tf dict_has_def)
  have none_left: "r \<notin> set (pt_remaining p)" if r: "r \<in> D" and p: "p \<in> set (pulls_of g u)" for r p
  proof -
    obtain ranks :: "int list" where R: "length (pulls_of g u) \<le> length ranks"
      "\<And>rid m. dict_get (rv_groups u ! g) rid = Some m \<Longrightarrow> pm_pull_tasks_count m = int (length ranks) - int (answers g rid u)"
      using lau[OF og[THEN conjunct2]] unfolding launched_def by (elim exE conjE) blast
    obtain m where "dict_get (rv_groups u ! g) r = Some m" "pm_pull_tasks_count m = 0"
      using r Dds by (auto simp: D_def done_rids_def u_def tg)
    with R have "length (pulls_of g u) \<le> answers g r u" by fastforce
    then show ?thesis by (rule all_answered[OF _ p])
  qed
  have 1: "agents_ok tr u" using inv'(1) by (simp add: agents_ok_def u_def t(5,6))
  have 2: "groups_ok cfg tr u" unfolding groups_ok_def
  proof (intro allI impI conjI)
    fix h assume h: "h < length (rv_groups u)"
    then have h': "h < length (rv_groups s)" by (simp add: u_def t(7))
    show "dict_wf (rv_groups u ! h)" using groups_okD(1)[OF inv'(2) h'] t(8,9) by (cases "h = g") (auto simp: u_def)
    show "pm_d_req_id m = rid" if "dict_get (rv_groups u ! h) rid = Some m" for rid m
      using that groups_okD(2)[OF inv'(2) h', of rid] by (auto simp: u_def tg split: if_splits)
    show "\<not> open_query u h" "launched cfg tr u h" if "pulls_of h u \<noteq> []"
      using groups_okD(3)[OF inv'(2) h'] that lau by (auto simp: po oq)
  qed
  have notD: "r \<notin> D" if "open_query s h" "waiting s h r" for h r
  proof
    assume "r \<in> D"
    then have "g = h" using Dds wd[of r] that(2) cur_unique unfolding waiting_def by blast
    with og that(1) show False by simp
  qed
  have 3: "queries_ok u"
    using queries_ok_frame[OF inv'(3), of u] notD wait
    by (fastforce simp: oq u_def t(4,7) tg)
  have 4: "pulls_ok u" unfolding pulls_ok_def
  proof (intro ballI conjI)
    fix p assume p: "p \<in> set (rv_pulls u)"
    then obtain k where k: "k < length (rv_pulls s)" "p = rv_pulls u ! k" by (auto simp: in_set_conv_nth u_def t(3))
    have q: "pt_group p = pt_group (rv_pulls s ! k)" "set (pt_remaining p) \<subseteq> set (pt_remaining (rv_pulls s ! k))"
      "distinct (pt_remaining (rv_pulls s ! k)) \<longrightarrow> distinct (pt_remaining p)"
      using k i by (auto simp: u_def t(3) nth_list_update rs)
    show "pt_group p < length (rv_groups u)" "distinct (pt_remaining p)"
      using pulls_okD[OF inv'(4) k(1)] q by (simp_all add: u_def t(7))
    show "waiting u (pt_group p) r" if r: "r \<in> set (pt_remaining p)" for r
    proof -
      have w: "waiting s (pt_group p) r" using pulls_okD(3)[OF inv'(4) k(1)] q r by auto
      have "r \<notin> D"
      proof
        assume d: "r \<in> D"
        then have "pt_group p = g" using Dds wd[of r] w cur_unique by (auto simp: waiting_def)
        then have "p \<in> set (pulls_of g u)" using p by (simp add: pulls_of_def)
        from none_left[OF d this] r show False by simp
      qed
      then show ?thesis using w by (simp add: wait)
    qed
  qed
  have 5: "finished_ok u" unfolding finished_ok_def
  proof (intro conjI ballI)
    show "distinct (rv_finished u)" using inv'(5) t(11) by (simp add: u_def finished_ok_def)
    fix r assume r: "r \<in> set (rv_finished u)"
    show "dict_has (rv_recv_events u) r" using r inv'(5) Dds wd[of r] by (auto simp: u_def t(1,10) finished_ok_def waiting_def)
    show "r \<in> rv_failed u \<or> (\<exists>g m. cur (rv_groups u) r g \<and> pulls_of g u \<noteq> [] \<and> dict_get (rv_groups u ! g) r = Some m \<and>
        pm_pull_tasks_count m = 0)"
    proof (cases "r \<in> D")
      case True
      then obtain m where "dict_get (rv_groups u ! g) r = Some m" "pm_pull_tasks_count m = 0"
        using Dds by (auto simp: D_def done_rids_def u_def tg)
      moreover have "cur (rv_groups u) r g" using True Dds wd[of r] by (auto simp: u_def cur waiting_def)
      ultimately show ?thesis using ne po by blast
    next
      case False
      then have f: "r \<in> set (rv_finished s)" using r by (simp add: u_def t(10))
      then have "r \<notin> set ds" using wd[of r] by (auto simp: waiting_def)
      with f inv'(5) show ?thesis by (fastforce simp: finished_ok_def u_def t(2) cur tg po[unfolded u_def])
    qed
  qed
  have 6: "acks_ok tr u" unfolding acks_ok_def
  proof (intro allI impI)
    fix k r assume k: "k < length (rv_pulls u)" and a: "cur (rv_groups u) r (pt_group (rv_pulls u ! k)) \<and>
        dict_has (rv_recv_events u) r \<and> r \<notin> set (pt_remaining (rv_pulls u ! k))"
    have k': "k < length (rv_pulls s)" using k by (simp add: u_def t(3))
    have gk: "pt_group (rv_pulls u ! k) = pt_group (rv_pulls s ! k)" using i k' by (auto simp: u_def t(3) nth_list_update)
    show "r \<in> rv_failed u \<or> confirmed tr k r"
    proof (cases "r \<in> set (pt_remaining (rv_pulls s ! k))")
      case True
      then have "k = i \<and> r \<in> set ds" using a k' i by (cases "k = i") (auto simp: u_def t(3) nth_list_update rs)
      then show ?thesis using E(2) by (auto simp: u_def t(2))
    next
      case False
      then have "r \<in> rv_failed s \<or> confirmed tr k r"
        using inv'(6) a k' unfolding acks_ok_def gk by (auto simp: u_def cur t(1))
      then show ?thesis by (auto simp: u_def t(2))
    qed
  qed
  have 7: "events_ok u"
    using inv'(7) unfolding events_ok_def
    by (fastforce simp: u_def t(1) hasf cur tg meta_for_def)
  show ?thesis using 1 2 3 4 5 6 7 by (simp add: recv_inv_def u_def)
qed

lemma set_or_empty: "set (or_empty None) = {}" "or_empty (Some xs) = xs"
  by (simp_all add: or_empty_def)

lemma answer_step:
  assumes inv: "recv_inv cfg tr s" and i: "i < length (rv_pulls s)"
    and R: "R = pt_remaining (rv_pulls s ! i)" "g = pt_group (rv_pulls s ! i)"
    and ok: "distinct (or_empty (xs_ok_reqs resp) @ response_errors resp R)"
      "set (or_empty (xs_ok_reqs resp)) \<union> set (response_errors resp R) \<subseteq> set R"
    and conf: "\<And>d. d \<in> set (or_empty (xs_ok_reqs resp)) \<Longrightarrow> confirmed tr i d"
  obtains rs t where "process_pulling_result resp g R s = ((rs, t), Inr ())" and "rv_error t = rv_error s"
    and "\<And>ph. recv_inv cfg tr (set_pull i rs ph t)"
proof -
  define ds where "ds = or_empty (xs_ok_reqs resp) @ response_errors resp R"
  define E where "E = set (response_errors resp R)"
  have inv': "pulls_ok s" "events_ok s" using inv by (simp_all add: recv_inv_def)
  have w: "waiting s g r" if "r \<in> set ds" for r
    using that ok(2) pulls_okD(3)[OF inv'(1) i] by (auto simp: R ds_def)
  have gl: "g < length (rv_groups s)" using pulls_okD(1)[OF inv'(1) i] by (simp add: R)
  obtain t where t: "count_results g ds (s\<lparr>rv_failed := rv_failed s \<union> E\<rparr>) = (t, Inr ())"
    "counted g ds (s\<lparr>rv_failed := rv_failed s \<union> E\<rparr>) t"
    using count_results_counted[of ds g "s\<lparr>rv_failed := rv_failed s \<union> E\<rparr>"] ok(1) gl w finished_event[OF inv'(2)]
    by (auto simp: ds_def waiting_def cur_def)
  define rs where "rs = filter (\<lambda>r. r \<notin> set ds) R"
  show thesis
  proof (rule that)
    show "process_pulling_result resp g R s = ((rs, t), Inr ())"
      using t(1) by (simp add: process_pulling_result_def Let_def ds_def E_def rs_def)
    show "rv_error t = rv_error s" using t(2) by (simp add: counted_def)
    show "recv_inv cfg tr (set_pull i rs ph t)" for ph
      by (rule answered_inv[OF inv i R(2) _ _ _ _ t(2)]) (use ok conf in \<open>auto simp: ds_def E_def rs_def R\<close>)
  qed
qed

lemma response_inv:
  assumes inv: "recv_inv cfg tr s" and legal: "legal (Act_Net (Pull_Response i resp)) s"
  shows "recv_inv cfg (Act_Net (Pull_Response i resp) # tr) (pull_response cfg i resp s)"
    and "rv_error (pull_response cfg i resp s) = rv_error s"
proof -
  define a where "a = Act_Net (Pull_Response i resp)"
  define R where "R = pt_remaining (rv_pulls s ! i)"
  have i: "i < length (rv_pulls s)" using legal by (auto simp: pull_in_def split: if_splits)
  have d: "distinct R" using inv pulls_okD(2)[OF _ i] by (simp add: recv_inv_def R_def)
  have r: "response_ok R resp" using legal by (simp add: R_def)
  have ok: "distinct (or_empty (xs_ok_reqs resp) @ response_errors resp R)"
    "set (or_empty (xs_ok_reqs resp)) \<union> set (response_errors resp R) \<subseteq> set R"
    using r d by (auto simp: response_ok_def response_errors_def)
  have conf: "confirmed (a # tr) i x" if "x \<in> set (or_empty (xs_ok_reqs resp))" for x
    using that by (auto simp: confirmed_def a_def)
  obtain rs t where t: "process_pulling_result resp (pt_group (rv_pulls s ! i)) R s = ((rs, t), Inr ())"
    "rv_error t = rv_error s" "\<And>ph. recv_inv cfg (a # tr) (set_pull i rs ph t)"
    using answer_step[OF inv_mono[OF inv] i R_def refl ok conf] by blast
  have "pull_response cfg i resp s = set_pull i rs (if is_final (xs_status resp) then Pull_Over else Pull_Published) t"
    using t(1) by (simp add: pull_response_def Let_def R_def)
  with t(2,3) show "recv_inv cfg (Act_Net (Pull_Response i resp) # tr) (pull_response cfg i resp s)"
    and "rv_error (pull_response cfg i resp s) = rv_error s" by (simp_all add: a_def)
qed

text \<open>A task that fails with requests open after its request went out stops the receiver; any other
  failure only fails what is left.\<close>

lemma fail_inv:
  assumes inv: "recv_inv cfg tr s" and i: "i < length (rv_pulls s)" and none: "rv_error (pull_fail cfg i exc s) = None"
  shows "recv_inv cfg tr (pull_fail cfg i exc s)"
proof -
  define R where "R = pt_remaining (rv_pulls s ! i)"
  define resp where "resp = \<lparr>xs_status = ERROR, xs_ok_reqs = None, xs_err_reqs = None, xs_err_msg = Some (exc_text exc)\<rparr>"
  have np: "\<not> (pt_phase (rv_pulls s ! i) = Pull_Published \<and> R \<noteq> [])"
    using none by (auto simp: pull_fail_def Let_def R_def split: option.splits if_splits)
  have d: "distinct R" using inv pulls_okD(2)[OF _ i] by (simp add: recv_inv_def R_def)
  have e: "or_empty (xs_ok_reqs resp) = []" "response_errors resp R = R"
    by (simp_all add: resp_def or_empty_def response_errors_def is_final_def)
  have ok: "distinct (or_empty (xs_ok_reqs resp) @ response_errors resp R)"
    "set (or_empty (xs_ok_reqs resp)) \<union> set (response_errors resp R) \<subseteq> set R"
    and conf: "\<And>x. x \<in> set (or_empty (xs_ok_reqs resp)) \<Longrightarrow> confirmed tr i x" using d by (simp_all add: e)
  obtain rs t where "process_pulling_result resp (pt_group (rv_pulls s ! i)) R s = ((rs, t), Inr ())"
    "\<And>ph. recv_inv cfg tr (set_pull i rs ph t)"
    using answer_step[OF inv i R_def refl ok conf] by blast
  then show ?thesis using np by (auto simp: pull_fail_def Let_def R_def resp_def)
qed

section \<open>Starting and failing a group\<close>

text \<open>A group no task has touched yet.\<close>

definition fresh_group :: "receiver \<Rightarrow> nat \<Rightarrow> string \<Rightarrow> bool" where
  "fresh_group s g engine \<longleftrightarrow> g < length (rv_groups s) \<and> pulls_of g s = [] \<and> \<not> open_query s g \<and>
     (\<forall>rid m. dict_get (rv_groups s ! g) rid = Some m \<longrightarrow> waiting s g rid \<and> pm_remote_engine_id m = engine)"

definition new_pull :: "nat \<Rightarrow> string list \<Rightarrow> string \<Rightarrow> pull_task" where
  "new_pull g rids addr = \<lparr>pt_addr = addr, pt_group = g, pt_remaining = rids, pt_phase = Pull_Created\<rparr>"

lemma spawn_pulls_eq:
  "\<exists>addrs r. spawn_pulls engine g ranks s =
      (s\<lparr>rv_pulls := rv_pulls s @ map (new_pull g (dict_keys (rv_groups s ! g))) addrs\<rparr>, r) \<and>
    length addrs \<le> length ranks \<and>
    list_all2 (\<lambda>a rank. worker_addr engine rank s = Inr a) addrs (take (length addrs) ranks) \<and>
    (r = Inr () \<longrightarrow> length addrs = length ranks)"
proof (induction ranks arbitrary: s)
  case Nil
  show ?case by (rule exI[of _ "[]"]) simp
next
  case (Cons rank ranks)
  show ?case
  proof (cases "worker_addr engine rank s")
    case (Inl e)
    then show ?thesis by (intro exI[of _ "[]"]) simp
  next
    case (Inr a)
    define s1 where "s1 = s\<lparr>rv_pulls := rv_pulls s @ [new_pull g (dict_keys (rv_groups s ! g)) a]\<rparr>"
    have w: "worker_addr engine rk s1 = worker_addr engine rk s" for rk by (simp add: s1_def worker_addr_def)
    obtain addrs r where "spawn_pulls engine g ranks s1 =
        (s1\<lparr>rv_pulls := rv_pulls s1 @ map (new_pull g (dict_keys (rv_groups s1 ! g))) addrs\<rparr>, r)"
      "length addrs \<le> length ranks"
      "list_all2 (\<lambda>a rank. worker_addr engine rank s = Inr a) addrs (take (length addrs) ranks)"
      "r = Inr () \<longrightarrow> length addrs = length ranks"
      using Cons.IH[of s1] unfolding w by blast
    then show ?thesis using Inr by (intro exI[of _ "a # addrs"] exI[of _ r]) (simp add: s1_def new_pull_def)
  qed
qed

definition launch_state :: "receiver \<Rightarrow> nat \<Rightarrow> int \<Rightarrow> string list \<Rightarrow> receiver" where
  "launch_state s g n addrs =
     s\<lparr>rv_groups := (rv_groups s)[g := dict_map (\<lambda>m. m\<lparr>pm_pull_tasks_count := n\<rparr>) (rv_groups s ! g)],
       rv_pulls := rv_pulls s @ map (new_pull g (dict_keys (rv_groups s ! g))) addrs\<rparr>"

lemma dict_keys_map: "dict_keys (dict_map f d) = dict_keys d"
  by (simp add: dict_keys_def dict_map_def comp_def case_prod_beta)

lemma receive_kv_cases:
  assumes "g < length (rv_groups s)"
  obtains (lost) e where "receive_kv cfg engine g s = (s, Inl e)"
  | (spawned) ranks addrs r n where "receive_kv cfg engine g s = (launch_state s g (int (length ranks)) addrs, r)"
      and "dict_get (rv_tp_size s) engine = Some n" and "to_targets (kt_topo (rc_transfer cfg)) n = Inr ranks"
      and "length addrs \<le> length ranks"
      and "list_all2 (\<lambda>a rank. worker_addr engine rank s = Inr a) addrs (take (length addrs) ranks)"
      and "r = Inr () \<Longrightarrow> length addrs = length ranks"
proof (cases "dict_get (rv_tp_size s) engine")
  case None
  then show thesis using lost by (simp add: receive_kv_def)
next
  case n: (Some n)
  show thesis
  proof (cases "to_targets (kt_topo (rc_transfer cfg)) n")
    case (Inl e)
    then show thesis using lost n by (simp add: receive_kv_def)
  next
    case (Inr ranks)
    define s1 where "s1 = s\<lparr>rv_groups := (rv_groups s)[g :=
        dict_map (\<lambda>m. m\<lparr>pm_pull_tasks_count := int (length ranks)\<rparr>) (rv_groups s ! g)]\<rparr>"
    have w: "worker_addr engine rk s1 = worker_addr engine rk s" for rk by (simp add: s1_def worker_addr_def)
    have k: "dict_keys (rv_groups s1 ! g) = dict_keys (rv_groups s ! g)"
      using assms by (simp add: s1_def dict_keys_map)
    obtain addrs r where sp: "spawn_pulls engine g ranks s1 =
        (s1\<lparr>rv_pulls := rv_pulls s1 @ map (new_pull g (dict_keys (rv_groups s ! g))) addrs\<rparr>, r)"
      "length addrs \<le> length ranks" "r = Inr () \<longrightarrow> length addrs = length ranks"
      "list_all2 (\<lambda>a rank. worker_addr engine rank s = Inr a) addrs (take (length addrs) ranks)"
      using spawn_pulls_eq[of engine g ranks s1] unfolding w k by blast
    show thesis
    proof (rule spawned[OF _ n Inr sp(2,4)])
      show "receive_kv cfg engine g s = (launch_state s g (int (length ranks)) addrs, r)"
        using sp(1) n Inr by (simp add: receive_kv_def s1_def launch_state_def)
    qed (use sp(3) in simp)
  qed
qed

lemma launch_simps [simp]:
  "rv_recv_events (launch_state s g n addrs) = rv_recv_events s" "rv_futures (launch_state s g n addrs) = rv_futures s"
  "rv_finished (launch_state s g n addrs) = rv_finished s" "rv_failed (launch_state s g n addrs) = rv_failed s"
  "rv_agents (launch_state s g n addrs) = rv_agents s" "rv_tp_size (launch_state s g n addrs) = rv_tp_size s"
  "rv_queries (launch_state s g n addrs) = rv_queries s" "rv_error (launch_state s g n addrs) = rv_error s"
  "length (rv_groups (launch_state s g n addrs)) = length (rv_groups s)"
  by (simp_all add: launch_state_def)

lemma launch_get:
  assumes "g < length (rv_groups s)"
  shows "dict_get (rv_groups (launch_state s g n addrs) ! h) r =
    map_option (\<lambda>m. if h = g then m\<lparr>pm_pull_tasks_count := n\<rparr> else m) (dict_get (rv_groups s ! h) r)"
  using assms by (cases "h = g") (simp_all add: launch_state_def dict_simps option.map_ident)

lemma launch_has: "g < length (rv_groups s) \<Longrightarrow>
    dict_has (rv_groups (launch_state s g n addrs) ! h) r \<longleftrightarrow> dict_has (rv_groups s ! h) r"
  by (simp add: dict_has_def launch_get)

lemma launch_cur: "g < length (rv_groups s) \<Longrightarrow> cur (rv_groups (launch_state s g n addrs)) = cur (rv_groups s)"
  by (rule cur_cong) (simp_all add: launch_has)

lemma launch_waiting: "g < length (rv_groups s) \<Longrightarrow> waiting (launch_state s g n addrs) h r \<longleftrightarrow> waiting s h r"
  by (simp add: waiting_def launch_cur)

lemma launch_pulls_of: "pulls_of h (launch_state s g n addrs) =
    pulls_of h s @ (if h = g then map (new_pull g (dict_keys (rv_groups s ! g))) addrs else [])"
  by (auto simp: pulls_of_def launch_state_def new_pull_def filter_empty_conv filter_map comp_def)

lemma launch_open: "open_query (launch_state s g n addrs) = open_query s"
  by (intro ext) (simp add: open_query_def)

lemma dict_wf_map: "dict_wf (dict_map f d) \<longleftrightarrow> dict_wf d"
  by (simp add: dict_wf_def dict_map_def comp_def case_prod_beta)

lemma launch_inv:
  assumes inv: "recv_inv cfg tr s" and fresh: "fresh_group s g engine"
    and n: "dict_get (rv_tp_size s) engine = Some n" and ranks: "to_targets (kt_topo (rc_transfer cfg)) n = Inr ranks"
    and addrs: "length addrs \<le> length ranks"
      "list_all2 (\<lambda>a rank. worker_addr engine rank s = Inr a) addrs (take (length addrs) ranks)"
  shows "recv_inv cfg tr (launch_state s g (int (length ranks)) addrs)"
proof -
  define u where "u = launch_state s g (int (length ranks)) addrs"
  have inv': "agents_ok tr s" "groups_ok cfg tr s" "queries_ok s" "pulls_ok s" "finished_ok s" "acks_ok tr s" "events_ok s"
    using inv by (simp_all add: recv_inv_def)
  have gl: "g < length (rv_groups s)" and none: "pulls_of g s = []" and nq: "\<not> open_query s g"
    and w: "\<And>rid m. dict_get (rv_groups s ! g) rid = Some m \<Longrightarrow> waiting s g rid \<and> pm_remote_engine_id m = engine"
    using fresh by (auto simp: fresh_group_def)
  note get = launch_get[OF gl, of "int (length ranks)" addrs, folded u_def]
  note cur = launch_cur[OF gl, of "int (length ranks)" addrs, folded u_def]
  note wait = launch_waiting[OF gl, of "int (length ranks)" addrs, folded u_def]
  note po = launch_pulls_of[of _ s g "int (length ranks)" addrs, folded u_def]
  note oq = launch_open[of s g "int (length ranks)" addrs, folded u_def]
  note sim = launch_simps[of s g "int (length ranks)" addrs, folded u_def]
  have wfg: "dict_wf (rv_groups s ! g)" by (rule groups_okD(1)[OF inv'(2) gl])
  have keyw: "waiting s g r" if "r \<in> set (dict_keys (rv_groups s ! g))" for r
    using that w unfolding pd.keys_get by auto
  have new: "pt_group p = g \<and> pt_remaining p = dict_keys (rv_groups s ! g)" if "p \<in> set (map (new_pull g (dict_keys (rv_groups s ! g))) addrs)" for p
    using that by (auto simp: new_pull_def)
  have pulls: "rv_pulls u = rv_pulls s @ map (new_pull g (dict_keys (rv_groups s ! g))) addrs" by (simp add: u_def launch_state_def)
  have other: "launched cfg tr u h" if l: "launched cfg tr s h" and h: "h \<noteq> g" for h
  proof -
    have "pulls_of h u = pulls_of h s" using h by (simp add: po)
    moreover from this have "answers h r u = answers h r s" for r by (simp add: answers_def)
    moreover have "rv_groups u ! h = rv_groups s ! h" using h by (simp add: u_def launch_state_def)
    ultimately show ?thesis using l by (simp add: launched_def)
  qed
  have mine: "launched cfg tr u g" if ne: "addrs \<noteq> []"
  proof -
    obtain ws where ws: "dict_get (rv_agents s) engine = Some ws"
      using ne addrs(2) by (cases addrs; cases ranks) (auto simp: worker_addr_def split: option.splits)
    then have a: "announced tr engine ws" "n = int (length ws)" using inv'(1) n by (auto simp: agents_ok_def)
    have "list_all2 (\<lambda>a r. \<exists>pp. dict_get ws r = Some pp \<and> dict_get pp 0 = Some a) addrs (take (length addrs) ranks)"
      by (rule list.rel_mono_strong[OF addrs(2)]) (auto simp: worker_addr_def ws split: option.splits)
    moreover have "map pt_addr (pulls_of g u) = addrs" by (simp add: po none new_pull_def comp_def)
    ultimately have "list_all2 (paired ws) (pulls_of g u) (take (length (pulls_of g u)) ranks)"
      unfolding paired_addrs by (simp add: po none)
    moreover have "answers g r u = 0" if "dict_has (rv_groups s ! g) r" for r
      using that new by (simp add: answers_def po none filter_empty_conv dict_has_iff)
    ultimately show ?thesis using a ranks addrs(1) unfolding launched_def
      by (intro exI[of _ engine] exI[of _ ws] exI[of _ ranks]) (auto simp: po none get dict_has_def dest: w)
  qed
  have 1: "agents_ok tr u" using inv'(1) by (simp add: agents_ok_def sim)
  have 2: "groups_ok cfg tr u" unfolding groups_ok_def
  proof (intro allI impI conjI)
    fix h assume h: "h < length (rv_groups u)"
    then have h': "h < length (rv_groups s)" by (simp add: sim)
    show "dict_wf (rv_groups u ! h)"
      using groups_okD(1)[OF inv'(2) h'] gl by (cases "h = g") (simp_all add: u_def launch_state_def dict_wf_map)
    show "pm_d_req_id m = rid" if "dict_get (rv_groups u ! h) rid = Some m" for rid m
      using that groups_okD(2)[OF inv'(2) h', of rid] by (auto simp: get split: if_splits)
    show "\<not> open_query u h" "launched cfg tr u h" if p: "pulls_of h u \<noteq> []"
    proof -
      have "\<not> open_query u h \<and> launched cfg tr u h"
      proof (cases "h = g")
        case True
        then show ?thesis using p nq mine by (simp add: po oq none)
      next
        case False
        then have "pulls_of h s \<noteq> []" using p by (simp add: po)
        from groups_okD(3)[OF inv'(2) h' this] show ?thesis using other[OF _ False] by (simp add: oq)
      qed
      then show "\<not> open_query u h" "launched cfg tr u h" by simp_all
    qed
  qed
  have 3: "queries_ok u"
    by (rule queries_ok_frame[OF inv'(3)]) (auto simp: sim wait get split: if_splits)
  have 4: "pulls_ok u" unfolding pulls_ok_def
  proof (intro ballI)
    fix p assume p: "p \<in> set (rv_pulls u)"
    show "pt_group p < length (rv_groups u) \<and> distinct (pt_remaining p) \<and> (\<forall>rid \<in> set (pt_remaining p). waiting u (pt_group p) rid)"
    proof (cases "p \<in> set (rv_pulls s)")
      case True
      then show ?thesis using inv'(4) by (simp add: pulls_ok_def sim wait)
    next
      case False
      then have "pt_group p = g \<and> pt_remaining p = dict_keys (rv_groups s ! g)" using p new unfolding pulls set_append by blast
      then show ?thesis using gl wfg keyw by (simp add: sim wait pd.wf_keys)
    qed
  qed
  have 5: "finished_ok u" unfolding finished_ok_def sim cur
  proof (intro conjI ballI)
    show "distinct (rv_finished s)" using inv'(5) by (simp add: finished_ok_def)
    fix r assume r: "r \<in> set (rv_finished s)"
    show "dict_has (rv_recv_events s) r" using inv'(5) r by (simp add: finished_ok_def)
    from inv'(5) r consider "r \<in> rv_failed s" | h m where "cur (rv_groups s) r h" "pulls_of h s \<noteq> []"
        "dict_get (rv_groups s ! h) r = Some m" "pm_pull_tasks_count m = 0" unfolding finished_ok_def by blast
    then show "r \<in> rv_failed s \<or> (\<exists>h m. cur (rv_groups s) r h \<and> pulls_of h u \<noteq> [] \<and>
        dict_get (rv_groups u ! h) r = Some m \<and> pm_pull_tasks_count m = 0)"
    proof cases
      case (2 h m)
      then have "h \<noteq> g" using none by blast
      with 2 have "cur (rv_groups s) r h \<and> pulls_of h u \<noteq> [] \<and> dict_get (rv_groups u ! h) r = Some m \<and> pm_pull_tasks_count m = 0"
        by (simp add: po get)
      then show ?thesis by blast
    qed simp
  qed
  have 6: "acks_ok tr u" unfolding acks_ok_def sim cur
  proof (intro allI impI)
    fix k r assume k: "k < length (rv_pulls u)" and a: "cur (rv_groups s) r (pt_group (rv_pulls u ! k)) \<and>
        dict_has (rv_recv_events s) r \<and> r \<notin> set (pt_remaining (rv_pulls u ! k))"
    show "r \<in> rv_failed s \<or> confirmed tr k r"
    proof (cases "k < length (rv_pulls s)")
      case True
      then show ?thesis using a inv'(6) by (simp add: pulls nth_append acks_ok_def)
    next
      case False
      then have "rv_pulls u ! k \<in> set (map (new_pull g (dict_keys (rv_groups s ! g))) addrs)"
        using k by (auto simp: pulls nth_append)
      from new[OF this] a show ?thesis by (auto simp: cur_def dict_has_iff)
    qed
  qed
  have 7: "events_ok u"
    using inv'(7) unfolding events_ok_def sim cur by (fastforce simp: get meta_for_def)
  show ?thesis using 1 2 3 4 5 6 7 by (simp add: recv_inv_def u_def)
qed

lemma inv_frame:
  assumes "recv_inv cfg tr s" and "agents_ok tr t"
    and "rv_groups t = rv_groups s" "rv_pulls t = rv_pulls s" "rv_queries t = rv_queries s"
      "rv_recv_events t = rv_recv_events s" "rv_futures t = rv_futures s" "rv_finished t = rv_finished s"
      "rv_failed t = rv_failed s"
  shows "recv_inv cfg tr t"
proof -
  have "pulls_of g t = pulls_of g s" for g by (simp add: pulls_of_def assms(4))
  moreover from this have "answers g r t = answers g r s" for g r by (simp add: answers_def)
  moreover have "open_query t = open_query s" by (intro ext) (simp add: open_query_def assms(5))
  moreover have "waiting t = waiting s" by (intro ext) (simp add: waiting_def assms)
  ultimately show ?thesis using assms
    by (simp add: recv_inv_def groups_ok_def launched_def queries_ok_def pulls_ok_def finished_ok_def acks_ok_def events_ok_def)
qed

lemma set_query_simps [simp]:
  "rv_queries (set_query i ph s) = (rv_queries s)[i := (rv_queries s ! i)\<lparr>eq_phase := ph\<rparr>]"
  "rv_pulls (set_query i ph s) = rv_pulls s"
  "rv_groups (set_query i ph s) = rv_groups s" "rv_recv_events (set_query i ph s) = rv_recv_events s"
  "rv_futures (set_query i ph s) = rv_futures s" "rv_finished (set_query i ph s) = rv_finished s"
  "rv_failed (set_query i ph s) = rv_failed s" "rv_agents (set_query i ph s) = rv_agents s"
  "rv_tp_size (set_query i ph s) = rv_tp_size s" "rv_error (set_query i ph s) = rv_error s"
  "pulls_of g (set_query i ph s) = pulls_of g s" "answers g r (set_query i ph s) = answers g r s"
  "waiting (set_query i ph s) g r = waiting s g r" "launched cfg tr (set_query i ph s) g = launched cfg tr s g"
  by (simp_all add: set_query_def pulls_of_def answers_def waiting_def launched_def)

lemma set_query_open:
  assumes "i < length (rv_queries s)"
  shows "open_query (set_query i ph s) g \<longleftrightarrow>
    (g = eq_group (rv_queries s ! i) \<and> ph \<noteq> Query_Over) \<or>
    (\<exists>j < length (rv_queries s). j \<noteq> i \<and> eq_group (rv_queries s ! j) = g \<and> eq_phase (rv_queries s ! j) \<noteq> Query_Over)"
proof -
  have "open_query t g \<longleftrightarrow> (\<exists>j < length (rv_queries t). eq_group (rv_queries t ! j) = g \<and> eq_phase (rv_queries t ! j) \<noteq> Query_Over)" for t
    unfolding open_query_def by (metis in_set_conv_nth)
  then show ?thesis using assms by (auto simp: nth_list_update split: if_splits)
qed

lemma open_queryI: "i < length (rv_queries s) \<Longrightarrow> eq_phase (rv_queries s ! i) \<noteq> Query_Over \<Longrightarrow> open_query s (eq_group (rv_queries s ! i))"
  by (auto simp: open_query_def)

lemma queries_unique:
  assumes "queries_ok s" and "i < length (rv_queries s)" and "j < length (rv_queries s)"
    and "eq_phase (rv_queries s ! i) \<noteq> Query_Over" and "eq_phase (rv_queries s ! j) \<noteq> Query_Over"
    and "eq_group (rv_queries s ! i) = eq_group (rv_queries s ! j)"
  shows "i = j"
  using assms unfolding queries_ok_def by blast

lemma set_query_inv:
  assumes inv: "recv_inv cfg tr s" and i: "i < length (rv_queries s)" "eq_phase (rv_queries s ! i) \<noteq> Query_Over"
  shows "recv_inv cfg tr (set_query i ph s)"
proof -
  define u where "u = set_query i ph s"
  have inv': "agents_ok tr s" "groups_ok cfg tr s" "queries_ok s" "pulls_ok s" "finished_ok s" "acks_ok tr s" "events_ok s"
    using inv by (simp_all add: recv_inv_def)
  have oq: "open_query s g" if "open_query u g" for g
    using that i open_queryI unfolding u_def set_query_open[OF i(1)] by blast
  have "groups_ok cfg tr u" using inv'(2) oq unfolding groups_ok_def u_def by auto
  moreover have "queries_ok u"
    unfolding queries_ok_def
  proof (intro conjI allI impI)
    fix a b assume "a < length (rv_queries u) \<and> b < length (rv_queries u) \<and> eq_phase (rv_queries u ! a) \<noteq> Query_Over \<and>
      eq_phase (rv_queries u ! b) \<noteq> Query_Over \<and> eq_group (rv_queries u ! a) = eq_group (rv_queries u ! b)"
    moreover have "eq_group (rv_queries u ! k) = eq_group (rv_queries s ! k)" if "k < length (rv_queries s)" for k
      using that by (cases "k = i") (simp_all add: u_def)
    moreover have "eq_phase (rv_queries s ! k) \<noteq> Query_Over" if "eq_phase (rv_queries u ! k) \<noteq> Query_Over" for k
      using that i by (cases "k = i") (simp_all add: u_def)
    moreover have "length (rv_queries u) = length (rv_queries s)" by (simp add: u_def)
    ultimately show "a = b" using queries_unique[OF inv'(3), of a b] by metis
  next
    fix g assume o: "open_query u g"
    note q = queries_okD[OF inv'(3) oq[OF o]]
    show "g < length (rv_groups u)" using q(1) by (simp add: u_def)
    show "waiting u g rid" if "dict_has (rv_groups u ! g) rid" for rid using q(2) that by (simp add: u_def)
    show "\<forall>q \<in> set (rv_queries u). eq_group q = g \<and> eq_phase q \<noteq> Query_Over \<longrightarrow> pm_remote_engine_id m = eq_engine q"
      if m: "dict_get (rv_groups u ! g) rid = Some m" for rid m
    proof (intro ballI impI)
      fix x assume x: "x \<in> set (rv_queries u)" "eq_group x = g \<and> eq_phase x \<noteq> Query_Over"
      have "x \<in> insert ((rv_queries s ! i)\<lparr>eq_phase := ph\<rparr>) (set (rv_queries s))"
        using x(1) set_update_subset_insert unfolding u_def set_query_simps by (rule rev_subsetD)
      then obtain y where "y \<in> set (rv_queries s)" "eq_group y = g" "eq_phase y \<noteq> Query_Over" "eq_engine y = eq_engine x"
        using x(2) nth_mem[OF i(1)] i(2) by (elim insertE) simp_all
      then show "pm_remote_engine_id m = eq_engine x" using q(3)[of rid m y] m by (simp add: u_def)
    qed
  qed
  moreover have "agents_ok tr u" "pulls_ok u" "finished_ok u" "acks_ok tr u" "events_ok u"
    using inv'(1,4-7) by (simp_all add: u_def agents_ok_def pulls_ok_def finished_ok_def acks_ok_def events_ok_def)
  ultimately show ?thesis by (simp add: recv_inv_def u_def)
qed

lemma query_over_fresh:
  assumes inv: "recv_inv cfg tr s" and i: "i < length (rv_queries s)" "eq_phase (rv_queries s ! i) \<noteq> Query_Over"
  shows "fresh_group (set_query i Query_Over s) (eq_group (rv_queries s ! i)) (eq_engine (rv_queries s ! i))"
proof -
  define g where "g = eq_group (rv_queries s ! i)"
  have o: "open_query s g" using open_queryI[OF i] by (simp add: g_def)
  have inv': "groups_ok cfg tr s" "queries_ok s" using inv by (simp_all add: recv_inv_def)
  note q = queries_okD[OF inv'(2) o]
  have "pulls_of g s = []" using groups_okD(3)[OF inv'(1) q(1)] o by blast
  moreover have "\<not> open_query (set_query i Query_Over s) g"
    using queries_unique[OF inv'(2) i(1) _ i(2)] unfolding set_query_open[OF i(1)] g_def by fastforce
  ultimately show ?thesis using q i unfolding fresh_group_def g_def[symmetric]
    by (auto simp: dict_has_def g_def)
qed

text \<open>Failing a group that was never started.\<close>

definition failed_all :: "string set \<Rightarrow> receiver \<Rightarrow> receiver \<Rightarrow> bool" where
  "failed_all K s t \<longleftrightarrow>
     rv_recv_events t = rv_recv_events s \<and> rv_pulls t = rv_pulls s \<and> rv_groups t = rv_groups s \<and>
     rv_queries t = rv_queries s \<and> rv_agents t = rv_agents s \<and> rv_tp_size t = rv_tp_size s \<and>
     rv_error t = rv_error s \<and> rv_failed t = rv_failed s \<union> K \<and> set (rv_finished t) = set (rv_finished s) \<union> K \<and>
     (distinct (rv_finished s) \<longrightarrow> distinct (rv_finished t)) \<and>
     (\<forall>r. dict_get (rv_futures t) r = (if r \<in> K \<and> dict_has (rv_futures s) r then Some True else dict_get (rv_futures s) r))"

lemma fail_group_all:
  assumes "\<And>k m. (k, m) \<in> set metas \<Longrightarrow> pm_d_req_id m = k \<and> (\<exists>ev. dict_get (rv_recv_events s) k = Some ev \<and> re_request_id ev = k)"
  shows "failed_all (fst ` set metas) s (fail_group metas s)"
  using assms
proof (induction metas arbitrary: s)
  case Nil
  then show ?case by (simp add: failed_all_def)
next
  case (Cons km metas)
  obtain k m where km: "km = (k, m)" by (cases km)
  obtain ev where ev: "pm_d_req_id m = k" "dict_get (rv_recv_events s) k = Some ev" "re_request_id ev = k"
    using Cons.prems[of k m] by (auto simp: km)
  define s1 where "s1 = finish_receive ev True k s"
  have s1: "rv_recv_events s1 = rv_recv_events s" "rv_failed s1 = insert k (rv_failed s)"
    "set (rv_finished s1) = insert k (set (rv_finished s))" "distinct (rv_finished s) \<longrightarrow> distinct (rv_finished s1)"
    "\<And>r. dict_get (rv_futures s1) r = (if r = k \<and> dict_has (rv_futures s) r then Some True else dict_get (rv_futures s) r)"
    by (auto simp: s1_def finish_receive_def Let_def ev(3) dict_simps)
  have has: "dict_has (rv_futures s1) r \<longleftrightarrow> dict_has (rv_futures s) r" for r by (auto simp: dict_has_def s1(5))
  have "failed_all (fst ` set metas) s1 (fail_group metas s1)"
    by (rule Cons.IH) (use Cons.prems in \<open>auto simp: s1(1)\<close>)
  moreover have "fail_group (km # metas) s = fail_group metas s1" by (simp add: km ev s1_def)
  ultimately show ?case unfolding failed_all_def s1 km has
    by (auto simp: s1_def finish_receive_def Let_def)
qed

lemma fail_group_inv:
  assumes inv: "recv_inv cfg tr s" and fresh: "fresh_group s g engine"
  shows "recv_inv cfg tr (fail_group (rv_groups s ! g) s)" and "rv_error (fail_group (rv_groups s ! g) s) = rv_error s"
proof -
  define u where "u = fail_group (rv_groups s ! g) s"
  define K where "K = {r. dict_has (rv_groups s ! g) r}"
  have inv': "agents_ok tr s" "groups_ok cfg tr s" "queries_ok s" "pulls_ok s" "finished_ok s" "acks_ok tr s" "events_ok s"
    using inv by (simp_all add: recv_inv_def)
  have gl: "g < length (rv_groups s)" and none: "pulls_of g s = []" and nq: "\<not> open_query s g"
    and w: "\<And>r. r \<in> K \<Longrightarrow> waiting s g r"
    using fresh by (auto simp: fresh_group_def K_def dict_has_def)
  have wf: "dict_wf (rv_groups s ! g)" by (rule groups_okD(1)[OF inv'(2) gl])
  have kK: "fst ` set (rv_groups s ! g) = K"
    by (auto simp: K_def dict_has_iff dict_keys_def)
  have f: "failed_all K s u" unfolding u_def kK[symmetric]
  proof (rule fail_group_all)
    fix k m assume km: "(k, m) \<in> set (rv_groups s ! g)"
    then have get: "dict_get (rv_groups s ! g) k = Some m" by (rule dict_in_get[OF wf])
    then have "waiting s g k" using w by (simp add: K_def dict_has_def)
    then show "pm_d_req_id m = k \<and> (\<exists>ev. dict_get (rv_recv_events s) k = Some ev \<and> re_request_id ev = k)"
      using groups_okD(2)[OF inv'(2) gl get] finished_event[OF inv'(7)] by (simp add: waiting_def)
  qed
  have fr: "rv_recv_events u = rv_recv_events s" "rv_pulls u = rv_pulls s" "rv_groups u = rv_groups s"
    "rv_queries u = rv_queries s" "rv_agents u = rv_agents s" "rv_tp_size u = rv_tp_size s" "rv_failed u = rv_failed s \<union> K"
    "set (rv_finished u) = set (rv_finished s) \<union> K" "distinct (rv_finished s) \<Longrightarrow> distinct (rv_finished u)"
    "\<And>r. dict_get (rv_futures u) r = (if r \<in> K \<and> dict_has (rv_futures s) r then Some True else dict_get (rv_futures s) r)"
    using f by (simp_all add: failed_all_def)
  have hasf: "dict_has (rv_futures u) r \<longleftrightarrow> dict_has (rv_futures s) r" for r by (auto simp: dict_has_def fr(10))
  have po: "pulls_of h u = pulls_of h s" for h by (simp add: pulls_of_def fr(2))
  have an: "answers h r u = answers h r s" for h r by (simp add: answers_def po)
  have oq: "open_query u = open_query s" by (intro ext) (simp add: open_query_def fr(4))
  have wait: "waiting u h r" if "waiting s h r" "h \<noteq> g" for h r
  proof -
    have "r \<notin> K"
    proof
      assume "r \<in> K"
      then have "h = g" using w[of r] that(1) cur_unique unfolding waiting_def by blast
      with that(2) show False ..
    qed
    then show ?thesis using that(1) by (simp add: waiting_def fr)
  qed
  have 1: "agents_ok tr u" using inv'(1) by (simp add: agents_ok_def fr)
  have 2: "groups_ok cfg tr u" using inv'(2) by (simp add: groups_ok_def launched_def fr po an oq)
  have 3: "queries_ok u"
  proof (rule queries_ok_frame[OF inv'(3)])
    show "waiting u h r" if "open_query s h" "waiting s h r" for h r using wait[OF that(2)] that(1) nq by blast
  qed (simp_all add: fr)
  have 4: "pulls_ok u" unfolding pulls_ok_def fr
  proof (intro ballI conjI)
    fix p assume p: "p \<in> set (rv_pulls s)"
    then have "pt_group p \<noteq> g" using none by (auto simp: pulls_of_def filter_empty_conv)
    then show "waiting u (pt_group p) r" if "r \<in> set (pt_remaining p)" for r
      using wait inv'(4) p that by (simp add: pulls_ok_def)
  qed (use inv'(4) in \<open>simp_all add: pulls_ok_def\<close>)
  have 5: "finished_ok u" unfolding finished_ok_def fr(1,3,7,8) po
    using inv'(5) fr(9) w by (auto simp: finished_ok_def waiting_def)
  have 6: "acks_ok tr u" using inv'(6) by (auto simp: acks_ok_def fr)
  have 7: "events_ok u" using inv'(7) by (simp add: events_ok_def fr(1,3) hasf)
  show "recv_inv cfg tr (fail_group (rv_groups s ! g) s)" using 1 2 3 4 5 6 7 by (simp add: recv_inv_def u_def)
  show "rv_error (fail_group (rv_groups s ! g) s) = rv_error s" using f by (simp add: failed_all_def u_def)
qed

lemma receive_kv_inv:
  assumes "recv_inv cfg tr s" and "fresh_group s g engine"
  shows "recv_inv cfg tr (fst (receive_kv cfg engine g s))" and "rv_error (fst (receive_kv cfg engine g s)) = rv_error s"
proof -
  have "g < length (rv_groups s)" using assms(2) by (simp add: fresh_group_def)
  then show "recv_inv cfg tr (fst (receive_kv cfg engine g s))" "rv_error (fst (receive_kv cfg engine g s)) = rv_error s"
    by (cases rule: receive_kv_cases[of g s cfg engine]; use assms launch_inv in simp)+
qed

lemma after_query_inv:
  assumes "recv_inv cfg tr s" and "i < length (rv_queries s)" "eq_phase (rv_queries s ! i) \<noteq> Query_Over"
  shows "recv_inv cfg tr (after_query cfg i s)" and "rv_error (after_query cfg i s) = rv_error s"
  using fail_group_inv[OF set_query_inv[OF assms] query_over_fresh[OF assms]]
    receive_kv_inv[OF set_query_inv[OF assms] query_over_fresh[OF assms]]
  by (simp_all add: after_query_def Let_def)

lemma query_start_inv:
  assumes inv: "recv_inv cfg tr s" and i: "i < length (rv_queries s)" "eq_phase (rv_queries s ! i) \<noteq> Query_Over"
  shows "recv_inv cfg tr (query_start i s)" and "rv_error (query_start i s) = rv_error s"
proof -
  have frame: "recv_inv cfg tr (set_query i ph (s\<lparr>rv_pending := a, rv_wakeups := b\<rparr>))" for ph a b
    by (rule inv_frame[OF set_query_inv[OF assms, of ph]])
      (use inv in \<open>simp_all add: recv_inv_def agents_ok_def\<close>)
  show "recv_inv cfg tr (query_start i s)"
    using frame set_query_inv[OF assms]
    by (auto simp: query_start_def Let_def split: list.splits option.splits)
  show "rv_error (query_start i s) = rv_error s"
    by (auto simp: query_start_def Let_def split: list.splits option.splits)
qed

lemma store_entry_frame: "store_entry entry s = Inr s' \<Longrightarrow> \<exists>a b. s' = s\<lparr>rv_agents := a, rv_tp_size := b\<rparr>"
  by (auto simp: store_entry_def split: sum.splits if_splits) (rule exI, rule exI, rule refl)

lemma store_entries_frame: "\<exists>a b. store_entries entries s = s\<lparr>rv_agents := a, rv_tp_size := b\<rparr>"
proof (induction entries arbitrary: s)
  case Nil
  show ?case by (rule exI[of _ "rv_agents s"], rule exI[of _ "rv_tp_size s"]) simp
next
  case (Cons x xs)
  show ?case
  proof (cases "store_entry x s")
    case (Inl e)
    then show ?thesis by (intro exI[of _ "rv_agents s"] exI[of _ "rv_tp_size s"]) simp
  next
    case (Inr s1)
    then obtain a b where s1: "s1 = s\<lparr>rv_agents := a, rv_tp_size := b\<rparr>" using store_entry_frame by blast
    obtain a' b' where "store_entries xs s1 = s1\<lparr>rv_agents := a', rv_tp_size := b'\<rparr>" using Cons.IH by blast
    then show ?thesis using Inr s1 by (intro exI[of _ a'] exI[of _ b']) simp
  qed
qed

lemma store_entries_agents:
  assumes "agents_ok tr s" and "\<And>e ws. Inr (e, ws) \<in> set entries \<Longrightarrow> announced tr e ws"
  shows "agents_ok tr (store_entries entries s)"
  using assms
proof (induction entries arbitrary: s)
  case (Cons x xs)
  have "agents_ok tr s1" if "store_entry x s = Inr s1" for s1
    using that Cons.prems by (cases x) (auto simp: store_entry_def agents_ok_def dict_simps split: if_splits)
  then show ?case using Cons by (auto split: sum.splits)
qed simp

lemma connect_frame:
  "\<exists>a b c d. connect_to_prefiller_bootstrap addr reply s =
     s\<lparr>rv_agents := a, rv_tp_size := b, rv_pending := c, rv_wakeups := d\<rparr>"
proof -
  obtain a b where "(case reply of Inl _ \<Rightarrow> s | Inr entries \<Rightarrow> store_entries entries s) =
      s\<lparr>rv_agents := a, rv_tp_size := b\<rparr>"
  proof (cases reply)
    case (Inl e)
    then show thesis by (intro that[where a = "rv_agents s" and b = "rv_tp_size s"]) simp
  next
    case (Inr entries)
    then show thesis using store_entries_frame[of entries s] that by auto
  qed
  then show ?thesis by (simp add: connect_to_prefiller_bootstrap_def Let_def) (intro exI, rule refl)
qed

lemma connect_inv:
  assumes inv: "recv_inv cfg tr s" and t_def: "t = connect_to_prefiller_bootstrap addr reply s"
  shows "recv_inv cfg (Act_Net (Query_Reply i reply) # tr) t" and "rv_error t = rv_error s" and "rv_queries t = rv_queries s"
proof -
  obtain a b c d where t: "t = s\<lparr>rv_agents := a, rv_tp_size := b, rv_pending := c, rv_wakeups := d\<rparr>"
    using connect_frame[of addr reply s] t_def by blast
  note inv1 = inv_mono[OF inv, of "Act_Net (Query_Reply i reply)"]
  have "agents_ok (Act_Net (Query_Reply i reply) # tr) t"
  proof (cases reply)
    case (Inl e)
    then show ?thesis using inv1 by (simp add: t_def connect_to_prefiller_bootstrap_def recv_inv_def agents_ok_def)
  next
    case (Inr entries)
    have "agents_ok (Act_Net (Query_Reply i reply) # tr) (store_entries entries s)"
      by (rule store_entries_agents) (use inv1 Inr in \<open>auto simp: recv_inv_def announced_def\<close>)
    then show ?thesis by (simp add: t_def connect_to_prefiller_bootstrap_def Inr Let_def agents_ok_def)
  qed
  from inv_frame[OF inv1 this] show "recv_inv cfg (Act_Net (Query_Reply i reply) # tr) t" by (simp add: t)
  show "rv_error t = rv_error s" "rv_queries t = rv_queries s" by (simp_all add: t)
qed

lemma publish_inv:
  assumes inv: "recv_inv cfg tr s" and i: "i < length (rv_pulls s)"
  shows "recv_inv cfg tr (pull_publish i s)" and "rv_error (pull_publish i s) = rv_error s"
proof -
  have "recv_inv cfg tr (set_pull i (filter (\<lambda>r. r \<notin> set []) (pt_remaining (rv_pulls s ! i))) Pull_Published s)"
    by (rule answered_inv[OF inv i refl, of "[]" "{}" s]) (use counted_refl in simp_all)
  then show "recv_inv cfg tr (pull_publish i s)" by (simp add: pull_publish_def)
  show "rv_error (pull_publish i s) = rv_error s" by (simp add: pull_publish_def)
qed

lemma net_inv:
  assumes inv: "rv_error s = None \<Longrightarrow> recv_inv cfg tr s" and legal: "legal (Act_Net n) s"
    and none: "rv_error (net_step cfg n s) = None" "rv_error s = None"
  shows "recv_inv cfg (Act_Net n # tr) (net_step cfg n s)"
proof (cases n)
  case (Query_Run i)
  then show ?thesis using query_start_inv(1)[OF inv_mono[OF inv[OF none(2)]], of i] inv_mono[OF inv[OF none(2)]]
    by (auto simp: query_in_def split: if_splits)
next
  case (Query_Reply i reply)
  then obtain addr where q: "query_in i s = Some (Query_Asking addr)" using legal
    by (auto split: option.splits query_phase.splits)
  then have "i < length (rv_queries s)" "eq_phase (rv_queries s ! i) \<noteq> Query_Over" by (auto simp: query_in_def split: if_splits)
  with after_query_inv(1)[OF connect_inv(1)[OF inv[OF none(2)] refl, of i reply addr]] show ?thesis
    by (simp add: Query_Reply q connect_inv(3)[OF inv[OF none(2)] refl])
next
  case (Query_Wake i)
  then show ?thesis using after_query_inv(1)[OF inv_mono[OF inv[OF none(2)]], of i] inv_mono[OF inv[OF none(2)]]
    by (auto simp: query_in_def split: if_splits option.splits query_phase.splits)
next
  case (Pull_Send i)
  then show ?thesis using publish_inv(1)[OF inv_mono[OF inv[OF none(2)]], of i] inv_mono[OF inv[OF none(2)]]
    by (auto simp: pull_in_def split: if_splits)
next
  case (Pull_Fail i exc)
  then show ?thesis using fail_inv[OF inv_mono[OF inv[OF none(2)]], of i exc] inv_mono[OF inv[OF none(2)]] none(1)
    by (auto simp: pull_in_def split: if_splits)
next
  case (Pull_Response i resp)
  then show ?thesis using response_inv(1)[OF inv[OF none(2)], of i resp] legal by simp
qed

section \<open>Calls\<close>

text \<open>Collecting or discarding finished requests touches no request that a task still has open.\<close>

definition drop_state :: "string set \<Rightarrow> receiver \<Rightarrow> receiver \<Rightarrow> bool" where
  "drop_state K s t \<longleftrightarrow> rv_pulls t = rv_pulls s \<and> rv_groups t = rv_groups s \<and> rv_queries t = rv_queries s \<and>
     rv_agents t = rv_agents s \<and> rv_tp_size t = rv_tp_size s \<and> rv_error t = rv_error s \<and>
     (\<forall>r. dict_get (rv_recv_events t) r = (if r \<in> K then None else dict_get (rv_recv_events s) r)) \<and>
     (\<forall>r. dict_get (rv_futures t) r = (if r \<in> K then None else dict_get (rv_futures s) r)) \<and>
     rv_failed t = rv_failed s - K \<and> (dict_wf (rv_recv_events s) \<longrightarrow> dict_wf (rv_recv_events t))"

lemma drop_inv:
  assumes inv: "recv_inv cfg tr s" and d: "drop_state K s t"
    and K: "\<And>r. r \<in> K \<Longrightarrow> dict_get (rv_futures s) r = Some False \<Longrightarrow> r \<in> set (rv_finished s)"
    and fin: "set (rv_finished t) = set (rv_finished s) - K" "distinct (rv_finished t)"
  shows "recv_inv cfg tr t"
proof -
  have inv': "agents_ok tr s" "groups_ok cfg tr s" "queries_ok s" "pulls_ok s" "finished_ok s" "acks_ok tr s" "events_ok s"
    using inv by (simp_all add: recv_inv_def)
  have fr: "rv_pulls t = rv_pulls s" "rv_groups t = rv_groups s" "rv_queries t = rv_queries s"
    "rv_agents t = rv_agents s" "rv_tp_size t = rv_tp_size s" "rv_failed t = rv_failed s - K"
    "dict_wf (rv_recv_events s) \<longrightarrow> dict_wf (rv_recv_events t)"
    using d by (simp_all add: drop_state_def)
  have ge: "dict_get (rv_recv_events t) r = (if r \<in> K then None else dict_get (rv_recv_events s) r)"
    and gf: "dict_get (rv_futures t) r = (if r \<in> K then None else dict_get (rv_futures s) r)" for r
    using d by (simp_all add: drop_state_def)
  have he: "dict_has (rv_recv_events t) r \<longleftrightarrow> r \<notin> K \<and> dict_has (rv_recv_events s) r"
    and hf: "dict_has (rv_futures t) r \<longleftrightarrow> r \<notin> K \<and> dict_has (rv_futures s) r" for r
    by (auto simp: dict_has_def ge gf)
  have wait: "waiting s g r \<Longrightarrow> waiting t g r" for g r
    using K[of r] by (auto simp: waiting_def fr he gf fin)
  have po: "pulls_of g t = pulls_of g s" for g by (simp add: pulls_of_def fr)
  have an: "answers g r t = answers g r s" for g r by (simp add: answers_def po)
  have oq: "open_query t = open_query s" by (intro ext) (simp add: open_query_def fr)
  have "agents_ok tr t" using inv'(1) by (simp add: agents_ok_def fr)
  moreover have "groups_ok cfg tr t" using inv'(2) by (simp add: groups_ok_def launched_def fr po an oq)
  moreover have "queries_ok t" by (rule queries_ok_frame[OF inv'(3)]) (simp_all add: fr wait)
  moreover have "pulls_ok t" using inv'(4) wait by (simp add: pulls_ok_def fr)
  moreover have "finished_ok t" using inv'(5) fin by (auto simp: finished_ok_def fr po he)
  moreover have "acks_ok tr t" using inv'(6) by (auto simp: acks_ok_def fr he)
  moreover have "events_ok t" using inv'(7) by (auto simp: events_ok_def fr ge hf split: if_splits)
  ultimately show ?thesis by (simp add: recv_inv_def)
qed

lemma drop_trans: "drop_state K s t \<Longrightarrow> drop_state L t u \<Longrightarrow> drop_state (K \<union> L) s u"
  unfolding drop_state_def by (auto simp: Diff_Un)

lemma drop_refl: "drop_state {} s s"
  by (simp add: drop_state_def)

definition recv_result :: "receiver \<Rightarrow> string \<Rightarrow> TransferResult" where
  "recv_result s rid = \<lparr>tf_request_id = rid, tf_error = (if rid \<in> rv_failed s then Some ''Transfer receive failed'' else None)\<rparr>"

lemma collect_all:
  assumes "distinct rids" and "\<And>r. r \<in> set rids \<Longrightarrow> dict_has (rv_recv_events s) r"
  shows "\<exists>t. fold_res collect_finished rids (res, s) = Inr (res @ map (recv_result s) rids, t) \<and>
    drop_state (set rids) s t \<and> rv_finished t = rv_finished s \<and>
    (\<forall>r. dict_get (rv_invalid t) r = (if r \<in> set rids \<and> r \<in> rv_failed s
       then map_option (\<lambda>ev. block_set (re_block_ids ev)) (dict_get (rv_recv_events s) r) else dict_get (rv_invalid s) r))"
  using assms
proof (induction rids arbitrary: s res)
  case Nil
  then show ?case by (intro exI[of _ s]) (simp add: drop_refl)
next
  case (Cons r rids)
  obtain ev where ev: "dict_get (rv_recv_events s) r = Some ev" using Cons.prems(2)[of r] by (auto simp: dict_has_def)
  define s1 where "s1 = s\<lparr>rv_recv_events := dict_pop r (rv_recv_events s),
      rv_invalid := (if r \<in> rv_failed s then dict_set r (block_set (re_block_ids ev)) (rv_invalid s) else rv_invalid s),
      rv_failed := rv_failed s - {r}, rv_retired := insert (re_transfer_id ev) (rv_retired s),
      rv_futures := dict_pop r (rv_futures s)\<rparr>"
  have step: "collect_finished r (res, s) = Inr (res @ [recv_result s r], s1)"
    by (simp add: collect_finished_def ev s1_def recv_result_def Let_def)
  have d1: "drop_state {r} s s1" by (simp add: drop_state_def s1_def dict_simps pd.wf_pop)
  have same: "recv_result s1 x = recv_result s x" if "x \<in> set rids" for x
    using that Cons.prems(1) by (auto simp: recv_result_def s1_def)
  obtain t where t: "fold_res collect_finished rids (res @ [recv_result s r], s1) =
      Inr ((res @ [recv_result s r]) @ map (recv_result s1) rids, t)"
    "drop_state (set rids) s1 t" "rv_finished t = rv_finished s1"
    "\<And>x. dict_get (rv_invalid t) x = (if x \<in> set rids \<and> x \<in> rv_failed s1
       then map_option (\<lambda>ev. block_set (re_block_ids ev)) (dict_get (rv_recv_events s1) x) else dict_get (rv_invalid s1) x)"
    using Cons.IH[of s1 "res @ [recv_result s r]"] Cons.prems by (auto simp: s1_def dict_simps)
  have inv: "dict_get (rv_invalid t) x = (if x \<in> set (r # rids) \<and> x \<in> rv_failed s
       then map_option (\<lambda>ev. block_set (re_block_ids ev)) (dict_get (rv_recv_events s) x) else dict_get (rv_invalid s) x)" for x
    using t(4)[of x] Cons.prems(1) ev by (auto simp: s1_def dict_simps)
  have "fold_res collect_finished (r # rids) (res, s) = Inr (res @ map (recv_result s) (r # rids), t)"
    using t(1) same by (simp add: step cong: map_cong)
  with drop_trans[OF d1 t(2)] t(3) inv show ?case by (intro exI[of _ t]) (simp add: s1_def)
qed

lemma fetch_closed:
  assumes inv: "recv_inv cfg tr s" and none: "rv_error s = None"
  obtains t where "fetch_finished_recving_reqs s = Inr (map (recv_result s) (rv_finished s), t)" and "recv_inv cfg tr t"
    and "rv_error t = None" and "rv_pulls t = rv_pulls s" and "rv_groups t = rv_groups s"
    and "\<And>r. r \<in> set (rv_finished s) \<Longrightarrow> r \<in> rv_failed s \<Longrightarrow>
       dict_get (rv_invalid t) r = map_option (\<lambda>ev. block_set (re_block_ids ev)) (dict_get (rv_recv_events s) r)"
    and "drop_state (set (rv_finished s)) s t"
proof -
  have f: "distinct (rv_finished s)" "\<And>r. r \<in> set (rv_finished s) \<Longrightarrow> dict_has (rv_recv_events s) r"
    using inv by (simp_all add: recv_inv_def finished_ok_def)
  define s0 where "s0 = s\<lparr>rv_finished := []\<rparr>"
  have same: "recv_result s0 = recv_result s" by (intro ext) (simp add: recv_result_def s0_def)
  obtain t where t: "fold_res collect_finished (rv_finished s) ([], s0) = Inr (map (recv_result s) (rv_finished s), t)"
    "drop_state (set (rv_finished s)) s0 t" "rv_finished t = []"
    "\<And>r. dict_get (rv_invalid t) r = (if r \<in> set (rv_finished s) \<and> r \<in> rv_failed s
       then map_option (\<lambda>ev. block_set (re_block_ids ev)) (dict_get (rv_recv_events s) r) else dict_get (rv_invalid s) r)"
    using collect_all[OF f(1), of s0 "[]"] f(2) unfolding same by (auto simp: s0_def)
  have d: "drop_state (set (rv_finished s)) s t" using t(2) by (simp add: drop_state_def s0_def)
  show thesis
  proof (rule that)
    show "fetch_finished_recving_reqs s = Inr (map (recv_result s) (rv_finished s), t)"
      using t(1) by (simp add: fetch_finished_recving_reqs_def check_receive_error_def none s0_def)
    show "recv_inv cfg tr t" by (rule drop_inv[OF inv d]) (simp_all add: t(3))
  qed (use d none t(4) in \<open>simp_all add: drop_state_def\<close>)
qed

lemma retire_all:
  "rv_failed (fold retire ids s) = rv_failed s \<and> rv_finished (fold retire ids s) = rv_finished s \<and>
   drop_state (set ids) s ((fold retire ids s)\<lparr>rv_failed := rv_failed s - set ids\<rparr>)"
proof (induction ids arbitrary: s)
  case Nil
  then show ?case by (simp add: drop_state_def)
next
  case (Cons r ids)
  have "rv_failed (retire r s) = rv_failed s" "rv_finished (retire r s) = rv_finished s" by (simp_all add: retire_def)
  with Cons.IH[of "retire r s"] show ?case
    by (auto simp: drop_state_def) (simp_all add: retire_def dict_simps pd.wf_pop)
qed

lemma fence_closed:
  assumes inv: "recv_inv cfg tr s" and w: "wait_for_receives request_ids s = Some (Inr t)"
  defines "ids \<equiv> (case request_ids of None \<Rightarrow> dict_keys (rv_futures s) | Some rids \<Rightarrow> rids)"
  shows "recv_inv cfg tr t" and "rv_error s = None" and "rv_error t = None" and "rv_pulls t = rv_pulls s"
    and "\<And>r. r \<in> set ids \<Longrightarrow> dict_get (rv_futures s) r \<noteq> Some False"
    and "\<And>r. r \<in> set ids \<Longrightarrow> \<not> dict_has (rv_recv_events t) r \<and> \<not> dict_has (rv_futures t) r"
proof -
  show none: "rv_error s = None" using w by (auto simp: wait_for_receives_def check_receive_error_def split: option.splits)
  have dn: "\<not> list_ex (\<lambda>rid. dict_get (rv_futures s) rid = Some False) ids"
    using w by (auto simp: wait_for_receives_def check_receive_error_def none ids_def Let_def split: option.splits if_splits)
  then show nf: "\<And>r. r \<in> set ids \<Longrightarrow> dict_get (rv_futures s) r \<noteq> Some False" by (auto simp: list_ex_iff)
  define s2 where "s2 = (fold retire ids s)\<lparr>rv_finished := filter (\<lambda>r. r \<notin> set ids) (rv_finished s), rv_failed := rv_failed s - set ids\<rparr>"
  note ra = retire_all[of ids s]
  have t: "t = (if request_ids = None then s2\<lparr>rv_invalid := [], rv_retired := {}\<rparr> else s2)"
    using w dn ra by (auto simp: wait_for_receives_def check_receive_error_def none ids_def[symmetric] Let_def s2_def split: if_splits)
  have d: "drop_state (set ids) s t" using ra by (simp add: drop_state_def t s2_def)
  show "recv_inv cfg tr t"
  proof (rule drop_inv[OF inv d])
    show "set (rv_finished t) = set (rv_finished s) - set ids" by (auto simp: t s2_def)
    have "distinct (rv_finished s)" using inv by (simp add: recv_inv_def finished_ok_def)
    then show "distinct (rv_finished t)" by (simp add: t s2_def)
  qed (use nf in blast)
  show "rv_error t = None" "rv_pulls t = rv_pulls s" using d none by (simp_all add: drop_state_def)
  show "\<not> dict_has (rv_recv_events t) r \<and> \<not> dict_has (rv_futures t) r" if "r \<in> set ids" for r
    using d that by (simp add: drop_state_def dict_has_def)
qed

text \<open>Accepting a batch of receives.\<close>

lemma check_events_ok:
  "check_events evs A T = Inr () \<Longrightarrow> distinct (map re_request_id evs) \<and> re_request_id ` set evs \<inter> A = {} \<and>
     distinct (map re_transfer_id evs) \<and> re_transfer_id ` set evs \<inter> T = {}"
  by (induction evs A T rule: check_events.induct) (auto split: if_splits)

lemma admit_all:
  assumes "distinct (map re_request_id evs)" and "t = fold admit evs s"
  shows "rv_finished t = rv_finished s \<and> rv_failed t = rv_failed s \<and> rv_agents t = rv_agents s \<and> rv_tp_size t = rv_tp_size s \<and>
      rv_error t = rv_error s \<and> rv_groups t = rv_groups s \<and> rv_queries t = rv_queries s \<and> rv_pulls t = rv_pulls s \<and>
      (dict_wf (rv_recv_events s) \<longrightarrow> dict_wf (rv_recv_events t))"
    and "dict_get (rv_futures t) r = (if r \<in> re_request_id ` set evs then Some False else dict_get (rv_futures s) r)"
    and "r \<notin> re_request_id ` set evs \<Longrightarrow> dict_get (rv_recv_events t) r = dict_get (rv_recv_events s) r"
  using assms(1) unfolding assms(2)
  by (induction evs arbitrary: s) (auto simp: admit_def dict_simps pd.wf_put image_iff)

lemma admit_event:
  assumes "distinct (map re_request_id evs)" and "ev \<in> set evs"
  shows "dict_get (rv_recv_events (fold admit evs s)) (re_request_id ev) = Some ev"
  using assms
proof (induction evs arbitrary: s)
  case (Cons x evs)
  show ?case
  proof (cases "ev = x")
    case True
    then show ?thesis using Cons.prems(1) admit_all(3)[OF _ refl, of evs "re_request_id ev" "admit x s"]
      by (auto simp: admit_def[of x s] dict_simps)
  qed (use Cons in auto)
qed simp

definition grouped :: "RecvEvent set \<Rightarrow> (string, pull_metas) dict \<Rightarrow> bool" where
  "grouped E d \<longleftrightarrow> dict_wf d \<and> (\<forall>e metas. dict_get d e = Some metas \<longrightarrow> dict_wf metas \<and>
     (\<forall>r m. dict_get metas r = Some m \<longrightarrow> (\<exists>ev \<in> E. r = re_request_id ev \<and> e = re_remote_engine_id ev \<and> m = pull_meta ev))) \<and>
     (\<forall>ev \<in> E. \<exists>metas. dict_get d (re_remote_engine_id ev) = Some metas \<and> dict_has metas (re_request_id ev))"

lemma grouped_add:
  assumes "grouped E d"
  shows "grouped (insert ev E) (add_pull_meta ev d)"
proof -
  define old where "old = (case dict_get d (re_remote_engine_id ev) of None \<Rightarrow> [] | Some metas \<Rightarrow> metas)"
  have old: "dict_wf old" "\<And>r m. dict_get old r = Some m \<Longrightarrow> \<exists>ev' \<in> E. r = re_request_id ev' \<and> re_remote_engine_id ev = re_remote_engine_id ev' \<and> m = pull_meta ev'"
    using assms by (auto simp: old_def grouped_def dict_simps pd.wf_empty split: option.splits)
  have eq: "add_pull_meta ev d = dict_set (re_remote_engine_id ev) (dict_set (re_request_id ev) (pull_meta ev) old) d"
    by (simp add: add_pull_meta_def old_def)
  have "\<exists>metas. dict_get (add_pull_meta ev d) (re_remote_engine_id x) = Some metas \<and> dict_has metas (re_request_id x)"
    if x: "x \<in> insert ev E" for x
  proof (cases "re_remote_engine_id x = re_remote_engine_id ev")
    case True
    then have "x = ev \<or> dict_has old (re_request_id x)"
      using x assms by (auto simp: grouped_def old_def split: option.splits)
    then show ?thesis using True by (auto simp: eq dict_simps)
  next
    case False
    then show ?thesis using x assms by (auto simp: eq dict_simps grouped_def)
  qed
  moreover have "dict_wf metas \<and> (\<forall>r m. dict_get metas r = Some m \<longrightarrow>
      (\<exists>x \<in> insert ev E. r = re_request_id x \<and> e = re_remote_engine_id x \<and> m = pull_meta x))"
    if "dict_get (add_pull_meta ev d) e = Some metas" for e metas
  proof (cases "e = re_remote_engine_id ev")
    case True
    then have "metas = dict_set (re_request_id ev) (pull_meta ev) old" using that by (simp add: eq dict_simps)
    then show ?thesis using old True by (auto simp: pd.wf_put dict_simps split: if_splits)
  next
    case False
    then show ?thesis using that assms by (fastforce simp: eq dict_simps grouped_def)
  qed
  moreover have "dict_wf (add_pull_meta ev d)" using assms by (simp add: eq grouped_def pd.wf_put)
  ultimately show ?thesis unfolding grouped_def by blast
qed

lemma grouped_all: "grouped E d \<Longrightarrow> grouped (set evs \<union> E) (fold add_pull_meta evs d)"
proof (induction evs arbitrary: E d)
  case (Cons ev evs)
  from Cons.IH[OF grouped_add[OF Cons.prems, of ev]] show ?case by simp
qed simp

lemma grouped_empty: "grouped {} []"
  by (simp add: grouped_def dict_simps pd.wf_empty)

lemma cur_append:
  assumes "\<And>h. h < length N \<Longrightarrow> \<not> dict_has (N ! h) r"
  shows "cur (G @ N) r g \<longleftrightarrow> cur G r g"
  using assms unfolding cur_def
  by (auto simp: nth_append less_diff_conv2 split: if_splits)

lemma admitted:
  assumes inv: "recv_inv cfg tr s"
    and chk: "check_events evs (set (dict_keys (rv_recv_events s)) \<union> set (dict_keys (rv_invalid s))) T = Inr ()"
    and d: "d = fold add_pull_meta evs []"
    and u: "u = (fold admit evs s)\<lparr>rv_groups := rv_groups (fold admit evs s) @ map snd d\<rparr>"
  shows "recv_inv cfg tr u" and "rv_error u = rv_error s" and "rv_agents u = rv_agents s"
    and "j < length d \<Longrightarrow> fresh_group u (length (rv_groups s) + j) (fst (d ! j))"
proof -
  define G N n where "G = rv_groups s" and "N = map snd d" and "n = length (rv_groups s)"
  define I where "I = re_request_id ` set evs"
  have inv': "agents_ok tr s" "groups_ok cfg tr s" "queries_ok s" "pulls_ok s" "finished_ok s" "acks_ok tr s" "events_ok s"
    using inv by (simp_all add: recv_inv_def)
  have dis: "distinct (map re_request_id evs)" and new: "\<And>r. r \<in> I \<Longrightarrow> \<not> dict_has (rv_recv_events s) r"
    using check_events_ok[OF chk] by (auto simp: I_def dict_has_iff)
  note ad = admit_all[OF dis, of "fold admit evs s" s, OF refl]
  have gr: "grouped (set evs) d" using grouped_all[OF grouped_empty, of evs] by (simp add: d)
  have fr: "rv_finished u = rv_finished s" "rv_failed u = rv_failed s" "rv_agents u = rv_agents s" "rv_tp_size u = rv_tp_size s"
    "rv_error u = rv_error s" "rv_groups u = G @ N" "rv_queries u = rv_queries s" "rv_pulls u = rv_pulls s"
    "dict_wf (rv_recv_events s) \<Longrightarrow> dict_wf (rv_recv_events u)"
    using ad(1) by (simp_all add: u G_def N_def)
  show "rv_error u = rv_error s" "rv_agents u = rv_agents s" by (rule fr)+
  have fut: "dict_get (rv_futures u) r = (if r \<in> I then Some False else dict_get (rv_futures s) r)" for r
    using ad(2) by (simp add: u I_def)
  have evo: "dict_get (rv_recv_events u) r = dict_get (rv_recv_events s) r" if "r \<notin> I" for r
    using ad(3) that by (simp add: u I_def)
  have evn: "dict_get (rv_recv_events u) (re_request_id ev) = Some ev" if "ev \<in> set evs" for ev
    using admit_event[OF dis that] by (simp add: u)
  have hase: "dict_has (rv_recv_events u) r \<longleftrightarrow> r \<in> I \<or> dict_has (rv_recv_events s) r" for r
    using evo evn by (cases "r \<in> I") (auto simp: dict_has_def I_def)
  have gj: "dict_get d (fst (d ! j)) = Some (N ! j)" if "j < length d" for j
    using gr that by (simp add: grouped_def N_def dict_get_eq_in)
  have Nmeta: "\<exists>ev \<in> set evs. r = re_request_id ev \<and> fst (d ! j) = re_remote_engine_id ev \<and> m = pull_meta ev"
    if "j < length d" "dict_get (N ! j) r = Some m" for j r m
    using gr gj[OF that(1)] that(2) unfolding grouped_def by blast
  have NI: "r \<in> I" if "h < length N" "dict_has (N ! h) r" for h r
    using Nmeta[of h r] that by (auto simp: N_def dict_has_def I_def)
  have cur_old: "cur (G @ N) r g \<longleftrightarrow> cur G r g" if "r \<notin> I" for r g
    by (rule cur_append) (use NI that in blast)
  have cur_new: "n \<le> g \<and> g - n < length d" if r: "r \<in> I" and c: "cur (G @ N) r g" for r g
  proof -
    obtain ev where ev: "ev \<in> set evs" "r = re_request_id ev" using r by (auto simp: I_def)
    then obtain metas where m: "dict_get d (re_remote_engine_id ev) = Some metas" "dict_has metas r"
      using gr by (auto simp: grouped_def)
    from m(1) obtain j where j: "j < length d" "d ! j = (re_remote_engine_id ev, metas)"
      using dict_get_Some_in in_set_conv_nth by metis
    then have "dict_has ((G @ N) ! (n + j)) r" using m(2) by (simp add: N_def n_def G_def nth_append)
    then have "\<not> g < n + j" using c j by (auto simp: cur_def n_def G_def N_def)
    then show ?thesis using c by (auto simp: cur_def n_def G_def N_def)
  qed
  have wait: "waiting u g r" if "waiting s g r" for g r
  proof -
    have "r \<notin> I" using that new by (auto simp: waiting_def)
    then show ?thesis using that cur_old by (simp add: waiting_def fr hase fut G_def)
  qed
  have gn: "pt_group p < n" if "p \<in> set (rv_pulls s)" for p using inv'(4) that by (simp add: pulls_ok_def n_def)
  have po: "pulls_of g u = pulls_of g s" for g by (simp add: pulls_of_def fr)
  have none: "pulls_of g s = []" if "n \<le> g" for g using gn that by (fastforce simp: pulls_of_def filter_empty_conv)
  have an: "answers g r u = answers g r s" for g r by (simp add: answers_def po)
  have oq: "open_query u = open_query s" by (intro ext) (simp add: open_query_def fr)
  have old: "rv_groups u ! g = rv_groups s ! g" if "g < n" for g using that by (simp add: fr G_def n_def nth_append)
  have newg: "rv_groups u ! g = N ! (g - n)" if "n \<le> g" for g using that by (simp add: fr G_def n_def nth_append)
  have len: "length (rv_groups u) = n + length d" by (simp add: fr G_def n_def N_def)
  have 1: "agents_ok tr u" using inv'(1) by (simp add: agents_ok_def fr)
  have 2: "groups_ok cfg tr u" unfolding groups_ok_def
  proof (intro allI impI)
    fix g assume g: "g < length (rv_groups u)"
    show "dict_wf (rv_groups u ! g) \<and> (\<forall>rid m. dict_get (rv_groups u ! g) rid = Some m \<longrightarrow> pm_d_req_id m = rid) \<and>
      (pulls_of g u \<noteq> [] \<longrightarrow> \<not> open_query u g \<and> launched cfg tr u g)"
    proof (cases "g < n")
      case True
      then show ?thesis using groups_okD[OF inv'(2), of g] by (auto simp: old po oq n_def launched_def an)
    next
      case False
      then have j: "g - n < length d" using g by (simp add: len)
      have "dict_wf (N ! (g - n))" using gr gj[OF j] unfolding grouped_def by blast
      moreover have "pm_d_req_id m = r" if "dict_get (N ! (g - n)) r = Some m" for r m
        using Nmeta[OF j that] by (auto simp: pull_meta_def)
      ultimately show ?thesis using False none[of g] by (simp add: newg po)
    qed
  qed
  have 3: "queries_ok u"
  proof (rule queries_ok_frame[OF inv'(3)])
    show "g < length (rv_groups s) \<Longrightarrow> g < length (rv_groups u)" for g by (simp add: len n_def)
    fix g r m assume o: "open_query s g" and m: "dict_get (rv_groups u ! g) r = Some m"
    have "g < n" using queries_okD(1)[OF inv'(3) o] by (simp add: n_def)
    then show "\<exists>m0. dict_get (rv_groups s ! g) r = Some m0 \<and> pm_remote_engine_id m = pm_remote_engine_id m0"
      using m by (simp add: old)
  qed (simp_all add: fr wait)
  have 4: "pulls_ok u" using inv'(4) wait by (auto simp: pulls_ok_def fr n_def G_def intro: trans_less_add1)
  have 5: "finished_ok u" unfolding finished_ok_def fr(1,2,6) po
  proof (intro conjI ballI)
    show "distinct (rv_finished s)" using inv'(5) by (simp add: finished_ok_def)
    fix r assume r: "r \<in> set (rv_finished s)"
    then have hr: "dict_has (rv_recv_events s) r" using inv'(5) by (simp add: finished_ok_def)
    then show "dict_has (rv_recv_events u) r" by (simp add: hase)
    have "r \<notin> I" using hr new by blast
    then have c: "cur (G @ N) r = cur G r" by (intro ext) (rule cur_old)
    from inv'(5) r consider "r \<in> rv_failed s" | g m where "cur G r g" "pulls_of g s \<noteq> []"
        "dict_get (rv_groups s ! g) r = Some m" "pm_pull_tasks_count m = 0" unfolding finished_ok_def G_def by blast
    then show "r \<in> rv_failed s \<or> (\<exists>g m. cur (G @ N) r g \<and> pulls_of g s \<noteq> [] \<and>
        dict_get ((G @ N) ! g) r = Some m \<and> pm_pull_tasks_count m = 0)"
    proof cases
      case (2 g m)
      moreover have "(G @ N) ! g = rv_groups s ! g" using 2(1) by (simp add: cur_def G_def nth_append)
      ultimately show ?thesis unfolding c by metis
    qed simp
  qed
  have 6: "acks_ok tr u" unfolding acks_ok_def fr
  proof (intro allI impI)
    fix k r assume k: "k < length (rv_pulls s)" and a: "cur (G @ N) r (pt_group (rv_pulls s ! k)) \<and>
        dict_has (rv_recv_events u) r \<and> r \<notin> set (pt_remaining (rv_pulls s ! k))"
    have "r \<notin> I" using cur_new[of r "pt_group (rv_pulls s ! k)"] a gn[OF nth_mem[OF k]] by auto
    then show "r \<in> rv_failed s \<or> confirmed tr k r"
      using a k inv'(6) cur_old by (simp add: acks_ok_def hase G_def)
  qed
  have 7: "events_ok u"
  proof -
    have "re_request_id ev = r \<and> dict_has (rv_futures u) r \<and>
      (\<forall>g m. cur (rv_groups u) r g \<longrightarrow> dict_get (rv_groups u ! g) r = Some m \<longrightarrow> meta_for m ev)"
      if e: "dict_get (rv_recv_events u) r = Some ev" for r ev
    proof (cases "r \<in> I")
      case True
      then obtain ev' where ev': "ev' \<in> set evs" "r = re_request_id ev'" by (auto simp: I_def)
      then have "ev' = ev" using e evn[of ev'] by simp
      moreover have "meta_for m ev" if c: "cur (rv_groups u) r g" and m: "dict_get (rv_groups u ! g) r = Some m" for g m
      proof -
        have g: "n \<le> g" "g - n < length d" using cur_new[OF True] c by (auto simp: fr(6))
        obtain x where x: "x \<in> set evs" "r = re_request_id x" "m = pull_meta x"
          using Nmeta[OF g(2), of r m] m newg[OF g(1)] by auto
        then have "x = ev" using evn[OF x(1)] e by simp
        then show ?thesis using x(3) by (simp add: meta_for_def pull_meta_def)
      qed
      ultimately show ?thesis using ev'(2) True by (simp add: dict_has_def fut)
    next
      case False
      then have e': "dict_get (rv_recv_events s) r = Some ev" using e evo by simp
      have "meta_for m ev" if c: "cur (rv_groups u) r g" and m: "dict_get (rv_groups u ! g) r = Some m" for g m
      proof -
        have c': "cur (rv_groups s) r g" using c cur_old[OF False] by (simp add: fr(6) G_def)
        then have "rv_groups u ! g = rv_groups s ! g" by (intro old) (simp add: cur_def n_def)
        then show ?thesis using inv'(7) e' c' m by (simp add: events_ok_def)
      qed
      then show ?thesis using inv'(7) e' False by (auto simp: events_ok_def dict_has_def fut)
    qed
    moreover have "dict_wf (rv_recv_events u)" using fr(9) inv'(7) by (simp add: events_ok_def)
    ultimately show ?thesis unfolding events_ok_def by blast
  qed
  show "recv_inv cfg tr u" using 1 2 3 4 5 6 7 by (simp add: recv_inv_def)
  show "fresh_group u (length (rv_groups s) + j) (fst (d ! j))" if j: "j < length d"
    unfolding fresh_group_def n_def[symmetric]
  proof (intro conjI allI impI)
    show "n + j < length (rv_groups u)" using j by (simp add: len)
    show "pulls_of (n + j) u = []" by (simp add: po none)
    show "\<not> open_query u (n + j)" using queries_okD(1)[OF inv'(3), of "n + j"] by (auto simp: oq n_def)
    fix r m assume m: "dict_get (rv_groups u ! (n + j)) r = Some m"
    then have m': "dict_get (N ! j) r = Some m" by (simp add: newg)
    obtain ev where ev: "ev \<in> set evs" "r = re_request_id ev" "fst (d ! j) = re_remote_engine_id ev" "m = pull_meta ev"
      using Nmeta[OF j m'] by blast
    then show "pm_remote_engine_id m = fst (d ! j)" by (simp add: pull_meta_def)
    have rI: "r \<in> I" using ev by (simp add: I_def)
    have same: "h = j" if h: "h < length d" and has: "dict_has (N ! h) r" for h
    proof -
      obtain m2 where "dict_get (N ! h) r = Some m2" using has by (auto simp: dict_has_def)
      from Nmeta[OF h this] obtain ev2 where e2: "ev2 \<in> set evs" "r = re_request_id ev2" "fst (d ! h) = re_remote_engine_id ev2" by blast
      then have "ev2 = ev" using evn[OF e2(1)] evn[OF ev(1)] unfolding e2(2)[symmetric] ev(2)[symmetric] by simp
      then have "fst (d ! h) = fst (d ! j)" using e2(3) ev(3) by simp
      moreover have "distinct (map fst d)" using gr by (simp add: grouped_def dict_wf_def)
      ultimately show ?thesis using nth_eq_iff_index_eq[of "map fst d" h j] h j by simp
    qed
    have "cur (G @ N) r (n + j)" unfolding cur_def
    proof (intro conjI allI impI)
      show "n + j < length (G @ N)" using j by (simp add: n_def G_def N_def)
      show "dict_has ((G @ N) ! (n + j)) r" using m' by (simp add: n_def G_def dict_has_def nth_append)
      fix h assume h: "n + j < h \<and> h < length (G @ N)"
      then have hn: "h - n < length d" "h - n \<noteq> j" "\<not> h < length G" by (auto simp: n_def G_def N_def)
      show "\<not> dict_has ((G @ N) ! h) r" using same[OF hn(1)] hn by (auto simp: n_def G_def nth_append)
    qed
    moreover have "r \<notin> set (rv_finished s)" using new[OF rI] inv'(5) by (auto simp: finished_ok_def)
    ultimately show "waiting u (n + j) r" using rI by (simp add: waiting_def fr hase fut)
  qed
qed

lemma new_query_inv:
  assumes inv: "recv_inv cfg tr s" and fresh: "fresh_group s g engine"
    and u: "u = s\<lparr>rv_queries := rv_queries s @ [\<lparr>eq_engine = engine, eq_group = g, eq_phase = Query_Created\<rparr>]\<rparr>"
  shows "recv_inv cfg tr u"
proof -
  have inv': "agents_ok tr s" "groups_ok cfg tr s" "queries_ok s" "pulls_ok s" "finished_ok s" "acks_ok tr s" "events_ok s"
    using inv by (simp_all add: recv_inv_def)
  have f: "g < length (rv_groups s)" "pulls_of g s = []" "\<not> open_query s g"
    "\<And>r m. dict_get (rv_groups s ! g) r = Some m \<Longrightarrow> waiting s g r \<and> pm_remote_engine_id m = engine"
    using fresh by (auto simp: fresh_group_def)
  have po: "pulls_of h u = pulls_of h s" "answers h r u = answers h r s" "waiting u h r = waiting s h r"
    "launched cfg tr u h = launched cfg tr s h" for h r
    by (simp_all add: u pulls_of_def answers_def waiting_def launched_def)
  have oq: "open_query u h \<longleftrightarrow> open_query s h \<or> h = g" for h by (auto simp: open_query_def u)
  have same: "rv_groups u = rv_groups s" "rv_pulls u = rv_pulls s" "rv_recv_events u = rv_recv_events s"
    "rv_futures u = rv_futures s" "rv_finished u = rv_finished s" "rv_failed u = rv_failed s"
    "rv_agents u = rv_agents s" "rv_tp_size u = rv_tp_size s"
    by (simp_all add: u)
  have closed_g: "eq_group q \<noteq> g" if "q \<in> set (rv_queries s)" "eq_phase q \<noteq> Query_Over" for q
    using f(3) that by (auto simp: open_query_def)
  have "queries_ok u" unfolding queries_ok_def
  proof (intro conjI allI impI)
    fix i j assume a: "i < length (rv_queries u) \<and> j < length (rv_queries u) \<and> eq_phase (rv_queries u ! i) \<noteq> Query_Over \<and>
      eq_phase (rv_queries u ! j) \<noteq> Query_Over \<and> eq_group (rv_queries u ! i) = eq_group (rv_queries u ! j)"
    have at: "rv_queries u ! k = rv_queries s ! k" if "k < length (rv_queries s)" for k using that by (simp add: u nth_append)
    have last: "k = length (rv_queries s) \<and> eq_group (rv_queries u ! k) = g"
      if "k < length (rv_queries u)" "\<not> k < length (rv_queries s)" for k using that by (auto simp: u nth_append)
    have ne: "eq_group (rv_queries u ! k) \<noteq> g" if "k < length (rv_queries s)" "eq_phase (rv_queries u ! k) \<noteq> Query_Over" for k
      using closed_g[OF nth_mem[OF that(1)]] that by (simp add: at)
    show "i = j"
    proof (cases "i < length (rv_queries s)"; cases "j < length (rv_queries s)")
      assume "i < length (rv_queries s)" "j < length (rv_queries s)"
      then show ?thesis using queries_unique[OF inv'(3), of i j] a by (simp add: at)
    next
      assume i: "i < length (rv_queries s)" and j: "\<not> j < length (rv_queries s)"
      from ne[OF i] last[OF _ j] a show ?thesis by simp
    next
      assume i: "\<not> i < length (rv_queries s)" and j: "j < length (rv_queries s)"
      from ne[OF j] last[OF _ i] a show ?thesis by simp
    next
      assume i: "\<not> i < length (rv_queries s)" and j: "\<not> j < length (rv_queries s)"
      from last[OF _ i] last[OF _ j] a show ?thesis by simp
    qed
  next
    fix h assume o: "open_query u h"
    have h: "h < length (rv_groups s) \<and> (\<forall>r. dict_has (rv_groups s ! h) r \<longrightarrow> waiting s h r)"
      using o f queries_okD(1,2)[OF inv'(3), of h] by (auto simp: oq dict_has_def)
    then show "h < length (rv_groups u)" by (simp add: same)
    show "waiting u h r" if "dict_has (rv_groups u ! h) r" for r using h that by (simp add: same po)
    show "\<forall>q \<in> set (rv_queries u). eq_group q = h \<and> eq_phase q \<noteq> Query_Over \<longrightarrow> pm_remote_engine_id m = eq_engine q"
      if m: "dict_get (rv_groups u ! h) r = Some m" for r m
    proof (cases "h = g")
      case True
      then show ?thesis using f(4)[of r m] m closed_g by (auto simp: u)
    next
      case False
      then have "open_query s h" using o oq by blast
      then show ?thesis using False queries_okD(3)[OF inv'(3), of h r m] m by (auto simp: u)
    qed
  qed
  moreover have "groups_ok cfg tr u" using inv'(2) f(2) by (auto simp: groups_ok_def same po oq)
  moreover have "agents_ok tr u" "pulls_ok u" "finished_ok u" "acks_ok tr u" "events_ok u"
    using inv' by (simp_all add: agents_ok_def pulls_ok_def finished_ok_def acks_ok_def events_ok_def same po)
  ultimately show ?thesis by (simp add: recv_inv_def)
qed

lemma fresh_query:
  assumes "fresh_group s h e" and "h \<noteq> g"
  shows "fresh_group (s\<lparr>rv_queries := rv_queries s @ [\<lparr>eq_engine = engine, eq_group = g, eq_phase = ph\<rparr>]\<rparr>) h e"
  using assms by (auto simp: fresh_group_def pulls_of_def waiting_def open_query_def)

lemma fresh_receive:
  assumes "fresh_group s h e" and "h \<noteq> g" and "g < length (rv_groups s)"
  shows "fresh_group (fst (receive_kv cfg engine g s)) h e"
  using assms(3)
proof (cases rule: receive_kv_cases[of g s cfg engine])
  case (lost e')
  then show ?thesis using assms(1) by simp
next
  case (spawned ranks addrs r n)
  then show ?thesis using assms
    by (auto simp: fresh_group_def launch_waiting launch_pulls_of launch_open launch_get)
qed

lemma start_load_kv_inv:
  assumes "recv_inv cfg tr s" and "\<And>e g. (e, g) \<in> set egs \<Longrightarrow> fresh_group s g e" and "distinct (map snd egs)"
  shows "recv_inv cfg tr (fst (start_load_kv cfg egs s)) \<and> rv_error (fst (start_load_kv cfg egs s)) = rv_error s"
  using assms
proof (induction cfg egs s rule: start_load_kv.induct)
  case (2 cfg engine g rest s)
  have fresh: "fresh_group s g engine" using 2(4)[of engine g] by simp
  have g: "g < length (rv_groups s)" using fresh by (simp add: fresh_group_def)
  have other: "fresh_group s h e \<and> h \<noteq> g" if "(e, h) \<in> set rest" for e h
    using 2(4)[of e h] 2(5) that by force
  show ?case
  proof (cases "dict_has (rv_agents s) engine")
    case False
    define u where "u = s\<lparr>rv_queries := rv_queries s @ [\<lparr>eq_engine = engine, eq_group = g, eq_phase = Query_Created\<rparr>]\<rparr>"
    have "fresh_group u h e" if "(e, h) \<in> set rest" for e h
      using fresh_query[of s h e g engine Query_Created] other[OF that] by (simp add: u_def)
    from 2(1)[OF False new_query_inv[OF 2(3) fresh refl]] this 2(5) show ?thesis using False by (simp add: u_def)
  next
    case True
    show ?thesis
    proof (cases "receive_kv cfg engine g s")
      case (Pair s' r)
      note ri = receive_kv_inv[OF 2(3) fresh, unfolded Pair fst_conv]
      have fr: "fresh_group s' h e" if "(e, h) \<in> set rest" for e h
        using fresh_receive[of s h e g cfg engine] other[OF that] g Pair by simp
      show ?thesis
      proof (cases r)
        case (Inl x)
        then show ?thesis using True Pair ri by simp
      next
        case (Inr x)
        from 2(2)[of s' r x] ri fr 2(5) True Pair Inr show ?thesis by simp
      qed
    qed
  qed
qed simp

lemma start_receive_inv:
  assumes inv: "recv_inv cfg tr s"
  shows "recv_inv cfg tr (fst (start_receive cfg evs s)) \<and> rv_error (fst (start_receive cfg evs s)) = rv_error s"
proof (cases "rv_error s")
  case (Some t)
  then show ?thesis using inv by (simp add: start_receive_def check_receive_error_def)
next
  case none: None
  define A T where "A = set (dict_keys (rv_recv_events s)) \<union> set (dict_keys (rv_invalid s))"
    and "T = rv_retired s \<union> (re_transfer_id \<circ> snd) ` set (rv_recv_events s)"
  show ?thesis
  proof (cases "check_events evs A T")
    case (Inl e)
    then show ?thesis using inv none by (simp add: start_receive_def check_receive_error_def A_def T_def)
  next
    case (Inr x)
    then have chk: "check_events evs A T = Inr ()" by simp
    define d where "d = fold add_pull_meta evs []"
    define u where "u = (fold admit evs s)\<lparr>rv_groups := rv_groups (fold admit evs s) @ map snd d\<rparr>"
    note ad = admitted[OF inv chk[unfolded A_def] d_def u_def]
    define egs where "egs = zip (map fst d) [length (rv_groups s)..<length (rv_groups s) + length d]"
    have "start_receive cfg evs s = start_load_kv cfg egs u"
      using chk[unfolded A_def T_def] none
      by (simp add: start_receive_def check_receive_error_def d_def u_def egs_def Let_def)
    moreover have "fresh_group u g e" if "(e, g) \<in> set egs" for e g
      using that ad(4) by (auto simp: egs_def set_zip)
    moreover have "distinct (map snd egs)" by (simp add: egs_def)
    ultimately show ?thesis using start_load_kv_inv[OF ad(1)] ad(2) by simp
  qed
qed

text \<open>A lost fence is never forgotten.\<close>

lemma set_query_error [simp]: "rv_error (set_query i ph s) = rv_error s"
  by (simp add: set_query_def)

lemma count_results_error: "rv_error (fst (count_results g rids s)) = rv_error s"
  by (induction g rids s rule: count_results.induct)
    (auto simp: Let_def finish_receive_def split: option.splits)

lemma process_error: "rv_error (snd (fst (process_pulling_result resp g rs s))) = rv_error s"
  using count_results_error[of g "or_empty (xs_ok_reqs resp) @ response_errors resp rs"
      "s\<lparr>rv_failed := rv_failed s \<union> set (response_errors resp rs)\<rparr>"]
  by (auto simp: process_pulling_result_def Let_def split: prod.splits sum.splits)

lemma pull_fail_error: "rv_error s = Some t \<Longrightarrow> rv_error (pull_fail cfg i exc s) = Some t"
  using process_error by (auto simp: pull_fail_def Let_def split: prod.splits) (metis fst_conv snd_conv)+

lemma pull_response_error: "rv_error s = Some t \<Longrightarrow> rv_error (pull_response cfg i resp s) = Some t"
  using process_error[of resp "pt_group (rv_pulls s ! i)" "pt_remaining (rv_pulls s ! i)" s] pull_fail_error
  by (auto simp: pull_response_def Let_def split: prod.splits sum.splits)

lemma spawn_pulls_error: "rv_error (fst (spawn_pulls e g ranks s)) = rv_error s"
  using spawn_pulls_eq[of e g ranks s] by force

lemma receive_kv_error: "rv_error (fst (receive_kv cfg e g s)) = rv_error s"
  by (simp add: receive_kv_def spawn_pulls_error split: option.splits sum.splits)

lemma fail_group_error: "rv_error (fail_group metas s) = rv_error s"
  by (induction metas s rule: fail_group.induct) (auto simp: finish_receive_def Let_def split: option.splits)

lemma after_query_error: "rv_error (after_query cfg i s) = rv_error s"
  by (simp add: after_query_def Let_def receive_kv_error fail_group_error)

lemma connect_error: "rv_error (connect_to_prefiller_bootstrap addr reply s) = rv_error s"
proof -
  have "rv_error (store_entries entries s) = rv_error s" for entries using store_entries_frame[of entries s] by auto
  then show ?thesis by (simp add: connect_to_prefiller_bootstrap_def Let_def split: sum.splits)
qed

lemma start_load_kv_error: "rv_error (fst (start_load_kv cfg egs s)) = rv_error s"
proof (induction cfg egs s rule: start_load_kv.induct)
  case (2 cfg engine g rest s)
  then show ?case using receive_kv_error[of cfg engine g s] by (auto split: prod.splits sum.splits)
qed simp

lemma start_receive_error: "rv_error s = Some t \<Longrightarrow> fst (start_receive cfg evs s) = s"
  by (simp add: start_receive_def check_receive_error_def)

lemma error_sticky:
  assumes "do_act cfg a s = Some s'" and "rv_error s = Some t"
  shows "rv_error s' = Some t"
proof (cases a)
  case (Act_Net n)
  have "rv_error (net_step cfg n s) = Some t"
    using assms(2) by (cases n) (auto simp: query_start_def Let_def after_query_error connect_error pull_publish_def
        pull_fail_error pull_response_error split: list.splits option.splits query_phase.splits)
  then show ?thesis using assms Act_Net by simp
qed (use assms start_receive_error in \<open>auto simp: fetch_finished_recving_reqs_def take_receive_errors_def
    wait_for_receives_def check_receive_error_def\<close>)

section \<open>The invariant holds in every execution\<close>

lemma recv_run_inv: "recv_run cfg tr s \<Longrightarrow> rv_error s = None \<Longrightarrow> recv_inv cfg tr s"
proof (induction rule: recv_run.induct)
  case run_init
  show ?case by (rule recv_inv_init)
next
  case (run_step tr s a s')
  then have none: "rv_error s = None" using error_sticky by fastforce
  note inv = run_step.IH[OF none]
  note inv1 = inv_mono[OF inv, of a]
  show ?case
  proof (cases a)
    case (Act_Recv evs)
    then show ?thesis using start_receive_inv[OF inv1, of evs] run_step by simp
  next
    case (Act_Net n)
    then show ?thesis using net_inv[of s cfg tr n] inv none run_step by simp
  next
    case Act_Poll
    show ?thesis using fetch_closed[OF inv1 none] run_step Act_Poll by (auto split: sum.splits)
  next
    case Act_Errors
    then have s': "s' = s\<lparr>rv_invalid := []\<rparr>"
      using run_step none by (simp add: take_receive_errors_def check_receive_error_def)
    show ?thesis unfolding s' by (rule inv_frame[OF inv1]) (use inv1 in \<open>simp_all add: recv_inv_def agents_ok_def\<close>)
  next
    case (Act_Fence ids)
    then have "wait_for_receives ids s = Some (Inr s')"
      using run_step by (auto split: option.splits sum.splits)
    then show ?thesis by (rule fence_closed(1)[OF inv1])
  qed
qed

section \<open>What the receiver promises\<close>

text \<open>No task has the request open.\<close>

definition no_writer :: "receiver \<Rightarrow> string \<Rightarrow> bool" where
  "no_writer s rid \<longleftrightarrow> list_all (\<lambda>p. rid \<notin> set (pt_remaining p)) (rv_pulls s)"

lemma no_writerI:
  assumes "recv_inv cfg tr s" and "\<And>g. \<not> waiting s g rid"
  shows "no_writer s rid"
  using assms by (auto simp: no_writer_def list_all_iff recv_inv_def pulls_ok_def)

lemma fetch_errors: "fetch_finished_recving_reqs s = Inr rs \<Longrightarrow> rv_error s = None"
  by (auto simp: fetch_finished_recving_reqs_def check_receive_error_def split: option.splits)

lemma fetch_result:
  assumes run: "recv_run cfg tr s" and f: "fetch_finished_recving_reqs s = Inr (results, s')" and r: "r \<in> set results"
  shows "recv_inv cfg tr s" and "rv_error s' = None" and "rv_pulls s' = rv_pulls s"
    and "tf_request_id r \<in> set (rv_finished s)" and "tf_error r = None \<longleftrightarrow> tf_request_id r \<notin> rv_failed s"
    and "tf_error r \<noteq> None \<Longrightarrow> dict_get (rv_invalid s') (tf_request_id r) =
       map_option (\<lambda>ev. block_set (re_block_ids ev)) (dict_get (rv_recv_events s) (tf_request_id r))"
proof -
  have none: "rv_error s = None" by (rule fetch_errors[OF f])
  show inv: "recv_inv cfg tr s" by (rule recv_run_inv[OF run none])
  obtain t where t: "fetch_finished_recving_reqs s = Inr (map (recv_result s) (rv_finished s), t)" "rv_error t = None"
    "rv_pulls t = rv_pulls s" "\<And>r. r \<in> set (rv_finished s) \<Longrightarrow> r \<in> rv_failed s \<Longrightarrow>
       dict_get (rv_invalid t) r = map_option (\<lambda>ev. block_set (re_block_ids ev)) (dict_get (rv_recv_events s) r)"
    using fetch_closed[OF inv none] by metis
  then have eq: "results = map (recv_result s) (rv_finished s)" "s' = t" using f by simp_all
  show "rv_error s' = None" "rv_pulls s' = rv_pulls s" using t eq by simp_all
  obtain x where x: "x \<in> set (rv_finished s)" "r = recv_result s x" using r by (auto simp: eq)
  then show "tf_request_id r \<in> set (rv_finished s)" "tf_error r = None \<longleftrightarrow> tf_request_id r \<notin> rv_failed s"
    by (simp_all add: recv_result_def)
  show "dict_get (rv_invalid s') (tf_request_id r) =
       map_option (\<lambda>ev. block_set (re_block_ids ev)) (dict_get (rv_recv_events s) (tf_request_id r))"
    if "tf_error r \<noteq> None" using that x t(4) by (auto simp: recv_result_def eq split: if_splits)
qed

text \<open>A consumer with one rank facing a producer with two, and a receive that both confirm.\<close>

definition ex_cfg :: receiver_cfg where
  "ex_cfg = \<lparr>rc_hostname = ''d'', rc_rpc_port = 7000, rc_transfer =
     \<lparr>kt_tp_rank = 0, kt_tp_size = 1, kt_topo = npu_topo \<lparr>nt_tp_rank = 0, nt_tp_size = 1, nt_block_size = 16,
        nt_is_mla = False, nt_total_num_kv_heads = 2\<rparr>, kt_num_blocks = 8, kt_base_addr = [4096], kt_block_len = [64],
      kt_is_npu = True, kt_layout = ''HND''\<rparr>, rc_repr = exc_text\<rparr>"

definition ex_event :: RecvEvent where
  "ex_event = \<lparr>re_request_id = ''r'', re_transfer_id = ''t'', re_block_ids = [[3, 4]], re_bootstrap_addr = ''http://p/'',
     re_remote_engine_id = ''E'', re_remote_dp_rank = 0\<rparr>"

definition ex_workers :: worker_table where
  "ex_workers = [(0, [(0, ''a0'')]), (1, [(0, ''a1'')])]"

definition ex_response :: "string list \<Rightarrow> KVTransferResponse" where
  "ex_response ok = \<lparr>xs_status = FINISH, xs_ok_reqs = Some ok, xs_err_reqs = None, xs_err_msg = None\<rparr>"

definition ex_start :: "recv_act list" where
  "ex_start = [Act_Recv [ex_event], Act_Net (Query_Run 0), Act_Net (Query_Reply 0 (Inr [Inr (''E'', ex_workers)])),
     Act_Net (Pull_Send 0), Act_Net (Pull_Send 1)]"

definition ex_done :: "recv_act list" where
  "ex_done = ex_start @ [Act_Net (Pull_Response 1 (ex_response [''r''])), Act_Net (Pull_Response 0 (ex_response [''r'']))]"

definition ex_state :: "recv_act list \<Rightarrow> receiver" where
  "ex_state as = the (exec ex_cfg as new_receiver)"

lemma ex_run: "exec ex_cfg as new_receiver \<noteq> None \<Longrightarrow> recv_run ex_cfg (rev as) (ex_state as)"
  using exec_run[OF run_init[of ex_cfg], of as "ex_state as"] by (auto simp: ex_state_def)

text \<open>
  A receive is only reported as over when nobody can write its blocks any more. Whatever the
  order in which bootstrap answers, producer responses, failures and the worker's calls come, when
  \<open>poll\<close> returns a result for a request, no task of the receiver loop has that request open with
  a producer, and none gets it back by the poll.
\<close>

theorem receive_result_final:
  assumes "recv_run cfg tr s" and "fetch_finished_recving_reqs s = Inr (results, s')" and "r \<in> set results"
  shows "no_writer s (tf_request_id r) \<and> no_writer s' (tf_request_id r)"
proof -
  note f = fetch_result[OF assms]
  have "no_writer s (tf_request_id r)" by (rule no_writerI[OF f(1)]) (use f(4) in \<open>simp add: waiting_def\<close>)
  then show ?thesis using f(3) by (simp add: no_writer_def)
qed

lemma receive_result_final_witness:
  "no_writer (ex_state ex_done) ''r'' \<and> no_writer (snd (projr (fetch_finished_recving_reqs (ex_state ex_done)))) ''r''"
proof -
  have run: "recv_run ex_cfg (rev ex_done) (ex_state ex_done)" by (rule ex_run) code_simp
  have f: "fetch_finished_recving_reqs (ex_state ex_done) = Inr ([\<lparr>tf_request_id = ''r'', tf_error = None\<rparr>],
      snd (projr (fetch_finished_recving_reqs (ex_state ex_done))))" by code_simp
  from receive_result_final[OF run f, of "\<lparr>tf_request_id = ''r'', tf_error = None\<rparr>"] show ?thesis by simp
qed

text \<open>Task \<open>i\<close> went to the worker of \<open>rank\<close>, asked for the blocks of \<open>ev\<close> and was told
  that they were written.\<close>

definition confirmed_by ::
  "receiver_cfg \<Rightarrow> recv_act list \<Rightarrow> receiver \<Rightarrow> RecvEvent \<Rightarrow> worker_table \<Rightarrow> int \<Rightarrow> nat \<Rightarrow> bool" where
  "confirmed_by cfg tr s ev ws rank i \<longleftrightarrow>
     i < length (rv_pulls s) \<and> paired ws (rv_pulls s ! i) rank \<and>
     dict_get (xr_req_blocks (pull_request cfg (rv_groups s ! pt_group (rv_pulls s ! i)))) (re_request_id ev)
       = Some (re_transfer_id ev, re_block_ids ev) \<and>
     confirmed tr i (re_request_id ev)"

text \<open>
  C31: a successful receive has been confirmed by every paired producer. When \<open>poll\<close> reports a
  request without an error, the bootstrap server announced workers for the request's engine, and each
  TP rank that the topology pairs with this consumer for that many workers has answered, at the
  address announced for it, that it wrote the request's blocks.
\<close>

theorem receive_success_complete:
  assumes "recv_run cfg tr s" and "fetch_finished_recving_reqs s = Inr (results, s')" and "r \<in> set results"
    and "tf_error r = None"
  shows "\<exists>ev ws ranks. dict_get (rv_recv_events s) (tf_request_id r) = Some ev \<and>
    announced tr (re_remote_engine_id ev) ws \<and>
    to_targets (kt_topo (rc_transfer cfg)) (int (length ws)) = Inr ranks \<and>
    list_all (\<lambda>rank. \<exists>i. confirmed_by cfg tr s ev ws rank i) ranks"
proof -
  define rid where "rid = tf_request_id r"
  note f = fetch_result[OF assms(1-3), folded rid_def]
  have inv: "groups_ok cfg tr s" "finished_ok s" "acks_ok tr s" "events_ok s" using f(1) by (simp_all add: recv_inv_def)
  have nf: "rid \<notin> rv_failed s" using f(5) assms(4) by simp
  obtain g m where g: "cur (rv_groups s) rid g" "pulls_of g s \<noteq> []" "dict_get (rv_groups s ! g) rid = Some m"
    "pm_pull_tasks_count m = 0" and has: "dict_has (rv_recv_events s) rid"
    using inv(2) f(4) nf by (auto simp: finished_ok_def)
  obtain ev where ev: "dict_get (rv_recv_events s) rid = Some ev" using has by (auto simp: dict_has_def)
  have evm: "re_request_id ev = rid" "meta_for m ev" using inv(4) ev g(1,3) by (auto simp: events_ok_def)
  have gl: "g < length (rv_groups s)" using g(1) by (simp add: cur_def)
  obtain e ws ranks where L: "announced tr e ws" "to_targets (kt_topo (rc_transfer cfg)) (int (length ws)) = Inr ranks"
    "length (pulls_of g s) \<le> length ranks" "list_all2 (paired ws) (pulls_of g s) (take (length (pulls_of g s)) ranks)"
    "pm_remote_engine_id m = e" "pm_pull_tasks_count m = int (length ranks) - int (answers g rid s)"
    using groups_okD(3)[OF inv(1) gl g(2)] g(3) unfolding launched_def by blast
  have all: "length (pulls_of g s) \<le> answers g rid s" using L(3,6) g(4) by simp
  moreover have "answers g rid s \<le> length (pulls_of g s)" by (simp add: answers_def)
  ultimately have "length (pulls_of g s) = length ranks" using L(6) g(4) by simp
  then have pair: "list_all2 (paired ws) (pulls_of g s) ranks" using L(4) by simp
  have "\<exists>i. confirmed_by cfg tr s ev ws rank i" if rank: "rank \<in> set ranks" for rank
  proof -
    obtain p where p: "p \<in> set (pulls_of g s)" "paired ws p rank"
      using pair rank by (auto simp: list_all2_conv_all_nth in_set_conv_nth) metis
    then obtain i where i: "i < length (rv_pulls s)" "rv_pulls s ! i = p" "pt_group p = g"
      by (auto simp: pulls_of_def in_set_conv_nth)
    have "rid \<notin> set (pt_remaining p)" by (rule all_answered[OF all p(1)])
    then have "confirmed tr i rid" using inv(3) i g(1) has nf unfolding acks_ok_def by blast
    then have "confirmed_by cfg tr s ev ws rank i" using i p(2) g(3) evm
      by (simp add: confirmed_by_def pull_request_def dict_simps meta_for_def)
    then show ?thesis by blast
  qed
  then show ?thesis using ev L(1,2,5) evm(2) unfolding rid_def[symmetric]
    by (intro exI[of _ ev] exI[of _ ws] exI[of _ ranks]) (auto simp: list_all_iff meta_for_def)
qed

lemma receive_success_complete_witness:
  "\<exists>ws ranks. announced (rev ex_done) ''E'' ws \<and> to_targets (kt_topo (rc_transfer ex_cfg)) (int (length ws)) = Inr ranks \<and>
     list_all (\<lambda>rank. \<exists>i. confirmed_by ex_cfg (rev ex_done) (ex_state ex_done) ex_event ws rank i) ranks"
proof -
  have run: "recv_run ex_cfg (rev ex_done) (ex_state ex_done)" by (rule ex_run) code_simp
  have f: "fetch_finished_recving_reqs (ex_state ex_done) = Inr ([\<lparr>tf_request_id = ''r'', tf_error = None\<rparr>],
      snd (projr (fetch_finished_recving_reqs (ex_state ex_done))))" by code_simp
  have e: "dict_get (rv_recv_events (ex_state ex_done)) ''r'' = Some ex_event" by code_simp
  from receive_success_complete[OF run f, of "\<lparr>tf_request_id = ''r'', tf_error = None\<rparr>"] e
  show ?thesis by (auto simp: ex_event_def)
qed

lemma fence_safe:
  assumes "recv_run cfg tr s" and "wait_for_receives request_ids s = Some (Inr s')"
  shows "case request_ids of
      Some rids \<Rightarrow> list_all (\<lambda>rid. no_writer s' rid \<and> \<not> dict_has (rv_recv_events s') rid) rids
    | None \<Rightarrow> list_all (\<lambda>p. pt_remaining p = []) (rv_pulls s')"
proof -
  have none: "rv_error s = None"
    using assms(2) by (auto simp: wait_for_receives_def check_receive_error_def split: option.splits)
  note inv = recv_run_inv[OF assms(1) none]
  note f = fence_closed[OF inv assms(2)]
  show ?thesis
  proof (cases request_ids)
    case (Some rids)
    have "no_writer s' rid" if "rid \<in> set rids" for rid
      by (rule no_writerI[OF f(1)]) (use f(6)[of rid] that Some in \<open>auto simp: waiting_def\<close>)
    then show ?thesis using f(6) Some by (simp add: list_all_iff)
  next
    case None
    have "\<not> waiting s g r" for g r
      using f(5)[of r] None pd.keys_get[of r "rv_futures s"] by (auto simp: waiting_def)
    then have "pt_remaining p = []" if "p \<in> set (rv_pulls s)" for p
      using inv that by (force simp: recv_inv_def pulls_ok_def intro: list.set_cases)
    then show ?thesis using None f(4) by (simp add: list_all_iff)
  qed
qed

text \<open>
  A fence that returns leaves no writer. When \<open>_wait_for_receives\<close> comes back for a set of
  requests (before preempted blocks are reused), no task has any of them open with a producer and
  nothing of them is kept; when it comes back for all (before the memory is unregistered), no task
  has any request open at all.
\<close>

theorem receive_fence_safe:
  assumes "recv_run cfg tr s" and "wait_for_receives request_ids s = Some (Inr s')"
  shows "case request_ids of
      Some rids \<Rightarrow> list_all (\<lambda>rid. no_writer s' rid \<and> \<not> dict_has (rv_recv_events s') rid) rids
    | None \<Rightarrow> list_all (\<lambda>p. pt_remaining p = []) (rv_pulls s')"
  using assms by (rule fence_safe)

lemma receive_fence_safe_witness:
  "\<exists>s'. wait_for_receives (Some [''r'']) (ex_state ex_done) = Some (Inr s') \<and> no_writer s' ''r'' \<and> rv_recv_events s' = []"
proof -
  have run: "recv_run ex_cfg (rev ex_done) (ex_state ex_done)" by (rule ex_run) code_simp
  define s' where "s' = projr (the (wait_for_receives (Some [''r'']) (ex_state ex_done)))"
  have w: "wait_for_receives (Some [''r'']) (ex_state ex_done) = Some (Inr s')" unfolding s'_def by code_simp
  moreover have "rv_recv_events s' = []" unfolding s'_def by code_simp
  ultimately show ?thesis using receive_fence_safe[OF run w] by auto
qed

text \<open>
  A producer that is lost while it may still write stops the receiver for good. If a task fails
  after its request went out and before all of it was answered, the receiver holds a fatal error, and
  whatever happens afterwards, \<open>poll\<close>, \<open>take_errors\<close>, every fence and every new receive
  raise it: no call hands the blocks out again.
\<close>

theorem lost_producer_stops:
  assumes "recv_run cfg tr s" and "pull_in i s = Some Pull_Published" and "pt_remaining (rv_pulls s ! i) \<noteq> []"
    and "exec cfg acts (net_step cfg (Pull_Fail i exc) s) = Some s'"
  shows "\<exists>t. fetch_finished_recving_reqs s' = Inl (RuntimeError t) \<and> take_receive_errors s' = Inl (RuntimeError t) \<and>
    wait_for_receives ids s' = Some (Inl (RuntimeError t)) \<and> start_receive cfg evs s' = (s', Inl (RuntimeError t))"
proof -
  have stick: "exec cfg as u = Some u' \<Longrightarrow> rv_error u = Some t \<Longrightarrow> rv_error u' = Some t" for as u u' t
    by (induction as arbitrary: u) (auto split: if_splits option.splits dest: error_sticky)
  have "\<exists>t. rv_error (net_step cfg (Pull_Fail i exc) s) = Some t"
    using assms(2,3) by (auto simp: pull_in_def pull_fail_def Let_def split: if_splits option.splits)
  then obtain t where "rv_error s' = Some t" using stick[OF assms(4)] by blast
  then show ?thesis
    by (simp add: fetch_finished_recving_reqs_def take_receive_errors_def wait_for_receives_def start_receive_def
        check_receive_error_def)
qed

lemma lost_producer_stops_witness:
  "\<exists>s' t. exec ex_cfg [Act_Net (Pull_Response 1 (ex_response [''r'']))]
      (net_step ex_cfg (Pull_Fail 0 (RuntimeError ''timeout'')) (ex_state ex_start)) = Some s' \<and>
    wait_for_receives (Some [''r'']) s' = Some (Inl (RuntimeError t))"
proof -
  have run: "recv_run ex_cfg (rev ex_start) (ex_state ex_start)" by (rule ex_run) code_simp
  have p: "pull_in 0 (ex_state ex_start) = Some Pull_Published" by code_simp
  have r: "pt_remaining (rv_pulls (ex_state ex_start) ! 0) \<noteq> []" by code_simp
  define s' where "s' = the (exec ex_cfg [Act_Net (Pull_Response 1 (ex_response [''r'']))]
      (net_step ex_cfg (Pull_Fail 0 (RuntimeError ''timeout'')) (ex_state ex_start)))"
  have e: "exec ex_cfg [Act_Net (Pull_Response 1 (ex_response [''r'']))]
      (net_step ex_cfg (Pull_Fail 0 (RuntimeError ''timeout'')) (ex_state ex_start)) = Some s'"
    unfolding s'_def by code_simp
  from lost_producer_stops[OF run p r e, of "Some [''r'']" "[]"] e show ?thesis by blast
qed

text \<open>
  The blocks of a failed receive are reported as load errors. When \<open>poll\<close> returns a request
  with an error, the \<open>take_errors\<close> that follows returns every block the receive was to fill.
\<close>

theorem failed_receive_reported:
  assumes "recv_run cfg tr s" and "fetch_finished_recving_reqs s = Inr (results, s')" and "r \<in> set results"
    and "tf_error r \<noteq> None"
  shows "\<exists>ev blocks s''. dict_get (rv_recv_events s) (tf_request_id r) = Some ev \<and>
    take_receive_errors s' = Inr (blocks, s'') \<and> block_set (re_block_ids ev) \<subseteq> blocks"
proof -
  note f = fetch_result[OF assms(1-3)]
  obtain ev where ev: "dict_get (rv_recv_events s) (tf_request_id r) = Some ev"
    using f(1,4) by (auto simp: recv_inv_def finished_ok_def dict_has_def)
  have "dict_get (rv_invalid s') (tf_request_id r) = Some (block_set (re_block_ids ev))" using f(6)[OF assms(4)] ev by simp
  then have "block_set (re_block_ids ev) \<subseteq> \<Union> (snd ` set (rv_invalid s'))" by (force dest: dict_get_Some_in)
  then show ?thesis using ev f(2) by (simp add: take_receive_errors_def check_receive_error_def)
qed

lemma failed_receive_reported_witness:
  "\<exists>blocks s''. take_receive_errors (snd (projr (fetch_finished_recving_reqs
       (ex_state (ex_start @ [Act_Net (Pull_Response 1 (ex_response [])), Act_Net (Pull_Response 0 (ex_response [''r'']))])))))
     = Inr (blocks, s'') \<and> {3, 4} \<subseteq> blocks"
proof -
  define as where "as = ex_start @ [Act_Net (Pull_Response 1 (ex_response [])), Act_Net (Pull_Response 0 (ex_response [''r'']))]"
  have run: "recv_run ex_cfg (rev as) (ex_state as)" by (rule ex_run) (unfold as_def, code_simp)
  have f: "fetch_finished_recving_reqs (ex_state as) =
      Inr ([\<lparr>tf_request_id = ''r'', tf_error = Some ''Transfer receive failed''\<rparr>], snd (projr (fetch_finished_recving_reqs (ex_state as))))"
    unfolding as_def by code_simp
  have e: "dict_get (rv_recv_events (ex_state as)) ''r'' = Some ex_event" unfolding as_def by code_simp
  have b: "block_set (re_block_ids ex_event) = {3, 4}" by (auto simp: block_set_def ex_event_def)
  from failed_receive_reported[OF run f, of "\<lparr>tf_request_id = ''r'', tf_error = Some ''Transfer receive failed''\<rparr>"] e b
  show ?thesis unfolding as_def[symmetric] by auto
qed

text \<open>Nothing the loop still runs knows the request, yet its future is not done.\<close>

definition abandoned :: "receiver \<Rightarrow> string \<Rightarrow> bool" where
  "abandoned s rid \<longleftrightarrow> dict_get (rv_futures s) rid = Some False \<and> no_writer s rid \<and>
     list_all (\<lambda>q. eq_phase q = Query_Over \<or> \<not> dict_has (rv_groups s ! eq_group q) rid) (rv_queries s)"



end
