(* ===== verification/Transfer_Send_Props.thy ===== *)
theory Transfer_Send_Props
  imports Transfer_Send Transfer_Recv_Props
begin

text \<open>
  The sender loop as a transition system. The invariant counts, for each source, the batches that read
  it and, for each transfer, how many consumer ranks have been served; from it follow that a source
  that left \<open>reqs_need_send\<close> (completed, expired, cancelled or preempted) is read by nobody once its
  fence is over, and that the responses of a session are what the receiver's theorems expect.
\<close>

section \<open>Executions\<close>

text \<open>The consumers keep to the protocol: a request names each transfer once, and a consumer rank asks
  for a transfer once, every rank of the consumer stating the same TP size. \<open>close\<close> is the end of an
  execution.\<close>

definition transfers_of :: "KVTransferRequest \<Rightarrow> string list" where
  "transfers_of req = map (\<lambda>(_, tid, _). tid) (xr_req_blocks req)"

definition asks :: "string \<Rightarrow> session \<Rightarrow> bool" where
  "asks tid x \<longleftrightarrow> (case sx_request x of None \<Rightarrow> False | Some req \<Rightarrow> tid \<in> set (transfers_of req))"

definition fresh_request :: "KVTransferRequest \<Rightarrow> sender \<Rightarrow> bool" where
  "fresh_request req s \<longleftrightarrow> distinct (transfers_of req) \<and> dict_wf (xr_req_blocks req) \<and>
     list_all (\<lambda>x. case sx_request x of None \<Rightarrow> True
       | Some old \<Rightarrow> set (transfers_of old) \<inter> set (transfers_of req) = {} \<or>
           (xr_remote_tp_size old = xr_remote_tp_size req \<and> xr_remote_tp_rank old \<noteq> xr_remote_tp_rank req))
       (sn_sessions s)"

fun send_legal :: "send_act \<Rightarrow> sender \<Rightarrow> bool" where
  "send_legal (Act_Serve payload) s = (case payload of Inl _ \<Rightarrow> True | Inr req \<Rightarrow> fresh_request req s)"
| "send_legal Act_Abort s = False"
| "send_legal _ s = True"

inductive send_run :: "transfer_cfg \<Rightarrow> rat \<Rightarrow> sender \<Rightarrow> bool" for cfg timeout where
  send_init: "send_run cfg timeout new_sender"
| send_next: "send_run cfg timeout s \<Longrightarrow> send_legal a s \<Longrightarrow> send_step cfg timeout a s = Some s' \<Longrightarrow> send_run cfg timeout s'"

fun send_exec :: "transfer_cfg \<Rightarrow> rat \<Rightarrow> send_act list \<Rightarrow> sender \<Rightarrow> sender option" where
  "send_exec cfg timeout [] s = Some s"
| "send_exec cfg timeout (a # as) s =
     (if send_legal a s then (case send_step cfg timeout a s of None \<Rightarrow> None | Some s' \<Rightarrow> send_exec cfg timeout as s') else None)"

lemma send_exec_run: "send_run cfg timeout s \<Longrightarrow> send_exec cfg timeout as s = Some s' \<Longrightarrow> send_run cfg timeout s'"
  by (induction as arbitrary: s) (auto split: if_splits option.splits intro: send_next)

section \<open>Loops in closed form\<close>

definition map_metas :: "nat set \<Rightarrow> (SendBlockMeta \<Rightarrow> SendBlockMeta) \<Rightarrow> sender \<Rightarrow> sender" where
  "map_metas I f s = s\<lparr>sn_metas := map (\<lambda>i. if i \<in> I then f (sn_metas s ! i) else sn_metas s ! i) [0..<length (sn_metas s)]\<rparr>"

lemma map_metas_simps [simp]:
  "sn_reqs_need_send (map_metas I f s) = sn_reqs_need_send s" "sn_finished (map_metas I f s) = sn_finished s"
  "sn_sessions (map_metas I f s) = sn_sessions s" "sn_fence (map_metas I f s) = sn_fence s"
  "length (sn_metas (map_metas I f s)) = length (sn_metas s)"
  "i < length (sn_metas s) \<Longrightarrow> sn_metas (map_metas I f s) ! i = (if i \<in> I then f (sn_metas s ! i) else sn_metas s ! i)"
  by (simp_all add: map_metas_def)

lemma map_metas_empty [simp]: "map_metas {} f s = s"
  by (simp add: map_metas_def map_nth)

lemma upd_meta_map: "i < length (sn_metas s) \<Longrightarrow> upd_meta i f s = map_metas {i} f s"
  by (auto simp: upd_meta_def map_metas_def intro!: arg_cong[where f = "\<lambda>x. sn_metas_update (\<lambda>_. x) s"] nth_equalityI
      simp: nth_list_update)

lemma map_metas_comp:
  assumes "i \<notin> I"
  shows "map_metas I f (map_metas {i} f s) = map_metas (insert i I) f s"
proof -
  have "sn_metas (map_metas I f (map_metas {i} f s)) = sn_metas (map_metas (insert i I) f s)"
    by (rule nth_equalityI) (use assms in auto)
  then show ?thesis by (simp add: map_metas_def)
qed

lemma release_reads_eq:
  assumes "distinct (map snd ready)" and "snd ` set ready \<subseteq> {..<length (sn_metas s)}"
  shows "release_reads ready s = map_metas (snd ` set ready) (\<lambda>m. m\<lparr>sb_sending := sb_sending m - 1\<rparr>) s"
  using assms unfolding release_reads_def
proof (induction ready arbitrary: s)
  case (Cons di ready)
  obtain d i where di: "di = (d, i)" by (cases di)
  have "fold (\<lambda>(_, i). upd_meta i (\<lambda>m. m\<lparr>sb_sending := sb_sending m - 1\<rparr>)) ready
      (map_metas {i} (\<lambda>m. m\<lparr>sb_sending := sb_sending m - 1\<rparr>) s) =
    map_metas (snd ` set ready) (\<lambda>m. m\<lparr>sb_sending := sb_sending m - 1\<rparr>) (map_metas {i} (\<lambda>m. m\<lparr>sb_sending := sb_sending m - 1\<rparr>) s)"
    by (rule Cons.IH) (use Cons.prems in \<open>simp_all add: di\<close>)
  then show ?case using Cons.prems by (simp add: di upd_meta_map map_metas_comp)
qed simp

definition is_live :: "sender \<Rightarrow> nat \<Rightarrow> bool" where
  "is_live s i \<longleftrightarrow> dict_get (sn_reqs_need_send s) (sb_transfer_id (sn_metas s ! i)) = Some i"

definition start_read :: "int list \<Rightarrow> SendBlockMeta \<Rightarrow> SendBlockMeta" where
  "start_read ranks m = m\<lparr>sb_sending := sb_sending m + 1,
     sb_need_send := (if sb_need_send m = 0 then int (length ranks) else sb_need_send m)\<rparr>"

lemma take_done_eq:
  assumes "distinct (map snd dis)" and "snd ` set dis \<subseteq> {..<length (sn_metas s)}"
  shows "fold (take_done ranks) dis (s, r, e) =
    (map_metas (snd ` set (filter (is_live s \<circ> snd) dis)) (start_read ranks) s, r @ filter (is_live s \<circ> snd) dis,
     e @ map fst (filter (Not \<circ> is_live s \<circ> snd) dis))"
  using assms
proof (induction dis arbitrary: s r e)
  case (Cons di dis)
  obtain d i where di: "di = (d, i)" by (cases di)
  have i: "i < length (sn_metas s)" and fresh: "i \<notin> snd ` set dis" using Cons.prems by (auto simp: di)
  show ?case
  proof (cases "is_live s i")
    case True
    define s1 where "s1 = map_metas {i} (start_read ranks) s"
    have len: "length (sn_metas s1) = length (sn_metas s)" by (simp add: s1_def)
    have same: "is_live s1 j = is_live s j" if "j < length (sn_metas s)" for j
      using that by (simp add: s1_def is_live_def start_read_def)
    have fs: "filter (is_live s1 \<circ> snd) dis = filter (is_live s \<circ> snd) dis"
      "filter (Not \<circ> is_live s1 \<circ> snd) dis = filter (Not \<circ> is_live s \<circ> snd) dis"
      using same Cons.prems(2) by (auto intro!: filter_cong simp: di)
    have "take_done ranks di (s, r, e) = (s1, r @ [di], e)"
      using True i by (simp add: take_done_def di is_live_def s1_def upd_meta_map start_read_def[abs_def])
    then have "fold (take_done ranks) (di # dis) (s, r, e) =
      (map_metas (snd ` set (filter (is_live s \<circ> snd) dis)) (start_read ranks) s1, (r @ [di]) @ filter (is_live s \<circ> snd) dis,
       e @ map fst (filter (Not \<circ> is_live s \<circ> snd) dis))"
      using Cons.IH[of s1 "r @ [di]" e, unfolded fs] Cons.prems len by simp
    moreover have "i \<notin> snd ` set (filter (is_live s \<circ> snd) dis)" using fresh by auto
    ultimately show ?thesis using True by (simp add: di s1_def map_metas_comp comp_def)
  next
    case False
    then have "take_done ranks di (s, r, e) = (s, r, e @ [d])" by (simp add: take_done_def di is_live_def)
    then show ?thesis using Cons.IH[of s r "e @ [d]"] Cons.prems False by (simp add: di)
  qed
qed simp

definition sent_once :: "SendBlockMeta \<Rightarrow> SendBlockMeta" where
  "sent_once m = m\<lparr>sb_sent := sb_sent m + 1\<rparr>"

text \<open>The transfers that reach their last send.\<close>

definition completes :: "nat set \<Rightarrow> sender \<Rightarrow> nat set" where
  "completes I s = {i \<in> I. sb_sent (sn_metas s ! i) + 1 = sb_need_send (sn_metas s ! i)}"

definition counted_sends :: "nat set \<Rightarrow> sender \<Rightarrow> sender \<Rightarrow> bool" where
  "counted_sends I s t \<longleftrightarrow>
     sn_metas t = sn_metas (map_metas I sent_once s) \<and> sn_sessions t = sn_sessions s \<and> sn_fence t = sn_fence s \<and>
     (\<forall>tid. dict_get (sn_reqs_need_send t) tid =
        (if tid \<in> (\<lambda>i. sb_transfer_id (sn_metas s ! i)) ` completes I s then None else dict_get (sn_reqs_need_send s) tid)) \<and>
     (dict_wf (sn_reqs_need_send s) \<longrightarrow> dict_wf (sn_reqs_need_send t)) \<and>
     set (sn_finished t) \<subseteq> set (sn_finished s) \<union> (\<lambda>i. sb_p_req_id (sn_metas s ! i)) ` completes I s"

lemma count_sent_eq:
  assumes i: "i < length (sn_metas s)"
  shows "counted_sends (if d \<in> err then {} else {i}) s (count_sent err (d, i) s)"
proof (cases "d \<in> err")
  case True
  then show ?thesis by (simp add: counted_sends_def completes_def count_sent_def)
next
  case False
  define s1 where "s1 = map_metas {i} sent_once s"
  have m: "upd_meta i (\<lambda>m. m\<lparr>sb_sent := sb_sent m + 1\<rparr>) s = s1"
    using i by (simp add: s1_def upd_meta_map sent_once_def[abs_def])
  have at: "sn_metas s1 ! i = sent_once (sn_metas s ! i)" using i by (simp add: s1_def)
  show ?thesis
  proof (cases "i \<in> completes {i} s")
    case True
    then have "count_sent err (d, i) s = (if dict_has (sn_reqs_need_send s1) (sb_transfer_id (sn_metas s ! i))
        then s1\<lparr>sn_reqs_need_send := dict_pop (sb_transfer_id (sn_metas s ! i)) (sn_reqs_need_send s1),
                sn_finished := (if sb_p_req_id (sn_metas s ! i) \<in> set (sn_finished s1) then sn_finished s1
                                else sn_finished s1 @ [sb_p_req_id (sn_metas s ! i)])\<rparr> else s1)"
      using False by (simp add: count_sent_def m at Let_def sent_once_def completes_def)
    moreover have "completes {i} s = {i}" using True by (auto simp: completes_def)
    ultimately show ?thesis using False
      by (auto simp: counted_sends_def s1_def dict_simps dict_has_def pd.wf_pop)
  next
    case n: False
    then have "count_sent err (d, i) s = s1"
      using False by (simp add: count_sent_def m at Let_def sent_once_def completes_def)
    moreover have "completes {i} s = {}" using n by (auto simp: completes_def)
    ultimately show ?thesis using False by (simp add: counted_sends_def s1_def)
  qed
qed

lemma counted_sends_trans:
  assumes "counted_sends I s t" and "counted_sends J t u" and "I \<inter> J = {}" and "I \<union> J \<subseteq> {..<length (sn_metas s)}"
  shows "counted_sends (I \<union> J) s u"
proof -
  have len: "length (sn_metas t) = length (sn_metas s)" using assms(1) by (simp add: counted_sends_def)
  have at: "sn_metas t ! i = (if i \<in> I then sent_once (sn_metas s ! i) else sn_metas s ! i)" if "i < length (sn_metas s)" for i
    using assms(1) that by (simp add: counted_sends_def)
  have onJ: "sn_metas t ! i = sn_metas s ! i" if j: "i \<in> J" for i
  proof -
    have "i \<notin> I" "i < length (sn_metas s)" using j assms(3,4) by auto
    then show ?thesis by (simp add: at)
  qed
  then have J: "completes J t = completes J s" by (auto simp: completes_def)
  have tid: "sb_transfer_id (sn_metas t ! i) = sb_transfer_id (sn_metas s ! i) \<and> sb_p_req_id (sn_metas t ! i) = sb_p_req_id (sn_metas s ! i)"
    if "i \<in> completes J s" for i using that onJ[of i] by (simp add: completes_def)
  have im: "(\<lambda>i. sb_transfer_id (sn_metas t ! i)) ` completes J s = (\<lambda>i. sb_transfer_id (sn_metas s ! i)) ` completes J s"
    "(\<lambda>i. sb_p_req_id (sn_metas t ! i)) ` completes J s = (\<lambda>i. sb_p_req_id (sn_metas s ! i)) ` completes J s"
    using tid by (simp_all cong: image_cong)
  have un: "completes (I \<union> J) s = completes I s \<union> completes J s" by (auto simp: completes_def)
  have "sn_metas u = sn_metas (map_metas (I \<union> J) sent_once s)"
    by (rule nth_equalityI) (use assms(2-4) at len in \<open>auto simp: counted_sends_def\<close>)
  moreover have "set (sn_finished u) \<subseteq> set (sn_finished s) \<union> (\<lambda>i. sb_p_req_id (sn_metas s ! i)) ` completes (I \<union> J) s"
    using assms(1,2) unfolding counted_sends_def J im un image_Un by blast
  moreover have "dict_get (sn_reqs_need_send u) tid = (if tid \<in> (\<lambda>i. sb_transfer_id (sn_metas s ! i)) ` completes (I \<union> J) s
      then None else dict_get (sn_reqs_need_send s) tid)" for tid
    using assms(1,2) unfolding counted_sends_def J im un image_Un by simp
  ultimately show ?thesis using assms(1,2) unfolding counted_sends_def by simp
qed

lemma count_sent_fold:
  assumes "distinct (map snd ready)" and "snd ` set ready \<subseteq> {..<length (sn_metas s)}"
  shows "counted_sends (snd ` {di \<in> set ready. fst di \<notin> err}) s (fold (count_sent err) ready s)"
  using assms
proof (induction ready arbitrary: s)
  case Nil
  show ?case by (simp add: counted_sends_def completes_def)
next
  case (Cons di ready)
  obtain d i where di: "di = (d, i)" by (cases di)
  define t where "t = count_sent err (d, i) s"
  define I where "I = (if d \<in> err then {} else {i})"
  have 1: "counted_sends I s t" unfolding t_def I_def by (rule count_sent_eq) (use Cons.prems in \<open>simp add: di\<close>)
  have len: "length (sn_metas t) = length (sn_metas s)" using 1 by (simp add: counted_sends_def)
  have 2: "counted_sends (snd ` {di \<in> set ready. fst di \<notin> err}) t (fold (count_sent err) ready t)"
    by (rule Cons.IH) (use Cons.prems in \<open>simp_all add: len\<close>)
  have "{x \<in> set (di # ready). fst x \<notin> err} = (if d \<in> err then {} else {di}) \<union> {di \<in> set ready. fst di \<notin> err}"
    by (auto simp: di)
  then have "I \<union> snd ` {di \<in> set ready. fst di \<notin> err} = snd ` {x \<in> set (di # ready). fst x \<notin> err}"
    by (simp add: I_def di)
  moreover have "counted_sends (I \<union> snd ` {di \<in> set ready. fst di \<notin> err}) s (fold (count_sent err) ready t)"
    by (rule counted_sends_trans[OF 1 2]) (use Cons.prems in \<open>auto simp: I_def di\<close>)
  ultimately show ?case by (simp add: di t_def)
qed

section \<open>The invariant\<close>

definition batch_ready :: "session \<Rightarrow> (string \<times> nat) list" where
  "batch_ready x = (case sx_phase x of Session_Writing b \<Rightarrow> sy_ready b | _ \<Rightarrow> [])"

definition entries :: "session \<Rightarrow> (string \<times> nat) list" where
  "entries x = sx_pending x @ batch_ready x"

definition transfer_of :: "session \<Rightarrow> string \<Rightarrow> string option" where
  "transfer_of x d = (case sx_request x of None \<Rightarrow> None | Some req \<Rightarrow> map_option fst (dict_get (xr_req_blocks req) d))"

text \<open>A batch that is being written reads the source.\<close>

definition reads :: "sender \<Rightarrow> nat \<Rightarrow> bool" where
  "reads s i \<longleftrightarrow> list_ex (\<lambda>x. i \<in> set (map snd (batch_ready x))) (sn_sessions s)"

definition reader_count :: "sender \<Rightarrow> nat \<Rightarrow> nat" where
  "reader_count s i = length (filter (\<lambda>x. i \<in> set (map snd (batch_ready x))) (sn_sessions s))"

definition open_for :: "string \<Rightarrow> session \<Rightarrow> bool" where
  "open_for tid x \<longleftrightarrow> list_ex (\<lambda>(d, i). transfer_of x d = Some tid) (entries x)"

definition in_use :: "sender \<Rightarrow> nat \<Rightarrow> bool" where
  "in_use s i \<longleftrightarrow> i \<in> snd ` set (sn_reqs_need_send s)"

definition reqs_ok :: "sender \<Rightarrow> bool" where
  "reqs_ok s \<longleftrightarrow> dict_wf (sn_reqs_need_send s) \<and> (\<forall>(tid, i) \<in> set (sn_reqs_need_send s).
     i < length (sn_metas s) \<and> sb_transfer_id (sn_metas s ! i) = tid)"

definition session_ok :: "transfer_cfg \<Rightarrow> sender \<Rightarrow> session \<Rightarrow> bool" where
  "session_ok cfg s x \<longleftrightarrow> distinct (map fst (entries x)) \<and>
     (\<forall>(d, i) \<in> set (entries x). i < length (sn_metas s) \<and> transfer_of x d = Some (sb_transfer_id (sn_metas s ! i))) \<and>
     (\<forall>(d, i) \<in> set (batch_ready x). sb_need_send (sn_metas s ! i) \<noteq> 0) \<and>
     (case sx_request x of None \<Rightarrow> True | Some req \<Rightarrow> distinct (transfers_of req) \<and> dict_wf (xr_req_blocks req) \<and>
        to_targets (kt_topo cfg) (xr_remote_tp_size req) = Inr (sx_ranks x) \<and> xr_remote_tp_rank req \<in> set (sx_ranks x))"

text \<open>Per transfer: the sends counted and the ranks still being served are at most the ranks that asked.\<close>

definition sent_total :: "sender \<Rightarrow> string \<Rightarrow> int" where
  "sent_total s tid = (\<Sum>i < length (sn_metas s). if sb_transfer_id (sn_metas s ! i) = tid then sb_sent (sn_metas s ! i) else 0)"

definition asked :: "sender \<Rightarrow> string \<Rightarrow> session list" where
  "asked s tid = filter (asks tid) (sn_sessions s)"

definition counts_ok :: "sender \<Rightarrow> bool" where
  "counts_ok s \<longleftrightarrow> (\<forall>tid. sent_total s tid + int (length (filter (open_for tid) (sn_sessions s))) \<le> int (length (asked s tid)))"

definition metas_ok :: "sender \<Rightarrow> bool" where
  "metas_ok s \<longleftrightarrow> (\<forall>i < length (sn_metas s). 0 \<le> sb_sent (sn_metas s ! i) \<and>
     sb_sending (sn_metas s ! i) = int (reader_count s i) \<and>
     (sb_need_send (sn_metas s ! i) \<noteq> 0 \<longrightarrow> (\<exists>x \<in> set (sn_sessions s). asks (sb_transfer_id (sn_metas s ! i)) x \<and>
        sb_need_send (sn_metas s ! i) = int (length (sx_ranks x)))))"

definition asked_ok :: "sender \<Rightarrow> bool" where
  "asked_ok s \<longleftrightarrow> (\<forall>tid. distinct (map (\<lambda>x. xr_remote_tp_rank (the (sx_request x))) (asked s tid)) \<and>
     (\<forall>x \<in> set (asked s tid). \<forall>y \<in> set (asked s tid).
        xr_remote_tp_size (the (sx_request x)) = xr_remote_tp_size (the (sx_request y))))"

definition gone_ok :: "sender \<Rightarrow> bool" where
  "gone_ok s \<longleftrightarrow> (\<forall>i < length (sn_metas s). \<not> in_use s i \<longrightarrow> sb_sending (sn_metas s ! i) = 0 \<or>
     (\<exists>rid rest. sn_fence s = Some (rid, i, rest)))"

definition fence_ok :: "sender \<Rightarrow> bool" where
  "fence_ok s \<longleftrightarrow> (case sn_fence s of None \<Rightarrow> True | Some (rid, i, rest) \<Rightarrow> i < length (sn_metas s) \<and> \<not> in_use s i)"

definition done_ok :: "sender \<Rightarrow> bool" where
  "done_ok s \<longleftrightarrow> (\<forall>rid \<in> set (sn_finished s). \<exists>i < length (sn_metas s). \<not> in_use s i \<and> sb_p_req_id (sn_metas s ! i) = rid \<and>
     sb_sent (sn_metas s ! i) = sb_need_send (sn_metas s ! i) \<and> 0 < sb_sent (sn_metas s ! i) \<and> sb_sending (sn_metas s ! i) = 0)"

definition send_inv :: "transfer_cfg \<Rightarrow> sender \<Rightarrow> bool" where
  "send_inv cfg s \<longleftrightarrow> reqs_ok s \<and> list_all (session_ok cfg s) (sn_sessions s) \<and> counts_ok s \<and> metas_ok s \<and>
     asked_ok s \<and> gone_ok s \<and> fence_ok s \<and> done_ok s"

lemma send_inv_init: "send_inv cfg new_sender"
  by (simp add: send_inv_def new_sender_def reqs_ok_def counts_ok_def metas_ok_def asked_ok_def gone_ok_def fence_ok_def
      done_ok_def sent_total_def asked_def pd.wf_empty)

lemma in_use_get: "reqs_ok s \<Longrightarrow> in_use s i \<longleftrightarrow> (\<exists>tid. dict_get (sn_reqs_need_send s) tid = Some i)"
  by (force simp: in_use_def reqs_ok_def dict_get_eq_in)

lemma reqs_okD: "reqs_ok s \<Longrightarrow> dict_get (sn_reqs_need_send s) tid = Some i \<Longrightarrow>
    i < length (sn_metas s) \<and> sb_transfer_id (sn_metas s ! i) = tid"
  by (auto simp: reqs_ok_def dest: dict_get_Some_in)

lemma reqs_okI:
  assumes "dict_wf (sn_reqs_need_send s)"
    and "\<And>tid i. dict_get (sn_reqs_need_send s) tid = Some i \<Longrightarrow> i < length (sn_metas s) \<and> sb_transfer_id (sn_metas s ! i) = tid"
  shows "reqs_ok s"
  using assms by (auto simp: reqs_ok_def dest: dict_in_get)

lemma in_use_live: "reqs_ok s \<Longrightarrow> in_use s i \<longleftrightarrow> is_live s i"
  unfolding is_live_def by (metis in_use_get reqs_okD)

lemma reader_count_0: "reader_count s i = 0 \<longleftrightarrow> \<not> reads s i"
  by (simp add: reader_count_def reads_def filter_empty_conv list_ex_iff)

text \<open>Updates of a source that leave its counters alone, and new sources, keep the counting.\<close>

definition core_eq :: "SendBlockMeta \<Rightarrow> SendBlockMeta \<Rightarrow> bool" where
  "core_eq m m' \<longleftrightarrow> sb_transfer_id m' = sb_transfer_id m \<and> sb_sent m' = sb_sent m \<and> sb_need_send m' = sb_need_send m \<and>
     sb_sending m' = sb_sending m"

definition fresh_meta :: "SendBlockMeta \<Rightarrow> bool" where
  "fresh_meta m \<longleftrightarrow> sb_sent m = 0 \<and> sb_need_send m = 0 \<and> sb_sending m = 0"

definition core_step :: "sender \<Rightarrow> sender \<Rightarrow> bool" where
  "core_step s t \<longleftrightarrow> sn_sessions t = sn_sessions s \<and> length (sn_metas s) \<le> length (sn_metas t) \<and>
     (\<forall>i < length (sn_metas t). if i < length (sn_metas s) then core_eq (sn_metas s ! i) (sn_metas t ! i)
        else fresh_meta (sn_metas t ! i))"

lemma core_eq_refl: "core_eq m m"
  by (simp add: core_eq_def)

lemma core_step_refl: "core_step s s"
  by (simp add: core_step_def core_eq_refl)

lemma core_step_trans:
  assumes "core_step s t" and "core_step t u"
  shows "core_step s u"
  unfolding core_step_def
proof (intro conjI allI impI)
  show "sn_sessions u = sn_sessions s" "length (sn_metas s) \<le> length (sn_metas u)"
    using assms by (simp_all add: core_step_def)
  fix i assume i: "i < length (sn_metas u)"
  show "if i < length (sn_metas s) then core_eq (sn_metas s ! i) (sn_metas u ! i) else fresh_meta (sn_metas u ! i)"
  proof (cases "i < length (sn_metas t)")
    case True
    then show ?thesis using assms i unfolding core_step_def core_eq_def fresh_meta_def by (auto split: if_splits)
  next
    case False
    then have "\<not> i < length (sn_metas s)" using assms(1) by (simp add: core_step_def)
    then show ?thesis using assms(2) i False by (simp add: core_step_def)
  qed
qed

lemma core_step_reader: "core_step s t \<Longrightarrow> reader_count t i = reader_count s i \<and> reads t i = reads s i \<and> asked t tid = asked s tid"
  by (simp add: core_step_def reader_count_def reads_def asked_def)

lemma core_step_at:
  assumes "core_step s t" and "i < length (sn_metas s)"
  shows "i < length (sn_metas t) \<and> core_eq (sn_metas s ! i) (sn_metas t ! i)"
proof -
  have "i < length (sn_metas t)" using assms by (simp add: core_step_def)
  then show ?thesis using assms by (simp add: core_step_def)
qed

lemma session_reader:
  assumes "list_all (session_ok cfg s) (sn_sessions s)" and "length (sn_metas s) \<le> i"
  shows "reader_count s i = 0"
proof -
  have "i \<notin> set (map snd (batch_ready x))" if "x \<in> set (sn_sessions s)" for x
  proof
    assume "i \<in> set (map snd (batch_ready x))"
    then have "\<exists>d. (d, i) \<in> set (entries x)" by (auto simp: entries_def)
    moreover have "session_ok cfg s x" using assms(1) that by (simp add: list_all_iff)
    ultimately have "i < length (sn_metas s)" by (auto simp: session_ok_def)
    with assms(2) show False by simp
  qed
  then show ?thesis by (simp add: reader_count_def filter_empty_conv)
qed

lemma core_step_inv:
  assumes inv: "send_inv cfg s" and c: "core_step s t"
  shows "list_all (session_ok cfg t) (sn_sessions t)" and "counts_ok t" and "metas_ok t" and "asked_ok t"
proof -
  have inv': "list_all (session_ok cfg s) (sn_sessions s)" "counts_ok s" "metas_ok s" "asked_ok s"
    using inv by (simp_all add: send_inv_def)
  have ses: "sn_sessions t = sn_sessions s" and len: "length (sn_metas s) \<le> length (sn_metas t)"
    using c by (simp_all add: core_step_def)
  note at = core_step_at[OF c]
  show "list_all (session_ok cfg t) (sn_sessions t)"
    unfolding ses list_all_iff
  proof
    fix x assume x: "x \<in> set (sn_sessions s)"
    then have ok: "session_ok cfg s x" using inv'(1) by (simp add: list_all_iff)
    have e: "i < length (sn_metas t) \<and> core_eq (sn_metas s ! i) (sn_metas t ! i)" if "(d, i) \<in> set (entries x)" for d i
      using ok that at by (auto simp: session_ok_def)
    have ok': "\<forall>(d, i) \<in> set (entries x). i < length (sn_metas s) \<and> transfer_of x d = Some (sb_transfer_id (sn_metas s ! i))"
      "\<forall>(d, i) \<in> set (batch_ready x). sb_need_send (sn_metas s ! i) \<noteq> 0"
      using ok by (simp_all add: session_ok_def)
    have "i < length (sn_metas t) \<and> transfer_of x d = Some (sb_transfer_id (sn_metas t ! i))" if "(d, i) \<in> set (entries x)" for d i
      using e[OF that] bspec[OF ok'(1) that] by (simp add: core_eq_def)
    moreover have "sb_need_send (sn_metas t ! i) \<noteq> 0" if "(d, i) \<in> set (batch_ready x)" for d i
      using e[of d i] bspec[OF ok'(2) that] that by (simp add: core_eq_def entries_def)
    ultimately show "session_ok cfg t x" using ok by (auto simp: session_ok_def)
  qed
  have "sent_total t tid = sent_total s tid" for tid
  proof -
    have "sent_total t tid = (\<Sum>i < length (sn_metas s). if sb_transfer_id (sn_metas t ! i) = tid then sb_sent (sn_metas t ! i) else 0)"
      unfolding sent_total_def
      by (rule sum.mono_neutral_right) (use c len in \<open>auto simp: core_step_def fresh_meta_def\<close>)
    also have "\<dots> = sent_total s tid" unfolding sent_total_def
      by (rule sum.cong) (use at in \<open>auto simp: core_eq_def\<close>)
    finally show ?thesis .
  qed
  then show "counts_ok t" using inv'(2) by (simp add: counts_ok_def ses asked_def)
  have as: "asked t = asked s" by (intro ext) (simp add: asked_def ses)
  show "asked_ok t" using inv'(4) unfolding asked_ok_def as .
  show "metas_ok t" unfolding metas_ok_def
  proof (intro allI impI)
    fix i assume i: "i < length (sn_metas t)"
    show "0 \<le> sb_sent (sn_metas t ! i) \<and> sb_sending (sn_metas t ! i) = int (reader_count t i) \<and>
      (sb_need_send (sn_metas t ! i) \<noteq> 0 \<longrightarrow> (\<exists>x \<in> set (sn_sessions t). asks (sb_transfer_id (sn_metas t ! i)) x \<and>
        sb_need_send (sn_metas t ! i) = int (length (sx_ranks x))))"
    proof (cases "i < length (sn_metas s)")
      case True
      then show ?thesis using inv'(3) at[OF True] core_step_reader[OF c]
        by (simp add: metas_ok_def core_eq_def ses)
    next
      case False
      then have "fresh_meta (sn_metas t ! i)" using c i by (simp add: core_step_def)
      moreover have "reader_count t i = 0"
        using session_reader[OF inv'(1), of i] False core_step_reader[OF c] by simp
      ultimately show ?thesis by (simp add: fresh_meta_def)
    qed
  qed
qed

section \<open>Calls of the worker\<close>

lemma default_meta_core:
  assumes "reqs_ok s" and "default_meta p tid s = (i, t)"
  shows "core_step s t" and "reqs_ok t" and "i < length (sn_metas t)" and "is_live t i"
    and "sn_finished t = sn_finished s" and "sn_fence t = sn_fence s"
    and "dict_get (sn_reqs_need_send t) r = (if r = tid then Some i else dict_get (sn_reqs_need_send s) r)"
    and "j < length (sn_metas s) \<Longrightarrow> sn_metas t ! j = sn_metas s ! j" and "in_use t j \<Longrightarrow> j < length (sn_metas s) \<Longrightarrow> in_use s j"
    and "sb_transfer_id (sn_metas t ! i) = tid"
proof -
  note d = assms(2)[unfolded default_meta_def]
  have wf: "dict_wf (sn_reqs_need_send s)" using assms(1) by (simp add: reqs_ok_def)
  show core: "core_step s t"
    using d core_step_refl by (auto simp: core_step_def core_eq_refl nth_append fresh_meta_def new_send_meta_def split: option.splits)
  show g: "dict_get (sn_reqs_need_send t) r = (if r = tid then Some i else dict_get (sn_reqs_need_send s) r)" for r
    using d by (auto simp: dict_simps split: option.splits)
  show at: "sn_metas t ! j = sn_metas s ! j" if "j < length (sn_metas s)" for j
    using d that by (auto simp: nth_append split: option.splits)
  show i: "i < length (sn_metas t)" using d reqs_okD[OF assms(1)] by (auto split: option.splits)
  show tid: "sb_transfer_id (sn_metas t ! i) = tid"
    using d reqs_okD[OF assms(1)] by (auto simp: new_send_meta_def split: option.splits)
  show r_ok: "reqs_ok t"
  proof (rule reqs_okI)
    show "dict_wf (sn_reqs_need_send t)" using d wf by (auto simp: pd.wf_put split: option.splits)
    fix r j assume j: "dict_get (sn_reqs_need_send t) r = Some j"
    show "j < length (sn_metas t) \<and> sb_transfer_id (sn_metas t ! j) = r"
      using j i tid at[of j] reqs_okD[OF assms(1), of r j] core_step_at[OF core, of j] by (auto simp: g split: if_splits)
  qed
  show "is_live t i" by (simp add: is_live_def g tid)
  show "sn_finished t = sn_finished s" "sn_fence t = sn_fence s" using d by (auto split: option.splits)
  show "in_use s j" if u: "in_use t j" and j: "j < length (sn_metas s)" for j
  proof -
    obtain r where r: "dict_get (sn_reqs_need_send t) r = Some j" using u in_use_get[OF r_ok] by blast
    have "dict_get (sn_reqs_need_send s) r = Some j"
      using r j d by (auto simp: dict_simps split: option.splits if_splits)
    then show ?thesis using in_use_get[OF assms(1)] by blast
  qed
qed

text \<open>What a step of the worker's thread may do to sources that have left \<open>reqs_need_send\<close>.\<close>

definition outside_eq :: "sender \<Rightarrow> sender \<Rightarrow> bool" where
  "outside_eq s t \<longleftrightarrow> (\<forall>i < length (sn_metas s). \<not> in_use s i \<longrightarrow> \<not> in_use t i \<and>
     sb_p_req_id (sn_metas t ! i) = sb_p_req_id (sn_metas s ! i))"

lemma outside_eq_refl: "outside_eq s s"
  by (simp add: outside_eq_def)

lemma outside_eq_trans: "outside_eq s t \<Longrightarrow> outside_eq t u \<Longrightarrow> length (sn_metas s) \<le> length (sn_metas t) \<Longrightarrow> outside_eq s u"
  by (simp add: outside_eq_def)

lemma quiet_inv:
  assumes inv: "send_inv cfg s" and core: "core_step s t" and out: "outside_eq s t" and reqs: "reqs_ok t" and fence: "fence_ok t"
    and new: "\<And>i. length (sn_metas s) \<le> i \<Longrightarrow> i < length (sn_metas t) \<Longrightarrow> in_use t i"
    and popped: "\<And>i. i < length (sn_metas s) \<Longrightarrow> in_use s i \<Longrightarrow> \<not> in_use t i \<Longrightarrow> sb_sending (sn_metas t ! i) = 0 \<or>
      (\<exists>rid rest. sn_fence t = Some (rid, i, rest))"
    and fenced: "\<And>rid i rest. sn_fence s = Some (rid, i, rest) \<Longrightarrow> sb_sending (sn_metas s ! i) = 0 \<or>
      (\<exists>rid rest. sn_fence t = Some (rid, i, rest))"
    and fin: "set (sn_finished t) \<subseteq> set (sn_finished s)"
  shows "send_inv cfg t"
proof -
  note c = core_step_inv[OF inv core]
  have inv': "gone_ok s" "done_ok s" using inv by (simp_all add: send_inv_def)
  have "gone_ok t" unfolding gone_ok_def
  proof (intro allI impI)
    fix i assume i: "i < length (sn_metas t)" "\<not> in_use t i"
    then have l: "i < length (sn_metas s)" using new[of i] by (cases "i < length (sn_metas s)") auto
    show "sb_sending (sn_metas t ! i) = 0 \<or> (\<exists>rid rest. sn_fence t = Some (rid, i, rest))"
    proof (cases "in_use s i")
      case True
      then show ?thesis using popped[OF l] i(2) by blast
    next
      case False
      then have "sb_sending (sn_metas s ! i) = 0 \<or> (\<exists>rid rest. sn_fence t = Some (rid, i, rest))"
        using inv'(1) l fenced unfolding gone_ok_def by blast
      then show ?thesis using core_step_at[OF core l] by (auto simp: core_eq_def)
    qed
  qed
  moreover have "done_ok t" unfolding done_ok_def
  proof
    fix rid assume "rid \<in> set (sn_finished t)"
    then obtain i where i: "i < length (sn_metas s)" "\<not> in_use s i" "sb_p_req_id (sn_metas s ! i) = rid"
      "sb_sent (sn_metas s ! i) = sb_need_send (sn_metas s ! i)" "0 < sb_sent (sn_metas s ! i)" "sb_sending (sn_metas s ! i) = 0"
      using inv'(2) fin unfolding done_ok_def by blast
    then show "\<exists>i < length (sn_metas t). \<not> in_use t i \<and> sb_p_req_id (sn_metas t ! i) = rid \<and>
        sb_sent (sn_metas t ! i) = sb_need_send (sn_metas t ! i) \<and> 0 < sb_sent (sn_metas t ! i) \<and> sb_sending (sn_metas t ! i) = 0"
      using core_step_at[OF core i(1)] out by (intro exI[of _ i]) (simp add: core_eq_def outside_eq_def)
  qed
  ultimately show ?thesis using c reqs fence by (simp add: send_inv_def)
qed

lemma upd_meta_core:
  assumes "i < length (sn_metas s)" and "core_eq (sn_metas s ! i) (f (sn_metas s ! i))"
  shows "core_step s (upd_meta i f s)"
  using assms by (auto simp: core_step_def upd_meta_def nth_list_update core_eq_refl)

lemma upd_meta_simps [simp]:
  "sn_reqs_need_send (upd_meta i f s) = sn_reqs_need_send s" "sn_finished (upd_meta i f s) = sn_finished s"
  "sn_sessions (upd_meta i f s) = sn_sessions s" "sn_fence (upd_meta i f s) = sn_fence s"
  "length (sn_metas (upd_meta i f s)) = length (sn_metas s)" "in_use (upd_meta i f s) j = in_use s j"
  by (simp_all add: upd_meta_def in_use_def)

lemma upd_meta_reqs: "reqs_ok s \<Longrightarrow> i < length (sn_metas s) \<Longrightarrow> core_eq (sn_metas s ! i) (f (sn_metas s ! i)) \<Longrightarrow> reqs_ok (upd_meta i f s)"
  by (auto simp: reqs_ok_def upd_meta_def nth_list_update core_eq_def)

lemma upd_meta_outside: "in_use s i \<Longrightarrow> outside_eq s (upd_meta i f s)"
  unfolding outside_eq_def upd_meta_simps
proof (intro allI impI conjI)
  fix j assume "in_use s i" "\<not> in_use s j"
  then have "j \<noteq> i" by blast
  then show "sb_p_req_id (sn_metas (upd_meta i f s) ! j) = sb_p_req_id (sn_metas s ! j)" by (simp add: upd_meta_def)
qed

lemma prepare_publish_inv:
  assumes inv: "send_inv cfg s" and free: "sn_fence s = None"
    and f: "\<And>m. core_eq m (f m)"
    and t: "t = (let (i, s1) = prepare_send rid tid s in upd_meta i f s1)"
  shows "send_inv cfg t"
proof -
  have r: "reqs_ok s" using inv by (simp add: send_inv_def)
  obtain i s1 where d: "default_meta rid tid s = (i, s1)" by (cases "default_meta rid tid s")
  note D = default_meta_core[OF r d]
  define g :: "SendBlockMeta \<Rightarrow> SendBlockMeta" where "g = (\<lambda>m. m\<lparr>sb_p_req_id := rid\<rparr>)"
  have g: "core_eq m (g m)" for m by (simp add: g_def core_eq_def)
  have t': "t = upd_meta i f (upd_meta i g s1)" by (simp add: t prepare_send_def d g_def)
  have u: "in_use s1 i" using D(2,4) in_use_live by blast
  have l: "i < length (sn_metas (upd_meta i g s1))" using D(3) by simp
  have "core_step s1 (upd_meta i g s1)" by (rule upd_meta_core) (use D(3) g in simp_all)
  moreover have "core_step (upd_meta i g s1) t" unfolding t' by (rule upd_meta_core) (use l f in simp_all)
  ultimately have core: "core_step s t" using core_step_trans D(1) by blast
  have in_t: "in_use t j = in_use s1 j" for j by (simp add: t')
  have "outside_eq s s1" using D(8,9) by (auto simp: outside_eq_def)
  moreover have "length (sn_metas s) \<le> length (sn_metas s1)" using D(1) by (simp add: core_step_def)
  moreover have "outside_eq s1 t" unfolding t' using u
    by (intro outside_eq_trans[OF upd_meta_outside upd_meta_outside]) simp_all
  ultimately have out: "outside_eq s t" using outside_eq_trans by blast
  show ?thesis
  proof (rule quiet_inv[OF inv core out])
    have "reqs_ok (upd_meta i g s1)" by (rule upd_meta_reqs) (use D(2,3) g in simp_all)
    then show "reqs_ok t" unfolding t' by (rule upd_meta_reqs) (use l f in simp_all)
    show "fence_ok t" by (simp add: fence_ok_def t' D(6) free)
    show "in_use t j" if j: "length (sn_metas s) \<le> j" "j < length (sn_metas t)" for j
    proof -
      have "j < length (sn_metas s1)" using j(2) by (simp add: t')
      then have "j = i" using d j(1) by (auto simp: default_meta_def split: option.splits)
      then show ?thesis using u by (simp add: in_t)
    qed
    show "sb_sending (sn_metas t ! j) = 0 \<or> (\<exists>rid rest. sn_fence t = Some (rid, j, rest))"
      if "j < length (sn_metas s)" and uj: "in_use s j" and nj: "\<not> in_use t j" for j
    proof -
      obtain r where gr: "dict_get (sn_reqs_need_send s) r = Some j" using uj in_use_get[OF r] by blast
      then have "dict_get (sn_reqs_need_send s1) r = Some j"
        using d by (auto simp: default_meta_def dict_simps split: option.splits)
      then have "in_use t j" using in_use_get[OF D(2)] in_t by blast
      with nj show ?thesis ..
    qed
  qed (simp_all add: t' D(5) free)
qed

text \<open>Removing transfers from \<open>reqs_need_send\<close>.\<close>

lemma in_use_less:
  assumes "reqs_ok s" and "reqs_ok t" and "\<And>tid i. dict_get (sn_reqs_need_send t) tid = Some i \<Longrightarrow> dict_get (sn_reqs_need_send s) tid = Some i"
  shows "in_use t i \<Longrightarrow> in_use s i"
  using assms in_use_get by metis

lemma discard_inv:
  assumes inv: "send_inv cfg s"
  shows "send_inv cfg (discard_finished rid s)"
proof (rule quiet_inv[OF inv])
  have iu: "in_use (discard_finished rid s) = in_use s" by (intro ext) (simp add: in_use_def discard_finished_def)
  show "core_step s (discard_finished rid s)" by (simp add: core_step_def core_eq_refl discard_finished_def)
  show "outside_eq s (discard_finished rid s)" by (simp add: outside_eq_def iu) (simp add: discard_finished_def)
  show "reqs_ok (discard_finished rid s)" using inv by (simp add: send_inv_def reqs_ok_def discard_finished_def)
  have "fence_ok s" using inv by (simp add: send_inv_def)
  then show "fence_ok (discard_finished rid s)"
    unfolding fence_ok_def iu by (simp add: discard_finished_def split: option.splits prod.splits)
qed (auto simp: discard_finished_def in_use_def)

lemma cancel_sends_inv:
  assumes "send_inv cfg s" and "\<And>r i rest. sn_fence s = Some (r, i, rest) \<Longrightarrow> sb_sending (sn_metas s ! i) = 0"
  shows "send_inv cfg (cancel_sends rid tids s)"
  using assms
proof (induction rid tids s rule: cancel_sends.induct)
  case (1 rid s)
  show ?case unfolding cancel_sends.simps
  proof (rule quiet_inv[OF 1(1)])
    show "core_step s (s\<lparr>sn_fence := None\<rparr>)" by (simp add: core_step_def core_eq_refl)
    show "outside_eq s (s\<lparr>sn_fence := None\<rparr>)" by (simp add: outside_eq_def in_use_def)
    show "reqs_ok (s\<lparr>sn_fence := None\<rparr>)" using 1(1) by (simp add: send_inv_def reqs_ok_def)
  qed (use 1(2) in \<open>auto simp: fence_ok_def in_use_def\<close>)
next
  case (2 rid tid rest s)
  show ?case
  proof (cases "dict_get (sn_reqs_need_send s) tid")
    case None
    have "send_inv cfg (discard_finished rid s)" by (rule discard_inv[OF 2(2)])
    then have "send_inv cfg (cancel_sends rid rest (discard_finished rid s))"
      by (rule 2(1)[OF None]) (use 2(3) in \<open>simp add: discard_finished_def\<close>)
    then show ?thesis using None by simp
  next
    case (Some i)
    have r: "reqs_ok s" using 2(2) by (simp add: send_inv_def)
    have i: "i < length (sn_metas s)" "sb_transfer_id (sn_metas s ! i) = tid" using reqs_okD[OF r Some] by simp_all
    define s1 where "s1 = s\<lparr>sn_reqs_need_send := dict_pop tid (sn_reqs_need_send s)\<rparr>"
    define t where "t = (upd_meta i (\<lambda>m. m\<lparr>sb_ready := True\<rparr>) s1)\<lparr>sn_fence := Some (rid, i, rest)\<rparr>"
    have eq: "cancel_sends rid (tid # rest) s = t" using Some by (simp add: t_def s1_def)
    have r1: "reqs_ok s1"
      by (rule reqs_okI) (use r reqs_okD[OF r] in \<open>auto simp: s1_def reqs_ok_def pd.wf_pop dict_simps split: if_splits\<close>)
    have rt: "reqs_ok t"
      using upd_meta_reqs[OF r1, of i "\<lambda>m. m\<lparr>sb_ready := True\<rparr>"] i by (simp add: t_def reqs_ok_def core_eq_def s1_def)
    have get: "dict_get (sn_reqs_need_send t) x = (if x = tid then None else dict_get (sn_reqs_need_send s) x)" for x
      by (simp add: t_def s1_def dict_simps)
    have less: "in_use t j \<Longrightarrow> in_use s j" for j
      by (rule in_use_less[OF r rt]) (auto simp: get split: if_splits)
    have ni: "\<not> in_use t i" using in_use_get[OF rt] reqs_okD[OF r] i(2) by (auto simp: get split: if_splits)
    have len: "length (sn_metas t) = length (sn_metas s)" by (simp add: t_def s1_def)
    have core: "core_step s t" using i(1) by (auto simp: core_step_def t_def s1_def upd_meta_def nth_list_update core_eq_def)
    show ?thesis unfolding eq
    proof (rule quiet_inv[OF 2(2) core])
      show "outside_eq s t"
        using less i(1) by (auto simp: outside_eq_def) (auto simp: t_def s1_def upd_meta_def nth_list_update)
      show "reqs_ok t" by (rule rt)
      show "fence_ok t" using ni i(1) len by (simp add: fence_ok_def) (simp add: t_def)
      show "sb_sending (sn_metas t ! j) = 0 \<or> (\<exists>rid rest. sn_fence t = Some (rid, j, rest))"
        if uj: "in_use s j" and nj: "\<not> in_use t j" for j
      proof -
        obtain x where x: "dict_get (sn_reqs_need_send s) x = Some j" using uj in_use_get[OF r] by blast
        have "dict_get (sn_reqs_need_send t) x \<noteq> Some j" using nj in_use_get[OF rt] by blast
        then have "x = tid" using x by (simp add: get split: if_splits)
        then have "j = i" using x Some by simp
        then show ?thesis by (simp add: t_def)
      qed
    qed (use 2(3) len in \<open>auto simp: t_def s1_def\<close>)
  qed
qed

lemma fence_step_inv:
  assumes "send_inv cfg s" and "sn_fence s = Some (rid, i, rest)" and "sb_sending (sn_metas s ! i) = 0"
  shows "send_inv cfg (fence_step s)"
proof -
  have "send_inv cfg (discard_finished rid s)" by (rule discard_inv[OF assms(1)])
  then have "send_inv cfg (cancel_sends rid rest (discard_finished rid s))"
    by (rule cancel_sends_inv) (use assms(2,3) in \<open>simp add: discard_finished_def\<close>)
  then show ?thesis using assms(2,3) by (simp add: fence_step_def)
qed

lemma poll_sends_inv:
  assumes inv: "send_inv cfg s" and free: "sn_fence s = None" and t: "t = snd (fetch_finished_sending_reqs now s)"
  shows "send_inv cfg t"
proof -
  have r: "reqs_ok s" using inv by (simp add: send_inv_def)
  define late where "late = filter (expired_send now s) (sn_reqs_need_send s)"
  have t': "t = s\<lparr>sn_finished := [], sn_reqs_need_send := fold dict_pop (map fst late) (sn_reqs_need_send s)\<rparr>"
    by (simp add: t fetch_finished_sending_reqs_def Let_def late_def)
  have get: "dict_get (sn_reqs_need_send t) x = (if x \<in> fst ` set late then None else dict_get (sn_reqs_need_send s) x)" for x
    by (simp add: t' dict_simps)
  have rt: "reqs_ok t"
    by (rule reqs_okI) (use r reqs_okD[OF r] in \<open>auto simp: t' reqs_ok_def pd.wf_pops dict_simps split: if_splits\<close>)
  have less: "in_use t j \<Longrightarrow> in_use s j" for j
    by (rule in_use_less[OF r rt]) (auto simp: get split: if_splits)
  show ?thesis
  proof (rule quiet_inv[OF inv])
    show "core_step s t" by (simp add: core_step_def core_eq_refl t')
    show "outside_eq s t" using less by (auto simp: outside_eq_def t')
    show "reqs_ok t" by (rule rt)
    show "sb_sending (sn_metas t ! i) = 0 \<or> (\<exists>rid rest. sn_fence t = Some (rid, i, rest))"
      if u: "in_use s i" "\<not> in_use t i" for i
    proof -
      obtain tid where g: "dict_get (sn_reqs_need_send s) tid = Some i" using u(1) in_use_get[OF r] by blast
      have "dict_get (sn_reqs_need_send t) tid \<noteq> Some i" using u(2) in_use_get[OF rt] by blast
      then have "tid \<in> fst ` set late" using g by (auto simp: get split: if_splits)
      then obtain j where j: "(tid, j) \<in> set (sn_reqs_need_send s)" "expired_send now s (tid, j)" by (auto simp: late_def)
      then have "j = i" using g dict_in_get[OF _ j(1)] r by (simp add: reqs_ok_def)
      then show ?thesis using j(2) by (simp add: expired_send_def Let_def t')
    qed
  qed (auto simp: t' free fence_ok_def)
qed

section \<open>Sessions\<close>

definition counting :: "transfer_cfg \<Rightarrow> sender \<Rightarrow> bool" where
  "counting cfg s \<longleftrightarrow> list_all (session_ok cfg s) (sn_sessions s) \<and> counts_ok s \<and> metas_ok s \<and> asked_ok s"

lemma transfer_of_asks: "transfer_of x d = Some tid \<Longrightarrow> asks tid x"
  by (auto simp: transfer_of_def asks_def transfers_of_def split: option.splits dest!: dict_get_Some_in)
    (force intro: rev_image_eqI)

lemma open_asks: "open_for tid x \<Longrightarrow> asks tid x"
  by (auto simp: open_for_def list_ex_iff dest: transfer_of_asks)

lemma session_transfer_inj:
  assumes "session_ok cfg s x" and "transfer_of x d = Some tid" and "transfer_of x d' = Some tid"
  shows "d = d'"
proof -
  obtain req where req: "sx_request x = Some req" using assms(2) by (auto simp: transfer_of_def split: option.splits)
  have d: "distinct (transfers_of req)" using assms(1) req by (simp add: session_ok_def)
  obtain b b' where "(d, tid, b) \<in> set (xr_req_blocks req)" "(d', tid, b') \<in> set (xr_req_blocks req)"
    using assms(2,3) req by (auto simp: transfer_of_def dest!: dict_get_Some_in)
  then obtain m n where mn: "m < length (xr_req_blocks req)" "n < length (xr_req_blocks req)"
    "xr_req_blocks req ! m = (d, tid, b)" "xr_req_blocks req ! n = (d', tid, b')" by (metis in_set_conv_nth)
  then have "m = n" using d nth_eq_iff_index_eq[of "transfers_of req" m n] by (simp add: transfers_of_def)
  then show ?thesis using mn by simp
qed

lemma asked_bound:
  assumes c: "counting cfg s" and x: "x \<in> set (asked s tid)"
  shows "length (asked s tid) \<le> length (sx_ranks x)"
proof -
  define rank :: "session \<Rightarrow> int" where "rank = (\<lambda>y. xr_remote_tp_rank (the (sx_request y)))"
  have a: "asked_ok s" using c by (simp add: counting_def)
  have ok: "\<exists>req. sx_request y = Some req \<and> to_targets (kt_topo cfg) (xr_remote_tp_size req) = Inr (sx_ranks y) \<and>
      rank y \<in> set (sx_ranks y)" if y: "y \<in> set (asked s tid)" for y
  proof -
    have "session_ok cfg s y" using c y by (simp add: counting_def list_all_iff asked_def)
    moreover obtain req where "sx_request y = Some req" using y by (auto simp: asked_def asks_def split: option.splits)
    ultimately show ?thesis by (simp add: session_ok_def rank_def)
  qed
  have "rank y \<in> set (sx_ranks x)" if y: "y \<in> set (asked s tid)" for y
  proof -
    have "xr_remote_tp_size (the (sx_request y)) = xr_remote_tp_size (the (sx_request x))"
      using a x y unfolding asked_ok_def by blast
    then show ?thesis using ok[OF x] ok[OF y] by auto
  qed
  then have "set (map rank (asked s tid)) \<subseteq> set (sx_ranks x)" by auto
  moreover have "distinct (map rank (asked s tid))" using a unfolding asked_ok_def rank_def by blast
  ultimately have "length (map rank (asked s tid)) \<le> card (set (sx_ranks x))"
    by (metis card_mono distinct_card finite_set)
  also have "\<dots> \<le> length (sx_ranks x)" by (rule card_length)
  finally show ?thesis by simp
qed

text \<open>Once a source has been sent as often as it needs, nothing of its transfer is read.\<close>

lemma complete_unread:
  assumes c: "counting cfg s" and i: "i < length (sn_metas s)"
    and full: "sb_sent (sn_metas s ! i) = sb_need_send (sn_metas s ! i)" "sb_need_send (sn_metas s ! i) \<noteq> 0"
    and j: "j < length (sn_metas s)" "sb_transfer_id (sn_metas s ! j) = sb_transfer_id (sn_metas s ! i)"
  shows "sb_sending (sn_metas s ! j) = 0"
proof -
  define tid where "tid = sb_transfer_id (sn_metas s ! i)"
  have m: "metas_ok s" "counts_ok s" "list_all (session_ok cfg s) (sn_sessions s)" using c by (simp_all add: counting_def)
  obtain x where x: "x \<in> set (asked s tid)" "sb_need_send (sn_metas s ! i) = int (length (sx_ranks x))"
    using m(1) i full(2) by (auto simp: metas_ok_def tid_def asked_def)
  have "sb_sent (sn_metas s ! i) \<le> sent_total s tid"
  proof -
    have "(if sb_transfer_id (sn_metas s ! i) = tid then sb_sent (sn_metas s ! i) else 0) \<le> sent_total s tid"
      unfolding sent_total_def by (rule member_le_sum) (use i m(1) in \<open>auto simp: metas_ok_def\<close>)
    then show ?thesis by (simp add: tid_def)
  qed
  moreover have "int (length (asked s tid)) \<le> sb_sent (sn_metas s ! i)"
    using asked_bound[OF c x(1)] x(2) full(1) by simp
  moreover have "sent_total s tid + int (length (filter (open_for tid) (sn_sessions s))) \<le> int (length (asked s tid))"
    using m(2) by (simp add: counts_ok_def)
  ultimately have "int (length (filter (open_for tid) (sn_sessions s))) \<le> 0" by linarith
  then have "filter (open_for tid) (sn_sessions s) = []" by simp
  then have none: "\<not> open_for tid y" if "y \<in> set (sn_sessions s)" for y using that by (simp add: filter_empty_conv)
  have "reader_count s j = 0"
  proof (rule ccontr)
    assume "reader_count s j \<noteq> 0"
    then have "\<exists>y d. y \<in> set (sn_sessions s) \<and> (d, j) \<in> set (entries y)"
      by (auto simp: reader_count_def filter_empty_conv entries_def) blast
    then obtain y d where y: "y \<in> set (sn_sessions s)" "(d, j) \<in> set (entries y)" by blast
    then have "transfer_of y d = Some tid" using m(3) j(2) by (fastforce simp: list_all_iff session_ok_def tid_def)
    then have "open_for tid y" using y(2) by (auto simp: open_for_def list_ex_iff)
    with none[OF y(1)] show False ..
  qed
  then show ?thesis using m(1) j(1) by (simp add: metas_ok_def)
qed

definition session_move :: "sender \<Rightarrow> nat \<Rightarrow> session \<Rightarrow> sender \<Rightarrow> bool" where
  "session_move s k x' t \<longleftrightarrow> (let x = sn_sessions s ! k; R = set (map snd (batch_ready x)); R' = set (map snd (batch_ready x'))
     in k < length (sn_sessions s) \<and> sn_sessions t = (sn_sessions s)[k := x'] \<and> length (sn_metas t) = length (sn_metas s) \<and>
        sx_request x' = sx_request x \<and> sx_ranks x' = sx_ranks x \<and>
        (\<forall>i < length (sn_metas s). let m = sn_metas s ! i; m' = sn_metas t ! i in
           sb_transfer_id m' = sb_transfer_id m \<and> sb_p_req_id m' = sb_p_req_id m \<and> sb_sent m \<le> sb_sent m' \<and>
           sb_sending m' = sb_sending m - of_bool (i \<in> R) + of_bool (i \<in> R') \<and>
           (if sb_need_send m \<noteq> 0 then sb_need_send m' = sb_need_send m
            else sb_need_send m' = 0 \<or> (sb_need_send m' = int (length (sx_ranks x)) \<and> asks (sb_transfer_id m) x)) \<and>
           (i \<notin> R \<union> R' \<longrightarrow> sb_sent m' = sb_sent m \<and> sb_need_send m' = sb_need_send m)) \<and>
        (\<forall>tid. sent_total t tid + of_bool (open_for tid x') \<le> sent_total s tid + of_bool (open_for tid x)) \<and>
        sn_fence t = sn_fence s)"

lemma session_ok_mono:
  assumes "session_ok cfg s x" and "\<And>i. i < length (sn_metas s) \<Longrightarrow> i < length (sn_metas t) \<and>
      sb_transfer_id (sn_metas t ! i) = sb_transfer_id (sn_metas s ! i) \<and>
      (sb_need_send (sn_metas s ! i) \<noteq> 0 \<longrightarrow> sb_need_send (sn_metas t ! i) \<noteq> 0)"
  shows "session_ok cfg t x"
proof -
  have ok: "\<forall>(d, i) \<in> set (entries x). i < length (sn_metas s) \<and> transfer_of x d = Some (sb_transfer_id (sn_metas s ! i))"
    "\<forall>(d, i) \<in> set (batch_ready x). sb_need_send (sn_metas s ! i) \<noteq> 0"
    using assms(1) by (simp_all add: session_ok_def)
  have "i < length (sn_metas t) \<and> transfer_of x d = Some (sb_transfer_id (sn_metas t ! i))" if "(d, i) \<in> set (entries x)" for d i
    using assms(2)[of i] bspec[OF ok(1) that] by simp
  moreover have "sb_need_send (sn_metas t ! i) \<noteq> 0" if "(d, i) \<in> set (batch_ready x)" for d i
    using assms(2)[of i] bspec[OF ok(1), of "(d, i)"] bspec[OF ok(2) that] that by (simp add: entries_def)
  ultimately show ?thesis using assms(1) by (auto simp: session_ok_def)
qed

lemma session_move_counting:
  assumes c: "counting cfg s" and m: "session_move s k x' t" and ok: "session_ok cfg t x'"
  shows "counting cfg t" and "\<And>i. reader_count t i = 0 \<longleftrightarrow> \<not> reads t i"
proof -
  define x where "x = sn_sessions s ! k"
  have k: "k < length (sn_sessions s)" and ses: "sn_sessions t = (sn_sessions s)[k := x']"
    and len: "length (sn_metas t) = length (sn_metas s)" and req: "sx_request x' = sx_request x" "sx_ranks x' = sx_ranks x"
    and tot: "\<And>tid. sent_total t tid + of_bool (open_for tid x') \<le> sent_total s tid + of_bool (open_for tid x)"
    using m by (simp_all add: session_move_def Let_def x_def)
  have at: "sb_transfer_id (sn_metas t ! i) = sb_transfer_id (sn_metas s ! i)"
    "sb_sent (sn_metas s ! i) \<le> sb_sent (sn_metas t ! i)"
    "sb_sending (sn_metas t ! i) = sb_sending (sn_metas s ! i) - of_bool (i \<in> set (map snd (batch_ready x))) + of_bool (i \<in> set (map snd (batch_ready x')))"
    "if sb_need_send (sn_metas s ! i) \<noteq> 0 then sb_need_send (sn_metas t ! i) = sb_need_send (sn_metas s ! i)
     else sb_need_send (sn_metas t ! i) = 0 \<or> (sb_need_send (sn_metas t ! i) = int (length (sx_ranks x)) \<and> asks (sb_transfer_id (sn_metas s ! i)) x)"
    if "i < length (sn_metas s)" for i
    using m that by (simp_all add: session_move_def Let_def x_def)
  have c': "list_all (session_ok cfg s) (sn_sessions s)" "counts_ok s" "metas_ok s" "asked_ok s"
    using c by (simp_all add: counting_def)
  have asks: "asks tid x' = asks tid x" for tid by (simp add: asks_def req)
  have lasked: "asked t tid = map (\<lambda>y. if y = x then y else y) (asked t tid)" for tid by simp
  have "session_ok cfg t y" if y: "y \<in> set (sn_sessions t)" for y
  proof (cases "y = x'")
    case False
    then have "y \<in> set (sn_sessions s)" using y set_update_subset_insert[of "sn_sessions s" k x'] by (auto simp: ses)
    then have "session_ok cfg s y" using c'(1) by (simp add: list_all_iff)
    then show ?thesis by (rule session_ok_mono) (use at len in \<open>auto split: if_splits\<close>)
  qed (use ok in simp)
  then have 1: "list_all (session_ok cfg t) (sn_sessions t)" by (simp add: list_all_iff)
  have la: "map f (asked t tid) = map f (asked s tid)" if "f x' = f x" for f :: "session \<Rightarrow> 'c" and tid
    unfolding asked_def ses by (rule map_filter_update) (use k that asks in \<open>simp_all add: x_def\<close>)
  have lenask: "length (asked t tid) = length (asked s tid)" for tid
    using arg_cong[OF la[of "\<lambda>_. ()" tid], of length] by simp
  have 2: "counts_ok t" unfolding counts_ok_def
  proof
    fix tid
    have "sent_total s tid + int (length (filter (open_for tid) (sn_sessions s))) \<le> int (length (asked s tid))"
      using c'(2) by (simp add: counts_ok_def)
    then show "sent_total t tid + int (length (filter (open_for tid) (sn_sessions t))) \<le> int (length (asked t tid))"
      using tot[of tid] unfolding ses length_filter_update[OF k] lenask x_def by linarith
  qed
  have rc: "int (reader_count t i) = int (reader_count s i) - of_bool (i \<in> set (map snd (batch_ready x))) + of_bool (i \<in> set (map snd (batch_ready x')))" for i
    unfolding reader_count_def ses length_filter_update[OF k] x_def ..
  have kept: "\<exists>z \<in> set (sn_sessions t). asks tid z = asks tid y \<and> sx_ranks z = sx_ranks y" if y: "y \<in> set (sn_sessions s)" for y tid
  proof -
    obtain j where j: "j < length (sn_sessions s)" "y = sn_sessions s ! j" using y by (auto simp: in_set_conv_nth)
    then have "sn_sessions t ! j \<in> set (sn_sessions t)" by (simp add: ses)
    then show ?thesis using j asks[of tid] req k by (intro bexI[of _ "sn_sessions t ! j"]) (auto simp: ses nth_list_update x_def)
  qed
  have 3: "metas_ok t" unfolding metas_ok_def
  proof (intro allI impI conjI)
    fix i assume "i < length (sn_metas t)"
    then have i: "i < length (sn_metas s)" by (simp add: len)
    have mi: "0 \<le> sb_sent (sn_metas s ! i)" "sb_sending (sn_metas s ! i) = int (reader_count s i)"
      "sb_need_send (sn_metas s ! i) \<noteq> 0 \<longrightarrow> (\<exists>y \<in> set (sn_sessions s). asks (sb_transfer_id (sn_metas s ! i)) y \<and>
        sb_need_send (sn_metas s ! i) = int (length (sx_ranks y)))"
      using c'(3) i by (simp_all add: metas_ok_def)
    show "0 \<le> sb_sent (sn_metas t ! i)" using mi(1) at(2)[OF i] by simp
    show "sb_sending (sn_metas t ! i) = int (reader_count t i)" using mi(2) at(3)[OF i] rc by simp
    show "\<exists>y \<in> set (sn_sessions t). asks (sb_transfer_id (sn_metas t ! i)) y \<and> sb_need_send (sn_metas t ! i) = int (length (sx_ranks y))"
      if n: "sb_need_send (sn_metas t ! i) \<noteq> 0"
    proof -
      have "\<exists>y \<in> set (sn_sessions s). asks (sb_transfer_id (sn_metas s ! i)) y \<and> sb_need_send (sn_metas t ! i) = int (length (sx_ranks y))"
      proof (cases "sb_need_send (sn_metas s ! i) = 0")
        case True
        then show ?thesis using at(4)[OF i] n k by (intro bexI[of _ x]) (auto simp: x_def)
      next
        case False
        then show ?thesis using mi(3) at(4)[OF i] by simp
      qed
      then obtain y where "y \<in> set (sn_sessions s)" "asks (sb_transfer_id (sn_metas s ! i)) y"
        "sb_need_send (sn_metas t ! i) = int (length (sx_ranks y))" by blast
      then show ?thesis using kept[of y "sb_transfer_id (sn_metas s ! i)"] at(1)[OF i] by auto
    qed
  qed
  have 4: "asked_ok t" unfolding asked_ok_def
  proof (intro allI conjI ballI)
    fix tid
    show "distinct (map (\<lambda>x. xr_remote_tp_rank (the (sx_request x))) (asked t tid))"
      using c'(4) la[of "\<lambda>x. xr_remote_tp_rank (the (sx_request x))" tid] req(1) by (simp add: asked_ok_def)
    fix y z assume yz: "y \<in> set (asked t tid)" "z \<in> set (asked t tid)"
    have "(\<lambda>x. xr_remote_tp_size (the (sx_request x))) ` set (asked t tid) = (\<lambda>x. xr_remote_tp_size (the (sx_request x))) ` set (asked s tid)"
      using arg_cong[OF la[of "\<lambda>x. xr_remote_tp_size (the (sx_request x))" tid], of set] req(1) by simp
    then have "xr_remote_tp_size (the (sx_request y)) \<in> (\<lambda>x. xr_remote_tp_size (the (sx_request x))) ` set (asked s tid)"
      "xr_remote_tp_size (the (sx_request z)) \<in> (\<lambda>x. xr_remote_tp_size (the (sx_request x))) ` set (asked s tid)"
      using yz by blast+
    then obtain y' z' where w: "y' \<in> set (asked s tid)" "z' \<in> set (asked s tid)"
      "xr_remote_tp_size (the (sx_request y)) = xr_remote_tp_size (the (sx_request y'))"
      "xr_remote_tp_size (the (sx_request z)) = xr_remote_tp_size (the (sx_request z'))" by (elim imageE)
    have "xr_remote_tp_size (the (sx_request y')) = xr_remote_tp_size (the (sx_request z'))"
      using c'(4) w(1,2) unfolding asked_ok_def by blast
    then show "xr_remote_tp_size (the (sx_request y)) = xr_remote_tp_size (the (sx_request z))"
      unfolding w(3,4) .
  qed
  show "counting cfg t" using 1 2 3 4 by (simp add: counting_def)
qed (rule reader_count_0)

lemma session_move_inv:
  assumes inv: "send_inv cfg s" and m: "session_move s k x' t" and ok: "session_ok cfg t x'" and rt: "reqs_ok t"
    and less: "\<And>tid i. dict_get (sn_reqs_need_send t) tid = Some i \<Longrightarrow> dict_get (sn_reqs_need_send s) tid = Some i"
    and new: "\<And>i. i \<in> set (map snd (batch_ready x')) \<Longrightarrow> i \<notin> set (map snd (batch_ready (sn_sessions s ! k))) \<Longrightarrow> in_use s i"
    and popped: "\<And>i. counting cfg t \<Longrightarrow> i < length (sn_metas t) \<Longrightarrow> in_use s i \<Longrightarrow> \<not> in_use t i \<Longrightarrow> sb_sending (sn_metas t ! i) = 0"
    and fin: "\<And>rid. counting cfg t \<Longrightarrow> rid \<in> set (sn_finished t) \<Longrightarrow> rid \<in> set (sn_finished s) \<or>
      (\<exists>i < length (sn_metas t). \<not> in_use t i \<and> sb_p_req_id (sn_metas t ! i) = rid \<and>
        sb_sent (sn_metas t ! i) = sb_need_send (sn_metas t ! i) \<and> 0 < sb_sent (sn_metas t ! i) \<and> sb_sending (sn_metas t ! i) = 0)"
  shows "send_inv cfg t"
proof -
  define x where "x = sn_sessions s ! k"
  have rs: "reqs_ok s" using inv by (simp add: send_inv_def)
  have cs: "counting cfg s" using inv by (simp add: send_inv_def counting_def)
  have ct: "counting cfg t" by (rule session_move_counting(1)[OF cs m ok])
  have len: "length (sn_metas t) = length (sn_metas s)" and fe: "sn_fence t = sn_fence s" and k: "k < length (sn_sessions s)"
    using m by (simp_all add: session_move_def Let_def)
  have at: "sb_p_req_id (sn_metas t ! i) = sb_p_req_id (sn_metas s ! i)"
    "sb_sending (sn_metas t ! i) = sb_sending (sn_metas s ! i) - of_bool (i \<in> set (map snd (batch_ready x))) + of_bool (i \<in> set (map snd (batch_ready x')))"
    "i \<notin> set (map snd (batch_ready x)) \<Longrightarrow> i \<notin> set (map snd (batch_ready x')) \<Longrightarrow>
       sb_sent (sn_metas t ! i) = sb_sent (sn_metas s ! i) \<and> sb_need_send (sn_metas t ! i) = sb_need_send (sn_metas s ! i)"
    if "i < length (sn_metas s)" for i
    using m that by (simp_all add: session_move_def Let_def x_def)
  note iu = in_use_less[OF rs rt less]
  have idle: "i \<notin> set (map snd (batch_ready x)) \<and> i \<notin> set (map snd (batch_ready x'))"
    if i: "i < length (sn_metas s)" and n: "\<not> in_use s i" and z: "sb_sending (sn_metas s ! i) = 0" for i
  proof -
    have "reader_count s i = 0" using z i cs by (simp add: counting_def metas_ok_def)
    then have "i \<notin> set (map snd (batch_ready x))" using k nth_mem[OF k]
      by (simp add: reader_count_def filter_empty_conv x_def)
    with new[of i] n show ?thesis by (auto simp: x_def)
  qed
  have "gone_ok t" unfolding gone_ok_def
  proof (intro allI impI)
    fix i assume i: "i < length (sn_metas t)" "\<not> in_use t i"
    have i': "i < length (sn_metas s)" using i by (simp add: len)
    show "sb_sending (sn_metas t ! i) = 0 \<or> (\<exists>rid rest. sn_fence t = Some (rid, i, rest))"
    proof (cases "in_use s i")
      case True
      then show ?thesis using popped[OF ct i(1) _ i(2)] by blast
    next
      case False
      have "gone_ok s" using inv by (simp add: send_inv_def)
      then consider "sb_sending (sn_metas s ! i) = 0" | "\<exists>rid rest. sn_fence t = Some (rid, i, rest)"
        using False i' unfolding gone_ok_def fe by blast
      then show ?thesis
      proof cases
        case 1
        then show ?thesis using idle[OF i' False 1] at(2)[OF i'] by simp
      qed simp
    qed
  qed
  moreover have "fence_ok t"
    using inv iu unfolding send_inv_def fence_ok_def fe by (auto simp: len split: option.splits)
  moreover have "done_ok t" unfolding done_ok_def
  proof
    fix rid assume "rid \<in> set (sn_finished t)"
    from fin[OF ct this] show "\<exists>i < length (sn_metas t). \<not> in_use t i \<and> sb_p_req_id (sn_metas t ! i) = rid \<and>
        sb_sent (sn_metas t ! i) = sb_need_send (sn_metas t ! i) \<and> 0 < sb_sent (sn_metas t ! i) \<and> sb_sending (sn_metas t ! i) = 0"
    proof
      assume "rid \<in> set (sn_finished s)"
      then obtain i where i: "i < length (sn_metas s)" "\<not> in_use s i" "sb_p_req_id (sn_metas s ! i) = rid"
        "sb_sent (sn_metas s ! i) = sb_need_send (sn_metas s ! i)" "0 < sb_sent (sn_metas s ! i)" "sb_sending (sn_metas s ! i) = 0"
        using inv unfolding send_inv_def done_ok_def by blast
      note id = idle[OF i(1,2,6)]
      have "\<not> in_use t i" using iu i(2) by blast
      then show ?thesis using i at[OF i(1)] id len by (intro exI[of _ i]) simp
    qed
  qed
  ultimately show ?thesis using ct rt by (simp add: send_inv_def counting_def)
qed

lemma session_at: "list_all (session_ok cfg s) (sn_sessions s) \<Longrightarrow> k < length (sn_sessions s) \<Longrightarrow> session_ok cfg s (sn_sessions s ! k)"
  by (simp add: list_all_iff)

lemma entries_distinct:
  assumes ok: "session_ok cfg s x"
  shows "distinct (map snd (entries x))"
proof -
  have d: "distinct (map fst (entries x))" using ok by (simp add: session_ok_def)
  have t: "transfer_of x d = Some (sb_transfer_id (sn_metas s ! i))" if "(d, i) \<in> set (entries x)" for d i
    using ok that by (auto simp: session_ok_def)
  have "inj_on snd (set (entries x))"
  proof (rule inj_onI)
    fix a b assume ab: "a \<in> set (entries x)" "b \<in> set (entries x)" "snd a = snd b"
    then obtain d e i where de: "a = (d, i)" "b = (e, i)" by (metis prod.collapse)
    then have "(d, i) \<in> set (entries x)" "(e, i) \<in> set (entries x)" using ab by simp_all
    from session_transfer_inj[OF ok t[OF this(1)] t[OF this(2)]] show "a = b" by (simp add: de)
  qed
  moreover have "distinct (entries x)" using d by (simp add: distinct_map)
  ultimately show ?thesis by (simp add: distinct_map)
qed

text \<open>Sums over the sources, where a set of sources gains one send each.\<close>

lemma sent_total_update:
  assumes len: "length (sn_metas t) = length (sn_metas s)" and S: "S \<subseteq> {..<length (sn_metas s)}"
    and at: "\<And>i. i < length (sn_metas s) \<Longrightarrow> sb_transfer_id (sn_metas t ! i) = sb_transfer_id (sn_metas s ! i) \<and>
      sb_sent (sn_metas t ! i) = sb_sent (sn_metas s ! i) + of_bool (i \<in> S)"
  shows "sent_total t tid = sent_total s tid + int (card {i \<in> S. sb_transfer_id (sn_metas s ! i) = tid})"
proof -
  have "sent_total t tid = (\<Sum>i < length (sn_metas s). (if sb_transfer_id (sn_metas s ! i) = tid then sb_sent (sn_metas s ! i) else 0) +
      (if i \<in> {i \<in> S. sb_transfer_id (sn_metas s ! i) = tid} then 1 else 0))"
    unfolding sent_total_def len by (rule sum.cong) (use at in auto)
  also have "\<dots> = sent_total s tid + (\<Sum>i < length (sn_metas s). if i \<in> {i \<in> S. sb_transfer_id (sn_metas s ! i) = tid} then 1 else 0)"
    by (simp add: sum.distrib sent_total_def)
  also have "(\<Sum>i < length (sn_metas s). if i \<in> {i \<in> S. sb_transfer_id (sn_metas s ! i) = tid} then (1 :: int) else 0) =
      int (card ({..<length (sn_metas s)} \<inter> {i \<in> S. sb_transfer_id (sn_metas s ! i) = tid}))"
    by (subst sum.If_cases) simp_all
  also have "{..<length (sn_metas s)} \<inter> {i \<in> S. sb_transfer_id (sn_metas s ! i) = tid} = {i \<in> S. sb_transfer_id (sn_metas s ! i) = tid}"
    using S by blast
  finally show ?thesis .
qed

lemma batch_entries: "set (batch_ready x) \<subseteq> set (entries x)"
  by (simp add: entries_def)

lemma session_okD:
  assumes "session_ok cfg s x"
  shows "(d, i) \<in> set (entries x) \<Longrightarrow> i < length (sn_metas s) \<and> transfer_of x d = Some (sb_transfer_id (sn_metas s ! i))"
    and "(d, i) \<in> set (batch_ready x) \<Longrightarrow> sb_need_send (sn_metas s ! i) \<noteq> 0" and "distinct (map fst (entries x))"
  using assms by (auto simp: session_ok_def)

lemma session_ok_part:
  assumes "session_ok cfg s x" and "sx_request x' = sx_request x" and "sx_ranks x' = sx_ranks x"
    and "set (entries x') \<subseteq> set (entries x)" and "distinct (map fst (entries x'))"
    and "\<And>d i. (d, i) \<in> set (batch_ready x') \<Longrightarrow> sb_need_send (sn_metas s ! i) \<noteq> 0"
  shows "session_ok cfg s x'"
proof -
  have tr: "transfer_of x' = transfer_of x" by (intro ext) (simp add: transfer_of_def assms(2))
  have "case sx_request x' of None \<Rightarrow> True | Some req \<Rightarrow> distinct (transfers_of req) \<and> dict_wf (xr_req_blocks req) \<and>
      to_targets (kt_topo cfg) (xr_remote_tp_size req) = Inr (sx_ranks x') \<and> xr_remote_tp_rank req \<in> set (sx_ranks x')"
    using assms(1) unfolding session_ok_def assms(2,3) by blast
  then show ?thesis using assms(4-6) session_okD(1)[OF assms(1)] unfolding session_ok_def tr by blast
qed

lemma upd_session_simps [simp]:
  "sn_metas (upd_session k f s) = sn_metas s" "sn_reqs_need_send (upd_session k f s) = sn_reqs_need_send s"
  "sn_finished (upd_session k f s) = sn_finished s" "sn_fence (upd_session k f s) = sn_fence s"
  "sn_sessions (upd_session k f s) = (sn_sessions s)[k := f (sn_sessions s ! k)]"
  by (simp_all add: upd_session_def)

text \<open>A session that stops without writing anything.\<close>

lemma session_quiet_inv:
  assumes inv: "send_inv cfg s" and k: "k < length (sn_sessions s)" and x: "x = sn_sessions s ! k"
    and x': "sx_request x' = sx_request x" "sx_ranks x' = sx_ranks x" "entries x' = entries x" "batch_ready x' = batch_ready x"
    and t: "t = s\<lparr>sn_sessions := (sn_sessions s)[k := x']\<rparr>"
  shows "send_inv cfg t"
proof -
  have tr: "transfer_of x' = transfer_of x" by (intro ext) (simp add: transfer_of_def x'(1))
  have "session_ok cfg s x" using inv session_at[OF _ k] by (simp add: send_inv_def x)
  then have "session_ok cfg s x'"
    by (rule session_ok_part) (use session_okD[OF \<open>session_ok cfg s x\<close>] in \<open>auto simp: x'\<close>)
  then have ok: "session_ok cfg t x'" by (rule session_ok_mono) (simp add: t)
  have mt: "sn_metas t = sn_metas s" by (simp add: t)
  have tot: "sent_total t = sent_total s" unfolding sent_total_def mt ..
  have op: "open_for tid x' = open_for tid x" for tid by (simp add: open_for_def x' tr)
  have m: "session_move s k x' t" unfolding session_move_def Let_def x[symmetric] using k
    by (simp add: x' tot op) (simp add: t)
  have iu: "in_use t = in_use s" by (intro ext) (simp add: in_use_def t)
  show ?thesis
  proof (rule session_move_inv[OF inv m ok])
    show "reqs_ok t" using inv by (simp add: send_inv_def reqs_ok_def t)
  qed (simp_all add: t iu x'(4) x, simp add: iu[unfolded t])
qed

lemma session_timeout_inv:
  assumes inv: "send_inv cfg s" and k: "session_phase_of s k = Session_Waiting"
  shows "send_inv cfg (session_timeout k s)"
proof -
  have l: "k < length (sn_sessions s)" using k by (auto simp: session_phase_of_def split: if_splits)
  define x where "x = sn_sessions s ! k"
  have p: "sx_phase x = Session_Waiting" using k l by (simp add: session_phase_of_def x_def)
  show ?thesis
    by (rule session_quiet_inv[OF inv l x_def, of "x\<lparr>sx_phase := Session_Over, sx_out := sx_out x @
         [plain_response FINISH (Some (dict_keys (sx_pending x))) ''Timeout waiting for P side ready.'']\<rparr>"])
      (use p in \<open>simp_all add: entries_def batch_ready_def session_timeout_def upd_session_def x_def\<close>)
qed

text \<open>The reads of a batch end; \<open>S\<close> are the sources that were written.\<close>

lemma batch_end_inv:
  assumes inv: "send_inv cfg s" and k: "k < length (sn_sessions s)" and x: "x = sn_sessions s ! k" "sx_phase x = Session_Writing b"
    and S: "S \<subseteq> snd ` set (sy_ready b)" and c: "counted_sends S s s1"
    and x': "sx_request x' = sx_request x" "sx_ranks x' = sx_ranks x" "sx_pending x' = sx_pending x" "batch_ready x' = []"
    and t: "t = (release_reads (sy_ready b) s1)\<lparr>sn_sessions := (sn_sessions s)[k := x']\<rparr>"
  shows "send_inv cfg t"
proof -
  have br: "batch_ready x = sy_ready b" by (simp add: batch_ready_def x(2))
  have rs: "reqs_ok s" using inv by (simp add: send_inv_def)
  have okx: "session_ok cfg s x" using inv session_at[OF _ k] by (simp add: send_inv_def x(1))
  have ent: "set (sy_ready b) \<subseteq> set (entries x)" using batch_entries[of x] by (simp add: br)
  have di: "distinct (map snd (sy_ready b))" using entries_distinct[OF okx] by (simp add: entries_def br)
  have idx: "snd ` set (sy_ready b) \<subseteq> {..<length (sn_metas s)}" using session_okD(1)[OF okx] ent by force
  have len1: "length (sn_metas s1) = length (sn_metas s)" using c by (simp add: counted_sends_def)
  have rel: "release_reads (sy_ready b) s1 = map_metas (snd ` set (sy_ready b)) (\<lambda>m. m\<lparr>sb_sending := sb_sending m - 1\<rparr>) s1"
    by (rule release_reads_eq[OF di]) (use idx len1 in simp)
  have len: "length (sn_metas t) = length (sn_metas s)" by (simp add: t rel len1)
  have at: "sn_metas t ! i = (let m = (if i \<in> S then sent_once (sn_metas s ! i) else sn_metas s ! i)
      in if i \<in> snd ` set (sy_ready b) then m\<lparr>sb_sending := sb_sending m - 1\<rparr> else m)" if "i < length (sn_metas s)" for i
    using c that by (simp add: t rel len1 counted_sends_def Let_def)
  have tr: "transfer_of x' = transfer_of x" by (intro ext) (simp add: transfer_of_def x'(1))
  have ent': "entries x' = sx_pending x" by (simp add: entries_def x')
  have SI: "S \<subseteq> {..<length (sn_metas s)}" using S idx by blast
  have tot: "sent_total t tid = sent_total s tid + int (card {i \<in> S. sb_transfer_id (sn_metas s ! i) = tid})" for tid
    by (rule sent_total_update[OF len SI]) (auto simp: at Let_def sent_once_def)
  have one: "int (card {i \<in> S. sb_transfer_id (sn_metas s ! i) = tid}) + of_bool (open_for tid x') \<le> of_bool (open_for tid x)" for tid
  proof -
    define A where "A = {i \<in> S. sb_transfer_id (sn_metas s ! i) = tid}"
    have ready: "\<exists>d. (d, i) \<in> set (sy_ready b) \<and> transfer_of x d = Some tid" if "i \<in> A" for i
    proof -
      have "i \<in> S" using that by (simp add: A_def)
      then have "i \<in> snd ` set (sy_ready b)" using S by (rule rev_subsetD)
      then obtain d where d: "(d, i) \<in> set (sy_ready b)" by auto
      then have "transfer_of x d = Some (sb_transfer_id (sn_metas s ! i))" using session_okD(1)[OF okx] ent by blast
      then show ?thesis using d that by (auto simp: A_def)
    qed
    show ?thesis
    proof (cases "A = {}")
      case True
      have "open_for tid x' \<Longrightarrow> open_for tid x" unfolding open_for_def ent' tr by (auto simp: entries_def)
      then show ?thesis unfolding A_def[symmetric] True by simp
    next
      case False
      then obtain i where i: "i \<in> A" by blast
      obtain d where d: "(d, i) \<in> set (sy_ready b)" "transfer_of x d = Some tid" using ready[OF i] by blast
      have same: "j = i" if jA: "j \<in> A" for j
      proof -
        obtain e where e: "(e, j) \<in> set (sy_ready b)" "transfer_of x e = Some tid" using ready[OF jA] by blast
        have "e = d" by (rule session_transfer_inj[OF okx e(2) d(2)])
        moreover have "distinct (map fst (sy_ready b))" using session_okD(3)[OF okx] by (simp add: entries_def br)
        ultimately show ?thesis using e(1) d(1) by (simp add: eq_key_imp_eq_value)
      qed
      then have "A = {i}" using i by blast
      moreover have "open_for tid x" using d ent by (auto simp: open_for_def list_ex_iff)
      moreover have "\<not> open_for tid x'"
      proof
        assume "open_for tid x'"
        then obtain e j where e: "(e, j) \<in> set (sx_pending x)" "transfer_of x e = Some tid"
          by (auto simp: open_for_def list_ex_iff tr ent')
        have "e = d" by (rule session_transfer_inj[OF okx e(2) d(2)])
        then have "d \<in> fst ` set (sx_pending x) \<inter> fst ` set (sy_ready b)" using e(1) d(1) by force
        moreover have "fst ` set (sx_pending x) \<inter> fst ` set (sy_ready b) = {}" using session_okD(3)[OF okx] by (simp add: entries_def br)
        ultimately show False by blast
      qed
      ultimately show ?thesis by (simp add: A_def)
    qed
  qed
  have m: "session_move s k x' t" unfolding session_move_def Let_def x(1)[symmetric]
  proof (intro conjI allI impI)
    fix i assume i: "i < length (sn_metas s)"
    have "sb_sending (sn_metas t ! i) = sb_sending (sn_metas s ! i) - of_bool (i \<in> snd ` set (sy_ready b))"
      using i by (simp add: at Let_def sent_once_def)
    then show "sb_sending (sn_metas t ! i) = sb_sending (sn_metas s ! i) - of_bool (i \<in> set (map snd (batch_ready x))) +
        of_bool (i \<in> set (map snd (batch_ready x')))" by (simp add: br x'(4))
    show "if sb_need_send (sn_metas s ! i) \<noteq> 0 then sb_need_send (sn_metas t ! i) = sb_need_send (sn_metas s ! i)
      else sb_need_send (sn_metas t ! i) = 0 \<or> sb_need_send (sn_metas t ! i) = int (length (sx_ranks x)) \<and>
        asks (sb_transfer_id (sn_metas s ! i)) x" using i by (simp add: at Let_def sent_once_def)
    show "sb_sent (sn_metas t ! i) = sb_sent (sn_metas s ! i)" "sb_need_send (sn_metas t ! i) = sb_need_send (sn_metas s ! i)"
      if "i \<notin> set (map snd (batch_ready x)) \<union> set (map snd (batch_ready x'))"
      using that i S by (auto simp: at Let_def br)
  next
    fix tid
    show "sent_total t tid + of_bool (open_for tid x') \<le> sent_total s tid + of_bool (open_for tid x)"
      using one[of tid] tot[of tid] by linarith
  qed (use k len x' c in \<open>auto simp: at Let_def sent_once_def t rel counted_sends_def\<close>)
  have get: "dict_get (sn_reqs_need_send t) tid =
      (if tid \<in> (\<lambda>i. sb_transfer_id (sn_metas s ! i)) ` completes S s then None else dict_get (sn_reqs_need_send s) tid)" for tid
    using c by (simp add: t rel counted_sends_def)
  have rt: "reqs_ok t"
  proof (rule reqs_okI)
    show "dict_wf (sn_reqs_need_send t)" using rs c by (simp add: t rel counted_sends_def reqs_ok_def)
    show "i < length (sn_metas t) \<and> sb_transfer_id (sn_metas t ! i) = tid" if "dict_get (sn_reqs_need_send t) tid = Some i" for tid i
      using that reqs_okD[OF rs, of tid i] len by (auto simp: get at Let_def sent_once_def split: if_splits)
  qed
  have ok: "session_ok cfg t x'"
  proof -
    have "session_ok cfg s x'" by (rule session_ok_part[OF okx x'(1,2)])
      (use session_okD(3)[OF okx] in \<open>auto simp: entries_def x'\<close>)
    then show ?thesis by (rule session_ok_mono) (simp add: len at Let_def sent_once_def)
  qed
  have full: "sb_sent (sn_metas t ! i) = sb_need_send (sn_metas t ! i) \<and> sb_need_send (sn_metas t ! i) \<noteq> 0 \<and> i < length (sn_metas s)"
    if "i \<in> completes S s" for i
  proof -
    have iS: "i \<in> S" "sb_sent (sn_metas s ! i) + 1 = sb_need_send (sn_metas s ! i)" using that by (simp_all add: completes_def)
    then have il: "i < length (sn_metas s)" using SI by blast
    have "i \<in> snd ` set (sy_ready b)" using iS(1) S by (rule rev_subsetD)
    then obtain d where "(d, i) \<in> set (sy_ready b)" by auto
    then have "sb_need_send (sn_metas s ! i) \<noteq> 0" using session_okD(2)[OF okx] by (simp add: br)
    then show ?thesis using iS il by (simp add: at Let_def sent_once_def)
  qed
  have unread: "sb_sending (sn_metas t ! j) = 0"
    if ct: "counting cfg t" and i: "i \<in> completes S s" and j: "j < length (sn_metas s)"
      and same: "sb_transfer_id (sn_metas s ! j) = sb_transfer_id (sn_metas s ! i)" for i j
  proof (rule complete_unread[OF ct, of i])
    show "sb_transfer_id (sn_metas t ! j) = sb_transfer_id (sn_metas t ! i)"
      using same j full[OF i] by (simp add: at Let_def sent_once_def)
  qed (use full[OF i] j len in simp_all)
  show ?thesis
  proof (rule session_move_inv[OF inv m ok rt])
    show "dict_get (sn_reqs_need_send s) tid = Some i" if "dict_get (sn_reqs_need_send t) tid = Some i" for tid i
      using that by (simp add: get split: if_splits)
    show "in_use s i" if "i \<in> set (map snd (batch_ready x'))" for i using that by (simp add: x'(4))
    show "sb_sending (sn_metas t ! j) = 0" if ct: "counting cfg t" and j: "j < length (sn_metas t)" and u: "in_use s j" "\<not> in_use t j" for j
    proof -
      obtain tid where g: "dict_get (sn_reqs_need_send s) tid = Some j" using u(1) in_use_get[OF rs] by blast
      have "dict_get (sn_reqs_need_send t) tid \<noteq> Some j" using u(2) in_use_get[OF rt] by blast
      then obtain i where "i \<in> completes S s" "tid = sb_transfer_id (sn_metas s ! i)" using g by (auto simp: get split: if_splits)
      then show ?thesis using unread[OF ct, of i j] reqs_okD[OF rs g] by simp
    qed
    show "rid \<in> set (sn_finished s) \<or> (\<exists>i < length (sn_metas t). \<not> in_use t i \<and> sb_p_req_id (sn_metas t ! i) = rid \<and>
        sb_sent (sn_metas t ! i) = sb_need_send (sn_metas t ! i) \<and> 0 < sb_sent (sn_metas t ! i) \<and> sb_sending (sn_metas t ! i) = 0)"
      if ct: "counting cfg t" and r: "rid \<in> set (sn_finished t)" for rid
    proof -
      have "rid \<in> set (sn_finished s) \<union> (\<lambda>i. sb_p_req_id (sn_metas s ! i)) ` completes S s"
        using r c by (auto simp: t rel counted_sends_def)
      then show ?thesis
      proof
        assume "rid \<in> (\<lambda>i. sb_p_req_id (sn_metas s ! i)) ` completes S s"
        then obtain i where i: "i \<in> completes S s" "rid = sb_p_req_id (sn_metas s ! i)" by blast
        note f = full[OF i(1)]
        have "\<not> in_use t i"
        proof
          assume "in_use t i"
          then obtain tid where g: "dict_get (sn_reqs_need_send t) tid = Some i" using in_use_get[OF rt] by blast
          then have "tid = sb_transfer_id (sn_metas s ! i)" using reqs_okD[OF rs, of tid i] by (simp add: get split: if_splits)
          then show False using g i(1) by (simp add: get)
        qed
        moreover have "0 \<le> sb_sent (sn_metas t ! i)" using ct f len unfolding counting_def metas_ok_def by metis
        moreover have "sb_p_req_id (sn_metas t ! i) = rid" using f i(2) by (simp add: at Let_def sent_once_def)
        moreover have "sb_sending (sn_metas t ! i) = 0" by (rule unread[OF ct i(1)]) (use f in simp_all)
        ultimately show ?thesis using f len by (intro disjI2 exI[of _ i]) simp
      qed simp
    qed
  qed
qed


lemma writing_at: "session_phase_of s k = Session_Writing b \<Longrightarrow> k < length (sn_sessions s) \<and> sx_phase (sn_sessions s ! k) = Session_Writing b"
  by (auto simp: session_phase_of_def split: if_splits)

lemma release_reads_keeps [simp]:
  "sn_sessions (release_reads r s) = sn_sessions s" "sn_reqs_need_send (release_reads r s) = sn_reqs_need_send s"
  "sn_finished (release_reads r s) = sn_finished s" "sn_fence (release_reads r s) = sn_fence s"
  by (induction r arbitrary: s) (auto simp: release_reads_def)

lemma batch_ready_idx:
  assumes "session_ok cfg s x" and "sx_phase x = Session_Writing b"
  shows "distinct (map snd (sy_ready b))" and "snd ` set (sy_ready b) \<subseteq> {..<length (sn_metas s)}"
proof -
  have br: "batch_ready x = sy_ready b" by (simp add: batch_ready_def assms(2))
  show "distinct (map snd (sy_ready b))" using entries_distinct[OF assms(1)] by (simp add: entries_def br)
  show "snd ` set (sy_ready b) \<subseteq> {..<length (sn_metas s)}"
    using session_okD(1)[OF assms(1)] batch_entries[of x] by (force simp: br)
qed

lemma finish_batch_inv:
  assumes inv: "send_inv cfg s" and k: "session_phase_of s k = Session_Writing b"
  shows "send_inv cfg (finish_batch k b ret s)"
proof -
  note w = writing_at[OF k]
  define x where "x = sn_sessions s ! k"
  obtain ok e msg where o: "batch_outcome b ret = (ok, e, msg)" by (cases "batch_outcome b ret") auto
  define err where "err = set e"
  define x' where "x' = x\<lparr>sx_phase := (if sx_pending x = [] then Session_Over else Session_Waiting),
      sx_out := sx_out x @ [batch_response b ret]\<rparr>"
  define s1 where "s1 = fold (count_sent err) (sy_ready b) s"
  have okx: "session_ok cfg s x" using inv session_at w by (simp add: send_inv_def x_def)
  have xb: "sx_phase x = Session_Writing b" using w by (simp add: x_def)
  have c: "counted_sends (snd ` {di \<in> set (sy_ready b). fst di \<notin> err}) s s1"
    unfolding s1_def by (rule count_sent_fold) (rule batch_ready_idx[OF okx xb])+
  have ss: "sn_sessions s1 = sn_sessions s" using c by (simp add: counted_sends_def)
  have t: "finish_batch k b ret s = (release_reads (sy_ready b) s1)\<lparr>sn_sessions := (sn_sessions s)[k := x']\<rparr>"
    by (simp add: finish_batch_def o upd_session_def ss err_def[symmetric] s1_def[symmetric]) (simp add: x'_def x_def)
  show ?thesis
    by (rule batch_end_inv[OF inv conjunct1[OF w] x_def xb _ c _ _ _ _ t])
      (auto simp: x'_def batch_ready_def)
qed

lemma session_abort_inv:
  assumes inv: "send_inv cfg s" and k: "session_phase_of s k = Session_Writing b"
  shows "send_inv cfg (session_abort k b s)"
proof -
  note w = writing_at[OF k]
  define x where "x = sn_sessions s ! k"
  have c: "counted_sends {} s s" by (simp add: counted_sends_def completes_def)
  have t: "session_abort k b s = (release_reads (sy_ready b) s)\<lparr>sn_sessions := (sn_sessions s)[k := x\<lparr>sx_phase := Session_Over\<rparr>]\<rparr>"
    by (simp add: session_abort_def upd_session_def x_def)
  show ?thesis
    by (rule batch_end_inv[OF inv conjunct1[OF w] x_def _ _ c _ _ _ _ t]) (use w in \<open>simp_all add: x_def batch_ready_def\<close>)
qed

text \<open>A batch starts: the sources whose wait is over and that are still known are read.\<close>

definition wake_pairs :: "session \<Rightarrow> string list \<Rightarrow> (string \<times> nat) list" where
  "wake_pairs x dones = map (\<lambda>d. (d, the (dict_get (sx_pending x) d))) dones"

lemma wake_pairs_sub:
  assumes w: "can_wake s k dones" and x: "x = sn_sessions s ! k"
  shows "set (wake_pairs x dones) \<subseteq> set (sx_pending x)" and "map fst (wake_pairs x dones) = dones"
proof -
  show "map fst (wake_pairs x dones) = dones" by (simp add: wake_pairs_def comp_def)
  show "set (wake_pairs x dones) \<subseteq> set (sx_pending x)"
  proof
    fix p assume "p \<in> set (wake_pairs x dones)"
    then obtain d where d: "d \<in> set dones" "p = (d, the (dict_get (sx_pending x) d))" by (auto simp: wake_pairs_def)
    then have "dict_get (sx_pending x) d \<noteq> None" using w by (auto simp: can_wake_def list_all_iff x split: option.splits)
    then show "p \<in> set (sx_pending x)" using d(2) by (auto dest: dict_get_Some_in)
  qed
qed

lemma pops_in: "(d, i) \<in> set (fold dict_pop ds p) \<longleftrightarrow> d \<notin> set ds \<and> (d, i) \<in> set p"
  by (induction ds arbitrary: p) (auto simp: dict_pop_in)

definition wake_batch :: "transfer_cfg \<Rightarrow> session \<Rightarrow> string list \<Rightarrow> sender \<Rightarrow> send_batch" where
  "wake_batch cfg x dones s =
     (let (s1, ready, expired) = fold (take_done (sx_ranks x)) (wake_pairs x dones) (s, [], [])
      in \<lparr>sy_ready = ready, sy_expired = expired,
          sy_params = build_transfer_params cfg (map (\<lambda>(d, i). (d, sb_local_block_ids (sn_metas s1 ! i))) ready)
             (the (sx_request x)) (sx_regions x),
          sy_status = (if fold dict_pop dones (sx_pending x) = [] then FINISH else CONTINUE)\<rparr>)"

definition wake_session :: "transfer_cfg \<Rightarrow> session \<Rightarrow> string list \<Rightarrow> sender \<Rightarrow> session" where
  "wake_session cfg x dones s =
     x\<lparr>sx_pending := fold dict_pop dones (sx_pending x), sx_phase := Session_Writing (wake_batch cfg x dones s)\<rparr>"

definition wake_start :: "transfer_cfg \<Rightarrow> nat \<Rightarrow> string list \<Rightarrow> sender \<Rightarrow> sender" where
  "wake_start cfg k dones s =
     (let x = sn_sessions s ! k; r = filter (is_live s \<circ> snd) (wake_pairs x dones)
      in (map_metas (snd ` set r) (start_read (sx_ranks x)) s)
           \<lparr>sn_sessions := (sn_sessions s)[k := wake_session cfg x dones s]\<rparr>)"

lemma wake_facts:
  assumes inv: "send_inv cfg s" and w: "can_wake s k dones" and x: "x = sn_sessions s ! k"
  shows "k < length (sn_sessions s)" and "sx_phase x = Session_Waiting" and "session_ok cfg s x"
    and "distinct (map snd (wake_pairs x dones))" and "snd ` set (wake_pairs x dones) \<subseteq> {..<length (sn_metas s)}"
    and "entries x = sx_pending x"
proof -
  show k: "k < length (sn_sessions s)" "sx_phase x = Session_Waiting"
    using w by (auto simp: can_wake_def session_phase_of_def x split: if_splits)
  show ok: "session_ok cfg s x" using inv session_at[OF _ k(1)] by (simp add: send_inv_def x)
  show e: "entries x = sx_pending x" by (simp add: entries_def batch_ready_def k(2))
  note sub = wake_pairs_sub[OF w x]
  have "distinct dones" using w by (simp add: can_wake_def)
  then have "distinct (wake_pairs x dones)" using sub(2) by (metis distinct_map)
  moreover have "inj_on snd (set (sx_pending x))" using entries_distinct[OF ok] by (simp add: e distinct_map)
  ultimately show "distinct (map snd (wake_pairs x dones))" using sub(1) by (auto simp: distinct_map intro: inj_on_subset)
  show "snd ` set (wake_pairs x dones) \<subseteq> {..<length (sn_metas s)}" using sub(1) session_okD(1)[OF ok] by (force simp: e)
qed

lemma wake_batch_eq:
  assumes inv: "send_inv cfg s" and w: "can_wake s k dones" and x: "x = sn_sessions s ! k"
  shows "sy_ready (wake_batch cfg x dones s) = filter (is_live s \<circ> snd) (wake_pairs x dones)"
    and "sy_expired (wake_batch cfg x dones s) = map fst (filter (Not \<circ> is_live s \<circ> snd) (wake_pairs x dones))"
    and "session_wake cfg k dones s =
      (let t = wake_start cfg k dones s; b = wake_batch cfg x dones s
       in if px_copies (sy_params b) = [] then finish_batch k b 0 t else t)"
proof -
  note F = wake_facts[OF inv w x]
  note eq = take_done_eq[OF F(4,5), of "sx_ranks x" "[]" "[]"]
  show "sy_ready (wake_batch cfg x dones s) = filter (is_live s \<circ> snd) (wake_pairs x dones)"
    "sy_expired (wake_batch cfg x dones s) = map fst (filter (Not \<circ> is_live s \<circ> snd) (wake_pairs x dones))"
    by (simp_all add: wake_batch_def eq)
  show "session_wake cfg k dones s = (let t = wake_start cfg k dones s; b = wake_batch cfg x dones s
       in if px_copies (sy_params b) = [] then finish_batch k b 0 t else t)"
    unfolding session_wake_def wake_start_def wake_session_def wake_batch_def Let_def x[symmetric] wake_pairs_def[symmetric] eq prod.case
    by (simp add: upd_session_def x[symmetric])
qed

lemma wake_start_phase:
  assumes "k < length (sn_sessions s)"
  shows "session_phase_of (wake_start cfg k dones s) k = Session_Writing (wake_batch cfg (sn_sessions s ! k) dones s)"
  using assms by (simp add: session_phase_of_def wake_start_def Let_def wake_session_def)

lemma wake_start_inv:
  assumes inv: "send_inv cfg s" and w: "can_wake s k dones"
  shows "send_inv cfg (wake_start cfg k dones s)"
proof -
  define x where "x = sn_sessions s ! k"
  define x' where "x' = wake_session cfg x dones s"
  define r where "r = filter (is_live s \<circ> snd) (wake_pairs x dones)"
  define t where "t = wake_start cfg k dones s"
  note F = wake_facts[OF inv w x_def]
  note B = wake_batch_eq[OF inv w x_def]
  note sub = wake_pairs_sub[OF w x_def]
  have rs: "reqs_ok s" using inv by (simp add: send_inv_def)
  have t': "t = (map_metas (snd ` set r) (start_read (sx_ranks x)) s)\<lparr>sn_sessions := (sn_sessions s)[k := x']\<rparr>"
    by (simp add: t_def wake_start_def Let_def x_def[symmetric] r_def x'_def)
  have x': "sx_request x' = sx_request x" "sx_ranks x' = sx_ranks x" "batch_ready x' = r" "sx_pending x' = fold dict_pop dones (sx_pending x)"
    by (simp_all add: x'_def wake_session_def batch_ready_def B(1) r_def)
  have br: "batch_ready x = []" by (simp add: batch_ready_def F(2))
  have rsub: "set r \<subseteq> set (entries x)" using sub(1) by (auto simp: r_def F(6))
  have len: "length (sn_metas t) = length (sn_metas s)" by (simp add: t')
  have at: "sn_metas t ! i = (if i \<in> snd ` set r then start_read (sx_ranks x) (sn_metas s ! i) else sn_metas s ! i)"
    if "i < length (sn_metas s)" for i using that by (simp add: t')
  have ridx: "i < length (sn_metas s) \<and> asks (sb_transfer_id (sn_metas s ! i)) x" if "i \<in> snd ` set r" for i
    using that session_okD(1)[OF F(3)] rsub transfer_of_asks by fastforce
  have ranks: "sx_ranks x \<noteq> []" if "i \<in> snd ` set r" for i
  proof -
    have "sx_request x \<noteq> None" using ridx[OF that] by (auto simp: asks_def split: option.splits)
    then show ?thesis using F(3) by (auto simp: session_ok_def)
  qed
  have need: "sb_need_send (sn_metas t ! i) \<noteq> 0" if "i \<in> snd ` set r" for i
    using that ridx[OF that] ranks[OF that] at[of i] by (auto simp: start_read_def)
  have esub: "set (entries x') \<subseteq> set (entries x)" using rsub by (auto simp: entries_def x' pops_in br)
  have "distinct (map fst (entries x'))"
  proof -
    have "distinct (map fst (sx_pending x))" using session_okD(3)[OF F(3)] by (simp add: F(6))
    then have "distinct (map fst (fold dict_pop dones (sx_pending x)))" using pd.wf_pops by (simp add: dict_wf_def)
    moreover have "fst ` set r \<subseteq> set dones" using sub(2) by (auto simp: r_def) (metis fst_conv image_eqI set_map)
    moreover have "distinct (map fst r)" using sub(2) w distinct_map_filter[of fst "wake_pairs x dones"] by (simp add: r_def can_wake_def)
    ultimately show ?thesis by (auto simp: entries_def x' pops_in)
  qed
  note dist = this
  have "session_ok cfg t x" using F(3) by (rule session_ok_mono) (auto simp: len at start_read_def)
  then have ok: "session_ok cfg t x'"
  proof (rule session_ok_part[OF _ x'(1,2) esub dist])
    show "sb_need_send (sn_metas t ! i) \<noteq> 0" if e: "(d, i) \<in> set (batch_ready x')" for d i
      by (rule need) (use e in \<open>force simp: x'(3)\<close>)
  qed
  have tot: "sent_total t tid = sent_total s tid" for tid
    unfolding sent_total_def len by (rule sum.cong) (auto simp: at start_read_def)
  have op: "open_for tid x' \<Longrightarrow> open_for tid x" for tid
  proof -
    have "transfer_of x' = transfer_of x" by (intro ext) (simp add: transfer_of_def x'(1))
    then show "open_for tid x' \<Longrightarrow> open_for tid x" using esub by (auto simp: open_for_def list_ex_iff)
  qed
  have same: "sn_reqs_need_send t = sn_reqs_need_send s" "sn_finished t = sn_finished s" by (simp_all add: t')
  have iu: "in_use t i = in_use s i" for i by (simp add: in_use_def same)
  have m: "session_move s k x' t" unfolding session_move_def Let_def x_def[symmetric]
  proof (intro conjI allI impI)
    fix i assume i: "i < length (sn_metas s)"
    show "sb_sending (sn_metas t ! i) = sb_sending (sn_metas s ! i) - of_bool (i \<in> set (map snd (batch_ready x))) +
        of_bool (i \<in> set (map snd (batch_ready x')))" using i by (simp add: at br x'(3) start_read_def)
    show "if sb_need_send (sn_metas s ! i) \<noteq> 0 then sb_need_send (sn_metas t ! i) = sb_need_send (sn_metas s ! i)
      else sb_need_send (sn_metas t ! i) = 0 \<or> sb_need_send (sn_metas t ! i) = int (length (sx_ranks x)) \<and>
        asks (sb_transfer_id (sn_metas s ! i)) x" using i ridx by (simp add: at start_read_def)
    show "sb_sent (sn_metas t ! i) = sb_sent (sn_metas s ! i)" using i by (simp add: at start_read_def)
    show "sb_need_send (sn_metas t ! i) = sb_need_send (sn_metas s ! i)"
      if "i \<notin> set (map snd (batch_ready x)) \<union> set (map snd (batch_ready x'))"
      using that i by (simp add: at br x'(3))
  next
    fix tid
    show "sent_total t tid + of_bool (open_for tid x') \<le> sent_total s tid + of_bool (open_for tid x)"
      using op[of tid] tot[of tid] by simp
  qed (use F(1) len x' in \<open>auto simp: at start_read_def t'\<close>)
  have "send_inv cfg t"
  proof (rule session_move_inv[OF inv m ok])
    show "reqs_ok t"
      by (rule reqs_okI) (use rs reqs_okD[OF rs] len in \<open>auto simp: t' reqs_ok_def start_read_def\<close>)
    show "in_use s i" if u: "i \<in> set (map snd (batch_ready x'))" for i
      using u in_use_live[OF rs] by (auto simp: x'(3) r_def)
  qed (simp_all add: iu same)
  then show ?thesis by (simp add: t_def)
qed

lemma session_wake_inv:
  assumes inv: "send_inv cfg s" and w: "can_wake s k dones"
  shows "send_inv cfg (session_wake cfg k dones s)"
proof -
  note F = wake_facts[OF inv w refl]
  have i: "send_inv cfg (wake_start cfg k dones s)" by (rule wake_start_inv[OF inv w])
  show ?thesis unfolding wake_batch_eq(3)[OF inv w refl] Let_def
    using i finish_batch_inv[OF i wake_start_phase[OF F(1)]] by simp
qed

text \<open>A consumer connects.\<close>

definition pending_ok :: "KVTransferRequest \<Rightarrow> (string, nat) dict \<Rightarrow> sender \<Rightarrow> bool" where
  "pending_ok req pending s \<longleftrightarrow> dict_wf pending \<and> (\<forall>(d, i) \<in> set pending. i < length (sn_metas s) \<and>
     (\<exists>b. (d, sb_transfer_id (sn_metas s ! i), b) \<in> set (xr_req_blocks req)))"

lemma add_pending_inv:
  assumes inv: "send_inv cfg s" and r: "(d, tid, b) \<in> set (xr_req_blocks req)" and p: "pending_ok req pending s"
    and a: "add_pending (d, tid, b) (pending, s) = (pending', t)"
  shows "send_inv cfg t" and "pending_ok req pending' t" and "sn_sessions t = sn_sessions s"
proof -
  obtain i where d: "default_meta [] tid s = (i, t)" "pending' = dict_set d i pending"
    using a by (auto simp: add_pending_def split: prod.splits)
  have rs: "reqs_ok s" using inv by (simp add: send_inv_def)
  note D = default_meta_core[OF rs d(1)]
  show ses: "sn_sessions t = sn_sessions s" using D(1) by (simp add: core_step_def)
  have keep: "in_use t j" if u: "in_use s j" for j
  proof -
    obtain r where g: "dict_get (sn_reqs_need_send s) r = Some j" using u in_use_get[OF rs] by blast
    have "dict_get (sn_reqs_need_send t) r = Some j"
      using g d(1) by (auto simp: default_meta_def dict_simps split: option.splits)
    then show ?thesis using in_use_get[OF D(2)] by blast
  qed
  show "send_inv cfg t"
  proof (rule quiet_inv[OF inv D(1)])
    show out: "outside_eq s t" using D(8,9) by (auto simp: outside_eq_def)
    show "reqs_ok t" by (rule D(2))
    have "fence_ok s" using inv by (simp add: send_inv_def)
    then show "fence_ok t" using D(1) out
      by (auto simp: fence_ok_def D(6) core_step_def outside_eq_def split: option.splits)
    show "in_use t j" if j: "length (sn_metas s) \<le> j" "j < length (sn_metas t)" for j
    proof -
      have "j = i" using d(1) j by (auto simp: default_meta_def split: option.splits)
      then show ?thesis using D(2,4) in_use_live by blast
    qed
    show "sb_sending (sn_metas t ! j) = 0 \<or> (\<exists>rid rest. sn_fence t = Some (rid, j, rest))"
      if "in_use s j" "\<not> in_use t j" for j using keep that by blast
  qed (simp_all add: D(5,6))
  have len: "length (sn_metas s) \<le> length (sn_metas t)" using D(1) by (simp add: core_step_def)
  have wf: "dict_wf pending" using p by (simp add: pending_ok_def)
  have "j < length (sn_metas t) \<and> (\<exists>b. (e, sb_transfer_id (sn_metas t ! j), b) \<in> set (xr_req_blocks req))"
    if e: "(e, j) \<in> set pending'" for e j
  proof (cases "e = d")
    case True
    then show ?thesis using e r D(3,10) by (auto simp: d(2) dict_set_in[OF wf])
  next
    case False
    then have "(e, j) \<in> set pending" using e by (simp add: d(2) dict_set_in[OF wf])
    then have "j < length (sn_metas s) \<and> (\<exists>b. (e, sb_transfer_id (sn_metas s ! j), b) \<in> set (xr_req_blocks req))"
      using p by (auto simp: pending_ok_def)
    then show ?thesis using D(8)[of j] len by simp
  qed
  then show "pending_ok req pending' t" using wf pd.wf_put by (auto simp: pending_ok_def d(2))
qed

lemma add_pendings_inv:
  assumes "send_inv cfg s" and "set blocks \<subseteq> set (xr_req_blocks req)" and "pending_ok req pending s"
    and "fold add_pending blocks (pending, s) = (pending', t)"
  shows "send_inv cfg t \<and> pending_ok req pending' t \<and> sn_sessions t = sn_sessions s"
  using assms
proof (induction blocks arbitrary: pending s)
  case (Cons rtb blocks)
  obtain d tid b where rtb: "rtb = (d, tid, b)" by (cases rtb) auto
  obtain p1 s1 where 1: "add_pending (d, tid, b) (pending, s) = (p1, s1)" by (cases "add_pending (d, tid, b) (pending, s)") auto
  have "(d, tid, b) \<in> set (xr_req_blocks req)" using Cons.prems(2) by (simp add: rtb)
  note S = add_pending_inv[OF Cons.prems(1) this Cons.prems(3) 1]
  have "send_inv cfg t \<and> pending_ok req pending' t \<and> sn_sessions t = sn_sessions s1"
    by (rule Cons.IH[OF S(1) _ S(2)]) (use Cons.prems(2,4) in \<open>simp_all add: rtb 1\<close>)
  then show ?case by (simp add: S(3))
qed simp

lemma session_append_inv:
  assumes inv: "send_inv cfg s" and ok: "session_ok cfg s x" and b: "batch_ready x = []"
    and fresh: "case sx_request x of None \<Rightarrow> True | Some req \<Rightarrow> fresh_request req s"
    and t: "t = s\<lparr>sn_sessions := sn_sessions s @ [x]\<rparr>"
  shows "send_inv cfg t"
proof -
  have I: "list_all (session_ok cfg s) (sn_sessions s)" "counts_ok s" "metas_ok s" "asked_ok s" "reqs_ok s" "gone_ok s" "fence_ok s" "done_ok s"
    using inv by (simp_all add: send_inv_def)
  have ses: "sn_sessions t = sn_sessions s @ [x]" and mt: "sn_metas t = sn_metas s" and rq: "sn_reqs_need_send t = sn_reqs_need_send s"
    and fe: "sn_fence t = sn_fence s" and fi: "sn_finished t = sn_finished s" by (simp_all add: t)
  have iu: "in_use t i = in_use s i" for i by (simp add: in_use_def rq)
  have mono: "session_ok cfg t y" if "session_ok cfg s y" for y using that by (rule session_ok_mono) (simp add: mt)
  have rc: "reader_count t i = reader_count s i" for i by (simp add: reader_count_def ses b)
  have ask: "asked t tid = asked s tid @ (if asks tid x then [x] else [])" for tid by (simp add: asked_def ses)
  have "list_all (session_ok cfg t) (sn_sessions t)" using I(1) ok mono by (auto simp: ses list_all_iff)
  moreover have "counts_ok t" unfolding counts_ok_def
  proof
    fix tid
    have "sent_total t tid = sent_total s tid" unfolding sent_total_def mt ..
    then show "sent_total t tid + int (length (filter (open_for tid) (sn_sessions t))) \<le> int (length (asked t tid))"
      using I(2) open_asks[of tid x] unfolding counts_ok_def ses ask by (auto dest!: spec[of _ tid])
  qed
  moreover have "metas_ok t" using I(3) unfolding metas_ok_def mt rc ses by auto
  moreover have "asked_ok t" unfolding asked_ok_def
  proof (intro allI)
    fix tid
    show "distinct (map (\<lambda>x. xr_remote_tp_rank (the (sx_request x))) (asked t tid)) \<and>
      (\<forall>x \<in> set (asked t tid). \<forall>y \<in> set (asked t tid).
        xr_remote_tp_size (the (sx_request x)) = xr_remote_tp_size (the (sx_request y)))"
    proof (cases "asks tid x")
      case True
      then obtain req where req: "sx_request x = Some req" "tid \<in> set (transfers_of req)" by (auto simp: asks_def split: option.splits)
      have fr: "list_all (\<lambda>x. case sx_request x of None \<Rightarrow> True
       | Some old \<Rightarrow> set (transfers_of old) \<inter> set (transfers_of req) = {} \<or>
           (xr_remote_tp_size old = xr_remote_tp_size req \<and> xr_remote_tp_rank old \<noteq> xr_remote_tp_rank req)) (sn_sessions s)"
        using fresh req(1) by (simp add: fresh_request_def)
      have other: "xr_remote_tp_size (the (sx_request y)) = xr_remote_tp_size req \<and> xr_remote_tp_rank (the (sx_request y)) \<noteq> xr_remote_tp_rank req"
        if y: "y \<in> set (asked s tid)" for y
      proof -
        obtain old where old: "sx_request y = Some old" "tid \<in> set (transfers_of old)" "y \<in> set (sn_sessions s)"
          using y by (auto simp: asked_def asks_def split: option.splits)
        then show ?thesis using fr req(2) by (auto simp: list_all_iff dest!: bspec[of _ _ y])
      qed
      have d: "distinct (map (\<lambda>x. xr_remote_tp_rank (the (sx_request x))) (asked s tid))" using I(4) by (simp add: asked_ok_def)
      have same: "\<forall>y \<in> set (asked t tid). xr_remote_tp_size (the (sx_request y)) = xr_remote_tp_size req"
      proof
        fix y assume y: "y \<in> set (asked t tid)"
        show "xr_remote_tp_size (the (sx_request y)) = xr_remote_tp_size req"
        proof (cases "y \<in> set (asked s tid)")
          case False
          then have "y = x" using y ask[of tid] True by simp
          then show ?thesis by (simp add: req(1))
        next
          case True
          then show ?thesis by (rule conjunct1[OF other])
        qed
      qed
      have "xr_remote_tp_rank req \<notin> (\<lambda>x. xr_remote_tp_rank (the (sx_request x))) ` set (asked s tid)"
      proof
        assume "xr_remote_tp_rank req \<in> (\<lambda>x. xr_remote_tp_rank (the (sx_request x))) ` set (asked s tid)"
        then obtain y where "y \<in> set (asked s tid)" "xr_remote_tp_rank req = xr_remote_tp_rank (the (sx_request y))" by blast
        then show False using other[of y] by simp
      qed
      then have "distinct (map (\<lambda>x. xr_remote_tp_rank (the (sx_request x))) (asked t tid))"
        using d ask[of tid] True req(1) by simp
      moreover have "xr_remote_tp_size (the (sx_request y)) = xr_remote_tp_size (the (sx_request z))"
        if yz: "y \<in> set (asked t tid)" "z \<in> set (asked t tid)" for y z
        using bspec[OF same yz(1)] bspec[OF same yz(2)] by (rule trans[OF _ sym])
      ultimately show ?thesis by blast
    next
      case False
      then have same: "asked t tid = asked s tid" by (simp add: ask)
      show ?thesis using I(4) unfolding asked_ok_def same by blast
    qed
  qed
  moreover have "reqs_ok t" using I(5) unfolding reqs_ok_def mt rq .
  moreover have "gone_ok t" using I(6) unfolding gone_ok_def mt iu fe .
  moreover have "fence_ok t" using I(7) unfolding fence_ok_def mt iu fe .
  moreover have "done_ok t" using I(8) unfolding done_ok_def mt iu fi .
  ultimately show ?thesis by (simp add: send_inv_def)
qed

lemma fresh_request_sessions: "sn_sessions t = sn_sessions s \<Longrightarrow> fresh_request req t = fresh_request req s"
  by (simp add: fresh_request_def)

lemma open_session_inv:
  assumes inv: "send_inv cfg s" and legal: "send_legal (Act_Serve payload) s"
  shows "send_inv cfg (open_session cfg payload s)"
proof -
  define err where "err = (\<lambda>e. \<lparr>sx_request = None, sx_ranks = [], sx_regions = [], sx_pending = [],
            sx_phase = Session_Over, sx_out = [plain_response ERROR None (exc_text e)]\<rparr>)"
  have e: "send_inv cfg (s\<lparr>sn_sessions := sn_sessions s @ [err e]\<rparr>)" for e
    by (rule session_append_inv[OF inv, of "err e"]) (simp_all add: err_def session_ok_def entries_def batch_ready_def)
  show ?thesis
  proof (cases payload)
    case (Inl x)
    then show ?thesis using e[of x] by (simp add: open_session_def err_def)
  next
    case (Inr req)
    show ?thesis
    proof (cases "validate_request cfg req")
      case (Inl x)
      then show ?thesis using e[of x] Inr by (simp add: open_session_def err_def)
    next
      case v: (Inr rr)
      obtain ranks regions where rr: "rr = (ranks, regions)" by (cases rr)
      obtain pending s1 where p: "fold add_pending (xr_req_blocks req) ([], s) = (pending, s1)"
        by (cases "fold add_pending (xr_req_blocks req) ([], s)") auto
      have "pending_ok req [] s" by (simp add: pending_ok_def pd.wf_empty)
      from add_pendings_inv[OF inv _ this p]
      have P: "send_inv cfg s1" "pending_ok req pending s1" "sn_sessions s1 = sn_sessions s" by simp_all
      have rk: "to_targets (kt_topo cfg) (xr_remote_tp_size req) = Inr ranks" "xr_remote_tp_rank req \<in> set ranks"
        using v by (auto simp: validate_request_def rr map_sum_def split: sum.splits if_splits)
      have fr: "fresh_request req s1" using legal Inr fresh_request_sessions[OF P(3)] by simp
      define x where "x = \<lparr>sx_request = Some req, sx_ranks = ranks, sx_regions = regions,
                sx_pending = pending, sx_phase = (if pending = [] then Session_Over else Session_Waiting), sx_out = []\<rparr>"
      have br: "batch_ready x = []" by (simp add: x_def batch_ready_def)
      have T: "transfer_of x d = Some (sb_transfer_id (sn_metas s1 ! i)) \<and> i < length (sn_metas s1)" if d: "(d, i) \<in> set pending" for d i
      proof -
        obtain b where b: "(d, sb_transfer_id (sn_metas s1 ! i), b) \<in> set (xr_req_blocks req)" and i: "i < length (sn_metas s1)"
          using P(2) d by (auto simp: pending_ok_def)
        have "dict_wf (xr_req_blocks req)" using fr by (simp add: fresh_request_def)
        from dict_in_get[OF this b] show ?thesis using i by (simp add: transfer_of_def x_def)
      qed
      have "distinct (map fst pending)" using P(2) by (simp add: pending_ok_def dict_wf_def)
      moreover have "sx_pending x = pending" "sx_request x = Some req" "sx_ranks x = ranks" by (simp_all add: x_def)
      ultimately have "session_ok cfg s1 x" using T fr rk
        by (auto simp: session_ok_def entries_def br fresh_request_def)
      then have "send_inv cfg (s1\<lparr>sn_sessions := sn_sessions s1 @ [x]\<rparr>)"
        by (rule session_append_inv[OF P(1) _ br]) (use fr in \<open>simp_all add: x_def\<close>)
      then show ?thesis by (simp add: open_session_def Inr v rr p x_def)
    qed
  qed
qed

theorem send_step_inv:
  assumes inv: "send_inv cfg s" and legal: "send_legal a s" and step: "send_step cfg timeout a s = Some t"
  shows "send_inv cfg t"
proof (cases a)
  case (Act_Prepare rid tid)
  then have "t = (let (i, s1) = prepare_send rid tid s in upd_meta i id s1)" "sn_fence s = None"
    using step by (auto simp: upd_meta_def split: if_splits prod.splits)
  then show ?thesis by (intro prepare_publish_inv[OF inv, of id]) (simp_all add: core_eq_def)
next
  case (Act_Send now ev)
  then have "t = publish_send timeout now ev s" "sn_fence s = None" using step by (auto split: if_splits)
  then show ?thesis unfolding publish_send_def
    by (intro prepare_publish_inv[OF inv, of "\<lambda>m. m\<lparr>sb_local_block_ids := sd_block_ids ev, sb_expire_time := Some (now + timeout), sb_ready := True\<rparr>"])
      (simp_all add: core_eq_def)
next
  case (Act_Poll_Sends now)
  then show ?thesis using step poll_sends_inv[OF inv] by (auto split: if_splits)
next
  case (Act_Cancel rid tid)
  then show ?thesis using step cancel_sends_inv[OF inv] by (auto simp: cancel_send_def simp del: cancel_sends.simps split: if_splits)
next
  case (Act_Preempt rid)
  then show ?thesis using step cancel_sends_inv[OF inv] by (auto simp: preempt_send_def simp del: cancel_sends.simps split: if_splits)
next
  case Act_Fence_End
  then obtain rid i rest where f: "sn_fence s = Some (rid, i, rest)" "sb_sending (sn_metas s ! i) = 0" "t = fence_step s"
    using step by (auto split: option.splits if_splits)
  then show ?thesis using fence_step_inv[OF inv] by simp
next
  case Act_Abort
  then show ?thesis using legal by simp
next
  case (Act_Serve payload)
  then show ?thesis using step legal open_session_inv[OF inv] by auto
next
  case (Act_Wake k dones)
  then show ?thesis using step session_wake_inv[OF inv] by (auto split: if_splits)
next
  case (Act_Written k ret)
  then show ?thesis using step finish_batch_inv[OF inv] by (auto split: session_phase.splits)
next
  case (Act_Write_Raises k)
  then show ?thesis using step session_abort_inv[OF inv] by (auto split: session_phase.splits)
next
  case (Act_Timeout k)
  then show ?thesis using step session_timeout_inv[OF inv] by (auto split: if_splits)
qed

theorem send_run_inv: "send_run cfg timeout s \<Longrightarrow> send_inv cfg s"
  by (induction rule: send_run.induct) (auto intro: send_inv_init send_step_inv)

section \<open>Sources that are gone\<close>

text \<open>From \<open>s\<close> on, no source known in \<open>s\<close> enters \<open>reqs_need_send\<close>, and only one that is in it
  comes under a fence.\<close>

definition moves_on :: "sender \<Rightarrow> sender \<Rightarrow> bool" where
  "moves_on s t \<longleftrightarrow> length (sn_metas s) \<le> length (sn_metas t) \<and>
     (\<forall>tid i. i < length (sn_metas s) \<longrightarrow> dict_get (sn_reqs_need_send t) tid = Some i \<longrightarrow> dict_get (sn_reqs_need_send s) tid = Some i) \<and>
     (\<forall>rid i rest. sn_fence t = Some (rid, i, rest) \<longrightarrow> i < length (sn_metas s) \<longrightarrow>
        (\<exists>tid. dict_get (sn_reqs_need_send s) tid = Some i) \<or> (\<exists>rid rest. sn_fence s = Some (rid, i, rest)))"

lemma moves_on_refl: "moves_on s s"
  by (auto simp: moves_on_def)

lemma moves_on_trans:
  assumes "moves_on s t" and "moves_on t u"
  shows "moves_on s u"
  unfolding moves_on_def
proof (intro conjI allI impI)
  have l: "length (sn_metas s) \<le> length (sn_metas t)" using assms(1) by (simp add: moves_on_def)
  show "length (sn_metas s) \<le> length (sn_metas u)" using assms by (simp add: moves_on_def)
  show g: "dict_get (sn_reqs_need_send s) tid = Some i"
    if "i < length (sn_metas s)" "dict_get (sn_reqs_need_send u) tid = Some i" for tid i
    using that l assms unfolding moves_on_def by (meson order_less_le_trans)
  show "(\<exists>tid. dict_get (sn_reqs_need_send s) tid = Some i) \<or> (\<exists>rid rest. sn_fence s = Some (rid, i, rest))"
    if f: "sn_fence u = Some (rid, i, rest)" and i: "i < length (sn_metas s)" for rid i rest
  proof -
    have "i < length (sn_metas t)" using i l by simp
    then have "(\<exists>tid. dict_get (sn_reqs_need_send t) tid = Some i) \<or> (\<exists>rid rest. sn_fence t = Some (rid, i, rest))"
      using assms(2) f unfolding moves_on_def by blast
    then show ?thesis using assms(1) i unfolding moves_on_def by blast
  qed
qed

lemma moves_onI:
  assumes "length (sn_metas s) \<le> length (sn_metas t)" and "sn_fence t = sn_fence s"
    and "\<And>tid i. i < length (sn_metas s) \<Longrightarrow> dict_get (sn_reqs_need_send t) tid = Some i \<Longrightarrow> dict_get (sn_reqs_need_send s) tid = Some i"
  shows "moves_on s t"
  using assms by (auto simp: moves_on_def)

lemma upd_meta_keeps [simp]:
  "length (sn_metas (upd_meta i f s)) = length (sn_metas s)" "sn_reqs_need_send (upd_meta i f s) = sn_reqs_need_send s"
  "sn_fence (upd_meta i f s) = sn_fence s" "sn_finished (upd_meta i f s) = sn_finished s" "sn_sessions (upd_meta i f s) = sn_sessions s"
  by (simp_all add: upd_meta_def)

lemma moves_on_default: "default_meta p tid s = (i, t) \<Longrightarrow> moves_on s t"
  by (rule moves_onI) (auto simp: default_meta_def dict_simps split: option.splits if_splits)

lemma moves_on_prepare: "moves_on s (snd (prepare_send rid tid s))" and moves_on_publish: "moves_on s (publish_send timeout now ev s)"
proof -
  have 1: "moves_on s (snd (prepare_send rid tid s)) " for rid tid
    using moves_on_default[of rid tid s] by (auto simp: prepare_send_def moves_on_def split: prod.splits)
  then show "moves_on s (snd (prepare_send rid tid s))" .
  show "moves_on s (publish_send timeout now ev s)"
    using 1[of "sd_request_id ev" "sd_transfer_id ev"] by (auto simp: publish_send_def moves_on_def split: prod.splits)
qed

lemma moves_on_add_pendings: "fold add_pending blocks (p, s) = (p', t) \<Longrightarrow> moves_on s t"
proof (induction blocks arbitrary: p s)
  case (Cons b blocks)
  obtain p1 s1 where 1: "add_pending b (p, s) = (p1, s1)" by (cases "add_pending b (p, s)") auto
  have "moves_on s s1" using 1 by (auto simp: add_pending_def split: prod.splits intro: moves_on_default)
  moreover have "moves_on s1 t" by (rule Cons.IH) (use Cons.prems 1 in simp)
  ultimately show ?case by (rule moves_on_trans)
qed (simp add: moves_on_refl)

lemma moves_on_cancel: "moves_on s (cancel_sends rid tids s)"
proof (induction rid tids s rule: cancel_sends.induct)
  case (1 rid s)
  show ?case by (simp add: moves_on_def)
next
  case (2 rid tid rest s)
  show ?case
  proof (cases "dict_get (sn_reqs_need_send s) tid")
    case None
    have "moves_on s (discard_finished rid s)" by (rule moves_onI) (simp_all add: discard_finished_def)
    from moves_on_trans[OF this 2[OF None]] show ?thesis using None by simp
  next
    case (Some i)
    then show ?thesis by (auto simp: moves_on_def dict_simps split: if_splits)
  qed
qed

lemma count_sent_keeps: "sn_fence (count_sent err di s) = sn_fence s" "length (sn_metas (count_sent err di s)) = length (sn_metas s)"
  "dict_get (sn_reqs_need_send (count_sent err di s)) tid = Some i \<Longrightarrow> dict_get (sn_reqs_need_send s) tid = Some i"
  by (auto simp: count_sent_def Let_def dict_simps split: prod.splits if_splits)

lemma moves_on_count: "moves_on s (fold (count_sent err) dis s)"
proof (induction dis arbitrary: s)
  case (Cons di dis)
  have "moves_on s (count_sent err di s)" 
    by (rule moves_onI[OF _ _ count_sent_keeps(3)]) (simp_all add: count_sent_keeps(1,2))
  from moves_on_trans[OF this Cons.IH] show ?case by simp
qed (simp add: moves_on_refl)

lemma release_reads_length [simp]: "length (sn_metas (release_reads r s)) = length (sn_metas s)"
  by (induction r arbitrary: s) (auto simp: release_reads_def)

lemma moves_on_finish: "moves_on s (finish_batch k b ret s)"
proof -
  obtain ok e msg where o: "batch_outcome b ret = (ok, e, msg)" by (cases "batch_outcome b ret") auto
  define u where "u = fold (count_sent (set e)) (sy_ready b) s"
  have "moves_on s u" unfolding u_def by (rule moves_on_count)
  moreover have "moves_on u (finish_batch k b ret s)"
    unfolding finish_batch_def o Let_def prod.case u_def[symmetric] by (rule moves_onI) simp_all
  ultimately show ?thesis by (rule moves_on_trans)
qed

lemma take_done_keeps:
  assumes "fold (take_done ranks) dis (s, r, e) = (t, r', e')"
  shows "sn_reqs_need_send t = sn_reqs_need_send s \<and> sn_fence t = sn_fence s \<and> length (sn_metas t) = length (sn_metas s)"
  using assms
proof (induction dis arbitrary: s r e)
  case (Cons di dis)
  obtain s1 r1 e1 where 1: "take_done ranks di (s, r, e) = (s1, r1, e1)" by (cases "take_done ranks di (s, r, e)") auto
  have "sn_reqs_need_send s1 = sn_reqs_need_send s \<and> sn_fence s1 = sn_fence s \<and> length (sn_metas s1) = length (sn_metas s)"
    using 1 by (auto simp: take_done_def split: prod.splits if_splits)
  then show ?case using Cons.IH[of s1 r1 e1] Cons.prems 1 by simp
qed simp

lemma moves_on_wake: "moves_on s (session_wake cfg k dones s)"
proof -
  define x where "x = sn_sessions s ! k"
  obtain s1 ready expired where t: "fold (take_done (sx_ranks x)) (map (\<lambda>d. (d, the (dict_get (sx_pending x) d))) dones) (s, [], []) = (s1, ready, expired)"
    using prod_cases3 by blast
  note K = take_done_keeps[OF t]
  have up: "moves_on s (upd_session k f s1)" for f by (rule moves_onI) (use K in simp_all)
  show ?thesis unfolding session_wake_def Let_def x_def[symmetric] t prod.case
    using up moves_on_trans[OF up moves_on_finish] by simp
qed

theorem send_step_moves:
  assumes "send_legal a s" and "send_step cfg timeout a s = Some t"
  shows "moves_on s t"
proof (cases a)
  case (Act_Prepare rid tid)
  then show ?thesis using assms moves_on_prepare by (auto split: if_splits)
next
  case (Act_Send now ev)
  then show ?thesis using assms moves_on_publish by (auto split: if_splits)
next
  case (Act_Poll_Sends now)
  then show ?thesis using assms
    by (auto simp: fetch_finished_sending_reqs_def Let_def dict_simps intro!: moves_onI split: if_splits)
next
  case (Act_Cancel rid tid)
  then show ?thesis using assms moves_on_cancel by (auto simp: cancel_send_def simp del: cancel_sends.simps split: if_splits)
next
  case (Act_Preempt rid)
  then show ?thesis using assms moves_on_cancel by (auto simp: preempt_send_def simp del: cancel_sends.simps split: if_splits)
next
  case Act_Fence_End
  then obtain rid i rest where f: "sn_fence s = Some (rid, i, rest)" "sb_sending (sn_metas s ! i) = 0" "t = fence_step s"
    using assms by (auto split: option.splits if_splits)
  have "moves_on s (discard_finished rid s)" by (rule moves_onI) (simp_all add: discard_finished_def)
  from moves_on_trans[OF this moves_on_cancel] show ?thesis using f by (simp add: fence_step_def)
next
  case (Act_Serve payload)
  then have t: "t = open_session cfg payload s" using assms by simp
  have add: "moves_on s u \<Longrightarrow> moves_on s (u\<lparr>sn_sessions := xs\<rparr>)" for u xs by (simp add: moves_on_def)
  show ?thesis unfolding t open_session_def Let_def
    by (auto split: sum.split prod.split intro: add moves_on_refl moves_on_add_pendings)
next
  case (Act_Wake k dones)
  then show ?thesis using assms moves_on_wake by (auto split: if_splits)
next
  case (Act_Written k ret)
  then show ?thesis using assms moves_on_finish by (auto split: session_phase.splits)
next
  case (Act_Write_Raises k)
  then show ?thesis using assms by (auto simp: session_abort_def intro!: moves_onI split: session_phase.splits)
next
  case (Act_Timeout k)
  then show ?thesis using assms by (auto simp: session_timeout_def intro!: moves_onI split: if_splits)
qed (use assms in simp)

lemma send_exec_moves: "send_exec cfg timeout as s = Some t \<Longrightarrow> moves_on s t"
proof (induction as arbitrary: s)
  case (Cons a as)
  then obtain s1 where "send_legal a s" "send_step cfg timeout a s = Some s1" "send_exec cfg timeout as s1 = Some t"
    by (auto split: if_splits option.splits)
  then show ?case using send_step_moves Cons.IH moves_on_trans by blast
qed (simp add: moves_on_refl)

lemma unread_if_gone:
  assumes "send_inv cfg s" and "i < length (sn_metas s)" and "\<not> in_use s i"
    and "case sn_fence s of None \<Rightarrow> True | Some (_, j, _) \<Rightarrow> j \<noteq> i"
  shows "\<not> reads s i"
proof -
  have "sb_sending (sn_metas s ! i) = 0" using assms unfolding send_inv_def gone_ok_def by (auto split: option.splits)
  then have "reader_count s i = 0" using assms(1,2) by (simp add: send_inv_def metas_ok_def)
  then show ?thesis by (simp add: reader_count_0)
qed


section \<open>A producer and its consumer\<close>

definition es_cfg :: transfer_cfg where
  "es_cfg = \<lparr>kt_tp_rank = 0, kt_tp_size = 1, kt_topo = npu_topo \<lparr>nt_tp_rank = 0, nt_tp_size = 1, nt_block_size = 16,
     nt_is_mla = False, nt_total_num_kv_heads = 2\<rparr>, kt_num_blocks = 8, kt_base_addr = [4096], kt_block_len = [64],
     kt_is_npu = True, kt_layout = ''HND''\<rparr>"

definition es_request :: KVTransferRequest where
  "es_request = \<lparr>xr_remote_hostname = ''d'', xr_remote_port = 7000, xr_remote_tp_size = 1, xr_remote_tp_rank = 0,
     xr_req_blocks = [(''d1'', (''t1'', [[3, 4]])), (''d2'', (''t2'', [[5]]))], xr_kv_caches_base_addr = [8192], xr_block_lens = [64]\<rparr>"

definition es_event :: "string \<Rightarrow> string \<Rightarrow> int list \<Rightarrow> SendEvent" where
  "es_event rid tid blocks = \<lparr>sd_request_id = rid, sd_transfer_id = tid, sd_block_ids = [blocks]\<rparr>"

text \<open>The consumer asks for two transfers, of which the first is published and being written.\<close>

definition es_writing :: "send_act list" where
  "es_writing = [Act_Serve (Inr es_request), Act_Send 5 (es_event ''p1'' ''t1'' [1, 2]), Act_Wake 0 [''d1'']]"

definition es_state :: "send_act list \<Rightarrow> sender" where
  "es_state as = the (send_exec es_cfg 60 as new_sender)"

lemma es_run: "send_exec es_cfg 60 as new_sender \<noteq> None \<Longrightarrow> send_run es_cfg 60 (es_state as)"
  using send_exec_run[OF send_init, of es_cfg 60 as] by (auto simp: es_state_def)


section \<open>Results and fences\<close>

text \<open>
  A result for a send is final. When the worker polls, every request it gets names a source that
  has left \<open>reqs_need_send\<close> and that no batch reads, now or after the poll; one without an error
  was sent to every consumer rank that its transfer needs, one with an error had waited past its
  deadline.
\<close>

theorem send_result_final:
  assumes "send_run cfg timeout s" and "sn_fence s = None" and "fetch_finished_sending_reqs now s = (results, t)"
    and "r \<in> set results"
  shows "\<exists>i < length (sn_metas s). sb_p_req_id (sn_metas s ! i) = tf_request_id r \<and> \<not> in_use t i \<and> \<not> reads t i \<and>
    (case tf_error r of
       None \<Rightarrow> 0 < sb_sent (sn_metas s ! i) \<and> sb_sent (sn_metas s ! i) = sb_need_send (sn_metas s ! i)
     | Some _ \<Rightarrow> in_use s i \<and> (case sb_expire_time (sn_metas s ! i) of None \<Rightarrow> False | Some deadline \<Rightarrow> deadline < now))"
proof -
  have inv: "send_inv cfg s" by (rule send_run_inv[OF assms(1)])
  have t: "t = snd (fetch_finished_sending_reqs now s)" using assms(3) by simp
  have invt: "send_inv cfg t" by (rule poll_sends_inv[OF inv assms(2) t])
  have rs: "reqs_ok s" "reqs_ok t" using inv invt by (simp_all add: send_inv_def)
  define late where "late = filter (expired_send now s) (sn_reqs_need_send s)"
  have eq: "t = s\<lparr>sn_finished := [], sn_reqs_need_send := fold dict_pop (map fst late) (sn_reqs_need_send s)\<rparr>"
    "results = map (\<lambda>rid. \<lparr>tf_request_id = rid, tf_error = None\<rparr>) (sn_finished s) @
       map (\<lambda>(_, i). \<lparr>tf_request_id = sb_p_req_id (sn_metas s ! i), tf_error = Some ''Transfer timed out''\<rparr>) late"
    using assms(3) by (simp_all add: fetch_finished_sending_reqs_def Let_def late_def)
  have unread: "\<not> reads t i" if "i < length (sn_metas s)" "\<not> in_use t i" for i
    by (rule unread_if_gone[OF invt]) (use that assms(2) in \<open>simp_all add: eq(1)\<close>)
  have gone: "in_use t i \<Longrightarrow> in_use s i" for i
    by (rule in_use_less[OF rs]) (auto simp: eq(1) dict_simps split: if_splits)
  consider (sent) "tf_error r = None" "tf_request_id r \<in> set (sn_finished s)"
    | (late) tid i where "(tid, i) \<in> set late" "tf_error r = Some ''Transfer timed out''" "tf_request_id r = sb_p_req_id (sn_metas s ! i)"
    using assms(4) by (auto simp: eq(2))
  then show ?thesis
  proof cases
    case sent
    then obtain i where "i < length (sn_metas s)" "\<not> in_use s i" "sb_p_req_id (sn_metas s ! i) = tf_request_id r"
      "sb_sent (sn_metas s ! i) = sb_need_send (sn_metas s ! i)" "0 < sb_sent (sn_metas s ! i)"
      using inv unfolding send_inv_def done_ok_def by blast
    then show ?thesis using gone unread sent(1) by (intro exI[of _ i]) auto
  next
    case late: late
    have m: "(tid, i) \<in> set (sn_reqs_need_send s)" "expired_send now s (tid, i)" using late(1) by (auto simp: late_def)
    have i: "i < length (sn_metas s)" "sb_transfer_id (sn_metas s ! i) = tid" "in_use s i"
      using m(1) rs(1) by (auto simp: reqs_ok_def in_use_def rev_image_eqI)
    have "\<not> in_use t i"
    proof
      assume "in_use t i"
      then obtain x where x: "dict_get (sn_reqs_need_send t) x = Some i" using in_use_get[OF rs(2)] by blast
      then have "x = tid" using reqs_okD[OF rs(2) x] i(2) by (simp add: eq(1))
      moreover have "tid \<in> fst ` set late" using late(1) by (rule rev_image_eqI) simp
      ultimately show False using x by (simp add: eq(1) dict_simps)
    qed
    then show ?thesis using i late(2,3) m(2) unread by (intro exI[of _ i]) (simp add: expired_send_def Let_def)
  qed
qed

lemma send_result_final_witness:
  "snd (fetch_finished_sending_reqs 9 (es_state (es_writing @ [Act_Written 0 0]))) = es_state (es_writing @ [Act_Written 0 0, Act_Poll_Sends 9]) \<and>
   (\<exists>i < 2. sb_p_req_id (sn_metas (es_state (es_writing @ [Act_Written 0 0])) ! i) = ''p1'' \<and>
     \<not> reads (es_state (es_writing @ [Act_Written 0 0, Act_Poll_Sends 9])) i)"
proof -
  have run: "send_run es_cfg 60 (es_state (es_writing @ [Act_Written 0 0]))" by (rule es_run) code_simp
  have f: "fetch_finished_sending_reqs 9 (es_state (es_writing @ [Act_Written 0 0])) =
      ([\<lparr>tf_request_id = ''p1'', tf_error = None\<rparr>], es_state (es_writing @ [Act_Written 0 0, Act_Poll_Sends 9]))" by code_simp
  have l: "length (sn_metas (es_state (es_writing @ [Act_Written 0 0]))) = 2" "sn_fence (es_state (es_writing @ [Act_Written 0 0])) = None"
    by code_simp+
  from send_result_final[OF run l(2) f, of "\<lparr>tf_request_id = ''p1'', tf_error = None\<rparr>"] show ?thesis
    unfolding l(1) f by auto
qed

text \<open>
  C34: a fence waits for reads and for nothing else. While \<open>_cancel_send\<close> or \<open>_preempt_send\<close> waits
  for a source, the wait is over exactly when no batch of any session reads the source.
\<close>

theorem fence_waits_for_reads:
  assumes "send_run cfg timeout s" and "sn_fence s = Some (rid, i, rest)"
  shows "send_step cfg timeout Act_Fence_End s \<noteq> None \<longleftrightarrow> \<not> reads s i"
proof -
  have inv: "send_inv cfg s" by (rule send_run_inv[OF assms(1)])
  then have i: "i < length (sn_metas s)" using assms(2) by (simp add: send_inv_def fence_ok_def)
  then have "sb_sending (sn_metas s ! i) = int (reader_count s i)" using inv by (simp add: send_inv_def metas_ok_def)
  then show ?thesis using assms(2) reader_count_0[of s i] by simp
qed

lemma fence_waits_for_reads_witness:
  "send_step es_cfg 60 Act_Fence_End (es_state (es_writing @ [Act_Preempt ''p1''])) = None \<and>
   reads (es_state (es_writing @ [Act_Preempt ''p1''])) 0"
proof -
  have run: "send_run es_cfg 60 (es_state (es_writing @ [Act_Preempt ''p1'']))" by (rule es_run) code_simp
  have f: "sn_fence (es_state (es_writing @ [Act_Preempt ''p1''])) = Some (''p1'', 0, [])" by code_simp
  have "reads (es_state (es_writing @ [Act_Preempt ''p1''])) 0" by code_simp
  with fence_waits_for_reads[OF run f] show ?thesis by blast
qed

text \<open>The sources a fence covers: those it has removed and those it still has to.\<close>

definition fence_holds :: "string \<Rightarrow> string \<Rightarrow> nat \<Rightarrow> sender \<Rightarrow> bool" where
  "fence_holds rid tid i s \<longleftrightarrow> \<not> in_use s i \<or>
     (\<exists>j rest. sn_fence s = Some (rid, j, rest) \<and> tid \<in> set rest)"

lemma cancel_sends_holds:
  assumes "reqs_ok s" and "i < length (sn_metas s)" and "sb_transfer_id (sn_metas s ! i) = tid"
    and "in_use s i \<Longrightarrow> tid \<in> set tids"
  shows "fence_holds rid tid i (cancel_sends rid tids s)"
  using assms
proof (induction rid tids s rule: cancel_sends.induct)
  case (1 rid s)
  then have "\<not> in_use s i" by auto
  then show ?case by (simp add: fence_holds_def in_use_def)
next
  case (2 rid t rest s)
  show ?case
  proof (cases "dict_get (sn_reqs_need_send s) t")
    case None
    have d: "sn_reqs_need_send (discard_finished rid s) = sn_reqs_need_send s" "sn_metas (discard_finished rid s) = sn_metas s"
      by (simp_all add: discard_finished_def)
    have iu: "in_use (discard_finished rid s) i = in_use s i" by (simp add: in_use_def d)
    have "fence_holds rid tid i (cancel_sends rid rest (discard_finished rid s))"
    proof (rule 2(1)[OF None])
      show "reqs_ok (discard_finished rid s)" using 2(2) by (simp add: reqs_ok_def d)
      show "tid \<in> set rest" if u: "in_use (discard_finished rid s) i"
      proof -
        have "in_use s i" using u iu by simp
        moreover obtain x where "dict_get (sn_reqs_need_send s) x = Some i" using \<open>in_use s i\<close> in_use_get[OF 2(2)] by blast
        ultimately have "tid \<noteq> t" using None reqs_okD[OF 2(2), of x i] 2(4) by auto
        then show ?thesis using 2(5)[OF \<open>in_use s i\<close>] by simp
      qed
    qed (use 2 d in simp_all)
    then show ?thesis using None by simp
  next
    case (Some j)
    define u where "u = (upd_meta j (\<lambda>m. m\<lparr>sb_ready := True\<rparr>) (s\<lparr>sn_reqs_need_send := dict_pop t (sn_reqs_need_send s)\<rparr>))\<lparr>sn_fence := Some (rid, j, rest)\<rparr>"
    have eq: "cancel_sends rid (t # rest) s = u" using Some by (simp add: u_def)
    have su: "sn_fence u = Some (rid, j, rest)" "sn_reqs_need_send u = dict_pop t (sn_reqs_need_send s)" by (simp_all add: u_def)
    have "tid \<in> set rest" if u: "in_use u i"
    proof -
      obtain x where x: "(x, i) \<in> set (dict_pop t (sn_reqs_need_send s))" using u by (auto simp: in_use_def su)
      then have x': "x \<noteq> t" "(x, i) \<in> set (sn_reqs_need_send s)" by (simp_all add: dict_pop_in)
      then have "x = tid" using 2(2,4) by (auto simp: reqs_ok_def)
      moreover have "in_use s i" using x'(2) by (force simp: in_use_def)
      ultimately show ?thesis using 2(5) x'(1) by simp
    qed
    then show ?thesis unfolding eq fence_holds_def su by blast
  qed
qed

lemma fold_add_fence: "fold add_pending blocks (p, s) = (p', t) \<Longrightarrow> sn_fence t = sn_fence s"
proof (induction blocks arbitrary: p s)
  case (Cons b blocks)
  obtain p1 s1 where 1: "add_pending b (p, s) = (p1, s1)" by (cases "add_pending b (p, s)") auto
  have "sn_fence s1 = sn_fence s" using 1 by (auto simp: add_pending_def default_meta_def split: prod.splits option.splits)
  then show ?case using Cons.IH[of p1 s1] Cons.prems 1 by simp
qed simp

lemma finish_batch_fence: "sn_fence (finish_batch k b ret s) = sn_fence s"
proof -
  have c: "sn_fence (fold (count_sent err) dis u) = sn_fence u" for err dis u
    by (induction dis arbitrary: u) (simp_all add: count_sent_keeps(1))
  show ?thesis unfolding finish_batch_def Let_def by (simp add: c split: prod.split)
qed

lemma session_wake_fence: "sn_fence (session_wake cfg k dones s) = sn_fence s"
proof -
  define x where "x = sn_sessions s ! k"
  obtain s1 ready expired where t: "fold (take_done (sx_ranks x)) (map (\<lambda>d. (d, the (dict_get (sx_pending x) d))) dones) (s, [], []) = (s1, ready, expired)"
    using prod_cases3 by blast
  show ?thesis unfolding session_wake_def Let_def x_def[symmetric] t prod.case
    using take_done_keeps[OF t] by (simp add: finish_batch_fence)
qed

lemma step_holds:
  assumes inv: "send_inv cfg s" and i: "i < length (sn_metas s)" "sb_transfer_id (sn_metas s ! i) = tid"
    and h: "fence_holds rid tid i s" and l: "send_legal a s" and st: "send_step cfg timeout a s = Some t"
  shows "fence_holds rid tid i t"
proof -
  have r: "reqs_ok s" "reqs_ok t" using inv send_step_inv[OF inv l st] by (simp_all add: send_inv_def)
  have m: "moves_on s t" by (rule send_step_moves[OF l st])
  have less: "in_use t i \<Longrightarrow> in_use s i"
    using m i(1) in_use_get[OF r(1)] in_use_get[OF r(2)] unfolding moves_on_def by blast
  show ?thesis
  proof (cases "in_use s i")
    case False
    then show ?thesis using less by (auto simp: fence_holds_def)
  next
    case True
    then obtain j rest where f: "sn_fence s = Some (rid, j, rest)" "tid \<in> set rest" using h by (auto simp: fence_holds_def)
    show ?thesis
    proof (cases a)
      case Act_Fence_End
      then have t: "t = cancel_sends rid rest (discard_finished rid s)"
        using st f by (simp add: fence_step_def split: if_splits)
      show ?thesis unfolding t
        by (rule cancel_sends_holds) (use r(1) i f(2) in \<open>simp_all add: discard_finished_def reqs_ok_def\<close>)
    next
      case (Act_Serve payload)
      then have "sn_fence t = sn_fence s"
        using st fold_add_fence by (auto simp: open_session_def Let_def split: sum.splits prod.splits)
      then show ?thesis using f by (simp add: fence_holds_def)
    next
      case (Act_Wake k dones)
      then have "sn_fence t = sn_fence s" using st session_wake_fence by (auto split: if_splits)
      then show ?thesis using f by (simp add: fence_holds_def)
    next
      case (Act_Written k ret)
      then have "sn_fence t = sn_fence s" using st finish_batch_fence by (auto split: session_phase.splits)
      then show ?thesis using f by (simp add: fence_holds_def)
    next
      case (Act_Write_Raises k)
      then have "sn_fence t = sn_fence s" using st by (auto simp: session_abort_def split: session_phase.splits)
      then show ?thesis using f by (simp add: fence_holds_def)
    next
      case (Act_Timeout k)
      then have "sn_fence t = sn_fence s" using st by (auto simp: session_timeout_def split: if_splits)
      then show ?thesis using f by (simp add: fence_holds_def)
    qed (use st f l in simp_all)
  qed
qed

text \<open>
  What a step does to a source, as a relation between its old and its new meta. The interface is the
  relation; its laws are the writes the loop makes to a meta: counters, and \<open>ready\<close> that is set.
\<close>

definition sources_rel :: "(SendBlockMeta \<Rightarrow> SendBlockMeta \<Rightarrow> bool) \<Rightarrow> sender \<Rightarrow> sender \<Rightarrow> bool" where
  "sources_rel R s t \<longleftrightarrow> length (sn_metas s) \<le> length (sn_metas t) \<and>
     (\<forall>i < length (sn_metas s). R (sn_metas s ! i) (sn_metas t ! i))"

text \<open>The acts of the loop itself; the others are calls of the worker.\<close>

fun loop_act :: "send_act \<Rightarrow> bool" where
  "loop_act Act_Fence_End = True"
| "loop_act (Act_Serve _) = True"
| "loop_act (Act_Wake _ _) = True"
| "loop_act (Act_Written _ _) = True"
| "loop_act (Act_Write_Raises _) = True"
| "loop_act (Act_Timeout _) = True"
| "loop_act _ = False"

locale meta_writes =
  fixes R :: "SendBlockMeta \<Rightarrow> SendBlockMeta \<Rightarrow> bool"
  assumes keeps: "R m m"
    and follows: "R m m' \<Longrightarrow> R m' m'' \<Longrightarrow> R m m''"
    and counts: "R m (m\<lparr>sb_sending := a, sb_need_send := b, sb_sent := c\<rparr>)"
    and readies: "R m (m\<lparr>sb_ready := True\<rparr>)"
begin

lemma rel_refl: "sources_rel R s s"
  by (simp add: sources_rel_def keeps)

lemma rel_trans:
  assumes "sources_rel R s t" and "sources_rel R t u"
  shows "sources_rel R s u"
proof -
  have "R (sn_metas s ! i) (sn_metas u ! i)" if "i < length (sn_metas s)" for i
    by (rule follows[of _ "sn_metas t ! i"]) (use assms that in \<open>simp_all add: sources_rel_def\<close>)
  then show ?thesis using assms by (simp add: sources_rel_def)
qed

lemma rel_upd:
  assumes "\<And>m. R m (f m)"
  shows "sources_rel R s (upd_meta i f s)"
proof -
  have "R (sn_metas s ! j) (sn_metas (upd_meta i f s) ! j)" if "j < length (sn_metas s)" for j
    using that assms keeps by (cases "j = i") (simp_all add: upd_meta_def)
  then show ?thesis by (simp add: sources_rel_def upd_meta_def)
qed

lemma writes: "R m (m\<lparr>sb_sending := a\<rparr>)" "R m (m\<lparr>sb_sent := c\<rparr>)" "R m (m\<lparr>sb_sending := a, sb_need_send := b\<rparr>)"
  using counts[where m = m and a = a and b = "sb_need_send m" and c = "sb_sent m"]
    counts[where m = m and a = "sb_sending m" and b = "sb_need_send m" and c = c] counts[where m = m and a = a and b = b and c = "sb_sent m"]
  by simp_all

lemma rel_metas: "sn_metas t = sn_metas s \<Longrightarrow> sources_rel R s t"
  by (simp add: sources_rel_def keeps)

lemma rel_fold:
  assumes "\<And>x s. sources_rel R s (f x s)"
  shows "sources_rel R s (fold f xs s)"
proof (induction xs arbitrary: s)
  case (Cons x xs)
  from rel_trans[OF assms Cons.IH] show ?case by simp
qed (simp add: rel_refl)

lemma rel_default: "default_meta p tid s = (i, t) \<Longrightarrow> sources_rel R s t"
  by (auto simp: default_meta_def sources_rel_def nth_append keeps split: option.splits)

lemma rel_discard: "sources_rel R s (discard_finished rid s)"
  by (rule rel_metas) (simp add: discard_finished_def)

lemma rel_cancel: "sources_rel R s (cancel_sends rid tids s)"
proof (induction rid tids s rule: cancel_sends.induct)
  case (2 rid tid rest s)
  show ?case
  proof (cases "dict_get (sn_reqs_need_send s) tid")
    case None
    from rel_trans[OF rel_discard 2[OF None]] show ?thesis using None by simp
  next
    case (Some i)
    let ?u = "s\<lparr>sn_reqs_need_send := dict_pop tid (sn_reqs_need_send s)\<rparr>"
    have "sources_rel R s (upd_meta i (\<lambda>m. m\<lparr>sb_ready := True\<rparr>) ?u)"
      by (rule rel_trans[OF rel_metas rel_upd]) (simp_all add: readies)
    then show ?thesis using Some by (simp add: sources_rel_def)
  qed
qed (simp add: rel_metas)

lemma rel_count: "sources_rel R s (count_sent err di s)"
proof -
  obtain d i where di: "di = (d, i)" by (cases di)
  have "sources_rel R s (upd_meta i (\<lambda>m. m\<lparr>sb_sent := sb_sent m + 1\<rparr>) s)" by (rule rel_upd) (rule writes)
  then show ?thesis by (simp add: di count_sent_def Let_def rel_refl) (simp add: sources_rel_def)
qed

lemma rel_release: "sources_rel R s (release_reads r s)"
  unfolding release_reads_def by (rule rel_fold) (auto intro: rel_upd writes split: prod.split)

lemma rel_finish: "sources_rel R s (finish_batch k b ret s)"
proof -
  have "sources_rel R s (release_reads r (fold (count_sent e) r s))" for r e
    by (rule rel_trans[OF rel_fold rel_release]) (rule rel_count)
  then show ?thesis unfolding finish_batch_def Let_def by (auto simp: sources_rel_def split: prod.split)
qed

lemma rel_wake: "sources_rel R s (session_wake cfg k dones s)"
proof -
  define x where "x = sn_sessions s ! k"
  obtain s1 ready expired where t: "fold (take_done (sx_ranks x)) (map (\<lambda>d. (d, the (dict_get (sx_pending x) d))) dones) (s, [], []) = (s1, ready, expired)"
    using prod_cases3 by blast
  have "sources_rel R s (fst (fold (take_done ranks) dis (s, r, e)))" for ranks dis r e
  proof (induction dis arbitrary: s r e)
    case (Cons di dis)
    obtain s2 r2 e2 where 1: "take_done ranks di (s, r, e) = (s2, r2, e2)" using prod_cases3 by blast
    then have "sources_rel R s s2" by (auto simp: take_done_def intro: rel_upd writes rel_refl split: prod.splits if_splits)
    from rel_trans[OF this Cons.IH] show ?case by (simp add: 1)
  qed (simp add: rel_refl)
  from this[of "sx_ranks x"] have "sources_rel R s s1" using t by (metis fst_conv)
  then have up: "sources_rel R s (upd_session k f s1)" for f by (simp add: sources_rel_def)
  show ?thesis unfolding session_wake_def Let_def x_def[symmetric] t prod.case
    using up rel_trans[OF up rel_finish] by simp
qed

lemma rel_serve: "sources_rel R s (open_session cfg payload s)"
proof -
  have a: "fold add_pending blocks (p, s) = (p', t) \<Longrightarrow> sources_rel R s t" for blocks p p' t
  proof (induction blocks arbitrary: p s)
    case (Cons b blocks)
    obtain p1 s1 where 1: "add_pending b (p, s) = (p1, s1)" by (cases "add_pending b (p, s)") auto
    have "sources_rel R s s1" using 1 by (auto simp: add_pending_def split: prod.splits intro: rel_default)
    moreover have "sources_rel R s1 t" by (rule Cons.IH) (use Cons.prems 1 in simp)
    ultimately show ?case by (rule rel_trans)
  qed (simp add: rel_refl)
  have add: "sources_rel R s u \<Longrightarrow> sources_rel R s (u\<lparr>sn_sessions := xs\<rparr>)" for u xs by (simp add: sources_rel_def)
  show ?thesis unfolding open_session_def Let_def
    by (auto split: sum.split prod.split intro: add rel_refl a)
qed

lemma rel_loop:
  assumes "loop_act a" and "send_step cfg timeout a s = Some t"
  shows "sources_rel R s t"
proof (cases a)
  case Act_Fence_End
  then obtain rid i rest where f: "sn_fence s = Some (rid, i, rest)" "sb_sending (sn_metas s ! i) = 0" "t = fence_step s"
    using assms by (auto split: option.splits if_splits)
  from rel_trans[OF rel_discard rel_cancel] show ?thesis using f by (simp add: fence_step_def)
next
  case (Act_Written k ret)
  then show ?thesis using assms rel_finish by (auto split: session_phase.splits)
next
  case (Act_Write_Raises k)
  then obtain b where "t = session_abort k b s" using assms by (auto split: session_phase.splits)
  then show ?thesis using rel_release[of s "sy_ready b"] by (simp add: session_abort_def sources_rel_def)
qed (use assms in \<open>auto simp: session_timeout_def rel_metas split: if_splits intro: rel_wake rel_serve\<close>)

end

text \<open>The transfer of a source never changes.\<close>

definition same_transfer :: "SendBlockMeta \<Rightarrow> SendBlockMeta \<Rightarrow> bool" where
  "same_transfer m m' \<longleftrightarrow> sb_transfer_id m' = sb_transfer_id m"

interpretation ids: meta_writes same_transfer
  by unfold_locales (simp_all add: same_transfer_def)

text \<open>Between two calls of the worker a source stays with its request, and stays published.\<close>

definition same_owner :: "SendBlockMeta \<Rightarrow> SendBlockMeta \<Rightarrow> bool" where
  "same_owner m m' \<longleftrightarrow> sb_p_req_id m' = sb_p_req_id m \<and> (sb_ready m \<longrightarrow> sb_ready m')"

interpretation owner: meta_writes same_owner
  by unfold_locales (simp_all add: same_owner_def)

lemma ids_prepare: "sources_rel same_transfer s (snd (prepare_send rid tid s))"
  unfolding prepare_send_def
  by (auto split: prod.split intro: ids.rel_trans[OF ids.rel_default ids.rel_upd] simp: same_transfer_def)

lemma ids_publish: "sources_rel same_transfer s (publish_send timeout now ev s)"
proof -
  obtain i s1 where p: "prepare_send (sd_request_id ev) (sd_transfer_id ev) s = (i, s1)" by fastforce
  have "sources_rel same_transfer s s1" using ids_prepare[of s "sd_request_id ev" "sd_transfer_id ev"] by (simp add: p)
  then show ?thesis unfolding publish_send_def p Let_def prod.case
    by (rule ids.rel_trans) (rule ids.rel_upd, simp add: same_transfer_def)
qed

lemma send_step_same_ids:
  assumes "send_legal a s" and "send_step cfg timeout a s = Some t"
  shows "sources_rel same_transfer s t"
proof (cases "loop_act a")
  case True
  then show ?thesis using ids.rel_loop assms(2) by blast
next
  case False
  then show ?thesis using assms
    by (cases a) (auto simp: cancel_send_def preempt_send_def fetch_finished_sending_reqs_def Let_def
      simp del: cancel_sends.simps split: if_splits
      intro: ids_prepare ids_publish ids.rel_cancel ids.rel_metas)
qed

lemma send_step_ids:
  "send_inv cfg s \<Longrightarrow> send_legal a s \<Longrightarrow> send_step cfg timeout a s = Some t \<Longrightarrow> i < length (sn_metas s) \<Longrightarrow>
   sb_transfer_id (sn_metas t ! i) = sb_transfer_id (sn_metas s ! i)"
  using send_step_same_ids[of a s cfg timeout t] by (simp add: sources_rel_def same_transfer_def)

lemma exec_holds:
  assumes "send_inv cfg s" and "i < length (sn_metas s)" and "sb_transfer_id (sn_metas s ! i) = tid" and "fence_holds rid tid i s"
    and "send_exec cfg timeout as s = Some t"
  shows "fence_holds rid tid i t"
  using assms
proof (induction as arbitrary: s)
  case (Cons a as)
  then obtain u where u: "send_legal a s" "send_step cfg timeout a s = Some u" "send_exec cfg timeout as u = Some t"
    by (auto split: if_splits option.splits)
  show ?case
  proof (rule Cons.IH[OF _ _ _ _ u(3)])
    show "send_inv cfg u" by (rule send_step_inv[OF Cons.prems(1) u(1,2)])
    show "fence_holds rid tid i u" by (rule step_holds[OF Cons.prems(1-4) u(1,2)])
    have "length (sn_metas s) \<le> length (sn_metas u)" using send_step_moves[OF u(1,2)] by (simp add: moves_on_def)
    then show "i < length (sn_metas u)" using Cons.prems(2) by simp
    show "sb_transfer_id (sn_metas u ! i) = tid" using send_step_ids[OF Cons.prems(1) u(1,2) Cons.prems(2)] Cons.prems(3) by simp
  qed
qed simp

text \<open>
  A fence leaves no reader. When \<open>cancel\<close> for a transfer, or \<open>preempt\<close> for a request whose
  source is published, comes back, however many batches of however many consumers were reading the
  source, none reads it any more and none ever will.
\<close>

theorem fence_stops_reads:
  assumes "send_run cfg timeout s" and "(tid, i) \<in> set (sn_reqs_need_send s)"
    and "a = Act_Cancel rid tid \<or> (a = Act_Preempt rid \<and> sb_p_req_id (sn_metas s ! i) = rid \<and> sb_ready (sn_metas s ! i))"
    and "send_exec cfg timeout (a # as) s = Some t" and "sn_fence t = None"
    and "send_exec cfg timeout as' t = Some u"
  shows "\<not> reads t i \<and> \<not> reads u i"
proof -
  have inv: "send_inv cfg s" by (rule send_run_inv[OF assms(1)])
  have rt: "send_run cfg timeout t" by (rule send_exec_run[OF assms(1,4)])
  have rs: "reqs_ok s" using inv by (simp add: send_inv_def)
  have i: "i < length (sn_metas s)" "sb_transfer_id (sn_metas s ! i) = tid" using rs assms(2) by (auto simp: reqs_ok_def)
  obtain s1 where s1: "send_legal a s" "send_step cfg timeout a s = Some s1" "send_exec cfg timeout as s1 = Some t"
    using assms(4) by (auto split: if_splits option.splits)
  have "\<exists>tids. s1 = cancel_sends rid tids s \<and> tid \<in> set tids"
    using assms(3)
  proof
    assume "a = Act_Cancel rid tid"
    then show ?thesis using s1(2)
      by (intro exI[of _ "[tid]"]) (auto simp: cancel_send_def simp del: cancel_sends.simps split: if_splits)
  next
    assume p: "a = Act_Preempt rid \<and> sb_p_req_id (sn_metas s ! i) = rid \<and> sb_ready (sn_metas s ! i)"
    let ?tids = "map fst (filter (\<lambda>(_, i). sb_p_req_id (sn_metas s ! i) = rid \<and> sb_ready (sn_metas s ! i)) (sn_reqs_need_send s))"
    have "tid \<in> set ?tids" using p assms(2) by force
    then show ?thesis using p s1(2)
      by (intro exI[of _ ?tids]) (auto simp: preempt_send_def simp del: cancel_sends.simps split: if_splits)
  qed
  then obtain tids where tids: "s1 = cancel_sends rid tids s" "tid \<in> set tids" by blast
  have "fence_holds rid tid i s1" unfolding tids(1) by (rule cancel_sends_holds[OF rs i]) (rule tids(2))
  moreover have "length (sn_metas s) \<le> length (sn_metas s1)" using send_step_moves[OF s1(1,2)] by (simp add: moves_on_def)
  ultimately have "fence_holds rid tid i t"
    using exec_holds[OF send_step_inv[OF inv s1(1,2)] _ _ _ s1(3)] send_step_ids[OF inv s1(1,2) i(1)] i by simp
  then have gone: "\<not> in_use t i" using assms(5) by (simp add: fence_holds_def)
  have l: "i < length (sn_metas t)" using send_exec_moves[OF assms(4)] i(1) by (simp add: moves_on_def)
  have "\<not> reads v i" if v: "send_exec cfg timeout vs t = Some v" for vs v
  proof -
    have m: "moves_on t v" by (rule send_exec_moves[OF v])
    have iv: "send_inv cfg t" "send_inv cfg v" using rt v send_exec_run send_run_inv by blast+
    have r: "reqs_ok t" "reqs_ok v" using iv by (simp_all add: send_inv_def)
    have n: "\<nexists>tid. dict_get (sn_reqs_need_send t) tid = Some i" using gone in_use_get[OF r(1)] by blast
    have "\<not> in_use v i" using m l n in_use_get[OF r(2)] unfolding moves_on_def by blast
    moreover have "case sn_fence v of None \<Rightarrow> True | Some (_, j, _) \<Rightarrow> j \<noteq> i"
      using m l n assms(5) unfolding moves_on_def by (auto split: option.splits)
    ultimately show ?thesis using unread_if_gone[OF iv(2)] m l by (simp add: moves_on_def)
  qed
  from this[of "[]" t] this[OF assms(6)] show ?thesis by simp
qed

lemma fence_stops_reads_witness:
  "\<not> reads (es_state (es_writing @ [Act_Preempt ''p1'', Act_Written 0 0, Act_Fence_End])) 0 \<and>
   \<not> reads (es_state (es_writing @ [Act_Preempt ''p1'', Act_Written 0 0, Act_Fence_End, Act_Timeout 0])) 0"
proof -
  have run: "send_run es_cfg 60 (es_state es_writing)" by (rule es_run) code_simp
  have m: "(''t1'', 0) \<in> set (sn_reqs_need_send (es_state es_writing))" by code_simp
  have a: "Act_Preempt ''p1'' = Act_Cancel ''p1'' ''t1'' \<or> (Act_Preempt ''p1'' = Act_Preempt ''p1'' \<and>
      sb_p_req_id (sn_metas (es_state es_writing) ! 0) = ''p1'' \<and> sb_ready (sn_metas (es_state es_writing) ! 0))" by code_simp
  have e: "send_exec es_cfg 60 [Act_Preempt ''p1'', Act_Written 0 0, Act_Fence_End] (es_state es_writing) =
      Some (es_state (es_writing @ [Act_Preempt ''p1'', Act_Written 0 0, Act_Fence_End]))" by code_simp
  have n: "sn_fence (es_state (es_writing @ [Act_Preempt ''p1'', Act_Written 0 0, Act_Fence_End])) = None" by code_simp
  have e': "send_exec es_cfg 60 [Act_Timeout 0] (es_state (es_writing @ [Act_Preempt ''p1'', Act_Written 0 0, Act_Fence_End])) =
      Some (es_state (es_writing @ [Act_Preempt ''p1'', Act_Written 0 0, Act_Fence_End, Act_Timeout 0]))" by code_simp
  from fence_stops_reads[OF run m a e n e'] show ?thesis .
qed
end
