(* ===== verification/Transfer_Responses.thy ===== *)
theory Transfer_Responses
  imports Transfer_Send_Props
begin

text \<open>
  The two halves of a P/D transfer together: the responses a producer's session sends are followed
  against what the consumer's pull task still has open. Every request is decided exactly once, the
  last response is the first one after which nothing is open, and so each response is one the
  receiver's theorems expect and leaves the task with the very requests the session still holds.
\<close>

section \<open>Following a session\<close>

text \<open>What a response leaves open, as the receiver computes it.\<close>

definition left_open :: "string list \<Rightarrow> KVTransferResponse \<Rightarrow> string list" where
  "left_open remaining resp =
     filter (\<lambda>d. d \<notin> set (or_empty (xs_ok_reqs resp)) \<and> d \<notin> set (response_errors resp remaining)) remaining"

definition decides_all :: "string list \<Rightarrow> KVTransferResponse \<Rightarrow> bool" where
  "decides_all remaining resp \<longleftrightarrow>
     list_all (\<lambda>d. d \<in> set (or_empty (xs_ok_reqs resp)) \<or> d \<in> set (or_empty (xs_err_reqs resp))) remaining"

text \<open>What is open after the responses; \<open>None\<close> once one of them breaks the protocol.\<close>

fun after_responses :: "string list \<Rightarrow> KVTransferResponse list \<Rightarrow> string list option" where
  "after_responses remaining [] = Some remaining"
| "after_responses remaining (r # rs) =
     (if remaining \<noteq> [] \<and> response_ok remaining r \<and> is_final (xs_status r) = decides_all remaining r
      then after_responses (left_open remaining r) rs else None)"

lemma after_append: "after_responses rem (rs @ rs') = (case after_responses rem rs of None \<Rightarrow> None | Some m \<Rightarrow> after_responses m rs')"
  by (induction rs arbitrary: rem) auto

definition open_ids :: "session \<Rightarrow> string list" where
  "open_ids x = map fst (sx_pending x) @
     (case sx_phase x of Session_Writing b \<Rightarrow> map fst (sy_ready b) @ sy_expired b | _ \<Rightarrow> [])"

definition batch_ok :: "session \<Rightarrow> send_batch \<Rightarrow> bool" where
  "batch_ok x b \<longleftrightarrow> sy_status b = (if sx_pending x = [] then FINISH else CONTINUE) \<and>
     set (px_err_reqs (sy_params b)) \<subseteq> set (map fst (sy_ready b)) \<and> distinct (px_err_reqs (sy_params b))"

definition talk_at :: "string list \<Rightarrow> session \<Rightarrow> bool" where
  "talk_at rem x \<longleftrightarrow> (case sx_phase x of
       Session_Over \<Rightarrow> True
     | Session_Waiting \<Rightarrow> sx_pending x \<noteq> [] \<and> set rem = set (open_ids x) \<and> distinct (open_ids x)
     | Session_Writing b \<Rightarrow> rem \<noteq> [] \<and> batch_ok x b \<and> set rem = set (open_ids x) \<and> distinct (open_ids x))"

definition talk_ok :: "session \<Rightarrow> bool" where
  "talk_ok x \<longleftrightarrow> (case sx_request x of None \<Rightarrow> True
     | Some req \<Rightarrow> (case after_responses (dict_keys (xr_req_blocks req)) (sx_out x) of None \<Rightarrow> False | Some rem \<Rightarrow> talk_at rem x))"

lemma talk_okI:
  assumes "\<And>req. sx_request x = Some req \<Longrightarrow>
      \<exists>rem. after_responses (dict_keys (xr_req_blocks req)) (sx_out x) = Some rem \<and> talk_at rem x"
  shows "talk_ok x"
  using assms unfolding talk_ok_def by (cases "sx_request x") fastforce+

lemma talk_ok_None: "sx_request x = None \<Longrightarrow> talk_ok x"
  by (simp add: talk_ok_def)

lemma talk_okE:
  assumes "talk_ok x" and "sx_request x = Some req"
  obtains rem where "after_responses (dict_keys (xr_req_blocks req)) (sx_out x) = Some rem" and "talk_at rem x"
  using assms unfolding talk_ok_def by (auto split: option.splits)

section \<open>Responses\<close>

lemma add_requests_err:
  "px_err_reqs (fold (add_request cfg request rr) rs px) =
     px_err_reqs px @ map fst (filter (\<lambda>rb. isl (build_request_transfer_params cfg (fst rb) (snd rb) request rr)) rs)"
  by (induction rs arbitrary: px) (auto simp: add_request_def split: sum.splits)

lemma build_params_err:
  "px_err_reqs (build_transfer_params cfg rs request rr) =
     map fst (filter (\<lambda>rb. isl (build_request_transfer_params cfg (fst rb) (snd rb) request rr)) rs)"
  by (simp add: build_transfer_params_def add_requests_err)

lemma or_list_or_none [simp]: "or_empty (list_or_none xs) = xs"
  by (simp add: or_empty_def list_or_none_def)

lemma batch_outcome_parts:
  assumes "set (px_err_reqs (sy_params b)) \<subseteq> set (map fst (sy_ready b))" and "distinct (px_err_reqs (sy_params b))"
    and "distinct (map fst (sy_ready b))" and "batch_outcome b ret = (ok, err, msg)"
  shows "set ok \<union> set err = set (map fst (sy_ready b))" and "distinct (ok @ err)"
proof -
  define es where "es = px_err_reqs (sy_params b)"
  define ks where "ks = map fst (sy_ready b)"
  define os where "os = filter (\<lambda>d. d \<notin> set es) ks"
  have "(ok = [] \<and> err = es @ os) \<or> (ok = os \<and> err = es)"
    using assms(4) unfolding batch_outcome_def Let_def es_def[symmetric] ks_def[symmetric] os_def[symmetric] by (auto split: if_splits)
  moreover have "set os \<union> set es = set ks" "distinct es" "distinct os" "set os \<inter> set es = {}"
    using assms(1-3) by (auto simp: es_def ks_def os_def)
  ultimately show "set ok \<union> set err = set (map fst (sy_ready b))" and "distinct (ok @ err)"
    unfolding ks_def[symmetric] by auto
qed

lemma batch_response_ids:
  assumes "batch_ok x b" and "distinct (map fst (sy_ready b) @ sy_expired b)"
  shows "xs_status (batch_response b ret) = sy_status b"
    and "set (or_empty (xs_ok_reqs (batch_response b ret))) \<union> set (or_empty (xs_err_reqs (batch_response b ret))) =
      set (map fst (sy_ready b)) \<union> set (sy_expired b)"
    and "distinct (or_empty (xs_ok_reqs (batch_response b ret)) @ or_empty (xs_err_reqs (batch_response b ret)))"
proof -
  obtain ok err msg where o: "batch_outcome b ret = (ok, err, msg)" by (cases "batch_outcome b ret") auto
  have d: "distinct (map fst (sy_ready b))" using assms(2) by simp
  have P: "set ok \<union> set err = set (map fst (sy_ready b))" "distinct (ok @ err)"
    using batch_outcome_parts[OF _ _ d o] assms(1) by (simp_all add: batch_ok_def)
  show "xs_status (batch_response b ret) = sy_status b" by (simp add: batch_response_def o)
  show "set (or_empty (xs_ok_reqs (batch_response b ret))) \<union> set (or_empty (xs_err_reqs (batch_response b ret))) =
      set (map fst (sy_ready b)) \<union> set (sy_expired b)" using P(1) by (auto simp: batch_response_def o)
  have "(set ok \<union> set err) \<inter> set (sy_expired b) = {}" "distinct (sy_expired b)" using assms(2) unfolding P(1) by simp_all
  then have "distinct (ok @ err @ sy_expired b)" using P(2) by (simp add: Int_Un_distrib2 Int_Un_distrib)
  then show "distinct (or_empty (xs_ok_reqs (batch_response b ret)) @ or_empty (xs_err_reqs (batch_response b ret)))"
    by (simp add: batch_response_def o)
qed

text \<open>A response that decides some of the open requests, and is final when those are all.\<close>

lemma after_one:
  assumes "rem \<noteq> []" and "D = set (or_empty (xs_ok_reqs r)) \<union> set (or_empty (xs_err_reqs r))" and "D \<subseteq> set rem"
    and "distinct (or_empty (xs_ok_reqs r) @ or_empty (xs_err_reqs r))" and "is_final (xs_status r) \<longleftrightarrow> set rem \<subseteq> D"
  shows "\<exists>rest. after_responses rem [r] = Some rest \<and> set rest = set rem - D"
proof -
  have d: "decides_all rem r \<longleftrightarrow> set rem \<subseteq> D" unfolding decides_all_def assms(2) by (auto simp: list_all_iff)
  have "set (left_open rem r) = set rem - D"
    using assms(5) unfolding left_open_def response_errors_def assms(2) by auto
  moreover have "response_ok rem r" using assms(2-4) by (auto simp: response_ok_def)
  ultimately show ?thesis using assms(1,5) d by simp
qed

section \<open>Sessions keep to the protocol\<close>

lemma finish_talk:
  assumes ok: "talk_ok x" and p: "sx_phase x = Session_Writing b"
    and x': "x' = x\<lparr>sx_phase := (if sx_pending x = [] then Session_Over else Session_Waiting),
      sx_out := sx_out x @ [batch_response b ret]\<rparr>"
  shows "talk_ok x'"
proof (rule talk_okI)
  fix req assume "sx_request x' = Some req"
  then have req: "sx_request x = Some req" by (simp add: x')
  from talk_okE[OF ok req] obtain rem where a: "after_responses (dict_keys (xr_req_blocks req)) (sx_out x) = Some rem"
    and t: "talk_at rem x" by blast
  have t': "rem \<noteq> []" "batch_ok x b" "set rem = set (open_ids x)" "distinct (open_ids x)"
    using t by (simp_all add: talk_at_def p)
  define D where "D = set (map fst (sy_ready b)) \<union> set (sy_expired b)"
  have d: "distinct (map fst (sy_ready b) @ sy_expired b)" "distinct (map fst (sx_pending x))"
    "set (map fst (sx_pending x)) \<inter> D = {}" using t'(4) by (auto simp: open_ids_def p D_def)
  note R = batch_response_ids[OF t'(2) d(1), of ret]
  have rem: "set rem = set (map fst (sx_pending x)) \<union> D" using t'(3) by (auto simp: open_ids_def p D_def)
  have st: "is_final (sy_status b) \<longleftrightarrow> sx_pending x = []" using t'(2) by (simp add: batch_ok_def is_final_def)
  have "is_final (xs_status (batch_response b ret)) \<longleftrightarrow> set rem \<subseteq> D"
  proof -
    have "A \<union> D \<subseteq> D \<longleftrightarrow> A = {}" if "A \<inter> D = {}" for A using that by auto
    from this[OF d(3)] show ?thesis unfolding rem by (simp add: R(1) st)
  qed
  then obtain rest where rest: "after_responses rem [batch_response b ret] = Some rest" "set rest = set rem - D"
    using after_one[OF t'(1) R(2)[symmetric, folded D_def] _ R(3)] rem by blast
  have "A \<union> D - D = A" if "A \<inter> D = {}" for A using that by auto
  from this[OF d(3)] have set: "set rest = set (map fst (sx_pending x))" using rest(2) unfolding rem by simp
  have "talk_at rest x'"
    using d(2) set by (simp add: talk_at_def x' open_ids_def)
  then show "\<exists>rem. after_responses (dict_keys (xr_req_blocks req)) (sx_out x') = Some rem \<and> talk_at rem x'"
    using a rest(1) by (simp add: x' after_append)
qed

lemma timeout_talk:
  assumes ok: "talk_ok x" and p: "sx_phase x = Session_Waiting"
    and x': "x' = x\<lparr>sx_phase := Session_Over, sx_out := sx_out x @
      [plain_response FINISH (Some (dict_keys (sx_pending x))) ''Timeout waiting for P side ready.'']\<rparr>"
  shows "talk_ok x'"
proof (rule talk_okI)
  fix req assume "sx_request x' = Some req"
  then have req: "sx_request x = Some req" by (simp add: x')
  from talk_okE[OF ok req] obtain rem where a: "after_responses (dict_keys (xr_req_blocks req)) (sx_out x) = Some rem"
    and t: "talk_at rem x" by blast
  have t': "sx_pending x \<noteq> []" "set rem = set (map fst (sx_pending x))" "distinct (map fst (sx_pending x))"
    using t by (simp_all add: talk_at_def p open_ids_def)
  then have ne: "rem \<noteq> []" by (cases "sx_pending x") auto
  define r where "r = plain_response FINISH (Some (dict_keys (sx_pending x))) ''Timeout waiting for P side ready.''"
  have r: "or_empty (xs_ok_reqs r) = []" "or_empty (xs_err_reqs r) = map fst (sx_pending x)" "is_final (xs_status r)"
    by (simp_all add: r_def plain_response_def or_empty_def dict_keys_def is_final_def)
  obtain rest where "after_responses rem [r] = Some rest"
    using after_one[OF ne refl, of r] r t'(2,3) by auto
  then show "\<exists>rem. after_responses (dict_keys (xr_req_blocks req)) (sx_out x') = Some rem \<and> talk_at rem x'"
    using a by (simp add: x' after_append r_def[symmetric] talk_at_def)
qed

lemma abort_talk:
  assumes "talk_ok x" and "x' = x\<lparr>sx_phase := Session_Over\<rparr>"
  shows "talk_ok x'"
proof (rule talk_okI)
  fix req assume "sx_request x' = Some req"
  then have "sx_request x = Some req" by (simp add: assms(2))
  from talk_okE[OF assms(1) this] obtain rem where "after_responses (dict_keys (xr_req_blocks req)) (sx_out x) = Some rem" by blast
  then show "\<exists>rem. after_responses (dict_keys (xr_req_blocks req)) (sx_out x') = Some rem \<and> talk_at rem x'"
    by (simp add: assms(2) talk_at_def)
qed

lemma wake_batch_err:
  assumes inv: "send_inv cfg s" and w: "can_wake s k dones" and x: "x = sn_sessions s ! k"
  shows "set (px_err_reqs (sy_params (wake_batch cfg x dones s))) \<subseteq> set (map fst (sy_ready (wake_batch cfg x dones s)))"
    and "distinct (map fst (sy_ready (wake_batch cfg x dones s))) \<Longrightarrow> distinct (px_err_reqs (sy_params (wake_batch cfg x dones s)))"
proof -
  obtain s1 ready expired where f: "fold (take_done (sx_ranks x)) (wake_pairs x dones) (s, [], []) = (s1, ready, expired)"
    using prod_cases3 by blast
  define g where "g = (\<lambda>(d, i). (d :: string, sb_local_block_ids (sn_metas s1 ! i)))"
  have g: "fst \<circ> g = fst" by (auto simp: g_def)
  have e: "px_err_reqs (sy_params (wake_batch cfg x dones s)) =
      map fst (filter (\<lambda>rb. isl (build_request_transfer_params cfg (fst rb) (snd rb) (the (sx_request x)) (sx_regions x))) (map g ready))"
    by (simp add: wake_batch_def f build_params_err g_def)
  have r: "map fst (sy_ready (wake_batch cfg x dones s)) = map fst (map g ready)"
    by (simp add: wake_batch_def f g)
  show "set (px_err_reqs (sy_params (wake_batch cfg x dones s))) \<subseteq> set (map fst (sy_ready (wake_batch cfg x dones s)))"
    unfolding e r by auto
  show "distinct (px_err_reqs (sy_params (wake_batch cfg x dones s)))" if "distinct (map fst (sy_ready (wake_batch cfg x dones s)))"
    using that unfolding e r by (rule distinct_map_filter)
qed

lemma wake_talk:
  assumes inv: "send_inv cfg s" and w: "can_wake s k dones" and x: "x = sn_sessions s ! k" and ok: "talk_ok x"
  shows "talk_ok (wake_session cfg x dones s)"
proof (rule talk_okI)
  define b where "b = wake_batch cfg x dones s"
  define x' where "x' = wake_session cfg x dones s"
  have x': "sx_request x' = sx_request x" "sx_out x' = sx_out x" "sx_phase x' = Session_Writing b"
    "sx_pending x' = fold dict_pop dones (sx_pending x)" by (simp_all add: x'_def wake_session_def b_def)
  fix req assume "sx_request (wake_session cfg x dones s) = Some req"
  then have req: "sx_request x = Some req" by (simp add: wake_session_def)
  from talk_okE[OF ok req] obtain rem where a: "after_responses (dict_keys (xr_req_blocks req)) (sx_out x) = Some rem"
    and t: "talk_at rem x" by blast
  note F = wake_facts[OF inv w x] and B = wake_batch_eq[OF inv w x, folded b_def] and sub = wake_pairs_sub[OF w x]
  have t': "sx_pending x \<noteq> []" "set rem = set (map fst (sx_pending x))" "distinct (map fst (sx_pending x))"
    using t by (simp_all add: talk_at_def F(2) open_ids_def)
  define L where "L = filter (is_live s \<circ> snd) (wake_pairs x dones)"
  define E where "E = filter (Not \<circ> is_live s \<circ> snd) (wake_pairs x dones)"
  have dd: "distinct dones" using w by (simp add: can_wake_def)
  have parts: "distinct (map fst L @ map fst E)" "set (map fst L @ map fst E) = set dones"
  proof -
    have "distinct (map fst (wake_pairs x dones))" using dd sub(2) by simp
    then have i: "inj_on fst (set (wake_pairs x dones))" by (simp add: distinct_map)
    have "distinct (map fst L)" "distinct (map fst E)"
      unfolding L_def E_def using dd sub(2) by (auto intro!: distinct_map_filter)
    moreover have "fst ` set L \<inter> fst ` set E = {}"
      using inj_on_image_Int[OF i, of "set L" "set E"] by (auto simp: L_def E_def)
    ultimately show "distinct (map fst L @ map fst E)" by simp
    have "set L \<union> set E = set (wake_pairs x dones)" by (auto simp: L_def E_def)
    then have "fst ` set L \<union> fst ` set E = fst ` set (wake_pairs x dones)" by blast
    then show "set (map fst L @ map fst E) = set dones" using arg_cong[OF sub(2), of set] by simp
  qed
  have pend: "map fst (sx_pending x') = filter (\<lambda>d. d \<notin> set dones) (map fst (sx_pending x))"
    using pd.keys_pops[of dones "sx_pending x"] by (simp add: x'(4) dict_keys_def)
  have ids: "open_ids x' = map fst (sx_pending x') @ map fst L @ map fst E"
    by (simp add: open_ids_def x'(3) B(1,2) L_def E_def)
  have "set dones \<subseteq> set (map fst (sx_pending x))"
    using sub by (metis image_mono set_map)
  then have "set (open_ids x') = set rem" unfolding ids t'(2) set_append parts(2)[unfolded set_append] pend by auto
  moreover have "distinct (open_ids x')" unfolding ids using parts t'(3) by (auto simp: pend)
  moreover have "rem \<noteq> []" using t'(1,2) by (cases "sx_pending x") auto
  moreover have "batch_ok x' b"
  proof -
    have "distinct (map fst (sy_ready b))" using parts(1) by (simp add: B(1) L_def)
    then show ?thesis using wake_batch_err[OF inv w x] by (simp add: batch_ok_def b_def[symmetric]) (simp add: b_def wake_batch_def x'_def wake_session_def split: prod.split)
  qed
  ultimately have "talk_at rem x'" by (simp add: talk_at_def x'(3))
  then show "\<exists>rem. after_responses (dict_keys (xr_req_blocks req)) (sx_out (wake_session cfg x dones s)) = Some rem \<and>
      talk_at rem (wake_session cfg x dones s)"
    using a x'(2) by (simp add: x'_def[symmetric])
qed


lemma add_pendings_keys:
  "fold add_pending blocks (p, s) = (p', t) \<Longrightarrow> set (dict_keys p') = set (dict_keys p) \<union> fst ` set blocks"
proof (induction blocks arbitrary: p s)
  case (Cons b blocks)
  obtain p1 s1 where 1: "add_pending b (p, s) = (p1, s1)" by (cases "add_pending b (p, s)") auto
  have "set (dict_keys p1) = insert (fst b) (set (dict_keys p))"
    using 1 by (auto simp: add_pending_def dict_simps split: prod.splits)
  then show ?case using Cons.IH[of p1 s1] Cons.prems 1 by auto
qed simp

lemma open_session_talk:
  assumes inv: "send_inv cfg s" and legal: "send_legal (Act_Serve payload) s"
  obtains x where "sn_sessions (open_session cfg payload s) = sn_sessions s @ [x]" and "talk_ok x"
proof (cases "\<exists>req ranks regions. payload = Inr req \<and> validate_request cfg req = Inr (ranks, regions)")
  case True
  then obtain req ranks regions where v: "payload = Inr req" "validate_request cfg req = Inr (ranks, regions)" by blast
  obtain pending s1 where p: "fold add_pending (xr_req_blocks req) ([], s) = (pending, s1)"
    by (cases "fold add_pending (xr_req_blocks req) ([], s)") auto
  have "pending_ok req [] s" by (simp add: pending_ok_def pd.wf_empty)
  from add_pendings_inv[OF inv _ this p] have P: "dict_wf pending" "sn_sessions s1 = sn_sessions s" by (simp_all add: pending_ok_def)
  have k: "set (dict_keys pending) = set (dict_keys (xr_req_blocks req))"
    using add_pendings_keys[OF p] by (simp add: dict_keys_def)
  define x where "x = \<lparr>sx_request = Some req, sx_ranks = ranks, sx_regions = regions, sx_pending = pending,
     sx_phase = (if pending = [] then Session_Over else Session_Waiting), sx_out = []\<rparr>"
  show thesis
  proof (rule that)
    show "sn_sessions (open_session cfg payload s) = sn_sessions s @ [x]"
      by (simp add: open_session_def v p x_def P(2))
    have "talk_at (dict_keys (xr_req_blocks req)) x"
      using k P(1) by (simp add: talk_at_def x_def open_ids_def dict_keys_def dict_wf_def)
    then show "talk_ok x" by (simp add: talk_ok_def x_def)
  qed
next
  case False
  show thesis
  proof (cases payload)
    case (Inl e)
    show thesis by (rule that) (simp add: open_session_def Inl, simp add: talk_ok_None)
  next
    case (Inr req)
    then obtain e where "validate_request cfg req = Inl e" using False by (cases "validate_request cfg req") auto
    then show thesis by (intro that) (simp add: open_session_def Inr, simp add: talk_ok_None)
  qed
qed

text \<open>Steps of the worker's thread leave the sessions alone.\<close>

lemma cancel_sends_sessions: "sn_sessions (cancel_sends rid tids s) = sn_sessions s"
  by (induction rid tids s rule: cancel_sends.induct)
    (auto simp: discard_finished_def split: option.splits)

lemma prepare_sessions: "sn_sessions (snd (prepare_send rid tid s)) = sn_sessions s" "sn_sessions (publish_send timeout now ev s) = sn_sessions s"
  by (auto simp: prepare_send_def publish_send_def default_meta_def split: prod.splits option.splits)

lemma talk_update:
  assumes "list_all talk_ok xs" and "talk_ok x"
  shows "list_all talk_ok (xs[k := x])"
  using assms by (simp add: list_all_length) (metis nth_list_update_eq nth_list_update_neq)

lemma finish_batch_sessions:
  assumes "session_phase_of s k = Session_Writing b"
  shows "\<exists>ret'. sn_sessions (finish_batch k b ret s) = (sn_sessions s)[k := (sn_sessions s ! k)
    \<lparr>sx_phase := (if sx_pending (sn_sessions s ! k) = [] then Session_Over else Session_Waiting),
     sx_out := sx_out (sn_sessions s ! k) @ [batch_response b ret']\<rparr>]"
proof -
  have c: "sn_sessions (fold (count_sent err) dis u) = sn_sessions u" for err dis u
    by (induction dis arbitrary: u) (auto simp: count_sent_def Let_def)
  show ?thesis unfolding finish_batch_def Let_def
    by (rule exI[of _ ret]) (simp add: c split: prod.split)
qed

lemma send_step_talk:
  assumes inv: "send_inv cfg s" and ok: "list_all talk_ok (sn_sessions s)" and l: "send_legal a s"
    and st: "send_step cfg timeout a s = Some t"
  shows "list_all talk_ok (sn_sessions t)"
proof (cases a)
  case Act_Fence_End
  then have "sn_sessions t = sn_sessions s" using st
    by (auto simp: fence_step_def cancel_sends_sessions discard_finished_def split: option.splits if_splits)
  then show ?thesis using ok by simp
next
  case (Act_Serve payload)
  with l have "send_legal (Act_Serve payload) s" by simp
  from open_session_talk[OF inv this] obtain x where "sn_sessions t = sn_sessions s @ [x]" "talk_ok x"
    using st Act_Serve by auto
  then show ?thesis using ok by simp
next
  case (Act_Wake k dones)
  then have w: "can_wake s k dones" "t = session_wake cfg k dones s" using st by (auto split: if_splits)
  note F = wake_facts[OF inv w(1) refl]
  have okx: "talk_ok (sn_sessions s ! k)" using ok F(1) by (simp add: list_all_length)
  define u where "u = wake_start cfg k dones s"
  define b where "b = wake_batch cfg (sn_sessions s ! k) dones s"
  have us: "sn_sessions u = (sn_sessions s)[k := wake_session cfg (sn_sessions s ! k) dones s]"
    by (simp add: u_def wake_start_def Let_def)
  have lu: "list_all talk_ok (sn_sessions u)" unfolding us
    by (rule talk_update[OF ok wake_talk[OF inv w(1) refl okx]])
  have ph: "session_phase_of u k = Session_Writing b" unfolding u_def b_def by (rule wake_start_phase[OF F(1)])
  have t: "t = (if px_copies (sy_params b) = [] then finish_batch k b 0 u else u)"
    unfolding w(2) wake_batch_eq(3)[OF inv w(1) refl] Let_def u_def b_def ..
  have uk: "talk_ok (sn_sessions u ! k)" "sx_phase (sn_sessions u ! k) = Session_Writing b"
    using lu ph writing_at[OF ph] by (simp_all add: list_all_length)
  obtain ret' where "sn_sessions (finish_batch k b 0 u) = (sn_sessions u)[k := (sn_sessions u ! k)
    \<lparr>sx_phase := (if sx_pending (sn_sessions u ! k) = [] then Session_Over else Session_Waiting),
     sx_out := sx_out (sn_sessions u ! k) @ [batch_response b ret']\<rparr>]" using finish_batch_sessions[OF ph] by blast
  then have "list_all talk_ok (sn_sessions (finish_batch k b 0 u))"
    using talk_update[OF lu finish_talk[OF uk refl]] by simp
  then show ?thesis using lu by (simp add: t)
next
  case (Act_Written k ret)
  then obtain b where ph: "session_phase_of s k = Session_Writing b" and t: "t = finish_batch k b ret s"
    using st by (auto split: session_phase.splits)
  have uk: "talk_ok (sn_sessions s ! k)" "sx_phase (sn_sessions s ! k) = Session_Writing b"
    using ok writing_at[OF ph] by (simp_all add: list_all_length)
  obtain ret' where "sn_sessions t = (sn_sessions s)[k := (sn_sessions s ! k)
    \<lparr>sx_phase := (if sx_pending (sn_sessions s ! k) = [] then Session_Over else Session_Waiting),
     sx_out := sx_out (sn_sessions s ! k) @ [batch_response b ret']\<rparr>]" using finish_batch_sessions[OF ph] t by blast
  then show ?thesis using talk_update[OF ok finish_talk[OF uk refl]] by simp
next
  case (Act_Write_Raises k)
  then obtain b where ph: "session_phase_of s k = Session_Writing b" and t: "t = session_abort k b s"
    using st by (auto split: session_phase.splits)
  have "talk_ok (sn_sessions s ! k)" using ok writing_at[OF ph] by (simp add: list_all_length)
  from talk_update[OF ok abort_talk[OF this refl]] show ?thesis by (simp add: t session_abort_def)
next
  case (Act_Timeout k)
  then have ph: "session_phase_of s k = Session_Waiting" and t: "t = session_timeout k s" using st by (auto split: if_splits)
  have "talk_ok (sn_sessions s ! k)" "sx_phase (sn_sessions s ! k) = Session_Waiting"
    using ok ph by (auto simp: session_phase_of_def list_all_length split: if_splits)
  from talk_update[OF ok timeout_talk[OF this refl]] show ?thesis by (simp add: t session_timeout_def)
qed (use st l ok in \<open>auto simp: prepare_sessions cancel_sends_sessions cancel_send_def preempt_send_def fetch_finished_sending_reqs_def Let_def
      simp del: cancel_sends.simps split: if_splits\<close>)

lemma send_run_talk: "send_run cfg timeout s \<Longrightarrow> list_all talk_ok (sn_sessions s)"
proof (induction rule: send_run.induct)
  case send_init
  show ?case by (simp add: new_sender_def)
next
  case (send_next s a s')
  show ?case by (rule send_step_talk[OF send_run_inv[OF send_next(1)] send_next(4,2,3)])
qed



section \<open>The consumer's side\<close>

lemma count_results_pulls: "rv_pulls (fst (count_results g rids s)) = rv_pulls s"
  by (induction g rids s rule: count_results.induct)
    (auto simp: Let_def finish_receive_def split: option.split)

lemma process_remaining:
  "process_pulling_result resp g R s = ((rs, t), Inr ()) \<Longrightarrow> rs = left_open R resp \<and> length (rv_pulls t) = length (rv_pulls s)"
proof -
  define u where "u = s\<lparr>rv_failed := rv_failed s \<union> set (response_errors resp R)\<rparr>"
  define res where "res = count_results g (or_empty (xs_ok_reqs resp) @ response_errors resp R) u"
  have "rv_pulls (fst res) = rv_pulls s" by (simp add: res_def count_results_pulls u_def)
  then show "process_pulling_result resp g R s = ((rs, t), Inr ()) \<Longrightarrow> rs = left_open R resp \<and> length (rv_pulls t) = length (rv_pulls s)"
    unfolding process_pulling_result_def Let_def u_def[symmetric] res_def[symmetric]
    by (cases res; cases "snd res") (auto simp: left_open_def)
qed

text \<open>
  C14: the responses of a producer's session drive the consumer's task to its end. When a task has
  open what the session's earlier responses have left open (at the start: every request it asked
  for), the next response is one the receiver expects, it leaves the task with what the session
  still holds, and it ends the task exactly when nothing is left.
\<close>

theorem session_drives_pull:
  assumes "send_run cfg timeout ps" and "x \<in> set (sn_sessions ps)" and "sx_request x = Some req"
    and "sx_out x = earlier @ resp # later"
    and "recv_run rcfg tr s" and "rv_error s = None" and "pull_in i s = Some Pull_Published"
    and "after_responses (dict_keys (xr_req_blocks req)) earlier = Some (pt_remaining (rv_pulls s ! i))"
    and "s' = net_step rcfg (Pull_Response i resp) s"
  shows "legal (Act_Net (Pull_Response i resp)) s \<and>
    after_responses (dict_keys (xr_req_blocks req)) (earlier @ [resp]) = Some (pt_remaining (rv_pulls s' ! i)) \<and>
    pull_in i s' = Some (if pt_remaining (rv_pulls s' ! i) = [] then Pull_Over else Pull_Published)"
proof -
  define R where "R = pt_remaining (rv_pulls s ! i)"
  have "talk_ok x" using send_run_talk[OF assms(1)] assms(2) by (simp add: list_all_iff)
  from talk_okE[OF this assms(3)] have "after_responses (dict_keys (xr_req_blocks req)) (sx_out x) \<noteq> None" by blast
  then have "after_responses R (resp # later) \<noteq> None" using assms(8) by (simp add: assms(4) after_append R_def)
  then have r: "R \<noteq> []" "response_ok R resp" "is_final (xs_status resp) = decides_all R resp" by (simp_all split: if_splits)
  have i: "i < length (rv_pulls s)" using assms(7) by (auto simp: pull_in_def split: if_splits)
  have inv: "recv_inv rcfg (Act_Net (Pull_Response i resp) # tr) s" by (rule inv_mono[OF recv_run_inv[OF assms(5,6)]])
  have d: "distinct R" using inv pulls_okD(2)[OF _ i] by (simp add: recv_inv_def R_def)
  have ok: "distinct (or_empty (xs_ok_reqs resp) @ response_errors resp R)"
    "set (or_empty (xs_ok_reqs resp)) \<union> set (response_errors resp R) \<subseteq> set R"
    using r(2) d by (auto simp: response_ok_def response_errors_def)
  have conf: "confirmed (Act_Net (Pull_Response i resp) # tr) i y" if "y \<in> set (or_empty (xs_ok_reqs resp))" for y
    using that by (auto simp: confirmed_def)
  obtain rs t where t: "process_pulling_result resp (pt_group (rv_pulls s ! i)) R s = ((rs, t), Inr ())"
    using answer_step[OF inv i R_def refl ok conf] by blast
  note P = process_remaining[OF t]
  have s': "s' = set_pull i rs (if is_final (xs_status resp) then Pull_Over else Pull_Published) t"
    using t assms(7) by (simp add: assms(9) pull_response_def Let_def R_def)
  have at: "rv_pulls s' ! i = (rv_pulls t ! i)\<lparr>pt_remaining := rs, pt_phase := (if is_final (xs_status resp) then Pull_Over else Pull_Published)\<rparr>"
    using i P by (simp add: s')
  have "left_open R resp = [] \<longleftrightarrow> is_final (xs_status resp)"
    using r(3) by (auto simp: left_open_def response_errors_def decides_all_def list_all_iff filter_empty_conv)
  then have "pull_in i s' = Some (if pt_remaining (rv_pulls s' ! i) = [] then Pull_Over else Pull_Published)"
    using i P at by (simp add: pull_in_def s')
  moreover have "legal (Act_Net (Pull_Response i resp)) s" using assms(7) r(2) by (simp add: R_def)
  moreover have "after_responses (dict_keys (xr_req_blocks req)) (earlier @ [resp]) = Some (pt_remaining (rv_pulls s' ! i))"
    using assms(8) r P at by (simp add: after_append R_def[symmetric])
  ultimately show ?thesis by blast
qed

text \<open>The consumer of the producer example: one task asking for both transfers.\<close>

definition ed_cfg :: receiver_cfg where
  "ed_cfg = ex_cfg\<lparr>rc_transfer := (rc_transfer ex_cfg)\<lparr>kt_base_addr := [8192]\<rparr>\<rparr>"

definition ed_event :: "string \<Rightarrow> string \<Rightarrow> int list \<Rightarrow> RecvEvent" where
  "ed_event rid tid blocks = \<lparr>re_request_id = rid, re_transfer_id = tid, re_block_ids = [blocks], re_bootstrap_addr = ''http://p/'',
     re_remote_engine_id = ''E'', re_remote_dp_rank = 0\<rparr>"

definition ed_acts :: "recv_act list" where
  "ed_acts = [Act_Recv [ed_event ''d1'' ''t1'' [3, 4], ed_event ''d2'' ''t2'' [5]], Act_Net (Query_Run 0),
     Act_Net (Query_Reply 0 (Inr [Inr (''E'', [(0, [(0, ''a0'')])])])), Act_Net (Pull_Send 0)]"

definition ed_state :: receiver where
  "ed_state = the (exec ed_cfg ed_acts new_receiver)"

lemma session_drives_pull_witness:
  "pull_request ed_cfg (rv_groups ed_state ! 0) = es_request\<lparr>xr_remote_port := 7000\<rparr> \<and>
   pt_remaining (rv_pulls (net_step ed_cfg (Pull_Response 0
     (hd (sx_out (sn_sessions (es_state (es_writing @ [Act_Written 0 0])) ! 0)))) ed_state) ! 0) = [''d2'']"
proof -
  define ps where "ps = es_state (es_writing @ [Act_Written 0 0])"
  define resp where "resp = hd (sx_out (sn_sessions ps ! 0))"
  have run: "send_run es_cfg 60 ps" unfolding ps_def by (rule es_run) code_simp
  have x: "sn_sessions ps ! 0 \<in> set (sn_sessions ps)" unfolding ps_def by code_simp
  have r: "sx_request (sn_sessions ps ! 0) = Some es_request" unfolding ps_def by code_simp
  have out: "sx_out (sn_sessions ps ! 0) = [] @ resp # []" unfolding resp_def ps_def by code_simp
  have "exec ed_cfg ed_acts new_receiver = Some ed_state" by code_simp
  from exec_run[OF run_init this] have rr: "recv_run ed_cfg (rev ed_acts @ []) ed_state" .
  have e: "rv_error ed_state = None" by code_simp
  have p: "pull_in 0 ed_state = Some Pull_Published" by code_simp
  have a: "after_responses (dict_keys (xr_req_blocks es_request)) [] = Some (pt_remaining (rv_pulls ed_state ! 0))" by code_simp
  have "after_responses (dict_keys (xr_req_blocks es_request)) ([] @ [resp]) = Some [''d2'']" unfolding resp_def ps_def by code_simp
  with session_drives_pull[OF run x r out rr e p a refl]
  have "pt_remaining (rv_pulls (net_step ed_cfg (Pull_Response 0 resp) ed_state) ! 0) = [''d2'']" by simp
  moreover have "pull_request ed_cfg (rv_groups ed_state ! 0) = es_request\<lparr>xr_remote_port := 7000\<rparr>" by code_simp
  ultimately show ?thesis unfolding resp_def ps_def by blast
qed
end
