(* ===== verification/Node.thy ===== *)
theory Node
  imports Worker_Props Cache_Pool_Work
begin

text \<open>
  One worker process: the worker of \<^verbatim>\<open>mtsc/worker.py\<close> over the Store pool of
  \<^verbatim>\<open>mtsc/kv_cache_pool.py\<close>, with any P/D transfer beside it. The pool's threads progress
  before each call of the worker as the environment says. The interface \<open>save_fence\<close> that the
  worker's release of finished requests rests on is interpreted on the pool's own operations, which
  gives the end-to-end fact: the engine is told to free a request's blocks only when no Store save
  can read them any more.
\<close>

section \<open>The backend of a worker\<close>

text \<open>The operations of a transfer, over its own state.\<close>

record 't transfer_ops =
  xo_register :: "'t \<Rightarrow> 't \<times> unit result"
  xo_sync :: "'t \<Rightarrow> 't"
  xo_cancel :: "string \<Rightarrow> string \<Rightarrow> 't \<Rightarrow> 't result"
  xo_prepare :: "string \<Rightarrow> string \<Rightarrow> 't \<Rightarrow> 't result"
  xo_send :: "SendEvent \<Rightarrow> 't \<Rightarrow> 't result"
  xo_recv :: "RecvEvent list \<Rightarrow> 't \<Rightarrow> 't result"
  xo_poll :: "'t \<Rightarrow> (TransferPollResult \<times> 't) result"
  xo_errors :: "'t \<Rightarrow> (int set \<times> 't) result"
  xo_preempt :: "string \<Rightarrow> 't \<Rightarrow> 't result"
  xo_close :: "'t \<Rightarrow> 't \<times> unit result"

text \<open>What the pool's threads do, and the environment of a call: their progress before it, the
  outcomes of the tasks a fence waits for, and the clock.\<close>

datatype thread_event =
    Start_Load
  | Finish_Load future "LoadOutcome result"
  | Start_Save
  | Finish_Save future "unit result"

fun thread_step :: "thread_event \<Rightarrow> cache_pool \<Rightarrow> cache_pool" where
  "thread_step Start_Load st = st\<lparr>cp_load_pool := start_next (cp_load_pool st)\<rparr>"
| "thread_step (Finish_Load f r) st = st\<lparr>cp_load_pool := finish f r (cp_load_pool st)\<rparr>"
| "thread_step Start_Save st = st\<lparr>cp_save_pool := start_next (cp_save_pool st)\<rparr>"
| "thread_step (Finish_Save f r) st = st\<lparr>cp_save_pool := finish f r (cp_save_pool st)\<rparr>"

record pool_env =
  pe_threads :: "thread_event list"
  pe_load_ends :: "future \<Rightarrow> LoadOutcome result"
  pe_save_ends :: "future \<Rightarrow> unit result"
  pe_now :: rat

definition progressed :: "pool_env \<Rightarrow> cache_pool \<Rightarrow> cache_pool" where
  "progressed env st = fold thread_step (pe_threads env) st"

text \<open>A transfer operation runs on its own half.\<close>

definition lift_op :: "('t \<Rightarrow> 't result) \<Rightarrow> cache_pool \<times> 't \<Rightarrow> (cache_pool \<times> 't) result" where
  "lift_op f b = map_sum id (Pair (fst b)) (f (snd b))"

definition lift_get :: "('t \<Rightarrow> ('a \<times> 't) result) \<Rightarrow> cache_pool \<times> 't \<Rightarrow> ('a \<times> cache_pool \<times> 't) result" where
  "lift_get f b = map_sum id (\<lambda>(x, t). (x, fst b, t)) (f (snd b))"

definition lift_call :: "('t \<Rightarrow> 't \<times> unit result) \<Rightarrow> cache_pool \<times> 't \<Rightarrow> (cache_pool \<times> 't) \<times> unit result" where
  "lift_call f b = (let (t, r) = f (snd b) in ((fst b, t), r))"

definition pool_op :: "pool_env \<Rightarrow> (cache_pool \<Rightarrow> cache_pool result) \<Rightarrow> cache_pool \<times> 't \<Rightarrow> (cache_pool \<times> 't) result" where
  "pool_op env f b = map_sum id (\<lambda>st. (st, snd b)) (f (progressed env (fst b)))"

definition node_backend ::
  "cdiv_fun \<Rightarrow> pool_cfg \<Rightarrow> (cache_pool \<Rightarrow> cache_pool \<times> unit result) \<Rightarrow> 't transfer_ops \<Rightarrow> pool_env \<Rightarrow> (cache_pool \<times> 't) backend" where
  "node_backend cd cfg reg ops env =
     \<lparr>bk_pool_register = (\<lambda>b. let (st, r) = reg (fst b) in ((st, snd b), r)),
      bk_register = lift_call (xo_register ops),
      bk_pool_load = (\<lambda>ev. pool_op env (cp_load cfg (pe_now env) ev)),
      bk_pool_save = (\<lambda>ev. pool_op env (cp_save cd cfg ev)),
      bk_pool_poll = (\<lambda>b. map_sum id (\<lambda>(r, st). (r, st, snd b)) (cp_poll cd cfg (pe_now env) (progressed env (fst b)))),
      bk_pool_errors = (\<lambda>b. let (es, st) = cp_take_errors (fst b) in (es, st, snd b)),
      bk_pool_preempt = (\<lambda>rid. pool_op env (\<lambda>st. Inr (cp_preempt (pe_load_ends env) (pe_save_ends env) rid st))),
      bk_pool_close = (\<lambda>b. ((cp_close (pe_load_ends env) (pe_save_ends env) (progressed env (fst b)), snd b), Inr ())),
      bk_sync = (\<lambda>b. (fst b, xo_sync ops (snd b))),
      bk_cancel = (\<lambda>rid tid. lift_op (xo_cancel ops rid tid)),
      bk_prepare = (\<lambda>rid tid. lift_op (xo_prepare ops rid tid)),
      bk_send = (\<lambda>ev. lift_op (xo_send ops ev)),
      bk_recv = (\<lambda>evs. lift_op (xo_recv ops evs)),
      bk_poll = lift_get (xo_poll ops),
      bk_errors = lift_get (xo_errors ops),
      bk_preempt = (\<lambda>rid. lift_op (xo_preempt ops rid)),
      bk_close = lift_call (xo_close ops)\<rparr>"

section \<open>The pool keeps the worker's interface\<close>

definition saving :: "cache_pool \<Rightarrow> string set" where
  "saving st = {rid. dict_has (cp_save_states st) rid}"

lemma thread_step_pool: "pool_step cd cfg st (thread_step ev st)"
  by (cases ev) (auto intro: pool_step.intros)

lemma progressed_reachable: "pool_reachable cd cfg st \<Longrightarrow> pool_reachable cd cfg (progressed env st)"
  unfolding progressed_def by (rule fold_inv[where P = "pool_reachable cd cfg"]) (auto intro: pool_next thread_step_pool)

lemma thread_step_states [simp]: "cp_save_states (thread_step ev st) = cp_save_states st"
  by (cases ev) simp_all

lemma progressed_saving [simp]: "saving (progressed env st) = saving st"
proof -
  have "cp_save_states (progressed env st) = cp_save_states st"
    unfolding progressed_def by (rule fold_inv[where P = "\<lambda>s. cp_save_states s = cp_save_states st"]) simp_all
  then show ?thesis by (simp add: saving_def)
qed

lemma cp_load_saving: "cp_load cfg now ev st = Inr st' \<Longrightarrow> saving st' = saving st"
  by (auto simp: cp_load_def saving_def split: sum.splits if_splits)

lemma cp_save_saving: "cp_save cd cfg ev st = Inr st' \<Longrightarrow> saving st' \<subseteq> insert (se_request_id ev) (saving st)"
  by (auto simp: cp_save_def saving_def Let_def dict_simps split: sum.splits)

lemma cp_poll_saving:
  assumes inv: "pool_inv st" and p: "cp_poll cd cfg now st = Inr (res, st')"
  shows "saving st' \<subseteq> saving st - rs_request_id ` set (pr_saves res)"
proof -
  obtain st1 loads saves where l: "fold_res (poll_load cd cfg now) (cp_loads st) (st, []) = Inr (st1, loads)"
    and s: "fold_res poll_save (cp_save_states st1) (st1, []) = Inr (st', saves)"
    using p by (auto simp: cp_poll_def split: sum.splits)
  have wl: "dict_wf (cp_loads st)" using inv loads_invD(1) by (auto simp: pool_inv_def)
  note Q = poll_loads_inv[OF l inv _ dict_in_get[OF wl]]
  have I1: "pool_inv st1" "cp_save_states st1 = cp_save_states st" using Q wl by (auto simp: dict_wf_def)
  have ws: "dict_wf (cp_save_states st1)" using I1 saves_invD(1) by (auto simp: pool_inv_def)
  note P = poll_saves_inv[OF s I1(1) _ dict_in_get[OF ws]]
  have keep: "dict_get (cp_save_states st') rid = None" if n: "dict_get (cp_save_states st) rid = None" for rid
  proof -
    have "rid \<notin> fst ` set (cp_save_states st1)"
      using n I1(2) pd.keys_get[of rid "cp_save_states st1"] by (auto simp: dict_keys_def)
    then show ?thesis using P ws n I1(2) by (simp add: dict_wf_def)
  qed
  show ?thesis
  proof
    fix rid assume m: "rid \<in> saving st'"
    then have n: "dict_get (cp_save_states st') rid \<noteq> None" by (simp add: saving_def dict_has_def)
    have "dict_get (cp_save_states st) rid \<noteq> None" using n by (rule contrapos_nn) (rule keep)
    moreover have "rid \<notin> rs_request_id ` set (pr_saves res)"
    proof
      assume "rid \<in> rs_request_id ` set (pr_saves res)"
      then obtain r where "r \<in> set (pr_saves res)" "rid = rs_request_id r" by blast
      then show False using cp_poll_inv(2)[OF inv p] n by simp
    qed
    ultimately show "rid \<in> saving st - rs_request_id ` set (pr_saves res)" by (simp add: saving_def dict_has_def)
  qed
qed

lemma cp_preempt_saving: "saving (cp_preempt load_ends save_ends rid st) = saving st - {rid}"
  by (auto simp: cp_preempt_eq saving_def dict_simps)

definition node_busy :: "cache_pool \<times> 't \<Rightarrow> string set" where
  "node_busy b = saving (fst b)"

definition node_ok :: "cdiv_fun \<Rightarrow> pool_cfg \<Rightarrow> cache_pool \<times> 't \<Rightarrow> bool" where
  "node_ok cd cfg b \<longleftrightarrow> pool_reachable cd cfg (fst b)"

lemma lift_op_frame: "lift_op f b = Inr b' \<Longrightarrow> fst b' = fst b"
  by (auto simp: lift_op_def map_sum_def split: sum.splits)

lemma lift_get_frame: "lift_get f b = Inr (x, b') \<Longrightarrow> fst b' = fst b"
  by (auto simp: lift_get_def map_sum_def split: sum.splits prod.splits)

interpretation node: save_fence "node_backend cd cfg reg ops env" node_busy "node_ok cd cfg" for cd cfg reg ops env
proof
  fix b b' :: "cache_pool \<times> 'a"
  have reach: "node_ok cd cfg b \<Longrightarrow> pool_reachable cd cfg (progressed env (fst b))"
    by (simp add: node_ok_def progressed_reachable)
  show "node_ok cd cfg b' \<and> node_busy b' \<subseteq> node_busy b"
    if "node_ok cd cfg b" "bk_pool_load (node_backend cd cfg reg ops env) lev b = Inr b'" for lev
    using that reach pool_next[OF _ step_load] cp_load_saving[of cfg "pe_now env" lev "progressed env (fst b)"]
    by (auto simp: node_backend_def pool_op_def node_ok_def node_busy_def map_sum_def split: sum.splits)
  show "node_ok cd cfg b' \<and> node_busy b' \<subseteq> insert (se_request_id sev) (node_busy b)"
    if "node_ok cd cfg b" "bk_pool_save (node_backend cd cfg reg ops env) sev b = Inr b'" for sev
    using that reach pool_next[OF _ step_save] cp_save_saving[of cd cfg sev "progressed env (fst b)"]
    by (auto simp: node_backend_def pool_op_def node_ok_def node_busy_def map_sum_def split: sum.splits)
  show "node_ok cd cfg b' \<and> node_busy b' \<subseteq> node_busy b - rs_request_id ` set (pr_saves r)"
    if o: "node_ok cd cfg b" and p: "bk_pool_poll (node_backend cd cfg reg ops env) b = Inr (r, b')" for r
  proof -
    have q: "cp_poll cd cfg (pe_now env) (progressed env (fst b)) = Inr (r, fst b')"
      using p by (auto simp: node_backend_def map_sum_def split: sum.splits prod.splits)
    have inv: "pool_inv (progressed env (fst b))" using pool_reachable_ok[OF reach[OF o]] by (simp add: pool_ok_def)
    show ?thesis using cp_poll_saving[OF inv q] pool_next[OF reach[OF o] step_poll[OF q]]
      by (simp add: node_ok_def node_busy_def)
  qed
  show "node_ok cd cfg b' \<and> node_busy b' \<subseteq> node_busy b"
    if o: "node_ok cd cfg b" and p: "bk_pool_errors (node_backend cd cfg reg ops env) b = (es, b')" for es
  proof -
    have "fst b' = snd (cp_take_errors (fst b))" using p by (auto simp: node_backend_def split: prod.splits)
    then show ?thesis using o pool_next[OF _ step_take, of cd cfg "fst b"]
      by (simp add: node_ok_def node_busy_def) (simp add: cp_take_errors_def saving_def)
  qed
  show "node_ok cd cfg b' \<and> node_busy b' \<subseteq> node_busy b - {rid}"
    if o: "node_ok cd cfg b" and p: "bk_pool_preempt (node_backend cd cfg reg ops env) rid b = Inr b'" for rid
    using pool_next[OF reach[OF o] step_preempt] p
    by (auto simp: node_backend_def pool_op_def node_ok_def node_busy_def cp_preempt_saving)
  show "node_ok cd cfg (bk_sync (node_backend cd cfg reg ops env) b) \<and>
      node_busy (bk_sync (node_backend cd cfg reg ops env) b) \<subseteq> node_busy b" if "node_ok cd cfg b"
    using that by (simp add: node_backend_def node_ok_def node_busy_def)
qed (auto simp: node_backend_def node_ok_def node_busy_def dest: lift_op_frame lift_get_frame)

section \<open>Runs\<close>

text \<open>The engine's calls, each in its own environment, from a registered pool with no save in it.\<close>

inductive node_run ::
  "cdiv_fun \<Rightarrow> pool_cfg \<Rightarrow> (cache_pool \<Rightarrow> cache_pool \<times> unit result) \<Rightarrow> 't transfer_ops \<Rightarrow> worker \<times> cache_pool \<times> 't \<Rightarrow> bool"
  for cd cfg reg ops where
  node_start: "pool_reachable cd cfg st \<Longrightarrow> cp_save_states st = [] \<Longrightarrow> node_run cd cfg reg ops (new_worker rank, st, t)"
| node_preempt: "node_run cd cfg reg ops wb \<Longrightarrow> handle_preemptions (node_backend cd cfg reg ops env) md wb = Inr wb' \<Longrightarrow>
    node_run cd cfg reg ops wb'"
| node_finished: "node_run cd cfg reg ops wb \<Longrightarrow> get_finished (node_backend cd cfg reg ops env) cd now event md wb = Inr (fins, wb') \<Longrightarrow>
    node_run cd cfg reg ops wb'"
| node_errors: "node_run cd cfg reg ops (w, b) \<Longrightarrow> node_run cd cfg reg ops (snd (get_block_ids_with_load_errors w), b)"
| node_meta: "node_run cd cfg reg ops (w, b) \<Longrightarrow> node_run cd cfg reg ops (snd (build_connector_worker_meta w), b)"

lemma node_run_tracked: "node_run cd cfg reg ops wb \<Longrightarrow> node.tracked cd cfg wb"
proof (induction rule: node_run.induct)
  case (node_start st rank t)
  then show ?case unfolding node.tracked_def
    by (simp add: node_ok_def node_busy_def saving_def new_worker_def dict_simps pd.wf_empty)
next
  case (node_preempt wb env md wb')
  then show ?case by (blast intro: node.tracked_preempt)
next
  case (node_finished wb env now event md fins wb')
  then show ?case by (blast intro: node.tracked_get_finished)
next
  case (node_errors w b)
  show ?case by (rule node.tracked_frame[OF node_errors(2)])
    (use node.trackedD(1)[OF node_errors(2)] in \<open>simp_all add: get_block_ids_with_load_errors_def\<close>)
next
  case (node_meta w b)
  show ?case by (rule node.tracked_frame[OF node_meta(2)])
    (use node.trackedD(1)[OF node_meta(2)] in \<open>simp_all add: build_connector_worker_meta_def\<close>)
qed

text \<open>
  C8: the blocks of a finished request are handed back only after its Store saves. Whatever the
  engine's calls before, the progress of the pool's threads and the transfer, when \<open>get_finished\<close>
  reports a request as sent, the wait that governs the request is one the scheduler gave for it; and
  if that wait names the Store, the pool has no save of the request left: none accepted, queued or
  running that could still read its blocks.
\<close>

theorem released_after_saves:
  assumes "node_run cd cfg reg ops wb"
    and "get_finished (node_backend cd cfg reg ops env) cd now event md wb = Inr ((Some rids, received), wb')" and "rid \<in> rids"
  shows "\<exists>fw. ((\<exists>s. dict_get (wk_finished_waits (fst wb)) rid = Some s \<and> fw = fs_wait_for s) \<or> (rid, fw) \<in> set (md_finished_waits md)) \<and>
    (fw_store_save fw \<longrightarrow> dict_get (cp_save_states (fst (snd wb'))) rid = None \<and>
      (\<forall>f. active (cp_save_pool (fst (snd wb'))) f \<longrightarrow> se_request_id (task_of (cp_save_pool (fst (snd wb'))) f) \<noteq> rid))"
proof -
  note R = node.release_after_io[OF node_run_tracked[OF assms(1)] assms(2,3)]
  have reach: "pool_reachable cd cfg (fst (snd wb'))" using node.trackedD(1)[OF R[THEN conjunct1]] by (simp add: node_ok_def)
  have free: "dict_get (cp_save_states (fst (snd wb'))) rid = None \<and>
      (\<forall>f. active (cp_save_pool (fst (snd wb'))) f \<longrightarrow> se_request_id (task_of (cp_save_pool (fst (snd wb'))) f) \<noteq> rid)"
    if "rid \<notin> node_busy (snd wb')"
  proof -
    have n: "dict_get (cp_save_states (fst (snd wb'))) rid = None"
      using that by (simp add: node_busy_def saving_def dict_has_def)
    moreover have "se_request_id (task_of (cp_save_pool (fst (snd wb'))) f) \<noteq> rid" if "active (cp_save_pool (fst (snd wb'))) f" for f
      using pool_tasks_owned_lemma(2)[OF reach that] n by auto
    ultimately show ?thesis by blast
  qed
  show ?thesis using R[THEN conjunct2] free by blast
qed


text \<open>A worker with no transfer: a save is accepted in one step and its request released in the next.\<close>

definition en_ops :: "unit transfer_ops" where
  "en_ops = \<lparr>xo_register = (\<lambda>t. (t, Inr ())), xo_sync = id, xo_cancel = (\<lambda>_ _. Inr), xo_prepare = (\<lambda>_ _. Inr), xo_send = (\<lambda>_. Inr),
     xo_recv = (\<lambda>_. Inr), xo_poll = (\<lambda>t. Inr (\<lparr>tpr_sends = [], tpr_recvs = []\<rparr>, t)), xo_errors = (\<lambda>t. Inr ({}, t)),
     xo_preempt = (\<lambda>_. Inr), xo_close = (\<lambda>t. (t, Inr ()))\<rparr>"

definition en_env :: "thread_event list \<Rightarrow> pool_env" where
  "en_env evs = \<lparr>pe_threads = evs, pe_load_ends = (\<lambda>_. Inl CancelledError), pe_save_ends = (\<lambda>_. Inr ()), pe_now = 3\<rparr>"

definition en_md :: "bool \<Rightarrow> MTSCConnectorMetadata" where
  "en_md first = \<lparr>md_pool_loads = [], md_pool_saves = (if first then [\<lparr>sr_request_id = ''a'', sr_block_ids = [[1, 2], [3]],
       sr_block_hashes = [''x'', ''y''], sr_start_token = 0, sr_end_token = 32, sr_prompt_tokens = Some 40\<rparr>] else []),
     md_transfer_plans = [], md_transfer_states = [], md_finished_waits = [(''a'', \<lparr>fw_store_save = True, fw_kv_transfer = False\<rparr>)],
     md_finished_request_ids = [], md_preempted_request_ids = []\<rparr>"

definition en_backend :: "thread_event list \<Rightarrow> (cache_pool \<times> unit) backend" where
  "en_backend evs = node_backend cdiv_ref ex_pool_cfg (\<lambda>st. (st, Inr ())) en_ops (en_env evs)"

definition en_first where
  "en_first = get_finished (en_backend []) cdiv_ref 3 7 (en_md True) (new_worker 0, ex_p0, ())"

definition en_second where
  "en_second = get_finished (en_backend [Start_Save, Finish_Save 0 (Inr ())]) cdiv_ref 4 8 (en_md False) (snd (projr en_first))"

lemma released_after_saves_witness:
  "''a'' \<in> the (fst (fst (projr en_second))) \<and> fst (fst (projr en_first)) = None \<and>
   dict_get (cp_save_states (fst (snd (snd (projr en_first))))) ''a'' \<noteq> None \<and>
   dict_get (cp_save_states (fst (snd (snd (projr en_second))))) ''a'' = None"
proof -
  have p0: "pool_reachable cdiv_ref ex_pool_cfg ex_p0" unfolding ex_p0_def
    by (rule pool_next[OF pool_start step_register]) (simp_all add: new_cache_pool_def)
  have start: "node_run cdiv_ref ex_pool_cfg (\<lambda>st. (st, Inr ())) en_ops (new_worker 0, ex_p0, ())"
    by (rule node_start[OF p0]) code_simp
  have f: "\<not> isl en_first" "\<not> isl en_second" "fst (fst (projr en_second)) \<noteq> None" by code_simp+
  have e1: "en_first = Inr (fst (projr en_first), snd (projr en_first))" using f(1) by simp
  from node_finished[OF start e1[unfolded en_first_def[unfolded en_backend_def]]]
  have run: "node_run cdiv_ref ex_pool_cfg (\<lambda>st. (st, Inr ())) en_ops (snd (projr en_first))"
    by (simp add: en_first_def en_backend_def)
  have "en_second = Inr ((Some (the (fst (fst (projr en_second)))), snd (fst (projr en_second))), snd (projr en_second))"
    using f(2,3) by (cases en_second) auto
  then have e2: "get_finished (node_backend cdiv_ref ex_pool_cfg (\<lambda>st. (st, Inr ())) en_ops (en_env [Start_Save, Finish_Save 0 (Inr ())]))
      cdiv_ref 4 8 (en_md False) (snd (projr en_first)) =
      Inr ((Some (the (fst (fst (projr en_second)))), snd (fst (projr en_second))), snd (projr en_second))"
    by (simp only: en_second_def[unfolded en_backend_def, symmetric])
  have a: "''a'' \<in> the (fst (fst (projr en_second)))" by code_simp
  from released_after_saves[OF run e2 a] obtain fw where fw: "(\<exists>s. dict_get (wk_finished_waits (fst (snd (projr en_first)))) ''a'' = Some s \<and> fw = fs_wait_for s) \<or>
      (''a'', fw) \<in> set (md_finished_waits (en_md False))"
    "fw_store_save fw \<longrightarrow> dict_get (cp_save_states (fst (snd (snd (projr en_second))))) ''a'' = None"
    by blast
  have "map_option fs_wait_for (dict_get (wk_finished_waits (fst (snd (projr en_first)))) ''a'') = Some \<lparr>fw_store_save = True, fw_kv_transfer = False\<rparr>"
    by code_simp
  then have "fw_store_save fw" using fw(1) by (auto simp: en_md_def)
  moreover have "fst (fst (projr en_first)) = None" "dict_get (cp_save_states (fst (snd (snd (projr en_first))))) ''a'' \<noteq> None"
    by code_simp+
  ultimately show ?thesis using a fw(2) by blast
qed
end
