(* ===== verification/Proxy.thy ===== *)
theory Proxy
  imports Py_Values
begin

text \<open>
  Models \<^verbatim>\<open>proxy/pd_proxy.py\<close>: the proxy that turns a client request into a Prefill and a Decode
  request that share a transfer ID.

  Every handler is a state machine whose states are the \<open>await\<close>s of \<open>_handle\<close> and
  \<open>_stream_decode\<close>; the two backend tasks and the task of the next chunk progress by events of
  their own. The answers of the backends, the clock and \<open>uuid4\<close> are arguments of the events. An
  \<open>await\<close> that only collects a cancelled task, closes the client session or puts a record into
  the metrics queue is part of the step it stands in, and the clock stands still within a step.
  A pair of readings of \<open>time.time\<close> and \<open>time.monotonic\<close> is one \<open>stamp\<close>; times are exact
  rationals. Text formatting by other libraries is in \<open>proxy_env\<close>.
\<close>

section \<open>JSON values\<close>

datatype json = JNull | JBool bool | JInt int | JFloat rat | JStr string
  | JList "json list" | JDict "(string, json) dict"

fun json_true :: "json \<Rightarrow> bool" where
  "json_true JNull = False"
| "json_true (JBool b) = b"
| "json_true (JInt i) = (i \<noteq> 0)"
| "json_true (JFloat r) = (r \<noteq> 0)"
| "json_true (JStr s) = (s \<noteq> [])"
| "json_true (JList xs) = (xs \<noteq> [])"
| "json_true (JDict d) = (d \<noteq> [])"

text \<open>\<open>isinstance(value, int)\<close> and the integer; a \<open>bool\<close> is an \<open>int\<close>.\<close>

fun json_int :: "json \<Rightarrow> int option" where
  "json_int (JInt i) = Some i"
| "json_int (JBool b) = Some (if b then 1 else 0)"
| "json_int _ = None"

fun json_type :: "json \<Rightarrow> string" where
  "json_type JNull = ''NoneType''"
| "json_type (JBool _) = ''bool''"
| "json_type (JInt _) = ''int''"
| "json_type (JFloat _) = ''float''"
| "json_type (JStr _) = ''str''"
| "json_type (JList _) = ''list''"
| "json_type (JDict _) = ''dict''"

definition json_get :: "(string, json) dict \<Rightarrow> string \<Rightarrow> json" where
  "json_get d k = (case dict_get d k of None \<Rightarrow> JNull | Some v \<Rightarrow> v)"

definition j_str :: "string option \<Rightarrow> json" where
  "j_str x = (case x of None \<Rightarrow> JNull | Some s \<Rightarrow> JStr s)"

definition j_int :: "int option \<Rightarrow> json" where
  "j_int x = (case x of None \<Rightarrow> JNull | Some i \<Rightarrow> JInt i)"

definition j_float :: "rat option \<Rightarrow> json" where
  "j_float x = (case x of None \<Rightarrow> JNull | Some r \<Rightarrow> JFloat r)"

definition j_bool :: "bool option \<Rightarrow> json" where
  "j_bool x = (case x of None \<Rightarrow> JNull | Some b \<Rightarrow> JBool b)"

section \<open>Exceptions and the environment\<close>

text \<open>An exception as the proxy sees it: its class (for the two it tests), type name and text.\<close>

datatype exn = Cancelled string | Timed_Out string string | Failed string string

fun exn_type :: "exn \<Rightarrow> string" where
  "exn_type (Cancelled t) = ''CancelledError''"
| "exn_type (Timed_Out n t) = n"
| "exn_type (Failed n t) = n"

fun exn_text :: "exn \<Rightarrow> string" where
  "exn_text (Cancelled t) = t"
| "exn_text (Timed_Out n t) = t"
| "exn_text (Failed n t) = t"

definition is_cancelled :: "exn \<Rightarrow> bool" where
  "is_cancelled e = (case e of Cancelled _ \<Rightarrow> True | _ \<Rightarrow> False)"

definition is_timeout :: "exn \<Rightarrow> bool" where
  "is_timeout e = (case e of Timed_Out _ _ \<Rightarrow> True | _ \<Rightarrow> False)"

type_synonym payload = string
type_synonym stamp = "rat \<times> rat"

record proxy_env =
  en_isoformat :: "rat \<Rightarrow> string"          \<comment> \<open>\<open>datetime.fromtimestamp(t, utc).isoformat()\<close>\<close>
  en_host :: "string \<Rightarrow> string option"      \<comment> \<open>\<open>urlsplit(url).hostname\<close>\<close>
  en_port :: "string \<Rightarrow> int option"         \<comment> \<open>\<open>urlsplit(url).port\<close> of a valid URL\<close>
  en_repr :: "json \<Rightarrow> string"               \<comment> \<open>\<open>str\<close> of a float, list or dictionary\<close>
  en_fixed3 :: "rat \<Rightarrow> string"              \<comment> \<open>the format \<open>.3f\<close>\<close>
  en_utf8 :: "payload \<Rightarrow> string"            \<comment> \<open>\<open>bytes.decode(errors='replace')\<close>\<close>
  en_http_text :: "int \<Rightarrow> string \<Rightarrow> string" \<comment> \<open>\<open>str(HTTPException(status, detail))\<close>\<close>
  en_dumps :: "json \<Rightarrow> string"              \<comment> \<open>\<open>json.dumps\<close>\<close>

section \<open>Requests and their metrics\<close>

record PrefillEndpoint =
  ep_api_url :: string
  ep_engine_id :: string
  ep_bootstrap_addr :: string
  ep_dp_rank :: "int option"

record DecodeEndpoint =
  ed_api_url :: string

record RequestMetrics =
  qm_request_id :: string
  qm_client_request_id :: "string option"
  qm_transfer_id :: string
  qm_endpoint :: string
  qm_prefill :: PrefillEndpoint
  qm_decode :: DecodeEndpoint
  qm_model :: "string option"
  qm_stream :: "bool option"
  qm_max_tokens :: "int option"
  qm_prompt_tokens :: "int option"
  qm_request_received :: stamp
  qm_prefill_start :: "stamp option"
  qm_prefill_end :: "stamp option"
  qm_decode_start :: "stamp option"
  qm_decode_headers :: "stamp option"
  qm_decode_first_chunk :: "stamp option"
  qm_decode_end :: "stamp option"
  qm_request_end :: "stamp option"
  qm_prefill_http_status :: "int option"
  qm_decode_http_status :: "int option"
  qm_outcome :: string
  qm_error_stage :: "string option"
  qm_error_type :: "string option"
  qm_error_message :: "string option"

definition new_metrics ::
  "string \<Rightarrow> string option \<Rightarrow> string \<Rightarrow> string \<Rightarrow> PrefillEndpoint \<Rightarrow> DecodeEndpoint \<Rightarrow> stamp \<Rightarrow> RequestMetrics" where
  "new_metrics request_id client_request_id transfer_id endpoint prefill decode now =
     \<lparr>qm_request_id = request_id, qm_client_request_id = client_request_id, qm_transfer_id = transfer_id,
      qm_endpoint = endpoint, qm_prefill = prefill, qm_decode = decode,
      qm_model = None, qm_stream = None, qm_max_tokens = None, qm_prompt_tokens = None,
      qm_request_received = now, qm_prefill_start = None, qm_prefill_end = None,
      qm_decode_start = None, qm_decode_headers = None, qm_decode_first_chunk = None,
      qm_decode_end = None, qm_request_end = None,
      qm_prefill_http_status = None, qm_decode_http_status = None,
      qm_outcome = ''running'', qm_error_stage = None, qm_error_type = None, qm_error_message = None\<rparr>"

definition json_str :: "proxy_env \<Rightarrow> json \<Rightarrow> string" where
  "json_str env v =
     (case v of JNull \<Rightarrow> ''None'' | JBool b \<Rightarrow> (if b then ''True'' else ''False'')
      | JInt i \<Rightarrow> int_str i | JStr s \<Rightarrow> s | _ \<Rightarrow> en_repr env v)"

definition set_body :: "proxy_env \<Rightarrow> (string, json) dict \<Rightarrow> RequestMetrics \<Rightarrow> RequestMetrics" where
  "set_body env body m =
     (let model = json_get body ''model'';
          stream = (case dict_get body ''stream'' of None \<Rightarrow> JBool False | Some v \<Rightarrow> v);
          limit = (case dict_get body ''max_tokens'' of Some v \<Rightarrow> v
                   | None \<Rightarrow> json_get body ''max_completion_tokens'')
      in m\<lparr>qm_model := (if model \<noteq> JNull then Some (json_str env model) else None),
           qm_stream := Some (json_true stream),
           qm_max_tokens := json_int limit,
           qm_prompt_tokens :=
             (case json_get body ''prompt'' of
                JList items \<Rightarrow> (if list_all (\<lambda>x. json_int x \<noteq> None) items then Some (int (length items))
                                else qm_prompt_tokens m)
              | _ \<Rightarrow> qm_prompt_tokens m)\<rparr>)"

text \<open>\<open>round(x, 3)\<close>: ties go to the even digit.\<close>

definition round_even :: "rat \<Rightarrow> int" where
  "round_even x =
     (let f = \<lfloor>x\<rfloor>; d = x - of_int f
      in if d < 1 / 2 \<or> d = 1 / 2 \<and> even f then f else f + 1)"

definition duration_ms :: "stamp option \<Rightarrow> stamp option \<Rightarrow> rat option" where
  "duration_ms start stop =
     (case (start, stop) of
        (Some s, Some t) \<Rightarrow> Some (of_int (round_even ((snd t - snd s) * 1000 * 1000)) / 1000)
      | _ \<Rightarrow> None)"

definition iso8601 :: "proxy_env \<Rightarrow> stamp option \<Rightarrow> json" where
  "iso8601 env t = (case t of None \<Rightarrow> JNull | Some s \<Rightarrow> JStr (en_isoformat env (fst s)))"

definition to_record :: "proxy_env \<Rightarrow> RequestMetrics \<Rightarrow> (string, json) dict" where
  "to_record env m =
     [(''schema_version'', JInt 1),
      (''record_type'', JStr ''mtsc_proxy_request''),
      (''request_id'', JStr (qm_request_id m)),
      (''client_request_id'', j_str (qm_client_request_id m)),
      (''transfer_id'', JStr (qm_transfer_id m)),
      (''endpoint'', JStr (qm_endpoint m)),
      (''model'', j_str (qm_model m)),
      (''stream'', j_bool (qm_stream m)),
      (''max_tokens'', j_int (qm_max_tokens m)),
      (''prompt_tokens'', j_int (qm_prompt_tokens m)),
      (''prefill_host'', j_str (en_host env (ep_api_url (qm_prefill m)))),
      (''prefill_port'', j_int (en_port env (ep_api_url (qm_prefill m)))),
      (''prefill_engine_id'', JStr (ep_engine_id (qm_prefill m))),
      (''prefill_dp_rank'', JInt (case ep_dp_rank (qm_prefill m) of None \<Rightarrow> 0 | Some r \<Rightarrow> r)),
      (''decode_host'', j_str (en_host env (ed_api_url (qm_decode m)))),
      (''decode_port'', j_int (en_port env (ed_api_url (qm_decode m)))),
      (''request_received_at'', iso8601 env (Some (qm_request_received m))),
      (''prefill_start_at'', iso8601 env (qm_prefill_start m)),
      (''prefill_end_at'', iso8601 env (qm_prefill_end m)),
      (''decode_start_at'', iso8601 env (qm_decode_start m)),
      (''decode_headers_at'', iso8601 env (qm_decode_headers m)),
      (''decode_first_chunk_at'', iso8601 env (qm_decode_first_chunk m)),
      (''decode_end_at'', iso8601 env (qm_decode_end m)),
      (''request_end_at'', iso8601 env (qm_request_end m)),
      (''prefill_duration_ms'', j_float (duration_ms (qm_prefill_start m) (qm_prefill_end m))),
      (''decode_headers_latency_ms'', j_float (duration_ms (qm_decode_start m) (qm_decode_headers m))),
      (''decode_ttft_ms'', j_float (duration_ms (qm_decode_start m) (qm_decode_first_chunk m))),
      (''decode_duration_ms'', j_float (duration_ms (qm_decode_start m) (qm_decode_end m))),
      (''total_duration_ms'', j_float (duration_ms (Some (qm_request_received m)) (qm_request_end m))),
      (''prefill_http_status'', j_int (qm_prefill_http_status m)),
      (''decode_http_status'', j_int (qm_decode_http_status m)),
      (''outcome'', JStr (qm_outcome m)),
      (''error_stage'', j_str (qm_error_stage m)),
      (''error_type'', j_str (qm_error_type m)),
      (''error_message'', j_str (qm_error_message m))]"

section \<open>The metrics writer\<close>

text \<open>
  The queue of \<open>JsonlMetricsWriter\<close>: records and the \<open>None\<close> that ends the writer task. Records
  that wait in \<open>put\<close> because the queue is full stand in it already, in the order of the calls.
  \<open>jw_lines\<close> is what the writer has appended to the file.
\<close>

record JsonlMetricsWriter =
  jw_path :: "string option"
  jw_queue_size :: int
  jw_queue :: "(string, json) dict option list"
  jw_running :: bool
  jw_lines :: "string list"
  jw_write_failures :: nat

definition new_writer :: "string option \<Rightarrow> int \<Rightarrow> JsonlMetricsWriter" where
  "new_writer path queue_size =
     \<lparr>jw_path = path, jw_queue_size = max 1 queue_size, jw_queue = [], jw_running = False,
      jw_lines = [], jw_write_failures = 0\<rparr>"

text \<open>One turn of \<open>_run\<close>; \<open>ok\<close> tells for each record whether the append succeeds.\<close>

definition writer_turn ::
  "proxy_env \<Rightarrow> ((string, json) dict \<Rightarrow> bool) \<Rightarrow> JsonlMetricsWriter \<Rightarrow> JsonlMetricsWriter" where
  "writer_turn env ok w =
     (if \<not> jw_running w then w
      else case jw_queue w of [] \<Rightarrow> w
        | None # rest \<Rightarrow> w\<lparr>jw_queue := rest, jw_running := False\<rparr>
        | Some r # rest \<Rightarrow>
            (if ok r then w\<lparr>jw_queue := rest, jw_lines := jw_lines w @ [en_dumps env (JDict r)]\<rparr>
             else w\<lparr>jw_queue := rest, jw_write_failures := jw_write_failures w + 1\<rparr>))"

definition writer_write :: "(string, json) dict \<Rightarrow> JsonlMetricsWriter \<Rightarrow> JsonlMetricsWriter" where
  "writer_write r w =
     (if jw_path w = None then w
      else w\<lparr>jw_running := True, jw_queue := jw_queue w @ [Some r]\<rparr>)"

text \<open>\<open>close\<close> puts the end mark and awaits the task: it turns once per queued item.\<close>

definition writer_close ::
  "proxy_env \<Rightarrow> ((string, json) dict \<Rightarrow> bool) \<Rightarrow> JsonlMetricsWriter \<Rightarrow> JsonlMetricsWriter" where
  "writer_close env ok w =
     (if \<not> jw_running w then w
      else (writer_turn env ok ^^ Suc (length (jw_queue w))) (w\<lparr>jw_queue := jw_queue w @ [None]\<rparr>))"

section \<open>Sessions\<close>

datatype prefill_task = Task_New | Task_Running | Task_Done "exn option"

record TransferSession =
  qs_request_id :: string
  qs_transfer_id :: string
  qs_prefill :: PrefillEndpoint
  qs_decode :: DecodeEndpoint
  qs_metrics :: RequestMetrics
  qs_prefill_task :: "prefill_task option"

record raw_request =
  hr_request_id :: "string option"
  hr_authorization :: "string option"
  hr_content_type :: string

datatype header_task = Head_Running | Head_Done int "string option" | Head_Error exn
datatype chunk_task = Chunk_Running | Chunk_Ready payload | Chunk_End | Chunk_Error exn

text \<open>
  Where a handler stands: reading the body; in \<open>asyncio.wait\<close> for both tasks; awaiting the decode
  headers; reading an error body; the streaming generator not started, waiting for a chunk or the
  prefill, awaiting the chunk alone, suspended at its \<open>yield\<close>, awaiting the prefill at the end;
  done; or gone without having run \<open>_finish\<close>.
\<close>

datatype phase = Reading | Waiting | Heading | Reading_Error
  | Stream_New | Stream_Wait | Stream_Chunk | Stream_Yield | Stream_Prefill | Over | Lost

datatype reply = Reply_Json int string | Reply_Http int string | Reply_Body int payload string
  | Reply_Stream int string | Reply_Raise exn

record handler =
  hn_session :: TransferSession
  hn_request :: raw_request
  hn_route :: string
  hn_phase :: phase
  hn_prefill_post :: "(string \<times> (string, json) dict \<times> (string, string) dict) option"
  hn_decode_post :: "(string \<times> (string, json) dict \<times> (string, string) dict) option"
  hn_headers_task :: header_task
  hn_client_open :: bool
  hn_chunk :: chunk_task
  hn_pending_prefill :: bool
  hn_deadline :: rat
  hn_sent :: "payload list"
  hn_reply :: "reply option"
  hn_raised :: "exn option"

record proxy =
  pz_prefill :: "PrefillEndpoint list"
  pz_decode :: "DecodeEndpoint list"
  pz_prefill_cycle :: nat
  pz_decode_cycle :: nat
  pz_metrics :: JsonlMetricsWriter
  pz_backend_token :: "string option"
  pz_first_token_timeout :: rat
  pz_sessions :: "(string, nat) dict"
  pz_handlers :: "handler list"

definition new_proxy ::
  "PrefillEndpoint list \<Rightarrow> DecodeEndpoint list \<Rightarrow> string option \<Rightarrow> string option \<Rightarrow> int \<Rightarrow> rat \<Rightarrow> proxy result" where
  "new_proxy prefill decode metrics_file backend_token metrics_queue_size first_token_timeout =
     (if prefill = [] \<or> decode = []
      then Inl (ValueError ''At least one Prefill and one Decode endpoint are required'')
      else if first_token_timeout \<le> 0 then Inl (ValueError ''first_token_timeout must be positive'')
      else Inr \<lparr>pz_prefill = prefill, pz_decode = decode, pz_prefill_cycle = 0, pz_decode_cycle = 0,
                pz_metrics = new_writer metrics_file metrics_queue_size,
                pz_backend_token = backend_token, pz_first_token_timeout = first_token_timeout,
                pz_sessions = [], pz_handlers = []\<rparr>)"

definition proxy_status :: "proxy \<Rightarrow> PrefillEndpoint list \<times> DecodeEndpoint list" where
  "proxy_status st = (pz_prefill st, pz_decode st)"

text \<open>
  \<open>_new_session\<close>: the next endpoint of either cycle; the session object is the last handler's, and
  the dictionary refers to it by its index.
\<close>

definition new_session :: "string \<Rightarrow> stamp \<Rightarrow> raw_request \<Rightarrow> string \<Rightarrow> proxy \<Rightarrow> proxy" where
  "new_session request_id now raw_request route st =
     (let transfer_id = ''xfer-'' @ request_id;
          prefill = pz_prefill st ! pz_prefill_cycle st;
          decode = pz_decode st ! pz_decode_cycle st;
          session = \<lparr>qs_request_id = request_id, qs_transfer_id = transfer_id,
                     qs_prefill = prefill, qs_decode = decode,
                     qs_metrics = new_metrics request_id (hr_request_id raw_request) transfer_id route prefill decode now,
                     qs_prefill_task = None\<rparr>;
          h = \<lparr>hn_session = session, hn_request = raw_request, hn_route = route, hn_phase = Reading,
               hn_prefill_post = None, hn_decode_post = None, hn_headers_task = Head_Running,
               hn_client_open = False, hn_chunk = Chunk_Running, hn_pending_prefill = False, hn_deadline = 0,
               hn_sent = [], hn_reply = None, hn_raised = None\<rparr>
      in st\<lparr>pz_prefill_cycle := (pz_prefill_cycle st + 1) mod length (pz_prefill st),
            pz_decode_cycle := (pz_decode_cycle st + 1) mod length (pz_decode st),
            pz_sessions := dict_set request_id (length (pz_handlers st)) (pz_sessions st),
            pz_handlers := pz_handlers st @ [h]\<rparr>)"

definition proxy_headers :: "proxy \<Rightarrow> raw_request \<Rightarrow> TransferSession \<Rightarrow> (string, string) dict" where
  "proxy_headers st raw_request session =
     (let headers = [(''Content-Type'', ''application/json''), (''X-Request-Id'', qs_request_id session)];
          authorization = (case pz_backend_token st of
              Some t \<Rightarrow> (if t \<noteq> [] then Some (''Bearer '' @ t) else hr_authorization raw_request)
            | None \<Rightarrow> hr_authorization raw_request)
      in case authorization of None \<Rightarrow> headers
         | Some a \<Rightarrow> (if a \<noteq> [] then dict_set ''Authorization'' a headers else headers))"

text \<open>\<open>min(value, 1)\<close> on a JSON value.\<close>

definition json_min1 :: "json \<Rightarrow> json result" where
  "json_min1 v =
     (case v of
        JInt i \<Rightarrow> Inr (if 1 < i then JInt 1 else v)
      | JBool b \<Rightarrow> Inr v
      | JFloat r \<Rightarrow> Inr (if 1 < r then JInt 1 else v)
      | _ \<Rightarrow> Inl (TypeError (''less-than not supported between instances of int and '' @ json_type v)))"

definition prefill_body :: "(string, json) dict \<Rightarrow> TransferSession \<Rightarrow> (string, json) dict result" where
  "prefill_body body session =
     (let r1 = dict_pop ''stream_options'' (dict_set ''stream'' (JBool False) body);
          r2 = dict_set ''max_tokens'' (JInt 1) r1
      in case (case dict_get r2 ''min_tokens'' of None \<Rightarrow> Inr r2
               | Some v \<Rightarrow> (case json_min1 v of Inl e \<Rightarrow> Inl e | Inr w \<Rightarrow> Inr (dict_set ''min_tokens'' w r2))) of
           Inl e \<Rightarrow> Inl e
         | Inr r3 \<Rightarrow>
             (let r4 = (if dict_has r3 ''max_completion_tokens''
                        then dict_set ''max_completion_tokens'' (JInt 1) r3 else r3)
              in Inr (dict_set ''kv_transfer_params''
                   (JDict [(''do_remote_decode'', JBool True), (''do_remote_prefill'', JBool False),
                           (''transfer_id'', JStr (qs_transfer_id session))]) r4)))"

definition decode_body :: "(string, json) dict \<Rightarrow> TransferSession \<Rightarrow> (string, json) dict" where
  "decode_body body session =
     dict_set ''kv_transfer_params''
       (JDict [(''do_remote_decode'', JBool False), (''do_remote_prefill'', JBool True),
               (''remote_engine_id'', JStr (ep_engine_id (qs_prefill session))),
               (''remote_bootstrap_addr'', JStr (ep_bootstrap_addr (qs_prefill session))),
               (''remote_dp_rank'', JInt (case ep_dp_rank (qs_prefill session) of None \<Rightarrow> 0 | Some r \<Rightarrow> r)),
               (''transfer_id'', JStr (qs_transfer_id session))]) body"

definition prefill_headers :: "(string, string) dict \<Rightarrow> TransferSession \<Rightarrow> (string, string) dict" where
  "prefill_headers headers session =
     (case ep_dp_rank (qs_prefill session) of None \<Rightarrow> headers
      | Some r \<Rightarrow> dict_set ''X-data-parallel-rank'' (int_str r) headers)"

section \<open>Updates\<close>

definition on_handler :: "nat \<Rightarrow> (handler \<Rightarrow> handler) \<Rightarrow> proxy \<Rightarrow> proxy" where
  "on_handler i f st = st\<lparr>pz_handlers := (pz_handlers st)[i := f (pz_handlers st ! i)]\<rparr>"

definition metrics_of :: "handler \<Rightarrow> RequestMetrics" where
  "metrics_of h = qs_metrics (hn_session h)"

definition on_metrics :: "(RequestMetrics \<Rightarrow> RequestMetrics) \<Rightarrow> handler \<Rightarrow> handler" where
  "on_metrics f h = h\<lparr>hn_session := (hn_session h)\<lparr>qs_metrics := f (qs_metrics (hn_session h))\<rparr>\<rparr>"

definition set_prefill_task :: "prefill_task \<Rightarrow> handler \<Rightarrow> handler" where
  "set_prefill_task t h = h\<lparr>hn_session := (hn_session h)\<lparr>qs_prefill_task := Some t\<rparr>\<rparr>"

definition prefill_result :: "handler \<Rightarrow> exn option option" where
  "prefill_result h = (case qs_prefill_task (hn_session h) of Some (Task_Done r) \<Rightarrow> Some r | _ \<Rightarrow> None)"

definition is_ok_status :: "int \<Rightarrow> bool" where
  "is_ok_status s = (200 \<le> s \<and> s < 300)"

text \<open>The part of a Content-Type before the first semicolon.\<close>

definition media_type :: "string option \<Rightarrow> string" where
  "media_type ct = hd (str_split (CHR '';'') (case ct of None \<Rightarrow> ''application/json'' | Some c \<Rightarrow> c))"

definition http_error_text :: "proxy_env \<Rightarrow> string \<Rightarrow> int \<Rightarrow> payload \<Rightarrow> string" where
  "http_error_text env who status payload =
     who @ '' returned HTTP '' @ int_str status @ '': '' @ en_utf8 env (take 512 payload)"

section \<open>The prefill task\<close>

definition prefill_started :: "stamp \<Rightarrow> handler \<Rightarrow> handler" where
  "prefill_started now h =
     (if qs_prefill_task (hn_session h) = Some Task_New
      then set_prefill_task Task_Running (on_metrics (qm_prefill_start_update (\<lambda>_. Some now)) h) else h)"

text \<open>The \<open>finally\<close> of \<open>_run_prefill\<close> stamps the end on every way out.\<close>

definition prefill_ends :: "stamp \<Rightarrow> exn option \<Rightarrow> handler \<Rightarrow> handler" where
  "prefill_ends now result h =
     set_prefill_task (Task_Done result) (on_metrics (qm_prefill_end_update (\<lambda>_. Some now)) h)"

definition prefill_replied :: "proxy_env \<Rightarrow> stamp \<Rightarrow> int \<Rightarrow> payload + exn \<Rightarrow> handler \<Rightarrow> handler" where
  "prefill_replied env now status body h =
     (if qs_prefill_task (hn_session h) = Some Task_Running
      then prefill_ends now
             (case body of Inr e \<Rightarrow> Some e
              | Inl payload \<Rightarrow>
                  (if is_ok_status status then None
                   else Some (Failed ''RuntimeError'' (http_error_text env ''Prefill'' status payload))))
             (on_metrics (qm_prefill_http_status_update (\<lambda>_. Some status)) h)
      else h)"

definition prefill_failed :: "stamp \<Rightarrow> exn \<Rightarrow> handler \<Rightarrow> handler" where
  "prefill_failed now e h =
     (if qs_prefill_task (hn_session h) = Some Task_Running then prefill_ends now (Some e) h else h)"

text \<open>
  \<open>if not prefill_task.done(): prefill_task.cancel()\<close> and the \<open>gather\<close> after it. A task that was
  cancelled before its first step never enters its body.
\<close>

definition stop_prefill :: "stamp \<Rightarrow> handler \<Rightarrow> handler" where
  "stop_prefill now h =
     (case qs_prefill_task (hn_session h) of
        Some Task_New \<Rightarrow> set_prefill_task (Task_Done (Some (Cancelled []))) h
      | Some Task_Running \<Rightarrow> prefill_ends now (Some (Cancelled [])) h
      | _ \<Rightarrow> h)"

section \<open>Ending a request\<close>

definition finish ::
  "proxy_env \<Rightarrow> stamp \<Rightarrow> string \<Rightarrow> exn option \<Rightarrow> string option \<Rightarrow> nat \<Rightarrow> proxy \<Rightarrow> proxy" where
  "finish env now outcome error stage i st =
     (let m = metrics_of (pz_handlers st ! i)
      in if qm_request_end m \<noteq> None then st
         else (let m1 = m\<lparr>qm_request_end := Some now, qm_outcome := outcome\<rparr>;
                   m2 = (case error of None \<Rightarrow> m1
                         | Some e \<Rightarrow> m1\<lparr>qm_error_stage := stage, qm_error_type := Some (exn_type e),
                                       qm_error_message := Some (exn_text e)\<rparr>);
                   st1 = on_handler i (on_metrics (\<lambda>_. m2)) st
               in st1\<lparr>pz_sessions := dict_pop (qm_request_id m) (pz_sessions st1),
                      pz_metrics := writer_write (to_record env m2) (pz_metrics st1)\<rparr>))"

definition decode_over :: "stamp \<Rightarrow> handler \<Rightarrow> handler" where
  "decode_over now h = (on_metrics (qm_decode_end_update (\<lambda>_. Some now)) h)\<lparr>hn_client_open := False\<rparr>"

definition replies :: "reply \<Rightarrow> handler \<Rightarrow> handler" where
  "replies r h = h\<lparr>hn_phase := Over, hn_reply := Some r\<rparr>"

definition raise_or_502 :: "exn \<Rightarrow> reply" where
  "raise_or_502 e = (if is_cancelled e then Reply_Raise e else Reply_Json 502 (exn_text e))"

definition stop_headers :: "handler \<Rightarrow> handler" where
  "stop_headers h = (if hn_headers_task h = Head_Running then h\<lparr>hn_headers_task := Head_Error (Cancelled [])\<rparr> else h)"

text \<open>The outer \<open>except BaseException\<close> of \<open>_handle\<close>.\<close>

definition handle_failed :: "proxy_env \<Rightarrow> stamp \<Rightarrow> exn \<Rightarrow> nat \<Rightarrow> proxy \<Rightarrow> proxy" where
  "handle_failed env now e i st =
     (let st1 = on_handler i (decode_over now \<circ> stop_prefill now \<circ> stop_headers) st;
          outcome = (if is_timeout e then ''timeout'' else ''decode_error'')
      in on_handler i (replies (raise_or_502 e)) (finish env now outcome (Some e) (Some ''decode'') i st1))"

section \<open>The handler\<close>

definition handle_start :: "proxy_env \<Rightarrow> stamp \<Rightarrow> nat \<Rightarrow> proxy \<Rightarrow> proxy" where
  "handle_start env now i st =
     (let content_type = str_lower (hr_content_type (hn_request (pz_handlers st ! i)))
      in if \<not> str_prefix ''application/json'' content_type
         then on_handler i (replies (Reply_Http 415 ''application/json required''))
                (finish env now ''proxy_error''
                   (Some (Failed ''HTTPException'' (en_http_text env 415 ''application/json required'')))
                   (Some ''request'') i st)
         else st)"

definition launch ::
  "proxy_env \<Rightarrow> proxy \<Rightarrow> stamp \<Rightarrow> (string, json) dict \<Rightarrow> (string, json) dict \<Rightarrow> handler \<Rightarrow> handler" where
  "launch env st now body p_body h =
     (let session = hn_session h; headers = proxy_headers st (hn_request h) session
      in (on_metrics (qm_decode_start_update (\<lambda>_. Some now)) (set_prefill_task Task_New h))
         \<lparr>hn_phase := Waiting, hn_client_open := True,
          hn_prefill_post := Some (ep_api_url (qs_prefill session) @ hn_route h, p_body,
                                   prefill_headers headers session),
          hn_decode_post := Some (ed_api_url (qs_decode session) @ hn_route h, decode_body body session, headers),
          hn_headers_task := Head_Running\<rparr>)"

definition body_read :: "proxy_env \<Rightarrow> stamp \<Rightarrow> json + exn \<Rightarrow> nat \<Rightarrow> proxy \<Rightarrow> proxy" where
  "body_read env now body i st =
     (case body of
        Inr e \<Rightarrow>
          (if is_cancelled e
           then on_handler i (\<lambda>h. h\<lparr>hn_phase := Lost, hn_reply := Some (Reply_Raise e)\<rparr>) st
           else on_handler i (replies (Reply_Json 400 ''invalid JSON''))
                  (finish env now ''proxy_error'' (Some e) (Some ''request'') i st))
      | Inl (JDict d) \<Rightarrow>
          (let st1 = on_handler i (on_metrics (set_body env d)) st
           in case prefill_body d (hn_session (pz_handlers st1 ! i)) of
                Inl e \<Rightarrow> on_handler i (\<lambda>h. h\<lparr>hn_phase := Lost,
                                  hn_reply := Some (Reply_Raise (Failed ''TypeError'' (exc_text e)))\<rparr>) st1
              | Inr p_body \<Rightarrow> on_handler i (launch env st1 now d p_body) st1)
      | Inl _ \<Rightarrow>
          on_handler i (replies (Reply_Http 400 ''JSON object required''))
            (finish env now ''proxy_error''
               (Some (Failed ''HTTPException'' (en_http_text env 400 ''JSON object required'')))
               (Some ''request'') i st))"

text \<open>The response headers have arrived (or the task failed), lines from \<open>response = await ...\<close> on.\<close>

definition prefill_lost :: "proxy_env \<Rightarrow> stamp \<Rightarrow> exn \<Rightarrow> nat \<Rightarrow> proxy \<Rightarrow> proxy" where
  "prefill_lost env now e i st =
     on_handler i (replies (Reply_Json 502 (exn_text e)))
       (finish env now ''prefill_error'' (Some e) (Some ''prefill'') i
          (on_handler i (\<lambda>h. h\<lparr>hn_client_open := False\<rparr>) st))"

definition got_headers :: "proxy_env \<Rightarrow> stamp \<Rightarrow> nat \<Rightarrow> proxy \<Rightarrow> proxy" where
  "got_headers env now i st =
     (case hn_headers_task (pz_handlers st ! i) of
        Head_Running \<Rightarrow> on_handler i (\<lambda>h. h\<lparr>hn_phase := Heading\<rparr>) st
      | Head_Error e \<Rightarrow> handle_failed env now e i st
      | Head_Done status ct \<Rightarrow>
          (let st1 = on_handler i (on_metrics (\<lambda>m. m\<lparr>qm_decode_http_status := Some status,
                                                     qm_decode_headers := Some now\<rparr>)) st
           in if \<not> is_ok_status status then on_handler i (\<lambda>h. h\<lparr>hn_phase := Reading_Error\<rparr>) st1
              else (case prefill_result (pz_handlers st1 ! i) of
                      Some (Some e) \<Rightarrow> prefill_lost env now e i st1
                    | _ \<Rightarrow> on_handler i (\<lambda>h. h\<lparr>hn_phase := Stream_New,
                              hn_reply := Some (Reply_Stream status (media_type ct))\<rparr>) st1)))"

text \<open>The return of \<open>asyncio.wait\<close>; a failed prefill is reported before the headers are looked at.\<close>

definition wait_over :: "proxy_env \<Rightarrow> stamp \<Rightarrow> nat \<Rightarrow> proxy \<Rightarrow> proxy" where
  "wait_over env now i st =
     (case prefill_result (pz_handlers st ! i) of
        Some (Some e) \<Rightarrow>
          on_handler i (replies (raise_or_502 e))
            (finish env now ''prefill_error'' (Some e) (Some ''prefill'') i
               (on_handler i (decode_over now \<circ> stop_headers) st))
      | _ \<Rightarrow> got_headers env now i st)"

definition error_body_read :: "proxy_env \<Rightarrow> stamp \<Rightarrow> payload + exn \<Rightarrow> nat \<Rightarrow> proxy \<Rightarrow> proxy" where
  "error_body_read env now body i st =
     (case (body, hn_headers_task (pz_handlers st ! i)) of
        (Inl payload, Head_Done status ct) \<Rightarrow>
          on_handler i (replies (Reply_Body status payload (media_type ct)))
            (finish env now ''decode_error''
               (Some (Failed ''RuntimeError'' (http_error_text env ''Decode'' status payload)))
               (Some ''decode'') i (on_handler i (decode_over now \<circ> stop_prefill now) st))
      | (Inr e, _) \<Rightarrow> handle_failed env now e i st
      | _ \<Rightarrow> st)"

section \<open>The streaming generator\<close>

definition next_chunk :: "handler \<Rightarrow> handler" where
  "next_chunk h = h\<lparr>hn_phase := Stream_Wait, hn_chunk := Chunk_Running\<rparr>"

definition stream_start :: "rat \<Rightarrow> stamp \<Rightarrow> handler \<Rightarrow> handler" where
  "stream_start timeout now h =
     next_chunk (h\<lparr>hn_pending_prefill := True,
                   hn_deadline := (case qm_decode_start (metrics_of h) of
                                     Some s \<Rightarrow> snd s + timeout | None \<Rightarrow> snd now + timeout)\<rparr>)"

definition stream_raises :: "exn \<Rightarrow> handler \<Rightarrow> handler" where
  "stream_raises e h = h\<lparr>hn_phase := Over, hn_raised := Some e\<rparr>"

definition stream_failed :: "proxy_env \<Rightarrow> stamp \<Rightarrow> exn \<Rightarrow> string \<Rightarrow> nat \<Rightarrow> proxy \<Rightarrow> proxy" where
  "stream_failed env now e failure_stage i st =
     (let st1 = on_handler i (decode_over now \<circ> stop_prefill now) st
      in on_handler i (stream_raises e)
           (if is_cancelled e then finish env now ''client_cancelled'' (Some e) (Some ''client'') i st1
            else finish env now (if is_timeout e then ''timeout'' else failure_stage @ ''_error'')
                   (Some e) (Some failure_stage) i st1))"

definition stream_done :: "proxy_env \<Rightarrow> stamp \<Rightarrow> nat \<Rightarrow> proxy \<Rightarrow> proxy" where
  "stream_done env now i st =
     on_handler i (\<lambda>h. h\<lparr>hn_phase := Over\<rparr>)
       (finish env now ''success'' None None i (on_handler i (decode_over now) st))"

text \<open>After the loop: the prefill must have ended too.\<close>

definition chunks_over :: "proxy_env \<Rightarrow> stamp \<Rightarrow> nat \<Rightarrow> proxy \<Rightarrow> proxy" where
  "chunks_over env now i st =
     (let h = pz_handlers st ! i
      in if \<not> hn_pending_prefill h then stream_done env now i st
         else (case prefill_result h of
                 None \<Rightarrow> on_handler i (\<lambda>h. h\<lparr>hn_phase := Stream_Prefill\<rparr>) st
               | Some None \<Rightarrow> stream_done env now i st
               | Some (Some e) \<Rightarrow> stream_failed env now e ''prefill'' i st))"

definition yield_chunk :: "stamp \<Rightarrow> payload \<Rightarrow> handler \<Rightarrow> handler" where
  "yield_chunk now chunk h =
     (on_metrics (\<lambda>m. if qm_decode_first_chunk m = None then m\<lparr>qm_decode_first_chunk := Some now\<rparr> else m) h)
       \<lparr>hn_phase := Stream_Yield, hn_sent := hn_sent h @ [chunk]\<rparr>"

text \<open>\<open>next_chunk.result()\<close> of a task that is done.\<close>

definition take_chunk :: "proxy_env \<Rightarrow> stamp \<Rightarrow> nat \<Rightarrow> proxy \<Rightarrow> proxy" where
  "take_chunk env now i st =
     (case hn_chunk (pz_handlers st ! i) of
        Chunk_Running \<Rightarrow> on_handler i (\<lambda>h. h\<lparr>hn_phase := Stream_Chunk\<rparr>) st
      | Chunk_Ready chunk \<Rightarrow> on_handler i (yield_chunk now chunk) st
      | Chunk_End \<Rightarrow> chunks_over env now i st
      | Chunk_Error e \<Rightarrow> stream_failed env now e ''decode'' i st)"

definition stop_chunk :: "handler \<Rightarrow> handler" where
  "stop_chunk h = (if hn_chunk h = Chunk_Running then h\<lparr>hn_chunk := Chunk_Error (Cancelled [])\<rparr> else h)"

text \<open>
  The return of \<open>asyncio.wait\<close> in the loop: with nothing done only after the deadline, which counts
  as long as no chunk has come; then the prefill if it is among the done tasks; then the chunk.
\<close>

definition stream_wake :: "proxy_env \<Rightarrow> stamp \<Rightarrow> nat \<Rightarrow> proxy \<Rightarrow> proxy" where
  "stream_wake env now i st =
     (let h = pz_handlers st ! i;
          prefill_done = (hn_pending_prefill h \<and> prefill_result h \<noteq> None)
      in if hn_chunk h = Chunk_Running \<and> \<not> prefill_done
         then (if qm_decode_first_chunk (metrics_of h) = None \<and> hn_deadline h \<le> snd now
               then stream_failed env now
                      (Timed_Out ''TimeoutError'' (''Decode first chunk timed out after ''
                         @ en_fixed3 env (pz_first_token_timeout st) @ ''s''))
                      ''decode'' i (on_handler i stop_chunk st)
               else st)
         else case (if prefill_done then prefill_result h else Some None) of
                Some (Some e) \<Rightarrow> stream_failed env now e ''prefill'' i (on_handler i stop_chunk st)
              | _ \<Rightarrow> take_chunk env now i
                       (on_handler i (\<lambda>h. if prefill_done then h\<lparr>hn_pending_prefill := False\<rparr> else h) st))"

text \<open>
  \<open>await next_chunk\<close>, reached when only the prefill was done: here the end of the iteration is
  the exception \<open>StopAsyncIteration\<close>, which no handler catches.
\<close>

definition chunk_awaited :: "proxy_env \<Rightarrow> stamp \<Rightarrow> nat \<Rightarrow> proxy \<Rightarrow> proxy" where
  "chunk_awaited env now i st =
     (case hn_chunk (pz_handlers st ! i) of
        Chunk_Running \<Rightarrow> st
      | Chunk_End \<Rightarrow> stream_failed env now (Failed ''StopAsyncIteration'' []) ''decode'' i st
      | _ \<Rightarrow> take_chunk env now i st)"

section \<open>The steps of a handler\<close>

datatype event =
    Body_Read "json + exn"
  | Prefill_Starts
  | Prefill_Replies int "payload + exn"
  | Prefill_Fails exn
  | Headers_Arrive int "string option"
  | Headers_Fail exn
  | Error_Body "payload + exn"
  | Chunk_Arrives chunk_task
  | Wake
  | Client_Reads
  | Client_Closes
  | Cancel

fun handler_step :: "proxy_env \<Rightarrow> stamp \<Rightarrow> event \<Rightarrow> nat \<Rightarrow> proxy \<Rightarrow> proxy" where
  "handler_step env now (Body_Read b) i st =
     (if hn_phase (pz_handlers st ! i) = Reading then body_read env now b i st else st)"
| "handler_step env now Prefill_Starts i st = on_handler i (prefill_started now) st"
| "handler_step env now (Prefill_Replies status b) i st = on_handler i (prefill_replied env now status b) st"
| "handler_step env now (Prefill_Fails e) i st = on_handler i (prefill_failed now e) st"
| "handler_step env now (Headers_Arrive status ct) i st =
     (if hn_phase (pz_handlers st ! i) \<in> {Waiting, Heading} \<and> hn_headers_task (pz_handlers st ! i) = Head_Running
      then on_handler i (\<lambda>h. h\<lparr>hn_headers_task := Head_Done status ct\<rparr>) st else st)"
| "handler_step env now (Headers_Fail e) i st =
     (if hn_phase (pz_handlers st ! i) \<in> {Waiting, Heading} \<and> hn_headers_task (pz_handlers st ! i) = Head_Running
      then on_handler i (\<lambda>h. h\<lparr>hn_headers_task := Head_Error e\<rparr>) st else st)"
| "handler_step env now (Error_Body b) i st =
     (if hn_phase (pz_handlers st ! i) = Reading_Error then error_body_read env now b i st else st)"
| "handler_step env now (Chunk_Arrives c) i st =
     (if hn_phase (pz_handlers st ! i) \<in> {Stream_Wait, Stream_Chunk} \<and> hn_chunk (pz_handlers st ! i) = Chunk_Running
      then on_handler i (\<lambda>h. h\<lparr>hn_chunk := c\<rparr>) st else st)"
| "handler_step env now Wake i st =
     (let h = pz_handlers st ! i
      in case hn_phase h of
           Waiting \<Rightarrow> (if prefill_result h \<noteq> None \<or> hn_headers_task h \<noteq> Head_Running
                       then wait_over env now i st else st)
         | Heading \<Rightarrow> (if hn_headers_task h \<noteq> Head_Running then got_headers env now i st else st)
         | Stream_Wait \<Rightarrow> stream_wake env now i st
         | Stream_Chunk \<Rightarrow> chunk_awaited env now i st
         | Stream_Prefill \<Rightarrow> (if prefill_result h \<noteq> None then chunks_over env now i st else st)
         | _ \<Rightarrow> st)"
| "handler_step env now Client_Reads i st =
     (case hn_phase (pz_handlers st ! i) of
        Stream_New \<Rightarrow> on_handler i (stream_start (pz_first_token_timeout st) now) st
      | Stream_Yield \<Rightarrow> on_handler i next_chunk st
      | _ \<Rightarrow> st)"
| "handler_step env now Client_Closes i st =
     (case hn_phase (pz_handlers st ! i) of
        Stream_New \<Rightarrow> on_handler i (\<lambda>h. h\<lparr>hn_phase := Lost\<rparr>) st
      | Stream_Yield \<Rightarrow> stream_failed env now (Failed ''GeneratorExit'' []) ''decode'' i st
      | _ \<Rightarrow> st)"
| "handler_step env now Cancel i st =
     (case hn_phase (pz_handlers st ! i) of
        Reading \<Rightarrow> body_read env now (Inr (Cancelled [])) i st
      | Waiting \<Rightarrow> handle_failed env now (Cancelled []) i st
      | Heading \<Rightarrow> handle_failed env now (Cancelled []) i st
      | Reading_Error \<Rightarrow> handle_failed env now (Cancelled []) i st
      | Stream_Wait \<Rightarrow> stream_failed env now (Cancelled []) ''decode'' i st
      | Stream_Chunk \<Rightarrow> stream_failed env now (Cancelled []) ''decode'' i (on_handler i stop_chunk st)
      | Stream_Prefill \<Rightarrow> stream_failed env now (Cancelled []) ''prefill'' i st
      | _ \<Rightarrow> st)"

section \<open>The proxy\<close>

text \<open>\<open>_handle\<close> up to its first \<open>await\<close>.\<close>

definition handle_request :: "proxy_env \<Rightarrow> string \<Rightarrow> stamp \<Rightarrow> raw_request \<Rightarrow> string \<Rightarrow> proxy \<Rightarrow> proxy" where
  "handle_request env request_id now raw_request route st =
     handle_start env now (length (pz_handlers st)) (new_session request_id now raw_request route st)"

definition completions :: "proxy_env \<Rightarrow> string \<Rightarrow> stamp \<Rightarrow> raw_request \<Rightarrow> proxy \<Rightarrow> proxy" where
  "completions env request_id now raw_request = handle_request env request_id now raw_request ''/v1/completions''"

definition chat_completions :: "proxy_env \<Rightarrow> string \<Rightarrow> stamp \<Rightarrow> raw_request \<Rightarrow> proxy \<Rightarrow> proxy" where
  "chat_completions env request_id now raw_request = handle_request env request_id now raw_request ''/v1/chat/completions''"

definition close_proxy :: "proxy_env \<Rightarrow> stamp \<Rightarrow> ((string, json) dict \<Rightarrow> bool) \<Rightarrow> proxy \<Rightarrow> proxy" where
  "close_proxy env now ok st =
     (let st1 = fold (\<lambda>(rid, i). on_handler i (stop_prefill now)) (pz_sessions st) st
      in st1\<lparr>pz_metrics := writer_close env ok (pz_metrics st1)\<rparr>)"

section \<open>Command line\<close>

definition url :: "string \<Rightarrow> string" where
  "url value = (let v = str_rstrip_char (CHR ''/'') value
                in if str_contains ''://'' v then v else ''http://'' @ v)"

definition parse_prefill :: "string \<Rightarrow> PrefillEndpoint result" where
  "parse_prefill value =
     (case str_split (CHR '','') value of
        [a, b, c] \<Rightarrow> Inr \<lparr>ep_api_url = url a, ep_engine_id = b, ep_bootstrap_addr = url c, ep_dp_rank = None\<rparr>
      | [a, b, c, d] \<Rightarrow>
          (case parse_int d of Inl e \<Rightarrow> Inl e
           | Inr r \<Rightarrow> Inr \<lparr>ep_api_url = url a, ep_engine_id = b, ep_bootstrap_addr = url c, ep_dp_rank = Some r\<rparr>)
      | _ \<Rightarrow> Inl (ValueError ''prefill must be API_URL,ENGINE_ID,BOOTSTRAP_ADDR[,DP_RANK]''))"

definition parse_decode :: "string \<Rightarrow> DecodeEndpoint" where
  "parse_decode value = \<lparr>ed_api_url = url value\<rparr>"

end
