(* ===== verification/Proxy_Props.thy ===== *)
theory Proxy_Props
  imports Proxy "HOL-Library.Multiset"
begin

text \<open>
  What the proxy guarantees for every interleaving of its requests: each request that ends writes one
  record, which describes its final state, and leaves nothing running behind; success is only reported
  when both backends succeeded; where the code misses its goals.
\<close>

section \<open>Reachable states\<close>

definition request_ids :: "proxy \<Rightarrow> string list" where
  "request_ids st = map (\<lambda>h. qs_request_id (hn_session h)) (pz_handlers st)"

text \<open>\<open>uuid4\<close> gives an ID that no earlier request has.\<close>

inductive proxy_run :: "proxy_env \<Rightarrow> proxy \<Rightarrow> bool" for env where
  run_new: "new_proxy prefill decode file token queue_size timeout = Inr st \<Longrightarrow> proxy_run env st"
| run_request: "proxy_run env st \<Longrightarrow> request_id \<notin> set (request_ids st) \<Longrightarrow>
    proxy_run env (handle_request env request_id now raw_request route st)"
| run_step: "proxy_run env st \<Longrightarrow> i < length (pz_handlers st) \<Longrightarrow> proxy_run env (handler_step env now ev i st)"
| run_writer: "proxy_run env st \<Longrightarrow> proxy_run env (st\<lparr>pz_metrics := writer_turn env ok (pz_metrics st)\<rparr>)"
| run_close: "proxy_run env st \<Longrightarrow> proxy_run env (close_proxy env now ok st)"

definition ended :: "handler \<Rightarrow> bool" where
  "ended h = (qm_request_end (metrics_of h) \<noteq> None)"

definition task_live :: "handler \<Rightarrow> bool" where
  "task_live h = (qs_prefill_task (hn_session h) \<in> {Some Task_New, Some Task_Running})"

section \<open>The invariant of one handler\<close>

definition streaming :: "phase \<Rightarrow> bool" where
  "streaming p = (p \<in> {Stream_Wait, Stream_Chunk, Stream_Yield, Stream_Prefill})"

definition decode_ok :: "handler \<Rightarrow> bool" where
  "decode_ok h = (case hn_headers_task h of Head_Done s ct \<Rightarrow> is_ok_status s | _ \<Rightarrow> False)"

definition prefill_ok :: "handler \<Rightarrow> bool" where
  "prefill_ok h = (prefill_result h = Some None \<and>
     (case qm_prefill_http_status (metrics_of h) of Some s \<Rightarrow> is_ok_status s | None \<Rightarrow> False))"

definition handler_ok :: "handler \<Rightarrow> bool" where
  "handler_ok h \<longleftrightarrow>
     qm_request_id (metrics_of h) = qs_request_id (hn_session h) \<and>
     (hn_phase h = Over \<longleftrightarrow> ended h) \<and>
     (hn_phase h \<in> {Over, Reading} \<longrightarrow> \<not> task_live h \<and> \<not> hn_client_open h) \<and>
     (hn_phase h \<notin> {Over, Reading, Lost} \<longrightarrow> qs_prefill_task (hn_session h) \<noteq> None) \<and>
     (hn_phase h = Reading \<longrightarrow> qs_prefill_task (hn_session h) = None) \<and>
     (prefill_result h = Some None \<longrightarrow> prefill_ok h) \<and>
     (hn_phase h = Heading \<longrightarrow> prefill_ok h) \<and>
     (hn_phase h = Stream_New \<or> streaming (hn_phase h) \<longrightarrow> decode_ok h) \<and>
     (streaming (hn_phase h) \<and> \<not> hn_pending_prefill h \<longrightarrow> prefill_ok h) \<and>
     (hn_phase h = Stream_Chunk \<longrightarrow> \<not> hn_pending_prefill h) \<and>
     (hn_phase h = Stream_Prefill \<longrightarrow> hn_chunk h = Chunk_End) \<and>
     (hn_phase h \<noteq> Over \<longrightarrow> hn_raised h = None) \<and>
     (ended h \<and> qm_outcome (metrics_of h) = ''success'' \<longrightarrow>
        prefill_ok h \<and> decode_ok h \<and> hn_chunk h = Chunk_End \<and> hn_raised h = None)"

section \<open>The invariant of the proxy\<close>

definition queued :: "JsonlMetricsWriter \<Rightarrow> (string, json) dict list" where
  "queued w = List.map_filter id (jw_queue w)"

definition line_of :: "proxy_env \<Rightarrow> handler \<Rightarrow> string" where
  "line_of env h = en_dumps env (JDict (to_record env (metrics_of h)))"

definition accounted :: "proxy_env \<Rightarrow> proxy \<Rightarrow> bool" where
  "accounted env st =
     (if jw_path (pz_metrics st) = None
      then jw_queue (pz_metrics st) = [] \<and> jw_lines (pz_metrics st) = [] \<and> jw_write_failures (pz_metrics st) = 0
      else \<exists>lost. size lost = jw_write_failures (pz_metrics st) \<and>
             mset (jw_lines (pz_metrics st)) + mset (map (\<lambda>r. en_dumps env (JDict r)) (queued (pz_metrics st))) + lost
             = mset (map (line_of env) (filter ended (pz_handlers st))))"

definition sessions_ok :: "proxy \<Rightarrow> bool" where
  "sessions_ok st \<longleftrightarrow> distinct (request_ids st) \<and> dict_wf (pz_sessions st) \<and>
     (\<forall>rid i. dict_get (pz_sessions st) rid = Some i \<longleftrightarrow>
        i < length (pz_handlers st) \<and> qs_request_id (hn_session (pz_handlers st ! i)) = rid \<and>
        \<not> ended (pz_handlers st ! i))"

definition writer_ok :: "JsonlMetricsWriter \<Rightarrow> bool" where
  "writer_ok w \<longleftrightarrow> (jw_queue w \<noteq> [] \<longrightarrow> jw_running w) \<and> None \<notin> set (jw_queue w) \<and>
     (jw_path w = None \<longrightarrow> \<not> jw_running w)"

definition proxy_ok :: "proxy_env \<Rightarrow> proxy \<Rightarrow> bool" where
  "proxy_ok env st \<longleftrightarrow> list_all handler_ok (pz_handlers st) \<and> sessions_ok st \<and> accounted env st \<and>
     writer_ok (pz_metrics st)"

text \<open>What a step of handler \<open>i\<close> may change of the rest: the handlers' identities stay, an ended request stays as it was.\<close>

definition same_end :: "handler \<Rightarrow> handler \<Rightarrow> bool" where
  "same_end h h' \<longleftrightarrow> qs_request_id (hn_session h') = qs_request_id (hn_session h) \<and>
     qm_request_id (metrics_of h') = qm_request_id (metrics_of h) \<and>
     ended h' = ended h \<and> (ended h \<longrightarrow> metrics_of h' = metrics_of h)"

lemma same_endD: "same_end h h' \<Longrightarrow> ended h' = ended h" "same_end h h' \<Longrightarrow> qs_request_id (hn_session h') = qs_request_id (hn_session h)"
  "same_end h h' \<Longrightarrow> ended h \<Longrightarrow> line_of env h' = line_of env h"
  by (simp_all add: same_end_def line_of_def)

lemma handlers_on [simp]:
  "pz_handlers (on_handler i f st) = (pz_handlers st)[i := f (pz_handlers st ! i)]"
  "pz_sessions (on_handler i f st) = pz_sessions st" "pz_metrics (on_handler i f st) = pz_metrics st"
  "pz_first_token_timeout (on_handler i f st) = pz_first_token_timeout st"
  by (simp_all add: on_handler_def)

lemma filter_ended_update:
  "i < length hs \<Longrightarrow> same_end (hs ! i) h \<Longrightarrow>
   map (line_of env) (filter ended (hs[i := h])) = map (line_of env) (filter ended hs)"
proof (induction hs arbitrary: i)
  case (Cons x xs)
  then show ?case by (cases i) (auto simp: same_end_def line_of_def)
qed simp

lemma ids_update:
  "qs_request_id (hn_session h) = qs_request_id (hn_session (pz_handlers st ! i)) \<Longrightarrow>
   map (\<lambda>h. qs_request_id (hn_session h)) ((pz_handlers st)[i := h]) = request_ids st"
  by (cases "i < length (pz_handlers st)")
     (simp_all add: request_ids_def map_update list_update_same_conv list_update_beyond)

lemma shared_on:
  assumes "sessions_ok st" "accounted env st" and i: "i < length (pz_handlers st)"
    and same: "same_end (pz_handlers st ! i) (f (pz_handlers st ! i))"
  shows "sessions_ok (on_handler i f st)" "accounted env (on_handler i f st)"
proof -
  have ids: "request_ids (on_handler i f st) = request_ids st"
    unfolding request_ids_def[of "on_handler i f st"] handlers_on by (rule ids_update[OF same_endD(2)[OF same]])
  have "ended ((pz_handlers st)[i := f (pz_handlers st ! i)] ! j) = ended (pz_handlers st ! j) \<and>
      qs_request_id (hn_session ((pz_handlers st)[i := f (pz_handlers st ! i)] ! j)) = qs_request_id (hn_session (pz_handlers st ! j))"
    if "j < length (pz_handlers st)" for j
    using that same_endD(1,2)[OF same] by (cases "j = i") simp_all
  then show "sessions_ok (on_handler i f st)"
    using assms(1) by (simp add: sessions_ok_def ids cong: conj_cong)
  show "accounted env (on_handler i f st)"
    using assms(2) unfolding accounted_def handlers_on filter_ended_update[where hs = "pz_handlers st", OF i same] .
qed

section \<open>Ending a request writes its record once\<close>

definition end_metrics ::
  "stamp \<Rightarrow> string \<Rightarrow> exn option \<Rightarrow> string option \<Rightarrow> RequestMetrics \<Rightarrow> RequestMetrics" where
  "end_metrics now outcome error stage m =
     (let m1 = m\<lparr>qm_request_end := Some now, qm_outcome := outcome\<rparr>
      in case error of None \<Rightarrow> m1
         | Some e \<Rightarrow> m1\<lparr>qm_error_stage := stage, qm_error_type := Some (exn_type e), qm_error_message := Some (exn_text e)\<rparr>)"

definition end_handler :: "stamp \<Rightarrow> string \<Rightarrow> exn option \<Rightarrow> string option \<Rightarrow> handler \<Rightarrow> handler" where
  "end_handler now outcome error stage h =
     (if ended h then h else on_metrics (end_metrics now outcome error stage) h)"

lemma finish_eq:
  "finish env now outcome error stage i st =
     (if ended (pz_handlers st ! i) then st
      else (on_handler i (end_handler now outcome error stage) st)
             \<lparr>pz_sessions := dict_pop (qm_request_id (metrics_of (pz_handlers st ! i))) (pz_sessions st),
              pz_metrics := writer_write (to_record env (end_metrics now outcome error stage (metrics_of (pz_handlers st ! i))))
                              (pz_metrics st)\<rparr>)"
  by (auto simp: finish_def ended_def end_handler_def end_metrics_def Let_def on_handler_def on_metrics_def
      metrics_of_def split: option.splits)

lemma handlers_finish [simp]:
  "pz_handlers (finish env now outcome error stage i st) =
     (pz_handlers st)[i := end_handler now outcome error stage (pz_handlers st ! i)]"
  by (simp add: finish_eq end_handler_def)

lemma end_metrics_sel:
  "qm_request_end (end_metrics now outcome error stage m) = Some now"
  "qm_outcome (end_metrics now outcome error stage m) = outcome"
  "qm_request_id (end_metrics now outcome error stage m) = qm_request_id m"
  "qm_prefill_http_status (end_metrics now outcome error stage m) = qm_prefill_http_status m"
  "qm_decode_http_status (end_metrics now outcome error stage m) = qm_decode_http_status m"
  "qm_decode_first_chunk (end_metrics now outcome error stage m) = qm_decode_first_chunk m"
  by (auto simp: end_metrics_def Let_def split: option.splits)

lemma end_handler_sel:
  "ended (end_handler now outcome error stage h)"
  "qs_request_id (hn_session (end_handler now outcome error stage h)) = qs_request_id (hn_session h)"
  "\<not> ended h \<Longrightarrow> metrics_of (end_handler now outcome error stage h) = end_metrics now outcome error stage (metrics_of h)"
  by (auto simp: end_handler_def ended_def on_metrics_def metrics_of_def end_metrics_sel)

lemma filter_ended_finish:
  "i < length hs \<Longrightarrow> \<not> ended (hs ! i) \<Longrightarrow> ended h \<Longrightarrow>
   mset (map (line_of env) (filter ended (hs[i := h]))) = add_mset (line_of env h) (mset (map (line_of env) (filter ended hs)))"
proof (induction hs arbitrary: i)
  case (Cons x xs)
  then show ?case by (cases i) auto
qed simp

lemma queued_append: "queued (w\<lparr>jw_running := b, jw_queue := jw_queue w @ [Some r]\<rparr>) = queued w @ [r]"
  by (simp add: queued_def map_filter_def)

lemma writer_write_sel [simp]:
  "jw_path (writer_write r w) = jw_path w" "jw_lines (writer_write r w) = jw_lines w"
  "jw_write_failures (writer_write r w) = jw_write_failures w"
  "writer_ok w \<Longrightarrow> writer_ok (writer_write r w)"
  by (auto simp: writer_write_def writer_ok_def)

lemma queued_write: "queued (writer_write r w) = (if jw_path w = None then queued w else queued w @ [r])"
  by (simp add: writer_write_def queued_append)

lemma shared_finish:
  assumes s: "sessions_ok st" and a: "accounted env st" and i: "i < length (pz_handlers st)"
    and id: "qm_request_id (metrics_of (pz_handlers st ! i)) = qs_request_id (hn_session (pz_handlers st ! i))"
  shows "sessions_ok (finish env now outcome error stage i st)" "accounted env (finish env now outcome error stage i st)"
proof -
  let ?h = "pz_handlers st ! i" and ?st' = "finish env now outcome error stage i st"
  let ?h' = "end_handler now outcome error stage ?h"
  have "sessions_ok ?st' \<and> accounted env ?st'"
  proof (cases "ended ?h")
    case True
    then show ?thesis using s a by (simp add: finish_eq)
  next
    case False
    have ids: "request_ids ?st' = request_ids st"
      unfolding request_ids_def[of ?st'] handlers_finish by (rule ids_update) (simp add: end_handler_sel)
    have dist: "qs_request_id (hn_session (pz_handlers st ! j)) \<noteq> qs_request_id (hn_session ?h)"
      if "j < length (pz_handlers st)" "j \<noteq> i" for j
      using s that i by (auto simp: sessions_ok_def request_ids_def distinct_conv_nth)
    have get: "dict_get (pz_sessions ?st') rid = Some j \<longleftrightarrow>
        j < length (pz_handlers ?st') \<and> qs_request_id (hn_session (pz_handlers ?st' ! j)) = rid \<and> \<not> ended (pz_handlers ?st' ! j)" for rid j
    proof (cases "j = i")
      case True
      then show ?thesis using s i False by (auto simp: finish_eq dict_simps id sessions_ok_def end_handler_sel)
    next
      case j: False
      then have "pz_handlers ?st' ! j = pz_handlers st ! j" by simp
      then show ?thesis using s i False j dist[of j]
        by (auto simp: finish_eq dict_simps id sessions_ok_def)
    qed
    have line: "line_of env ?h' = en_dumps env (JDict (to_record env (end_metrics now outcome error stage (metrics_of ?h))))"
      by (simp add: line_of_def end_handler_sel(3)[OF False])
    have m: "mset (map (line_of env) (filter ended (pz_handlers ?st'))) =
        add_mset (line_of env ?h') (mset (map (line_of env) (filter ended (pz_handlers st))))"
      unfolding handlers_finish by (rule filter_ended_finish[OF i False end_handler_sel(1)])
    have w: "pz_metrics ?st' = writer_write (to_record env (end_metrics now outcome error stage (metrics_of ?h))) (pz_metrics st)"
      using False by (simp add: finish_eq)
    have "accounted env ?st'"
    proof (cases "jw_path (pz_metrics st) = None")
      case True
      then show ?thesis using a w by (simp add: accounted_def) (simp add: writer_write_def)
    next
      case path: False
      then obtain lost where l: "size lost = jw_write_failures (pz_metrics st)"
        "mset (jw_lines (pz_metrics st)) + mset (map (\<lambda>r. en_dumps env (JDict r)) (queued (pz_metrics st))) + lost
             = mset (map (line_of env) (filter ended (pz_handlers st)))"
        using a by (auto simp: accounted_def)
      show ?thesis unfolding accounted_def m w using path l
        by (auto intro!: exI[of _ lost] simp: queued_write line simp del: mset_map)
    qed
    moreover have "dict_wf (pz_sessions ?st')" using s False by (simp add: finish_eq sessions_ok_def pd.wf_pop)
    ultimately show ?thesis using get s ids by (simp add: sessions_ok_def)
  qed
  then show "sessions_ok ?st'" "accounted env ?st'" by simp_all
qed

section \<open>What every step keeps of the whole proxy\<close>

definition shared_ok :: "proxy_env \<Rightarrow> proxy \<Rightarrow> bool" where
  "shared_ok env st \<longleftrightarrow> sessions_ok st \<and> accounted env st \<and> writer_ok (pz_metrics st) \<and>
     list_all (\<lambda>h. qm_request_id (metrics_of h) = qs_request_id (hn_session h)) (pz_handlers st)"

lemma shared_on_handler:
  assumes "shared_ok env st" and "i < length (pz_handlers st)" and "same_end (pz_handlers st ! i) (f (pz_handlers st ! i))"
  shows "shared_ok env (on_handler i f st)"
  using assms shared_on[of st env i f]
  by (auto simp: shared_ok_def list_all_length nth_list_update same_end_def)

lemma shared_finish_handler:
  assumes "shared_ok env st" and "i < length (pz_handlers st)"
  shows "shared_ok env (finish env now outcome error stage i st)"
proof -
  have id: "qm_request_id (metrics_of (pz_handlers st ! j)) = qs_request_id (hn_session (pz_handlers st ! j))"
    if "j < length (pz_handlers st)" for j
    using assms(1) that by (simp add: shared_ok_def list_all_length)
  have "qm_request_id (metrics_of (end_handler now outcome error stage (pz_handlers st ! i))) =
      qs_request_id (hn_session (end_handler now outcome error stage (pz_handlers st ! i)))"
    using id[OF assms(2)] by (cases "ended (pz_handlers st ! i)") (simp_all add: end_handler_sel end_metrics_sel, simp add: end_handler_def)
  moreover have "writer_ok (pz_metrics (finish env now outcome error stage i st))"
    using assms(1) by (simp add: finish_eq shared_ok_def)
  ultimately show ?thesis
    using assms shared_finish[OF _ _ assms(2) id[OF assms(2)], of env]
    by (auto simp: shared_ok_def list_all_length nth_list_update)
qed

lemma length_on_finish: "length (pz_handlers (finish env now outcome error stage i st)) = length (pz_handlers st)"
  by simp

lemmas handler_views = metrics_of_def on_metrics_def ended_def same_end_def set_prefill_task_def
lemmas handler_updates = decode_over_def stop_prefill_def stop_headers_def prefill_ends_def stop_chunk_def
  next_chunk_def stream_start_def stream_raises_def replies_def yield_chunk_def

lemma same_end_refl: "same_end h h"
  by (simp add: same_end_def)

lemma same_end_trans: "same_end h h1 \<Longrightarrow> same_end h1 h2 \<Longrightarrow> same_end h h2"
  by (simp add: same_end_def)

lemma same_end_phase:
  "same_end h (h\<lparr>hn_phase := p\<rparr>)" "same_end h (h\<lparr>hn_phase := p, hn_reply := r\<rparr>)" "same_end h (replies rp h)"
  "same_end h (stream_raises e h)" "same_end h (next_chunk h)" "same_end h (stream_start timeout now h)"
  "same_end h (stop_headers h)" "same_end h (stop_chunk h)" "same_end h (h\<lparr>hn_client_open := b\<rparr>)"
  "same_end h (h\<lparr>hn_headers_task := t\<rparr>)" "same_end h (h\<lparr>hn_chunk := c\<rparr>)" "same_end h (h\<lparr>hn_pending_prefill := b\<rparr>)"
  by (simp_all add: handler_views handler_updates)

lemma same_end_open:
  assumes "\<not> ended h"
  shows "same_end h (decode_over now h)" "same_end h (stop_prefill now h)"
    "same_end h (yield_chunk now c h)" "same_end h (prefill_ends now r h)" "same_end h (on_metrics (set_body env d) h)"
    "same_end h (on_metrics (\<lambda>m. m\<lparr>qm_decode_http_status := s, qm_decode_headers := t\<rparr>) h)"
    "same_end h (launch env st now d b h)" "same_end h (prefill_started now h)" "same_end h (prefill_replied env now code pay h)"
    "same_end h (prefill_failed now e h)"
  using assms
  by (auto simp: handler_views handler_updates launch_def set_body_def Let_def prefill_started_def prefill_replied_def
      prefill_failed_def split: option.splits prefill_task.splits)

lemma same_end_comp:
  "same_end h (g h) \<Longrightarrow> same_end (g h) (f (g h)) \<Longrightarrow> same_end h ((f \<circ> g) h)"
  by (simp add: same_end_def)

section \<open>What a step does to its handler\<close>

text \<open>\<open>st'\<close> comes from \<open>st\<close> by changing handler \<open>i\<close> only, and its new state is consistent.\<close>

definition steps_to :: "proxy_env \<Rightarrow> nat \<Rightarrow> proxy \<Rightarrow> proxy \<Rightarrow> bool" where
  "steps_to env i st st' \<longleftrightarrow> shared_ok env st' \<and> (\<exists>h'. pz_handlers st' = (pz_handlers st)[i := h'] \<and> handler_ok h')"

lemma steps_toI:
  "shared_ok env st' \<Longrightarrow> pz_handlers st' = (pz_handlers st)[i := h'] \<Longrightarrow> handler_ok h' \<Longrightarrow> steps_to env i st st'"
  by (auto simp: steps_to_def)

lemma steps_to_ok:
  assumes "proxy_ok env st" and "steps_to env i st st'"
  shows "proxy_ok env st'"
proof -
  obtain h' where h': "shared_ok env st'" "pz_handlers st' = (pz_handlers st)[i := h']" "handler_ok h'"
    using assms(2) by (auto simp: steps_to_def)
  then have "list_all handler_ok (pz_handlers st')"
    using assms(1) by (auto simp: proxy_ok_def list_all_iff dest!: set_update_subset_insert[THEN subsetD])
  with h'(1) show ?thesis by (simp add: proxy_ok_def shared_ok_def)
qed

lemma steps_to_refl:
  assumes "proxy_ok env st" and "i < length (pz_handlers st)"
  shows "steps_to env i st st"
  using assms by (intro steps_toI[where h' = "pz_handlers st ! i"])
    (auto simp: proxy_ok_def shared_ok_def list_all_length handler_ok_def)

lemma proxy_okD:
  "proxy_ok env st \<Longrightarrow> shared_ok env st"
  "proxy_ok env st \<Longrightarrow> i < length (pz_handlers st) \<Longrightarrow> handler_ok (pz_handlers st ! i)"
  by (auto simp: proxy_ok_def shared_ok_def list_all_length handler_ok_def)

lemma steps_on:
  assumes "shared_ok env st" and "i < length (pz_handlers st)"
    and "same_end (pz_handlers st ! i) (f (pz_handlers st ! i))" and "handler_ok (f (pz_handlers st ! i))"
  shows "steps_to env i st (on_handler i f st)"
  by (rule steps_toI[OF shared_on_handler[where f = f, OF assms(1-3)] _ assms(4)]) simp

text \<open>The shape of every exit: prepare the handler, \<open>_finish\<close>, leave.\<close>

definition exit_handler ::
  "(handler \<Rightarrow> handler) \<Rightarrow> stamp \<Rightarrow> string \<Rightarrow> exn option \<Rightarrow> string option \<Rightarrow> (handler \<Rightarrow> handler) \<Rightarrow> handler \<Rightarrow> handler" where
  "exit_handler f now outcome e stage g h = g (end_handler now outcome e stage (f h))"

lemma steps_exit:
  assumes s: "shared_ok env st" and i: "i < length (pz_handlers st)"
    and f: "same_end (pz_handlers st ! i) (f (pz_handlers st ! i))" and g: "\<And>h. same_end h (g h)"
    and ok: "handler_ok (exit_handler f now outcome e stage g (pz_handlers st ! i))"
  shows "steps_to env i st (on_handler i g (finish env now outcome e stage i (on_handler i f st)))"
proof -
  have "shared_ok env (finish env now outcome e stage i (on_handler i f st))"
    by (rule shared_finish_handler[OF shared_on_handler[where f = f, OF s i f]]) (simp add: i)
  then have "shared_ok env (on_handler i g (finish env now outcome e stage i (on_handler i f st)))"
    by (rule shared_on_handler) (simp_all add: i g)
  then show ?thesis by (rule steps_toI) (use ok i in \<open>simp_all add: exit_handler_def\<close>)
qed

lemma on_handler_id: "i < length (pz_handlers st) \<Longrightarrow> on_handler i (\<lambda>h. h) st = st"
  by (simp add: on_handler_def)

lemmas ok_defs = handler_ok_def prefill_ok_def decode_ok_def prefill_result_def task_live_def streaming_def

lemma end_handler_fields:
  "hn_phase (end_handler now outcome e stage h) = hn_phase h"
  "qs_prefill_task (hn_session (end_handler now outcome e stage h)) = qs_prefill_task (hn_session h)"
  "hn_headers_task (end_handler now outcome e stage h) = hn_headers_task h"
  "hn_chunk (end_handler now outcome e stage h) = hn_chunk h"
  "hn_raised (end_handler now outcome e stage h) = hn_raised h"
  "hn_client_open (end_handler now outcome e stage h) = hn_client_open h"
  "hn_pending_prefill (end_handler now outcome e stage h) = hn_pending_prefill h"
  "task_live (end_handler now outcome e stage h) = task_live h"
  "prefill_result (end_handler now outcome e stage h) = prefill_result h"
  "decode_ok (end_handler now outcome e stage h) = decode_ok h"
  "prefill_ok (end_handler now outcome e stage h) = prefill_ok h"
  by (simp_all add: end_handler_def on_metrics_def ok_defs metrics_of_def end_metrics_sel)

text \<open>A handler that may be left: nothing of it runs, the client session is closed.\<close>

definition quiet :: "handler \<Rightarrow> bool" where
  "quiet h \<longleftrightarrow> qm_request_id (metrics_of h) = qs_request_id (hn_session h) \<and> \<not> ended h \<and> \<not> task_live h \<and>
     \<not> hn_client_open h \<and> (prefill_result h = Some None \<longrightarrow> prefill_ok h) \<and> hn_raised h = None"

lemma leave_ok:
  assumes "quiet h" and "outcome \<noteq> ''success''"
  shows "handler_ok (replies r (end_handler now outcome e stage h))"
    and "handler_ok (stream_raises x (end_handler now outcome e stage h))"
proof -
  define h' where "h' = end_handler now outcome e stage h"
  have h': "ended h'" "qm_request_id (metrics_of h') = qs_request_id (hn_session h')" "\<not> task_live h'"
    "\<not> hn_client_open h'" "prefill_result h' = Some None \<longrightarrow> prefill_ok h'" "qm_outcome (metrics_of h') \<noteq> ''success''"
    using assms by (simp_all add: h'_def quiet_def end_handler_sel end_handler_fields end_metrics_sel)
  then show "handler_ok (replies r h')" "handler_ok (stream_raises x h')"
    by (simp_all add: ok_defs handler_updates metrics_of_def ended_def)
qed

lemma leave_success:
  assumes "quiet h" and "prefill_ok h" "decode_ok h" "hn_chunk h = Chunk_End"
  shows "handler_ok ((end_handler now outcome e stage h)\<lparr>hn_phase := Over\<rparr>)"
proof -
  define h' where "h' = end_handler now outcome e stage h"
  have h': "ended h'" "qm_request_id (metrics_of h') = qs_request_id (hn_session h')" "\<not> task_live h'"
    "\<not> hn_client_open h'" "prefill_ok h'" "decode_ok h'" "hn_chunk h' = Chunk_End" "hn_raised h' = None"
    using assms by (simp_all add: h'_def quiet_def end_handler_sel end_handler_fields end_metrics_sel)
  then show "handler_ok (h'\<lparr>hn_phase := Over\<rparr>)"
    by (simp add: ok_defs metrics_of_def ended_def)
qed

lemma quiet_prepare:
  assumes "handler_ok h" and "hn_phase h \<noteq> Over"
  shows "quiet ((decode_over now \<circ> stop_prefill now \<circ> stop_headers) h)"
    and "quiet ((decode_over now \<circ> stop_prefill now) h)"
    and "prefill_result h \<noteq> None \<Longrightarrow> quiet ((decode_over now \<circ> stop_headers) h)"
    and "prefill_result h \<noteq> None \<Longrightarrow> quiet (h\<lparr>hn_client_open := False\<rparr>)"
    and "prefill_result h \<noteq> None \<Longrightarrow> quiet (decode_over now h)"
    and "hn_phase h = Reading \<Longrightarrow> quiet h"
  using assms
  by (auto simp: quiet_def ok_defs handler_views handler_updates split: option.splits prefill_task.splits)

lemma same_end_prepare:
  assumes "\<not> ended h"
  shows "same_end h ((decode_over now \<circ> stop_prefill now \<circ> stop_headers) h)"
    and "same_end h ((decode_over now \<circ> stop_prefill now) h)"
    and "same_end h ((decode_over now \<circ> stop_headers) h)"
  using assms by (auto simp: handler_views handler_updates split: option.splits prefill_task.splits)

lemma steps_to_trans:
  "steps_to env i st st1 \<Longrightarrow> steps_to env i st1 st2 \<Longrightarrow> steps_to env i st st2"
  by (auto simp: steps_to_def)

lemma steps_length: "steps_to env i st st' \<Longrightarrow> length (pz_handlers st') = length (pz_handlers st)"
  by (auto simp: steps_to_def)

lemma open_handler: "handler_ok h \<Longrightarrow> hn_phase h \<noteq> Over \<Longrightarrow> \<not> ended h"
  by (auto simp: handler_ok_def)

lemma steps_handle_failed:
  assumes "proxy_ok env st" and i: "i < length (pz_handlers st)" and "hn_phase (pz_handlers st ! i) \<noteq> Over"
  shows "steps_to env i st (handle_failed env now e i st)"
  unfolding handle_failed_def Let_def
proof (rule steps_exit)
  note h = proxy_okD(2)[OF assms(1) i]
  show "same_end (pz_handlers st ! i) ((decode_over now \<circ> stop_prefill now \<circ> stop_headers) (pz_handlers st ! i))"
    by (rule same_end_prepare(1)[OF open_handler[OF h assms(3)]])
  show "handler_ok (exit_handler (decode_over now \<circ> stop_prefill now \<circ> stop_headers) now
      (if is_timeout e then ''timeout'' else ''decode_error'') (Some e) (Some ''decode'') (replies (raise_or_502 e)) (pz_handlers st ! i))"
    unfolding exit_handler_def by (rule leave_ok(1)[OF quiet_prepare(1)[OF h assms(3)]]) simp
qed (use assms proxy_okD in \<open>auto simp: same_end_phase\<close>)

lemma append_error: "s @ ''_error'' \<noteq> ''success''"
proof
  assume "s @ ''_error'' = ''success''"
  then have "drop (length (s @ ''_error'') - 1) (s @ ''_error'') = drop (length ''success'' - 1) ''success''" by metis
  then show False by simp
qed

lemma steps_stream_failed:
  assumes "proxy_ok env st" and i: "i < length (pz_handlers st)" and "hn_phase (pz_handlers st ! i) \<noteq> Over"
  shows "steps_to env i st (stream_failed env now e stage i st)"
proof -
  note h = proxy_okD(2)[OF assms(1) i]
  have *: "steps_to env i st (on_handler i (stream_raises e) (finish env now outcome (Some e) s i
      (on_handler i (decode_over now \<circ> stop_prefill now) st)))" if "outcome \<noteq> ''success''" for outcome s
  proof (rule steps_exit)
    show "handler_ok (exit_handler (decode_over now \<circ> stop_prefill now) now outcome (Some e) s (stream_raises e) (pz_handlers st ! i))"
      unfolding exit_handler_def by (rule leave_ok(2)[OF quiet_prepare(2)[OF h assms(3)] that])
  qed (use assms proxy_okD same_end_prepare(2)[OF open_handler[OF h assms(3)]] in \<open>auto simp: same_end_phase\<close>)
  show ?thesis unfolding stream_failed_def Let_def using *[of "''client_cancelled''"] *[of "''timeout''"] *[OF append_error]
    by simp
qed

lemma steps_stream_done:
  assumes "proxy_ok env st" and i: "i < length (pz_handlers st)" and "hn_phase (pz_handlers st ! i) \<noteq> Over"
    and "prefill_ok (pz_handlers st ! i)" "decode_ok (pz_handlers st ! i)" "hn_chunk (pz_handlers st ! i) = Chunk_End"
  shows "steps_to env i st (stream_done env now i st)"
  unfolding stream_done_def
proof (rule steps_exit)
  note h = proxy_okD(2)[OF assms(1) i]
  have p: "prefill_result (pz_handlers st ! i) \<noteq> None" using assms(4) by (simp add: prefill_ok_def)
  show "handler_ok (exit_handler (decode_over now) now ''success'' None None (hn_phase_update (\<lambda>_. Over)) (pz_handlers st ! i))"
    unfolding exit_handler_def
    by (rule leave_success[OF quiet_prepare(5)[OF h assms(3) p]])
       (use assms(4-6) in \<open>simp_all add: handler_updates handler_views ok_defs\<close>)
  show "same_end (pz_handlers st ! i) (decode_over now (pz_handlers st ! i))"
    by (rule same_end_open(1)[OF open_handler[OF h assms(3)]])
qed (use assms proxy_okD in \<open>auto simp: same_end_phase\<close>)

lemma steps_phase:
  assumes "proxy_ok env st" and i: "i < length (pz_handlers st)" and "same_end (pz_handlers st ! i) (f (pz_handlers st ! i))"
    and "handler_ok (pz_handlers st ! i) \<Longrightarrow> handler_ok (f (pz_handlers st ! i))"
  shows "steps_to env i st (on_handler i f st)"
  using steps_on[where f = f, OF proxy_okD(1)[OF assms(1)] i assms(3) assms(4)[OF proxy_okD(2)[OF assms(1) i]]] .

lemma phase_views [simp]:
  "metrics_of (h\<lparr>hn_phase := p\<rparr>) = metrics_of h" "ended (h\<lparr>hn_phase := p\<rparr>) = ended h"
  "task_live (h\<lparr>hn_phase := p\<rparr>) = task_live h" "prefill_result (h\<lparr>hn_phase := p\<rparr>) = prefill_result h"
  "prefill_ok (h\<lparr>hn_phase := p\<rparr>) = prefill_ok h" "decode_ok (h\<lparr>hn_phase := p\<rparr>) = decode_ok h"
  by (simp_all add: ok_defs metrics_of_def ended_def)

lemma handler_okD:
  assumes "handler_ok h"
  shows "hn_phase h \<noteq> Over \<Longrightarrow> \<not> ended h"
    and "streaming (hn_phase h) \<or> hn_phase h = Stream_New \<Longrightarrow> decode_ok h"
    and "streaming (hn_phase h) \<Longrightarrow> \<not> hn_pending_prefill h \<Longrightarrow> prefill_ok h"
    and "prefill_result h = Some None \<Longrightarrow> prefill_ok h"
    and "hn_phase h \<notin> {Over, Reading, Lost} \<Longrightarrow> qs_prefill_task (hn_session h) \<noteq> None"
  using assms unfolding handler_ok_def by blast+

lemma streamingD: "streaming p \<Longrightarrow> p \<notin> {Over, Reading, Lost, Waiting, Heading, Reading_Error, Stream_New}"
  by (auto simp: streaming_def)

lemma handler_ok_move:
  assumes h: "handler_ok h" and open_now: "hn_phase h \<notin> {Over, Reading, Lost}" and p: "p \<notin> {Over, Reading}"
    and "p = Heading \<Longrightarrow> prefill_ok h" and "p = Stream_New \<or> streaming p \<Longrightarrow> decode_ok h"
    and "streaming p \<Longrightarrow> \<not> hn_pending_prefill h \<Longrightarrow> prefill_ok h"
    and "p = Stream_Chunk \<Longrightarrow> \<not> hn_pending_prefill h" and "p = Stream_Prefill \<Longrightarrow> hn_chunk h = Chunk_End"
  shows "handler_ok (h\<lparr>hn_phase := p\<rparr>)"
proof -
  have o: "\<not> ended h" "hn_raised h = None" "qs_prefill_task (hn_session h) \<noteq> None"
    "qm_request_id (metrics_of h) = qs_request_id (hn_session h)" "prefill_result h = Some None \<longrightarrow> prefill_ok h"
    using h open_now by (auto simp: handler_ok_def)
  show ?thesis unfolding handler_ok_def phase_views using o p assms(4-8) by simp
qed

lemma handler_ok_phase:
  assumes "handler_ok h" and "streaming (hn_phase h)" and "streaming p"
    and "p = Stream_Chunk \<Longrightarrow> \<not> hn_pending_prefill h" and "p = Stream_Prefill \<Longrightarrow> hn_chunk h = Chunk_End"
  shows "handler_ok (h\<lparr>hn_phase := p\<rparr>)"
  using assms streamingD[OF assms(2)] streamingD[OF assms(3)]
  unfolding handler_ok_def phase_views by simp

lemma steps_chunks_over:
  assumes "proxy_ok env st" and i: "i < length (pz_handlers st)" and p: "streaming (hn_phase (pz_handlers st ! i))"
    and c: "hn_chunk (pz_handlers st ! i) = Chunk_End"
  shows "steps_to env i st (chunks_over env now i st)"
proof -
  let ?h = "pz_handlers st ! i"
  note h = proxy_okD(2)[OF assms(1) i]
  have d: "decode_ok ?h" "hn_phase ?h \<noteq> Over" using handler_okD(2)[OF h] p streamingD[OF p] by simp_all
  consider "\<not> hn_pending_prefill ?h" | "hn_pending_prefill ?h" "prefill_result ?h = None"
    | "hn_pending_prefill ?h" "prefill_result ?h = Some None"
    | e where "hn_pending_prefill ?h" "prefill_result ?h = Some (Some e)" by (metis option.exhaust)
  then show ?thesis
  proof cases
    case 1
    then have "prefill_ok ?h" using handler_okD(3)[OF h p] by simp
    with 1 show ?thesis by (simp add: chunks_over_def steps_stream_done[OF assms(1) i d(2) _ d(1) c])
  next
    case 2
    have "handler_ok (?h\<lparr>hn_phase := Stream_Prefill\<rparr>)" by (rule handler_ok_phase[OF h p]) (simp_all add: streaming_def c)
    with 2 show ?thesis
      by (simp add: chunks_over_def steps_phase[where f = "hn_phase_update (\<lambda>_. Stream_Prefill)", OF assms(1) i same_end_phase(1)])
  next
    case 3
    then have "prefill_ok ?h" using handler_okD(4)[OF h] by simp
    with 3 show ?thesis by (simp add: chunks_over_def steps_stream_done[OF assms(1) i d(2) _ d(1) c])
  next
    case 4
    then show ?thesis by (simp add: chunks_over_def steps_stream_failed[OF assms(1) i d(2)])
  qed
qed

lemma yield_views [simp]:
  "qm_request_id (metrics_of (yield_chunk now b h)) = qm_request_id (metrics_of h)"
  "qm_outcome (metrics_of (yield_chunk now b h)) = qm_outcome (metrics_of h)"
  "qs_request_id (hn_session (yield_chunk now b h)) = qs_request_id (hn_session h)"
  "qs_prefill_task (hn_session (yield_chunk now b h)) = qs_prefill_task (hn_session h)"
  "hn_phase (yield_chunk now b h) = Stream_Yield" "hn_client_open (yield_chunk now b h) = hn_client_open h"
  "hn_pending_prefill (yield_chunk now b h) = hn_pending_prefill h" "hn_raised (yield_chunk now b h) = hn_raised h"
  "hn_chunk (yield_chunk now b h) = hn_chunk h"
  "ended (yield_chunk now b h) = ended h" "task_live (yield_chunk now b h) = task_live h"
  "prefill_result (yield_chunk now b h) = prefill_result h" "prefill_ok (yield_chunk now b h) = prefill_ok h"
  "decode_ok (yield_chunk now b h) = decode_ok h"
  by (simp_all add: yield_chunk_def ok_defs metrics_of_def ended_def on_metrics_def)

lemma steps_take_chunk:
  assumes "proxy_ok env st" and i: "i < length (pz_handlers st)" and p: "streaming (hn_phase (pz_handlers st ! i))"
    and c: "hn_chunk (pz_handlers st ! i) = Chunk_Running \<Longrightarrow> \<not> hn_pending_prefill (pz_handlers st ! i)"
  shows "steps_to env i st (take_chunk env now i st)"
proof -
  let ?h = "pz_handlers st ! i"
  note h = proxy_okD(2)[OF assms(1) i]
  have o: "hn_phase ?h \<noteq> Over" using p by (auto simp: streaming_def)
  show ?thesis
  proof (cases "hn_chunk ?h")
    case Chunk_Running
    have "handler_ok (?h\<lparr>hn_phase := Stream_Chunk\<rparr>)"
      by (rule handler_ok_phase[OF h p]) (simp_all add: streaming_def c[OF Chunk_Running])
    with Chunk_Running show ?thesis
      by (simp add: take_chunk_def steps_phase[where f = "hn_phase_update (\<lambda>_. Stream_Chunk)", OF assms(1) i same_end_phase(1)])
  next
    case (Chunk_Ready b)
    have "handler_ok (yield_chunk now b ?h)" using h p streamingD[OF p]
      unfolding handler_ok_def yield_views by (auto simp: streaming_def)
    with Chunk_Ready show ?thesis
      by (simp add: take_chunk_def steps_phase[where f = "yield_chunk now b", OF assms(1) i same_end_open(3)[OF open_handler[OF h o]]])
  next
    case Chunk_End
    then show ?thesis by (simp add: take_chunk_def steps_chunks_over[OF assms(1) i p])
  next
    case (Chunk_Error e)
    then show ?thesis by (simp add: take_chunk_def steps_stream_failed[OF assms(1) i o])
  qed
qed

lemma steps_stream_wake:
  assumes "proxy_ok env st" and i: "i < length (pz_handlers st)" and p: "hn_phase (pz_handlers st ! i) = Stream_Wait"
  shows "steps_to env i st (stream_wake env now i st)"
proof -
  let ?h = "pz_handlers st ! i"
  note h = proxy_okD(2)[OF assms(1) i]
  define ready where "ready = (hn_pending_prefill ?h \<and> prefill_result ?h \<noteq> None)"
  define f where "f = (\<lambda>h :: handler. if ready then h\<lparr>hn_pending_prefill := False\<rparr> else h)"
  have stop: "steps_to env i st (on_handler i stop_chunk st)"
    by (rule steps_phase[OF assms(1) i]) (use p in \<open>auto simp: ok_defs handler_views handler_updates\<close>)
  have failed: "steps_to env i st (stream_failed env now e s i (on_handler i stop_chunk st))" for e s
    by (rule steps_to_trans[OF stop steps_stream_failed[OF steps_to_ok[OF assms(1) stop]]])
       (use i p in \<open>simp_all add: stop_chunk_def\<close>)
  have taken: "steps_to env i st (take_chunk env now i (on_handler i f st))"
    if "ready \<Longrightarrow> prefill_result ?h = Some None" "\<not> ready \<Longrightarrow> hn_chunk ?h \<noteq> Chunk_Running"
  proof -
    have s: "steps_to env i st (on_handler i f st)"
      by (rule steps_phase[OF assms(1) i]) (use that p in \<open>auto simp: f_def ok_defs handler_views\<close>)
    show ?thesis
      by (rule steps_to_trans[OF s steps_take_chunk[OF steps_to_ok[OF assms(1) s]]])
         (use i p that in \<open>auto simp: streaming_def f_def\<close>)
  qed
  show ?thesis
  proof (cases "hn_chunk ?h = Chunk_Running \<and> \<not> ready")
    case True
    then show ?thesis using failed steps_to_refl[OF assms(1) i]
      unfolding stream_wake_def Let_def ready_def[symmetric] f_def[symmetric] by simp
  next
    case False
    show ?thesis
    proof (cases "if ready then prefill_result ?h else Some None")
      case None
      then have False by (auto simp: ready_def split: if_splits)
      then show ?thesis ..
    next
      case (Some r)
      with False failed taken show ?thesis
        unfolding stream_wake_def Let_def ready_def[symmetric] f_def[symmetric]
        by (cases r) (auto split: if_splits)
    qed
  qed
qed

lemma steps_chunk_awaited:
  assumes "proxy_ok env st" and i: "i < length (pz_handlers st)" and p: "hn_phase (pz_handlers st ! i) = Stream_Chunk"
  shows "steps_to env i st (chunk_awaited env now i st)"
  using steps_to_refl[OF assms(1) i] steps_stream_failed[OF assms(1) i, of now] steps_take_chunk[OF assms(1) i, of now] p
  by (auto simp: chunk_awaited_def streaming_def split: chunk_task.splits)

lemma steps_refuse:
  assumes "proxy_ok env st" and i: "i < length (pz_handlers st)" and p: "hn_phase (pz_handlers st ! i) = Reading"
    and "outcome \<noteq> ''success''"
  shows "steps_to env i st (on_handler i (replies r) (finish env now outcome (Some e) stage i st))"
proof -
  note h = proxy_okD(2)[OF assms(1) i]
  have "handler_ok (exit_handler (\<lambda>h. h) now outcome (Some e) stage (replies r) (pz_handlers st ! i))"
    unfolding exit_handler_def by (rule leave_ok(1)[OF quiet_prepare(6)[OF h _ p] assms(4)]) (simp add: p)
  from steps_exit[OF proxy_okD(1)[OF assms(1)] i same_end_refl same_end_phase(3) this]
  show ?thesis by (simp add: on_handler_id[OF i])
qed

lemma steps_handle_start:
  assumes "proxy_ok env st" and "i < length (pz_handlers st)" and "hn_phase (pz_handlers st ! i) = Reading"
  shows "steps_to env i st (handle_start env now i st)"
  unfolding handle_start_def Let_def using steps_refuse[OF assms, of "''proxy_error''"] steps_to_refl[OF assms(1,2)] by simp

lemma handler_ok_lost:
  assumes "handler_ok h" and "hn_phase h \<noteq> Over"
  shows "handler_ok (h\<lparr>hn_phase := Lost\<rparr>)" "handler_ok (h\<lparr>hn_phase := Lost, hn_reply := r\<rparr>)"
proof -
  have *: "\<not> ended h" using assms by (simp add: handler_ok_def)
  show "handler_ok (h\<lparr>hn_phase := Lost\<rparr>)" using assms * unfolding handler_ok_def phase_views by (simp add: streaming_def)
  moreover have "handler_ok (h\<lparr>hn_phase := Lost, hn_reply := r\<rparr>) = handler_ok (h\<lparr>hn_phase := Lost\<rparr>)"
    by (simp add: ok_defs metrics_of_def ended_def)
  ultimately show "handler_ok (h\<lparr>hn_phase := Lost, hn_reply := r\<rparr>)" by simp
qed

lemma handler_ok_body:
  assumes "handler_ok h" and "hn_phase h = Reading"
  shows "handler_ok (on_metrics (set_body env d) h)" and "handler_ok (launch env st now d b h)"
  using assms by (auto simp: ok_defs handler_views set_body_def launch_def Let_def)

lemma steps_body_read:
  assumes "proxy_ok env st" and i: "i < length (pz_handlers st)" and p: "hn_phase (pz_handlers st ! i) = Reading"
  shows "steps_to env i st (body_read env now body i st)"
proof -
  note h = proxy_okD(2)[OF assms(1) i]
  have o: "\<not> ended (pz_handlers st ! i)" using handler_okD(1)[OF h] p by simp
  have refuse: "steps_to env i st (on_handler i (replies r) (finish env now ''proxy_error'' (Some e) s i st))" for r e s
    by (rule steps_refuse[OF assms]) simp
  have lost: "steps_to env i u (on_handler i (\<lambda>h. h\<lparr>hn_phase := Lost, hn_reply := r\<rparr>) u)"
    if "proxy_ok env u" "i < length (pz_handlers u)" "hn_phase (pz_handlers u ! i) = Reading" for r u
    by (rule steps_phase[where f = "\<lambda>h. h\<lparr>hn_phase := Lost, hn_reply := r\<rparr>", OF that(1,2) same_end_phase(2)
          handler_ok_lost(2)]) (simp_all add: that(3))
  show ?thesis
  proof (cases "\<exists>d. body = Inl (JDict d)")
    case True
    then obtain d where d: "body = Inl (JDict d)" by blast
    define u where "u = on_handler i (on_metrics (set_body env d)) st"
    have s: "steps_to env i st u" unfolding u_def
      by (rule steps_phase[where f = "on_metrics (set_body env d)", OF assms(1) i same_end_open(5)[OF o] handler_ok_body(1)[OF _ p]])
    have u: "proxy_ok env u" "i < length (pz_handlers u)" "hn_phase (pz_handlers u ! i) = Reading"
      using steps_to_ok[OF assms(1) s] i p by (simp_all add: u_def on_metrics_def)
    have uo: "\<not> ended (pz_handlers u ! i)" using handler_okD(1)[OF proxy_okD(2)[OF u(1,2)]] u(3) by simp
    have "steps_to env i u (on_handler i (launch env u now d b) u)" for b
      by (rule steps_phase[where f = "launch env u now d b", OF u(1,2) same_end_open(7)[OF uo] handler_ok_body(2)[OF _ u(3)]])
    then have "steps_to env i u (body_read env now body i st)"
      using lost[OF u] by (simp add: d body_read_def Let_def u_def split: sum.splits)
    then show ?thesis by (rule steps_to_trans[OF s])
  next
    case False
    then show ?thesis using refuse lost[OF assms] by (auto simp: body_read_def split: sum.splits json.splits)
  qed
qed

lemma steps_got_headers:
  assumes "proxy_ok env st" and i: "i < length (pz_handlers st)"
    and p: "hn_phase (pz_handlers st ! i) \<in> {Waiting, Heading}"
    and ok: "hn_headers_task (pz_handlers st ! i) = Head_Running \<Longrightarrow> prefill_ok (pz_handlers st ! i)"
  shows "steps_to env i st (got_headers env now i st)"
proof -
  let ?h = "pz_handlers st ! i"
  note h = proxy_okD(2)[OF assms(1) i]
  have o: "\<not> ended ?h" "hn_phase ?h \<noteq> Over" using handler_okD(1)[OF h] p by auto
  show ?thesis
  proof (cases "hn_headers_task ?h")
    case Head_Running
    have "handler_ok (?h\<lparr>hn_phase := Heading\<rparr>)"
      by (rule handler_ok_move[OF h]) (use p ok[OF Head_Running] in \<open>auto simp: streaming_def\<close>)
    with Head_Running show ?thesis
      by (simp add: got_headers_def steps_phase[where f = "hn_phase_update (\<lambda>_. Heading)", OF assms(1) i same_end_phase(1)])
  next
    case (Head_Error e)
    then show ?thesis by (simp add: got_headers_def steps_handle_failed[OF assms(1) i o(2)])
  next
    case (Head_Done status ct)
    define f where "f = on_metrics (\<lambda>m. m\<lparr>qm_decode_http_status := Some status, qm_decode_headers := Some now\<rparr>)"
    define u where "u = on_handler i f st"
    have views: "hn_phase (f ?h) = hn_phase ?h" "hn_headers_task (f ?h) = hn_headers_task ?h" "prefill_result (f ?h) = prefill_result ?h"
      by (simp_all add: f_def on_metrics_def prefill_result_def)
    have fh: "handler_ok (f ?h)" using h by (simp add: f_def ok_defs handler_views)
    have s: "steps_to env i st u" unfolding u_def
      by (rule steps_phase[where f = f, OF assms(1) i _ fh]) (simp add: f_def same_end_open(6)[OF o(1)])
    have u: "proxy_ok env u" "i < length (pz_handlers u)" "pz_handlers u ! i = f ?h"
      using steps_to_ok[OF assms(1) s] i by (simp_all add: u_def)
    have uo: "\<not> ended (f ?h)" using handler_okD(1)[OF fh] views(1) o(2) by simp
    have err: "steps_to env i u (on_handler i (hn_phase_update (\<lambda>_. Reading_Error)) u)"
    proof (rule steps_phase[where f = "hn_phase_update (\<lambda>_. Reading_Error)", OF u(1,2) same_end_phase(1)])
      show "handler_ok ((pz_handlers u ! i)\<lparr>hn_phase := Reading_Error\<rparr>)"
        unfolding u(3) by (rule handler_ok_move[OF fh]) (use p views(1) in \<open>auto simp: streaming_def\<close>)
    qed
    have stream: "steps_to env i u (on_handler i (\<lambda>h. h\<lparr>hn_phase := Stream_New, hn_reply := r\<rparr>) u)"
      if "is_ok_status status" for r
    proof (rule steps_phase[where f = "\<lambda>h. h\<lparr>hn_phase := Stream_New, hn_reply := r\<rparr>", OF u(1,2) same_end_phase(2)])
      have "handler_ok ((f ?h)\<lparr>hn_phase := Stream_New\<rparr>)"
        by (rule handler_ok_move[OF fh]) (use p views(1,2) that Head_Done in \<open>auto simp: streaming_def decode_ok_def\<close>)
      then show "handler_ok ((pz_handlers u ! i)\<lparr>hn_phase := Stream_New, hn_reply := r\<rparr>)"
        unfolding u(3) by (simp add: ok_defs metrics_of_def ended_def)
    qed
    have lost: "steps_to env i u (prefill_lost env now e i u)" if "prefill_result ?h = Some (Some e)" for e
      unfolding prefill_lost_def
    proof (rule steps_exit[where f = "hn_client_open_update (\<lambda>_. False)", OF proxy_okD(1)[OF u(1)] u(2) same_end_phase(9) same_end_phase(3)])
      have "quiet ((f ?h)\<lparr>hn_client_open := False\<rparr>)"
        by (rule quiet_prepare(4)[OF fh]) (use views(1,3) that o(2) in simp_all)
      from leave_ok(1)[OF this]
      show "handler_ok (exit_handler (hn_client_open_update (\<lambda>_. False)) now ''prefill_error'' (Some e) (Some ''prefill'')
          (replies (Reply_Json 502 (exn_text e))) (pz_handlers u ! i))"
        unfolding exit_handler_def u(3) by simp
    qed
    have hd: "got_headers env now i st =
        (if \<not> is_ok_status status then on_handler i (hn_phase_update (\<lambda>_. Reading_Error)) u
         else case prefill_result (f ?h) of Some (Some e) \<Rightarrow> prefill_lost env now e i u
              | _ \<Rightarrow> on_handler i (\<lambda>h. h\<lparr>hn_phase := Stream_New, hn_reply := Some (Reply_Stream status (media_type ct))\<rparr>) u)"
      unfolding got_headers_def Head_Done header_task.case Let_def f_def[symmetric] u_def[symmetric] u(3) ..
    have "steps_to env i u (got_headers env now i st)"
      unfolding hd views(3) using err stream lost by (cases "prefill_result ?h"; cases "the (prefill_result ?h)") auto
    then show ?thesis by (rule steps_to_trans[OF s])
  qed
qed

lemma steps_wait_over:
  assumes "proxy_ok env st" and i: "i < length (pz_handlers st)" and p: "hn_phase (pz_handlers st ! i) = Waiting"
    and d: "prefill_result (pz_handlers st ! i) \<noteq> None \<or> hn_headers_task (pz_handlers st ! i) \<noteq> Head_Running"
  shows "steps_to env i st (wait_over env now i st)"
proof -
  let ?h = "pz_handlers st ! i"
  note h = proxy_okD(2)[OF assms(1) i]
  have o: "\<not> ended ?h" "hn_phase ?h \<noteq> Over" using handler_okD(1)[OF h] p by auto
  show ?thesis
  proof (cases "\<exists>e. prefill_result ?h = Some (Some e)")
    case True
    then obtain e where e: "prefill_result ?h = Some (Some e)" by blast
    have "handler_ok (exit_handler (decode_over now \<circ> stop_headers) now ''prefill_error'' (Some e) (Some ''prefill'')
        (replies (raise_or_502 e)) ?h)"
      unfolding exit_handler_def by (rule leave_ok(1)[OF quiet_prepare(3)[OF h o(2)]]) (simp_all add: e)
    from steps_exit[where f = "decode_over now \<circ> stop_headers", OF proxy_okD(1)[OF assms(1)] i same_end_prepare(3)[OF o(1)] same_end_phase(3) this]
    show ?thesis by (simp add: wait_over_def e)
  next
    case False
    then have "wait_over env now i st = got_headers env now i st"
      by (auto simp: wait_over_def split: option.splits)
    moreover have "prefill_ok ?h" if waits: "hn_headers_task ?h = Head_Running"
    proof -
      obtain r where "prefill_result ?h = Some r" using d waits by auto
      then show ?thesis using False handler_okD(4)[OF h] by (cases r) auto
    qed
    ultimately show ?thesis using steps_got_headers[OF assms(1) i] p by simp
  qed
qed

lemma steps_error_body_read:
  assumes "proxy_ok env st" and i: "i < length (pz_handlers st)" and p: "hn_phase (pz_handlers st ! i) = Reading_Error"
  shows "steps_to env i st (error_body_read env now body i st)"
proof -
  let ?h = "pz_handlers st ! i"
  note h = proxy_okD(2)[OF assms(1) i]
  have o: "\<not> ended ?h" "hn_phase ?h \<noteq> Over" using handler_okD(1)[OF h] p by auto
  have *: "steps_to env i st (on_handler i (replies r) (finish env now ''decode_error'' (Some e) s i
      (on_handler i (decode_over now \<circ> stop_prefill now) st)))" for r e s
  proof (rule steps_exit[where f = "decode_over now \<circ> stop_prefill now", OF proxy_okD(1)[OF assms(1)] i same_end_prepare(2)[OF o(1)] same_end_phase(3)])
    show "handler_ok (exit_handler (decode_over now \<circ> stop_prefill now) now ''decode_error'' (Some e) s (replies r) ?h)"
      unfolding exit_handler_def by (rule leave_ok(1)[OF quiet_prepare(2)[OF h o(2)]]) simp
  qed
  show ?thesis
    using * steps_handle_failed[OF assms(1) i o(2), of now] steps_to_refl[OF assms(1) i]
    by (auto simp: error_body_read_def split: sum.splits header_task.splits)
qed

lemma handler_ok_task:
  assumes h: "handler_ok h" and live: "task_live h" and e: "same_end h h'"
    and same: "hn_phase h' = hn_phase h" "hn_headers_task h' = hn_headers_task h" "hn_client_open h' = hn_client_open h"
      "hn_raised h' = hn_raised h" "hn_chunk h' = hn_chunk h" "hn_pending_prefill h' = hn_pending_prefill h"
    and task: "qs_prefill_task (hn_session h') \<noteq> None" "prefill_result h' = Some None \<Longrightarrow> prefill_ok h'"
  shows "handler_ok h'"
proof -
  have n: "hn_phase h \<notin> {Over, Reading}" using h live by (auto simp: handler_ok_def)
  have no: "\<not> prefill_ok h" using live by (auto simp: prefill_ok_def prefill_result_def task_live_def)
  have o: "\<not> ended h" "hn_raised h = None" "qm_request_id (metrics_of h) = qs_request_id (hn_session h)"
    "hn_phase h \<noteq> Heading" "hn_phase h = Stream_New \<or> streaming (hn_phase h) \<longrightarrow> decode_ok h"
    "streaming (hn_phase h) \<longrightarrow> hn_pending_prefill h" "hn_phase h = Stream_Chunk \<longrightarrow> \<not> hn_pending_prefill h"
    "hn_phase h = Stream_Prefill \<longrightarrow> hn_chunk h = Chunk_End"
    using h n no unfolding handler_ok_def by simp_all
  have "decode_ok h' = decode_ok h" "\<not> ended h'" "qm_request_id (metrics_of h') = qs_request_id (hn_session h')"
    using e same o by (simp_all add: same_end_def decode_ok_def)
  with n o task show ?thesis unfolding handler_ok_def same by auto
qed

lemma on_metrics_sel [simp]: "metrics_of (on_metrics f h) = f (metrics_of h)"
  "hn_phase (on_metrics f h) = hn_phase h" "hn_headers_task (on_metrics f h) = hn_headers_task h"
  "hn_client_open (on_metrics f h) = hn_client_open h" "hn_raised (on_metrics f h) = hn_raised h"
  "hn_chunk (on_metrics f h) = hn_chunk h" "hn_pending_prefill (on_metrics f h) = hn_pending_prefill h"
  "qs_prefill_task (hn_session (on_metrics f h)) = qs_prefill_task (hn_session h)"
  by (simp_all add: on_metrics_def metrics_of_def)

lemma prefill_same [simp]:
  "hn_phase (prefill_ends now r h) = hn_phase h" "hn_headers_task (prefill_ends now r h) = hn_headers_task h"
  "hn_client_open (prefill_ends now r h) = hn_client_open h" "hn_raised (prefill_ends now r h) = hn_raised h"
  "hn_chunk (prefill_ends now r h) = hn_chunk h" "hn_pending_prefill (prefill_ends now r h) = hn_pending_prefill h"
  "qs_prefill_task (hn_session (prefill_ends now r h)) = Some (Task_Done r)"
  "prefill_result (prefill_ends now r h) = Some r"
  "qm_prefill_http_status (metrics_of (prefill_ends now r h)) = qm_prefill_http_status (metrics_of h)"
  by (simp_all add: handler_updates handler_views prefill_result_def)

lemma handler_ok_prefill:
  assumes h: "handler_ok h"
  shows "handler_ok (prefill_started now h)" "handler_ok (prefill_replied env now code pay h)"
    "handler_ok (prefill_failed now e h)" "handler_ok (stop_prefill now h)"
proof -
  have o: "\<not> ended h" if "task_live h" using h that by (auto simp: handler_ok_def)
  note step = handler_ok_task[OF h]
  show "handler_ok (prefill_started now h)"
  proof (cases "qs_prefill_task (hn_session h) = Some Task_New")
    case True
    then have l: "task_live h" by (simp add: task_live_def)
    show ?thesis by (rule step[OF l same_end_open(8)[OF o[OF l]]])
      (simp_all add: True prefill_started_def set_prefill_task_def on_metrics_def prefill_result_def)
  qed (use h in \<open>simp add: prefill_started_def\<close>)
  have running: "handler_ok (prefill_ends now r (on_metrics (qm_prefill_http_status_update (\<lambda>_. s)) h))"
    if "qs_prefill_task (hn_session h) = Some Task_Running" and "r = None \<Longrightarrow> (case s of Some c \<Rightarrow> is_ok_status c | None \<Rightarrow> False)" for r s
  proof -
    have l: "task_live h" using that(1) by (simp add: task_live_def)
    have "same_end h (prefill_ends now r (on_metrics (qm_prefill_http_status_update (\<lambda>_. s)) h))"
      using o[OF l] by (auto simp: handler_views handler_updates)
    then show ?thesis
      by (rule step[OF l]) (use that(2) in \<open>simp_all add: prefill_ok_def\<close>)
  qed
  show "handler_ok (prefill_replied env now code pay h)"
    unfolding prefill_replied_def using h running[where s = "Some code"] by (auto split: sum.splits)
  have plain: "handler_ok (prefill_ends now (Some x) h)" if run: "qs_prefill_task (hn_session h) = Some Task_Running" for x
  proof -
    have l: "task_live h" using run by (simp add: task_live_def)
    show ?thesis by (rule step[OF l same_end_open(4)[OF o[OF l]]]) simp_all
  qed
  then show "handler_ok (prefill_failed now e h)" using h by (simp add: prefill_failed_def)
  have "handler_ok (set_prefill_task (Task_Done (Some (Cancelled []))) h)" if new: "qs_prefill_task (hn_session h) = Some Task_New"
  proof -
    have l: "task_live h" using new by (simp add: task_live_def)
    have "same_end h (set_prefill_task (Task_Done (Some (Cancelled []))) h)" by (simp add: handler_views)
    then show ?thesis by (rule step[OF l]) (simp_all add: set_prefill_task_def prefill_result_def)
  qed
  with plain h show "handler_ok (stop_prefill now h)"
    by (simp add: stop_prefill_def split: option.splits prefill_task.splits)
qed

lemma same_end_prefill:
  assumes "handler_ok h"
  shows "same_end h (prefill_started now h)" "same_end h (prefill_replied env now code pay h)"
    "same_end h (prefill_failed now e h)" "same_end h (stop_prefill now h)"
proof -
  have "same_end h (prefill_started now h) \<and> same_end h (prefill_replied env now code pay h) \<and>
      same_end h (prefill_failed now e h) \<and> same_end h (stop_prefill now h)"
  proof (cases "ended h")
    case True
    then have "\<not> task_live h" using assms by (auto simp: handler_ok_def)
    then show ?thesis
      by (auto simp: task_live_def prefill_started_def prefill_replied_def prefill_failed_def stop_prefill_def same_end_refl
          split: option.splits prefill_task.splits)
  qed (simp add: same_end_open)
  then show "same_end h (prefill_started now h)" "same_end h (prefill_replied env now code pay h)"
    "same_end h (prefill_failed now e h)" "same_end h (stop_prefill now h)" by simp_all
qed

lemma steps_stream_start:
  assumes "proxy_ok env st" and i: "i < length (pz_handlers st)" and p: "hn_phase (pz_handlers st ! i) = Stream_New"
  shows "steps_to env i st (on_handler i (stream_start timeout now) st)"
proof (rule steps_phase[where f = "stream_start timeout now", OF assms(1) i same_end_phase(6)])
  let ?h = "pz_handlers st ! i" and ?h' = "stream_start timeout now (pz_handlers st ! i)"
  assume h: "handler_ok ?h"
  have "ended ?h' = ended ?h" "metrics_of ?h' = metrics_of ?h" "hn_session ?h' = hn_session ?h" "task_live ?h' = task_live ?h"
    "prefill_result ?h' = prefill_result ?h" "prefill_ok ?h' = prefill_ok ?h" "decode_ok ?h' = decode_ok ?h"
    "hn_phase ?h' = Stream_Wait" "hn_pending_prefill ?h'" "hn_raised ?h' = hn_raised ?h"
    by (simp_all add: stream_start_def next_chunk_def ended_def metrics_of_def ok_defs)
  then show "handler_ok ?h'" using handler_okD(1,2)[OF h] h p by (simp add: handler_ok_def)
qed

lemma steps_next_chunk:
  assumes "proxy_ok env st" and i: "i < length (pz_handlers st)" and p: "hn_phase (pz_handlers st ! i) = Stream_Yield"
  shows "steps_to env i st (on_handler i next_chunk st)"
proof (rule steps_phase[where f = next_chunk, OF assms(1) i same_end_phase(5)])
  let ?h = "pz_handlers st ! i" and ?h' = "next_chunk (pz_handlers st ! i)"
  assume h: "handler_ok ?h"
  have "ended ?h' = ended ?h" "metrics_of ?h' = metrics_of ?h" "hn_session ?h' = hn_session ?h" "task_live ?h' = task_live ?h"
    "prefill_result ?h' = prefill_result ?h" "prefill_ok ?h' = prefill_ok ?h" "decode_ok ?h' = decode_ok ?h"
    "hn_phase ?h' = Stream_Wait" "hn_pending_prefill ?h' = hn_pending_prefill ?h" "hn_raised ?h' = hn_raised ?h"
    by (simp_all add: next_chunk_def ended_def metrics_of_def ok_defs)
  moreover have "streaming (hn_phase ?h)" using p by (simp add: streaming_def)
  ultimately show "handler_ok ?h'" using handler_okD(1,2,3)[OF h] h p by (simp add: handler_ok_def)
qed

lemma task_views [simp]:
  "metrics_of (h\<lparr>hn_headers_task := t\<rparr>) = metrics_of h" "ended (h\<lparr>hn_headers_task := t\<rparr>) = ended h"
  "task_live (h\<lparr>hn_headers_task := t\<rparr>) = task_live h" "prefill_result (h\<lparr>hn_headers_task := t\<rparr>) = prefill_result h"
  "prefill_ok (h\<lparr>hn_headers_task := t\<rparr>) = prefill_ok h"
  "metrics_of (h\<lparr>hn_chunk := c\<rparr>) = metrics_of h" "ended (h\<lparr>hn_chunk := c\<rparr>) = ended h"
  "task_live (h\<lparr>hn_chunk := c\<rparr>) = task_live h" "prefill_result (h\<lparr>hn_chunk := c\<rparr>) = prefill_result h"
  "prefill_ok (h\<lparr>hn_chunk := c\<rparr>) = prefill_ok h" "decode_ok (h\<lparr>hn_chunk := c\<rparr>) = decode_ok h"
  by (simp_all add: ok_defs metrics_of_def ended_def)

lemma steps_arrive:
  assumes "proxy_ok env st" and i: "i < length (pz_handlers st)"
  shows "hn_phase (pz_handlers st ! i) \<in> {Waiting, Heading} \<Longrightarrow> steps_to env i st (on_handler i (\<lambda>h. h\<lparr>hn_headers_task := t\<rparr>) st)"
    and "hn_phase (pz_handlers st ! i) \<in> {Stream_Wait, Stream_Chunk} \<Longrightarrow> steps_to env i st (on_handler i (\<lambda>h. h\<lparr>hn_chunk := c\<rparr>) st)"
proof -
  let ?h = "pz_handlers st ! i"
  note h = proxy_okD(2)[OF assms]
  assume p: "hn_phase ?h \<in> {Waiting, Heading}"
  have ph: "hn_phase ?h \<noteq> Stream_New" "\<not> streaming (hn_phase ?h)" "\<not> ended ?h"
    using p handler_okD(1)[OF h] by (auto simp: streaming_def)
  have "handler_ok (?h\<lparr>hn_headers_task := t\<rparr>)" using h ph unfolding handler_ok_def task_views by simp
  then show "steps_to env i st (on_handler i (\<lambda>h. h\<lparr>hn_headers_task := t\<rparr>) st)"
    using steps_phase[where f = "\<lambda>h. h\<lparr>hn_headers_task := t\<rparr>", OF assms same_end_phase(10)] by simp
next
  let ?h = "pz_handlers st ! i"
  note h = proxy_okD(2)[OF assms]
  assume p: "hn_phase ?h \<in> {Stream_Wait, Stream_Chunk}"
  have ph: "hn_phase ?h \<noteq> Stream_Prefill" "\<not> ended ?h" using p handler_okD(1)[OF h] by auto
  have "handler_ok (?h\<lparr>hn_chunk := c\<rparr>)" using h ph unfolding handler_ok_def task_views by simp
  then show "steps_to env i st (on_handler i (\<lambda>h. h\<lparr>hn_chunk := c\<rparr>) st)"
    using steps_phase[where f = "\<lambda>h. h\<lparr>hn_chunk := c\<rparr>", OF assms same_end_phase(11)] by simp
qed

lemma handler_step_steps:
  assumes ok: "proxy_ok env st" and i: "i < length (pz_handlers st)"
  shows "steps_to env i st (handler_step env now ev i st)"
proof -
  let ?h = "pz_handlers st ! i"
  note h = proxy_okD(2)[OF assms] and nop = steps_to_refl[OF assms]
  show ?thesis
  proof (cases ev)
    case (Body_Read b)
    then show ?thesis using nop steps_body_read[OF assms] by simp
  next
    case Prefill_Starts
    then show ?thesis using steps_phase[where f = "prefill_started now", OF assms same_end_prefill(1)[OF h] handler_ok_prefill(1)] by simp
  next
    case (Prefill_Replies s b)
    then show ?thesis using steps_phase[where f = "prefill_replied env now s b", OF assms same_end_prefill(2)[OF h] handler_ok_prefill(2)] by simp
  next
    case (Prefill_Fails e)
    then show ?thesis using steps_phase[where f = "prefill_failed now e", OF assms same_end_prefill(3)[OF h] handler_ok_prefill(3)] by simp
  next
    case (Error_Body b)
    then show ?thesis using nop steps_error_body_read[OF assms] by simp
  next
    case Wake
    have "hn_phase ?h = Stream_Prefill \<Longrightarrow> hn_chunk ?h = Chunk_End" using h by (simp add: handler_ok_def)
    with Wake show ?thesis
      using nop steps_wait_over[OF assms, of now] steps_got_headers[OF assms, of now] steps_stream_wake[OF assms, of now]
        steps_chunk_awaited[OF assms, of now] steps_chunks_over[OF assms, of now]
      by (cases "hn_phase ?h") (auto simp: Let_def streaming_def)
  next
    case Client_Reads
    then show ?thesis using nop steps_stream_start[OF assms] steps_next_chunk[OF assms] by (simp split: phase.splits)
  next
    case Client_Closes
    have "steps_to env i st (on_handler i (hn_phase_update (\<lambda>_. Lost)) st)" if "hn_phase ?h = Stream_New"
      using steps_phase[where f = "hn_phase_update (\<lambda>_. Lost)", OF assms same_end_phase(1) handler_ok_lost(1)] that by simp
    with Client_Closes show ?thesis using nop steps_stream_failed[OF assms, of now] by (simp split: phase.splits)
  next
    case Cancel
    have "steps_to env i st (stream_failed env now e s i (on_handler i stop_chunk st))" if p: "hn_phase ?h = Stream_Chunk" for e s
    proof -
      have eq: "on_handler i stop_chunk st = (if hn_chunk ?h = Chunk_Running
          then on_handler i (\<lambda>h. h\<lparr>hn_chunk := Chunk_Error (Cancelled [])\<rparr>) st else st)"
        using i by (auto simp: on_handler_def stop_chunk_def list_update_id)
      have s: "steps_to env i st (on_handler i stop_chunk st)"
        unfolding eq using nop steps_arrive(2)[OF assms] p by simp
      show ?thesis by (rule steps_to_trans[OF s steps_stream_failed[OF steps_to_ok[OF ok s]]])
        (use i p in \<open>simp_all add: stop_chunk_def\<close>)
    qed
    with Cancel show ?thesis
      using nop steps_body_read[OF assms, of now] steps_handle_failed[OF assms, of now] steps_stream_failed[OF assms, of now]
      by (simp split: phase.splits)
  qed (use nop steps_arrive[OF assms] in simp_all)
qed

section \<open>Every reachable state is consistent\<close>

lemma new_session_ok:
  assumes ok: "proxy_ok env st" and fresh: "request_id \<notin> set (request_ids st)"
  shows "proxy_ok env (new_session request_id now raw_request route st)"
proof -
  let ?st' = "new_session request_id now raw_request route st" and ?n = "length (pz_handlers st)"
  obtain h where hs: "pz_handlers ?st' = pz_handlers st @ [h]" and id: "qs_request_id (hn_session h) = request_id"
    and h: "handler_ok h" "\<not> ended h"
    by (simp add: new_session_def Let_def ok_defs ended_def metrics_of_def new_metrics_def)
  have ids: "request_ids ?st' = request_ids st @ [request_id]" by (simp add: request_ids_def hs id)
  have "sessions_ok ?st'"
    unfolding sessions_ok_def
  proof (intro conjI allI)
    show "distinct (request_ids ?st')" using ok fresh by (simp add: ids proxy_ok_def sessions_ok_def)
    show "dict_wf (pz_sessions ?st')"
      using ok by (simp add: new_session_def Let_def proxy_ok_def sessions_ok_def pd.wf_put)
    fix rid i
    have none: "qs_request_id (hn_session (pz_handlers st ! i)) \<noteq> request_id" if "i < ?n"
      using fresh that by (auto simp: request_ids_def)
    have get: "dict_get (pz_sessions ?st') rid = (if rid = request_id then Some ?n else dict_get (pz_sessions st) rid)"
      by (simp add: new_session_def Let_def dict_simps)
    have old: "dict_get (pz_sessions st) rid = Some i \<longleftrightarrow>
        i < ?n \<and> qs_request_id (hn_session (pz_handlers st ! i)) = rid \<and> \<not> ended (pz_handlers st ! i)"
      using ok by (simp add: proxy_ok_def sessions_ok_def)
    show "dict_get (pz_sessions ?st') rid = Some i \<longleftrightarrow> i < length (pz_handlers ?st') \<and>
        qs_request_id (hn_session (pz_handlers ?st' ! i)) = rid \<and> \<not> ended (pz_handlers ?st' ! i)"
      using h(2) none old unfolding get hs by (auto simp: nth_append id less_Suc_eq)
  qed
  moreover have m: "pz_metrics ?st' = pz_metrics st" by (simp add: new_session_def Let_def)
  moreover have "filter ended (pz_handlers ?st') = filter ended (pz_handlers st)" using h(2) by (simp add: hs)
  then have "accounted env ?st' = accounted env st" unfolding accounted_def m by simp
  ultimately show ?thesis using ok h by (simp add: proxy_ok_def hs)
qed

lemma new_session_last:
  "pz_handlers (new_session request_id now raw_request route st) ! length (pz_handlers st) =
     last (pz_handlers (new_session request_id now raw_request route st))"
  "hn_phase (last (pz_handlers (new_session request_id now raw_request route st))) = Reading"
  "length (pz_handlers (new_session request_id now raw_request route st)) = Suc (length (pz_handlers st))"
  by (simp_all add: new_session_def Let_def)

lemma handle_request_ok:
  assumes "proxy_ok env st" and "request_id \<notin> set (request_ids st)"
  shows "proxy_ok env (handle_request env request_id now raw_request route st)"
  unfolding handle_request_def
  by (rule steps_to_ok[OF new_session_ok[OF assms] steps_handle_start[OF new_session_ok[OF assms]]])
     (simp_all add: new_session_last)

lemma map_filter_id [simp]: "List.map_filter id (None # xs) = List.map_filter id xs"
  "List.map_filter id (Some x # xs) = x # List.map_filter id xs"
  by (simp_all add: map_filter_def)

text \<open>The writer moves a record from the queue to the file or counts a failure.\<close>

definition moved_to :: "proxy_env \<Rightarrow> JsonlMetricsWriter \<Rightarrow> JsonlMetricsWriter \<Rightarrow> bool" where
  "moved_to env w w' \<longleftrightarrow> jw_path w' = jw_path w \<and>
     (\<exists>lost. jw_write_failures w' = jw_write_failures w + size lost \<and>
        mset (jw_lines w') + mset (map (\<lambda>r. en_dumps env (JDict r)) (queued w')) + lost =
        mset (jw_lines w) + mset (map (\<lambda>r. en_dumps env (JDict r)) (queued w)))"

lemma moved_refl: "moved_to env w w"
  by (auto simp: moved_to_def intro!: exI[of _ "{#}"])

lemma moved_trans:
  assumes "moved_to env w w1" and "moved_to env w1 w2"
  shows "moved_to env w w2"
proof -
  obtain a b where "jw_write_failures w1 = jw_write_failures w + size a" "jw_write_failures w2 = jw_write_failures w1 + size b"
    "mset (jw_lines w1) + mset (map (\<lambda>r. en_dumps env (JDict r)) (queued w1)) + a =
        mset (jw_lines w) + mset (map (\<lambda>r. en_dumps env (JDict r)) (queued w))"
    "mset (jw_lines w2) + mset (map (\<lambda>r. en_dumps env (JDict r)) (queued w2)) + b =
        mset (jw_lines w1) + mset (map (\<lambda>r. en_dumps env (JDict r)) (queued w1))"
    using assms unfolding moved_to_def by blast
  then have "jw_write_failures w2 = jw_write_failures w + size (a + b)"
    "mset (jw_lines w2) + mset (map (\<lambda>r. en_dumps env (JDict r)) (queued w2)) + (a + b) =
        mset (jw_lines w) + mset (map (\<lambda>r. en_dumps env (JDict r)) (queued w))"
    by (simp, metis (no_types, lifting) union_assoc union_commute)
  moreover have "jw_path w2 = jw_path w" using assms by (simp add: moved_to_def)
  ultimately show ?thesis unfolding moved_to_def by blast
qed

lemma writer_turn_moves: "moved_to env w (writer_turn env ok w)"
proof (cases "jw_queue w")
  case (Cons r rest)
  have cases: "P" if "\<not> jw_running w \<Longrightarrow> P" "jw_running w \<Longrightarrow> r = None \<Longrightarrow> P"
    "\<And>x. jw_running w \<Longrightarrow> r = Some x \<Longrightarrow> ok x \<Longrightarrow> P" "\<And>x. jw_running w \<Longrightarrow> r = Some x \<Longrightarrow> \<not> ok x \<Longrightarrow> P" for P
    using that by (cases r) blast+
  show ?thesis
  proof (rule cases)
    fix x assume x: "jw_running w" "r = Some x" "\<not> ok x"
    then show ?thesis using Cons
      by (auto simp: writer_turn_def moved_to_def queued_def intro!: exI[of _ "{#en_dumps env (JDict x)#}"])
  qed (use Cons in \<open>auto simp: writer_turn_def moved_to_def queued_def intro!: exI[of _ "{#}"]\<close>)
qed (simp add: writer_turn_def moved_refl)

lemma accounted_moved:
  assumes "accounted env st" and "moved_to env (pz_metrics st) w"
    and "jw_path (pz_metrics st) = None \<Longrightarrow> w = pz_metrics st"
  shows "accounted env (st\<lparr>pz_metrics := w\<rparr>)"
proof (cases "jw_path (pz_metrics st) = None")
  case True
  with assms show ?thesis by (simp add: accounted_def)
next
  case False
  obtain a b where "size a = jw_write_failures (pz_metrics st)"
    "mset (jw_lines (pz_metrics st)) + mset (map (\<lambda>r. en_dumps env (JDict r)) (queued (pz_metrics st))) + a
       = mset (map (line_of env) (filter ended (pz_handlers st)))"
    "jw_write_failures w = jw_write_failures (pz_metrics st) + size b"
    "mset (jw_lines w) + mset (map (\<lambda>r. en_dumps env (JDict r)) (queued w)) + b =
        mset (jw_lines (pz_metrics st)) + mset (map (\<lambda>r. en_dumps env (JDict r)) (queued (pz_metrics st)))"
    using assms(1,2) False unfolding accounted_def moved_to_def by auto
  then have "size (b + a) = jw_write_failures w"
    "mset (jw_lines w) + mset (map (\<lambda>r. en_dumps env (JDict r)) (queued w)) + (b + a)
       = mset (map (line_of env) (filter ended (pz_handlers st)))"
    by (simp, metis (no_types, lifting) union_assoc)
  moreover have "jw_path w \<noteq> None" using assms(2) False by (simp add: moved_to_def)
  ultimately show ?thesis unfolding accounted_def
    by (simp del: mset_map mset_filter not_None_eq) (rule exI[of _ "b + a"], simp del: mset_map mset_filter)
qed

lemma writer_turn_ok: "writer_ok w \<Longrightarrow> writer_ok (writer_turn env ok w)"
  by (auto simp: writer_ok_def writer_turn_def split: list.splits option.splits)

lemma writer_turn_idle: "jw_queue w = [] \<Longrightarrow> writer_turn env ok w = w"
  by (simp add: writer_turn_def)

text \<open>
  Draining: the turns of \<open>close\<close> handle every queued record, in order, and then the end mark, so
  the writer stops with an empty queue.
\<close>

lemma drain_queue:
  assumes "jw_running w" and "jw_queue w = map Some rs @ [None]"
  shows "(let w' = (writer_turn env ok ^^ Suc (length rs)) w
     in moved_to env w w' \<and> \<not> jw_running w' \<and> jw_queue w' = [] \<and>
        jw_lines w' = jw_lines w @ map (\<lambda>r. en_dumps env (JDict r)) (filter ok rs))"
  using assms
proof (induction rs arbitrary: w)
  case Nil
  then show ?case using writer_turn_moves[of env w ok] by (simp add: writer_turn_def)
next
  case (Cons x xs)
  define w1 where "w1 = writer_turn env ok w"
  have w1: "jw_running w1" "jw_queue w1 = map Some xs @ [None]"
    "jw_lines w1 = jw_lines w @ map (\<lambda>r. en_dumps env (JDict r)) (filter ok [x])"
    using Cons.prems by (simp_all add: w1_def writer_turn_def)
  have "(writer_turn env ok ^^ Suc (length (x # xs))) w = (writer_turn env ok ^^ Suc (length xs)) w1"
    by (simp add: w1_def funpow_swap1)
  moreover have "moved_to env w w1" by (simp add: w1_def writer_turn_moves)
  ultimately show ?case
    using Cons.IH[OF w1(1,2)] w1(3) unfolding Let_def by (auto intro: moved_trans)
qed

lemma queue_records:
  assumes "None \<notin> set q"
  obtains rs where "q = map Some rs" "List.map_filter id q = rs"
proof -
  have "q = map Some (map the q) \<and> List.map_filter id q = map the q" using assms
  proof (induction q)
    case (Cons x q)
    then show ?case by (cases x) auto
  qed (simp add: map_filter_def)
  then show ?thesis using that by blast
qed

lemma writer_close_drains:
  assumes "writer_ok w"
  shows "moved_to env w (writer_close env ok w) \<and> writer_ok (writer_close env ok w) \<and>
    jw_queue (writer_close env ok w) = [] \<and>
    jw_lines (writer_close env ok w) = jw_lines w @ map (\<lambda>r. en_dumps env (JDict r)) (filter ok (queued w))"
proof (cases "jw_running w")
  case False
  then have "jw_queue w = []" using assms by (auto simp: writer_ok_def)
  then show ?thesis using False assms by (simp add: writer_close_def moved_refl queued_def map_filter_def)
next
  case True
  obtain rs where rs: "jw_queue w = map Some rs" "List.map_filter id (jw_queue w) = rs"
    using queue_records[of "jw_queue w"] assms unfolding writer_ok_def by blast
  let ?w1 = "w\<lparr>jw_queue := jw_queue w @ [None]\<rparr>"
  have "moved_to env w ?w1"
    using rs by (auto simp: moved_to_def queued_def map_filter_def intro!: exI[of _ "{#}"])
  moreover have "jw_running ?w1" "jw_queue ?w1 = map Some rs @ [None]" using True rs by simp_all
  note drain_queue[OF this, of env ok]
  moreover have "writer_close env ok w = (writer_turn env ok ^^ Suc (length rs)) ?w1"
    using True rs by (simp add: writer_close_def)
  ultimately show ?thesis using rs(2) by (auto simp: Let_def writer_ok_def queued_def intro: moved_trans)
qed

lemma writer_path_none:
  assumes "accounted env st" and "jw_path (pz_metrics st) = None"
  shows "jw_queue (pz_metrics st) = []"
  using assms by (simp add: accounted_def)

lemma stop_sessions_ok:
  assumes "proxy_ok env st" and "\<And>rid i. (rid, i) \<in> set ss \<Longrightarrow> i < length (pz_handlers st)"
  shows "proxy_ok env (fold (\<lambda>(rid, i). on_handler i (stop_prefill now)) ss st)"
  using assms
proof (induction ss arbitrary: st)
  case (Cons x ss)
  obtain rid i where x: "x = (rid, i)" by (cases x)
  then have i: "i < length (pz_handlers st)" using Cons.prems(2)[of rid i] by simp
  have "steps_to env i st (on_handler i (stop_prefill now) st)"
    by (rule steps_phase[where f = "stop_prefill now", OF Cons.prems(1) i
          same_end_prefill(4)[OF proxy_okD(2)[OF Cons.prems(1) i]] handler_ok_prefill(4)])
  then have "proxy_ok env (on_handler i (stop_prefill now) st)" by (rule steps_to_ok[OF Cons.prems(1)])
  from Cons.IH[OF this] Cons.prems(2) show ?case by (force simp: x)
qed simp

lemma proxy_moved:
  assumes "proxy_ok env st" and "moved_to env (pz_metrics st) w" and "writer_ok w"
    and "jw_path (pz_metrics st) = None \<Longrightarrow> w = pz_metrics st"
  shows "proxy_ok env (st\<lparr>pz_metrics := w\<rparr>)"
  using assms accounted_moved[of env st w] by (simp add: proxy_ok_def sessions_ok_def request_ids_def)

lemma close_proxy_ok:
  assumes "proxy_ok env st"
  shows "proxy_ok env (close_proxy env now ok st)"
proof -
  define u where "u = fold (\<lambda>(rid, i). on_handler i (stop_prefill now)) (pz_sessions st) st"
  have "i < length (pz_handlers st)" if "(rid, i) \<in> set (pz_sessions st)" for rid i
    using assms that dict_in_get[of "pz_sessions st" rid i] by (auto simp: proxy_ok_def sessions_ok_def)
  then have u: "proxy_ok env u" unfolding u_def by (rule stop_sessions_ok[OF assms])
  have w: "writer_ok (pz_metrics u)" using u by (simp add: proxy_ok_def)
  have "writer_close env ok (pz_metrics u) = pz_metrics u" if "jw_path (pz_metrics u) = None"
    using w that by (simp add: writer_ok_def writer_close_def)
  then have "proxy_ok env (u\<lparr>pz_metrics := writer_close env ok (pz_metrics u)\<rparr>)"
    using writer_close_drains[OF w, of env ok] by (intro proxy_moved[OF u]) simp_all
  then show ?thesis by (simp add: close_proxy_def u_def[symmetric] Let_def)
qed

lemma new_proxy_ok:
  assumes "new_proxy prefill decode file token queue_size timeout = Inr st"
  shows "proxy_ok env st"
  using assms
  by (auto simp: new_proxy_def proxy_ok_def sessions_ok_def accounted_def writer_ok_def new_writer_def request_ids_def
      dict_simps dict_wf_def queued_def map_filter_def split: if_splits)

lemma proxy_run_ok: "proxy_run env st \<Longrightarrow> proxy_ok env st"
proof (induction rule: proxy_run.induct)
  case (run_writer st ok)
  have w: "writer_ok (pz_metrics st)" using run_writer.IH by (simp add: proxy_ok_def)
  have "writer_turn env ok (pz_metrics st) = pz_metrics st" if "jw_path (pz_metrics st) = None"
    using w that by (simp add: writer_ok_def writer_turn_def)
  then show ?case by (intro proxy_moved[OF run_writer.IH writer_turn_moves writer_turn_ok[OF w]])
qed (auto intro: new_proxy_ok handle_request_ok close_proxy_ok steps_to_ok[OF _ handler_step_steps])

lemma run_events:
  assumes "proxy_run env st" and "i < length (pz_handlers st)"
  shows "proxy_run env (fold (\<lambda>(now, ev). handler_step env now ev i) evs st)"
proof -
  have "proxy_run env u \<and> i < length (pz_handlers u) \<Longrightarrow>
      proxy_run env (fold (\<lambda>(now, ev). handler_step env now ev i) evs u)" for u
  proof (induction evs arbitrary: u)
    case (Cons x evs)
    obtain now ev where x: "x = (now, ev)" by (cases x)
    have "proxy_run env (handler_step env now ev i u)" using Cons.prems by (simp add: run_step)
    moreover have "length (pz_handlers (handler_step env now ev i u)) = length (pz_handlers u)"
      using Cons.prems by (intro steps_length[OF handler_step_steps[OF proxy_run_ok]]) simp_all
    ultimately show ?case using Cons.IH Cons.prems by (simp add: x)
  qed simp
  then show ?thesis using assms by simp
qed

section \<open>A concrete run\<close>

definition json_str_of :: "json \<Rightarrow> string" where
  "json_str_of v = (case v of JStr s \<Rightarrow> s | _ \<Rightarrow> [])"

definition ex_env :: proxy_env where
  "ex_env = \<lparr>en_isoformat = \<lambda>_. ''t'', en_host = \<lambda>_. Some ''host'', en_port = \<lambda>_. Some 8000, en_repr = \<lambda>_. [],
     en_fixed3 = \<lambda>_. ''180.000'', en_utf8 = \<lambda>b. b, en_http_text = \<lambda>_ d. d,
     en_dumps = \<lambda>j. case j of JDict d \<Rightarrow> json_str_of (json_get d ''outcome'') | _ \<Rightarrow> []\<rparr>"

definition ex_endpoint :: PrefillEndpoint where
  "ex_endpoint = \<lparr>ep_api_url = ''http://p:8000'', ep_engine_id = ''P0'', ep_bootstrap_addr = ''http://p:9000'', ep_dp_rank = Some 1\<rparr>"

definition ex_request :: raw_request where
  "ex_request = \<lparr>hr_request_id = None, hr_authorization = Some ''Bearer k'', hr_content_type = ''Application/JSON''\<rparr>"

definition ex_proxy :: proxy where
  "ex_proxy = handle_request ex_env ''r1'' (0, 0) ex_request ''/v1/completions''
     (projr (new_proxy [ex_endpoint] [\<lparr>ed_api_url = ''http://d:8000''\<rparr>] (Some ''m.jsonl'') None 4 180))"

definition ex_body :: "(string, json) dict" where
  "ex_body = [(''model'', JStr ''m''), (''prompt'', JList [JInt 1, JInt 2]), (''max_tokens'', JInt 9), (''stream'', JBool True)]"

text \<open>The prefill is over before the first chunk comes; then one chunk and the end.\<close>

definition ex_opened :: "(stamp \<times> event) list" where
  "ex_opened = [((1, 1), Body_Read (Inl (JDict ex_body))), ((1, 1), Prefill_Starts), ((2, 2), Headers_Arrive 200 None),
     ((2, 2), Wake), ((3, 3), Client_Reads)]"

definition ex_served :: "(stamp \<times> event) list" where
  "ex_served = [((4, 4), Chunk_Arrives (Chunk_Ready ''a'')), ((4, 4), Prefill_Replies 200 (Inl [])), ((5, 5), Wake),
     ((5, 5), Client_Reads), ((6, 6), Chunk_Arrives Chunk_End), ((6, 6), Wake)]"

definition ex_after :: "(stamp \<times> event) list \<Rightarrow> proxy" where
  "ex_after evs = fold (\<lambda>(now, ev). handler_step ex_env now ev 0) evs ex_proxy"

lemma ex_proxy_run: "proxy_run ex_env (ex_after evs)"
proof -
  let ?p = "projr (new_proxy [ex_endpoint] [\<lparr>ed_api_url = ''http://d:8000''\<rparr>] (Some ''m.jsonl'') None 4 180)"
  have "new_proxy [ex_endpoint] [\<lparr>ed_api_url = ''http://d:8000''\<rparr>] (Some ''m.jsonl'') None 4 180 = Inr ?p"
    by (simp add: new_proxy_def)
  then have "proxy_run ex_env ?p" by (rule run_new)
  then have "proxy_run ex_env ex_proxy" unfolding ex_proxy_def
    by (rule run_request) (simp add: request_ids_def new_proxy_def)
  moreover have "0 < length (pz_handlers ex_proxy)" by code_simp
  ultimately show ?thesis unfolding ex_after_def by (rule run_events)
qed

section \<open>What the proxy guarantees\<close>



lemma session_of:
  assumes "proxy_ok env st" and i: "i < length (pz_handlers st)"
  shows "dict_get (pz_sessions st) (qs_request_id (hn_session (pz_handlers st ! i))) =
    (if ended (pz_handlers st ! i) then None else Some i)"
proof -
  have get: "dict_get (pz_sessions st) rid = Some j \<longleftrightarrow> j < length (pz_handlers st) \<and>
      qs_request_id (hn_session (pz_handlers st ! j)) = rid \<and> \<not> ended (pz_handlers st ! j)" for rid j
    using assms(1) by (simp add: proxy_ok_def sessions_ok_def)
  have d: "distinct (request_ids st)" using assms(1) by (simp add: proxy_ok_def sessions_ok_def)
  have "j = i" if "j < length (pz_handlers st)"
    "qs_request_id (hn_session (pz_handlers st ! j)) = qs_request_id (hn_session (pz_handlers st ! i))" for j
    using nth_eq_iff_index_eq[OF d, of j i] that i by (simp add: request_ids_def)
  then have "dict_get (pz_sessions st) (qs_request_id (hn_session (pz_handlers st ! i))) \<noteq> Some j"
    if "ended (pz_handlers st ! i)" for j
    using get that by blast
  then show ?thesis using get[of _ i] i by (cases "ended (pz_handlers st ! i)") auto
qed



text \<open>
  C18: the outcome \<open>success\<close> is honest: the prefill ended without an exception and with a 2xx status,
  the decode backend answered 2xx, its body was read to the end, and the generator raised nothing.
\<close>

theorem success_needs_both:
  assumes "proxy_run env st" and "h \<in> set (pz_handlers st)"
    and "qm_request_end (metrics_of h) \<noteq> None" and "qm_outcome (metrics_of h) = ''success''"
  shows "qs_prefill_task (hn_session h) = Some (Task_Done None) \<and>
    (\<exists>s. qm_prefill_http_status (metrics_of h) = Some s \<and> 200 \<le> s \<and> s < 300) \<and>
    (\<exists>s ct. hn_headers_task h = Head_Done s ct \<and> 200 \<le> s \<and> s < 300) \<and>
    hn_chunk h = Chunk_End \<and> hn_raised h = None"
proof -
  obtain i where "i < length (pz_handlers st)" "h = pz_handlers st ! i" using assms(2) by (auto simp: in_set_conv_nth)
  then have "handler_ok h" using proxy_okD(2)[OF proxy_run_ok[OF assms(1)]] by simp
  then have "prefill_ok h" "decode_ok h" "hn_chunk h = Chunk_End" "hn_raised h = None"
    using assms(3,4) by (auto simp: handler_ok_def ended_def)
  then show ?thesis
    by (auto simp: prefill_ok_def prefill_result_def decode_ok_def is_ok_status_def
        split: option.splits prefill_task.splits header_task.splits)
qed

lemma success_needs_both_witness:
  "qs_prefill_task (hn_session (last (pz_handlers (ex_after (ex_opened @ ex_served))))) = Some (Task_Done None) \<and>
   hn_sent (last (pz_handlers (ex_after (ex_opened @ ex_served)))) = [''a'']"
proof -
  have "last (pz_handlers (ex_after (ex_opened @ ex_served))) \<in> set (pz_handlers (ex_after (ex_opened @ ex_served)))"
    by (rule last_in_set) code_simp
  moreover have "qm_request_end (metrics_of (last (pz_handlers (ex_after (ex_opened @ ex_served))))) \<noteq> None"
    "qm_outcome (metrics_of (last (pz_handlers (ex_after (ex_opened @ ex_served))))) = ''success''"
    "hn_sent (last (pz_handlers (ex_after (ex_opened @ ex_served)))) = [''a'']"
    by code_simp+
  ultimately show ?thesis using success_needs_both[OF ex_proxy_run] by blast
qed

section \<open>Where the code misses its goals\<close>

text \<open>
  The first-token deadline binds only while the prefill runs. Once the prefill has ended well, the
  generator awaits the chunk alone: however late it is, waking it changes nothing, so a decode backend
  that never sends its first chunk is never timed out.
\<close>

theorem no_deadline_after_prefill:
  assumes "proxy_run env st" and "i < length (pz_handlers st)" and "hn_phase (pz_handlers st ! i) = Stream_Wait"
    and "hn_pending_prefill (pz_handlers st ! i)" and "qs_prefill_task (hn_session (pz_handlers st ! i)) = Some (Task_Done None)"
    and "hn_chunk (pz_handlers st ! i) = Chunk_Running"
    and "st' = handler_step env now Wake i st"
  shows "hn_phase (pz_handlers st' ! i) = Stream_Chunk \<and> qm_request_end (metrics_of (pz_handlers st' ! i)) = None \<and>
    handler_step env later Wake i st' = st'"
proof -
  have "\<not> ended (pz_handlers st ! i)"
    using handler_okD(1)[OF proxy_okD(2)[OF proxy_run_ok[OF assms(1)] assms(2)]] assms(3) by simp
  then have o: "qm_request_end (metrics_of (pz_handlers st ! i)) = None" unfolding ended_def by blast
  have r: "prefill_result (pz_handlers st ! i) = Some None" using assms(5) by (simp add: prefill_result_def)
  have "st' = on_handler i (\<lambda>h. h\<lparr>hn_phase := Stream_Chunk\<rparr>) (on_handler i (\<lambda>h. h\<lparr>hn_pending_prefill := False\<rparr>) st)"
    using assms(2-4,6) r by (simp add: assms(7) Let_def stream_wake_def take_chunk_def)
  then show ?thesis using assms(2,6) o by (simp add: chunk_awaited_def metrics_of_def)
qed

lemma no_deadline_after_prefill_witness:
  "handler_step ex_env (10 ^ 6, 10 ^ 6) Wake 0
     (handler_step ex_env (5, 5) Wake 0 (ex_after (ex_opened @ [((4, 4), Prefill_Replies 200 (Inl []))]))) =
   handler_step ex_env (5, 5) Wake 0 (ex_after (ex_opened @ [((4, 4), Prefill_Replies 200 (Inl []))])) \<and>
   hn_deadline (pz_handlers (ex_after ex_opened) ! 0) = 181"
proof -
  let ?evs = "ex_opened @ [((4, 4), Prefill_Replies 200 (Inl []))]"
  have "0 < length (pz_handlers (ex_after ?evs))" "hn_phase (pz_handlers (ex_after ?evs) ! 0) = Stream_Wait"
    "hn_pending_prefill (pz_handlers (ex_after ?evs) ! 0)"
    "qs_prefill_task (hn_session (pz_handlers (ex_after ?evs) ! 0)) = Some (Task_Done None)"
    "hn_chunk (pz_handlers (ex_after ?evs) ! 0) = Chunk_Running"
    by code_simp+
  note no_deadline_after_prefill[OF ex_proxy_run this refl]
  moreover have "hn_deadline (pz_handlers (ex_after ex_opened) ! 0) = 181" by code_simp
  ultimately show ?thesis by blast
qed

text \<open>
  C35: a stream that ends between the end of the prefill and the next chunk is reported as an error. The
  generator then awaits the chunk task itself, whose \<open>StopAsyncIteration\<close> no handler expects: the client
  sees its stream break and the record says \<open>decode_error\<close>, although both backends succeeded.
\<close>

theorem late_prefill_spoils_end:
  assumes "proxy_run env st" and "i < length (pz_handlers st)" and "hn_phase (pz_handlers st ! i) = Stream_Chunk"
    and "hn_chunk (pz_handlers st ! i) = Chunk_Running"
    and "st' = handler_step env t2 Wake i (handler_step env t1 (Chunk_Arrives Chunk_End) i st)"
  shows "qs_prefill_task (hn_session (pz_handlers st ! i)) = Some (Task_Done None) \<and>
    hn_raised (pz_handlers st' ! i) = Some (Failed ''StopAsyncIteration'' []) \<and>
    qm_outcome (metrics_of (pz_handlers st' ! i)) = ''decode_error''"
proof -
  let ?h = "pz_handlers st ! i"
  note h = proxy_okD(2)[OF proxy_run_ok[OF assms(1)] assms(2)]
  have p: "prefill_ok ?h" using h assms(3) by (simp add: handler_ok_def streaming_def)
  then have t: "qs_prefill_task (hn_session ?h) = Some (Task_Done None)"
    by (auto simp: prefill_ok_def prefill_result_def split: option.splits prefill_task.splits)
  define u where "u = on_handler i (hn_chunk_update (\<lambda>_. Chunk_End)) st"
  have u: "handler_step env t1 (Chunk_Arrives Chunk_End) i st = u" using assms(3,4) by (simp add: u_def)
  have hu: "pz_handlers u ! i = ?h\<lparr>hn_chunk := Chunk_End\<rparr>" using assms(2) by (simp add: u_def)
  have "st' = stream_failed env t2 (Failed ''StopAsyncIteration'' []) ''decode'' i u"
    unfolding assms(5) u using assms(3) by (simp add: Let_def hu chunk_awaited_def)
  then have "pz_handlers st' ! i = stream_raises (Failed ''StopAsyncIteration'' [])
      (end_handler t2 ''decode_error'' (Some (Failed ''StopAsyncIteration'' [])) (Some ''decode'')
        ((decode_over t2 \<circ> stop_prefill t2) (?h\<lparr>hn_chunk := Chunk_End\<rparr>)))"
    using assms(2) hu by (simp add: stream_failed_def is_cancelled_def is_timeout_def u_def)
  moreover have "\<not> ended ((decode_over t2 \<circ> stop_prefill t2) (?h\<lparr>hn_chunk := Chunk_End\<rparr>))"
    using handler_okD(1)[OF h] assms(3) t by (simp add: handler_views handler_updates)
  ultimately show ?thesis using t
    by (simp add: end_handler_def stream_raises_def end_metrics_sel metrics_of_def on_metrics_def)
qed

lemma late_prefill_spoils_end_witness:
  "qm_outcome (metrics_of (pz_handlers (handler_step ex_env (7, 7) Wake 0 (handler_step ex_env (6, 6) (Chunk_Arrives Chunk_End) 0
      (ex_after (ex_opened @ [((4, 4), Prefill_Replies 200 (Inl [])), ((5, 5), Wake)])))) ! 0)) = ''decode_error''"
proof -
  let ?evs = "ex_opened @ [((4, 4), Prefill_Replies 200 (Inl [])), ((5, 5), Wake)]"
  have "0 < length (pz_handlers (ex_after ?evs))" "hn_phase (pz_handlers (ex_after ?evs) ! 0) = Stream_Chunk"
    "hn_chunk (pz_handlers (ex_after ?evs) ! 0) = Chunk_Running"
    by code_simp+
  from late_prefill_spoils_end[OF ex_proxy_run this refl] show ?thesis by blast
qed

end
