(* ===== verification/Proxy_Routing.thy ===== *)
theory Proxy_Routing
  imports Proxy_Props
begin

text \<open>
  What the proxy sends where: endpoints are used in turn, the two bodies of a request carry the same
  transfer ID and differ between requests, an endpoint option is parsed to what it spells, and the
  request that escapes all of it keeps its session for ever.
\<close>

section \<open>What no step changes\<close>

definition frame :: "handler \<Rightarrow> (string \<times> string \<times> PrefillEndpoint \<times> DecodeEndpoint) \<times> raw_request \<times> string" where
  "frame h = ((qs_request_id (hn_session h), qs_transfer_id (hn_session h), qs_prefill (hn_session h), qs_decode (hn_session h)),
     hn_request h, hn_route h)"

definition posts where
  "posts h = (hn_prefill_post h, hn_decode_post h)"

lemmas step_functions = replies_def stream_raises_def next_chunk_def stream_start_def stop_headers_def stop_chunk_def
  decode_over_def stop_prefill_def yield_chunk_def prefill_ends_def prefill_started_def prefill_replied_def prefill_failed_def
  set_prefill_task_def on_metrics_def end_handler_def

lemma frame_same [simp]:
  "frame (replies r h) = frame h" "frame (stream_raises e h) = frame h" "frame (next_chunk h) = frame h"
  "frame (stream_start timeout now h) = frame h" "frame (stop_headers h) = frame h" "frame (stop_chunk h) = frame h"
  "frame (decode_over now h) = frame h" "frame (stop_prefill now h) = frame h" "frame (yield_chunk now c h) = frame h"
  "frame (prefill_started now h) = frame h" "frame (prefill_replied env now code b h) = frame h"
  "frame (prefill_failed now e h) = frame h" "frame (on_metrics f h) = frame h"
  "frame (end_handler now outcome err stage h) = frame h" "frame (launch env st now d pb h) = frame h"
  "frame (h\<lparr>hn_phase := p\<rparr>) = frame h" "frame (h\<lparr>hn_phase := p, hn_reply := rp\<rparr>) = frame h"
  "frame (h\<lparr>hn_client_open := b'\<rparr>) = frame h" "frame (h\<lparr>hn_headers_task := t\<rparr>) = frame h"
  "frame (h\<lparr>hn_chunk := c'\<rparr>) = frame h" "frame (h\<lparr>hn_pending_prefill := b'\<rparr>) = frame h"
  by (simp_all add: frame_def step_functions launch_def Let_def split: option.splits prefill_task.splits)

lemma posts_same [simp]:
  "posts (replies r h) = posts h" "posts (stream_raises e h) = posts h" "posts (next_chunk h) = posts h"
  "posts (stream_start timeout now h) = posts h" "posts (stop_headers h) = posts h" "posts (stop_chunk h) = posts h"
  "posts (decode_over now h) = posts h" "posts (stop_prefill now h) = posts h" "posts (yield_chunk now c h) = posts h"
  "posts (prefill_started now h) = posts h" "posts (prefill_replied env now code b h) = posts h"
  "posts (prefill_failed now e h) = posts h" "posts (on_metrics f h) = posts h"
  "posts (end_handler now outcome err stage h) = posts h"
  "posts (h\<lparr>hn_phase := p\<rparr>) = posts h" "posts (h\<lparr>hn_phase := p, hn_reply := rp\<rparr>) = posts h"
  "posts (h\<lparr>hn_client_open := b'\<rparr>) = posts h" "posts (h\<lparr>hn_headers_task := t\<rparr>) = posts h"
  "posts (h\<lparr>hn_chunk := c'\<rparr>) = posts h" "posts (h\<lparr>hn_pending_prefill := b'\<rparr>) = posts h"
  by (simp_all add: posts_def step_functions split: option.splits prefill_task.splits)

text \<open>The part of the state that \<open>st'\<close> shares with \<open>st\<close>; \<open>same_posts\<close> adds the posted requests.\<close>

definition same_frame :: "proxy \<Rightarrow> proxy \<Rightarrow> bool" where
  "same_frame st st' \<longleftrightarrow> pz_prefill st' = pz_prefill st \<and> pz_decode st' = pz_decode st \<and>
     pz_prefill_cycle st' = pz_prefill_cycle st \<and> pz_decode_cycle st' = pz_decode_cycle st \<and>
     pz_backend_token st' = pz_backend_token st \<and> map frame (pz_handlers st') = map frame (pz_handlers st)"

definition same_posts :: "proxy \<Rightarrow> proxy \<Rightarrow> bool" where
  "same_posts st st' \<longleftrightarrow> same_frame st st' \<and> map posts (pz_handlers st') = map posts (pz_handlers st)"

lemma same_posts_refl: "same_posts st st"
  by (simp add: same_posts_def same_frame_def)

lemma map_keep: "g (f (xs ! i)) = g (xs ! i) \<Longrightarrow> map g (xs[i := f (xs ! i)]) = map g xs"
  by (cases "i < length xs") (simp_all add: map_update list_update_same_conv list_update_beyond)

lemma same_posts_on: "same_posts st u \<Longrightarrow> (\<And>h. frame (f h) = frame h) \<Longrightarrow> (\<And>h. posts (f h) = posts h) \<Longrightarrow>
   same_posts st (on_handler i f u)"
  using map_keep[of frame f "pz_handlers u" i] map_keep[of posts f "pz_handlers u" i]
  by (simp add: same_posts_def same_frame_def on_handler_def)

lemma same_posts_finish: "same_posts st u \<Longrightarrow> same_posts st (finish env now outcome e stage i u)"
  using same_posts_on[of st u "end_handler now outcome e stage" i]
  by (simp add: finish_eq) (auto simp: same_posts_def same_frame_def)

lemma same_frame_on: "same_frame st u \<Longrightarrow> (\<And>h. frame (f h) = frame h) \<Longrightarrow> same_frame st (on_handler i f u)"
  using map_keep[of frame f "pz_handlers u" i] by (simp add: same_frame_def on_handler_def)

lemma ops_same_posts:
  "same_posts st u \<Longrightarrow> same_posts st (handle_failed env now e i u)"
  "same_posts st u \<Longrightarrow> same_posts st (stream_failed env now e s i u)"
  "same_posts st u \<Longrightarrow> same_posts st (stream_done env now i u)"
  "same_posts st u \<Longrightarrow> same_posts st (prefill_lost env now e i u)"
  "same_posts st u \<Longrightarrow> same_posts st (handle_start env now i u)"
  by (simp_all add: handle_failed_def stream_failed_def stream_done_def prefill_lost_def handle_start_def Let_def
      same_posts_on same_posts_finish)

lemma chunk_same_posts:
  "same_posts st u \<Longrightarrow> same_posts st (chunks_over env now i u)"
  "same_posts st u \<Longrightarrow> same_posts st (take_chunk env now i u)"
  "same_posts st u \<Longrightarrow> same_posts st (got_headers env now i u)"
  "same_posts st u \<Longrightarrow> same_posts st (error_body_read env now pb i u)"
proof -
  show chunks: "same_posts st (chunks_over env now i u)" if "same_posts st u" for st u
    using that by (auto simp: chunks_over_def Let_def same_posts_on ops_same_posts split: option.splits)
  show "same_posts st u \<Longrightarrow> same_posts st (take_chunk env now i u)"
    by (auto simp: take_chunk_def same_posts_on ops_same_posts chunks split: chunk_task.splits)
  show "same_posts st u \<Longrightarrow> same_posts st (got_headers env now i u)"
    by (auto simp: got_headers_def Let_def same_posts_on ops_same_posts split: header_task.splits option.splits)
  show "same_posts st u \<Longrightarrow> same_posts st (error_body_read env now pb i u)"
    by (auto simp: error_body_read_def same_posts_on same_posts_finish ops_same_posts split: header_task.splits sum.splits)
qed

lemma wake_same_posts:
  "same_posts st u \<Longrightarrow> same_posts st (wait_over env now i u)"
  "same_posts st u \<Longrightarrow> same_posts st (stream_wake env now i u)"
  "same_posts st u \<Longrightarrow> same_posts st (chunk_awaited env now i u)"
  by (auto simp: wait_over_def stream_wake_def chunk_awaited_def Let_def same_posts_on same_posts_finish ops_same_posts
      chunk_same_posts split: option.splits chunk_task.splits)

lemma step_same_posts:
  assumes "\<nexists>b. ev = Body_Read b"
  shows "same_posts st (handler_step env now ev i st)"
proof (cases ev)
  case Cancel
  have "same_posts st (body_read env now (Inr (Cancelled [])) i st)"
    by (simp add: body_read_def is_cancelled_def same_posts_on same_posts_refl)
  with Cancel show ?thesis
    by (auto simp: same_posts_refl same_posts_on ops_same_posts split: phase.splits)
qed (use assms in \<open>auto simp: Let_def same_posts_refl same_posts_on ops_same_posts chunk_same_posts wake_same_posts
       split: phase.splits\<close>)

section \<open>The requests a session posts\<close>

text \<open>The bodies a handler has posted were built for its own session from one client body.\<close>

definition posted :: "handler \<Rightarrow> bool" where
  "posted h \<longleftrightarrow> hn_prefill_post h = None \<and> hn_decode_post h = None \<or>
     (\<exists>d pb ph dh. prefill_body d (hn_session h) = Inr pb \<and>
        hn_prefill_post h = Some (ep_api_url (qs_prefill (hn_session h)) @ hn_route h, pb, ph) \<and>
        hn_decode_post h = Some (ed_api_url (qs_decode (hn_session h)) @ hn_route h, decode_body d (hn_session h), dh))"

lemma body_cong:
  assumes "qs_transfer_id s' = qs_transfer_id s"
  shows "prefill_body d s' = prefill_body d s"
    and "qs_prefill s' = qs_prefill s \<Longrightarrow> decode_body d s' = decode_body d s"
  unfolding prefill_body_def decode_body_def assms by simp_all

lemma posted_cong:
  assumes "frame h' = frame h" and "posts h' = posts h" and "posted h"
  shows "posted h'"
proof -
  have "prefill_body d (hn_session h') = prefill_body d (hn_session h)" for d
    using assms(1) by (intro body_cong(1)) (simp add: frame_def)
  moreover have "decode_body d (hn_session h') = decode_body d (hn_session h)" for d
    using assms(1) by (intro body_cong(2)) (simp_all add: frame_def)
  ultimately show ?thesis using assms by (simp add: posted_def frame_def posts_def)
qed

definition route_ok :: "proxy \<Rightarrow> bool" where
  "route_ok st \<longleftrightarrow> pz_prefill st \<noteq> [] \<and> pz_decode st \<noteq> [] \<and>
     pz_prefill_cycle st = length (pz_handlers st) mod length (pz_prefill st) \<and>
     pz_decode_cycle st = length (pz_handlers st) mod length (pz_decode st) \<and>
     (\<forall>i < length (pz_handlers st). let s = hn_session (pz_handlers st ! i)
        in qs_prefill s = pz_prefill st ! (i mod length (pz_prefill st)) \<and>
           qs_decode s = pz_decode st ! (i mod length (pz_decode st)) \<and>
           qs_transfer_id s = ''xfer-'' @ qs_request_id s \<and> posted (pz_handlers st ! i))"

lemma frame_nth:
  assumes "same_frame st st'"
  shows "length (pz_handlers st') = length (pz_handlers st)"
    and "i < length (pz_handlers st) \<Longrightarrow> frame (pz_handlers st' ! i) = frame (pz_handlers st ! i)"
proof -
  have m: "map frame (pz_handlers st') = map frame (pz_handlers st)" using assms by (simp add: same_frame_def)
  show l: "length (pz_handlers st') = length (pz_handlers st)" using m by (metis length_map)
  show "i < length (pz_handlers st) \<Longrightarrow> frame (pz_handlers st' ! i) = frame (pz_handlers st ! i)"
    using m l by (metis nth_map)
qed

lemma route_ok_frame:
  assumes "route_ok st" and f: "same_frame st st'"
    and p: "\<And>i. i < length (pz_handlers st) \<Longrightarrow> posted (pz_handlers st' ! i)"
  shows "route_ok st'"
  using assms(1) frame_nth[OF f] p f
  unfolding route_ok_def same_frame_def frame_def Let_def by simp

lemma route_ok_posts:
  assumes "route_ok st" and f: "same_posts st st'"
  shows "route_ok st'"
proof (rule route_ok_frame[OF assms(1)])
  show fr: "same_frame st st'" using f by (simp add: same_posts_def)
  fix i assume i: "i < length (pz_handlers st)"
  have "posts (pz_handlers st' ! i) = posts (pz_handlers st ! i)"
    using f i frame_nth(1)[OF fr] unfolding same_posts_def by (metis nth_map)
  then show "posted (pz_handlers st' ! i)"
    using posted_cong[OF frame_nth(2)[OF fr i]] assms(1) i by (simp add: route_ok_def Let_def)
qed

lemma route_ok_body:
  assumes r: "route_ok st" and i: "i < length (pz_handlers st)"
  shows "route_ok (body_read env now b i st)"
proof (cases "\<exists>d pb. b = Inl (JDict d) \<and> prefill_body d (hn_session (on_metrics (set_body env d) (pz_handlers st ! i))) = Inr pb")
  case False
  then have "same_posts st (body_read env now b i st)"
    using i by (auto simp: body_read_def Let_def same_posts_on same_posts_finish same_posts_refl
        split: sum.splits json.splits)
  then show ?thesis by (rule route_ok_posts[OF r])
next
  case True
  then obtain d pb where d: "b = Inl (JDict d)" "prefill_body d (hn_session (on_metrics (set_body env d) (pz_handlers st ! i))) = Inr pb"
    by blast
  define u where "u = on_handler i (on_metrics (set_body env d)) st"
  have u: "route_ok u" unfolding u_def by (rule route_ok_posts[OF r same_posts_on[OF same_posts_refl]]) simp_all
  have l: "length (pz_handlers u) = length (pz_handlers st)" by (simp add: u_def)
  have b: "body_read env now b i st = on_handler i (launch env u now d pb) u"
    using d i by (simp add: body_read_def u_def Let_def)
  have pb: "prefill_body d (hn_session (pz_handlers u ! i)) = Inr pb" using d(2) i by (simp add: u_def)
  have "posted (launch env u now d pb (pz_handlers u ! i))"
    unfolding posted_def using pb body_cong[of "hn_session (launch env u now d pb (pz_handlers u ! i))" "hn_session (pz_handlers u ! i)" d]
    by (intro disjI2 exI[of _ d] exI[of _ pb]) (simp add: launch_def Let_def on_metrics_def set_prefill_task_def)
  then show ?thesis unfolding b
    by (intro route_ok_frame[OF u same_frame_on]) (use u i l in \<open>auto simp: same_frame_def nth_list_update route_ok_def Let_def\<close>)
qed

lemma route_ok_session:
  assumes r: "route_ok st"
  shows "route_ok (new_session request_id now raw_request route st)"
proof -
  let ?st' = "new_session request_id now raw_request route st" and ?n = "length (pz_handlers st)"
  obtain h where hs: "pz_handlers ?st' = pz_handlers st @ [h]"
    and h: "qs_prefill (hn_session h) = pz_prefill st ! (?n mod length (pz_prefill st))"
      "qs_decode (hn_session h) = pz_decode st ! (?n mod length (pz_decode st))"
      "qs_transfer_id (hn_session h) = ''xfer-'' @ qs_request_id (hn_session h)" "posted h"
    using r by (simp add: new_session_def Let_def posted_def route_ok_def)
  have p: "pz_prefill ?st' = pz_prefill st" "pz_decode ?st' = pz_decode st"
    "pz_prefill_cycle ?st' = (pz_prefill_cycle st + 1) mod length (pz_prefill st)"
    "pz_decode_cycle ?st' = (pz_decode_cycle st + 1) mod length (pz_decode st)"
    by (simp_all add: new_session_def Let_def)
  show ?thesis
    using r h unfolding route_ok_def hs p
    by (auto simp: mod_Suc_eq nth_append Let_def less_Suc_eq)
qed

lemma close_same_posts: "same_posts st (close_proxy env now ok st)"
proof -
  have "same_posts st (fold (\<lambda>(rid, i). on_handler i (stop_prefill now)) ss u)" if "same_posts st u" for ss u
    using that by (induction ss arbitrary: u) (auto simp: same_posts_on)
  from this[OF same_posts_refl, of "pz_sessions st"] show ?thesis
    by (simp add: close_proxy_def Let_def) (auto simp: same_posts_def same_frame_def)
qed

lemma proxy_run_routes: "proxy_run env st \<Longrightarrow> route_ok st"
proof (induction rule: proxy_run.induct)
  case (run_new prefill decode path token queue_size timeout st)
  then show ?case by (auto simp: new_proxy_def route_ok_def split: if_splits)
next
  case (run_request st request_id now raw_request route)
  show ?case unfolding handle_request_def
    by (rule route_ok_posts[OF route_ok_session[OF run_request.IH] ops_same_posts(5)[OF same_posts_refl]])
next
  case (run_step st i now ev)
  show ?case
  proof (cases "\<exists>b. ev = Body_Read b")
    case True
    then show ?thesis using run_step.IH run_step.hyps(2) by (auto intro: route_ok_body)
  next
    case False
    then show ?thesis by (rule route_ok_posts[OF run_step.IH step_same_posts])
  qed
next
  case (run_writer st ok)
  show ?case by (rule route_ok_posts[OF run_writer.IH]) (simp add: same_posts_def same_frame_def)
next
  case (run_close st now ok)
  show ?case by (rule route_ok_posts[OF run_close.IH close_same_posts])
qed

section \<open>Properties\<close>

text \<open>
  Endpoints take turns: whatever the requests do, the n-th one is served by the n-th endpoint of
  each list, counted cyclically, and its transfer ID is built from its own request ID.
\<close>

theorem endpoints_take_turns:
  assumes "proxy_run env st" and "i < length (pz_handlers st)"
  shows "qs_prefill (hn_session (pz_handlers st ! i)) = pz_prefill st ! (i mod length (pz_prefill st)) \<and>
    qs_decode (hn_session (pz_handlers st ! i)) = pz_decode st ! (i mod length (pz_decode st)) \<and>
    qs_transfer_id (hn_session (pz_handlers st ! i)) = ''xfer-'' @ qs_request_id (hn_session (pz_handlers st ! i))"
  using proxy_run_routes[OF assms(1)] assms(2) by (simp add: route_ok_def Let_def)

lemma endpoints_take_turns_witness:
  "qs_prefill (hn_session (pz_handlers (ex_after ex_opened) ! 0)) = pz_prefill (ex_after ex_opened) ! 0 \<and>
   pz_prefill (ex_after ex_opened) = [ex_endpoint]"
proof -
  have "0 < length (pz_handlers (ex_after ex_opened))" "pz_prefill (ex_after ex_opened) = [ex_endpoint]" by code_simp+
  with endpoints_take_turns[OF ex_proxy_run this(1)] show ?thesis by simp
qed

lemma dict_get_kv [simp]:
  "k \<noteq> k' \<Longrightarrow> dict_get (dict_set k v d) k' = dict_get d k'" "dict_get (dict_set k v d) k = Some v"
  by (simp_all add: dict_simps)

lemma prefill_body_get:
  assumes "prefill_body d s = Inr pb"
  shows "dict_get pb ''kv_transfer_params'' = Some (JDict [(''do_remote_decode'', JBool True),
      (''do_remote_prefill'', JBool False), (''transfer_id'', JStr (qs_transfer_id s))])"
    and "dict_get pb ''stream'' = Some (JBool False)" and "dict_get pb ''max_tokens'' = Some (JInt 1)"
    and "dict_get pb ''stream_options'' = None"
    and "dict_get pb ''max_completion_tokens'' \<in> {None, Some (JInt 1)}"
    and "k \<notin> {''kv_transfer_params'', ''stream'', ''max_tokens'', ''stream_options'', ''max_completion_tokens'', ''min_tokens''} \<Longrightarrow>
      dict_get pb k = dict_get d k"
  using assms
  by (auto simp: prefill_body_def Let_def dict_simps dict_has_def split: option.splits sum.splits if_splits)

lemma decode_body_get:
  "dict_get (decode_body d s) ''kv_transfer_params'' = Some (JDict [(''do_remote_decode'', JBool False),
      (''do_remote_prefill'', JBool True), (''remote_engine_id'', JStr (ep_engine_id (qs_prefill s))),
      (''remote_bootstrap_addr'', JStr (ep_bootstrap_addr (qs_prefill s))),
      (''remote_dp_rank'', JInt (case ep_dp_rank (qs_prefill s) of None \<Rightarrow> 0 | Some r \<Rightarrow> r)),
      (''transfer_id'', JStr (qs_transfer_id s))])"
  "k \<noteq> ''kv_transfer_params'' \<Longrightarrow> dict_get (decode_body d s) k = dict_get d k"
  by (simp_all add: decode_body_def dict_simps)

text \<open>
  The request a session posts to the prefill backend is the client's, cut to one token and not
  streamed, the one for the decode backend is the client's as it is, apart from the transfer parameters;
  all go to the route the client used.
\<close>

theorem posted_bodies:
  assumes "proxy_run env st" and "h \<in> set (pz_handlers st)"
    and "hn_prefill_post h = Some (p_url, pb, ph)" and "hn_decode_post h = Some (d_url, db, dh)"
  shows "p_url = ep_api_url (qs_prefill (hn_session h)) @ hn_route h \<and> d_url = ed_api_url (qs_decode (hn_session h)) @ hn_route h \<and>
    dict_get pb ''stream'' = Some (JBool False) \<and> dict_get pb ''max_tokens'' = Some (JInt 1) \<and>
    dict_get pb ''stream_options'' = None \<and> dict_get pb ''max_completion_tokens'' \<in> {None, Some (JInt 1)} \<and>
    (\<forall>k. k \<notin> {''kv_transfer_params'', ''stream'', ''max_tokens'', ''stream_options'', ''max_completion_tokens'', ''min_tokens''} \<longrightarrow>
       dict_get pb k = dict_get db k)"
proof -
  obtain i where "i < length (pz_handlers st)" "h = pz_handlers st ! i" using assms(2) by (auto simp: in_set_conv_nth)
  then have "posted h" using proxy_run_routes[OF assms(1)] by (simp add: route_ok_def Let_def)
  then obtain d where d: "prefill_body d (hn_session h) = Inr pb" "db = decode_body d (hn_session h)"
    "p_url = ep_api_url (qs_prefill (hn_session h)) @ hn_route h" "d_url = ed_api_url (qs_decode (hn_session h)) @ hn_route h"
    using assms(3,4) by (auto simp: posted_def)
  have "dict_get pb k = dict_get db k" if k: "k \<notin> {''kv_transfer_params'', ''stream'', ''max_tokens'', ''stream_options'',
      ''max_completion_tokens'', ''min_tokens''}" for k
  proof -
    have "k \<noteq> ''kv_transfer_params''" using k by simp
    from decode_body_get(2)[OF this] prefill_body_get(6)[OF d(1) k] show ?thesis by (simp add: d(2))
  qed
  then show ?thesis using prefill_body_get(2-5)[OF d(1)] d(3,4) by blast
qed

lemma posted_bodies_witness:
  "\<exists>p_url pb ph d_url db dh. p_url = ''http://p:8000/v1/completions'' \<and> d_url = ''http://d:8000/v1/completions'' \<and>
     hn_prefill_post (hd (pz_handlers (ex_after ex_opened))) = Some (p_url, pb, ph) \<and>
     hn_decode_post (hd (pz_handlers (ex_after ex_opened))) = Some (d_url, db, dh) \<and>
     dict_get pb ''max_tokens'' = Some (JInt 1) \<and> dict_get pb ''prompt'' = dict_get db ''prompt''"
proof -
  let ?h = "hd (pz_handlers (ex_after ex_opened))"
  have "pz_handlers (ex_after ex_opened) \<noteq> []" by code_simp
  then have mem: "?h \<in> set (pz_handlers (ex_after ex_opened))" by simp
  have "hn_prefill_post ?h \<noteq> None" "hn_decode_post ?h \<noteq> None" by code_simp+
  then obtain u pb ph v db dh where posts: "hn_prefill_post ?h = Some (u, pb, ph)" "hn_decode_post ?h = Some (v, db, dh)"
    by (metis option.exhaust surj_pair)
  have url: "ep_api_url (qs_prefill (hn_session ?h)) @ hn_route ?h = ''http://p:8000/v1/completions''"
    "ed_api_url (qs_decode (hn_session ?h)) @ hn_route ?h = ''http://d:8000/v1/completions''" by code_simp+
  note P = posted_bodies[OF ex_proxy_run mem posts]
  have "dict_get pb ''prompt'' = dict_get db ''prompt''"
    by (rule P[THEN conjunct2, THEN conjunct2, THEN conjunct2, THEN conjunct2, THEN conjunct2, THEN conjunct2, rule_format]) simp
  moreover have "dict_get pb ''max_tokens'' = Some (JInt 1)" using P by (elim conjE)
  moreover have "u = ''http://p:8000/v1/completions''" "v = ''http://d:8000/v1/completions''" using P url by simp_all
  ultimately show ?thesis using posts by blast
qed

section \<open>The request that is never finished\<close>

lemma lost_stays:
  assumes "i < length (pz_handlers st)" and "hn_phase (pz_handlers st ! i) = Lost"
    and "qs_prefill_task (hn_session (pz_handlers st ! i)) = None"
  shows "handler_step env now ev i st = st"
proof -
  have [simp]: "on_handler i f st = st" if "f (pz_handlers st ! i) = pz_handlers st ! i" for f
    using that by (simp add: on_handler_def)
  show ?thesis
    by (cases ev) (use assms in \<open>simp_all add: prefill_started_def prefill_replied_def prefill_failed_def Let_def\<close>)
qed

text \<open>
  C38: a client can leave a session behind. A body whose \<open>min_tokens\<close> is not a number makes
  \<open>_prefill_body\<close> raise before any handler is in place: the request is answered with an exception, but
  nothing that happens to it afterwards ever finishes it or removes its session.
\<close>

theorem bad_min_tokens_leaks:
  assumes "proxy_run env st" and "i < length (pz_handlers st)" and "hn_phase (pz_handlers st ! i) = Reading"
    and "dict_get d ''min_tokens'' = Some v" and "json_type v \<in> {''NoneType'', ''str'', ''list'', ''dict''}"
    and "st' = fold (\<lambda>(now, ev). handler_step env now ev i) evs (handler_step env t (Body_Read (Inl (JDict d))) i st)"
  shows "qm_request_end (metrics_of (pz_handlers st' ! i)) = None \<and>
    dict_get (pz_sessions st') (qs_request_id (hn_session (pz_handlers st ! i))) = Some i"
proof -
  let ?h = "pz_handlers st ! i"
  define u where "u = handler_step env t (Body_Read (Inl (JDict d))) i st"
  have h: "handler_ok ?h" by (rule proxy_okD(2)[OF proxy_run_ok[OF assms(1)] assms(2)])
  have "json_min1 v = Inl (TypeError (''less-than not supported between instances of int and '' @ json_type v))"
    using assms(5) by (cases v) (simp_all add: json_min1_def)
  then obtain e where "prefill_body d s = Inl e" for s
    using assms(4) by (simp add: prefill_body_def dict_simps Let_def)
  then have u: "u = on_handler i (\<lambda>h. h\<lparr>hn_phase := Lost, hn_reply := Some (Reply_Raise (Failed ''TypeError'' (exc_text e)))\<rparr>)
      (on_handler i (on_metrics (set_body env d)) st)"
    using assms(3) by (simp add: u_def body_read_def Let_def)
  have lost: "i < length (pz_handlers u)" "hn_phase (pz_handlers u ! i) = Lost"
    "qs_prefill_task (hn_session (pz_handlers u ! i)) = None"
    using h assms(2,3) by (simp_all add: u handler_ok_def on_metrics_def)
  have run: "proxy_run env u" unfolding u_def by (rule run_step[OF assms(1,2)])
  have "fold (\<lambda>(now, ev). handler_step env now ev i) evs u = u"
    by (rule fold_inv[where P = "\<lambda>x. x = u", OF refl]) (auto simp: lost_stays[OF lost])
  then have "st' = u" using assms(6) by (simp add: u_def)
  moreover have o: "\<not> ended (pz_handlers u ! i)"
    using handler_okD(1)[OF proxy_okD(2)[OF proxy_run_ok[OF run] lost(1)]] lost(2) by simp
  moreover have "qm_request_end (metrics_of (pz_handlers u ! i)) = None" using o unfolding ended_def by blast
  moreover have "qs_request_id (hn_session (pz_handlers u ! i)) = qs_request_id (hn_session ?h)"
    using assms(2) by (simp add: u on_metrics_def)
  ultimately show ?thesis using session_of[OF proxy_run_ok[OF run] lost(1)] by simp
qed

lemma bad_min_tokens_leaks_witness:
  "dict_get (pz_sessions (fold (\<lambda>(now, ev). handler_step ex_env now ev 0) [((2, 2), Cancel), ((3, 3), Wake)]
      (handler_step ex_env (1, 1) (Body_Read (Inl (JDict [(''min_tokens'', JNull)]))) 0 (ex_after [])))) ''r1'' = Some 0"
proof -
  have "0 < length (pz_handlers (ex_after []))" "hn_phase (pz_handlers (ex_after []) ! 0) = Reading"
    "dict_get [(''min_tokens'', JNull)] ''min_tokens'' = Some JNull"
    "json_type JNull \<in> {''NoneType'', ''str'', ''list'', ''dict''}"
    and id: "qs_request_id (hn_session (pz_handlers (ex_after []) ! 0)) = ''r1''"
    by code_simp+
  from bad_min_tokens_leaks[OF ex_proxy_run this(1-4) refl] show ?thesis unfolding id by blast
qed

section \<open>Endpoint options\<close>

lemma str_split_plain: "c \<notin> set s \<Longrightarrow> str_split c s = [s]"
  by (induction s) auto

lemma str_split_append: "c \<notin> set s \<Longrightarrow> str_split c (s @ c # t) = s # str_split c t"
  by (induction s) auto

definition plain_url :: "string \<Rightarrow> bool" where
  "plain_url u \<longleftrightarrow> CHR '','' \<notin> set u \<and> u \<noteq> [] \<and> last u \<noteq> CHR ''/'' \<and> str_contains ''://'' u"

lemma url_plain: "plain_url u \<Longrightarrow> url u = u"
  by (cases u rule: rev_cases) (simp_all add: url_def plain_url_def str_rstrip_char_def)

definition endpoint_option :: "PrefillEndpoint \<Rightarrow> string" where
  "endpoint_option ep = ep_api_url ep @ '','' @ ep_engine_id ep @ '','' @ ep_bootstrap_addr ep @
     (case ep_dp_rank ep of None \<Rightarrow> [] | Some r \<Rightarrow> '','' @ int_str r)"

text \<open>
  The \<open>--prefill\<close> option is read as it is spelled: writing an endpoint with complete URLs and no
  comma in its engine ID, with or without a rank, and parsing it gives the endpoint back.
\<close>

theorem endpoint_option_round_trip:
  assumes "plain_url (ep_api_url ep)" and "CHR '','' \<notin> set (ep_engine_id ep)" and "plain_url (ep_bootstrap_addr ep)"
  shows "parse_prefill (endpoint_option ep) = Inr ep"
proof (cases "ep_dp_rank ep")
  case None
  then show ?thesis using assms
    by (simp add: parse_prefill_def endpoint_option_def str_split_append str_split_plain url_plain plain_url_def url_plain[unfolded plain_url_def])
next
  case (Some r)
  have "CHR '','' \<notin> set (int_str r)" using int_str_chars[of "CHR '',''" r] by (auto simp: is_digit_def)
  then show ?thesis using assms Some
    by (simp add: parse_prefill_def endpoint_option_def str_split_append str_split_plain parse_int_str plain_url_def
        url_plain[unfolded plain_url_def])
qed

lemma endpoint_option_round_trip_witness:
  "parse_prefill ''http://p:8000,P0,http://p:9000,1'' = Inr ex_endpoint"
proof -
  have "plain_url (ep_api_url ex_endpoint)" "CHR '','' \<notin> set (ep_engine_id ex_endpoint)" "plain_url (ep_bootstrap_addr ex_endpoint)"
    by code_simp+
  from endpoint_option_round_trip[OF this]
  have "parse_prefill (endpoint_option ex_endpoint) = Inr ex_endpoint" .
  moreover have "endpoint_option ex_endpoint = ''http://p:8000,P0,http://p:9000,1''" by code_simp
  ultimately show ?thesis by simp
qed

end
