(* ===== verification/Proxy_Pairing.thy ===== *)
theory Proxy_Pairing
  imports Proxy_Routing Worker Scheduler_Props
begin

text \<open>
  The proxy together with the two engines it drives: what it writes into \<open>kv_transfer_params\<close> is what
  the scheduler of either engine reads, and the worker of the decode engine asks the right producer for
  the right transfer. The engine hands the JSON object over as the request's dictionary.
\<close>

section \<open>The parameters as the engines see them\<close>

definition json_value :: "proxy_env \<Rightarrow> json \<Rightarrow> pyval" where
  "json_value env v =
     (case v of JNull \<Rightarrow> PNone | JBool b \<Rightarrow> PBool b | JInt i \<Rightarrow> PInt i | JStr s \<Rightarrow> PStr s
      | JFloat r \<Rightarrow> PObj (en_repr env v) (json_true v) (Some (if 0 \<le> r then \<lfloor>r\<rfloor> else - \<lfloor>- r\<rfloor>))
      | _ \<Rightarrow> PObj (en_repr env v) (json_true v) None)"

definition engine_params :: "proxy_env \<Rightarrow> (string, json) dict \<Rightarrow> params option" where
  "engine_params env body =
     (case dict_get body ''kv_transfer_params'' of Some (JDict d) \<Rightarrow> Some (dict_map (json_value env) d) | _ \<Rightarrow> None)"

definition prefill_params :: "TransferSession \<Rightarrow> params" where
  "prefill_params s = [(''do_remote_decode'', PBool True), (''do_remote_prefill'', PBool False),
     (''transfer_id'', PStr (qs_transfer_id s))]"

definition decode_params :: "TransferSession \<Rightarrow> params" where
  "decode_params s = [(''do_remote_decode'', PBool False), (''do_remote_prefill'', PBool True),
     (''remote_engine_id'', PStr (ep_engine_id (qs_prefill s))),
     (''remote_bootstrap_addr'', PStr (ep_bootstrap_addr (qs_prefill s))),
     (''remote_dp_rank'', PInt (case ep_dp_rank (qs_prefill s) of None \<Rightarrow> 0 | Some r \<Rightarrow> r)),
     (''transfer_id'', PStr (qs_transfer_id s))]"

lemma engine_params_posted:
  assumes "proxy_run env st" and "h \<in> set (pz_handlers st)"
    and "hn_prefill_post h = Some (p_url, pb, ph)" and "hn_decode_post h = Some (d_url, db, dh)"
  shows "engine_params env pb = Some (prefill_params (hn_session h))" and "engine_params env db = Some (decode_params (hn_session h))"
    and "qs_transfer_id (hn_session h) = ''xfer-'' @ qs_request_id (hn_session h)"
proof -
  obtain i where i: "i < length (pz_handlers st)" "h = pz_handlers st ! i" using assms(2) by (auto simp: in_set_conv_nth)
  then have r: "posted h" "qs_transfer_id (hn_session h) = ''xfer-'' @ qs_request_id (hn_session h)"
    using proxy_run_routes[OF assms(1)] by (simp_all add: route_ok_def Let_def)
  then obtain d where d: "prefill_body d (hn_session h) = Inr pb" "db = decode_body d (hn_session h)"
    using assms(3,4) by (auto simp: posted_def)
  show "engine_params env pb = Some (prefill_params (hn_session h))" "engine_params env db = Some (decode_params (hn_session h))"
    using prefill_body_get(1)[OF d(1)] decode_body_get(1)[of d "hn_session h"]
    by (simp_all add: engine_params_def d(2) dict_map_def json_value_def prefill_params_def decode_params_def)
  show "qs_transfer_id (hn_session h) = ''xfer-'' @ qs_request_id (hn_session h)" by (rule r(2))
qed

lemma param_prefill [simp]:
  "param (prefill_params s) ''do_remote_decode'' = PBool True" "param (prefill_params s) ''do_remote_prefill'' = PBool False"
  "param (prefill_params s) ''transfer_id'' = PStr (qs_transfer_id s)"
  by (simp_all add: param_def dict_get_def prefill_params_def)

lemma param_decode [simp]:
  "param (decode_params s) ''do_remote_decode'' = PBool False" "param (decode_params s) ''do_remote_prefill'' = PBool True"
  "dict_get (decode_params s) ''transfer_id'' = Some (PStr (qs_transfer_id s))"
  "dict_get (decode_params s) ''remote_engine_id'' = Some (PStr (ep_engine_id (qs_prefill s)))"
  "dict_get (decode_params s) ''remote_bootstrap_addr'' = Some (PStr (ep_bootstrap_addr (qs_prefill s)))"
  "dict_get (decode_params s) ''remote_dp_rank'' = Some (PInt (case ep_dp_rank (qs_prefill s) of None \<Rightarrow> 0 | Some r \<Rightarrow> r))"
  by (simp_all add: param_def dict_get_def decode_params_def)

section \<open>Properties\<close>

text \<open>
  C11: the two halves of a request meet. The prefill engine treats the request it gets as one whose KV a
  remote decode will fetch, and both the placeholder and the source it publishes carry the session's
  transfer ID; the decode engine treats its request as a remote prefill, and the receive its worker starts
  asks for the same transfer ID at the bootstrap address, engine and rank of the prefill endpoint the
  session was given. No other session of the proxy has that transfer ID.
\<close>

theorem transfer_ids_meet:
  assumes run: "proxy_run env st" and h: "h \<in> set (pz_handlers st)"
    and posts: "hn_prefill_post h = Some (p_url, pb, ph)" "hn_decode_post h = Some (d_url, db, dh)"
    and rp: "rq_kv_transfer_params rp = engine_params env pb" and rd: "rq_kv_transfer_params rd = engine_params env db"
    and cfg: "sc_is_producer pcfg" "sc_is_consumer dcfg"
    and new: "rq_request_id rp \<notin> s_transferring s" and capped: "rq_status rp = FINISHED_LENGTH_CAPPED" "any_blocks ids"
  shows "remote_decode pcfg rp \<and> \<not> remote_prefill pcfg rp \<and> remote_prefill dcfg rd \<and> \<not> remote_decode dcfg rd \<and>
    ss_transfer_id (last (s_transfer_state (announce_source pcfg rp s))) = qs_transfer_id (hn_session h) \<and>
    (let (delayed, s') = publish_source pcfg rp ids s; src = last (s_transfer_state s')
     in delayed \<and> ss_ready src \<and> ss_source_block_ids src = ids \<and> ss_transfer_id src = qs_transfer_id (hn_session h)) \<and>
    recv_event_of (make_plan dcfg rd blocks load_id ts) suffix = Inr
      \<lparr>re_request_id = rq_request_id rd, re_transfer_id = qs_transfer_id (hn_session h), re_block_ids = suffix,
       re_bootstrap_addr = ep_bootstrap_addr (qs_prefill (hn_session h)),
       re_remote_engine_id = ep_engine_id (qs_prefill (hn_session h)),
       re_remote_dp_rank = (case ep_dp_rank (qs_prefill (hn_session h)) of None \<Rightarrow> 0 | Some r \<Rightarrow> r)\<rparr> \<and>
    (\<forall>h' \<in> set (pz_handlers st). qs_transfer_id (hn_session h') = qs_transfer_id (hn_session h) \<longrightarrow> h' = h)"
proof -
  note e = engine_params_posted[OF run h posts]
  have p: "rq_params rp = prefill_params (hn_session h)" "rq_params rd = decode_params (hn_session h)"
    using rp rd e by (simp_all add: rq_params_def)
  have tid: "qs_transfer_id (hn_session h) \<noteq> []" by (simp add: e(3))
  have ids: "inj_on (\<lambda>h. qs_request_id (hn_session h)) (set (pz_handlers st))"
    using proxy_run_ok[OF run] by (simp add: proxy_ok_def sessions_ok_def request_ids_def distinct_map)
  have tids: "qs_transfer_id (hn_session h') = ''xfer-'' @ qs_request_id (hn_session h')" if "h' \<in> set (pz_handlers st)" for h'
    using proxy_run_routes[OF run] that by (auto simp: route_ok_def Let_def in_set_conv_nth)
  have "h' = h" if "h' \<in> set (pz_handlers st)" "qs_transfer_id (hn_session h') = qs_transfer_id (hn_session h)" for h'
    using inj_onD[OF ids _ that(1) h] that tids h by simp
  moreover have "remote_decode pcfg rp \<and> \<not> remote_prefill pcfg rp \<and> remote_prefill dcfg rd \<and> \<not> remote_decode dcfg rd"
    using cfg by (simp add: remote_decode_def remote_prefill_def param_true_def p)
  moreover have "ss_transfer_id (last (s_transfer_state (announce_source pcfg rp s))) = qs_transfer_id (hn_session h)"
    using cfg new tid by (simp add: announce_source_def remote_decode_def param_true_def p)
  moreover have "publish_source pcfg rp ids s = (True, s\<lparr>s_transfer_state := s_transfer_state s @
      [\<lparr>ss_request_id = rq_request_id rp, ss_transfer_id = qs_transfer_id (hn_session h), ss_source_block_ids = ids,
        ss_ready = True, ss_cancelled = False\<rparr>]\<rparr>)"
    using cfg capped tid by (simp add: publish_source_def param_true_def p)
  ultimately show ?thesis by (simp add: recv_event_of_def make_plan_def p)
qed

definition ex_engine_request :: "params option \<Rightarrow> request" where
  "ex_engine_request p = ex_decode\<lparr>rq_kv_transfer_params := p, rq_status := FINISHED_LENGTH_CAPPED\<rparr>"

lemma transfer_ids_meet_witness:
  "\<exists>h pb db. pz_handlers (ex_after ex_opened) = [h] \<and>
     remote_decode ex_cfg (ex_engine_request (engine_params ex_env pb)) \<and>
     remote_prefill ex_cfg (ex_engine_request (engine_params ex_env db)) \<and>
     recv_event_of (make_plan ex_cfg (ex_engine_request (engine_params ex_env db)) ex_blocks 1 \<lparr>ts_computed_tokens = 0, ts_pool_hit_tokens = 0, ts_target_tokens = 112\<rparr>) [[3]] =
       Inr \<lparr>re_request_id = ''d-1'', re_transfer_id = ''xfer-r1'', re_block_ids = [[3]],
        re_bootstrap_addr = ''http://p:9000'', re_remote_engine_id = ''P0'', re_remote_dp_rank = 1\<rparr>"
proof -
  define h where "h = hd (pz_handlers (ex_after ex_opened))"
  have one: "length (pz_handlers (ex_after ex_opened)) = 1" by code_simp
  then have hs: "pz_handlers (ex_after ex_opened) = [h]"
    unfolding h_def by (cases "pz_handlers (ex_after ex_opened)") simp_all
  have "hn_prefill_post h \<noteq> None" "hn_decode_post h \<noteq> None" unfolding h_def by code_simp+
  then obtain u pb ph v db dh where posts: "hn_prefill_post h = Some (u, pb, ph)" "hn_decode_post h = Some (v, db, dh)"
    by (metis option.exhaust surj_pair)
  have cfg: "sc_is_producer ex_cfg" "sc_is_consumer ex_cfg" by code_simp+
  have free: "rq_request_id (ex_engine_request (engine_params ex_env pb)) \<notin> s_transferring init_sched"
    by (simp add: init_sched_def)
  have req: "rq_kv_transfer_params (ex_engine_request p) = p" "rq_status (ex_engine_request p) = FINISHED_LENGTH_CAPPED"
    "rq_request_id (ex_engine_request p) = ''d-1''" for p
    by (simp_all add: ex_engine_request_def ex_decode_def)
  have blocks: "any_blocks [[3 :: int]]" by code_simp
  have s: "qs_transfer_id (hn_session h) = ''xfer-r1''" "qs_prefill (hn_session h) = ex_endpoint" unfolding h_def by code_simp+
  have mem: "h \<in> set (pz_handlers (ex_after ex_opened))" by (simp add: hs)
  from transfer_ids_meet[OF ex_proxy_run mem posts req(1) req(1) cfg free req(2) blocks]
  show ?thesis using hs unfolding s req(3) by (intro exI[of _ h] exI[of _ pb] exI[of _ db]) (simp add: ex_endpoint_def)
qed

end
