(* ===== verification/Registration.thy ===== *)
theory Registration
  imports Store_Keys "HOL-Library.Product_Lexorder"
begin

text \<open>
  Models the memory registration helpers of \<^verbatim>\<open>mtsc/utils.py\<close> and
  \<open>MooncakeKVCachePool.register\<close> of \<^verbatim>\<open>mtsc/kv_cache_pool.py\<close>: which address ranges are handed
  to the Mooncake bindings, and the block addresses the chunk databases get. A tensor is what the code
  reads of it: its data pointer, its storage, shape, strides (in elements) and element size. The
  platform test and the results of \<open>register_buffer\<close> are arguments.
\<close>

section \<open>Tensors\<close>

record tensor =
  tn_ptr :: int
  tn_storage :: int
  tn_storage_bytes :: int
  tn_shape :: "int list"
  tn_stride :: "int list"
  tn_element :: int

text \<open>A value of the KV cache dictionary: one object or a list of objects; \<open>None\<close> is no tensor.\<close>

datatype cache_value = One "tensor option" | Many "tensor option list"

definition cache_tensors :: "cache_value \<Rightarrow> tensor list result" where
  "cache_tensors raw =
     (let values = (case raw of One v \<Rightarrow> [v] | Many vs \<Rightarrow> vs)
      in if values = [] \<or> None \<in> set values
         then Inl (TypeError ''KV cache must be a tensor or a non-empty tensor sequence'')
         else Inr (map the values))"

definition numel :: "tensor \<Rightarrow> int" where
  "numel t = prod_list (tn_shape t)"

definition tensor_span :: "tensor \<Rightarrow> int" where
  "tensor_span t =
     (1 + sum_list (map (\<lambda>(size, stride). (size - 1) * stride) (zip (tn_shape t) (tn_stride t)))) * tn_element t"

section \<open>Regions of the NPU\<close>

type_synonym range = "int \<times> int"

definition add_range :: "tensor \<Rightarrow> (int, range list) dict \<Rightarrow> (int, range list) dict" where
  "add_range t d =
     (if numel t = 0 then d
      else let key = tn_storage t; old = (case dict_get d key of None \<Rightarrow> [] | Some rs \<Rightarrow> rs)
           in dict_set key (old @ [(tn_ptr t, tn_ptr t + tensor_span t)]) d)"

definition merge_gap :: int where
  "merge_gap = 4096"

definition max_regions :: nat where
  "max_regions = 256"

text \<open>The inner loop: \<open>start\<close> and \<open>stop\<close> are those of the region being built.\<close>

fun merge_ranges :: "int \<Rightarrow> int \<Rightarrow> range list \<Rightarrow> range list" where
  "merge_ranges start stop [] = [(start, stop - start)]"
| "merge_ranges start stop ((next_start, next_stop) # rest) =
     (if next_start \<le> stop + merge_gap then merge_ranges start (max stop next_stop) rest
      else (start, stop - start) # merge_ranges next_start next_stop rest)"

definition storage_regions :: "range list \<Rightarrow> range list" where
  "storage_regions ranges = (case sort ranges of [] \<Rightarrow> [] | (start, stop) # rest \<Rightarrow> merge_ranges start stop rest)"

definition npu_registration_regions :: "(string, cache_value) dict \<Rightarrow> range list result" where
  "npu_registration_regions kv_caches =
     (case map_res (cache_tensors \<circ> snd) kv_caches of Inl e \<Rightarrow> Inl e
      | Inr ts \<Rightarrow>
          (let ranges = fold add_range (concat ts) [];
               regions = concat (map (storage_regions \<circ> snd) ranges)
           in if length regions > max_regions
              then Inl (RuntimeError ''Mooncake register_buffer region count exceeds the HCCL per-process limit'')
              else Inr regions))"

definition effective_tp :: "int \<Rightarrow> int \<Rightarrow> bool \<Rightarrow> int result" where
  "effective_tp tp_size kv_heads is_mla =
     (if tp_size \<le> 0 \<or> kv_heads \<le> 0 then Inl (ValueError ''Invalid TP size or KV head count'')
      else let heads = (if is_mla then 1 else kv_heads)
           in if max tp_size heads mod min tp_size heads \<noteq> 0
              then Inl (ValueError ''KV heads and TP size must have an integer ratio'')
              else Inr (min tp_size heads))"

text \<open>
  \<open>npu_kv_nz_enabled\<close>: the entry \<open>enable_kv_nz\<close> of the additional configuration where that is a
  dictionary with the key, else what vLLM-Ascend's configuration says (\<open>None\<close> where it cannot be read).
\<close>

definition npu_kv_nz_enabled :: "bool \<Rightarrow> params option \<Rightarrow> bool option \<Rightarrow> bool" where
  "npu_kv_nz_enabled is_npu additional ascend =
     (if \<not> is_npu then False
      else case (case additional of None \<Rightarrow> None | Some d \<Rightarrow> dict_get d ''enable_kv_nz'') of
             Some v \<Rightarrow> (case v of PStr s \<Rightarrow> str_lower (str_strip s) \<notin> set false_words | _ \<Rightarrow> truthy v)
           | None \<Rightarrow> (case ascend of None \<Rightarrow> False | Some b \<Rightarrow> b))"

section \<open>The pool's registration\<close>

text \<open>
  \<open>rg_buffers\<close> are the calls of \<open>register_buffer\<close> so far, \<open>rg_addresses\<close> and \<open>rg_lengths\<close> what the
  databases will get. \<open>ret p n\<close> is the binding's return code.
\<close>

record registration =
  rg_seen :: "int set"
  rg_buffers :: "range list"
  rg_addresses :: "int list"
  rg_lengths :: "int list"

definition register_buffer :: "(int \<Rightarrow> int \<Rightarrow> int) \<Rightarrow> range \<Rightarrow> registration \<Rightarrow> registration result" where
  "register_buffer ret r g =
     (if ret (fst r) (snd r) \<noteq> 0 then Inl (RuntimeError ''Mooncake register_buffer failed'')
      else Inr (g\<lparr>rg_buffers := rg_buffers g @ [r]\<rparr>))"

text \<open>The outer dimensions: those whose step is larger than a page.\<close>

definition outer_dims :: "tensor \<Rightarrow> int \<Rightarrow> nat list" where
  "outer_dims t page = filter (\<lambda>d. tn_stride t ! d * tn_element t > page) [0..<length (tn_shape t)]"

definition register_tensor ::
  "bool \<Rightarrow> int \<Rightarrow> (int \<Rightarrow> int \<Rightarrow> int) \<Rightarrow> tensor \<Rightarrow> registration \<Rightarrow> registration result" where
  "register_tensor is_npu num_blocks ret t g =
     (case (if \<not> is_npu \<and> tn_storage t \<notin> rg_seen g
            then register_buffer ret (tn_storage t, tn_storage_bytes t) (g\<lparr>rg_seen := insert (tn_storage t) (rg_seen g)\<rparr>)
            else Inr g) of
        Inl e \<Rightarrow> Inl e
      | Inr g1 \<Rightarrow>
          if is_npu
          then (if tn_shape t = [] \<or> tn_shape t ! 0 < num_blocks
                then Inl (ValueError ''Ascend KV cache must have a leading block dimension'')
                else Inr (g1\<lparr>rg_addresses := rg_addresses g1 @ [tn_ptr t],
                             rg_lengths := rg_lengths g1 @ [tn_stride t ! 0 * tn_element t]\<rparr>))
          else if tn_ptr t \<noteq> tn_storage t then Inr g1
          else if num_blocks = 0 then Inl ZeroDivisionError
          else (let page = tn_storage_bytes t div num_blocks
                in case outer_dims t page of
                     [] \<Rightarrow> Inr (g1\<lparr>rg_addresses := rg_addresses g1 @ [tn_storage t], rg_lengths := rg_lengths g1 @ [page]\<rparr>)
                   | d # _ \<Rightarrow>
                       (let stride = tn_stride t ! d * tn_element t; n = nat (tn_shape t ! d)
                        in Inr (g1\<lparr>rg_addresses := rg_addresses g1 @ map (\<lambda>i. tn_storage t + int i * stride) [0..<n],
                                   rg_lengths := rg_lengths g1 @ replicate n (stride div num_blocks)\<rparr>))))"

text \<open>The number of blocks where the configuration does not know it: the first leading dimension.\<close>

fun first_leading :: "cache_value list \<Rightarrow> int result" where
  "first_leading [] = Inl (ValueError ''num_gpu_blocks must be initialized before MooncakeKVCachePool'')"
| "first_leading (raw # rest) =
     (case cache_tensors raw of Inl e \<Rightarrow> Inl e
      | Inr ts \<Rightarrow> (case List.find (\<lambda>t. tn_shape t \<noteq> [] \<and> tn_shape t ! 0 > 0) ts of
                     Some t \<Rightarrow> Inr (tn_shape t ! 0) | None \<Rightarrow> first_leading rest))"

definition register_value ::
  "bool \<Rightarrow> int \<Rightarrow> (int \<Rightarrow> int \<Rightarrow> int) \<Rightarrow> string \<times> cache_value \<Rightarrow> registration \<Rightarrow> registration result" where
  "register_value is_npu num_blocks ret raw g =
     (case cache_tensors (snd raw) of Inl e \<Rightarrow> Inl e
      | Inr ts \<Rightarrow> fold_res (register_tensor is_npu num_blocks ret) ts g)"

record pool_memory =
  mm_closed :: bool
  mm_registered :: bool
  mm_num_blocks :: "int option"
  mm_databases :: "ChunkedTokenDatabase list"
  mm_buffers :: "range list"

definition pool_register ::
  "bool \<Rightarrow> (int \<Rightarrow> int \<Rightarrow> int) \<Rightarrow> (string, cache_value) dict \<Rightarrow> pool_memory \<Rightarrow> pool_memory result" where
  "pool_register is_npu ret kv_caches m =
     (if mm_closed m then Inl (RuntimeError ''KV cache pool is closed'')
      else if mm_registered m then Inl (RuntimeError ''KV cache memory is already registered'')
      else if kv_caches = [] then Inl (RuntimeError ''No KV caches supplied'')
      else case (case mm_num_blocks m of Some n \<Rightarrow> Inr n | None \<Rightarrow> first_leading (map snd kv_caches)) of
             Inl e \<Rightarrow> Inl e
           | Inr num_blocks \<Rightarrow>
          (let g0 = \<lparr>rg_seen = {}, rg_buffers = [], rg_addresses = [], rg_lengths = []\<rparr>
           in case (if is_npu
                    then (case npu_registration_regions kv_caches of Inl e \<Rightarrow> Inl e
                          | Inr regions \<Rightarrow> fold_res (register_buffer ret) regions g0)
                    else Inr g0) of
                Inl e \<Rightarrow> Inl e
              | Inr g1 \<Rightarrow>
             (case fold_res (register_value is_npu num_blocks ret) kv_caches g1 of Inl e \<Rightarrow> Inl e
              | Inr g \<Rightarrow>
                  Inr (m\<lparr>mm_registered := True, mm_num_blocks := Some num_blocks, mm_buffers := rg_buffers g,
                         mm_databases := map (\<lambda>db. db\<lparr>db_base_addr := rg_addresses g, db_block_len := rg_lengths g\<rparr>)
                                           (mm_databases m)\<rparr>))))"

section \<open>What merging keeps\<close>

definition inside :: "range \<Rightarrow> range \<Rightarrow> bool" where
  "inside r region \<longleftrightarrow> fst region \<le> fst r \<and> snd r \<le> fst region + snd region"

lemma merge_covers:
  "start \<le> stop \<Longrightarrow> sorted (map fst ((start, stop) # rest)) \<Longrightarrow> (\<forall>r \<in> set rest. fst r \<le> snd r) \<Longrightarrow>
   r \<in> insert (start, stop) (set rest) \<Longrightarrow> \<exists>region \<in> set (merge_ranges start stop rest). inside r region"
proof (induction start stop rest arbitrary: r rule: merge_ranges.induct)
  case (2 start stop ns ne rest)
  show ?case
  proof (cases "ns \<le> stop + merge_gap")
    case True
    have s: "sorted (map fst ((start, max stop ne) # rest))" using 2(4) by auto
    have IH: "\<exists>region \<in> set (merge_ranges start (max stop ne) rest). inside q region"
      if "q \<in> insert (start, max stop ne) (set rest)" for q
      using 2(1)[OF True _ s _ that] 2(3,5) by auto
    show ?thesis
    proof (cases "r \<in> set rest")
      case False
      then have "r = (start, stop) \<or> r = (ns, ne)" using 2(6) by auto
      moreover obtain region where "region \<in> set (merge_ranges start (max stop ne) rest)" "inside (start, max stop ne) region"
        using IH by blast
      moreover have "start \<le> ns" using 2(4) by simp
      ultimately show ?thesis using True by (auto simp: inside_def intro!: bexI[of _ region])
    qed (use IH True in simp)
  next
    case False
    have s: "sorted (map fst ((ns, ne) # rest))" using 2(4) by simp
    show ?thesis using 2(2)[OF False _ s, of r] 2(3,5,6) False by (auto simp: inside_def)
  qed
qed (simp add: inside_def)

lemma merge_hull:
  "(p, n) \<in> set (merge_ranges start stop rest) \<Longrightarrow>
   p \<in> insert start (fst ` set rest) \<and> p + n \<in> insert stop (snd ` set rest)"
proof (induction start stop rest rule: merge_ranges.induct)
  case (2 start stop ns ne rest)
  then show ?case by (cases "ns \<le> stop + merge_gap") (auto simp: max_def split: if_splits)
qed simp

lemma merge_separated:
  "sorted (map fst ((start, stop) # rest)) \<Longrightarrow>
   sorted_wrt (\<lambda>a b. fst a + snd a + merge_gap < fst b) (merge_ranges start stop rest) \<and>
   (\<forall>b \<in> set (merge_ranges start stop rest). start \<le> fst b)"
proof (induction start stop rest rule: merge_ranges.induct)
  case (2 start stop ns ne rest)
  show ?case
  proof (cases "ns \<le> stop + merge_gap")
    case True
    then show ?thesis using 2(1)[OF True] 2(3) by auto
  next
    case False
    have "sorted (map fst ((ns, ne) # rest))" "start \<le> ns" using 2(3) by simp_all
    from 2(2)[OF False this(1)] this(2) show ?thesis using False by fastforce
  qed
qed simp

lemma storage_covers:
  assumes "\<forall>r \<in> set rs. fst r \<le> snd r" and "r \<in> set rs"
  shows "\<exists>region \<in> set (storage_regions rs). inside r region"
proof -
  have ss: "sorted (map fst (sort rs))"
  proof -
    have "sorted_wrt (\<le>) (sort rs)" by simp
    then show ?thesis unfolding sorted_map by (rule sorted_wrt_mono_rel[rotated]) (auto simp: less_eq_prod_def)
  qed
  obtain a b rest where q: "sort rs = (a, b) # rest" using assms(2) by (cases "sort rs") (auto simp flip: set_empty)
  then have "set rs = insert (a, b) (set rest)" by (metis list.simps(15) set_sort)
  then show ?thesis using merge_covers[of a b rest r] ss assms by (simp add: storage_regions_def q)
qed

lemma storage_sorted: "sorted (map fst (sort (rs :: range list)))"
proof -
  have "sorted_wrt (\<le>) (sort rs)" by simp
  then show ?thesis unfolding sorted_map by (rule sorted_wrt_mono_rel[rotated]) (auto simp: less_eq_prod_def)
qed

lemma storage_hull:
  assumes "(p, n) \<in> set (storage_regions rs)"
  shows "p \<in> fst ` set rs" and "p + n \<in> snd ` set rs"
proof -
  obtain a b rest where q: "sort rs = (a, b) # rest" using assms by (cases "sort rs") (auto simp: storage_regions_def)
  then have s: "set rs = insert (a, b) (set rest)" by (metis list.simps(15) set_sort)
  show "p \<in> fst ` set rs" "p + n \<in> snd ` set rs"
    using merge_hull[of p n a b rest] assms by (auto simp: storage_regions_def q s)
qed

lemma storage_separated: "sorted_wrt (\<lambda>a b. fst a + snd a + merge_gap < fst b) (storage_regions rs)"
proof (cases "sort rs")
  case (Cons r rest)
  then show ?thesis using merge_separated[of "fst r" "snd r" rest] storage_sorted[of rs]
    by (cases r) (simp add: storage_regions_def)
qed (simp add: storage_regions_def)

section \<open>The ranges of a cache\<close>

definition tensors_of :: "(string, cache_value) dict \<Rightarrow> tensor set" where
  "tensors_of kv_caches = {t. \<exists>raw \<in> snd ` set kv_caches. \<exists>ts. cache_tensors raw = Inr ts \<and> t \<in> set ts}"

lemma tensors_ofI: "raw \<in> snd ` set kv_caches \<Longrightarrow> cache_tensors raw = Inr ts \<Longrightarrow> set ts \<subseteq> tensors_of kv_caches"
  by (auto simp: tensors_of_def)

definition range_of :: "tensor \<Rightarrow> range" where
  "range_of t = (tn_ptr t, tn_ptr t + tensor_span t)"

text \<open>The dictionary of ranges holds, per storage, the ranges of its non-empty tensors.\<close>

definition ranges_at :: "(int, range list) dict \<Rightarrow> int \<Rightarrow> range set" where
  "ranges_at d key = (case dict_get d key of None \<Rightarrow> {} | Some rs \<Rightarrow> set rs)"

definition tensor_ranges :: "tensor set \<Rightarrow> int \<Rightarrow> range set" where
  "tensor_ranges ts key = range_of ` {t \<in> ts. numel t \<noteq> 0 \<and> tn_storage t = key}"

definition ranges_ok :: "tensor list \<Rightarrow> (int, range list) dict \<Rightarrow> bool" where
  "ranges_ok ts d \<longleftrightarrow> dict_wf d \<and> (\<forall>key. ranges_at d key = tensor_ranges (set ts) key)"

lemma tensor_ranges_insert:
  "tensor_ranges (insert t ts) key =
     (if numel t \<noteq> 0 \<and> tn_storage t = key then insert (range_of t) (tensor_ranges ts key) else tensor_ranges ts key)"
  by (auto simp: tensor_ranges_def)

lemma add_range_at:
  "ranges_at (add_range t d) key =
     (if numel t \<noteq> 0 \<and> tn_storage t = key then insert (range_of t) (ranges_at d key) else ranges_at d key)"
  by (simp add: ranges_at_def add_range_def Let_def dict_simps range_of_def split: option.splits)

lemma add_range_ok: "ranges_ok ts d \<Longrightarrow> ranges_ok (ts @ [t]) (add_range t d)"
  by (simp add: ranges_ok_def add_range_at tensor_ranges_insert) (simp add: add_range_def Let_def pd.wf_put)

lemma fold_ranges_ok: "ranges_ok us d \<Longrightarrow> ranges_ok (us @ ts) (fold add_range ts d)"
proof (induction ts arbitrary: us d)
  case (Cons t ts)
  from Cons.IH[OF add_range_ok[OF Cons.prems]] show ?case by simp
qed simp

lemma regions_parts:
  assumes "npu_registration_regions kv_caches = Inr regions"
  obtains ts d where "set ts = tensors_of kv_caches" "ranges_ok ts d"
    "regions = concat (map (storage_regions \<circ> snd) d)" "length regions \<le> max_regions"
proof -
  obtain tss where tss: "map_res (cache_tensors \<circ> snd) kv_caches = Inr tss"
    "regions = concat (map (storage_regions \<circ> snd) (fold add_range (concat tss) []))" "length regions \<le> max_regions"
    using assms by (auto simp: npu_registration_regions_def Let_def split: sum.splits if_splits)
  have all: "list_all2 (\<lambda>x y. cache_tensors (snd x) = Inr y) kv_caches tss" using tss(1) by (simp add: map_res_Inr_iff)
  have "t \<in> set (concat tss) \<longleftrightarrow> t \<in> tensors_of kv_caches" for t
  proof
    assume "t \<in> set (concat tss)"
    then obtain us where "us \<in> set tss" "t \<in> set us" by auto
    then obtain i where i: "i < length tss" "t \<in> set (tss ! i)" by (metis in_set_conv_nth)
    then have "cache_tensors (snd (kv_caches ! i)) = Inr (tss ! i)" "kv_caches ! i \<in> set kv_caches"
      using all by (simp_all add: list_all2_conv_all_nth)
    then show "t \<in> tensors_of kv_caches" using i(2) unfolding tensors_of_def by blast
  next
    assume "t \<in> tensors_of kv_caches"
    then obtain x us where x: "x \<in> set kv_caches" "cache_tensors (snd x) = Inr us" "t \<in> set us" by (auto simp: tensors_of_def)
    then obtain i where i: "i < length kv_caches" "kv_caches ! i = x" by (auto simp: in_set_conv_nth)
    then have "tss ! i = us" "i < length tss" using all x(2) by (auto simp: list_all2_conv_all_nth)
    then show "t \<in> set (concat tss)" using x(3) by auto
  qed
  then have "set (concat tss) = tensors_of kv_caches" by blast
  moreover have "ranges_ok (concat tss) (fold add_range (concat tss) [])"
    using fold_ranges_ok[of "[]" "[]" "concat tss"] by (simp add: ranges_ok_def dict_wf_def dict_simps ranges_at_def tensor_ranges_def)
  ultimately show ?thesis using that tss(2,3) by blast
qed

lemma range_get:
  assumes "ranges_ok ts d" and "(key, rs) \<in> set d"
  shows "set rs = tensor_ranges (set ts) key"
proof -
  have "dict_get d key = Some rs" using assms dict_in_get[of d key rs] by (simp add: ranges_ok_def)
  then have "ranges_at d key = set rs" by (simp add: ranges_at_def)
  then show ?thesis using assms(1) by (simp add: ranges_ok_def)
qed

lemma get_range:
  assumes "ranges_ok ts d" and "t \<in> set ts" "numel t \<noteq> 0"
  obtains rs where "(tn_storage t, rs) \<in> set d" "range_of t \<in> set rs"
proof -
  have "ranges_at d (tn_storage t) = tensor_ranges (set ts) (tn_storage t)" using assms(1) by (simp add: ranges_ok_def)
  moreover have "range_of t \<in> tensor_ranges (set ts) (tn_storage t)" using assms(2,3) unfolding tensor_ranges_def by blast
  ultimately have "range_of t \<in> ranges_at d (tn_storage t)" by simp
  then obtain rs where rs: "dict_get d (tn_storage t) = Some rs" "range_of t \<in> set rs"
    by (cases "dict_get d (tn_storage t)") (simp_all add: ranges_at_def)
  show ?thesis by (rule that[OF dict_get_Some_in[OF rs(1)] rs(2)])
qed

text \<open>What is registered for a tensor with at least one element.\<close>

definition proper :: "tensor \<Rightarrow> bool" where
  "proper t \<longleftrightarrow> length (tn_stride t) = length (tn_shape t) \<and> 0 < tn_element t \<and>
     list_all (\<lambda>n. 0 \<le> n) (tn_shape t) \<and> list_all (\<lambda>n. 0 \<le> n) (tn_stride t)"

lemma span_pos:
  assumes "proper t" and "numel t \<noteq> 0"
  shows "0 < tensor_span t"
proof -
  have "0 \<notin> set (tn_shape t)" using assms(2) by (simp add: numel_def prod_list_zero_iff)
  then have "0 \<le> (a - 1) * b" if "(a, b) \<in> set (zip (tn_shape t) (tn_stride t))" for a b
  proof -
    have "a \<in> set (tn_shape t)" "b \<in> set (tn_stride t)" using that by (auto dest: set_zip_leftD set_zip_rightD)
    then have "0 \<le> a" "a \<noteq> 0" "0 \<le> b" using assms(1) \<open>0 \<notin> set (tn_shape t)\<close> by (auto simp: proper_def list_all_iff)
    then show ?thesis by (intro mult_nonneg_nonneg) simp_all
  qed
  then have "0 \<le> sum_list (map (\<lambda>(a, b). (a - 1) * b) (zip (tn_shape t) (tn_stride t)))"
    by (intro sum_list_nonneg) auto
  then show ?thesis using assms(1) by (simp add: tensor_span_def proper_def)
qed

section \<open>Properties of the regions\<close>

lemma npu_regions_cover:
  assumes "npu_registration_regions kv_caches = Inr regions" and "\<forall>t \<in> tensors_of kv_caches. proper t"
    and "t \<in> tensors_of kv_caches" "numel t \<noteq> 0"
  shows "\<exists>region \<in> set regions. inside (range_of t) region"
proof -
  obtain ts d where d: "set ts = tensors_of kv_caches" "ranges_ok ts d" "regions = concat (map (storage_regions \<circ> snd) d)"
    using regions_parts[OF assms(1)] .
  obtain rs where rs: "(tn_storage t, rs) \<in> set d" "range_of t \<in> set rs"
    using get_range[OF d(2), of t] assms(3,4) d(1) by blast
  have "\<forall>q \<in> set rs. fst q \<le> snd q"
  proof
    fix q assume "q \<in> set rs"
    then obtain u where u: "u \<in> set ts" "numel u \<noteq> 0" "q = range_of u"
      using range_get[OF d(2) rs(1)] by (auto simp: tensor_ranges_def)
    have "proper u" using u(1) d(1) assms(2) by blast
    from span_pos[OF this u(2)] show "fst q \<le> snd q" by (simp add: u(3) range_of_def)
  qed
  from storage_covers[OF this rs(2)] rs(1) show ?thesis by (force simp: d(3))
qed

text \<open>
  On NPU the registered regions cover the memory of every non-empty KV tensor and nothing that is
  foreign to it: each tensor's byte range lies in one region, each region starts where some tensor
  starts and ends where one of the same storage ends, regions of one storage are more than the merge gap
  apart, and there are at most 256.
\<close>

theorem npu_regions_exact:
  assumes "npu_registration_regions kv_caches = Inr regions" and "\<forall>t \<in> tensors_of kv_caches. proper t"
  shows "(\<forall>t \<in> tensors_of kv_caches. numel t \<noteq> 0 \<longrightarrow>
      (\<exists>(p, n) \<in> set regions. p \<le> tn_ptr t \<and> tn_ptr t + tensor_span t \<le> p + n)) \<and>
    (\<forall>(p, n) \<in> set regions. \<exists>t \<in> tensors_of kv_caches. \<exists>u \<in> tensors_of kv_caches. tn_storage t = tn_storage u \<and>
      p = tn_ptr t \<and> p + n = tn_ptr u + tensor_span u) \<and>
    (\<exists>groups. regions = concat groups \<and> list_all (sorted_wrt (\<lambda>a b. fst a + snd a + 4096 < fst b)) groups) \<and>
    length regions \<le> 256"
proof -
  obtain ts d where d: "set ts = tensors_of kv_caches" "ranges_ok ts d" "regions = concat (map (storage_regions \<circ> snd) d)"
    "length regions \<le> max_regions"
    using regions_parts[OF assms(1)] .
  have "\<exists>(p, n) \<in> set regions. p \<le> tn_ptr t \<and> tn_ptr t + tensor_span t \<le> p + n"
    if "t \<in> tensors_of kv_caches" "numel t \<noteq> 0" for t
    using npu_regions_cover[OF assms that] by (auto simp: inside_def range_of_def)
  moreover have "\<exists>t \<in> tensors_of kv_caches. \<exists>u \<in> tensors_of kv_caches. tn_storage t = tn_storage u \<and>
      p = tn_ptr t \<and> p + n = tn_ptr u + tensor_span u" if pn: "(p, n) \<in> set regions" for p n
  proof -
    obtain key rs where rs: "(key, rs) \<in> set d" "(p, n) \<in> set (storage_regions rs)" using pn by (auto simp: d(3))
    note h = storage_hull[OF rs(2)] and s = range_get[OF d(2) rs(1)]
    from h(1) obtain t where "t \<in> set ts" "tn_storage t = key" "p = fst (range_of t)" unfolding s by (auto simp: tensor_ranges_def)
    moreover from h(2) obtain u where "u \<in> set ts" "tn_storage u = key" "p + n = snd (range_of u)"
      unfolding s by (auto simp: tensor_ranges_def)
    ultimately show ?thesis unfolding d(1)[symmetric] by (intro bexI[of _ t] bexI[of _ u]) (simp_all add: range_of_def)
  qed
  moreover have "regions = concat (map (storage_regions \<circ> snd) d) \<and>
      list_all (sorted_wrt (\<lambda>a b. fst a + snd a + 4096 < fst b)) (map (storage_regions \<circ> snd) d)"
    using storage_separated by (simp add: d(3) list_all_iff merge_gap_def)
  ultimately show ?thesis using d(4) unfolding max_regions_def by blast
qed

section \<open>Where the pool reads and writes\<close>

text \<open>The blocks of a database entry lie in registered memory.\<close>

definition blocks_in :: "int \<Rightarrow> range list \<Rightarrow> int \<Rightarrow> int \<Rightarrow> bool" where
  "blocks_in num_blocks buffers addr len \<longleftrightarrow>
     (\<forall>b. 0 \<le> b \<longrightarrow> b < num_blocks \<longrightarrow> (\<exists>r \<in> set buffers. inside (addr + b * len, addr + b * len + len) r))"

text \<open>A leading dimension without padding after its last step, as far as the span reaches.\<close>

definition dense :: "tensor \<Rightarrow> bool" where
  "dense t \<longleftrightarrow> tn_shape t \<noteq> [] \<longrightarrow> tn_shape t ! 0 * (tn_stride t ! 0 * tn_element t) \<le> tensor_span t"

definition fits_storage :: "tensor \<Rightarrow> bool" where
  "fits_storage t \<longleftrightarrow> (\<forall>d < length (tn_shape t). tn_shape t ! d * (tn_stride t ! d * tn_element t) \<le> tn_storage_bytes t)"

lemma block_inside:
  assumes "inside (base, base + bytes) r" and "0 \<le> len" "num_blocks * len \<le> bytes" "0 \<le> b" "b < num_blocks"
  shows "inside (base + b * len, base + b * len + len) r"
proof -
  have "0 \<le> b * len" using assms by simp
  moreover have "b * len + len \<le> num_blocks * len" using mult_right_mono[of "b + 1" num_blocks len] assms by (simp add: algebra_simps)
  ultimately show ?thesis using assms(1,3) by (simp add: inside_def)
qed

text \<open>The invariant of the loop over the tensors \<open>T\<close> of the cache.\<close>

definition reg_ok :: "tensor set \<Rightarrow> int \<Rightarrow> registration \<Rightarrow> bool" where
  "reg_ok T num_blocks g \<longleftrightarrow> length (rg_lengths g) = length (rg_addresses g) \<and>
     (\<forall>k < length (rg_addresses g). blocks_in num_blocks (rg_buffers g) (rg_addresses g ! k) (rg_lengths g ! k)) \<and>
     (\<forall>t \<in> T. tn_storage t \<in> rg_seen g \<longrightarrow> (tn_storage t, tn_storage_bytes t) \<in> set (rg_buffers g))"

definition same_storage_size :: "tensor set \<Rightarrow> tensor \<Rightarrow> bool" where
  "same_storage_size T t \<longleftrightarrow> (\<forall>u \<in> T. tn_storage u = tn_storage t \<longrightarrow> tn_storage_bytes u = tn_storage_bytes t)"

definition memory_ok :: "bool \<Rightarrow> tensor set \<Rightarrow> range list \<Rightarrow> bool" where
  "memory_ok is_npu T buffers \<longleftrightarrow> (\<forall>t \<in> T. proper t \<and> 0 \<le> tn_storage_bytes t \<and>
     (if is_npu then dense t \<and> (\<exists>r \<in> set buffers. inside (range_of t) r)
      else fits_storage t \<and> same_storage_size T t))"

lemma memory_okD:
  "memory_ok is_npu T bs \<Longrightarrow> t \<in> T \<Longrightarrow> proper t" "memory_ok is_npu T bs \<Longrightarrow> t \<in> T \<Longrightarrow> 0 \<le> tn_storage_bytes t"
  "memory_ok True T bs \<Longrightarrow> t \<in> T \<Longrightarrow> dense t" "memory_ok True T bs \<Longrightarrow> t \<in> T \<Longrightarrow> \<exists>r \<in> set bs. inside (range_of t) r"
  "memory_ok False T bs \<Longrightarrow> t \<in> T \<Longrightarrow> fits_storage t"
  "memory_ok False T bs \<Longrightarrow> t \<in> T \<Longrightarrow> u \<in> T \<Longrightarrow> tn_storage u = tn_storage t \<Longrightarrow> tn_storage_bytes u = tn_storage_bytes t"
  unfolding memory_ok_def same_storage_size_def if_True if_False by blast+

lemma blocks_in_mono: "blocks_in nb bs a l \<Longrightarrow> set bs \<subseteq> set bs' \<Longrightarrow> blocks_in nb bs' a l"
  unfolding blocks_in_def by blast

lemma reg_ok_append:
  assumes "reg_ok T nb g" and "length as = length ls"
    and "\<And>k. k < length as \<Longrightarrow> blocks_in nb (rg_buffers g) (as ! k) (ls ! k)"
  shows "reg_ok T nb (g\<lparr>rg_addresses := rg_addresses g @ as, rg_lengths := rg_lengths g @ ls\<rparr>)"
  using assms by (auto simp: reg_ok_def nth_append)

lemma page_fits:
  assumes "0 < nb" and "0 \<le> (x :: int)"
  shows "0 \<le> x div nb" "nb * (x div nb) \<le> x"
proof -
  show "0 \<le> x div nb" using assms by (simp add: pos_imp_zdiv_nonneg_iff)
  have "nb * (x div nb) + x mod nb = x" by (rule mult_div_mod_eq)
  moreover have "0 \<le> x mod nb" using assms(1) by simp
  ultimately show "nb * (x div nb) \<le> x" by linarith
qed

lemma register_tensor_ok:
  assumes g: "reg_ok T nb g" and t: "t \<in> T" and nb: "0 < nb" and mem: "memory_ok is_npu T (rg_buffers g)"
    and step: "register_tensor is_npu nb ret t g = Inr g'"
  shows "reg_ok T nb g' \<and> set (rg_buffers g) \<subseteq> set (rg_buffers g') \<and> (is_npu \<longrightarrow> rg_buffers g' = rg_buffers g)"
proof -
  have p: "proper t" "0 \<le> tn_storage_bytes t" using memory_okD(1,2)[OF mem t] by simp_all
  show ?thesis
  proof (cases is_npu)
    case True
    then have s: "tn_shape t \<noteq> []" "nb \<le> tn_shape t ! 0"
      and g': "g' = g\<lparr>rg_addresses := rg_addresses g @ [tn_ptr t], rg_lengths := rg_lengths g @ [tn_stride t ! 0 * tn_element t]\<rparr>"
      using step by (auto simp: register_tensor_def not_less split: if_splits)
    let ?len = "tn_stride t ! 0 * tn_element t"
    have len: "0 \<le> ?len" using p(1) s(1) by (auto simp: proper_def list_all_length)
    have m: "memory_ok True T (rg_buffers g)" using mem True by simp
    obtain r where r: "r \<in> set (rg_buffers g)" "inside (tn_ptr t, tn_ptr t + tensor_span t) r" "dense t"
      using memory_okD(3,4)[OF m t] unfolding range_of_def by blast
    have "nb * ?len \<le> tn_shape t ! 0 * ?len" by (rule mult_right_mono[OF s(2) len])
    also have "... \<le> tensor_span t" using r(3) s(1) by (simp add: dense_def)
    finally have "nb * ?len \<le> tensor_span t" .
    from block_inside[OF r(2) len this] have "blocks_in nb (rg_buffers g) (tn_ptr t) ?len" using r(1) by (auto simp: blocks_in_def)
    then show ?thesis using reg_ok_append[OF g, of "[tn_ptr t]" "[?len]"] by (simp add: g')
  next
    case False
    define g1 where "g1 = (if tn_storage t \<in> rg_seen g then g
        else g\<lparr>rg_seen := insert (tn_storage t) (rg_seen g), rg_buffers := rg_buffers g @ [(tn_storage t, tn_storage_bytes t)]\<rparr>)"
    have sub: "set (rg_buffers g) \<subseteq> set (rg_buffers g1)" by (auto simp: g1_def)
    have same: "tn_storage_bytes u = tn_storage_bytes t" if "u \<in> T" "tn_storage u = tn_storage t" for u
      using memory_okD(6)[OF _ t that] mem False by simp
    have g1: "reg_ok T nb g1"
    proof (cases "tn_storage t \<in> rg_seen g")
      case True
      then show ?thesis using g by (simp add: g1_def)
    next
      case new: False
      have "blocks_in nb (rg_buffers g1) (rg_addresses g ! k) (rg_lengths g ! k)" if "k < length (rg_addresses g)" for k
        using g that blocks_in_mono[OF _ sub] by (simp add: reg_ok_def)
      moreover have "(tn_storage u, tn_storage_bytes u) \<in> set (rg_buffers g1)" if "u \<in> T" "tn_storage u \<in> rg_seen g1" for u
        using g that same[OF that(1)] new by (auto simp: reg_ok_def g1_def)
      ultimately show ?thesis using g new by (simp add: reg_ok_def g1_def)
    qed
    have reg: "(tn_storage t, tn_storage_bytes t) \<in> set (rg_buffers g1)"
      using g t by (auto simp: g1_def reg_ok_def)
    have fits: "fits_storage t" using memory_okD(5)[OF _ t] mem False by simp
    have first: "(if tn_storage t \<notin> rg_seen g then register_buffer ret (tn_storage t, tn_storage_bytes t)
        (g\<lparr>rg_seen := insert (tn_storage t) (rg_seen g)\<rparr>) else Inr g) = Inr g1"
      using step False by (auto simp: register_tensor_def register_buffer_def g1_def split: if_splits sum.splits)
    let ?page = "tn_storage_bytes t div nb"
    have page: "0 \<le> ?page" "nb * ?page \<le> tn_storage_bytes t"
      using page_fits[OF nb p(2)] by simp_all
    have whole: "inside (tn_storage t, tn_storage t + tn_storage_bytes t) (tn_storage t, tn_storage_bytes t)" by (simp add: inside_def)
    consider "tn_ptr t \<noteq> tn_storage t" "g' = g1"
      | "tn_ptr t = tn_storage t" "outer_dims t ?page = []"
        "g' = g1\<lparr>rg_addresses := rg_addresses g1 @ [tn_storage t], rg_lengths := rg_lengths g1 @ [?page]\<rparr>"
      | d ds where "outer_dims t ?page = d # ds"
        "g' = g1\<lparr>rg_addresses := rg_addresses g1 @ map (\<lambda>i. tn_storage t + int i * (tn_stride t ! d * tn_element t)) [0..<nat (tn_shape t ! d)],
                 rg_lengths := rg_lengths g1 @ replicate (nat (tn_shape t ! d)) (tn_stride t ! d * tn_element t div nb)\<rparr>"
      using step first False nb unfolding register_tensor_def Let_def
      by (cases "outer_dims t ?page") (auto split: if_splits)
    then have "reg_ok T nb g' \<and> rg_buffers g' = rg_buffers g1"
    proof cases
      case 2
      have "blocks_in nb (rg_buffers g1) (tn_storage t) ?page"
        using block_inside[OF whole page] reg by (auto simp: blocks_in_def)
      then show ?thesis using reg_ok_append[OF g1, of "[tn_storage t]" "[?page]"] by (simp add: 2(3))
    next
      case (3 d ds)
      let ?s = "tn_stride t ! d * tn_element t" and ?n = "nat (tn_shape t ! d)"
      have d: "d < length (tn_shape t)" "?page < ?s"
      proof -
        have "d \<in> set (outer_dims t ?page)" using 3(1) by simp
        then show "d < length (tn_shape t)" "?page < ?s" by (simp_all add: outer_dims_def)
      qed
      then have s: "0 < ?s" using page(1) by linarith
      have len: "0 \<le> ?s div nb" "nb * (?s div nb) \<le> ?s"
        using page_fits[OF nb, of ?s] s by simp_all
      have "blocks_in nb (rg_buffers g1) (tn_storage t + int k * ?s) (?s div nb)" if k: "k < ?n" for k
      proof -
        have "(int k + 1) * ?s \<le> tn_shape t ! d * ?s" using k s by (intro mult_right_mono) auto
        also have "... \<le> tn_storage_bytes t" using fits d(1) by (simp add: fits_storage_def)
        finally have "int k * ?s + ?s \<le> tn_storage_bytes t" by (simp add: algebra_simps)
        moreover have "0 \<le> int k * ?s" using s by simp
        ultimately have "inside (tn_storage t + int k * ?s, tn_storage t + int k * ?s + ?s) (tn_storage t, tn_storage_bytes t)"
          by (simp add: inside_def)
        from block_inside[OF this len] show ?thesis using reg by (auto simp: blocks_in_def)
      qed
      then show ?thesis
        using reg_ok_append[OF g1, of "map (\<lambda>i. tn_storage t + int i * ?s) [0..<?n]" "replicate ?n (?s div nb)"] by (simp add: 3(2))
    qed (use g1 in simp)
    then show ?thesis using sub False by simp
  qed
qed

lemma register_all_ok:
  assumes "fold_res (register_value is_npu nb ret) kvs g = Inr g'" and "snd ` set kvs \<subseteq> snd ` set kv_caches"
    and "reg_ok (tensors_of kv_caches) nb g" "0 < nb" "memory_ok is_npu (tensors_of kv_caches) (rg_buffers g)"
  shows "reg_ok (tensors_of kv_caches) nb g' \<and> memory_ok is_npu (tensors_of kv_caches) (rg_buffers g')"
proof -
  let ?T = "tensors_of kv_caches"
  let ?P = "\<lambda>g. reg_ok ?T nb g \<and> memory_ok is_npu ?T (rg_buffers g)"
  have one: "?P h'" if "?P h" "t \<in> ?T" "register_tensor is_npu nb ret t h = Inr h'" for h h' t
  proof -
    note R = register_tensor_ok[OF conjunct1[OF that(1)] that(2) assms(4) conjunct2[OF that(1)] that(3)]
    have "memory_ok is_npu ?T (rg_buffers h')"
    proof (cases is_npu)
      case True
      then show ?thesis using R that(1) by simp
    next
      case False
      then show ?thesis using conjunct2[OF that(1)] unfolding memory_ok_def by simp
    qed
    with R show ?thesis by simp
  qed
  have each: "?P h'" if ph: "?P h" and raw: "raw \<in> set kvs" and st: "register_value is_npu nb ret raw h = Inr h'" for h h' raw
  proof -
    obtain ts where ts: "cache_tensors (snd raw) = Inr ts" "fold_res (register_tensor is_npu nb ret) ts h = Inr h'"
      using st by (auto simp: register_value_def split: sum.splits)
    have "snd raw \<in> snd ` set kv_caches" using raw assms(2) by blast
    then have sub: "set ts \<subseteq> ?T" by (rule tensors_ofI[OF _ ts(1)])
    show ?thesis
    proof (rule fold_res_inv[where P = ?P, OF ts(2) ph])
      fix t u u' assume "t \<in> set ts" "?P u" "register_tensor is_npu nb ret t u = Inr u'"
      then show "?P u'" by (intro one[of u t u']) (use sub in auto)
    qed
  qed
  show ?thesis
  proof (rule fold_res_inv[where P = ?P, OF assms(1)])
    show "?P g" using assms(3,5) by (rule conjI)
    fix raw u u' assume "raw \<in> set kvs" "?P u" "register_value is_npu nb ret raw u = Inr u'"
    then show "?P u'" by (intro each[of u raw u'])
  qed
qed

lemma register_buffers_ok:
  "fold_res (register_buffer ret) rs g = Inr g' \<Longrightarrow>
   rg_buffers g' = rg_buffers g @ rs \<and> rg_addresses g' = rg_addresses g \<and> rg_lengths g' = rg_lengths g \<and> rg_seen g' = rg_seen g"
proof (induction rs arbitrary: g)
  case (Cons r rs)
  then obtain g1 where g1: "register_buffer ret r g = Inr g1" "fold_res (register_buffer ret) rs g1 = Inr g'"
    by (auto split: sum.splits)
  have "g1 = g\<lparr>rg_buffers := rg_buffers g @ [r]\<rparr>" using g1(1) by (simp add: register_buffer_def split: if_splits)
  with Cons.IH[OF g1(2)] show ?case by simp
qed simp

text \<open>What is assumed of the tensors torch hands over, per platform.\<close>

definition cache_ok :: "bool \<Rightarrow> tensor set \<Rightarrow> bool" where
  "cache_ok is_npu T \<longleftrightarrow> (\<forall>t \<in> T. proper t \<and> numel t \<noteq> 0 \<and> 0 \<le> tn_storage_bytes t \<and>
     (if is_npu then dense t
      else fits_storage t \<and> same_storage_size T t))"

text \<open>
  C23: after a successful registration every block a chunk database can address lies in memory that was
  registered with the Store: for each of its base addresses and each block number below the resolved
  number of blocks, the block's bytes are inside one registered buffer. On NPU this needs tensors without
  padding after the last block, elsewhere tensors whose outer steps fit their storage.
\<close>

theorem registered_blocks_reachable:
  assumes reg: "pool_register is_npu ret kv_caches m = Inr m'" and nb: "mm_num_blocks m' = Some nb" "0 < nb"
    and mem: "cache_ok is_npu (tensors_of kv_caches)" and db: "db \<in> set (mm_databases m')"
  shows "length (db_block_len db) = length (db_base_addr db) \<and>
    (\<forall>k < length (db_base_addr db). \<forall>b. 0 \<le> b \<longrightarrow> b < nb \<longrightarrow>
       (\<exists>(p, n) \<in> set (mm_buffers m'). p \<le> db_base_addr db ! k + b * db_block_len db ! k \<and>
          db_base_addr db ! k + b * db_block_len db ! k + db_block_len db ! k \<le> p + n))"
proof -
  let ?T = "tensors_of kv_caches" and ?g0 = "\<lparr>rg_seen = {}, rg_buffers = [], rg_addresses = [], rg_lengths = []\<rparr>"
  obtain g1 g where
    g1: "(if is_npu then (case npu_registration_regions kv_caches of Inl e \<Rightarrow> Inl e
            | Inr regions \<Rightarrow> fold_res (register_buffer ret) regions ?g0) else Inr ?g0) = Inr g1"
    and g: "fold_res (register_value is_npu nb ret) kv_caches g1 = Inr g"
    and m': "mm_buffers m' = rg_buffers g"
      "mm_databases m' = map (\<lambda>db. db\<lparr>db_base_addr := rg_addresses g, db_block_len := rg_lengths g\<rparr>) (mm_databases m)"
    using reg nb(1) unfolding pool_register_def Let_def by (auto split: if_splits sum.splits)
  have proper: "\<forall>t \<in> ?T. proper t" using mem unfolding cache_ok_def by blast
  have start: "reg_ok ?T nb g1 \<and> memory_ok is_npu ?T (rg_buffers g1)"
  proof (cases is_npu)
    case True
    then obtain regions where r: "npu_registration_regions kv_caches = Inr regions"
      "fold_res (register_buffer ret) regions ?g0 = Inr g1"
      using g1 by (auto split: sum.splits)
    have c: "rg_buffers g1 = regions" "rg_addresses g1 = []" "rg_lengths g1 = []" "rg_seen g1 = {}"
      using register_buffers_ok[OF r(2)] by simp_all
    have "\<exists>q \<in> set regions. inside (range_of t) q" if "t \<in> ?T" for t
      using npu_regions_cover[OF r(1) proper that] mem that unfolding cache_ok_def by blast
    then have "memory_ok is_npu ?T (rg_buffers g1)"
      using mem True unfolding memory_ok_def cache_ok_def c(1) by simp
    then show ?thesis by (simp add: reg_ok_def c)
  next
    case False
    then have "g1 = ?g0" using g1 by simp
    moreover have "memory_ok is_npu ?T []" using mem False unfolding memory_ok_def cache_ok_def by simp
    ultimately show ?thesis by (simp add: reg_ok_def)
  qed
  have "reg_ok ?T nb g"
    using register_all_ok[OF g _ conjunct1[OF start] nb(2) conjunct2[OF start]] by simp
  then show ?thesis using db unfolding m' reg_ok_def blocks_in_def inside_def case_prod_unfold by auto
qed

text \<open>
  The padding of a lone padded view is not covered. On NPU the block length handed to the databases is
  the step between blocks, while the registered span stops at the last element: a cache whose only tensor
  has padding after its last block registers less memory than its last block is said to have.
\<close>

theorem padded_block_escapes:
  assumes reg: "pool_register True ret [(name, One (Some t))] m = Inr m'" and nb: "mm_num_blocks m' = Some nb" "tn_shape t \<noteq> []" "nb = tn_shape t ! 0"
    and t: "proper t" "numel t \<noteq> 0" "\<not> dense t" and db: "db \<in> set (mm_databases m')"
  shows "db_base_addr db = [tn_ptr t] \<and> mm_buffers m' = [(tn_ptr t, tensor_span t)] \<and>
    tn_ptr t + tensor_span t < tn_ptr t + (nb - 1) * db_block_len db ! 0 + db_block_len db ! 0"
proof -
  let ?g0 = "\<lparr>rg_seen = {}, rg_buffers = [], rg_addresses = [], rg_lengths = []\<rparr>"
  have c: "cache_tensors (One (Some t)) = Inr [t]" by (simp add: cache_tensors_def)
  have regions: "npu_registration_regions [(name, One (Some t))] = Inr [(tn_ptr t, tensor_span t)]"
    using t(2) by (simp add: npu_registration_regions_def c add_range_def dict_simps storage_regions_def Let_def dict_set_def
        max_regions_def)
  obtain g1 g where g1: "fold_res (register_buffer ret) [(tn_ptr t, tensor_span t)] ?g0 = Inr g1"
    and g: "fold_res (register_value True nb ret) [(name, One (Some t))] g1 = Inr g"
    and m': "mm_buffers m' = rg_buffers g"
      "mm_databases m' = map (\<lambda>db. db\<lparr>db_base_addr := rg_addresses g, db_block_len := rg_lengths g\<rparr>) (mm_databases m)"
    using reg nb(1) unfolding pool_register_def Let_def regions by (auto split: if_splits sum.splits)
  note b = register_buffers_ok[OF g1]
  have s: "rg_addresses g = [tn_ptr t]" "rg_lengths g = [tn_stride t ! 0 * tn_element t]" "rg_buffers g = [(tn_ptr t, tensor_span t)]"
    using g b by (auto simp: register_value_def c register_tensor_def split: if_splits sum.splits)
  have "tensor_span t < nb * (tn_stride t ! 0 * tn_element t)" using t(3) nb(2) by (simp add: dense_def nb(3))
  then have "tensor_span t < (nb - 1) * (tn_stride t ! 0 * tn_element t) + tn_stride t ! 0 * tn_element t"
    by (simp add: left_diff_distrib)
  then show ?thesis using db by (auto simp: m' s)
qed

section \<open>Concrete caches\<close>

definition ex_tensor :: "int \<Rightarrow> int list \<Rightarrow> tensor" where
  "ex_tensor p stride = \<lparr>tn_ptr = p, tn_storage = 1000, tn_storage_bytes = 4096, tn_shape = [4, 8], tn_stride = stride, tn_element = 2\<rparr>"

text \<open>Two dense halves of one storage, keys and values, 64 bytes each.\<close>

definition ex_cache :: "(string, cache_value) dict" where
  "ex_cache = [(''layer.0'', Many [Some (ex_tensor 1000 [8, 1]), Some (ex_tensor 3048 [8, 1])])]"

definition ex_memory :: pool_memory where
  "ex_memory = \<lparr>mm_closed = False, mm_registered = False, mm_num_blocks = None,
     mm_databases = [\<lparr>db_metadata = \<lparr>km_model_name = ''m'', km_tp_rank = 0, km_pcp_rank = 0, km_dcp_rank = 0, km_pp_rank = 0,
       km_group_id = 0\<rparr>, db_block_size = 16, db_hash_block_size = 16, db_base_addr = [], db_block_len = []\<rparr>],
     mm_buffers = []\<rparr>"

lemma ex_cache_tensors: "tensors_of ex_cache = {ex_tensor 1000 [8, 1], ex_tensor 3048 [8, 1]}"
  by (auto simp: tensors_of_def ex_cache_def cache_tensors_def)

lemma ex_tensor_simps: "proper (ex_tensor p [8, 1])" "numel (ex_tensor p s) = 32" "tensor_span (ex_tensor p [8, 1]) = 64" "dense (ex_tensor p [8, 1])"
  by (simp_all add: ex_tensor_def proper_def numel_def tensor_span_def dense_def)

lemma npu_regions_exact_witness:
  "\<exists>regions. npu_registration_regions ex_cache = Inr regions \<and> length regions \<le> 256 \<and>
     (\<exists>(p, n) \<in> set regions. p \<le> 1000 \<and> 1000 + 64 \<le> p + n)"
proof -
  have r: "npu_registration_regions ex_cache = Inr [(1000, 2112)]" by code_simp
  have p: "\<forall>t \<in> tensors_of ex_cache. proper t" by (simp add: ex_cache_tensors ex_tensor_simps)
  have t: "ex_tensor 1000 [8, 1] \<in> tensors_of ex_cache" "tn_ptr (ex_tensor 1000 [8, 1]) = 1000"
    by (simp_all add: ex_cache_tensors, simp add: ex_tensor_def)
  note P = npu_regions_exact[OF r p]
  have "numel (ex_tensor 1000 [8, 1]) \<noteq> 0" by (simp add: ex_tensor_simps)
  from P[THEN conjunct1, THEN bspec, OF t(1), THEN mp, OF this]
  have "\<exists>(p, n) \<in> set [(1000 :: int, 2112)]. p \<le> 1000 \<and> 1000 + 64 \<le> p + n"
    unfolding ex_tensor_simps(3) t(2) .
  then show ?thesis using r by (intro exI[of _ "[(1000, 2112)]"] conjI) simp_all
qed

lemma registered_blocks_reachable_witness:
  "\<exists>m' db. pool_register True (\<lambda>p n. 0) ex_cache ex_memory = Inr m' \<and> mm_databases m' = [db] \<and> db_base_addr db = [1000, 3048] \<and>
     (\<exists>(p, n) \<in> set (mm_buffers m'). p \<le> 3048 + 3 * 16 \<and> 3048 + 3 * 16 + 16 \<le> p + n)"
proof -
  define m' where "m' = projr (pool_register True (\<lambda>p n. 0) ex_cache ex_memory)"
  define db where "db = hd (mm_databases m')"
  have m: "pool_register True (\<lambda>p n. 0) ex_cache ex_memory = Inr m'" "mm_num_blocks m' = Some 4"
    "length (mm_databases m') = 1" "db_base_addr db = [1000, 3048]" "db_block_len db = [16, 16]"
    unfolding m'_def db_def by code_simp+
  have dbs: "mm_databases m' = [db]" using m(3) unfolding db_def by (cases "mm_databases m'") simp_all
  have ok: "cache_ok True (tensors_of ex_cache)"
    unfolding cache_ok_def ex_cache_tensors by (simp add: ex_tensor_simps) (simp add: ex_tensor_def)
  have "db \<in> set (mm_databases m')" by (simp add: dbs)
  from registered_blocks_reachable[OF m(1,2) _ ok this, THEN conjunct2, rule_format, of 1 3]
  have "\<exists>(p, n) \<in> set (mm_buffers m'). p \<le> 3048 + 3 * 16 \<and> 3048 + 3 * 16 + 16 \<le> p + n"
    by (simp add: m(4,5))
  then show ?thesis using m(1,4) dbs by blast
qed

lemma padded_block_escapes_witness:
  "\<exists>m' db. pool_register True (\<lambda>p n. 0) [(''layer.0'', One (Some (ex_tensor 1000 [10, 1])))] ex_memory = Inr m' \<and>
     mm_databases m' = [db] \<and> mm_buffers m' = [(1000, 76)] \<and> 1000 + 76 < 1000 + 3 * db_block_len db ! 0 + db_block_len db ! 0"
proof -
  define m' where "m' = projr (pool_register True (\<lambda>p n. 0) [(''layer.0'', One (Some (ex_tensor 1000 [10, 1])))] ex_memory)"
  define db where "db = hd (mm_databases m')"
  have m: "pool_register True (\<lambda>p n. 0) [(''layer.0'', One (Some (ex_tensor 1000 [10, 1])))] ex_memory = Inr m'"
    "mm_num_blocks m' = Some 4" "length (mm_databases m') = 1"
    unfolding m'_def by code_simp+
  have dbs: "mm_databases m' = [db]" using m(3) unfolding db_def by (cases "mm_databases m'") simp_all
  have t: "tn_shape (ex_tensor 1000 [10, 1]) \<noteq> []" "4 = tn_shape (ex_tensor 1000 [10, 1]) ! 0" "proper (ex_tensor 1000 [10, 1])"
    "numel (ex_tensor 1000 [10, 1]) \<noteq> 0" "\<not> dense (ex_tensor 1000 [10, 1])" "tn_ptr (ex_tensor 1000 [10, 1]) = 1000"
    "tensor_span (ex_tensor 1000 [10, 1]) = 76"
    by (simp_all add: ex_tensor_def proper_def numel_def dense_def tensor_span_def)
  have "db \<in> set (mm_databases m')" by (simp add: dbs)
  from padded_block_escapes[OF m(1,2) t(1-5) this] show ?thesis using m(1) dbs unfolding t(6,7) by auto
qed

end
