(* ===== verification/Connector.thy ===== *)
theory Connector
  imports Scheduler Worker
begin

text \<open>
  Models \<^verbatim>\<open>mtsc/connector.py\<close>: the object vLLM talks to. It holds the scheduler half or the worker
  half, checks its configuration, hands every call on to the half it has, and refuses the others. The
  worker's backends are arguments, as in \<open>Worker\<close>; so is what the constructors of pool and transfer give.
\<close>

section \<open>Configuration\<close>

definition config_bool :: "pyval \<Rightarrow> bool \<Rightarrow> bool" where
  "config_bool v dflt =
     (case v of PNone \<Rightarrow> dflt | PBool b \<Rightarrow> b
      | _ \<Rightarrow> str_lower (str_strip (py_str v)) \<notin> set false_words)"

record transfer_config =
  vt_failure_policy :: string
  vt_kv_role :: string
  vt_extra :: params

definition require_recompute_policy :: "transfer_config option \<Rightarrow> unit result" where
  "require_recompute_policy transfer =
     (case transfer of
        None \<Rightarrow> Inl (ValueError ''MTSC requires kv_load_failure_policy=recompute'')
      | Some t \<Rightarrow> if vt_failure_policy t \<noteq> ''recompute''
                  then Inl (ValueError ''MTSC requires kv_load_failure_policy=recompute'') else Inr ())"

datatype connector_role = SCHEDULER | WORKER

record 'b connector =
  cn_scheduler :: "(sched_cfg \<times> sched) option"
  cn_worker :: "(worker \<times> 'b) option"

text \<open>
  \<open>make_cfg\<close> reads the scheduler's configuration, given the decode-save flag, and may raise; the scheduler
  starts in \<open>init_sched\<close>.
\<close>

definition new_connector ::
  "transfer_config option \<Rightarrow> connector_role \<Rightarrow> (bool \<Rightarrow> sched_cfg result) \<Rightarrow> (worker \<times> 'b) result \<Rightarrow> 'b connector result" where
  "new_connector transfer role make_cfg make_worker =
     (case transfer of None \<Rightarrow> Inl (ValueError ''kv_transfer_config is required'')
      | Some t \<Rightarrow>
     (case require_recompute_policy transfer of Inl e \<Rightarrow> Inl e
      | Inr _ \<Rightarrow>
          if vt_kv_role t \<notin> {''kv_producer'', ''kv_consumer'', ''kv_both''}
          then Inl (ValueError ''MTSC requires kv_role=kv_producer, kv_consumer or kv_both'')
          else (case role of
                  SCHEDULER \<Rightarrow>
                    (case make_cfg (config_bool (param (vt_extra t) ''mtsc_decode_save'') True) of Inl e \<Rightarrow> Inl e
                     | Inr cfg \<Rightarrow> Inr \<lparr>cn_scheduler = Some (cfg, init_sched), cn_worker = None\<rparr>)
                | WORKER \<Rightarrow>
                    (case make_worker of Inl e \<Rightarrow> Inl e
                     | Inr wb \<Rightarrow> Inr \<lparr>cn_scheduler = None, cn_worker = Some wb\<rparr>))))"

section \<open>Building the worker\<close>

text \<open>The only backend there is; \<open>repr\<close> is Python's.\<close>

definition check_backend :: "(pyval \<Rightarrow> string) \<Rightarrow> params \<Rightarrow> string \<Rightarrow> unit result" where
  "check_backend repr extra key =
     (let backend = (case dict_get extra key of None \<Rightarrow> PStr ''mooncake'' | Some v \<Rightarrow> v)
      in if backend \<noteq> PStr ''mooncake'' then Inl (ValueError (''Unsupported '' @ key @ '': '' @ repr backend)) else Inr ())"

definition create_backend :: "(pyval \<Rightarrow> string) \<Rightarrow> params \<Rightarrow> string \<Rightarrow> 'p result \<Rightarrow> 'p result" where
  "create_backend repr extra key made = (case check_backend repr extra key of Inl e \<Rightarrow> Inl e | Inr _ \<Rightarrow> made)"

text \<open>
  \<open>MTSCWorker.__init__\<close>: the pool, then the transfer; \<open>new_pool\<close> and \<open>new_transfer\<close> are what their
  constructors give. Beside the result stands the pool that was made, as it is left.
\<close>

definition create_worker ::
  "(pyval \<Rightarrow> string) \<Rightarrow> params \<Rightarrow> int \<Rightarrow> 'p result \<Rightarrow> 't result \<Rightarrow> ('p \<Rightarrow> 'p \<times> unit result) \<Rightarrow>
     'p option \<times> (worker \<times> 'p \<times> 't) result" where
  "create_worker repr extra rank new_pool new_transfer close =
     (case create_backend repr extra ''mtsc_pool_backend'' new_pool of Inl e \<Rightarrow> (None, Inl e)
      | Inr pool \<Rightarrow>
          (case create_backend repr extra ''mtsc_transfer_backend'' new_transfer of
             Inl e \<Rightarrow> (let (pool', r) = close pool in (Some pool', case r of Inl e' \<Rightarrow> Inl e' | Inr _ \<Rightarrow> Inl e))
           | Inr transfer \<Rightarrow> (Some pool, Inr (new_worker rank, pool, transfer))))"

text \<open>A worker that cannot be built leaves no pool open, and one that is built starts with both halves.\<close>

theorem create_worker_closes:
  "case create_worker repr extra rank new_pool new_transfer close of
     (left, Inl e) \<Rightarrow> (left = None \<and> (new_pool = Inl e \<or> (\<exists>t. e = ValueError t))) \<or> (\<exists>p. new_pool = Inr p \<and> left = Some (fst (close p)))
   | (left, Inr (w, p, t)) \<Rightarrow> left = Some p \<and> new_pool = Inr p \<and> new_transfer = Inr t \<and> w = new_worker rank"
  by (auto simp: create_worker_def create_backend_def check_backend_def Let_def split: sum.split prod.split option.split)

definition required_kvcache_layout :: "bool option \<Rightarrow> string option" where
  "required_kvcache_layout use_mla = (case use_mla of None \<Rightarrow> None | Some m \<Rightarrow> if m then None else Some ''HND'')"

definition prefer_cross_layer_blocks :: bool where
  "prefer_cross_layer_blocks = False"

section \<open>The scheduler's calls\<close>

text \<open>\<open>assert self.scheduler is not None\<close>, then the call on it.\<close>

definition with_scheduler ::
  "(sched_cfg \<Rightarrow> sched \<Rightarrow> ('r \<times> sched) result) \<Rightarrow> 'b connector \<Rightarrow> ('r \<times> 'b connector) result" where
  "with_scheduler f c =
     (case cn_scheduler c of None \<Rightarrow> Inl AssertionError
      | Some (cfg, s) \<Rightarrow>
          (case f cfg s of Inl e \<Rightarrow> Inl e | Inr (r, s') \<Rightarrow> Inr (r, c\<lparr>cn_scheduler := Some (cfg, s')\<rparr>)))"

definition con_get_num_new_matched_tokens ::
  "request \<Rightarrow> int \<Rightarrow> bool \<Rightarrow> sock_reply \<Rightarrow> 'b connector \<Rightarrow> (((int option \<times> bool) \<times> request) \<times> 'b connector) result" where
  "con_get_num_new_matched_tokens r n ready reply c =
     with_scheduler (\<lambda>cfg s. map_sum id (\<lambda>(x, r', s'). ((x, r'), s'))
        (get_num_new_matched_tokens cfg s r n ready reply)) c"

definition con_update_state_after_alloc ::
  "address \<Rightarrow> request \<Rightarrow> kv_blocks \<Rightarrow> 'b connector \<Rightarrow> (request \<times> 'b connector) result" where
  "con_update_state_after_alloc a r blocks c =
     with_scheduler (\<lambda>cfg s. update_state_after_alloc cfg s a r blocks) c"

definition con_build_connector_meta ::
  "cdiv_fun \<Rightarrow> heap \<Rightarrow> scheduler_output \<Rightarrow> 'b connector \<Rightarrow> (MTSCConnectorMetadata \<times> 'b connector) result" where
  "con_build_connector_meta cd heap out c = with_scheduler (\<lambda>cfg s. build_connector_meta cd cfg heap s out) c"

definition con_request_finished_all_groups ::
  "request \<Rightarrow> block_groups \<Rightarrow> 'b connector \<Rightarrow> (bool \<times> 'b connector) result" where
  "con_request_finished_all_groups r ids c = with_scheduler (\<lambda>cfg s. Inr (request_finished cfg s r ids)) c"

definition con_request_finished :: "request \<Rightarrow> int list \<Rightarrow> 'b connector \<Rightarrow> (bool \<times> 'b connector) result" where
  "con_request_finished r ids c = con_request_finished_all_groups r [ids] c"

text \<open>These do nothing, or answer no, without a scheduler.\<close>

definition con_update_connector_output ::
  "MTSCWorkerMetadata option \<Rightarrow> string list option \<Rightarrow> 'b connector \<Rightarrow> 'b connector" where
  "con_update_connector_output md finished_sending c =
     (case cn_scheduler c of None \<Rightarrow> c
      | Some (cfg, s) \<Rightarrow>
          c\<lparr>cn_scheduler := Some (cfg, fst (update_connector_output cfg s md finished_sending))\<rparr>)"

definition con_has_pending_push_work :: "'b connector \<Rightarrow> bool" where
  "con_has_pending_push_work c = (case cn_scheduler c of None \<Rightarrow> False | Some (cfg, s) \<Rightarrow> has_pending_push_work s)"

definition con_reset_cache :: "sock_reply \<Rightarrow> 'b connector \<Rightarrow> bool" where
  "con_reset_cache reply c = (case cn_scheduler c of None \<Rightarrow> False | Some (cfg, s) \<Rightarrow> reset_store s reply)"

section \<open>The worker's calls\<close>

definition with_worker :: "(worker \<times> 'b \<Rightarrow> ('r \<times> worker \<times> 'b) result) \<Rightarrow> 'b connector \<Rightarrow> ('r \<times> 'b connector) result" where
  "with_worker f c =
     (case cn_worker c of None \<Rightarrow> Inl AssertionError
      | Some wb \<Rightarrow> (case f wb of Inl e \<Rightarrow> Inl e | Inr (r, wb') \<Rightarrow> Inr (r, c\<lparr>cn_worker := Some wb'\<rparr>)))"

text \<open>What vLLM passes as metadata: ours, or an object of another type.\<close>

datatype any_metadata = Ours MTSCConnectorMetadata | Foreign string

definition our_metadata :: "any_metadata \<Rightarrow> MTSCConnectorMetadata result" where
  "our_metadata m = (case m of Ours md \<Rightarrow> Inr md | Foreign t \<Rightarrow> Inl (TypeError (''Expected MTSCConnectorMetadata, got '' @ t)))"

definition con_register_kv_caches :: "'b backend \<Rightarrow> 'b connector \<Rightarrow> (unit \<times> 'b connector) result" where
  "con_register_kv_caches bk c =
     with_worker (\<lambda>(w, b). case register_kv_caches bk b of (b', Inl e) \<Rightarrow> Inl e | (b', Inr u) \<Rightarrow> Inr (u, w, b')) c"

definition con_handle_preemptions :: "'b backend \<Rightarrow> any_metadata \<Rightarrow> 'b connector \<Rightarrow> (unit \<times> 'b connector) result" where
  "con_handle_preemptions bk m c =
     with_worker (\<lambda>wb. case our_metadata m of Inl e \<Rightarrow> Inl e
        | Inr md \<Rightarrow> map_sum id (\<lambda>wb'. ((), wb')) (handle_preemptions bk md wb)) c"

definition con_get_finished ::
  "'b backend \<Rightarrow> cdiv_fun \<Rightarrow> rat \<Rightarrow> nat \<Rightarrow> any_metadata \<Rightarrow> 'b connector \<Rightarrow>
     ((string set option \<times> string set option) \<times> 'b connector) result" where
  "con_get_finished bk cd now event m c =
     with_worker (\<lambda>wb. case our_metadata m of Inl e \<Rightarrow> Inl e | Inr md \<Rightarrow> get_finished bk cd now event md wb) c"

definition con_get_block_ids_with_load_errors :: "'b connector \<Rightarrow> (int set \<times> 'b connector) result" where
  "con_get_block_ids_with_load_errors c =
     with_worker (\<lambda>(w, b). let (ids, w') = get_block_ids_with_load_errors w in Inr (ids, w', b)) c"

definition con_build_connector_worker_meta :: "'b connector \<Rightarrow> (MTSCWorkerMetadata option \<times> 'b connector) result" where
  "con_build_connector_worker_meta c =
     with_worker (\<lambda>(w, b). let (md, w') = build_connector_worker_meta w in Inr (md, w', b)) c"

text \<open>The layer-wise hooks of vLLM do nothing: all work is ordered in \<open>get_finished\<close>.\<close>

definition con_layer_hook :: "'b connector \<Rightarrow> 'b connector" where
  "con_layer_hook c = c"

section \<open>Shutdown\<close>

text \<open>
  An exception of the worker's close leaves both attributes set. The value is the halves let go of, as their
  \<open>close\<close> left them: the code drops the references.
\<close>

definition shutdown_scheduler :: "'b connector \<Rightarrow> 'b connector \<times> sched option" where
  "shutdown_scheduler c =
     (case cn_scheduler c of None \<Rightarrow> (c, None)
      | Some (cfg, s) \<Rightarrow> (c\<lparr>cn_scheduler := None\<rparr>, Some (close_sched s)))"

definition shutdown :: "'b backend \<Rightarrow> 'b connector \<Rightarrow> 'b connector \<times> ((worker \<times> 'b) option \<times> sched option) result" where
  "shutdown bk c =
     (case cn_worker c of
        None \<Rightarrow> (case shutdown_scheduler c of (c', s) \<Rightarrow> (c', Inr (None, s)))
      | Some wb \<Rightarrow>
          (case close_worker bk wb of
             (w', b', Inl e) \<Rightarrow> (c\<lparr>cn_worker := Some (w', b')\<rparr>, Inl e)
           | (w', b', Inr _) \<Rightarrow>
               (case shutdown_scheduler (c\<lparr>cn_worker := None\<rparr>) of (c', s) \<Rightarrow> (c', Inr (Some (w', b'), s)))))"

text \<open>\<open>__del__\<close> swallows the exception.\<close>

definition connector_del :: "'b backend \<Rightarrow> 'b connector \<Rightarrow> 'b connector" where
  "connector_del bk c = fst (shutdown bk c)"

section \<open>Properties\<close>

lemma with_scheduler_none: "cn_scheduler c = None \<Longrightarrow> with_scheduler f c = Inl AssertionError"
  by (simp add: with_scheduler_def)

lemma with_worker_none: "cn_worker c = None \<Longrightarrow> with_worker f c = Inl AssertionError"
  by (simp add: with_worker_def)


definition ex_connector :: "(unit connector) result" where
  "ex_connector = new_connector
     (Some \<lparr>vt_failure_policy = ''recompute'', vt_kv_role = ''kv_both'', vt_extra = [(''mtsc_decode_save'', PStr '' off '')]\<rparr>)
     WORKER (\<lambda>_. Inl AssertionError) (Inr (new_worker 0, ()))"

definition ex_prompt :: request where
  "ex_prompt = \<lparr>rq_request_id = ''r'', rq_num_prompt_tokens = 2, rq_num_tokens = 2, rq_max_tokens = 1,
     rq_prompt_token_ids = Some [5, 6], rq_prompt_embeds = None, rq_all_token_ids = [5, 6], rq_block_hashes = [],
     rq_kv_transfer_params = None, rq_status = FINISHED_LENGTH_CAPPED\<rparr>"


text \<open>
  Shutdown reaches both halves and can be repeated. When it completes, the connector holds neither
  half, the worker it let go of is closed and so is the lookup client of the scheduler it let go of, and
  a further shutdown changes nothing. When the worker's close raises, the scheduler is left running and
  the worker is already marked closed, so that a second shutdown completes.
\<close>

theorem shutdown_completes:
  shows "case shutdown bk c of
      (c', Inr (wb, s)) \<Rightarrow> cn_worker c' = None \<and> cn_scheduler c' = None \<and>
        s = map_option (\<lambda>(cfg, s). close_sched s) (cn_scheduler c) \<and>
        (wb = None \<longleftrightarrow> cn_worker c = None) \<and> (case wb of Some (w, b) \<Rightarrow> wk_closed w | None \<Rightarrow> True) \<and>
        shutdown bk c' = (c', Inr (None, None))
    | (c', Inl e) \<Rightarrow> cn_scheduler c' = cn_scheduler c \<and>
        (\<exists>c'' w b s. cn_worker c' = Some (w, b) \<and> wk_closed w \<and> shutdown bk c' = (c'', Inr (Some (w, b), s)) \<and>
          cn_worker c'' = None \<and> cn_scheduler c'' = None)"
proof (cases "cn_worker c")
  case None
  then show ?thesis by (auto simp: shutdown_def shutdown_scheduler_def split: option.splits)
next
  case (Some wb)
  obtain w' b' r where cl: "close_worker bk wb = (w', b', r)" by (metis prod.exhaust)
  have closed: "wk_closed w'" using cl by (auto simp: close_worker_def split: if_splits prod.splits)
  have again: "close_worker bk (w', b') = (w', b', Inr ())" using closed by (simp add: close_worker_def)
  show ?thesis
    by (cases r) (auto simp: shutdown_def shutdown_scheduler_def Some cl closed again split: option.splits)
qed

end
