(* ===== verification/Settings.thy ===== *)
theory Settings
  imports Py_Values
begin

text \<open>
  Models how the pool (\<^verbatim>\<open>mtsc/kv_cache_pool.py\<close>) and the transfer
  (\<^verbatim>\<open>mtsc/kv_transfer.py\<close>) read their configuration: sizes, timeouts, host names, the lookup
  path, the transport, the check of the TCP transport and the Ascend resource file. Environment
  variables, file contents and the value of \<open>float(x)\<close> for a configured \<open>x\<close> are arguments.
\<close>

section \<open>Values\<close>

text \<open>A Python float as the code distinguishes them.\<close>

datatype pyfloat = Float rat | Infinite bool | Not_A_Number

text \<open>\<open>int(x)\<close> truncates towards zero.\<close>

definition trunc :: "rat \<Rightarrow> int" where
  "trunc q = (if q < 0 then - \<lfloor>- q\<rfloor> else \<lfloor>q\<rfloor>)"

fun float_int :: "pyfloat \<Rightarrow> int result" where
  "float_int (Float q) = Inr (trunc q)"
| "float_int (Infinite _) = Inl OverflowError"
| "float_int Not_A_Number = Inl (ValueError ''cannot convert float NaN to integer'')"

fun float_scale :: "pyfloat \<Rightarrow> nat \<Rightarrow> pyfloat" where
  "float_scale (Float q) n = Float (q * of_nat n)"
| "float_scale x n = x"

definition positive_timeout :: "string \<Rightarrow> pyfloat \<Rightarrow> rat result" where
  "positive_timeout name f =
     (case f of Float q \<Rightarrow> if q \<le> 0 then Inl (ValueError (name @ '' must be finite and positive'')) else Inr q
      | _ \<Rightarrow> Inl (ValueError (name @ '' must be finite and positive'')))"

definition normalize_string_override :: "pyval \<Rightarrow> string option" where
  "normalize_string_override v =
     (case v of PStr s \<Rightarrow> if str_strip s = [] then None else Some (str_strip s) | _ \<Rightarrow> None)"

text \<open>An environment variable as \<open>os.environ.get\<close> gives it.\<close>

definition env_value :: "string option \<Rightarrow> pyval" where
  "env_value v = (case v of None \<Rightarrow> PNone | Some s \<Rightarrow> PStr s)"

definition requester_local_hostname :: "string option \<Rightarrow> string \<Rightarrow> string" where
  "requester_local_hostname env local_ip =
     (case normalize_string_override (env_value env) of Some h \<Rightarrow> h | None \<Rightarrow> local_ip)"

definition configured_preferred_segment :: "params \<Rightarrow> string option \<Rightarrow> string option result" where
  "configured_preferred_segment extra env =
     (case normalize_string_override (param extra ''preferred_segment'') of
        Some s \<Rightarrow> Inr (Some s)
      | None \<Rightarrow> if param extra ''preferred_segment'' \<noteq> PNone
                then Inl (ValueError ''Mooncake preferred_segment override must be a non-empty string'')
                else Inr (normalize_string_override (env_value env)))"

section \<open>The Store's configuration file\<close>

definition str_suffix :: "string \<Rightarrow> string \<Rightarrow> bool" where
  "str_suffix p s = str_prefix (rev p) (rev s)"

definition size_suffixes :: "(string \<times> nat) list" where
  "size_suffixes = [(''gb'', 2 ^ 30), (''mb'', 2 ^ 20), (''kb'', 2 ^ 10), (''b'', 1)]"

text \<open>\<open>to_float\<close> is \<open>float(text)\<close>; an \<open>int\<close> (a \<open>bool\<close> is one) is taken as it is.\<close>

definition parse_size :: "(string \<Rightarrow> pyfloat result) \<Rightarrow> pyval \<Rightarrow> int result" where
  "parse_size to_float v =
     (case v of PInt i \<Rightarrow> Inr i | PBool b \<Rightarrow> Inr (if b then 1 else 0)
      | _ \<Rightarrow>
          (let text = str_lower (str_strip (py_str v))
           in case List.find (\<lambda>(suffix, _). str_suffix suffix text) size_suffixes of
                None \<Rightarrow> parse_int text
              | Some (suffix, scale) \<Rightarrow>
                  (case to_float (take (length text - length suffix) text) of Inl e \<Rightarrow> Inl e
                   | Inr f \<Rightarrow> float_int (float_scale f scale))))"

record StoreConfig =
  sf_metadata_server :: pyval
  sf_master_server_address :: pyval
  sf_protocol :: pyval
  sf_device_name :: pyval
  sf_global_segment_size :: int
  sf_local_buffer_size :: int

text \<open>\<open>raw.get(k, d)\<close>.\<close>

definition get_or :: "params \<Rightarrow> string \<Rightarrow> pyval \<Rightarrow> pyval" where
  "get_or p k d = (case dict_get p k of None \<Rightarrow> d | Some v \<Rightarrow> v)"

text \<open>\<open>path\<close> is \<open>MOONCAKE_CONFIG_PATH\<close>, \<open>read\<close> what opening and parsing a path gives.\<close>

definition load_store_config ::
  "(string \<Rightarrow> pyfloat result) \<Rightarrow> string option \<Rightarrow> (string \<Rightarrow> params result) \<Rightarrow> StoreConfig result" where
  "load_store_config to_float path read =
     (if path \<in> {None, Some []} then Inl (ValueError ''MOONCAKE_CONFIG_PATH is not set'')
      else case read (the path) of Inl e \<Rightarrow> Inl e
        | Inr raw \<Rightarrow>
       (case parse_size to_float (get_or raw ''global_segment_size'' (PInt (2 ^ 32))) of Inl e \<Rightarrow> Inl e
        | Inr global \<Rightarrow>
       (case parse_size to_float (get_or raw ''local_buffer_size'' (PInt (2 ^ 32))) of Inl e \<Rightarrow> Inl e
        | Inr local \<Rightarrow>
            Inr \<lparr>sf_metadata_server = get_or raw ''metadata_server'' (PStr []),
                 sf_master_server_address = get_or raw ''master_server_address'' (PStr []),
                 sf_protocol = get_or raw ''protocol'' (PStr ''rdma''),
                 sf_device_name = get_or raw ''device_name'' (PStr []),
                 sf_global_segment_size = global, sf_local_buffer_size = local\<rparr>)))"

section \<open>The lookup client\<close>

record parallel_config =
  pl_local_engines_only :: bool
  pl_master_ip :: string
  pl_data_parallel_index :: int
  pl_data_parallel_rank_local :: "int option"

definition dp_engine_index :: "parallel_config \<Rightarrow> int result" where
  "dp_engine_index c =
     (if pl_local_engines_only c
      then (case pl_data_parallel_rank_local c of None \<Rightarrow> Inl AssertionError | Some r \<Rightarrow> Inr r)
      else Inr (pl_data_parallel_index c))"

definition lookup_rpc_path :: "string \<Rightarrow> string \<Rightarrow> params \<Rightarrow> parallel_config \<Rightarrow> string result" where
  "lookup_rpc_path base hostname extra c =
     (case dp_engine_index c of Inl e \<Rightarrow> Inl e
      | Inr dp \<Rightarrow> Inr (''ipc://'' @ base @ ''/mtsc_lookup_'' @ py_str (get_or extra ''lookup_rpc_port'' (PInt 0)) @
                     ''_host_'' @ hostname @ ''_dp_rank'' @ int_str dp))"

definition lookup_timeout_ms :: "pyfloat \<Rightarrow> int result" where
  "lookup_timeout_ms f =
     (case positive_timeout ''mtsc_store_lookup_timeout_seconds'' f of Inl e \<Rightarrow> Inl e
      | Inr q \<Rightarrow> if q > (2 ^ 31 - 1) / 1000
                 then Inl (ValueError ''mtsc_store_lookup_timeout_seconds exceeds ZMQ's millisecond limit'')
                 else Inr (max 1 (trunc (q * 1000))))"

section \<open>The transport\<close>

text \<open>\<open>load\<close> is what \<open>StoreConfig.load\<close> gives, \<open>path_set\<close> whether \<open>MOONCAKE_CONFIG_PATH\<close> is a non-empty text.\<close>

definition resolve_transfer_transport :: "params \<Rightarrow> bool \<Rightarrow> StoreConfig result \<Rightarrow> (string \<times> string) result" where
  "resolve_transfer_transport extra path_set load =
     (let protocol = param extra ''mooncake_protocol''; device_name = param extra ''device_name''
      in case (if (protocol = PNone \<or> device_name = PNone) \<and> path_set
               then (case load of Inl e \<Rightarrow> Inl e
                     | Inr config \<Rightarrow> Inr (if protocol = PNone then sf_protocol config else protocol,
                                       if device_name = PNone then sf_device_name config else device_name))
               else Inr (protocol, device_name)) of
           Inl e \<Rightarrow> Inl e
         | Inr (p1, d1) \<Rightarrow>
             (case if p1 = PNone then PStr ''rdma'' else p1 of
                PStr p \<Rightarrow>
                  if str_strip p = [] then Inl (ValueError ''Mooncake direct TE protocol must be a non-empty string'')
                  else (case if d1 = PNone then PStr [] else d1 of
                          PStr d \<Rightarrow> Inr (str_strip p, str_strip d)
                        | _ \<Rightarrow> Inl (ValueError ''Mooncake direct TE device_name must be a string''))
              | _ \<Rightarrow> Inl (ValueError ''Mooncake direct TE protocol must be a non-empty string'')))"

text \<open>
  \<open>installed\<close> says whether the installed version could be read and, if so, whether it is at least
  \<open>0.3.13.post1\<close>; \<open>tcp_proto\<close> is \<open>MC_TCP_PROTO\<close>.
\<close>

definition require_tcp_write_ack :: "string \<Rightarrow> bool option \<Rightarrow> string option \<Rightarrow> unit result" where
  "require_tcp_write_ack protocol installed tcp_proto =
     (if protocol \<noteq> ''tcp'' then Inr ()
      else case installed of
             None \<Rightarrow> Inl (RuntimeError ''MTSC TCP requires mooncake-transfer-engine>=0.3.13.post1 with receiver ACK'')
           | Some recent \<Rightarrow>
               if \<not> recent then Inl (RuntimeError ''MTSC TCP requires mooncake-transfer-engine>=0.3.13.post1 on both P and D'')
               else if tcp_proto = Some ''1'' then Inl (RuntimeError ''MTSC TCP requires receiver ACK; unset MC_TCP_PROTO=1'')
               else Inr ())"

section \<open>The Ascend resource file\<close>

text \<open>
  The new value of \<open>ASCEND_LOCAL_COMM_RES\<close>, given its old one, \<open>ASCEND_RT_VISIBLE_DEVICES\<close>, the device of
  the process and the compact text of a device's endpoint file (\<open>None\<close> where it is missing or no JSON).
\<close>

definition setup_ascend_local_comm_res ::
  "string option \<Rightarrow> string option \<Rightarrow> int \<Rightarrow> (int \<Rightarrow> string option) \<Rightarrow> string option result" where
  "setup_ascend_local_comm_res comm_res visible device endpoint =
     (if comm_res \<notin> {None, Some []} \<or> visible \<in> {None, Some []} then Inr comm_res
      else case map_res parse_int (filter (\<lambda>x. str_strip x \<noteq> []) (str_split CHR '','' (the visible))) of
             Inl e \<Rightarrow> Inl e
           | Inr devices \<Rightarrow>
               if device \<notin> set devices then Inr comm_res
               else Inr (case endpoint device of None \<Rightarrow> comm_res | Some text \<Rightarrow> Some text))"

text \<open>The transfer has the same method.\<close>

definition transfer_setup_comm_res ::
  "string option \<Rightarrow> string option \<Rightarrow> int \<Rightarrow> (int \<Rightarrow> string option) \<Rightarrow> string option result" where
  "transfer_setup_comm_res comm_res visible device endpoint =
     setup_ascend_local_comm_res comm_res visible device endpoint"

section \<open>Setting up the Store\<close>

text \<open>What the pool passes to \<open>store.setup\<close>, and the segment its PUTs prefer.\<close>

record store_setup =
  su_hostname :: string
  su_config :: StoreConfig
  su_preferred_segment :: "string option"

definition setup_store ::
  "(string \<Rightarrow> StoreConfig \<Rightarrow> int) \<Rightarrow> StoreConfig result \<Rightarrow> string \<Rightarrow> params \<Rightarrow> string option \<Rightarrow> store_setup result" where
  "setup_store setup load hostname extra segment_env =
     (case load of Inl e \<Rightarrow> Inl e
      | Inr cfg \<Rightarrow>
          if setup hostname cfg \<noteq> 0 then Inl (RuntimeError ''Mooncake Store setup failed'')
          else (case configured_preferred_segment extra segment_env of Inl e \<Rightarrow> Inl e
                | Inr preferred \<Rightarrow>
                    Inr \<lparr>su_hostname = hostname, su_config = cfg, su_preferred_segment = preferred\<rparr>))"

definition load_workers :: "params \<Rightarrow> int result" where
  "load_workers extra = map_sum id (max 1) (py_int (get_or extra ''mtsc_store_load_workers'' (PInt 2)))"

definition pool_role :: "string \<Rightarrow> string result" where
  "pool_role kv_role =
     (if kv_role = ''kv_producer'' then Inr ''P'' else if kv_role = ''kv_consumer'' then Inr ''D''
      else if kv_role = ''kv_both'' then Inr ''PD'' else Inl (KeyError kv_role))"

text \<open>A coordinator without \<open>lookup_mask\<close> (\<open>None\<close>) has every key queried.\<close>

definition lookup_masks :: "(int \<Rightarrow> bool list option list) option \<Rightarrow> nat \<Rightarrow> int \<Rightarrow> bool list option list" where
  "lookup_masks lookup_mask databases token_count =
     (case lookup_mask of None \<Rightarrow> replicate databases None | Some f \<Rightarrow> f token_count)"

section \<open>Properties\<close>

lemma trunc_nonneg: "0 \<le> q \<Longrightarrow> trunc q = \<lfloor>q\<rfloor>"
  by (simp add: trunc_def)

text \<open>
  C39: the timeout of the lookup socket fits ZMQ. A configured number of seconds is accepted exactly when
  it is finite, positive and at most 2147483.647; the socket then gets its whole milliseconds, at least
  one and at most \<open>2 ^ 31 - 1\<close>, so never the 0 or -1 that ZMQ reads as no wait or no timeout.
\<close>

theorem lookup_timeout_fits:
  shows "case lookup_timeout_ms f of
      Inr ms \<Rightarrow> (\<exists>q. f = Float q \<and> 0 < q \<and> q \<le> 2147483647 / 1000 \<and> 1 \<le> ms \<and> ms < 2 ^ 31 \<and>
                   (of_int ms \<le> q * 1000 \<or> ms = 1) \<and> q * 1000 < of_int ms + 1)
    | Inl e \<Rightarrow> (\<exists>t. e = ValueError t) \<and> (case f of Float q \<Rightarrow> q \<le> 0 \<or> 2147483647 / 1000 < q | _ \<Rightarrow> True)"
proof (cases f)
  case (Float q)
  show ?thesis
  proof (cases "0 < q \<and> q \<le> 2147483647 / 1000")
    case True
    have t: "trunc (q * 1000) = \<lfloor>q * 1000\<rfloor>" using True by (simp add: trunc_nonneg)
    have "q * 1000 \<le> 2147483647" using True by simp
    then have "\<lfloor>q * 1000\<rfloor> \<le> 2147483647" by linarith
    moreover have "of_int \<lfloor>q * 1000\<rfloor> \<le> q * 1000" "q * 1000 < of_int \<lfloor>q * 1000\<rfloor> + 1" by linarith+
    ultimately show ?thesis using True Float t
      by (auto simp: lookup_timeout_ms_def positive_timeout_def max_def)
  next
    case False
    then show ?thesis using Float by (auto simp: lookup_timeout_ms_def positive_timeout_def)
  qed
qed (auto simp: lookup_timeout_ms_def positive_timeout_def)

text \<open>
  Explicit settings win, and a broken Store file is not papered over. Where both the protocol and the
  device are configured, the Store's file plays no part. Where one is missing and a file is named, a
  file that cannot be loaded makes the transfer fail with that error, and one that can supplies just
  the missing values. A protocol that is returned is a stripped, non-empty text.
\<close>

theorem transport_precedence:
  shows "(param extra ''mooncake_protocol'' \<noteq> PNone \<and> param extra ''device_name'' \<noteq> PNone \<longrightarrow>
      resolve_transfer_transport extra path_set load = resolve_transfer_transport extra False load') \<and>
    (param extra ''mooncake_protocol'' = PNone \<or> param extra ''device_name'' = PNone \<longrightarrow>
      resolve_transfer_transport extra True (Inl e) = Inl e) \<and>
    (resolve_transfer_transport extra path_set load = Inr (protocol, device_name) \<longrightarrow>
      protocol \<noteq> [] \<and> (\<forall>p. param extra ''mooncake_protocol'' = PStr p \<longrightarrow> protocol = str_strip p) \<and>
      (\<forall>d. param extra ''device_name'' = PStr d \<longrightarrow> device_name = str_strip d))"
proof -
  define pc where "pc = param extra ''mooncake_protocol''"
  define dn where "dn = param extra ''device_name''"
  note d = resolve_transfer_transport_def[of extra, folded pc_def dn_def, unfolded Let_def]
  show ?thesis unfolding pc_def[symmetric] dn_def[symmetric] d
    by (cases pc; cases dn; cases load) (auto split: if_splits pyval.splits)
qed

lemma transport_precedence_witness:
  "resolve_transfer_transport [(''mooncake_protocol'', PStr '' tcp '')] True (Inl IndexError) = Inl IndexError \<and>
   resolve_transfer_transport [(''mooncake_protocol'', PStr '' tcp ''), (''device_name'', PStr [])] True (Inl IndexError) =
     Inr (''tcp'', [])"
proof -
  define extra where "extra = [(''mooncake_protocol'', PStr '' tcp '')]"
  define both where "both = extra @ [(''device_name'', PStr [])]"
  have "param extra ''mooncake_protocol'' = PNone \<or> param extra ''device_name'' = PNone" unfolding extra_def by code_simp
  then have "resolve_transfer_transport extra True (Inl IndexError) = Inl IndexError"
    using transport_precedence[of extra True "Inl IndexError" "Inl IndexError" IndexError] by blast
  moreover have "param both ''mooncake_protocol'' \<noteq> PNone \<and> param both ''device_name'' \<noteq> PNone"
    unfolding both_def extra_def by code_simp
  then have "resolve_transfer_transport both True (Inl IndexError) = resolve_transfer_transport both False (Inl IndexError)"
    using transport_precedence[of both True "Inl IndexError" "Inl IndexError"] by blast
  moreover have "resolve_transfer_transport both False (Inl IndexError) = Inr (''tcp'', [])" unfolding both_def extra_def by code_simp
  ultimately show ?thesis by (simp add: extra_def both_def)
qed

end
