(* ===== verification/Bootstrap.thy ===== *)
theory Bootstrap
  imports Transfer_Recv_Props Settings
begin

text \<open>
  Models the bootstrap of \<^verbatim>\<open>mtsc/kv_transfer.py\<close>: the registry of the producers' workers
  (\<open>BootstrapServer\<close>), a worker's registration with its retries, and what a receiver reads out of the reply
  to its query. The server handles one request at a time on its event loop, so a request is one step.
\<close>

section \<open>The registry\<close>

record WorkerRegistration =
  wg_engine_id :: string
  wg_dp_rank :: int
  wg_tp_rank :: int
  wg_pp_rank :: int
  wg_addr :: string

record engine_entry =
  ee_engine_id :: string
  ee_worker_addr :: worker_table

type_synonym registry = "(int, engine_entry) dict"

datatype http_reply = Http_Ok | Http_Error int string

definition bootstrap_register :: "WorkerRegistration \<Rightarrow> registry \<Rightarrow> registry \<times> http_reply" where
  "bootstrap_register p ws =
     (let ws1 = dict_setdefault (wg_dp_rank p) \<lparr>ee_engine_id = wg_engine_id p, ee_worker_addr = []\<rparr> ws;
          entry = the (dict_get ws1 (wg_dp_rank p))
      in if ee_engine_id entry \<noteq> wg_engine_id p then (ws1, Http_Error 400 ''engine_id mismatch'')
         else let addrs = dict_setdefault (wg_tp_rank p) [] (ee_worker_addr entry);
                  tp_entry = the (dict_get addrs (wg_tp_rank p))
              in case dict_get tp_entry (wg_pp_rank p) of
                   Some a \<Rightarrow> (ws1, if a = wg_addr p then Http_Ok else Http_Error 400 ''worker rank already registered'')
                 | None \<Rightarrow>
                     (dict_set (wg_dp_rank p)
                        (entry\<lparr>ee_worker_addr := dict_set (wg_tp_rank p) (dict_set (wg_pp_rank p) (wg_addr p) tp_entry) addrs\<rparr>) ws1,
                      Http_Ok))"

text \<open>\<open>query\<close>: the JSON object of the reply has the ranks as texts.\<close>

definition json_workers :: "worker_table \<Rightarrow> (string, (string, string) dict) dict" where
  "json_workers workers = map (\<lambda>(tp, pp_map). (int_str tp, map (\<lambda>(pp, a). (int_str pp, a)) pp_map)) workers"

definition bootstrap_query :: "registry \<Rightarrow> (string \<times> string \<times> (string, (string, string) dict) dict) list" where
  "bootstrap_query ws = map (\<lambda>(dp, e). (int_str dp, ee_engine_id e, json_workers (ee_worker_addr e))) ws"

section \<open>Reading the reply\<close>

text \<open>\<open>{int(k): f(v) for k, v in d.items()}\<close>.\<close>

definition int_keys :: "('v \<Rightarrow> 'w result) \<Rightarrow> (string, 'v) dict \<Rightarrow> (int, 'w) dict result" where
  "int_keys f d =
     fold_res (\<lambda>(k, v) acc. case parse_int k of Inl e \<Rightarrow> Inl e
        | Inr i \<Rightarrow> (case f v of Inl e \<Rightarrow> Inl e | Inr w \<Rightarrow> Inr (dict_set i w acc))) d []"

definition read_workers :: "(string, (string, string) dict) dict \<Rightarrow> worker_table result" where
  "read_workers d = int_keys (int_keys Inr) d"

definition read_entry :: "string \<times> string \<times> (string, (string, string) dict) dict \<Rightarrow> bootstrap_entry" where
  "read_entry kv = (case kv of (_, engine, workers) \<Rightarrow>
     (case read_workers workers of Inl e \<Rightarrow> Inl e | Inr ws \<Rightarrow> Inr (engine, ws)))"

definition query_reply :: "registry \<Rightarrow> bootstrap_entry list" where
  "query_reply ws = map read_entry (bootstrap_query ws)"

section \<open>Registering\<close>

text \<open>
  What becomes of one POST: no connection, an answer of the server, or another exception, after the
  server has seen the request or not.
\<close>

datatype post = Not_Connected | Answered | Broken bool pyexc

datatype register_end = Registered | Rejected int string | Bootstrap_Unavailable | Register_Raised pyexc

text \<open>
  The loop of \<open>_register_worker\<close>, from attempt \<open>i\<close> on. Attempts without a connection do not reach the server;
  \<open>ws\<close> is the registry when one does.
\<close>

fun register_attempts ::
  "WorkerRegistration \<Rightarrow> (nat \<Rightarrow> post) \<Rightarrow> nat \<Rightarrow> nat \<Rightarrow> registry \<Rightarrow> registry \<times> register_end" where
  "register_attempts p posts i 0 ws = (ws, Bootstrap_Unavailable)"
| "register_attempts p posts i (Suc n) ws =
     (case posts i of
        Not_Connected \<Rightarrow> register_attempts p posts (Suc i) n ws
      | Broken seen e \<Rightarrow> ((if seen then fst (bootstrap_register p ws) else ws), Register_Raised e)
      | Answered \<Rightarrow> (case bootstrap_register p ws of
                      (ws', Http_Ok) \<Rightarrow> (ws', Registered)
                    | (ws', Http_Error c t) \<Rightarrow> (ws', Rejected c t)))"

definition register_worker :: "WorkerRegistration \<Rightarrow> (nat \<Rightarrow> post) \<Rightarrow> registry \<Rightarrow> registry \<times> register_end" where
  "register_worker p posts ws = register_attempts p posts 0 120 ws"

section \<open>Where the bootstrap runs\<close>

definition bootstrap_address :: "parallel_config \<Rightarrow> int \<Rightarrow> string \<times> int" where
  "bootstrap_address c port = ((if pl_local_engines_only c then ''127.0.0.1'' else pl_master_ip c), port)"

definition launch_bootstrap :: "bool \<Rightarrow> parallel_config \<Rightarrow> bool" where
  "launch_bootstrap local_first_rank c \<longleftrightarrow>
     local_first_rank \<and> (pl_local_engines_only c \<or> pl_data_parallel_index c = 0)"

text \<open>\<open>make_zmq_path(scheme, host, port)\<close> without IPv6 hosts.\<close>

definition make_path :: "string \<Rightarrow> string \<Rightarrow> int \<Rightarrow> string" where
  "make_path scheme host port = scheme @ ''://'' @ host @ '':'' @ int_str port"

definition registration_url :: "parallel_config \<Rightarrow> int \<Rightarrow> string" where
  "registration_url c port =
     (let (host, p) = bootstrap_address c port in make_path ''http'' host p @ ''/register'')"

section \<open>First come, first served\<close>

definition serve_all :: "WorkerRegistration list \<Rightarrow> registry \<Rightarrow> registry" where
  "serve_all ps ws = fold (\<lambda>p ws. fst (bootstrap_register p ws)) ps ws"

lemma serve_all_simps [simp]: "serve_all [] ws = ws" "serve_all (p # ps) ws = serve_all ps (fst (bootstrap_register p ws))"
  by (simp_all add: serve_all_def)

lemma serve_all_append: "serve_all (ps @ qs) ws = serve_all qs (serve_all ps ws)"
  by (simp add: serve_all_def)

definition engine_at :: "registry \<Rightarrow> int \<Rightarrow> string option" where
  "engine_at ws dp = map_option ee_engine_id (dict_get ws dp)"

definition addr_at :: "registry \<Rightarrow> int \<Rightarrow> int \<Rightarrow> int \<Rightarrow> string option" where
  "addr_at ws dp tp pp =
     (case dict_get ws dp of None \<Rightarrow> None
      | Some e \<Rightarrow> (case dict_get (ee_worker_addr e) tp of None \<Rightarrow> None | Some m \<Rightarrow> dict_get m pp))"

lemma register_engine:
  "engine_at (fst (bootstrap_register p ws)) dp =
     (case engine_at ws dp of Some e \<Rightarrow> Some e | None \<Rightarrow> if dp = wg_dp_rank p then Some (wg_engine_id p) else None)"
  by (auto simp: bootstrap_register_def engine_at_def Let_def dict_simps split: option.splits)

text \<open>A registration is accepted when its rank is free in an engine of its name, or already has its address.\<close>

definition acceptable :: "WorkerRegistration \<Rightarrow> registry \<Rightarrow> bool" where
  "acceptable p ws \<longleftrightarrow>
     engine_at ws (wg_dp_rank p) \<in> {None, Some (wg_engine_id p)} \<and>
     addr_at ws (wg_dp_rank p) (wg_tp_rank p) (wg_pp_rank p) \<in> {None, Some (wg_addr p)}"

lemma register_ok: "snd (bootstrap_register p ws) = Http_Ok \<longleftrightarrow> acceptable p ws"
  by (auto simp: bootstrap_register_def acceptable_def engine_at_def addr_at_def Let_def dict_simps split: option.splits)

lemma register_addr:
  "addr_at (fst (bootstrap_register p ws)) dp tp pp =
     (if acceptable p ws \<and> dp = wg_dp_rank p \<and> tp = wg_tp_rank p \<and> pp = wg_pp_rank p then Some (wg_addr p)
      else addr_at ws dp tp pp)"
  by (auto simp: bootstrap_register_def acceptable_def engine_at_def addr_at_def Let_def dict_simps split: option.splits)

lemma register_again:
  assumes "acceptable p ws" and "engine_at ws (wg_dp_rank p) \<noteq> None"
    and "addr_at ws (wg_dp_rank p) (wg_tp_rank p) (wg_pp_rank p) \<noteq> None"
  shows "fst (bootstrap_register p ws) = ws"
  using assms
  by (auto simp: bootstrap_register_def acceptable_def engine_at_def addr_at_def Let_def dict_setdefault_def split: option.splits)

lemma register_refused: "\<not> acceptable p ws \<Longrightarrow> fst (bootstrap_register p ws) = ws"
  by (auto simp: bootstrap_register_def acceptable_def engine_at_def addr_at_def Let_def dict_setdefault_def dict_simps
      split: option.splits)

lemma register_keeps:
  shows "engine_at ws dp = Some e \<Longrightarrow> engine_at (fst (bootstrap_register p ws)) dp = Some e"
    and "addr_at ws dp tp pp = Some a \<Longrightarrow> addr_at (fst (bootstrap_register p ws)) dp tp pp = Some a"
  by (auto simp: register_engine register_addr acceptable_def)

lemma serve_keeps:
  shows "engine_at ws dp = Some e \<Longrightarrow> engine_at (serve_all ps ws) dp = Some e"
    and "addr_at ws dp tp pp = Some a \<Longrightarrow> addr_at (serve_all ps ws) dp tp pp = Some a"
  by (induction ps arbitrary: ws) (simp_all add: register_keeps)

text \<open>
  Registrations are first come, first served, and can be repeated. Once the bootstrap has accepted a
  worker, its engine and its address stay what they are whatever is registered later, and the same
  registration is accepted again without an effect, so a worker may retry after a lost answer. A
  registration that is refused changes nothing and stays refused.
\<close>

theorem registry_first_wins:
  shows "case bootstrap_register p ws of (ws1, r) \<Rightarrow>
     (case r of
        Http_Ok \<Rightarrow> engine_at (serve_all qs ws1) (wg_dp_rank p) = Some (wg_engine_id p) \<and>
          addr_at (serve_all qs ws1) (wg_dp_rank p) (wg_tp_rank p) (wg_pp_rank p) = Some (wg_addr p) \<and>
          bootstrap_register p (serve_all qs ws1) = (serve_all qs ws1, Http_Ok)
      | Http_Error c t \<Rightarrow> ws1 = ws \<and> (\<exists>c' t'. bootstrap_register p (serve_all qs ws1) = (serve_all qs ws1, Http_Error c' t')))"
proof -
  obtain ws1 r where reg: "bootstrap_register p ws = (ws1, r)" by (cases "bootstrap_register p ws")
  define ws2 where "ws2 = serve_all qs ws1"
  have ok: "r = Http_Ok \<longleftrightarrow> acceptable p ws" using register_ok[of p ws] reg by simp
  have r2: "fst (bootstrap_register p ws2) = ws2 \<and> (snd (bootstrap_register p ws2) = Http_Ok \<longleftrightarrow> r = Http_Ok) \<and>
      (r = Http_Ok \<longrightarrow> engine_at ws2 (wg_dp_rank p) = Some (wg_engine_id p) \<and>
         addr_at ws2 (wg_dp_rank p) (wg_tp_rank p) (wg_pp_rank p) = Some (wg_addr p))"
  proof (cases "acceptable p ws")
    case True
    have "engine_at ws1 (wg_dp_rank p) = Some (wg_engine_id p)"
      "addr_at ws1 (wg_dp_rank p) (wg_tp_rank p) (wg_pp_rank p) = Some (wg_addr p)"
      using True register_engine[of p ws] register_addr[of p ws] reg by (auto simp: acceptable_def split: option.splits)
    then have at: "engine_at ws2 (wg_dp_rank p) = Some (wg_engine_id p)"
      "addr_at ws2 (wg_dp_rank p) (wg_tp_rank p) (wg_pp_rank p) = Some (wg_addr p)"
      unfolding ws2_def by (simp_all add: serve_keeps)
    then have "acceptable p ws2" by (simp add: acceptable_def)
    then show ?thesis using at True ok register_again[of p ws2] register_ok[of p ws2] by simp
  next
    case False
    have "ws1 = ws" using register_refused[OF False] reg by simp
    moreover from False obtain x where
      "engine_at ws (wg_dp_rank p) = Some x \<and> x \<noteq> wg_engine_id p \<or>
       addr_at ws (wg_dp_rank p) (wg_tp_rank p) (wg_pp_rank p) = Some x \<and> x \<noteq> wg_addr p"
      unfolding acceptable_def
      by (cases "engine_at ws (wg_dp_rank p)"; cases "addr_at ws (wg_dp_rank p) (wg_tp_rank p) (wg_pp_rank p)") auto
    ultimately have "engine_at ws2 (wg_dp_rank p) = Some x \<and> x \<noteq> wg_engine_id p \<or>
       addr_at ws2 (wg_dp_rank p) (wg_tp_rank p) (wg_pp_rank p) = Some x \<and> x \<noteq> wg_addr p"
      unfolding ws2_def using serve_keeps by blast
    then have "\<not> acceptable p ws2" by (auto simp: acceptable_def)
    then show ?thesis using False ok register_refused[of p ws2] register_ok[of p ws2] by simp
  qed
  show ?thesis
  proof (cases r)
    case Http_Ok
    then have "bootstrap_register p ws2 = (ws2, Http_Ok)" using r2 by (metis prod.collapse)
    then show ?thesis using r2 Http_Ok reg by (simp add: ws2_def)
  next
    case (Http_Error c t)
    then have "\<not> acceptable p ws" using ok by simp
    then have "ws1 = ws" using register_refused reg by force
    moreover obtain c' t' where "bootstrap_register p ws2 = (ws2, Http_Error c' t')"
      using r2 Http_Error by (metis http_reply.distinct(1) http_reply.exhaust prod.collapse)
    ultimately show ?thesis using Http_Error reg by (auto simp: ws2_def)
  qed
qed

text \<open>
  The retry loop ends after at most 120 attempts: it gives up only when none of them found the server,
  and otherwise ends with the first attempt that did.
\<close>

lemma register_attempts_spec:
  "register_attempts p posts i n ws =
     (case List.find (\<lambda>k. posts k \<noteq> Not_Connected) [i..<i + n] of
        None \<Rightarrow> (ws, Bootstrap_Unavailable)
      | Some k \<Rightarrow> register_attempts p posts k 1 ws)"
proof (induction n arbitrary: i)
  case (Suc n)
  have l: "[i..<Suc (i + n)] = i # [Suc i..<Suc (i + n)]" by (simp add: upt_rec)
  show ?case
  proof (cases "posts i")
    case Not_Connected
    then show ?thesis using Suc[of "Suc i"] l by (simp del: upt_Suc)
  qed (simp_all add: l del: upt_Suc)
qed simp

section \<open>What a query tells\<close>

definition registry_wf :: "registry \<Rightarrow> bool" where
  "registry_wf ws \<longleftrightarrow> dict_wf ws \<and>
     (\<forall>dp e. dict_get ws dp = Some e \<longrightarrow> dict_wf (ee_worker_addr e) \<and>
        (\<forall>tp m. dict_get (ee_worker_addr e) tp = Some m \<longrightarrow> m \<noteq> [] \<and> dict_wf m))"

lemma dict_set_new: "k \<notin> fst ` set d \<Longrightarrow> dict_set k v d = d @ [(k, v)]"
  unfolding dict_set_def by (induction d) auto

lemma read_dict:
  assumes "dict_wf d" and "\<And>k v. (k, v) \<in> set d \<Longrightarrow> f (g v) = Inr v"
  shows "int_keys f (map (\<lambda>(k, v). (int_str k, g v)) d) = Inr d"
proof -
  define F where "F = (\<lambda>(k, v) acc. case parse_int k of Inl e \<Rightarrow> Inl e
        | Inr i \<Rightarrow> (case f v of Inl e \<Rightarrow> Inl e | Inr w \<Rightarrow> Inr (dict_set i w acc)))"
  have "fold_res F (map (\<lambda>(k, v). (int_str k, g v)) d) acc = Inr (acc @ d)"
    if "distinct (map fst (acc @ d))" and "\<forall>(k, v) \<in> set d. f (g v) = Inr v" for acc
    using that
  proof (induction d arbitrary: acc)
    case (Cons kv d)
    obtain k v where kv: "kv = (k, v)" by (cases kv)
    have "k \<notin> fst ` set acc" using Cons(2) kv by auto
    then have "dict_set k v acc = acc @ [(k, v)]" by (rule dict_set_new)
    moreover have "f (g v) = Inr v" using Cons(3) kv by simp
    ultimately have "F (int_str k, g v) acc = Inr (acc @ [(k, v)])" by (simp add: F_def parse_int_str)
    then show ?case using Cons(1)[of "acc @ [(k, v)]"] Cons(2,3) kv by simp
  qed simp
  from this[of "[]"] show ?thesis using assms by (auto simp: int_keys_def dict_wf_def F_def)
qed

lemma read_workers_json:
  assumes "dict_wf d" and "\<And>tp m. dict_get d tp = Some m \<Longrightarrow> dict_wf m"
  shows "read_workers (json_workers d) = Inr d"
  unfolding read_workers_def json_workers_def
  by (rule read_dict) (use assms in \<open>auto intro!: read_dict[where g = "\<lambda>v. v"] dest: dict_in_get\<close>)

lemma read_query:
  assumes "registry_wf ws"
  shows "query_reply ws = map (\<lambda>(dp, e). Inr (ee_engine_id e, ee_worker_addr e)) ws"
proof -
  have "read_workers (json_workers (ee_worker_addr e)) = Inr (ee_worker_addr e)" if "(dp, e) \<in> set ws" for dp e
    using assms dict_in_get[OF _ that] by (auto simp: registry_wf_def intro: read_workers_json)
  then show ?thesis by (auto simp: query_reply_def bootstrap_query_def read_entry_def)
qed

lemma dict_wf_set: "dict_wf d \<Longrightarrow> dict_wf (dict_set k v d)"
  by (simp add: dict_wf_def dict_set_def distinct_update)

lemma dict_wf_default: "dict_wf d \<Longrightarrow> dict_wf (dict_setdefault k v d)"
  by (simp add: dict_setdefault_def dict_wf_set split: option.splits)

lemma dict_set_not_empty: "dict_set k v d \<noteq> []"
  by (cases d) (auto simp: dict_set_def)

lemma registry_wf_register: "registry_wf ws \<Longrightarrow> registry_wf (fst (bootstrap_register p ws))"
  by (cases "acceptable p ws")
     (auto simp: bootstrap_register_def acceptable_def engine_at_def addr_at_def registry_wf_def Let_def dict_simps dict_wf_set
        dict_wf_default dict_set_not_empty dict_wf_def[of "[]"] register_refused split: option.splits if_splits)

lemma registry_wf_serve: "registry_wf ws \<Longrightarrow> registry_wf (serve_all ps ws)"
  by (induction ps arbitrary: ws) (simp_all add: registry_wf_register)

lemma registry_wf_empty: "registry_wf []"
  by (simp add: registry_wf_def dict_wf_def dict_simps)

lemma serve_only:
  shows "engine_at (serve_all ps ws) dp = Some e \<Longrightarrow>
      engine_at ws dp = Some e \<or> (\<exists>p \<in> set ps. dp = wg_dp_rank p \<and> e = wg_engine_id p)"
    and "addr_at (serve_all ps ws) dp tp pp = Some a \<Longrightarrow>
      addr_at ws dp tp pp = Some a \<or>
      (\<exists>p \<in> set ps. dp = wg_dp_rank p \<and> tp = wg_tp_rank p \<and> pp = wg_pp_rank p \<and> a = wg_addr p)"
proof (induction ps arbitrary: ws)
  case (Cons p ps)
  {
    case 1
    then have "engine_at (serve_all ps (fst (bootstrap_register p ws))) dp = Some e" by simp
    from Cons(1)[OF this] show ?case by (auto simp: register_engine split: option.splits if_splits)
  next
    case 2
    then have "addr_at (serve_all ps (fst (bootstrap_register p ws))) dp tp pp = Some a" by simp
    from Cons(2)[OF this] show ?case by (auto simp: register_addr split: if_splits)
  }
qed simp_all

text \<open>Registrations that do not contradict each other: one engine a DP rank, one address a worker.\<close>

definition agreeing :: "WorkerRegistration set \<Rightarrow> bool" where
  "agreeing P \<longleftrightarrow> (\<forall>p \<in> P. \<forall>q \<in> P. wg_dp_rank p = wg_dp_rank q \<longrightarrow>
     wg_engine_id p = wg_engine_id q \<and>
     (wg_tp_rank p = wg_tp_rank q \<longrightarrow> wg_pp_rank p = wg_pp_rank q \<longrightarrow> wg_addr p = wg_addr q))"

lemma agreeingD:
  assumes "agreeing P" and "p \<in> P" "q \<in> P" "wg_dp_rank p = wg_dp_rank q"
  shows "wg_engine_id p = wg_engine_id q"
    and "wg_tp_rank p = wg_tp_rank q \<Longrightarrow> wg_pp_rank p = wg_pp_rank q \<Longrightarrow> wg_addr p = wg_addr q"
  using assms unfolding agreeing_def by blast+

lemma nothing_at: "engine_at [] dp = None" "addr_at [] dp tp pp = None"
  by (simp_all add: engine_at_def addr_at_def dict_simps)

lemmas served_only = serve_only[of _ "[]", unfolded nothing_at, simplified]

lemma serve_agreeing:
  assumes "agreeing (set ps)" and "p \<in> set ps"
  shows "engine_at (serve_all ps []) (wg_dp_rank p) = Some (wg_engine_id p)"
    and "addr_at (serve_all ps []) (wg_dp_rank p) (wg_tp_rank p) (wg_pp_rank p) = Some (wg_addr p)"
proof -
  obtain us vs where ps: "ps = us @ p # vs" using split_list[OF assms(2)] by blast
  define ws where "ws = serve_all us []"
  have e: "engine_at ws (wg_dp_rank p) \<in> {None, Some (wg_engine_id p)}"
  proof (cases "engine_at ws (wg_dp_rank p)")
    case (Some e)
    obtain q where "q \<in> set ps" "wg_dp_rank p = wg_dp_rank q" "e = wg_engine_id q"
      using serve_only(1)[OF Some[unfolded ws_def]] nothing_at ps by auto
    then show ?thesis using Some agreeingD(1)[OF assms(1,2)] by simp
  qed simp
  have a: "addr_at ws (wg_dp_rank p) (wg_tp_rank p) (wg_pp_rank p) \<in> {None, Some (wg_addr p)}"
  proof (cases "addr_at ws (wg_dp_rank p) (wg_tp_rank p) (wg_pp_rank p)")
    case (Some a)
    obtain q where "q \<in> set ps" "wg_dp_rank p = wg_dp_rank q" "wg_tp_rank p = wg_tp_rank q" "wg_pp_rank p = wg_pp_rank q"
      "a = wg_addr q"
      using serve_only(2)[OF Some[unfolded ws_def]] nothing_at ps by auto
    then show ?thesis using Some agreeingD(2)[OF assms(1,2)] by simp
  qed simp
  have acc: "acceptable p ws" using e a unfolding acceptable_def by blast
  have all: "serve_all ps [] = serve_all vs (fst (bootstrap_register p ws))" by (simp add: ps serve_all_append ws_def)
  have "engine_at (fst (bootstrap_register p ws)) (wg_dp_rank p) = Some (wg_engine_id p)"
    using e by (auto simp: register_engine)
  then show "engine_at (serve_all ps []) (wg_dp_rank p) = Some (wg_engine_id p)"
    unfolding all by (rule serve_keeps)
  have "addr_at (fst (bootstrap_register p ws)) (wg_dp_rank p) (wg_tp_rank p) (wg_pp_rank p) = Some (wg_addr p)"
    using acc by (simp add: register_addr)
  then show "addr_at (serve_all ps []) (wg_dp_rank p) (wg_tp_rank p) (wg_pp_rank p) = Some (wg_addr p)"
    unfolding all by (rule serve_keeps)
qed

section \<open>From the bootstrap to the receiver\<close>

text \<open>A producer: an engine of \<open>pr_size\<close> tensor-parallel workers, each with the address of its listener.\<close>

record producer =
  pr_engine :: string
  pr_dp_rank :: int
  pr_size :: nat
  pr_addr :: "nat \<Rightarrow> string"

definition producer_regs :: "producer \<Rightarrow> WorkerRegistration list" where
  "producer_regs P = map (\<lambda>r. \<lparr>wg_engine_id = pr_engine P, wg_dp_rank = pr_dp_rank P, wg_tp_rank = int r, wg_pp_rank = 0,
     wg_addr = pr_addr P r\<rparr>) [0..<pr_size P]"

lemma in_producer_regs:
  "p \<in> set (producer_regs P) \<longleftrightarrow>
     (\<exists>r < pr_size P. p = \<lparr>wg_engine_id = pr_engine P, wg_dp_rank = pr_dp_rank P, wg_tp_rank = int r, wg_pp_rank = 0,
        wg_addr = pr_addr P r\<rparr>)"
  by (auto simp: producer_regs_def)

lemma sorted_keys: "dict_wf d \<Longrightarrow> set (dict_keys d) = int ` {0..<n} \<Longrightarrow> sort (dict_keys d) = [0..int (length d) - 1]"
proof -
  assume w: "dict_wf d" and k: "set (dict_keys d) = int ` {0..<n}"
  have "length d = card (set (dict_keys d))" using w by (simp add: dict_keys_def dict_wf_def distinct_card[of "map fst d", simplified])
  then have "length d = n" unfolding k by (simp add: card_image)
  moreover have "int ` {0..<n} = {0..int n - 1}" unfolding image_int_atLeastLessThan by auto
  ultimately show ?thesis using w k
    by (intro sorted_distinct_set_unique) (auto simp: dict_keys_def dict_wf_def)
qed

text \<open>\<open>ps\<close> are the registrations of the producers \<open>Ps\<close>, in any order and possibly repeated.\<close>

definition registrations_of :: "producer list \<Rightarrow> WorkerRegistration list \<Rightarrow> bool" where
  "registrations_of Ps ps \<longleftrightarrow>
     set ps = set (concat (map producer_regs Ps)) \<and> distinct (map pr_dp_rank Ps) \<and> distinct (map pr_engine Ps) \<and>
     list_all (\<lambda>P. 0 < pr_size P) Ps"

lemma same_producer:
  "registrations_of Ps ps \<Longrightarrow> P \<in> set Ps \<Longrightarrow> Q \<in> set Ps \<Longrightarrow> pr_dp_rank P = pr_dp_rank Q \<Longrightarrow> P = Q"
  unfolding registrations_of_def distinct_map by (blast dest: inj_onD)

lemma registration_of:
  assumes "registrations_of Ps ps" and "p \<in> set ps"
  obtains P r where "P \<in> set Ps" "r < pr_size P" "wg_dp_rank p = pr_dp_rank P" "wg_engine_id p = pr_engine P"
    "wg_tp_rank p = int r" "wg_pp_rank p = 0" "wg_addr p = pr_addr P r"
proof -
  obtain P where "P \<in> set Ps" "p \<in> set (producer_regs P)" using assms unfolding registrations_of_def by auto
  then show ?thesis using that[of P] by (auto simp: in_producer_regs)
qed

lemma registrations_agree: "registrations_of Ps ps \<Longrightarrow> agreeing (set ps)"
proof -
  assume reg: "registrations_of Ps ps"
  have "wg_engine_id p = wg_engine_id q \<and>
      (wg_tp_rank p = wg_tp_rank q \<longrightarrow> wg_pp_rank p = wg_pp_rank q \<longrightarrow> wg_addr p = wg_addr q)"
    if "p \<in> set ps" "q \<in> set ps" "wg_dp_rank p = wg_dp_rank q" for p q
  proof -
    obtain P r where p: "P \<in> set Ps" "wg_dp_rank p = pr_dp_rank P" "wg_engine_id p = pr_engine P" "wg_tp_rank p = int r"
      "wg_addr p = pr_addr P r" using registration_of[OF reg \<open>p \<in> set ps\<close>] by metis
    obtain Q r' where q: "Q \<in> set Ps" "wg_dp_rank q = pr_dp_rank Q" "wg_engine_id q = pr_engine Q" "wg_tp_rank q = int r'"
      "wg_addr q = pr_addr Q r'" using registration_of[OF reg \<open>q \<in> set ps\<close>] by metis
    have "P = Q" using same_producer[OF reg p(1) q(1)] p(2) q(2) that(3) by simp
    then show ?thesis using p q by simp
  qed
  then show ?thesis unfolding agreeing_def by blast
qed

text \<open>What the registry says of one engine.\<close>

definition describes :: "engine_entry \<Rightarrow> producer \<Rightarrow> bool" where
  "describes e P \<longleftrightarrow> ee_engine_id e = pr_engine P \<and> length (ee_worker_addr e) = pr_size P \<and>
     sort (dict_keys (ee_worker_addr e)) = [0..int (pr_size P) - 1] \<and>
     list_all (\<lambda>(_, pp_map). sort (dict_keys pp_map) = [0]) (ee_worker_addr e) \<and>
     (\<forall>r < pr_size P. \<exists>m. dict_get (ee_worker_addr e) (int r) = Some m \<and> dict_get m 0 = Some (pr_addr P r))"

lemma addr_at_split: "addr_at ws dp tp pp = Some a \<longleftrightarrow>
   (\<exists>e m. dict_get ws dp = Some e \<and> dict_get (ee_worker_addr e) tp = Some m \<and> dict_get m pp = Some a)"
  by (auto simp: addr_at_def split: option.splits)

lemma registry_describes:
  assumes reg: "registrations_of Ps ps" and e: "dict_get (serve_all ps []) dp = Some e" and P: "P \<in> set Ps" "dp = pr_dp_rank P"
  shows "describes e P"
proof -
  define ws where "ws = serve_all ps []"
  note agree = serve_agreeing[OF registrations_agree[OF reg]]
  have wf: "registry_wf ws" unfolding ws_def by (rule registry_wf_serve[OF registry_wf_empty])
  define t where "t = ee_worker_addr e"
  have tw: "dict_wf t" and mw: "\<And>tp m. dict_get t tp = Some m \<Longrightarrow> m \<noteq> [] \<and> dict_wf m"
    using wf e unfolding registry_wf_def t_def ws_def by blast+
  have only: "\<exists>r < pr_size P. tp = int r \<and> pp = 0" if "dict_get t tp = Some m" "dict_get m pp = Some a" for tp m pp a
  proof -
    have "addr_at ws dp tp pp = Some a" using that e unfolding addr_at_split t_def ws_def by blast
    then obtain p where "p \<in> set ps" "dp = wg_dp_rank p" "tp = wg_tp_rank p" "pp = wg_pp_rank p"
      using served_only(2) unfolding ws_def by blast
    then show ?thesis using registration_of[OF reg] same_producer[OF reg] P by metis
  qed
  have at: "\<exists>m. dict_get t (int r) = Some m \<and> dict_get m 0 = Some (pr_addr P r)" if r: "r < pr_size P" for r
  proof -
    define p where "p = \<lparr>wg_engine_id = pr_engine P, wg_dp_rank = pr_dp_rank P, wg_tp_rank = int r, wg_pp_rank = 0, wg_addr = pr_addr P r\<rparr>"
    have "p \<in> set (producer_regs P)" using r by (auto simp: in_producer_regs p_def)
    then have "p \<in> set ps" using reg P(1) unfolding registrations_of_def by auto
    from agree(2)[OF this] show ?thesis using e P(2) unfolding addr_at_split t_def by (auto simp: p_def)
  qed
  have keys: "set (dict_keys t) = int ` {0..<pr_size P}"
  proof (intro equalityI subsetI)
    fix tp assume "tp \<in> set (dict_keys t)"
    then obtain m where m: "dict_get t tp = Some m" unfolding dict_has_iff[symmetric] by (auto simp: dict_has_def)
    obtain pp a m' where "m = (pp, a) # m'" using mw[OF m] by (cases m) auto
    then have "dict_get m pp = Some a" by (simp add: dict_get_def)
    from only[OF m this] show "tp \<in> int ` {0..<pr_size P}" by auto
  next
    fix tp assume "tp \<in> int ` {0..<pr_size P}"
    then obtain r where "tp = int r" "r < pr_size P" by auto
    then show "tp \<in> set (dict_keys t)" using at[of r] unfolding dict_has_iff[symmetric] by (auto simp: dict_has_def)
  qed
  note sk = sorted_keys[OF tw keys]
  have len: "length t = pr_size P"
  proof -
    have "length t = card (set (dict_keys t))" using tw by (simp add: dict_keys_def dict_wf_def distinct_card[of "map fst t", simplified])
    then show ?thesis unfolding keys by (simp add: card_image)
  qed
  have pps: "sort (dict_keys m) = [0]" if "(tp, m) \<in> set t" for tp m
  proof -
    have m: "dict_get t tp = Some m" by (rule dict_in_get[OF tw that])
    have "pp = 0" if "pp \<in> set (dict_keys m)" for pp
      using that only[OF m] unfolding dict_has_iff[symmetric] by (auto simp: dict_has_def)
    moreover have "dict_keys m \<noteq> []" "distinct (dict_keys m)"
      using mw[OF m] by (auto simp: dict_keys_def dict_wf_def)
    ultimately have "set (dict_keys m) = int ` {0..<1}" by (cases "dict_keys m") auto
    moreover from this have "length m = 1"
      using \<open>distinct (dict_keys m)\<close> distinct_card[of "dict_keys m"] by (simp add: dict_keys_def)
    ultimately show ?thesis using sorted_keys[of m 1] mw[OF m] by simp
  qed
  have "engine_at ws dp = Some (ee_engine_id e)" using e by (simp add: engine_at_def ws_def)
  then obtain p where "p \<in> set ps" "dp = wg_dp_rank p" "ee_engine_id e = wg_engine_id p"
    using served_only(1) unfolding ws_def by blast
  then have "ee_engine_id e = pr_engine P" using registration_of[OF reg] same_producer[OF reg] P by metis
  then show ?thesis using sk len pps at unfolding describes_def t_def[symmetric] list_all_iff by auto
qed

lemma store_described:
  assumes "describes e P" and "0 < pr_size P"
  shows "store_entry (Inr (ee_engine_id e, ee_worker_addr e)) s =
    Inr (s\<lparr>rv_agents := dict_set (pr_engine P) (ee_worker_addr e) (rv_agents s),
           rv_tp_size := dict_set (pr_engine P) (int (pr_size P)) (rv_tp_size s)\<rparr>)"
proof -
  have "ee_worker_addr e \<noteq> []" using assms unfolding describes_def by auto
  moreover have "\<not> list_ex (\<lambda>(_, pp_map). sort (dict_keys pp_map) \<noteq> [0]) (ee_worker_addr e)"
    using assms(1) unfolding describes_def list_all_iff list_ex_iff by auto
  ultimately show ?thesis using assms(1) unfolding describes_def by (simp add: store_entry_def)
qed

text \<open>What the receiver keeps of a whole reply.\<close>

definition learn :: "registry \<Rightarrow> receiver \<Rightarrow> receiver" where
  "learn ws s = store_entries (map (\<lambda>(dp, e). Inr (ee_engine_id e, ee_worker_addr e)) ws) s"

definition knows :: "receiver \<Rightarrow> engine_entry \<Rightarrow> bool" where
  "knows s e \<longleftrightarrow> dict_get (rv_agents s) (ee_engine_id e) = Some (ee_worker_addr e) \<and>
     dict_get (rv_tp_size s) (ee_engine_id e) = Some (int (length (ee_worker_addr e)))"

definition engine_ids :: "registry \<Rightarrow> string list" where
  "engine_ids ws = map (ee_engine_id \<circ> snd) ws"

lemma learn_all:
  assumes "\<forall>(dp, e) \<in> set ws. \<exists>P \<in> set Ps. describes e P \<and> 0 < pr_size P" and "distinct (engine_ids ws)"
  shows "(\<forall>(dp, e) \<in> set ws. knows (learn ws s) e) \<and>
    (\<forall>x. x \<notin> set (engine_ids ws) \<longrightarrow> dict_get (rv_agents (learn ws s)) x = dict_get (rv_agents s) x \<and>
      dict_get (rv_tp_size (learn ws s)) x = dict_get (rv_tp_size s) x)"
  using assms
proof (induction ws arbitrary: s)
  case (Cons de ws)
  obtain dp e where de: "de = (dp, e)" by (cases de)
  obtain P where P: "describes e P" "0 < pr_size P" using Cons(2) de by auto
  define s1 where "s1 = s\<lparr>rv_agents := dict_set (pr_engine P) (ee_worker_addr e) (rv_agents s),
           rv_tp_size := dict_set (pr_engine P) (int (pr_size P)) (rv_tp_size s)\<rparr>"
  have st: "learn (de # ws) s = learn ws s1" using store_described[OF P, of s] by (simp add: learn_def de s1_def)
  have id: "ee_engine_id e = pr_engine P" "length (ee_worker_addr e) = pr_size P" using P(1) by (simp_all add: describes_def)
  have new: "ee_engine_id e \<notin> set (engine_ids ws)" "distinct (engine_ids ws)" using Cons(3) de by (simp_all add: engine_ids_def)
  have IH: "(\<forall>(dp, e) \<in> set ws. knows (learn ws s1) e) \<and>
    (\<forall>x. x \<notin> set (engine_ids ws) \<longrightarrow> dict_get (rv_agents (learn ws s1)) x = dict_get (rv_agents s1) x \<and>
      dict_get (rv_tp_size (learn ws s1)) x = dict_get (rv_tp_size s1) x)"
    by (rule Cons(1)[OF _ new(2)]) (use Cons(2) in auto)
  then have "knows (learn ws s1) e" using new(1) id by (simp add: knows_def s1_def dict_simps)
  then show ?case unfolding st using IH id by (auto simp: de engine_ids_def s1_def dict_simps)
qed (simp add: learn_def)

lemma registry_producer:
  assumes "registrations_of Ps ps" and "(dp, e) \<in> set (serve_all ps [])"
  obtains P where "P \<in> set Ps" "dp = pr_dp_rank P" "describes e P" "0 < pr_size P"
proof -
  have e: "dict_get (serve_all ps []) dp = Some e"
    using registry_wf_serve[OF registry_wf_empty, of ps] assms(2) by (auto simp: registry_wf_def intro: dict_in_get)
  then have "engine_at (serve_all ps []) dp = Some (ee_engine_id e)" by (simp add: engine_at_def)
  then obtain p where "p \<in> set ps" "dp = wg_dp_rank p" using served_only(1) by blast
  then obtain P where P: "P \<in> set Ps" "dp = pr_dp_rank P" using registration_of[OF assms(1)] by metis
  moreover have "0 < pr_size P" using assms(1) P(1) by (simp add: registrations_of_def list_all_iff)
  ultimately show ?thesis using that registry_describes[OF assms(1) e] by blast
qed

lemma registry_engines_distinct:
  assumes reg: "registrations_of Ps ps"
  shows "distinct (engine_ids (serve_all ps []))"
proof -
  define ws where "ws = serve_all ps []"
  have wf: "dict_wf ws" unfolding ws_def using registry_wf_serve[OF registry_wf_empty] by (simp add: registry_wf_def)
  have "x = y" if x: "x \<in> set ws" and y: "y \<in> set ws" and id: "ee_engine_id (snd x) = ee_engine_id (snd y)" for x y
  proof -
    obtain dp e dp' e' where xy: "x = (dp, e)" "y = (dp', e')" by (cases x, cases y)
    obtain P where P: "P \<in> set Ps" "dp = pr_dp_rank P" "describes e P" using registry_producer[OF reg] x xy ws_def by metis
    obtain Q where Q: "Q \<in> set Ps" "dp' = pr_dp_rank Q" "describes e' Q" using registry_producer[OF reg] y xy ws_def by metis
    have "P = Q" using P Q id xy reg unfolding registrations_of_def distinct_map describes_def by (auto dest: inj_onD)
    then have "dp = dp'" using P(2) Q(2) by simp
    then show ?thesis using dict_in_get[OF wf] x y xy by (metis option.inject)
  qed
  then show ?thesis using wf unfolding ws_def[symmetric] engine_ids_def distinct_map dict_wf_def by (auto intro!: inj_onI)
qed

lemma query_finds:
  assumes reg: "registrations_of Ps ps" and P: "P \<in> set Ps"
  shows "let s' = connect_to_prefiller_bootstrap addr (Inr (query_reply (serve_all ps []))) s
    in dict_get (rv_tp_size s') (pr_engine P) = Some (int (pr_size P)) \<and>
       (\<forall>r < pr_size P. worker_addr (pr_engine P) (int r) s' = Inr (pr_addr P r)) \<and>
       \<not> dict_has (rv_pending s') addr"
proof -
  define ws where "ws = serve_all ps []"
  define s' where "s' = connect_to_prefiller_bootstrap addr (Inr (query_reply ws)) s"
  have reply: "query_reply ws = map (\<lambda>(dp, e). Inr (ee_engine_id e, ee_worker_addr e)) ws"
    unfolding ws_def by (rule read_query[OF registry_wf_serve[OF registry_wf_empty]])
  have s': "rv_agents s' = rv_agents (learn ws s)" "rv_tp_size s' = rv_tp_size (learn ws s)" "\<not> dict_has (rv_pending s') addr"
    by (simp_all add: s'_def connect_to_prefiller_bootstrap_def Let_def reply learn_def dict_simps)
  define p where "p = \<lparr>wg_engine_id = pr_engine P, wg_dp_rank = pr_dp_rank P, wg_tp_rank = 0, wg_pp_rank = 0, wg_addr = pr_addr P 0\<rparr>"
  have "0 < pr_size P" using reg P by (simp add: registrations_of_def list_all_iff)
  then have "p \<in> set (producer_regs P)" by (force simp: in_producer_regs p_def)
  then have "p \<in> set ps" using reg P unfolding registrations_of_def by auto
  from serve_agreeing(1)[OF registrations_agree[OF reg] this] obtain e where e: "dict_get ws (pr_dp_rank P) = Some e"
    by (auto simp: engine_at_def ws_def p_def)
  have d: "describes e P" using registry_describes[OF reg e[unfolded ws_def] P refl] .
  have "\<forall>(dp, e) \<in> set ws. \<exists>P \<in> set Ps. describes e P \<and> 0 < pr_size P"
    unfolding ws_def by (blast elim: registry_producer[OF reg])
  from learn_all[OF this registry_engines_distinct[OF reg, folded ws_def], of s] dict_get_Some_in[OF e]
  have "knows (learn ws s) e" by blast
  then show ?thesis using d unfolding ws_def[symmetric] s'_def[symmetric] knows_def describes_def
    by (auto simp: Let_def s' worker_addr_def)
qed

text \<open>
  A query finds every complete producer. Whatever the order in which the workers registered, and
  however often, a receiver that asks the bootstrap when the workers of all its engines have registered
  records for each engine its tensor-parallel size and for each of its ranks the address the worker
  registered, and the query is no longer pending.
\<close>

theorem complete_engines_found:
  assumes "registrations_of Ps ps" and "P \<in> set Ps"
  shows "let s' = connect_to_prefiller_bootstrap addr (Inr (query_reply (serve_all ps []))) s
    in dict_get (rv_tp_size s') (pr_engine P) = Some (int (pr_size P)) \<and>
       (\<forall>r < pr_size P. worker_addr (pr_engine P) (int r) s' = Inr (pr_addr P r)) \<and>
       \<not> dict_has (rv_pending s') addr"
  using assms by (rule query_finds)

section \<open>Engines that are still starting\<close>

lemma spawn_pulls_frame:
  "rv_queries (fst (spawn_pulls engine g ranks s)) = rv_queries s \<and> rv_agents (fst (spawn_pulls engine g ranks s)) = rv_agents s \<and>
   rv_tp_size (fst (spawn_pulls engine g ranks s)) = rv_tp_size s"
  by (induction engine g ranks s rule: spawn_pulls.induct) (simp_all split: sum.splits)

lemma receive_kv_frame:
  "rv_queries (fst (receive_kv cfg engine g s)) = rv_queries s \<and> rv_agents (fst (receive_kv cfg engine g s)) = rv_agents s \<and>
   rv_tp_size (fst (receive_kv cfg engine g s)) = rv_tp_size s"
  by (auto simp: receive_kv_def Let_def spawn_pulls_frame split: option.splits sum.splits)

lemma start_load_known:
  "list_all (\<lambda>(engine, g). dict_has (rv_agents s) engine) egs \<Longrightarrow>
   rv_queries (fst (start_load_kv cfg egs s)) = rv_queries s \<and> rv_agents (fst (start_load_kv cfg egs s)) = rv_agents s \<and>
   rv_tp_size (fst (start_load_kv cfg egs s)) = rv_tp_size s"
proof (induction cfg egs s rule: start_load_kv.induct)
  case (2 cfg engine g rest s)
  obtain s' r where rk: "receive_kv cfg engine g s = (s', r)" by (cases "receive_kv cfg engine g s")
  show ?case using 2(2)[OF _ rk[symmetric]] 2(3) receive_kv_frame[of cfg engine g s] rk by (cases r) auto
qed simp

lemma admit_frame:
  "rv_queries (fold admit evs s) = rv_queries s \<and> rv_agents (fold admit evs s) = rv_agents s \<and>
   rv_tp_size (fold admit evs s) = rv_tp_size s"
  by (induction evs arbitrary: s) (simp_all add: admit_def)

lemma pull_engines:
  "list_all (\<lambda>ev. re_remote_engine_id ev = engine) evs \<Longrightarrow> set (map fst d) \<subseteq> {engine} \<Longrightarrow>
   set (map fst (fold add_pull_meta evs d)) \<subseteq> {engine}"
proof (induction evs arbitrary: d)
  case (Cons ev evs)
  have "set (map fst (add_pull_meta ev d)) \<subseteq> {engine}"
    using Cons(2,3) by (auto simp: add_pull_meta_def dict_set_def dom_update)
  then show ?case using Cons(1)[of "add_pull_meta ev d"] Cons(2) by simp
qed simp

lemma start_receive_known:
  assumes "list_all (\<lambda>ev. re_remote_engine_id ev = engine) evs" and "dict_has (rv_agents s) engine"
  shows "rv_queries (fst (start_receive cfg evs s)) = rv_queries s \<and> rv_tp_size (fst (start_receive cfg evs s)) = rv_tp_size s"
proof -
  have e: "set (map fst (fold add_pull_meta evs [])) \<subseteq> {engine}" by (rule pull_engines[OF assms(1)]) simp
  define s1 where "s1 = (fold admit evs s)\<lparr>rv_groups := rv_groups (fold admit evs s) @ map snd (fold add_pull_meta evs [])\<rparr>"
  define egs where "egs = zip (map fst (fold add_pull_meta evs []))
    [length (rv_groups s)..<length (rv_groups s) + length (fold add_pull_meta evs [])]"
  have f: "rv_queries s1 = rv_queries s" "rv_agents s1 = rv_agents s" "rv_tp_size s1 = rv_tp_size s"
    by (simp_all add: s1_def admit_frame)
  have "x = engine" if "(x, g) \<in> set egs" for x g using e set_zip_leftD[OF that[unfolded egs_def]] by blast
  then have "list_all (\<lambda>(engine, g). dict_has (rv_agents s1) engine) egs"
    unfolding list_all_iff f using assms(2) by auto
  from start_load_known[OF this, of cfg] f
  have "rv_queries (fst (start_load_kv cfg egs s1)) = rv_queries s" "rv_tp_size (fst (start_load_kv cfg egs s1)) = rv_tp_size s"
    by simp_all
  then show ?thesis by (simp add: start_receive_def Let_def egs_def[symmetric] s1_def[symmetric] split: sum.splits)
qed

text \<open>
  C36: the check for a complete registration is too weak. A receiver that asks while only the first \<open>k\<close>
  workers of an engine have registered takes the engine for one of tensor-parallel size \<open>k\<close>, not of
  its own size; the receives it then starts on that engine ask the bootstrap no more, and run with
  that size.
\<close>

theorem partial_engine_accepted:
  assumes k: "0 < k" "k < pr_size P" and evs: "list_all (\<lambda>ev. re_remote_engine_id ev = pr_engine P) evs"
  shows "let asked = connect_to_prefiller_bootstrap addr (Inr (query_reply (serve_all (take k (producer_regs P)) []))) s;
       started = fst (start_receive cfg evs asked)
    in dict_get (rv_tp_size asked) (pr_engine P) = Some (int k) \<and>
       rv_queries started = rv_queries asked \<and> dict_get (rv_tp_size started) (pr_engine P) = Some (int k) \<and>
       dict_get (rv_tp_size (connect_to_prefiller_bootstrap addr (Inr (query_reply (serve_all (producer_regs P) []))) s))
         (pr_engine P) = Some (int (pr_size P))"
proof -
  define asked where "asked = connect_to_prefiller_bootstrap addr (Inr (query_reply (serve_all (take k (producer_regs P)) []))) s"
  have "take k (producer_regs P) = producer_regs (P\<lparr>pr_size := k\<rparr>)" using k(2) by (simp add: producer_regs_def take_map)
  then have "registrations_of [P\<lparr>pr_size := k\<rparr>] (take k (producer_regs P))" using k(1) by (simp add: registrations_of_def)
  from query_finds[OF this, of "P\<lparr>pr_size := k\<rparr>" addr s]
  have a: "dict_get (rv_tp_size asked) (pr_engine P) = Some (int k)"
    and w: "\<forall>r < k. worker_addr (pr_engine P) (int r) asked = Inr (pr_addr P r)"
    by (simp_all add: asked_def Let_def)
  from w[rule_format, OF k(1)] have has: "dict_has (rv_agents asked) (pr_engine P)"
    by (auto simp: worker_addr_def dict_has_def split: option.splits)
  have "registrations_of [P] (producer_regs P)" using k by (simp add: registrations_of_def)
  from query_finds[OF this, of P addr s]
  have "dict_get (rv_tp_size (connect_to_prefiller_bootstrap addr (Inr (query_reply (serve_all (producer_regs P) []))) s))
         (pr_engine P) = Some (int (pr_size P))" by (simp add: Let_def)
  then show ?thesis using a start_receive_known[OF evs has, of cfg] by (simp add: asked_def[symmetric] Let_def)
qed

lemma fail_group_failed:
  assumes "list_all (\<lambda>(_, m). dict_has (rv_recv_events s) (pm_d_req_id m)) metas" and "x \<in> rv_failed s \<or>
     (\<exists>rid m ev. (rid, m) \<in> set metas \<and> dict_get (rv_recv_events s) (pm_d_req_id m) = Some ev \<and> re_request_id ev = x)"
  shows "x \<in> rv_failed (fail_group metas s)"
  using assms
proof (induction metas arbitrary: s)
  case (Cons rm metas)
  obtain rid m where rm: "rm = (rid, m)" by (cases rm)
  obtain ev where ev: "dict_get (rv_recv_events s) (pm_d_req_id m) = Some ev" using Cons(2) rm by (auto simp: dict_has_def)
  define s1 where "s1 = finish_receive ev True (pm_d_req_id m) s"
  have s1: "rv_recv_events s1 = rv_recv_events s" "rv_failed s1 = insert (re_request_id ev) (rv_failed s)"
    by (simp_all add: s1_def finish_receive_def Let_def)
  have "x \<in> rv_failed (fail_group metas s1)"
    by (rule Cons(1)) (use Cons(2,3) rm ev in \<open>auto simp: s1\<close>)
  then show ?case by (simp add: rm ev s1_def)
qed simp

text \<open>
  C37: an engine that is still starting hides the others. When the first engine in the registry has not
  all of its first ranks, the query ends there: a complete engine after it stays unknown, and the
  receives that waited for this query on it are reported as failed.
\<close>

theorem incomplete_engine_hides_others:
  assumes wf: "registry_wf ((dp, e) # rest)" and e: "sort (dict_keys (ee_worker_addr e)) \<noteq> [0..int (length (ee_worker_addr e)) - 1]"
    and q: "query_in i s = Some (Query_Asking addr)" "\<not> dict_has (rv_agents s) (eq_engine (rv_queries s ! i))"
    and m: "list_all (\<lambda>(_, m). dict_has (rv_recv_events s) (pm_d_req_id m)) (rv_groups s ! eq_group (rv_queries s ! i))"
      "(rid, m) \<in> set (rv_groups s ! eq_group (rv_queries s ! i))" "dict_get (rv_recv_events s) (pm_d_req_id m) = Some ev"
  shows "let s' = net_step cfg (Query_Reply i (Inr (query_reply ((dp, e) # rest)))) s
    in rv_agents s' = rv_agents s \<and> re_request_id ev \<in> rv_failed s' \<and> query_in i s' = Some Query_Over"
proof -
  define s1 where "s1 = connect_to_prefiller_bootstrap addr (Inr (query_reply ((dp, e) # rest))) s"
  have "store_entries (query_reply ((dp, e) # rest)) s = s" using e by (simp add: read_query[OF wf] store_entry_def)
  then have s1: "rv_agents s1 = rv_agents s" "rv_queries s1 = rv_queries s" "rv_groups s1 = rv_groups s"
    "rv_recv_events s1 = rv_recv_events s" by (simp_all add: s1_def connect_to_prefiller_bootstrap_def Let_def)
  have frame: "rv_agents (fail_group metas t) = rv_agents t \<and> rv_queries (fail_group metas t) = rv_queries t" for metas t
    by (induction metas t rule: fail_group.induct) (auto simp: finish_receive_def Let_def split: option.splits)
  have i: "i < length (rv_queries s)" using q(1) by (simp add: query_in_def split: if_splits)
  have "re_request_id ev \<in> rv_failed (fail_group (rv_groups s1 ! eq_group (rv_queries s1 ! i)) (set_query i Query_Over s1))"
    by (rule fail_group_failed) (use m in \<open>auto simp: s1 set_query_def\<close>)
  then show ?thesis using q i by (simp add: Let_def s1_def[symmetric] after_query_def s1 frame set_query_def query_in_def)
qed

text \<open>Two producers behind one bootstrap, and a receiver whose receive waits for its answer.\<close>

definition ex_big :: producer where
  "ex_big = \<lparr>pr_engine = ''E'', pr_dp_rank = 1, pr_size = 2, pr_addr = (\<lambda>r. ''tcp://p:700'' @ nat_str r)\<rparr>"

definition ex_small :: producer where
  "ex_small = \<lparr>pr_engine = ''F'', pr_dp_rank = 0, pr_size = 1, pr_addr = (\<lambda>r. ''tcp://q:900'' @ nat_str r)\<rparr>"

definition ex_regs :: "WorkerRegistration list" where
  "ex_regs = rev (producer_regs ex_big) @ producer_regs ex_small @ producer_regs ex_big"

definition ex_asking :: receiver where
  "ex_asking = ex_state [Act_Recv [ex_event], Act_Net (Query_Run 0)]"

lemma complete_engines_found_witness:
  "let s' = connect_to_prefiller_bootstrap ''http://p'' (Inr (query_reply (serve_all ex_regs []))) ex_asking
   in dict_get (rv_tp_size s') ''E'' = Some 2 \<and> worker_addr ''E'' 1 s' = Inr ''tcp://p:7001''"
proof -
  have "registrations_of [ex_big, ex_small] ex_regs" by code_simp
  from complete_engines_found[OF this, of ex_big "''http://p''" ex_asking]
  have f: "let s' = connect_to_prefiller_bootstrap ''http://p'' (Inr (query_reply (serve_all ex_regs []))) ex_asking
    in dict_get (rv_tp_size s') ''E'' = Some 2 \<and> (\<forall>r < 2. worker_addr ''E'' (int r) s' = Inr (pr_addr ex_big r))"
    by (simp add: Let_def ex_big_def)
  moreover have "pr_addr ex_big 1 = ''tcp://p:7001''" by code_simp
  ultimately show ?thesis unfolding Let_def by (metis of_nat_1 one_less_numeral_iff semiring_norm(76))
qed

lemma partial_engine_accepted_witness:
  "let asked = connect_to_prefiller_bootstrap ''http://p'' (Inr (query_reply (serve_all (take 1 (producer_regs ex_big)) []))) ex_asking;
       started = fst (start_receive ex_cfg [ex_event] asked)
   in dict_get (rv_tp_size started) ''E'' = Some 1 \<and> rv_queries started = rv_queries asked"
proof -
  have k: "0 < (1::nat)" "1 < pr_size ex_big" and ev: "list_all (\<lambda>ev. re_remote_engine_id ev = pr_engine ex_big) [ex_event]"
    and id: "pr_engine ex_big = ''E''" by (simp_all add: ex_big_def ex_event_def)
  from partial_engine_accepted[OF k ev, where addr = "''http://p''" and s = ex_asking and cfg = ex_cfg]
  show ?thesis unfolding Let_def id by simp
qed

definition ex_starting :: registry where
  "ex_starting = serve_all (drop 1 (producer_regs (ex_small\<lparr>pr_size := 2\<rparr>)) @ producer_regs ex_big) []"

lemma incomplete_engine_hides_others_witness:
  "let s' = net_step ex_cfg (Query_Reply 0 (Inr (query_reply ex_starting))) ex_asking
   in dict_has (rv_agents s') ''E'' = False \<and> ''r'' \<in> rv_failed s'"
proof -
  define dp where "dp = fst (hd ex_starting)"
  define e where "e = snd (hd ex_starting)"
  have ws: "(dp, e) # tl ex_starting = ex_starting" unfolding dp_def e_def by code_simp
  have wf: "registry_wf ((dp, e) # tl ex_starting)"
    unfolding ws by (simp only: ex_starting_def registry_wf_serve[OF registry_wf_empty])
  have k: "sort (dict_keys (ee_worker_addr e)) \<noteq> [0..int (length (ee_worker_addr e)) - 1]" unfolding e_def by code_simp
  have q: "query_in 0 ex_asking = Some (Query_Asking ''http://p'')"
    "\<not> dict_has (rv_agents ex_asking) (eq_engine (rv_queries ex_asking ! 0))"
    "list_all (\<lambda>(_, m). dict_has (rv_recv_events ex_asking) (pm_d_req_id m)) (rv_groups ex_asking ! eq_group (rv_queries ex_asking ! 0))"
    by code_simp+
  have m: "(''r'', pull_meta ex_event) \<in> set (rv_groups ex_asking ! eq_group (rv_queries ex_asking ! 0))"
    "dict_get (rv_recv_events ex_asking) (pm_d_req_id (pull_meta ex_event)) = Some ex_event" by code_simp+
  have "dict_has (rv_agents ex_asking) ''E'' = False" "re_request_id ex_event = ''r''" by code_simp+
  then show ?thesis using incomplete_engine_hides_others[OF wf k q m, of ex_cfg] unfolding ws by (simp add: Let_def dict_has_def)
qed

end
