(* ===== verification/Transfer_Service.thy ===== *)
theory Transfer_Service
  imports Bootstrap Registration Transfer_Responses Transfer_Plan_Props
begin

text \<open>
  Models the object \<open>MooncakeKVTransfer\<close> of \<^verbatim>\<open>mtsc/kv_transfer.py\<close> around the loops of
  \<open>Transfer_Send\<close> and \<open>Transfer_Recv\<close>: its construction, the registration of the KV memory and of the
  worker, the calls of the worker and what they refuse, and \<open>close\<close>. A call runs its coroutine on the
  loop and waits for it; one that fences has not returned as long as the value is \<open>None\<close> or the sender
  has a fence. The answers of the Transfer Engine and of the network are arguments.
\<close>

section \<open>Construction\<close>

record transfer_options =
  tq_kv_role :: string
  tq_engine_id :: "string option"
  tq_pp_size :: int
  tq_has_mamba :: bool
  tq_timeout :: pyfloat
  tq_block_size :: int
  tq_kernel_block_size :: int
  tq_num_workers :: pyval
  tq_transport :: "(string \<times> string) result"
  tq_installed :: "bool option"
  tq_tcp_proto :: "string option"
  tq_initialize :: "string \<Rightarrow> string \<Rightarrow> int"
  tq_hostname :: string
  tq_tp_rank :: int
  tq_pp_rank :: int
  tq_parallel :: parallel_config
  tq_first_rank :: bool

text \<open>The listener of a producer: not started, serving with so many sender tasks, cancelled or failed.\<close>

datatype listener = No_Listener | Listening int | Listener_Cancelled | Listener_Failed pyexc

text \<open>\<open>tv_unregistered\<close> lists the pointers given to \<open>unregister_memory\<close>; \<open>tv_running\<close> says that the loops run.\<close>

record service =
  tv_producer :: bool
  tv_consumer :: bool
  tv_timeout :: rat
  tv_block_size :: int
  tv_sender_tasks :: int
  tv_hostname :: string
  tv_identity :: WorkerRegistration
  tv_sender :: sender
  tv_receiver :: receiver
  tv_kv_caches :: "(string, cache_value) dict"
  tv_num_blocks :: int
  tv_base_addr :: "int list"
  tv_block_len :: "int list"
  tv_storage :: "int list"
  tv_unregistered :: "int list"
  tv_listener :: listener
  tv_bootstrap :: bool
  tv_running :: bool
  tv_registered :: bool
  tv_closed :: bool

definition sync_block_size_with_kernel :: "int \<Rightarrow> int \<Rightarrow> int result" where
  "sync_block_size_with_kernel block_size kernel_size =
     (if block_size = kernel_size then Inr block_size else if block_size > kernel_size then Inr kernel_size else Inl AssertionError)"

definition own_dp_rank :: "parallel_config \<Rightarrow> int" where
  "own_dp_rank c = (if pl_local_engines_only c then the (pl_data_parallel_rank_local c) else pl_data_parallel_index c)"

definition new_service :: "transfer_options \<Rightarrow> service result" where
  "new_service q =
     (case tq_engine_id q of None \<Rightarrow> Inl AssertionError
      | Some engine_id \<Rightarrow>
      if tq_pp_size q > 1 then Inl (ValueError ''Mooncake transfer does not support pipeline parallelism'')
      else if tq_has_mamba q then Inl (ValueError ''Mooncake transfer does not support Mamba KV cache'')
      else case positive_timeout ''mtsc_pd_timeout_seconds'' (tq_timeout q) of Inl e \<Rightarrow> Inl e
      | Inr timeout \<Rightarrow>
     (case sync_block_size_with_kernel (tq_block_size q) (tq_kernel_block_size q) of Inl e \<Rightarrow> Inl e
      | Inr block_size \<Rightarrow>
     (case py_int (tq_num_workers q) of Inl e \<Rightarrow> Inl e
      | Inr num_workers \<Rightarrow>
     (case tq_transport q of Inl e \<Rightarrow> Inl e
      | Inr (protocol, device_name) \<Rightarrow>
     (case require_tcp_write_ack protocol (tq_installed q) (tq_tcp_proto q) of Inl e \<Rightarrow> Inl e
      | Inr _ \<Rightarrow>
      if tq_initialize q protocol device_name \<noteq> 0
      then Inl (RuntimeError ''Mooncake TransferEngine initialization failed'')
      else let producer = (tq_kv_role q \<noteq> ''kv_consumer'')
           in Inr \<lparr>tv_producer = producer, tv_consumer = (tq_kv_role q \<noteq> ''kv_producer''), tv_timeout = timeout,
               tv_block_size = block_size, tv_sender_tasks = max 1 num_workers * 2, tv_hostname = tq_hostname q,
               tv_identity = \<lparr>wg_engine_id = engine_id, wg_dp_rank = own_dp_rank (tq_parallel q), wg_tp_rank = tq_tp_rank q,
                 wg_pp_rank = tq_pp_rank q, wg_addr = []\<rparr>,
               tv_sender = new_sender, tv_receiver = new_receiver, tv_kv_caches = [], tv_num_blocks = 0, tv_base_addr = [],
               tv_block_len = [], tv_storage = [], tv_unregistered = [], tv_listener = No_Listener,
               tv_bootstrap = (producer \<and> launch_bootstrap (tq_first_rank q) (tq_parallel q)), tv_running = True,
               tv_registered = False, tv_closed = False\<rparr>)))))"

section \<open>Registering the memory\<close>

text \<open>A loop over a list that keeps its state when the body raises.\<close>

fun run_all :: "('x \<Rightarrow> 's \<Rightarrow> 's \<times> unit result) \<Rightarrow> 'x list \<Rightarrow> 's \<Rightarrow> 's \<times> unit result" where
  "run_all f [] s = (s, Inr ())"
| "run_all f (x # xs) s = (case f x s of (s', Inl e) \<Rightarrow> (s', Inl e) | (s', Inr _) \<Rightarrow> run_all f xs s')"

text \<open>
  The platform and the engine: \<open>rn_views\<close> lists a tensor along its first dimension (the K and V halves on
  CUDA), \<open>rn_register\<close> and \<open>rn_batch\<close> are the return codes of the engine, \<open>rn_port\<close> the listener's port,
  \<open>rn_posts\<close> its attempts to register, \<open>rn_in_time\<close> whether it reports within the timeout and \<open>rn_seen\<close>
  whether a failure has reached its future when the caller looks.
\<close>

record register_env =
  rn_is_npu :: bool
  rn_split_k_and_v :: bool
  rn_views :: "cache_value \<Rightarrow> tensor list"
  rn_register :: "int \<Rightarrow> int \<Rightarrow> int"
  rn_batch :: "int list \<Rightarrow> int list \<Rightarrow> int"
  rn_port :: "int result"
  rn_posts :: "nat \<Rightarrow> post"
  rn_in_time :: bool
  rn_seen :: bool

definition raw_caches :: "register_env \<Rightarrow> cache_value \<Rightarrow> tensor list result" where
  "raw_caches env raw =
     (if rn_is_npu env then cache_tensors raw
      else if rn_split_k_and_v env then Inr (rn_views env raw)
      else case raw of One (Some t) \<Rightarrow> Inr [t] | _ \<Rightarrow> Inl (TypeError ''no tensor''))"

text \<open>One tensor; the regions are the lists \<open>pointers\<close> and \<open>lengths\<close>.\<close>

definition scan_cache :: "tensor \<Rightarrow> service \<times> range list \<Rightarrow> (service \<times> range list) \<times> unit result" where
  "scan_cache t acc =
     (let (v, regions) = acc
      in if tn_ptr t \<in> fst ` set regions then ((v, regions), Inr ())
         else if tn_shape t = [] then ((v, regions), Inl IndexError)
         else (let v1 = (if regions = [] then v\<lparr>tv_num_blocks := tn_shape t ! 0\<rparr> else v)
               in if tn_shape t ! 0 \<noteq> tv_num_blocks v1
                  then ((v1, regions), Inl (AssertionMsg ''All kv cache tensors must have the same number of blocks''))
                  else (let stride = tn_stride t ! 0 * tn_element t
                        in ((v1\<lparr>tv_base_addr := tv_base_addr v1 @ [tn_ptr t], tv_block_len := tv_block_len v1 @ [stride]\<rparr>,
                             regions @ [(tn_ptr t, tv_num_blocks v1 * stride)]), Inr ()))))"

definition scan_value :: "register_env \<Rightarrow> string \<times> cache_value \<Rightarrow> service \<times> range list \<Rightarrow> (service \<times> range list) \<times> unit result" where
  "scan_value env raw acc =
     (case raw_caches env (snd raw) of Inl e \<Rightarrow> (acc, Inl e) | Inr ts \<Rightarrow> run_all scan_cache ts acc)"

definition register_region :: "register_env \<Rightarrow> range \<Rightarrow> service \<Rightarrow> service \<times> unit result" where
  "register_region env pn v =
     (if rn_register env (fst pn) (snd pn) \<noteq> 0 then (v, Inl (RuntimeError ''Mooncake TE memory registration failed''))
      else (v\<lparr>tv_storage := tv_storage v @ [fst pn]\<rparr>, Inr ()))"

definition register_regions :: "register_env \<Rightarrow> range list \<Rightarrow> service \<Rightarrow> service \<times> unit result" where
  "register_regions env regions v =
     (if rn_is_npu env then run_all (register_region env) regions v
      else if rn_batch env (map fst regions) (map snd regions) \<noteq> 0
      then (v, Inl (RuntimeError ''Mooncake TE memory registration failed''))
      else (v\<lparr>tv_storage := map fst regions\<rparr>, Inr ()))"

section \<open>The listener\<close>

definition worker_payload :: "service \<Rightarrow> int \<Rightarrow> WorkerRegistration" where
  "worker_payload v port = (tv_identity v)\<lparr>wg_addr := make_path ''tcp'' (tv_hostname v) port\<rparr>"

text \<open>\<open>_sender_listener\<close> up to the loop that serves, or to its end.\<close>

definition sender_listener :: "register_env \<Rightarrow> service \<Rightarrow> registry \<Rightarrow> registry \<times> listener" where
  "sender_listener env v ws =
     (case rn_port env of Inl e \<Rightarrow> (ws, Listener_Failed e)
      | Inr port \<Rightarrow>
     (case register_worker (worker_payload v port) (rn_posts env) ws of
        (ws', Registered) \<Rightarrow> (ws', Listening (tv_sender_tasks v))
      | (ws', Rejected c t) \<Rightarrow> (ws', Listener_Failed (RuntimeError t))
      | (ws', Bootstrap_Unavailable) \<Rightarrow> (ws', Listener_Failed (RuntimeError ''MTSC bootstrap unavailable''))
      | (ws', Register_Raised e) \<Rightarrow> (ws', Listener_Failed e)))"

definition start_listener :: "register_env \<Rightarrow> service \<Rightarrow> registry \<Rightarrow> (service \<times> registry) \<times> unit result" where
  "start_listener env v ws =
     (let (ws', l) = sender_listener env v ws
      in if \<not> rn_in_time env
         then ((v\<lparr>tv_listener := Listener_Cancelled\<rparr>, ws'), Inl (TimeoutError ''MTSC P listener startup timed out''))
         else ((v\<lparr>tv_listener := l\<rparr>, ws'),
               (case l of Listener_Failed e \<Rightarrow> if rn_seen env then Inl e else Inr () | _ \<Rightarrow> Inr ())))"

definition service_register ::
  "register_env \<Rightarrow> (string, cache_value) dict \<Rightarrow> service \<Rightarrow> registry \<Rightarrow> (service \<times> registry) \<times> unit result" where
  "service_register env kv_caches v ws =
     (if tv_closed v then ((v, ws), Inl (RuntimeError ''KV transfer is closed''))
      else if tv_registered v then ((v, ws), Inl (RuntimeError ''KV transfer memory is already registered''))
      else case run_all (scan_value env) kv_caches (v\<lparr>tv_kv_caches := kv_caches, tv_base_addr := [], tv_block_len := []\<rparr>, []) of
        ((v1, regions), Inl e) \<Rightarrow> ((v1, ws), Inl e)
      | ((v1, regions), Inr _) \<Rightarrow>
          if regions = [] \<or> tv_num_blocks v1 \<le> 0 then ((v1, ws), Inl (RuntimeError ''No PD KV regions registered''))
          else case register_regions env regions v1 of
            (v2, Inl e) \<Rightarrow> ((v2, ws), Inl e)
          | (v2, Inr _) \<Rightarrow>
              (case (if tv_producer v2 then start_listener env v2 ws else ((v2, ws), Inr ())) of
                 ((v3, ws'), Inl e) \<Rightarrow> ((v3, ws'), Inl e)
               | ((v3, ws'), Inr _) \<Rightarrow> ((v3\<lparr>tv_registered := True\<rparr>, ws'), Inr ())))"

section \<open>The worker's calls\<close>

text \<open>A call of the producer's side checks first that the transfer is open and has a sender loop.\<close>

definition sender_call :: "(sender \<Rightarrow> sender) \<Rightarrow> service \<Rightarrow> service result" where
  "sender_call f v =
     (if tv_closed v then Inl (RuntimeError ''KV transfer is closed'')
      else if \<not> tv_producer v then Inl (ValueError ''Only P can send KV'')
      else Inr (v\<lparr>tv_sender := f (tv_sender v)\<rparr>))"

definition service_prepare :: "string \<Rightarrow> string \<Rightarrow> service \<Rightarrow> service result" where
  "service_prepare request_id transfer_id v = sender_call (\<lambda>s. snd (prepare_send request_id transfer_id s)) v"

definition service_send :: "rat \<Rightarrow> SendEvent \<Rightarrow> service \<Rightarrow> service result" where
  "service_send now event v = sender_call (publish_send (tv_timeout v) now event) v"

text \<open>It returns once the sender has no fence any more.\<close>

definition service_cancel :: "string \<Rightarrow> string \<Rightarrow> service \<Rightarrow> service result" where
  "service_cancel request_id transfer_id v = sender_call (cancel_send request_id transfer_id) v"

definition service_recv :: "receiver_cfg \<Rightarrow> RecvEvent list \<Rightarrow> service \<Rightarrow> service \<times> unit result" where
  "service_recv cfg events v =
     (if tv_closed v then (v, Inl (RuntimeError ''KV transfer is closed''))
      else if \<not> tv_consumer v then (v, Inl (ValueError ''Only D can receive KV''))
      else if \<not> tv_registered v then (v, Inl (RuntimeError ''Register KV memory before recv''))
      else let (s, r) = start_receive cfg events (tv_receiver v) in (v\<lparr>tv_receiver := s\<rparr>, r))"

text \<open>Without a check of its own, a call on a stopped loop raises.\<close>

definition loop_stopped :: pyexc where
  "loop_stopped = RuntimeError ''Event loop is closed''"

definition service_poll :: "rat \<Rightarrow> service \<Rightarrow> service \<times> TransferPollResult result" where
  "service_poll now v =
     (if \<not> tv_running v then (v, Inl loop_stopped)
      else let (sends, v1) = (if tv_producer v
                 then let (rs, s) = fetch_finished_sending_reqs now (tv_sender v) in (rs, v\<lparr>tv_sender := s\<rparr>) else ([], v))
           in if tv_consumer v
              then (case fetch_finished_recving_reqs (tv_receiver v1) of Inl e \<Rightarrow> (v1, Inl e)
                    | Inr (rs, s) \<Rightarrow> (v1\<lparr>tv_receiver := s\<rparr>, Inr \<lparr>tpr_sends = sends, tpr_recvs = rs\<rparr>))
              else (v1, Inr \<lparr>tpr_sends = sends, tpr_recvs = []\<rparr>))"

definition service_take_errors :: "service \<Rightarrow> service \<times> int set result" where
  "service_take_errors v =
     (if \<not> tv_consumer v then (v, Inr {})
      else if \<not> tv_running v then (v, Inl loop_stopped)
      else case take_receive_errors (tv_receiver v) of Inl e \<Rightarrow> (v, Inl e)
           | Inr (ids, s) \<Rightarrow> (v\<lparr>tv_receiver := s\<rparr>, Inr ids))"

definition fence_receives :: "string list option \<Rightarrow> service \<Rightarrow> (service \<times> unit result) option" where
  "fence_receives request_ids v =
     (if \<not> tv_running v then Some (v, Inl loop_stopped)
      else case wait_for_receives request_ids (tv_receiver v) of None \<Rightarrow> None
           | Some (Inl e) \<Rightarrow> Some (v, Inl e)
           | Some (Inr s) \<Rightarrow> Some (v\<lparr>tv_receiver := s\<rparr>, Inr ()))"

text \<open>The receive fence comes first; the send fence may still hold when the value is there.\<close>

definition service_preempt :: "string \<Rightarrow> service \<Rightarrow> (service \<times> unit result) option" where
  "service_preempt request_id v =
     (case (if tv_consumer v then fence_receives (Some [request_id]) v else Some (v, Inr ())) of
        None \<Rightarrow> None
      | Some (v1, Inl e) \<Rightarrow> Some (v1, Inl e)
      | Some (v1, Inr _) \<Rightarrow>
          if \<not> tv_producer v1 then Some (v1, Inr ())
          else if \<not> tv_running v1 then Some (v1, Inl loop_stopped)
          else Some (v1\<lparr>tv_sender := preempt_send request_id (tv_sender v1)\<rparr>, Inr ()))"

section \<open>Closing\<close>

text \<open>Up to the first wait: whether \<open>close\<close> is over, or goes on with its fences.\<close>

datatype close_state = Close_Over "unit result" | Close_Fencing

definition close_begin :: "service \<Rightarrow> service \<times> close_state" where
  "close_begin v =
     (if tv_closed v then (v, Close_Over (Inr ()))
      else case (if tv_consumer v then check_receive_error (tv_receiver v) else Inr ()) of
        Inl e \<Rightarrow> (v, Close_Over (Inl e))
      | Inr _ \<Rightarrow>
          (v\<lparr>tv_closed := True,
             tv_sender := (if tv_producer v then abort_all_sends (tv_sender v) else tv_sender v)\<rparr>, Close_Fencing))"

text \<open>The sender has answered every request it accepted.\<close>

definition sender_drained :: "service \<Rightarrow> bool" where
  "sender_drained v = list_all (\<lambda>x. sx_phase x = Session_Over) (sn_sessions (tv_sender v))"

text \<open>
  \<open>raises p\<close> says that unregistering \<open>p\<close> raises, which ends the loop; the batch call of CUDA gets the whole
  list. Either way the list of registered pointers is given up.
\<close>

definition unregister_memory :: "bool \<Rightarrow> (int \<Rightarrow> bool) \<Rightarrow> service \<Rightarrow> service" where
  "unregister_memory one_by_one raises v =
     v\<lparr>tv_unregistered := tv_unregistered v @
          (if one_by_one
           then takeWhile (\<lambda>p. \<not> raises p) (tv_storage v) @ take 1 (dropWhile (\<lambda>p. \<not> raises p) (tv_storage v))
           else tv_storage v),
        tv_storage := []\<rparr>"

text \<open>The rest of \<open>close\<close>; \<open>None\<close> as long as it waits for a receive or for the sender's queue.\<close>

definition close_end :: "bool \<Rightarrow> (int \<Rightarrow> bool) \<Rightarrow> service \<Rightarrow> (service \<times> unit result) option" where
  "close_end one_by_one raises v =
     (case (if tv_consumer v then fence_receives None v else Some (v, Inr ())) of
        None \<Rightarrow> None
      | Some (v1, Inl e) \<Rightarrow> Some (v1, Inl e)
      | Some (v1, Inr _) \<Rightarrow>
          if tv_producer v1 \<and> \<not> sender_drained v1 then None
          else let v2 = v1\<lparr>tv_listener := (if tv_listener v1 = No_Listener then No_Listener else Listener_Cancelled),
                         tv_running := False, tv_bootstrap := False\<rparr>;
                   v3 = unregister_memory one_by_one raises v2
               in Some (v3\<lparr>tv_sender := (tv_sender v3)\<lparr>sn_reqs_need_send := [], sn_finished := []\<rparr>, tv_kv_caches := []\<rparr>, Inr ()))"

end
