(* ===== verification/Transfer_Service_Props.thy ===== *)
theory Transfer_Service_Props
  imports Transfer_Service
begin

text \<open>
  Properties of the transfer as a whole: what \<open>close\<close> has fenced when it gives the memory up, which memory
  the copies of a producer can read, and how a producer's workers reach the receivers through the
  bootstrap, with the failure of a listener that goes unnoticed.
\<close>

section \<open>Closing\<close>

text \<open>Nothing of the transfer is under way: no producer owes an answer for a receive, no session writes.\<close>

definition quiescent :: "service \<Rightarrow> bool" where
  "quiescent v \<longleftrightarrow> (tv_consumer v \<longrightarrow> list_all (\<lambda>p. pt_remaining p = []) (rv_pulls (tv_receiver v))) \<and>
     (tv_producer v \<longrightarrow> (\<forall>i. \<not> reads (tv_sender v) i))"

lemma drained_reads: "sender_drained v \<Longrightarrow> \<not> reads (tv_sender v) i"
  by (auto simp: sender_drained_def reads_def batch_ready_def list_ex_iff list_all_iff)


section \<open>Registered memory\<close>

lemma run_all_inv:
  assumes "\<And>x s. x \<in> set xs \<Longrightarrow> P s \<Longrightarrow> P (fst (f x s))" and "P s"
  shows "P (fst (run_all f xs s))"
  using assms
proof (induction xs arbitrary: s)
  case (Cons x xs)
  obtain s' r where f: "f x s = (s', r)" by (cases "f x s")
  have "P s'" using Cons(2)[of x s] Cons(3) f by simp
  then show ?case using Cons(1)[of s'] Cons(2) f by (cases r) auto
qed simp

text \<open>The regions of the scan are those of the attributes.\<close>

definition regions_match :: "service \<times> range list \<Rightarrow> bool" where
  "regions_match acc \<longleftrightarrow> (case acc of (v, regions) \<Rightarrow>
     map fst regions = tv_base_addr v \<and> map snd regions = map (\<lambda>l. tv_num_blocks v * l) (tv_block_len v))"

lemma scan_cache_match: "regions_match acc \<Longrightarrow> regions_match (fst (scan_cache t acc))"
  by (cases acc) (auto simp: scan_cache_def regions_match_def Let_def)

lemma scan_match: "regions_match acc \<Longrightarrow> regions_match (fst (run_all (scan_value env) caches acc))"
  by (rule run_all_inv) (auto simp: scan_value_def split: sum.splits intro: run_all_inv scan_cache_match)

definition engine_took :: "register_env \<Rightarrow> range list \<Rightarrow> bool" where
  "engine_took env regions \<longleftrightarrow>
     (if rn_is_npu env then list_all (\<lambda>(p, n). rn_register env p n = 0) regions
      else rn_batch env (map fst regions) (map snd regions) = 0)"

text \<open>The attributes of the registration stay as they are from the scan on.\<close>

definition same_regions :: "service \<Rightarrow> service \<Rightarrow> bool" where
  "same_regions v v' \<longleftrightarrow> tv_base_addr v' = tv_base_addr v \<and> tv_block_len v' = tv_block_len v \<and>
     tv_num_blocks v' = tv_num_blocks v \<and> tv_producer v' = tv_producer v \<and> tv_identity v' = tv_identity v \<and>
     tv_hostname v' = tv_hostname v \<and> tv_sender_tasks v' = tv_sender_tasks v"

lemma register_npu:
  "run_all (register_region env) regions v = (v', Inr ()) \<Longrightarrow>
   v' = v\<lparr>tv_storage := tv_storage v @ map fst regions\<rparr> \<and> list_all (\<lambda>(p, n). rn_register env p n = 0) regions"
proof (induction regions arbitrary: v)
  case (Cons pn regions)
  have z: "rn_register env (fst pn) (snd pn) = 0" using Cons(2) by (auto simp: register_region_def split: if_splits)
  then have "register_region env pn v = (v\<lparr>tv_storage := tv_storage v @ [fst pn]\<rparr>, Inr ())" by (simp add: register_region_def)
  then have "run_all (register_region env) regions (v\<lparr>tv_storage := tv_storage v @ [fst pn]\<rparr>) = (v', Inr ())"
    using Cons(2) by simp
  from Cons(1)[OF this] show ?case using z by (cases pn) simp
qed simp

lemma register_regions_ok:
  assumes "register_regions env regions v = (v', Inr ())"
  shows "engine_took env regions \<and> set (map fst regions) \<subseteq> set (tv_storage v') \<and> same_regions v v'"
proof (cases "rn_is_npu env")
  case True
  then show ?thesis using assms register_npu[of env regions v v']
    by (auto simp: register_regions_def engine_took_def same_regions_def)
next
  case False
  then have "rn_batch env (map fst regions) (map snd regions) = 0" "v' = v\<lparr>tv_storage := map fst regions\<rparr>"
    using assms by (auto simp: register_regions_def split: if_splits)
  then show ?thesis using False by (simp add: engine_took_def same_regions_def)
qed

lemma service_register_ok:
  assumes "service_register env caches v ws = ((v', ws'), Inr ())"
  obtains v2 regions where "map fst regions = tv_base_addr v'"
    "map snd regions = map (\<lambda>l. tv_num_blocks v' * l) (tv_block_len v')" "engine_took env regions"
    "set (tv_base_addr v') \<subseteq> set (tv_storage v')" "0 < tv_num_blocks v'" "same_regions v2 v'"
    "if tv_producer v2 then \<exists>v3. start_listener env v2 ws = ((v3, ws'), Inr ()) \<and> v' = v3\<lparr>tv_registered := True\<rparr> else ws' = ws"
proof -
  define v0 where "v0 = v\<lparr>tv_kv_caches := caches, tv_base_addr := [], tv_block_len := []\<rparr>"
  obtain v1 regions where scan: "run_all (scan_value env) caches (v0, []) = ((v1, regions), Inr ())"
    and ne: "\<not> (regions = [] \<or> tv_num_blocks v1 \<le> 0)"
    and "\<exists>v2. register_regions env regions v1 = (v2, Inr ()) \<and>
      (\<exists>v3. (if tv_producer v2 then start_listener env v2 ws else ((v2, ws), Inr ())) = ((v3, ws'), Inr ()) \<and>
        v' = v3\<lparr>tv_registered := True\<rparr>)"
    using assms unfolding service_register_def v0_def by (auto split: if_splits prod.splits sum.splits)
  then obtain v2 v3 where reg: "register_regions env regions v1 = (v2, Inr ())"
    and l: "(if tv_producer v2 then start_listener env v2 ws else ((v2, ws), Inr ())) = ((v3, ws'), Inr ())"
    and v': "v' = v3\<lparr>tv_registered := True\<rparr>" by blast
  have "regions_match (v1, regions)"
    using scan_match[of "(v0, [])" env caches] unfolding scan by (simp add: regions_match_def v0_def)
  moreover note r = register_regions_ok[OF reg]
  moreover have "same_regions v2 v'" "tv_storage v' = tv_storage v2"
    using l v' by (auto simp: start_listener_def same_regions_def Let_def split: if_splits prod.splits)
  ultimately have "map fst regions = tv_base_addr v'" "map snd regions = map (\<lambda>l. tv_num_blocks v' * l) (tv_block_len v')"
    "set (tv_base_addr v') \<subseteq> set (tv_storage v')" "0 < tv_num_blocks v'" "same_regions v2 v'" "engine_took env regions"
    using ne unfolding regions_match_def same_regions_def by auto
  moreover have "if tv_producer v2 then \<exists>v3. start_listener env v2 ws = ((v3, ws'), Inr ()) \<and> v' = v3\<lparr>tv_registered := True\<rparr> else ws' = ws"
    using l v' by auto
  ultimately show ?thesis using that by blast
qed

lemma region_bytes:
  assumes "r \<in> set (expand_region split (b, l))" and "0 \<le> i" "i < n"
    and "tr_base_addr r + i * tr_block_len r \<le> y" "y < tr_base_addr r + i * tr_block_len r + tr_kv_block_len r"
  shows "b \<le> y \<and> y < b + n * l"
proof -
  have kv: "tr_block_len r = l" "0 < l" "b \<le> tr_base_addr r" "tr_base_addr r + tr_kv_block_len r \<le> b + l"
    using assms(1,4,5) by (auto simp: expand_region_def Let_def split: if_splits)
  have "(i + 1) * l \<le> n * l" "0 \<le> i * l" using assms(2,3) kv(2) by (simp_all add: mult_right_mono)
  then show ?thesis using assms(4,5) kv by (simp add: distrib_right)
qed

text \<open>
  C13: a producer's copies read registered memory only. Once the memory has been registered, every source
  byte of every copy that is built from the registered addresses lies inside a region that the engine
  accepted and that is kept for unregistering: block IDs, TP offsets and run coalescing cannot lead
  outside.
\<close>

theorem copies_read_registered:
  assumes "service_register env caches v ws = ((v', ws'), Inr ())"
    and "kt_num_blocks cfg = tv_num_blocks v'" "kt_base_addr cfg = tv_base_addr v'" "kt_block_len cfg = tv_block_len v'"
    and "build_request_transfer_params cfg rid lids request rregions = Inr cs" and "(x, y) \<in> bytes_of cs"
  shows "\<exists>p n. p \<le> y \<and> y < p + n \<and> p \<in> set (tv_storage v') \<and>
    (if rn_is_npu env then rn_register env p n = 0
     else \<exists>ps ns. rn_batch env ps ns = 0 \<and> (p, n) \<in> set (zip ps ns))"
proof -
  obtain regions where reg: "map fst regions = tv_base_addr v'"
    "map snd regions = map (\<lambda>l. tv_num_blocks v' * l) (tv_block_len v')" "engine_took env regions"
    "set (tv_base_addr v') \<subseteq> set (tv_storage v')"
    using service_register_ok[OF assms(1)] by metis
  obtain lregions where lr: "get_transfer_regions cfg (kt_base_addr cfg) (kt_block_len cfg) = Inr lregions"
    and len: "length lregions = length rregions"
    and b: "\<forall>(x, y) \<in> bytes_of cs. \<exists>k < length rregions. \<exists>s b. (s, b) \<in> requested_pairs lids
        (snd (the (dict_get (xr_req_blocks request) rid))) \<and> 0 \<le> s \<and> s < kt_num_blocks cfg \<and>
        tr_base_addr (lregions ! k) + s * tr_block_len (lregions ! k) \<le> y \<and>
        y < tr_base_addr (lregions ! k) + s * tr_block_len (lregions ! k) + tr_kv_block_len (lregions ! k) \<and>
        tr_base_addr (rregions ! k) + b * tr_block_len (rregions ! k) \<le> x \<and>
        x < tr_base_addr (rregions ! k) + b * tr_block_len (rregions ! k) + tr_kv_block_len (rregions ! k)"
    using request_copies[OF assms(5)] by auto
  from b assms(6) len obtain k s where k: "k < length lregions" and s: "0 \<le> s" "s < kt_num_blocks cfg"
      "tr_base_addr (lregions ! k) + s * tr_block_len (lregions ! k) \<le> y"
      "y < tr_base_addr (lregions ! k) + s * tr_block_len (lregions ! k) + tr_kv_block_len (lregions ! k)" by fastforce
  have "lregions = concat (map (expand_region (to_virtually_split (kt_topo cfg))) (zip (kt_base_addr cfg) (kt_block_len cfg)))"
    using lr by (auto simp: get_transfer_regions_def expand_transfer_regions_def split: if_splits)
  then obtain p l where pl: "(p, l) \<in> set (zip (tv_base_addr v') (tv_block_len v'))"
    "lregions ! k \<in> set (expand_region (to_virtually_split (kt_topo cfg)) (p, l))"
    using nth_mem[OF k] assms(3,4) by auto
  have in_reg: "(p, tv_num_blocks v' * l) \<in> set regions"
  proof -
    have "regions = zip (tv_base_addr v') (map (\<lambda>l. tv_num_blocks v' * l) (tv_block_len v'))"
      using reg(1,2) by (metis zip_map_fst_snd)
    then show ?thesis using pl(1) by (auto simp: zip_map2 intro!: image_eqI[of _ _ "(p, l)"])
  qed
  have "p \<le> y \<and> y < p + tv_num_blocks v' * l" by (rule region_bytes[OF pl(2) s(1) _ s(3,4)]) (use s(2) assms(2) in simp)
  moreover have "p \<in> set (tv_storage v')" using reg(4) pl(1) by (auto dest: set_zip_leftD)
  moreover have "if rn_is_npu env then rn_register env p (tv_num_blocks v' * l) = 0
     else \<exists>ps ns. rn_batch env ps ns = 0 \<and> (p, tv_num_blocks v' * l) \<in> set (zip ps ns)"
  proof (cases "rn_is_npu env")
    case False
    then have "rn_batch env (map fst regions) (map snd regions) = 0" using reg(3) by (simp add: engine_took_def)
    moreover have "(p, tv_num_blocks v' * l) \<in> set (zip (map fst regions) (map snd regions))"
      unfolding zip_map_fst_snd by (rule in_reg)
    ultimately show ?thesis using False by auto
  qed (use reg(3) in_reg in \<open>auto simp: engine_took_def list_all_iff\<close>)
  ultimately show ?thesis by blast
qed

section \<open>From the listener to the receivers\<close>

lemma listening_registered:
  assumes "register_worker p posts ws = (ws', Registered)"
  shows "ws' = fst (bootstrap_register p ws)"
  using assms unfolding register_worker_def register_attempts_spec[of p posts 0]
  by (auto split: option.splits post.splits prod.splits http_reply.splits)

lemma register_listening:
  assumes "service_register env caches v ws = ((v', ws'), Inr ())" and "tv_listener v' = Listening n"
    and "tv_producer v'" and "rn_port env = Inr port"
  shows "ws' = fst (bootstrap_register (worker_payload v' port) ws) \<and> n = tv_sender_tasks v'"
proof -
  obtain v2 where same: "same_regions v2 v'"
    and l: "if tv_producer v2 then \<exists>v3. start_listener env v2 ws = ((v3, ws'), Inr ()) \<and> v' = v3\<lparr>tv_registered := True\<rparr> else ws' = ws"
    by (rule service_register_ok[OF assms(1)])
  have "tv_producer v2" using same assms(3) by (simp add: same_regions_def)
  then obtain v3 where v3: "start_listener env v2 ws = ((v3, ws'), Inr ())" "v' = v3\<lparr>tv_registered := True\<rparr>" using l by auto
  have "sender_listener env v2 ws = (ws', Listening n)"
    using v3 assms(2) by (auto simp: start_listener_def Let_def split: if_splits prod.splits)
  then have "register_worker (worker_payload v2 port) (rn_posts env) ws = (ws', Registered) \<and> n = tv_sender_tasks v2"
    using assms(4) by (auto simp: sender_listener_def split: sum.splits prod.splits register_end.splits)
  moreover have "worker_payload v2 port = worker_payload v' port" using same by (simp add: worker_payload_def same_regions_def)
  ultimately show ?thesis using listening_registered same by (auto simp: same_regions_def)
qed

text \<open>The workers of one producer register one after the other: environment, caches, service and port of each.\<close>

type_synonym starting = "register_env \<times> (string, cache_value) dict \<times> service \<times> int"

fun start_producers :: "starting list \<Rightarrow> registry \<Rightarrow> (registry \<times> (service \<times> int) list) option" where
  "start_producers [] ws = Some (ws, [])"
| "start_producers ((env, caches, v, port) # rest) ws =
     (case service_register (env\<lparr>rn_port := Inr port\<rparr>) caches v ws of
        (_, Inl e) \<Rightarrow> None
      | ((v', ws'), Inr _) \<Rightarrow> map_option (map_prod id (Cons (v', port))) (start_producers rest ws'))"

definition serves :: "service \<Rightarrow> bool" where
  "serves v \<longleftrightarrow> tv_producer v \<and> (case tv_listener v of Listening _ \<Rightarrow> True | _ \<Rightarrow> False)"

lemma start_producers_serve:
  "start_producers starts ws = Some (ws', vs) \<Longrightarrow> list_all (\<lambda>(v, _). serves v) vs \<Longrightarrow>
   ws' = serve_all (map (\<lambda>(v, port). worker_payload v port) vs) ws"
proof (induction starts arbitrary: ws vs)
  case (Cons st rest)
  obtain env caches v port where st: "st = (env, caches, v, port)" by (cases st)
  obtain v' ws1 u where reg: "service_register (env\<lparr>rn_port := Inr port\<rparr>) caches v ws = ((v', ws1), Inr u)"
    using Cons(2) st by (auto split: prod.splits sum.splits)
  obtain vs1 where r: "start_producers rest ws1 = Some (ws', vs1)" "vs = (v', port) # vs1"
    using Cons(2) st reg by auto
  have "serves v'" "list_all (\<lambda>(v, _). serves v) vs1" using Cons(3) r(2) by simp_all
  then obtain n where "tv_listener v' = Listening n" "tv_producer v'" by (auto simp: serves_def split: listener.splits)
  then have "ws1 = fst (bootstrap_register (worker_payload v' port) ws)"
    using register_listening[OF reg[unfolded unit_eq[of u]], of n port] by simp
  then show ?case using Cons(1)[OF r(1) \<open>list_all _ vs1\<close>] r(2) by simp
qed simp


text \<open>
  A listener can fail unnoticed. Its exception handler reports that it is ready before the failure has
  reached its future; a caller that looks in between finds nothing, and the registration succeeds although
  no listener runs and the bootstrap does not know the worker.
\<close>

theorem failed_listener_unnoticed:
  assumes "service_register env caches v ws = ((v', ws'), Inr ())" and "tv_producer v'"
    and "rn_port env = Inr port" and "\<forall>i. rn_posts env i = Not_Connected"
  shows "tv_registered v' \<and> ws' = ws \<and> rn_in_time env \<and> \<not> rn_seen env \<and>
    tv_listener v' = Listener_Failed (RuntimeError ''MTSC bootstrap unavailable'')"
proof -
  obtain v2 where same: "same_regions v2 v'"
    and l: "if tv_producer v2 then \<exists>v3. start_listener env v2 ws = ((v3, ws'), Inr ()) \<and> v' = v3\<lparr>tv_registered := True\<rparr> else ws' = ws"
    by (rule service_register_ok[OF assms(1)])
  then obtain v3 where v3: "start_listener env v2 ws = ((v3, ws'), Inr ())" "v' = v3\<lparr>tv_registered := True\<rparr>"
    using assms(2) by (auto simp: same_regions_def)
  have "register_worker (worker_payload v2 port) (rn_posts env) ws = (ws, Bootstrap_Unavailable)"
    unfolding register_worker_def register_attempts_spec[of _ _ 0] using assms(4) by (simp add: find_None_iff[THEN iffD2])
  then have "sender_listener env v2 ws = (ws, Listener_Failed (RuntimeError ''MTSC bootstrap unavailable''))"
    using assms(3) by (simp add: sender_listener_def)
  then show ?thesis using v3 by (auto simp: start_listener_def Let_def split: if_splits)
qed

section \<open>Concrete runs\<close>

text \<open>A producer of two ranks on Ascend with one KV tensor of ten blocks, and its listeners.\<close>

definition ex_tensor :: tensor where
  "ex_tensor = \<lparr>tn_ptr = 1000, tn_storage = 1000, tn_storage_bytes = 320, tn_shape = [10, 32], tn_stride = [32, 1], tn_element = 1\<rparr>"

definition ex_caches :: "(string, cache_value) dict" where
  "ex_caches = [(''layer'', One (Some ex_tensor))]"

definition ex_platform :: "(nat \<Rightarrow> post) \<Rightarrow> register_env" where
  "ex_platform posts = \<lparr>rn_is_npu = True, rn_split_k_and_v = False, rn_views = (\<lambda>_. []), rn_register = (\<lambda>_ _. 0),
     rn_batch = (\<lambda>_ _. 0), rn_port = Inr 70, rn_posts = posts, rn_in_time = True, rn_seen = False\<rparr>"

definition ex_service :: "string \<Rightarrow> int \<Rightarrow> service" where
  "ex_service role rank = projr (new_service
     \<lparr>tq_kv_role = role, tq_engine_id = Some ''E'', tq_pp_size = 1, tq_has_mamba = False, tq_timeout = Float 30,
      tq_block_size = 16, tq_kernel_block_size = 16, tq_num_workers = PInt 4, tq_transport = Inr (''rdma'', []),
      tq_installed = None, tq_tcp_proto = None, tq_initialize = (\<lambda>_ _. 0), tq_hostname = ''p'', tq_tp_rank = rank,
      tq_pp_rank = 0, tq_parallel = \<lparr>pl_local_engines_only = False, pl_master_ip = ''m'', pl_data_parallel_index = 0,
        pl_data_parallel_rank_local = None\<rparr>, tq_first_rank = True\<rparr>)"

text \<open>The second attempt to register is answered.\<close>

definition ex_posts :: "nat \<Rightarrow> post" where
  "ex_posts i = (if i = 0 then Not_Connected else Answered)"

definition ex_starts :: "starting list" where
  "ex_starts = [(ex_platform ex_posts, ex_caches, ex_service ''kv_producer'' 1, 71),
                (ex_platform ex_posts, ex_caches, ex_service ''kv_producer'' 0, 72)]"

definition ex_started :: "registry \<times> (service \<times> int) list" where
  "ex_started = the (start_producers ex_starts [])"


definition ex_registered :: "string \<Rightarrow> (nat \<Rightarrow> post) \<Rightarrow> service \<times> registry" where
  "ex_registered role posts = fst (service_register (ex_platform posts) ex_caches (ex_service role 1) [])"

lemma ex_registered: "service_register (ex_platform (\<lambda>_. Not_Connected)) ex_caches (ex_service ''kv_both'' 1) [] =
    ((fst (ex_registered ''kv_both'' (\<lambda>_. Not_Connected)), snd (ex_registered ''kv_both'' (\<lambda>_. Not_Connected))), Inr ())"
  unfolding ex_registered_def by code_simp

lemma failed_listener_unnoticed_witness:
  "tv_registered (fst (ex_registered ''kv_both'' (\<lambda>_. Not_Connected))) \<and>
   tv_listener (fst (ex_registered ''kv_both'' (\<lambda>_. Not_Connected))) = Listener_Failed (RuntimeError ''MTSC bootstrap unavailable'')"
proof -
  have p: "tv_producer (fst (ex_registered ''kv_both'' (\<lambda>_. Not_Connected)))" by code_simp
  have e: "rn_port (ex_platform (\<lambda>_. Not_Connected)) = Inr 70" "\<forall>i. rn_posts (ex_platform (\<lambda>_. Not_Connected)) i = Not_Connected"
    by (simp_all add: ex_platform_def)
  show ?thesis using failed_listener_unnoticed[OF ex_registered p e] by simp
qed


lemma copies_read_registered_witness:
  "\<exists>cfg request cs. build_request_transfer_params cfg ''d'' [[4, 5, 6]] request
       [\<lparr>tr_base_addr = 2000, tr_block_len = 64, tr_kv_block_len = 64\<rparr>] = Inr cs \<and>
     kt_base_addr cfg = tv_base_addr (fst (ex_registered ''kv_both'' (\<lambda>_. Not_Connected))) \<and>
     (2000 + 8 * 64 + 32, 1000 + 5 * 32) \<in> bytes_of cs \<and> (\<exists>p (n :: int). p \<le> 1000 + 5 * 32 \<and> 1000 + 5 * 32 < p + n \<and>
       p \<in> set (tv_storage (fst (ex_registered ''kv_both'' (\<lambda>_. Not_Connected)))))"
proof -
  define cfg where "cfg = \<lparr>kt_tp_rank = 1, kt_tp_size = 2,
      kt_topo = npu_topo \<lparr>nt_tp_rank = 1, nt_tp_size = 2, nt_block_size = 16, nt_is_mla = False, nt_total_num_kv_heads = 8\<rparr>,
      kt_num_blocks = 10, kt_base_addr = [1000], kt_block_len = [32], kt_is_npu = True, kt_layout = ''HND''\<rparr>"
  define request where "request = \<lparr>xr_remote_hostname = ''h'', xr_remote_port = 1, xr_remote_tp_size = 1,
      xr_remote_tp_rank = 0, xr_req_blocks = [(''d'', (''x'', [[8, 9]]))], xr_kv_caches_base_addr = [2000],
      xr_block_lens = [64]\<rparr>"
  define cs where "cs = [(1000 + 5 * 32, 2000 + 8 * 64 + 32, 32), (1000 + 6 * 32, 2000 + 9 * 64 + 32, 32) :: descriptor]"
  define rr where "rr = [\<lparr>tr_base_addr = 2000, tr_block_len = 64, tr_kv_block_len = 64\<rparr>]"
  have b: "build_request_transfer_params cfg ''d'' [[4, 5, 6]] request rr = Inr cs"
    unfolding cfg_def request_def cs_def rr_def by code_simp
  have v: "tv_num_blocks (fst (ex_registered ''kv_both'' (\<lambda>_. Not_Connected))) = 10"
    "tv_base_addr (fst (ex_registered ''kv_both'' (\<lambda>_. Not_Connected))) = [1000]"
    "tv_block_len (fst (ex_registered ''kv_both'' (\<lambda>_. Not_Connected))) = [32]" by code_simp+
  have y: "(2000 + 8 * 64 + 32, 1000 + 5 * 32) \<in> bytes_of cs"
    unfolding in_bytes_of cs_def by (intro exI[of _ "1000 + 5 * 32"] exI[of _ "2000 + 8 * 64 + 32"] exI[of _ 32] exI[of _ 0]) simp
  have cfg: "kt_num_blocks cfg = tv_num_blocks (fst (ex_registered ''kv_both'' (\<lambda>_. Not_Connected)))"
    "kt_base_addr cfg = tv_base_addr (fst (ex_registered ''kv_both'' (\<lambda>_. Not_Connected)))"
    "kt_block_len cfg = tv_block_len (fst (ex_registered ''kv_both'' (\<lambda>_. Not_Connected)))"
    unfolding v by (simp_all add: cfg_def)
  from copies_read_registered[OF ex_registered cfg b y] show ?thesis using b y cfg(2) unfolding rr_def by blast
qed

end
