(* ===== verification/Node_Transfer.thy ===== *)
theory Node_Transfer
  imports Node Transfer_Service_Props
begin

text \<open>
  A whole worker process: the worker of \<^verbatim>\<open>mtsc/worker.py\<close> over the Store pool of
  \<^verbatim>\<open>mtsc/kv_cache_pool.py\<close> and the transfer of \<^verbatim>\<open>mtsc/kv_transfer.py\<close>. \<open>service_ops\<close> is the
  transfer as the operations the worker calls; between them the tasks of its loops run as the environment
  says. The interface \<open>save_fence\<close> holds for the two together, which makes the runs of both halves
  invariants of the process, and preemption is shown to fence every access to a request's blocks:
  the Store's loads and saves, the writes of remote producers and the reads of the sender.
\<close>

section \<open>Receives that are over stay over\<close>

text \<open>No task has the request open with a producer, and no query that is on its way will open it.\<close>

definition unasked :: "receiver \<Rightarrow> string \<Rightarrow> bool" where
  "unasked s rid \<longleftrightarrow> no_writer s rid \<and>
     list_all (\<lambda>q. eq_phase q \<noteq> Query_Over \<longrightarrow> \<not> dict_has (rv_groups s ! eq_group q) rid) (rv_queries s)"

lemma unaskedD: "unasked s rid \<Longrightarrow> no_writer s rid"
  "unasked s rid \<Longrightarrow> i < length (rv_queries s) \<Longrightarrow> eq_phase (rv_queries s ! i) \<noteq> Query_Over \<Longrightarrow>
     \<not> dict_has (rv_groups s ! eq_group (rv_queries s ! i)) rid"
  by (auto simp: unasked_def list_all_length)

text \<open>The requests of every group stay as they are.\<close>

definition same_groups :: "receiver \<Rightarrow> receiver \<Rightarrow> bool" where
  "same_groups s t \<longleftrightarrow> (\<forall>h r. dict_has (rv_groups t ! h) r \<longleftrightarrow> dict_has (rv_groups s ! h) r)"

lemma same_groups_upd:
  assumes "\<And>r. dict_has d r \<longleftrightarrow> dict_has (rv_groups s ! g) r" and "rv_groups t = (rv_groups s)[g := d]"
  shows "same_groups s t"
proof -
  have "dict_has (rv_groups t ! h) r \<longleftrightarrow> dict_has (rv_groups s ! h) r" for h r
    using assms by (cases "h = g"; cases "g < length (rv_groups s)") (simp_all add: list_update_beyond)
  then show ?thesis by (simp add: same_groups_def)
qed

definition tasks_kept :: "receiver \<Rightarrow> receiver \<Rightarrow> bool" where
  "tasks_kept s t \<longleftrightarrow> rv_pulls t = rv_pulls s \<and> rv_queries t = rv_queries s \<and> same_groups s t"

lemma tasks_kept_refl: "tasks_kept s s"
  by (simp add: tasks_kept_def same_groups_def)

lemma tasks_kept_trans: "tasks_kept s t \<Longrightarrow> tasks_kept t u \<Longrightarrow> tasks_kept s u"
  by (simp add: tasks_kept_def same_groups_def)

lemma tasks_kept_eq: "rv_pulls t = rv_pulls s \<Longrightarrow> rv_queries t = rv_queries s \<Longrightarrow> rv_groups t = rv_groups s \<Longrightarrow> tasks_kept s t"
  by (simp add: tasks_kept_def same_groups_def)

lemma unasked_kept: "unasked s rid \<Longrightarrow> tasks_kept s t \<Longrightarrow> unasked t rid"
  by (auto simp: unasked_def tasks_kept_def same_groups_def no_writer_def list_all_iff)

lemma kept_finish: "tasks_kept s (finish_receive ev failed f s)"
  by (rule tasks_kept_eq) (simp_all add: finish_receive_def Let_def)

lemma kept_count: "tasks_kept s (fst (count_results g rids s))"
proof (induction g rids s rule: count_results.induct)
  case (2 g rid rids s)
  show ?case
  proof (cases "dict_get (rv_groups s ! g) rid")
    case None
    then show ?thesis by (simp add: tasks_kept_refl)
  next
    case (Some m)
    define s1 where "s1 = s\<lparr>rv_groups := (rv_groups s)[g := dict_set rid (m\<lparr>pm_pull_tasks_count := pm_pull_tasks_count m - 1\<rparr>) (rv_groups s ! g)]\<rparr>"
    have "same_groups s s1"
      by (rule same_groups_upd[of "dict_set rid (m\<lparr>pm_pull_tasks_count := pm_pull_tasks_count m - 1\<rparr>) (rv_groups s ! g)"])
         (use Some in \<open>auto simp: s1_def dict_has_def dict_simps\<close>)
    then have k: "tasks_kept s s1" by (simp add: tasks_kept_def s1_def)
    show ?thesis
    proof (cases "pm_pull_tasks_count m - 1 = 0")
      case False
      from tasks_kept_trans[OF k 2(2)[OF Some refl s1_def False]] show ?thesis using Some False by (simp add: s1_def Let_def)
    next
      case c: True
      show ?thesis
      proof (cases "dict_get (rv_recv_events s) rid")
        case None
        then show ?thesis using Some c k by (simp add: s1_def Let_def)
      next
        case ev: (Some ev)
        from tasks_kept_trans[OF k tasks_kept_trans[OF kept_finish 2(1)[OF Some refl s1_def c ev]]]
        show ?thesis using Some c ev by (simp add: s1_def Let_def)
      qed
    qed
  qed
qed (simp add: tasks_kept_refl)

text \<open>A task that has less open, and a query that goes on.\<close>

lemma unasked_set_pull:
  assumes "unasked s rid" and "rid \<in> set remaining \<Longrightarrow> rid \<in> set (pt_remaining (rv_pulls s ! i))"
  shows "unasked (set_pull i remaining phase s) rid"
proof -
  have "rid \<notin> set (pt_remaining p)" if p: "p \<in> set (rv_pulls (set_pull i remaining phase s))" for p
  proof -
    have w: "q \<in> set (rv_pulls s) \<Longrightarrow> rid \<notin> set (pt_remaining q)" for q
      using unaskedD(1)[OF assms(1)] by (simp add: no_writer_def list_all_iff)
    obtain j where j: "j < length (rv_pulls s)" "p = rv_pulls (set_pull i remaining phase s) ! j"
      using p by (auto simp: in_set_conv_nth set_pull_def)
    show ?thesis using w[of "rv_pulls s ! j"] assms(2) j by (cases "j = i") (auto simp: set_pull_def)
  qed
  then show ?thesis using assms(1) by (auto simp: unasked_def no_writer_def list_all_iff set_pull_def)
qed

lemma unasked_set_query:
  assumes "unasked s rid" and "query_in i s = Some ph'" and "ph' \<noteq> Query_Over"
  shows "unasked (set_query i ph s) rid"
proof -
  have i: "i < length (rv_queries s)" "eq_phase (rv_queries s ! i) \<noteq> Query_Over"
    using assms(2,3) by (auto simp: query_in_def split: if_splits)
  have "eq_phase (rv_queries (set_query i ph s) ! j) \<noteq> Query_Over \<longrightarrow>
      \<not> dict_has (rv_groups s ! eq_group (rv_queries (set_query i ph s) ! j)) rid" if "j < length (rv_queries s)" for j
    using unaskedD(2)[OF assms(1)] i that by (cases "j = i") auto
  then show ?thesis using unaskedD(1)[OF assms(1)] by (simp add: unasked_def list_all_length no_writer_def)
qed

lemma process_kept:
  "process_pulling_result resp g remaining s = ((rem', t), r) \<Longrightarrow> tasks_kept s t \<and> set rem' \<subseteq> set remaining"
proof -
  assume p: "process_pulling_result resp g remaining s = ((rem', t), r)"
  let ?s = "s\<lparr>rv_failed := rv_failed s \<union> set (response_errors resp remaining)\<rparr>"
  have "tasks_kept ?s (fst (count_results g (or_empty (xs_ok_reqs resp) @ response_errors resp remaining) ?s))" by (rule kept_count)
  moreover have "t = fst (count_results g (or_empty (xs_ok_reqs resp) @ response_errors resp remaining) ?s) \<and> set rem' \<subseteq> set remaining"
    using p by (auto simp: process_pulling_result_def Let_def split: prod.splits sum.splits)
  moreover have "tasks_kept s ?s" by (rule tasks_kept_eq) simp_all
  ultimately show ?thesis using tasks_kept_trans by blast
qed

lemma unasked_fail:
  assumes "unasked s rid"
  shows "unasked (pull_fail cfg i exc s) rid"
proof (cases "pt_phase (rv_pulls s ! i) = Pull_Published \<and> pt_remaining (rv_pulls s ! i) \<noteq> []")
  case True
  then show ?thesis unfolding pull_fail_def Let_def
    by simp (rule unasked_set_pull, rule unasked_kept[OF assms], rule tasks_kept_eq, simp_all)
next
  case False
  obtain rem' t r where p: "process_pulling_result \<lparr>xs_status = ERROR, xs_ok_reqs = None, xs_err_reqs = None, xs_err_msg = Some (exc_text exc)\<rparr>
      (pt_group (rv_pulls s ! i)) (pt_remaining (rv_pulls s ! i)) s = ((rem', t), r)" by (metis surj_pair)
  note k = process_kept[OF p]
  have "unasked (set_pull i rem' Pull_Over t) rid"
    by (rule unasked_set_pull[OF unasked_kept[OF assms]]) (use k in \<open>auto simp: tasks_kept_def\<close>)
  then show ?thesis unfolding pull_fail_def Let_def p using False by auto
qed

lemma unasked_response:
  assumes "unasked s rid"
  shows "unasked (pull_response cfg i resp s) rid"
proof -
  obtain rem' t r where p: "process_pulling_result resp (pt_group (rv_pulls s ! i)) (pt_remaining (rv_pulls s ! i)) s = ((rem', t), r)"
    by (metis surj_pair)
  note k = process_kept[OF p]
  have u: "unasked t rid" by (rule unasked_kept[OF assms]) (use k in simp)
  have "unasked (set_pull i rem' ph t) rid" for ph
    by (rule unasked_set_pull[OF u]) (use k in \<open>auto simp: tasks_kept_def\<close>)
  then show ?thesis unfolding pull_response_def Let_def p by (auto intro: unasked_fail[OF u] split: sum.split)
qed

lemma kept_fail_group: "tasks_kept s (fail_group metas s)"
proof (induction metas s rule: fail_group.induct)
  case (2 k m metas s)
  then show ?case by (auto intro: tasks_kept_refl tasks_kept_trans[OF kept_finish] split: option.split)
qed (simp add: tasks_kept_refl)

lemma unasked_receive:
  assumes "unasked s rid" and "\<not> dict_has (rv_groups s ! g) rid"
  shows "unasked (fst (receive_kv cfg engine g s)) rid"
proof -
  have spawn: "unasked (fst (spawn_pulls engine g ranks t)) rid" if "unasked t rid" "\<not> dict_has (rv_groups t ! g) rid" for ranks t
  proof -
    obtain addrs r where sp: "spawn_pulls engine g ranks t =
        (t\<lparr>rv_pulls := rv_pulls t @ map (new_pull g (dict_keys (rv_groups t ! g))) addrs\<rparr>, r)" using spawn_pulls_eq by blast
    have "rid \<notin> set (dict_keys (rv_groups t ! g))" using that(2) pd.keys_get by (metis dict_has_def)
    then show ?thesis using that(1) unfolding sp by (auto simp: unasked_def no_writer_def list_all_iff new_pull_def)
  qed
  define s1 where "s1 = (\<lambda>n. s\<lparr>rv_groups := (rv_groups s)[g := dict_map (\<lambda>m. m\<lparr>pm_pull_tasks_count := n\<rparr>) (rv_groups s ! g)]\<rparr>)"
  have "same_groups s (s1 n)" for n
    by (rule same_groups_upd[of "dict_map (\<lambda>m. m\<lparr>pm_pull_tasks_count := n\<rparr>) (rv_groups s ! g)"]) (simp_all add: s1_def dict_has_def dict_simps)
  then have k: "tasks_kept s (s1 n)" for n by (simp add: tasks_kept_def s1_def)
  then have "\<not> dict_has (rv_groups (s1 n) ! g) rid" for n using assms(2) by (simp add: tasks_kept_def same_groups_def)
  then have "unasked (fst (spawn_pulls engine g ranks (s1 n))) rid" for ranks n by (rule spawn[OF unasked_kept[OF assms(1) k]])
  then show ?thesis using assms(1) by (auto simp: receive_kv_def s1_def split: option.split sum.split)
qed

lemma unasked_after_query:
  assumes "unasked s rid" and "query_in i s = Some ph" and "ph \<noteq> Query_Over"
  shows "unasked (after_query cfg i s) rid"
proof -
  have u: "unasked (set_query i Query_Over s) rid" by (rule unasked_set_query[OF assms])
  have "\<not> dict_has (rv_groups s ! eq_group (rv_queries s ! i)) rid"
    by (rule unaskedD(2)[OF assms(1)]) (use assms(2,3) in \<open>auto simp: query_in_def split: if_splits\<close>)
  then show ?thesis unfolding after_query_def Let_def
    by (auto intro: unasked_kept[OF u kept_fail_group] unasked_receive[OF u])
qed

lemma unasked_net:
  assumes "unasked s rid"
  shows "unasked (net_step cfg n s) rid"
proof (cases n)
  case (Query_Run i)
  have "unasked (query_start i s) rid" if q: "query_in i s = Some Query_Created"
  proof -
    have k: "unasked (s\<lparr>rv_pending := a, rv_wakeups := b\<rparr>) rid" for a b
      by (rule unasked_kept[OF assms]) (rule tasks_kept_eq, simp_all)
    have "unasked (set_query i ph (s\<lparr>rv_pending := a, rv_wakeups := b\<rparr>)) rid" for ph a b
      by (rule unasked_set_query[OF k, where ph' = Query_Created]) (use q in \<open>auto simp: query_in_def split: if_splits\<close>)
    moreover have "unasked (set_query i ph s) rid" for ph by (rule unasked_set_query[OF assms q]) simp
    ultimately show ?thesis by (auto simp: query_start_def Let_def split: list.split option.split)
  qed
  then show ?thesis using Query_Run assms by simp
next
  case (Query_Reply i reply)
  have "unasked (after_query cfg i (connect_to_prefiller_bootstrap addr reply s)) rid" if q: "query_in i s = Some (Query_Asking addr)" for addr
  proof -
    obtain a b c d where t: "connect_to_prefiller_bootstrap addr reply s =
        s\<lparr>rv_agents := a, rv_tp_size := b, rv_pending := c, rv_wakeups := d\<rparr>" using connect_frame by blast
    show ?thesis unfolding t
      by (rule unasked_after_query[OF unasked_kept[OF assms], where ph = "Query_Asking addr"])
        (rule tasks_kept_eq, use q in \<open>auto simp: query_in_def split: if_splits\<close>)
  qed
  then show ?thesis using Query_Reply assms by (auto split: option.split query_phase.split)
next
  case (Query_Wake i)
  then show ?thesis using assms unasked_after_query[OF assms] by (auto split: option.split query_phase.split)
next
  case (Pull_Send i)
  then show ?thesis using assms unasked_set_pull[OF assms] by (simp add: pull_publish_def)
qed (use assms unasked_fail unasked_response in simp_all)

text \<open>The tasks neither admit a receive nor drop one, and they do nothing where none was admitted.\<close>

lemma count_events: "rv_recv_events (fst (count_results g rids s)) = rv_recv_events s"
  by (induction g rids s rule: count_results.induct) (auto simp: finish_receive_def Let_def split: option.split)

lemma process_events: "process_pulling_result resp g remaining s = ((rem', t), r) \<Longrightarrow> rv_recv_events t = rv_recv_events s"
  using count_events[of g "or_empty (xs_ok_reqs resp) @ response_errors resp remaining"
      "s\<lparr>rv_failed := rv_failed s \<union> set (response_errors resp remaining)\<rparr>"]
  by (auto simp: process_pulling_result_def Let_def split: prod.splits sum.splits)

lemma set_pull_events: "rv_recv_events (set_pull i remaining phase s) = rv_recv_events s"
  by (simp add: set_pull_def)

lemma fail_events: "rv_recv_events (pull_fail cfg i exc s) = rv_recv_events s"
proof -
  obtain rem' t r where p: "process_pulling_result \<lparr>xs_status = ERROR, xs_ok_reqs = None, xs_err_reqs = None, xs_err_msg = Some (exc_text exc)\<rparr>
      (pt_group (rv_pulls s ! i)) (pt_remaining (rv_pulls s ! i)) s = ((rem', t), r)" by (metis surj_pair)
  then show ?thesis using process_events[OF p] by (simp add: pull_fail_def Let_def set_pull_events)
qed

lemma response_events: "rv_recv_events (pull_response cfg i resp s) = rv_recv_events s"
proof -
  obtain rem' t r where p: "process_pulling_result resp (pt_group (rv_pulls s ! i)) (pt_remaining (rv_pulls s ! i)) s = ((rem', t), r)"
    by (metis surj_pair)
  then show ?thesis using process_events[OF p] by (simp add: pull_response_def Let_def set_pull_events fail_events split: sum.split)
qed

lemma receive_kv_events: "rv_recv_events (fst (receive_kv cfg engine g s)) = rv_recv_events s"
proof -
  have "rv_recv_events (fst (spawn_pulls engine g ranks t)) = rv_recv_events t" for ranks t
    by (induction ranks arbitrary: t) (auto split: sum.split)
  then show ?thesis by (simp add: receive_kv_def split: option.split sum.split)
qed

lemma after_query_events: "rv_recv_events (after_query cfg i s) = rv_recv_events s"
proof -
  have "rv_recv_events (fail_group metas t) = rv_recv_events t" for metas t
    by (induction metas t rule: fail_group.induct) (auto simp: finish_receive_def Let_def split: option.split)
  then show ?thesis by (simp add: after_query_def Let_def receive_kv_events)
qed

lemma net_events: "rv_recv_events (net_step cfg n s) = rv_recv_events s"
proof (cases n)
  case (Query_Run i)
  then show ?thesis by (auto simp: query_start_def Let_def split: list.split option.split)
next
  case (Query_Reply i reply)
  have "rv_recv_events (connect_to_prefiller_bootstrap addr reply s) = rv_recv_events s" for addr
    using connect_frame[of addr reply s] by auto
  then show ?thesis using Query_Reply by (simp add: after_query_events split: option.split query_phase.split)
next
  case (Query_Wake i)
  then show ?thesis by (simp add: after_query_events split: option.split query_phase.split)
qed (simp_all add: pull_publish_def set_pull_events fail_events response_events)

lemma net_new: "net_step cfg n new_receiver = new_receiver"
  by (cases n) (simp_all add: new_receiver_def query_in_def pull_in_def)

text \<open>Whoever is not kept is not asked for.\<close>

lemma inv_unasked:
  assumes "recv_inv cfg tr t" and "\<not> dict_has (rv_recv_events t) rid"
  shows "unasked t rid"
proof -
  have w: "\<not> waiting t g rid" for g using assms(2) by (simp add: waiting_def)
  have "\<not> dict_has (rv_groups t ! eq_group q) rid" if "q \<in> set (rv_queries t)" "eq_phase q \<noteq> Query_Over" for q
    using assms(1) w that unfolding recv_inv_def queries_ok_def open_query_def by blast
  then show ?thesis using no_writerI[OF assms(1) w] by (auto simp: unasked_def list_all_iff)
qed

text \<open>A fence that comes back leaves its requests unasked, and those that were.\<close>

lemma fence_unasked:
  assumes "recv_run cfg tr s" and "wait_for_receives (Some rids) s = Some (Inr t)"
  shows "rid \<in> set rids \<Longrightarrow> unasked t rid" and "unasked s rid' \<Longrightarrow> unasked t rid'"
    and "rid \<in> set rids \<Longrightarrow> \<not> dict_has (rv_recv_events t) rid"
    and "dict_has (rv_recv_events t) rid' \<Longrightarrow> dict_has (rv_recv_events s) rid'"
proof -
  have none: "rv_error s = None"
    using assms(2) by (auto simp: wait_for_receives_def check_receive_error_def split: option.splits)
  note inv = recv_run_inv[OF assms(1) none]
  note f = fence_closed[OF inv assms(2)]
  have "drop_state (set rids) s (t\<lparr>rv_failed := rv_failed s - set rids\<rparr>)"
    using assms(2) retire_all[of rids s] none
    by (auto simp: wait_for_receives_def check_receive_error_def Let_def drop_state_def split: if_splits)
  then have k: "tasks_kept s t" and e: "dict_has (rv_recv_events t) r \<Longrightarrow> dict_has (rv_recv_events s) r" for r
    by (auto simp: drop_state_def dict_has_def split: if_splits intro: tasks_kept_eq)
  show "dict_has (rv_recv_events t) rid' \<Longrightarrow> dict_has (rv_recv_events s) rid'" by (rule e)
  show "rid \<in> set rids \<Longrightarrow> \<not> dict_has (rv_recv_events t) rid" using f(6) by simp
  from k show "unasked s rid' \<Longrightarrow> unasked t rid'" by (rule unasked_kept[rotated])
  show "rid \<in> set rids \<Longrightarrow> unasked t rid" by (rule inv_unasked[OF f(1)]) (use f(6) in simp)
qed

lemma fence_new: "wait_for_receives (Some [rid]) new_receiver = Some (Inr s) \<Longrightarrow> s = new_receiver"
  by (simp add: wait_for_receives_def check_receive_error_def new_receiver_def retire_def dict_simps dict_pop_def)

section \<open>The transfer as the worker calls it\<close>

text \<open>One step of a task of a loop; a step that cannot be taken changes nothing.\<close>

datatype loop_event = At_Receiver net_event | At_Sender send_act

fun loop_step :: "receiver_cfg \<Rightarrow> loop_event \<Rightarrow> service \<Rightarrow> service" where
  "loop_step cfg (At_Receiver n) v =
     (if legal (Act_Net n) (tv_receiver v) then v\<lparr>tv_receiver := net_step cfg n (tv_receiver v)\<rparr> else v)"
| "loop_step cfg (At_Sender a) v =
     (if loop_act a \<and> send_legal a (tv_sender v)
      then (case send_step (rc_transfer cfg) (tv_timeout v) a (tv_sender v) of None \<Rightarrow> v | Some s \<Rightarrow> v\<lparr>tv_sender := s\<rparr>)
      else v)"

text \<open>
  The surroundings of a call: what the loops do before it and while it waits, the clock, and the platform
  where memory is registered and given up.
\<close>

record loop_env =
  ln_moves :: "service \<Rightarrow> loop_event list"
  ln_now :: rat
  ln_platform :: register_env
  ln_caches :: "(string, cache_value) dict"
  ln_registry :: registry
  ln_one_by_one :: bool
  ln_raises :: "int \<Rightarrow> bool"

definition moved :: "receiver_cfg \<Rightarrow> loop_env \<Rightarrow> service \<Rightarrow> service" where
  "moved cfg env v = fold (loop_step cfg) (ln_moves env v) v"

text \<open>
  A call that is still blocked where the surroundings end has no value. \<open>still_waiting\<close> stands for it; it is
  no exception of the code, and \<open>Inr\<close> says that the call has come back.
\<close>

definition still_waiting :: pyexc where
  "still_waiting = RuntimeError ''the call has not come back''"

definition until_read :: "receiver_cfg \<Rightarrow> loop_env \<Rightarrow> service \<Rightarrow> service result" where
  "until_read cfg env v =
     (let v' = moved cfg env v in if sn_fence (tv_sender v') = None then Inr v' else Inl still_waiting)"

definition call_cancel :: "receiver_cfg \<Rightarrow> loop_env \<Rightarrow> string \<Rightarrow> string \<Rightarrow> service \<Rightarrow> service result" where
  "call_cancel cfg env rid tid v =
     (case service_cancel rid tid (moved cfg env v) of Inl e \<Rightarrow> Inl e | Inr v' \<Rightarrow> until_read cfg env v')"

definition call_preempt :: "receiver_cfg \<Rightarrow> loop_env \<Rightarrow> string \<Rightarrow> service \<Rightarrow> service result" where
  "call_preempt cfg env rid v =
     (case service_preempt rid (moved cfg env v) of None \<Rightarrow> Inl still_waiting
      | Some (_, Inl e) \<Rightarrow> Inl e
      | Some (v', Inr _) \<Rightarrow> until_read cfg env v')"

definition call_close :: "receiver_cfg \<Rightarrow> loop_env \<Rightarrow> service \<Rightarrow> service \<times> unit result" where
  "call_close cfg env v =
     (case close_begin (moved cfg env v) of
        (v', Close_Over r) \<Rightarrow> (v', r)
      | (v', Close_Fencing) \<Rightarrow>
          (case close_end (ln_one_by_one env) (ln_raises env) (moved cfg env v') of
             None \<Rightarrow> (moved cfg env v', Inl still_waiting) | Some vr \<Rightarrow> vr))"

text \<open>A call that raises ends the worker, so the state beside its error is dropped.\<close>

definition value_of :: "service \<times> 'a result \<Rightarrow> ('a \<times> service) result" where
  "value_of vr = map_sum id (\<lambda>x. (x, fst vr)) (snd vr)"

definition service_ops :: "receiver_cfg \<Rightarrow> loop_env \<Rightarrow> service transfer_ops" where
  "service_ops cfg env =
     \<lparr>xo_register = (\<lambda>v. let (vw, r) = service_register (ln_platform env) (ln_caches env) v (ln_registry env) in (fst vw, r)),
      xo_sync = moved cfg env,
      xo_cancel = call_cancel cfg env,
      xo_prepare = (\<lambda>rid tid v. service_prepare rid tid (moved cfg env v)),
      xo_send = (\<lambda>ev v. service_send (ln_now env) ev (moved cfg env v)),
      xo_recv = (\<lambda>evs v. map_sum id snd (value_of (service_recv cfg evs (moved cfg env v)))),
      xo_poll = (\<lambda>v. value_of (service_poll (ln_now env) (moved cfg env v))),
      xo_errors = (\<lambda>v. value_of (service_take_errors (moved cfg env v))),
      xo_preempt = call_preempt cfg env,
      xo_close = call_close cfg env\<rparr>"

section \<open>The process keeps both halves' executions\<close>

text \<open>Between two calls the receiver and the sender are in executions of their own, and no fence holds.\<close>

definition loops_ok :: "receiver_cfg \<Rightarrow> service \<Rightarrow> bool" where
  "loops_ok cfg v \<longleftrightarrow> (\<exists>tr. recv_run cfg tr (tv_receiver v)) \<and> send_run (rc_transfer cfg) (tv_timeout v) (tv_sender v)"

definition transfer_ok :: "receiver_cfg \<Rightarrow> service \<Rightarrow> bool" where
  "transfer_ok cfg v \<longleftrightarrow> loops_ok cfg v \<and> sn_fence (tv_sender v) = None"

lemma loops_receiver: "loops_ok cfg v \<Longrightarrow> recv_run cfg tr s \<Longrightarrow> loops_ok cfg (v\<lparr>tv_receiver := s\<rparr>)"
  by (auto simp: loops_ok_def)

lemma loops_sender: "loops_ok cfg v \<Longrightarrow> send_run (rc_transfer cfg) (tv_timeout v) s \<Longrightarrow> loops_ok cfg (v\<lparr>tv_sender := s\<rparr>)"
  by (auto simp: loops_ok_def)

lemma loops_act:
  assumes "loops_ok cfg v" and "legal a (tv_receiver v)" and "do_act cfg a (tv_receiver v) = Some s"
  shows "loops_ok cfg (v\<lparr>tv_receiver := s\<rparr>)"
  using assms by (auto simp: loops_ok_def intro: run_step)

lemma loops_send:
  assumes "loops_ok cfg v" and "send_legal a (tv_sender v)" and "send_step (rc_transfer cfg) (tv_timeout v) a (tv_sender v) = Some s"
  shows "loops_ok cfg (v\<lparr>tv_sender := s\<rparr>)"
  using assms by (auto simp: loops_ok_def intro: send_next)

text \<open>What a step of a loop leaves alone.\<close>

definition moved_from :: "receiver_cfg \<Rightarrow> service \<Rightarrow> service \<Rightarrow> bool" where
  "moved_from cfg v v' \<longleftrightarrow> (loops_ok cfg v \<longrightarrow> loops_ok cfg v') \<and>
     tv_producer v' = tv_producer v \<and> tv_consumer v' = tv_consumer v \<and> tv_timeout v' = tv_timeout v \<and>
     (\<forall>rid. unasked (tv_receiver v) rid \<longrightarrow> unasked (tv_receiver v') rid) \<and>
     (\<forall>rid. dict_has (rv_recv_events (tv_receiver v')) rid \<longrightarrow> dict_has (rv_recv_events (tv_receiver v)) rid) \<and>
     (tv_receiver v = new_receiver \<longrightarrow> tv_receiver v' = new_receiver) \<and>
     moves_on (tv_sender v) (tv_sender v') \<and> sources_rel same_owner (tv_sender v) (tv_sender v') \<and>
     sources_rel same_transfer (tv_sender v) (tv_sender v')"

lemma moved_from_refl: "moved_from cfg v v"
  by (simp add: moved_from_def moves_on_refl owner.rel_refl ids.rel_refl)

lemma moved_from_trans: "moved_from cfg v v' \<Longrightarrow> moved_from cfg v' v'' \<Longrightarrow> moved_from cfg v v''"
  unfolding moved_from_def using moves_on_trans owner.rel_trans ids.rel_trans by metis

lemma loop_step_moves: "moved_from cfg v (loop_step cfg ev v)"
proof (cases ev)
  case (At_Receiver n)
  have "loops_ok cfg (v\<lparr>tv_receiver := net_step cfg n (tv_receiver v)\<rparr>)" if "loops_ok cfg v" "legal (Act_Net n) (tv_receiver v)"
    by (rule loops_act[OF that]) simp
  then show ?thesis using At_Receiver unasked_net
    by (auto simp: moved_from_def moves_on_refl owner.rel_refl ids.rel_refl net_events net_new)
next
  case (At_Sender a)
  show ?thesis
  proof (cases "loop_act a \<and> send_legal a (tv_sender v)")
    case True
    show ?thesis
    proof (cases "send_step (rc_transfer cfg) (tv_timeout v) a (tv_sender v)")
      case None
      then show ?thesis using At_Sender True by (simp add: moved_from_refl)
    next
      case (Some s)
      then show ?thesis using At_Sender True loops_send[OF _ _ Some] send_step_moves[OF _ Some] owner.rel_loop[OF _ Some]
          ids.rel_loop[OF _ Some] by (simp add: moved_from_def)
    qed
  qed (use At_Sender in \<open>auto simp: moved_from_refl\<close>)
qed

lemma moved_moves: "moved_from cfg v (moved cfg env v)"
  unfolding moved_def
  by (rule fold_inv[where P = "moved_from cfg v"]) (auto intro: moved_from_refl moved_from_trans loop_step_moves)

text \<open>The sources a fence covers stay covered while the loops move.\<close>

lemma moved_holds:
  assumes ok: "loops_ok cfg v" and i: "i < length (sn_metas (tv_sender v))" "sb_transfer_id (sn_metas (tv_sender v) ! i) = tid"
    and h: "fence_holds rid tid i (tv_sender v)"
  shows "fence_holds rid tid i (tv_sender (moved cfg env v))"
proof -
  let ?P = "\<lambda>u. moved_from cfg v u \<and> fence_holds rid tid i (tv_sender u)"
  have "?P (loop_step cfg ev u)" if u: "?P u" for ev u
  proof -
    have m: "moved_from cfg v (loop_step cfg ev u)" using u moved_from_trans loop_step_moves by blast
    have ui: "i < length (sn_metas (tv_sender u))" "sb_transfer_id (sn_metas (tv_sender u) ! i) = tid"
      using u i by (auto simp: moved_from_def sources_rel_def same_transfer_def)
    have inv: "send_inv (rc_transfer cfg) (tv_sender u)" using u ok send_run_inv by (auto simp: moved_from_def loops_ok_def)
    have "fence_holds rid tid i (tv_sender (loop_step cfg ev u))"
    proof (cases ev)
      case (At_Sender a)
      then show ?thesis using u step_holds[OF inv ui] by (auto split: option.split)
    qed (use u in simp)
    then show ?thesis using m by blast
  qed
  moreover have "?P v" using h moved_from_refl by blast
  ultimately have "?P (moved cfg env v)" unfolding moved_def by (rule fold_inv[where P = ?P, rotated])
  then show ?thesis by blast
qed

lemma until_readD: "until_read cfg env v = Inr v' \<Longrightarrow> v' = moved cfg env v \<and> sn_fence (tv_sender v') = None"
  by (auto simp: until_read_def Let_def split: if_splits)

lemma until_read_ok: "loops_ok cfg v \<Longrightarrow> until_read cfg env v = Inr v' \<Longrightarrow> transfer_ok cfg v'"
  using until_readD[of cfg env v v'] moved_moves[of cfg v env] by (auto simp: transfer_ok_def moved_from_def)

text \<open>Without a fence a loop sets none, so that the next call finds none either.\<close>

lemma loop_act_fence:
  assumes "loop_act a" and "send_step cfg timeout a s = Some t" and "sn_fence s = None"
  shows "sn_fence t = None"
  using assms by (cases a) (auto simp: session_wake_fence finish_batch_fence session_abort_def session_timeout_def
      open_session_def Let_def fold_add_fence split: if_splits session_phase.splits sum.splits prod.splits)

lemma moved_fence: "sn_fence (tv_sender v) = None \<Longrightarrow> sn_fence (tv_sender (moved cfg env v)) = None"
  unfolding moved_def
proof (rule fold_inv[where P = "\<lambda>u. sn_fence (tv_sender u) = None"])
  fix ev and u :: service assume "sn_fence (tv_sender u) = None"
  then show "sn_fence (tv_sender (loop_step cfg ev u)) = None"
    by (cases ev) (auto split: option.split dest: loop_act_fence)
qed

lemma moved_ok: "transfer_ok cfg v \<Longrightarrow> transfer_ok cfg (moved cfg env v)"
  using moved_fence moved_moves[of cfg v env] by (auto simp: transfer_ok_def moved_from_def)

text \<open>Every call.\<close>

lemma sender_call_ok:
  assumes "transfer_ok cfg v" and "sender_call f v = Inr v'"
    and "send_step (rc_transfer cfg) (tv_timeout v) a (tv_sender v) = Some (f (tv_sender v))" and "send_legal a (tv_sender v)"
  shows "loops_ok cfg v'"
  using assms loops_send[OF _ assms(4,3)] by (auto simp: sender_call_def transfer_ok_def split: if_splits)

lemma prepare_fence: "sn_fence (snd (prepare_send rid tid s)) = sn_fence s" "sn_fence (publish_send timeout now ev s) = sn_fence s"
proof -
  have d: "sn_fence (snd (default_meta p t u)) = sn_fence u" for p t u by (simp add: default_meta_def split: option.split)
  have p: "sn_fence (snd (prepare_send r t u)) = sn_fence u" for r t u
    using d[of r t u] by (cases "default_meta r t u") (simp add: prepare_send_def)
  show "sn_fence (snd (prepare_send rid tid s)) = sn_fence s" by (rule p)
  show "sn_fence (publish_send timeout now ev s) = sn_fence s"
    using p[of "sd_request_id ev" "sd_transfer_id ev" s]
    by (cases "prepare_send (sd_request_id ev) (sd_transfer_id ev) s") (simp add: publish_send_def)
qed

lemma prepare_ok: "transfer_ok cfg v \<Longrightarrow> service_prepare rid tid v = Inr v' \<Longrightarrow> transfer_ok cfg v'"
  using sender_call_ok[of cfg v _ v' "Act_Prepare rid tid"] prepare_fence(1)
  by (auto simp: transfer_ok_def service_prepare_def sender_call_def split: if_splits)

lemma send_ok: "transfer_ok cfg v \<Longrightarrow> service_send now ev v = Inr v' \<Longrightarrow> transfer_ok cfg v'"
  using sender_call_ok[of cfg v _ v' "Act_Send now ev"] prepare_fence(2)
  by (auto simp: transfer_ok_def service_send_def sender_call_def split: if_splits)

lemma cancel_ok: "transfer_ok cfg v \<Longrightarrow> call_cancel cfg env rid tid v = Inr v' \<Longrightarrow> transfer_ok cfg v'"
proof -
  assume ok: "transfer_ok cfg v" and c: "call_cancel cfg env rid tid v = Inr v'"
  obtain u where u: "service_cancel rid tid (moved cfg env v) = Inr u" "until_read cfg env u = Inr v'"
    using c by (auto simp: call_cancel_def split: sum.splits)
  have "loops_ok cfg u"
    by (rule sender_call_ok[OF moved_ok[OF ok] u(1)[unfolded service_cancel_def], where a = "Act_Cancel rid tid"])
       (use moved_ok[OF ok] in \<open>auto simp: transfer_ok_def\<close>)
  then show ?thesis by (rule until_read_ok[OF _ u(2)])
qed

lemma recv_ok:
  assumes "transfer_ok cfg v" and "service_recv cfg evs v = (v', Inr ())"
  shows "transfer_ok cfg v'"
proof -
  have "v' = v\<lparr>tv_receiver := fst (start_receive cfg evs (tv_receiver v))\<rparr>"
    using assms(2) by (auto simp: service_recv_def split: if_splits prod.splits)
  moreover have "loops_ok cfg (v\<lparr>tv_receiver := fst (start_receive cfg evs (tv_receiver v))\<rparr>)"
    by (rule loops_act[of _ _ "Act_Recv evs"]) (use assms(1) in \<open>simp_all add: transfer_ok_def\<close>)
  ultimately show ?thesis using assms(1) by (simp add: transfer_ok_def)
qed

lemma errors_ok:
  assumes "transfer_ok cfg v" and "service_take_errors v = (v', Inr es)"
  shows "transfer_ok cfg v'"
proof (cases "tv_consumer v")
  case True
  then obtain s where s: "take_receive_errors (tv_receiver v) = Inr (es, s)" "v' = v\<lparr>tv_receiver := s\<rparr>"
    using assms(2) by (auto simp: service_take_errors_def split: if_splits sum.splits)
  have "loops_ok cfg (v\<lparr>tv_receiver := s\<rparr>)"
    by (rule loops_act[of _ _ Act_Errors]) (use assms(1) s(1) in \<open>simp_all add: transfer_ok_def\<close>)
  then show ?thesis using assms(1) s(2) by (simp add: transfer_ok_def)
qed (use assms in \<open>auto simp: service_take_errors_def\<close>)

definition polled_sends :: "rat \<Rightarrow> service \<Rightarrow> service" where
  "polled_sends now v =
     (if tv_producer v then v\<lparr>tv_sender := snd (fetch_finished_sending_reqs now (tv_sender v))\<rparr> else v)"

lemma service_poll_cases:
  assumes "service_poll now v = (v', Inr r)"
  shows "v' = polled_sends now v \<or>
    (\<exists>rs s. fetch_finished_recving_reqs (tv_receiver v) = Inr (rs, s) \<and> v' = (polled_sends now v)\<lparr>tv_receiver := s\<rparr>)"
proof -
  have tc: "tv_consumer (polled_sends now v) = tv_consumer v" "tv_receiver (polled_sends now v) = tv_receiver v"
    by (simp_all add: polled_sends_def)
  obtain sends where "(if tv_producer v then let (rs, s) = fetch_finished_sending_reqs now (tv_sender v) in (rs, v\<lparr>tv_sender := s\<rparr>)
      else ([], v)) = (sends, polled_sends now v)"
    by (cases "tv_producer v"; cases "fetch_finished_sending_reqs now (tv_sender v)") (simp_all add: polled_sends_def)
  from assms[unfolded service_poll_def this] show ?thesis
    by (cases "tv_running v"; cases "tv_consumer v"; cases "fetch_finished_recving_reqs (tv_receiver v)")
       (auto simp: tc split: prod.splits)
qed

lemma poll_ok:
  assumes "transfer_ok cfg v" and "service_poll now v = (v', Inr r)"
  shows "transfer_ok cfg v'"
proof -
  have ok: "loops_ok cfg (polled_sends now v)"
    using assms(1) loops_send[of cfg v "Act_Poll_Sends now"] by (auto simp: polled_sends_def transfer_ok_def)
  have f: "sn_fence (tv_sender (polled_sends now v)) = None" "tv_receiver (polled_sends now v) = tv_receiver v"
    using assms(1) by (simp_all add: polled_sends_def transfer_ok_def fetch_finished_sending_reqs_def Let_def)
  have "loops_ok cfg ((polled_sends now v)\<lparr>tv_receiver := s\<rparr>)"
    if "fetch_finished_recving_reqs (tv_receiver v) = Inr (rs, s)" for rs s
    by (rule loops_act[OF ok, of Act_Poll]) (use that f in simp_all)
  then show ?thesis using service_poll_cases[OF assms(2)] ok f by (auto simp: transfer_ok_def)
qed

text \<open>Preempting: the receive fence, the send fence, and what they leave.\<close>

definition withdrawn :: "sender \<Rightarrow> sender \<Rightarrow> string \<Rightarrow> bool" where
  "withdrawn s t rid \<longleftrightarrow> (\<forall>i < length (sn_metas s).
     sb_p_req_id (sn_metas s ! i) = rid \<and> sb_ready (sn_metas s ! i) \<longrightarrow> \<not> in_use t i)"

lemma moves_on_gone:
  assumes "moves_on s t" and "reqs_ok s" and "reqs_ok t" and "i < length (sn_metas s)" and "\<not> in_use s i"
  shows "\<not> in_use t i"
  using assms in_use_get unfolding moves_on_def by metis

lemma moves_on_withdrawn:
  assumes "moves_on t u" and "reqs_ok t" and "reqs_ok u" and "length (sn_metas s) \<le> length (sn_metas t)" and "withdrawn s t rid"
  shows "withdrawn s u rid"
  unfolding withdrawn_def
proof (intro allI impI)
  fix i assume i: "i < length (sn_metas s)" and r: "sb_p_req_id (sn_metas s ! i) = rid \<and> sb_ready (sn_metas s ! i)"
  have "i < length (sn_metas t)" using i assms(4) by simp
  moreover have "\<not> in_use t i" using assms(5) i r unfolding withdrawn_def by blast
  ultimately show "\<not> in_use u i" by (rule moves_on_gone[OF assms(1-3)])
qed

lemma loops_reqs: "loops_ok cfg v \<Longrightarrow> reqs_ok (tv_sender v)"
  by (auto simp: loops_ok_def send_inv_def dest: send_run_inv)

lemma preempt_send_step:
  assumes "loops_ok cfg v" and "sn_fence (tv_sender v) = None"
  shows "moved_from cfg v (v\<lparr>tv_sender := preempt_send rid (tv_sender v)\<rparr>)"
    and "i < length (sn_metas (tv_sender v)) \<Longrightarrow> sb_p_req_id (sn_metas (tv_sender v) ! i) = rid \<Longrightarrow> sb_ready (sn_metas (tv_sender v) ! i) \<Longrightarrow>
      fence_holds rid (sb_transfer_id (sn_metas (tv_sender v) ! i)) i (preempt_send rid (tv_sender v))"
proof -
  let ?s = "tv_sender v"
  let ?tids = "map fst (filter (\<lambda>(_, i). sb_p_req_id (sn_metas ?s ! i) = rid \<and> sb_ready (sn_metas ?s ! i)) (sn_reqs_need_send ?s))"
  have st: "send_step (rc_transfer cfg) (tv_timeout v) (Act_Preempt rid) ?s = Some (preempt_send rid ?s)" using assms(2) by simp
  show "moved_from cfg v (v\<lparr>tv_sender := preempt_send rid ?s\<rparr>)"
    using loops_send[OF _ _ st] send_step_moves[OF _ st] owner.rel_cancel[of ?s rid ?tids] ids.rel_cancel[of ?s rid ?tids]
    by (simp add: moved_from_def preempt_send_def)
  show "fence_holds rid (sb_transfer_id (sn_metas ?s ! i)) i (preempt_send rid ?s)"
    if i: "i < length (sn_metas ?s)" and r: "sb_p_req_id (sn_metas ?s ! i) = rid" "sb_ready (sn_metas ?s ! i)"
    unfolding preempt_send_def
  proof (rule cancel_sends_holds[OF loops_reqs[OF assms(1)] i refl])
    assume "in_use ?s i"
    then obtain tid where "(tid, i) \<in> set (sn_reqs_need_send ?s)" by (auto simp: in_use_def)
    moreover from this have "tid = sb_transfer_id (sn_metas ?s ! i)" using loops_reqs[OF assms(1)] by (auto simp: reqs_ok_def)
    ultimately show "sb_transfer_id (sn_metas ?s ! i) \<in> set ?tids" using r by force
  qed
qed

lemma fence_receives_moves:
  assumes "loops_ok cfg v" and "fence_receives (Some [rid]) v = Some (v', Inr ())"
  shows "moved_from cfg v v'" and "unasked (tv_receiver v') rid \<and> \<not> dict_has (rv_recv_events (tv_receiver v')) rid"
    and "tv_sender v' = tv_sender v"
proof -
  obtain s where s: "wait_for_receives (Some [rid]) (tv_receiver v) = Some (Inr s)" "v' = v\<lparr>tv_receiver := s\<rparr>"
    using assms(2) by (auto simp: fence_receives_def split: if_splits option.splits sum.splits)
  obtain tr where run: "recv_run cfg tr (tv_receiver v)" using assms(1) by (auto simp: loops_ok_def)
  note u = fence_unasked[OF run s(1)]
  have "loops_ok cfg (v\<lparr>tv_receiver := s\<rparr>)" by (rule loops_act[OF assms(1), of "Act_Fence (Some [rid])"]) (use s(1) in simp_all)
  then show "moved_from cfg v v'" using u(2,4) fence_new[of rid s] s(1)
    by (auto simp: s(2) moved_from_def moves_on_refl owner.rel_refl ids.rel_refl)
  show "unasked (tv_receiver v') rid \<and> \<not> dict_has (rv_recv_events (tv_receiver v')) rid" "tv_sender v' = tv_sender v"
    using u(1,3) by (simp_all add: s(2))
qed

lemma call_preempt_fences:
  assumes ok: "transfer_ok cfg v" and c: "call_preempt cfg env rid v = Inr v'"
  shows "transfer_ok cfg v' \<and> moved_from cfg v v' \<and>
    (tv_consumer v \<longrightarrow> unasked (tv_receiver v') rid \<and> \<not> dict_has (rv_recv_events (tv_receiver v')) rid) \<and>
    (tv_producer v \<longrightarrow> withdrawn (tv_sender v) (tv_sender v') rid)"
proof -
  define v0 where "v0 = moved cfg env v"
  have v0: "moved_from cfg v v0" "transfer_ok cfg v0" using moved_moves moved_ok[OF ok] by (simp_all add: v0_def)
  obtain v2 where p: "service_preempt rid v0 = Some (v2, Inr ())" and u: "until_read cfg env v2 = Inr v'"
    using c by (auto simp: call_preempt_def v0_def split: option.splits sum.splits prod.splits)
  obtain v1 where f: "(if tv_consumer v0 then fence_receives (Some [rid]) v0 else Some (v0, Inr ())) = Some (v1, Inr ())"
    and v2: "v2 = (if tv_producer v1 then v1\<lparr>tv_sender := preempt_send rid (tv_sender v1)\<rparr> else v1)"
    using p by (auto simp: service_preempt_def split: option.splits sum.splits if_splits)
  have l0: "loops_ok cfg v0" using v0(2) by (simp add: transfer_ok_def)
  have v1: "moved_from cfg v0 v1" "tv_sender v1 = tv_sender v0" and a: "tv_consumer v0 \<Longrightarrow> unasked (tv_receiver v1) rid \<and> \<not> dict_has (rv_recv_events (tv_receiver v1)) rid"
    using f fence_receives_moves[OF l0] by (auto simp: moved_from_refl split: if_splits)
  have l1: "loops_ok cfg v1" using v1(1) l0 by (simp add: moved_from_def)
  have n1: "sn_fence (tv_sender v1) = None" using v0(2) v1(2) by (simp add: transfer_ok_def)
  have v12: "moved_from cfg v1 v2" using preempt_send_step(1)[OF l1 n1] by (simp add: v2 moved_from_refl)
  have l2: "loops_ok cfg v2" using v12 l1 by (simp add: moved_from_def)
  have v': "v' = moved cfg env v2" "sn_fence (tv_sender v') = None" using until_readD[OF u] by blast+
  have m2: "moved_from cfg v2 v'" unfolding v'(1) by (rule moved_moves)
  have all: "moved_from cfg v v'" using v0(1) v1(1) v12 m2 moved_from_trans by blast
  have w: "withdrawn (tv_sender v) (tv_sender v') rid" if pr: "tv_producer v"
    unfolding withdrawn_def
  proof (intro allI impI)
    fix i assume i: "i < length (sn_metas (tv_sender v))"
      and r: "sb_p_req_id (sn_metas (tv_sender v) ! i) = rid \<and> sb_ready (sn_metas (tv_sender v) ! i)"
    have p1: "tv_producer v1" using pr v0(1) v1(1) by (simp add: moved_from_def)
    have i1: "i < length (sn_metas (tv_sender v1))" "sb_p_req_id (sn_metas (tv_sender v1) ! i) = rid" "sb_ready (sn_metas (tv_sender v1) ! i)"
      using v0(1) i r by (auto simp: v1(2) moved_from_def sources_rel_def same_owner_def)
    have s2: "tv_sender v2 = preempt_send rid (tv_sender v1)" using p1 by (simp add: v2)
    have i2: "i < length (sn_metas (tv_sender v2))" "sb_transfer_id (sn_metas (tv_sender v2) ! i) = sb_transfer_id (sn_metas (tv_sender v1) ! i)"
      using v12 i1(1) by (auto simp: moved_from_def sources_rel_def same_transfer_def)
    have "fence_holds rid (sb_transfer_id (sn_metas (tv_sender v1) ! i)) i (tv_sender v')" unfolding v'(1)
      by (rule moved_holds[OF l2 i2]) (use preempt_send_step(2)[OF l1 n1 i1] s2 in simp)
    then show "\<not> in_use (tv_sender v') i" using v'(2) by (simp add: fence_holds_def)
  qed
  have "tv_consumer v \<longrightarrow> unasked (tv_receiver v') rid \<and> \<not> dict_has (rv_recv_events (tv_receiver v')) rid"
    using a v0(1) v12 m2 by (auto simp: moved_from_def)
  then show ?thesis using all w until_read_ok[OF l2 u] by blast
qed

section \<open>The process\<close>

text \<open>The interface \<open>save_fence\<close> on the pool and the transfer together.\<close>

definition process_ok :: "cdiv_fun \<Rightarrow> pool_cfg \<Rightarrow> receiver_cfg \<Rightarrow> cache_pool \<times> service \<Rightarrow> bool" where
  "process_ok cd pcfg rcfg b \<longleftrightarrow> node_ok cd pcfg b \<and> transfer_ok rcfg (snd b)"

lemma node_pool_ops:
  "bk_pool_load (node_backend cd pcfg reg ops env) lev b = Inr b' \<Longrightarrow> snd b' = snd b"
  "bk_pool_save (node_backend cd pcfg reg ops env) sev b = Inr b' \<Longrightarrow> snd b' = snd b"
  "bk_pool_poll (node_backend cd pcfg reg ops env) b = Inr (r, b') \<Longrightarrow> snd b' = snd b"
  "bk_pool_errors (node_backend cd pcfg reg ops env) b = (es, b') \<Longrightarrow> snd b' = snd b"
  "bk_pool_preempt (node_backend cd pcfg reg ops env) rid b = Inr b' \<Longrightarrow> snd b' = snd b"
  by (auto simp: node_backend_def pool_op_def map_sum_def split: sum.splits prod.splits)

lemma node_transfer_ops:
  "bk_cancel (node_backend cd pcfg reg ops env) rid tid b = map_sum id (Pair (fst b)) (xo_cancel ops rid tid (snd b))"
  "bk_prepare (node_backend cd pcfg reg ops env) rid tid b = map_sum id (Pair (fst b)) (xo_prepare ops rid tid (snd b))"
  "bk_send (node_backend cd pcfg reg ops env) ev b = map_sum id (Pair (fst b)) (xo_send ops ev (snd b))"
  "bk_recv (node_backend cd pcfg reg ops env) evs b = map_sum id (Pair (fst b)) (xo_recv ops evs (snd b))"
  "bk_preempt (node_backend cd pcfg reg ops env) rid b = map_sum id (Pair (fst b)) (xo_preempt ops rid (snd b))"
  "bk_poll (node_backend cd pcfg reg ops env) b = map_sum id (\<lambda>(x, t). (x, fst b, t)) (xo_poll ops (snd b))"
  "bk_errors (node_backend cd pcfg reg ops env) b = map_sum id (\<lambda>(x, t). (x, fst b, t)) (xo_errors ops (snd b))"
  by (simp_all add: node_backend_def lift_op_def lift_get_def)

lemma map_sum_Inr: "map_sum id f r = Inr y \<longleftrightarrow> (\<exists>x. r = Inr x \<and> y = f x)"
  by (cases r) auto

lemma value_of_Inr: "value_of vr = Inr (x, v) \<longleftrightarrow> vr = (v, Inr x)"
  by (cases vr) (auto simp: value_of_def map_sum_Inr)

interpretation process: save_fence "node_backend cd pcfg reg (service_ops rcfg lenv) env" node_busy "process_ok cd pcfg rcfg"
  for cd pcfg reg rcfg lenv env
proof
  fix b b' :: "cache_pool \<times> service"
  let ?bk = "node_backend cd pcfg reg (service_ops rcfg lenv) env"
  assume ok: "process_ok cd pcfg rcfg b"
  then have o: "node_ok cd pcfg b" "transfer_ok rcfg (snd b)" "transfer_ok rcfg (moved rcfg lenv (snd b))"
    by (simp_all add: process_ok_def moved_ok)
  show "process_ok cd pcfg rcfg b' \<and> node_busy b' \<subseteq> node_busy b" if "bk_pool_load ?bk lev b = Inr b'" for lev
    using node.load[OF o(1) that] node_pool_ops(1)[OF that] o(2) by (simp add: process_ok_def)
  show "process_ok cd pcfg rcfg b' \<and> node_busy b' \<subseteq> insert (se_request_id sev) (node_busy b)" if "bk_pool_save ?bk sev b = Inr b'" for sev
    using node.save[OF o(1) that] node_pool_ops(2)[OF that] o(2) by (simp add: process_ok_def)
  show "process_ok cd pcfg rcfg b' \<and> node_busy b' \<subseteq> node_busy b - rs_request_id ` set (pr_saves r)" if "bk_pool_poll ?bk b = Inr (r, b')" for r
    using node.poll[OF o(1) that] node_pool_ops(3)[OF that] o(2) by (simp add: process_ok_def)
  show "process_ok cd pcfg rcfg b' \<and> node_busy b' \<subseteq> node_busy b" if "bk_pool_errors ?bk b = (es, b')" for es
    using node.errors[OF o(1) that] node_pool_ops(4)[OF that] o(2) by (simp add: process_ok_def)
  show "process_ok cd pcfg rcfg b' \<and> node_busy b' \<subseteq> node_busy b - {rid}" if "bk_pool_preempt ?bk rid b = Inr b'" for rid
    using node.preempt[OF o(1) that] node_pool_ops(5)[OF that] o(2) by (simp add: process_ok_def)
  show "process_ok cd pcfg rcfg (bk_sync ?bk b) \<and> node_busy (bk_sync ?bk b) \<subseteq> node_busy b"
    using o by (simp add: process_ok_def node_backend_def service_ops_def node_ok_def node_busy_def)
  have step: "process_ok cd pcfg rcfg (fst b, t) \<longleftrightarrow> transfer_ok rcfg t" "node_busy (fst b, t) = node_busy b" for t
    using o(1) by (simp_all add: process_ok_def node_ok_def node_busy_def)
  show "process_ok cd pcfg rcfg b' \<and> node_busy b' \<subseteq> node_busy b" if "bk_cancel ?bk rid tid b = Inr b'" for rid tid
    using that cancel_ok[OF o(2)] by (auto simp: step node_transfer_ops map_sum_Inr service_ops_def)
  show "process_ok cd pcfg rcfg b' \<and> node_busy b' \<subseteq> node_busy b" if "bk_prepare ?bk rid tid b = Inr b'" for rid tid
    using that prepare_ok[OF o(3)] by (auto simp: step node_transfer_ops map_sum_Inr service_ops_def)
  show "process_ok cd pcfg rcfg b' \<and> node_busy b' \<subseteq> node_busy b" if "bk_send ?bk ev b = Inr b'" for ev
    using that send_ok[OF o(3)] by (auto simp: step node_transfer_ops map_sum_Inr service_ops_def)
  show "process_ok cd pcfg rcfg b' \<and> node_busy b' \<subseteq> node_busy b" if "bk_recv ?bk evs b = Inr b'" for evs
    using that recv_ok[OF o(3)] by (auto simp: step node_transfer_ops map_sum_Inr service_ops_def value_of_Inr)
  show "process_ok cd pcfg rcfg b' \<and> node_busy b' \<subseteq> node_busy b" if "bk_poll ?bk b = Inr (r, b')" for r
    using that poll_ok[OF o(3)] by (auto simp: step node_transfer_ops map_sum_Inr service_ops_def value_of_Inr)
  show "process_ok cd pcfg rcfg b' \<and> node_busy b' \<subseteq> node_busy b" if "bk_errors ?bk b = Inr (es, b')" for es
    using that errors_ok[OF o(3)] by (auto simp: step node_transfer_ops map_sum_Inr service_ops_def value_of_Inr)
  show "process_ok cd pcfg rcfg b' \<and> node_busy b' \<subseteq> node_busy b" if "bk_preempt ?bk rid b = Inr b'" for rid
    using that call_preempt_fences[OF o(2)] by (auto simp: step node_transfer_ops map_sum_Inr service_ops_def)
qed

text \<open>The engine's calls, each in its own surroundings, from a pool with no save and a transfer at rest.\<close>

inductive process_run ::
  "cdiv_fun \<Rightarrow> pool_cfg \<Rightarrow> (cache_pool \<Rightarrow> cache_pool \<times> unit result) \<Rightarrow> receiver_cfg \<Rightarrow> worker \<times> cache_pool \<times> service \<Rightarrow> bool"
  for cd pcfg reg rcfg where
  process_start: "pool_reachable cd pcfg st \<Longrightarrow> cp_save_states st = [] \<Longrightarrow> tv_receiver v = new_receiver \<Longrightarrow>
    tv_sender v = new_sender \<Longrightarrow> process_run cd pcfg reg rcfg (new_worker rank, st, v)"
| process_preempt: "process_run cd pcfg reg rcfg wb \<Longrightarrow>
    handle_preemptions (node_backend cd pcfg reg (service_ops rcfg lenv) env) md wb = Inr wb' \<Longrightarrow> process_run cd pcfg reg rcfg wb'"
| process_finished: "process_run cd pcfg reg rcfg wb \<Longrightarrow>
    get_finished (node_backend cd pcfg reg (service_ops rcfg lenv) env) cd now event md wb = Inr (fins, wb') \<Longrightarrow> process_run cd pcfg reg rcfg wb'"
| process_errors: "process_run cd pcfg reg rcfg (w, b) \<Longrightarrow> process_run cd pcfg reg rcfg (snd (get_block_ids_with_load_errors w), b)"
| process_meta: "process_run cd pcfg reg rcfg (w, b) \<Longrightarrow> process_run cd pcfg reg rcfg (snd (build_connector_worker_meta w), b)"

lemma process_run_ok: "process_run cd pcfg reg rcfg wb \<Longrightarrow> process.tracked cd pcfg rcfg wb"
proof (induction rule: process_run.induct)
  case (process_start st v rank)
  have "transfer_ok rcfg v" using process_start
    by (auto simp: transfer_ok_def loops_ok_def new_sender_def[symmetric] intro: run_init send_init)
      (simp add: new_sender_def)
  then show ?case using process_start unfolding process.tracked_def
    by (simp add: process_ok_def node_ok_def node_busy_def saving_def new_worker_def dict_simps pd.wf_empty)
next
  case (process_preempt wb lenv env md wb')
  then show ?case by (blast intro: process.tracked_preempt)
next
  case (process_finished wb lenv env now event md fins wb')
  then show ?case by (blast intro: process.tracked_get_finished)
next
  case (process_errors w b)
  show ?case by (rule process.tracked_frame[OF process_errors(2)])
    (use process.trackedD(1)[OF process_errors(2)] in \<open>simp_all add: get_block_ids_with_load_errors_def\<close>)
next
  case (process_meta w b)
  show ?case by (rule process.tracked_frame[OF process_meta(2)])
    (use process.trackedD(1)[OF process_meta(2)] in \<open>simp_all add: build_connector_worker_meta_def\<close>)
qed

section \<open>Preemption\<close>

text \<open>Nothing of the request is left where it could be accessed or resumed, \<open>v0\<close> being the transfer before.\<close>

definition idle_pool :: "cache_pool \<Rightarrow> string \<Rightarrow> bool" where
  "idle_pool st rid \<longleftrightarrow> dict_get (cp_loads st) rid = None \<and> dict_get (cp_save_states st) rid = None"

definition idle_worker :: "worker \<Rightarrow> string \<Rightarrow> bool" where
  "idle_worker w rid \<longleftrightarrow> \<not> dict_has (wk_on_load w) rid \<and> \<not> dict_has (wk_on_save w) rid \<and>
     \<not> dict_has (wk_on_transfer w) rid \<and> \<not> dict_has (wk_finished_waits w) rid"

definition idle_transfer :: "service \<Rightarrow> service \<Rightarrow> string \<Rightarrow> bool" where
  "idle_transfer v0 v rid \<longleftrightarrow> (tv_consumer v0 \<longrightarrow> unasked (tv_receiver v) rid) \<and>
     (tv_producer v0 \<longrightarrow> withdrawn (tv_sender v0) (tv_sender v) rid)"

lemma thread_step_loads [simp]: "cp_loads (thread_step ev st) = cp_loads st"
  by (cases ev) simp_all

lemma idle_progressed [simp]: "idle_pool (progressed env st) rid = idle_pool st rid"
  unfolding progressed_def
  by (rule fold_inv[where P = "\<lambda>s. idle_pool s rid = idle_pool st rid"]) (simp_all add: idle_pool_def)

lemma idle_preempted: "idle_pool (cp_preempt le se rid st) rid" "idle_pool st r \<Longrightarrow> idle_pool (cp_preempt le se rid st) r"
  by (auto simp: idle_pool_def cp_preempt_eq Let_def dict_simps)

lemma idle_forgotten: "idle_worker (forget_request rid w) rid" "idle_worker w r \<Longrightarrow> idle_worker (forget_request rid w) r"
  by (auto simp: idle_worker_def forget_request_def dict_simps dict_has_def)

lemma idle_pool_tasks:
  assumes "pool_reachable cd pcfg st" and "idle_pool st rid"
  shows "active (cp_load_pool st) f \<Longrightarrow> le_request_id (task_of (cp_load_pool st) f) \<noteq> rid"
    and "active (cp_save_pool st) g \<Longrightarrow> se_request_id (task_of (cp_save_pool st) g) \<noteq> rid"
  using pool_tasks_owned_lemma[OF assms(1)] assms(2) by (fastforce simp: idle_pool_def)+

text \<open>The loop of \<open>handle_preemptions\<close> with the requests it is through with.\<close>

definition preempting :: "cdiv_fun \<Rightarrow> pool_cfg \<Rightarrow> receiver_cfg \<Rightarrow> service \<Rightarrow> string set \<Rightarrow> worker \<times> cache_pool \<times> service \<Rightarrow> bool" where
  "preempting cd pcfg rcfg v0 rids wb \<longleftrightarrow> (case wb of (w, st, v) \<Rightarrow>
     pool_reachable cd pcfg st \<and> transfer_ok rcfg v \<and> moved_from rcfg v0 v \<and>
     (\<forall>rid \<in> rids. idle_pool st rid \<and> idle_worker w rid \<and> idle_transfer v0 v rid))"

lemma preempt_one_idle:
  assumes "preempting cd pcfg rcfg v0 rids wb" and "loops_ok rcfg v0"
    and "preempt_one (node_backend cd pcfg reg (service_ops rcfg lenv) env) rid wb = Inr wb'"
  shows "preempting cd pcfg rcfg v0 (insert rid rids) wb'"
proof -
  obtain w st v where wb: "wb = (w, st, v)" by (metis surj_pair)
  define st' where "st' = cp_preempt (pe_load_ends env) (pe_save_ends env) rid (progressed env st)"
  obtain v' where c: "call_preempt rcfg lenv rid v = Inr v'" and wb': "wb' = (forget_request rid w, st', v')"
  proof -
    have "bk_pool_preempt (node_backend cd pcfg reg (service_ops rcfg lenv) env) rid (st, v) = Inr (st', v)"
      by (simp add: node_backend_def pool_op_def st'_def)
    then show thesis using assms(3) that by (auto simp: wb preempt_one_def node_transfer_ops map_sum_Inr service_ops_def split: sum.splits)
  qed
  have I: "pool_reachable cd pcfg st" "transfer_ok rcfg v" "moved_from rcfg v0 v"
    "\<And>r. r \<in> rids \<Longrightarrow> idle_pool st r \<and> idle_worker w r \<and> idle_transfer v0 v r"
    using assms(1) by (auto simp: preempting_def wb)
  note P = call_preempt_fences[OF I(2) c]
  have m: "moved_from rcfg v0 v'" using I(3) P moved_from_trans by blast
  have ok: "reqs_ok (tv_sender v)" "reqs_ok (tv_sender v')" using I(2) P loops_reqs by (auto simp: transfer_ok_def)
  have len: "length (sn_metas (tv_sender v0)) \<le> length (sn_metas (tv_sender v))" using I(3) by (simp add: moved_from_def moves_on_def)
  have old: "idle_transfer v0 v' r" if "idle_transfer v0 v r" for r
    using that P moves_on_withdrawn[OF _ ok len] by (simp add: idle_transfer_def moved_from_def)
  have new: "idle_transfer v0 v' rid"
  proof -
    have w: "withdrawn (tv_sender v0) (tv_sender v') rid" if "withdrawn (tv_sender v) (tv_sender v') rid"
      using that I(3) len by (auto simp: withdrawn_def moved_from_def sources_rel_def same_owner_def)
    have "tv_consumer v = tv_consumer v0" "tv_producer v = tv_producer v0" using I(3) by (simp_all add: moved_from_def)
    then show ?thesis using P w by (simp add: idle_transfer_def)
  qed
  have reach: "pool_reachable cd pcfg st'" unfolding st'_def by (rule pool_next[OF progressed_reachable[OF I(1)] step_preempt])
  show ?thesis unfolding preempting_def wb' prod.case
    using reach P m I(4) old new idle_preempted idle_forgotten by (auto simp: st'_def)
qed

lemma preempt_all_idle:
  assumes "fold_res (preempt_one (node_backend cd pcfg reg (service_ops rcfg lenv) env)) xs wb = Inr wb'"
    and "preempting cd pcfg rcfg v0 rids wb" and "loops_ok rcfg v0"
  shows "preempting cd pcfg rcfg v0 (set xs \<union> rids) wb'"
  using assms
proof (induction xs arbitrary: wb rids)
  case (Cons x xs)
  then obtain wb1 where 1: "preempt_one (node_backend cd pcfg reg (service_ops rcfg lenv) env) x wb = Inr wb1"
    "fold_res (preempt_one (node_backend cd pcfg reg (service_ops rcfg lenv) env)) xs wb1 = Inr wb'"
    by (auto split: sum.splits)
  from Cons.IH[OF 1(2) preempt_one_idle[OF Cons.prems(2,3) 1(1)] Cons.prems(3)] show ?case by simp
qed simp

text \<open>
  C9: preempted blocks are out of everybody's reach. When \<open>handle_preemptions\<close> comes back in any run of the
  process, then for every preempted request no load can write its blocks and no save read them, no remote
  producer has it open and can write them, no batch of the sender reads a source it had published, and the
  worker holds nothing by which the request could go on; however the pool's threads, the loops and the
  peers moved before and while the call waited.
\<close>

theorem preempted_blocks_unreachable:
  assumes "process_run cd pcfg reg rcfg (w, st, v)"
    and "handle_preemptions (node_backend cd pcfg reg (service_ops rcfg lenv) env) md (w, st, v) = Inr (w', st', v')"
    and "rid \<in> set (md_preempted_request_ids md)"
  shows "(\<forall>f. active (cp_load_pool st') f \<longrightarrow> le_request_id (task_of (cp_load_pool st') f) \<noteq> rid) \<and>
    (\<forall>f. active (cp_save_pool st') f \<longrightarrow> se_request_id (task_of (cp_save_pool st') f) \<noteq> rid) \<and>
    (tv_consumer v \<longrightarrow> no_writer (tv_receiver v') rid) \<and>
    (tv_producer v \<longrightarrow> (\<forall>i < length (sn_metas (tv_sender v)). sb_p_req_id (sn_metas (tv_sender v) ! i) = rid \<and>
       sb_ready (sn_metas (tv_sender v) ! i) \<longrightarrow> \<not> reads (tv_sender v') i)) \<and>
    idle_worker w' rid"
proof -
  have ok: "pool_reachable cd pcfg st" "transfer_ok rcfg v"
    using process.trackedD(1)[OF process_run_ok[OF assms(1)]] by (simp_all add: process_ok_def node_ok_def)
  then have l: "loops_ok rcfg v" by (simp add: transfer_ok_def)
  have "preempting cd pcfg rcfg v {} (w, st, v)" using ok by (simp add: preempting_def moved_from_refl)
  from preempt_all_idle[OF assms(2)[unfolded handle_preemptions_def] this l]
  have J: "preempting cd pcfg rcfg v (set (md_preempted_request_ids md)) (w', st', v')" by simp
  then have R: "pool_reachable cd pcfg st'" "transfer_ok rcfg v'" "moved_from rcfg v v'"
    "idle_pool st' rid" "idle_worker w' rid" "idle_transfer v v' rid" using assms(3) by (simp_all add: preempting_def)
  have inv: "send_inv (rc_transfer rcfg) (tv_sender v')" using R(2) send_run_inv by (auto simp: transfer_ok_def loops_ok_def)
  have "\<not> reads (tv_sender v') i" if "i < length (sn_metas (tv_sender v))" "\<not> in_use (tv_sender v') i" for i
    by (rule unread_if_gone[OF inv _ that(2)]) (use that(1) R(2,3) in \<open>auto simp: transfer_ok_def moved_from_def moves_on_def\<close>)
  then show ?thesis using idle_pool_tasks[OF R(1,4)] R(5,6) unaskedD(1) by (auto simp: idle_transfer_def withdrawn_def)
qed

text \<open>
  A process of both roles. A request is saved and its blocks are published; while it is preempted, the save
  runs and a consumer is being served from its blocks.
\<close>

definition ep_cfg :: receiver_cfg where
  "ep_cfg = Transfer_Recv_Props.ex_cfg\<lparr>rc_transfer := es_cfg\<rparr>"

definition ep_env :: "(service \<Rightarrow> loop_event list) \<Rightarrow> loop_env" where
  "ep_env moves = \<lparr>ln_moves = moves, ln_now = 5, ln_platform = ex_platform (\<lambda>_. Answered), ln_caches = ex_caches, ln_registry = [],
     ln_one_by_one = True, ln_raises = (\<lambda>_. False)\<rparr>"

definition ep_serving :: "service \<Rightarrow> loop_event list" where
  "ep_serving v = (if sn_sessions (tv_sender v) = [] then [At_Sender (Act_Serve (Inr es_request)), At_Sender (Act_Wake 0 [''d1''])]
     else [At_Sender (Act_Written 0 0), At_Sender Act_Fence_End])"

definition ep_md :: "bool \<Rightarrow> MTSCConnectorMetadata" where
  "ep_md first = \<lparr>md_pool_loads = [], md_pool_saves = (if first then [\<lparr>sr_request_id = ''p1'', sr_block_ids = [[1, 2], [3]],
       sr_block_hashes = [''x'', ''y''], sr_start_token = 0, sr_end_token = 32, sr_prompt_tokens = Some 40\<rparr>] else []),
     md_transfer_plans = [], md_transfer_states = (if first then [\<lparr>ss_request_id = ''p1'', ss_transfer_id = ''t1'',
       ss_source_block_ids = [[1, 2]], ss_ready = True, ss_cancelled = False\<rparr>] else []), md_finished_waits = [],
     md_finished_request_ids = [], md_preempted_request_ids = (if first then [] else [''p1''])\<rparr>"

definition ep_start :: "worker \<times> cache_pool \<times> service" where
  "ep_start = (new_worker 0, ex_p0, ex_service ''kv_both'' 1)"

definition ep_first where
  "ep_first = get_finished (node_backend cdiv_ref ex_pool_cfg (\<lambda>st. (st, Inr ())) (service_ops ep_cfg (ep_env (\<lambda>_. []))) (en_env []))
     cdiv_ref 3 7 (ep_md True) ep_start"

definition ep_second where
  "ep_second = handle_preemptions (node_backend cdiv_ref ex_pool_cfg (\<lambda>st. (st, Inr ())) (service_ops ep_cfg (ep_env ep_serving)) (en_env [Start_Save]))
     (ep_md False) (snd (projr ep_first))"

lemma preempted_blocks_unreachable_witness:
  "let (w, st, v) = snd (projr ep_first); (w', st', v') = projr ep_second
   in dict_has (wk_on_save w) ''p1'' \<and> active (cp_save_pool (progressed (en_env [Start_Save]) st)) 0 \<and>
      reads (tv_sender (moved ep_cfg (ep_env ep_serving) v)) 0 \<and> \<not> active (cp_save_pool st') 0 \<and> \<not> reads (tv_sender v') 0 \<and>
      idle_worker w' ''p1''"
proof -
  obtain w st v where a: "snd (projr ep_first) = (w, st, v)" by (metis surj_pair)
  obtain w' st' v' where b: "projr ep_second = (w', st', v')" by (metis surj_pair)
  have p0: "pool_reachable cdiv_ref ex_pool_cfg ex_p0" unfolding ex_p0_def
    by (rule pool_next[OF pool_start step_register]) (simp_all add: new_cache_pool_def)
  have start: "process_run cdiv_ref ex_pool_cfg (\<lambda>st. (st, Inr ())) ep_cfg ep_start"
    unfolding ep_start_def by (rule process_start[OF p0]) code_simp+
  have f: "\<not> isl ep_first" "\<not> isl ep_second" by code_simp+
  have "ep_first = Inr (fst (projr ep_first), (w, st, v))" using f(1) a by (metis sum.collapse(2) prod.collapse)
  from process_finished[OF start this[unfolded ep_first_def]]
  have run: "process_run cdiv_ref ex_pool_cfg (\<lambda>st. (st, Inr ())) ep_cfg (w, st, v)" .
  have e: "handle_preemptions (node_backend cdiv_ref ex_pool_cfg (\<lambda>st. (st, Inr ())) (service_ops ep_cfg (ep_env ep_serving)) (en_env [Start_Save]))
      (ep_md False) (w, st, v) = Inr (w', st', v')" using f(2) b unfolding ep_second_def a by (metis sum.collapse(2))
  have r: "''p1'' \<in> set (md_preempted_request_ids (ep_md False))" by (simp add: ep_md_def)
  note P = preempted_blocks_unreachable[OF run e r]
  have c: "dict_has (wk_on_save (fst (snd (projr ep_first)))) ''p1''"
    "active (cp_save_pool (progressed (en_env [Start_Save]) (fst (snd (snd (projr ep_first)))))) 0"
    "reads (tv_sender (moved ep_cfg (ep_env ep_serving) (snd (snd (snd (projr ep_first)))))) 0"
    "tv_producer (snd (snd (snd (projr ep_first))))"
    "0 < length (sn_metas (tv_sender (snd (snd (snd (projr ep_first))))))"
    "sb_p_req_id (sn_metas (tv_sender (snd (snd (snd (projr ep_first))))) ! 0) = ''p1'' \<and> sb_ready (sn_metas (tv_sender (snd (snd (snd (projr ep_first))))) ! 0)"
    "se_request_id (task_of (cp_save_pool (fst (snd (projr ep_second)))) 0) = ''p1''"
    by code_simp+
  show ?thesis using P c unfolding a b by auto
qed

end
