(* ===== verification/Node_Receive.thy ===== *)
theory Node_Receive
  imports Node_Transfer
begin

text \<open>
  When a worker process reports a request as received, the engine goes on with it and uses its blocks. The
  interface \<open>receive_fence\<close> is what the worker relies on: which requests the transfer keeps a receive of, which
  a producer or a load may still write to, and how every operation changes that. Inside it the worker's
  two-stage states are tied to the receives it has started; interpreted on the pool and the transfer it gives
  the end-to-end fact that nobody writes to the blocks of a request that has been reported.
\<close>

section \<open>The interface\<close>

text \<open>No request is kept, written or loaded that was not before.\<close>

definition calmer :: "('b \<Rightarrow> string \<Rightarrow> bool) \<Rightarrow> ('b \<Rightarrow> string \<Rightarrow> bool) \<Rightarrow> ('b \<Rightarrow> string \<Rightarrow> bool) \<Rightarrow> 'b \<Rightarrow> 'b \<Rightarrow> bool" where
  "calmer kept writer loading b b' \<longleftrightarrow>
     (\<forall>r. (kept b' r \<longrightarrow> kept b r) \<and> (writer b' r \<longrightarrow> writer b r) \<and> (loading b' r \<longrightarrow> loading b r))"

definition keyed :: "(string, TransferState) dict \<Rightarrow> bool" where
  "keyed d \<longleftrightarrow> dict_wf d \<and> (\<forall>r s. dict_get d r = Some s \<longrightarrow> tp_request_id (ts_plan s) = r)"

definition in_transfer :: "worker \<Rightarrow> string \<Rightarrow> bool" where
  "in_transfer w r \<longleftrightarrow> (\<exists>s. dict_get (wk_on_transfer w) r = Some s \<and> ts_stage s = TRANSFER_LOADING)"

text \<open>Starting the second stage.\<close>

lemma start_in_transfer:
  assumes k: "keyed (wk_on_transfer w)" and f: "fold_res (start_one cd now results) (wk_on_transfer w) (w, []) = Inr (w', evs)"
  shows "keyed (wk_on_transfer w')" and "in_transfer w r \<Longrightarrow> in_transfer w' r"
    and "r \<in> re_request_id ` set evs \<Longrightarrow> in_transfer w' r \<and> \<not> in_transfer w r \<and> dict_has (wk_on_transfer w) r"
proof -
  have wf: "dict_wf (wk_on_transfer w)" using k by (simp add: keyed_def)
  have id: "\<forall>(rid, s) \<in> set (wk_on_transfer w). tp_request_id (ts_plan s) = rid"
    using k dict_in_get[OF wf] by (auto simp: keyed_def)
  note T = transfers_started_once[OF f wf id]
  have at: "\<forall>(rid, s) \<in> set (wk_on_transfer w). dict_get (wk_on_transfer w) rid = Some s" using dict_in_get[OF wf] by auto
  have "distinct (map fst (wk_on_transfer w))" using wf by (simp add: dict_wf_def)
  from start_loop[OF f this wf at] obtain t where t: "w' = w\<lparr>wk_on_transfer := t\<rparr>" "dict_wf t" "dict_keys t = dict_keys (wk_on_transfer w)"
    by blast
  have evs: "\<exists>s s'. dict_get (wk_on_transfer w) r = Some s \<and> dict_get (wk_on_transfer w') r = Some s' \<and>
      ts_stage s \<noteq> TRANSFER_LOADING \<and> ts_stage s' = TRANSFER_LOADING \<and> ts_plan s' = ts_plan s" if "r \<in> re_request_id ` set evs" for r
    using T that by blast
  have rest: "dict_get (wk_on_transfer w') r = Some s" if "dict_get (wk_on_transfer w) r = Some s" "r \<notin> re_request_id ` set evs" for r s
    using T that by blast
  show "r \<in> re_request_id ` set evs \<Longrightarrow> in_transfer w' r \<and> \<not> in_transfer w r \<and> dict_has (wk_on_transfer w) r"
    using evs[of r] by (auto simp: in_transfer_def dict_has_def)
  show "in_transfer w r \<Longrightarrow> in_transfer w' r"
    using evs[of r] rest[of r] by (cases "r \<in> re_request_id ` set evs") (auto simp: in_transfer_def)
  have "tp_request_id (ts_plan s') = r" if g: "dict_get (wk_on_transfer w') r = Some s'" for r s'
  proof -
    obtain s where s: "dict_get (wk_on_transfer w) r = Some s"
      using g t(1,3) pd.keys_get[of r t] pd.keys_get[of r "wk_on_transfer w"] by auto
    then have "tp_request_id (ts_plan s) = r" using k by (simp add: keyed_def)
    then show ?thesis using evs[of r] rest[OF s] s g by (cases "r \<in> re_request_id ` set evs") auto
  qed
  then show "keyed (wk_on_transfer w')" using t(1,2) by (simp add: keyed_def)
qed

lemma collect_loads_frame:
  assumes "fold collect_load xs (w, f) = (w', f')"
  shows "wk_on_transfer w' = wk_on_transfer w" and "r \<in> f' \<Longrightarrow> r \<in> f \<or> (r \<in> fst ` set xs \<and> \<not> dict_has (wk_on_transfer w) r)"
proof -
  have "wk_on_transfer w' = wk_on_transfer w \<and> (r \<in> f' \<longrightarrow> r \<in> f \<or> (r \<in> fst ` set xs \<and> \<not> dict_has (wk_on_transfer w) r))"
    using assms
  proof (induction xs arbitrary: w f)
    case (Cons x xs)
    obtain w1 f1 where 1: "collect_load x (w, f) = (w1, f1)" by fastforce
    have "wk_on_transfer w1 = wk_on_transfer w \<and> (r \<in> f1 \<longrightarrow> r \<in> f \<or> (r = fst x \<and> \<not> dict_has (wk_on_transfer w) r))"
      using 1 by (cases x) (auto simp: collect_load_def Let_def split: if_splits option.splits)
    moreover have "fold collect_load xs (w1, f1) = (w', f')" using Cons.prems 1 by simp
    from Cons.IH[OF this] have "wk_on_transfer w' = wk_on_transfer w1 \<and> (r \<in> f' \<longrightarrow> r \<in> f1 \<or> (r \<in> fst ` set xs \<and> \<not> dict_has (wk_on_transfer w1) r))" .
    ultimately show ?case by auto
  qed simp
  then show "wk_on_transfer w' = wk_on_transfer w" "r \<in> f' \<Longrightarrow> r \<in> f \<or> (r \<in> fst ` set xs \<and> \<not> dict_has (wk_on_transfer w) r)"
    by blast+
qed

lemma collect_recvs_frame:
  assumes "fold (collect_recv now) xs (w, f) = (w', f')"
  shows "dict_get (wk_on_transfer w') r = (if r \<in> tf_request_id ` set xs then None else dict_get (wk_on_transfer w) r)"
    and "dict_wf (wk_on_transfer w) \<Longrightarrow> dict_wf (wk_on_transfer w')"
    and "r \<in> f' \<Longrightarrow> r \<in> f \<or> (r \<in> tf_request_id ` set xs \<and> dict_has (wk_on_transfer w) r)"
proof -
  have "dict_get (wk_on_transfer w') r = (if r \<in> tf_request_id ` set xs then None else dict_get (wk_on_transfer w) r) \<and>
      (dict_wf (wk_on_transfer w) \<longrightarrow> dict_wf (wk_on_transfer w')) \<and>
      (r \<in> f' \<longrightarrow> r \<in> f \<or> (r \<in> tf_request_id ` set xs \<and> dict_has (wk_on_transfer w) r))"
    using assms
  proof (induction xs arbitrary: w f)
    case (Cons x xs)
    obtain w1 f1 where 1: "collect_recv now x (w, f) = (w1, f1)" by fastforce
    have s: "dict_get (wk_on_transfer w1) r = (if r = tf_request_id x then None else dict_get (wk_on_transfer w) r) \<and>
        (dict_wf (wk_on_transfer w) \<longrightarrow> dict_wf (wk_on_transfer w1)) \<and>
        (r \<in> f1 \<longrightarrow> r \<in> f \<or> (r = tf_request_id x \<and> dict_has (wk_on_transfer w) r))"
      using 1 by (auto simp: collect_recv_def Let_def dict_simps pd.wf_pop dict_has_def split: option.splits if_splits)
    have "fold (collect_recv now) xs (w1, f1) = (w', f')" using Cons.prems 1 by simp
    from Cons.IH[OF this] s show ?case by (auto simp: dict_has_def split: if_splits)
  qed simp
  then show "dict_get (wk_on_transfer w') r = (if r \<in> tf_request_id ` set xs then None else dict_get (wk_on_transfer w) r)"
    "dict_wf (wk_on_transfer w) \<Longrightarrow> dict_wf (wk_on_transfer w')"
    "r \<in> f' \<Longrightarrow> r \<in> f \<or> (r \<in> tf_request_id ` set xs \<and> dict_has (wk_on_transfer w) r)" by blast+
qed

lemma results_dict_ids: "fst ` set (results_dict rs) \<subseteq> rl_request_id ` set rs"
proof -
  have keys: "fst ` set d = {k. dict_has d k}" for d :: "(string, 'v) dict"
    using pd.keys_get[of _ d] by (auto simp: dict_keys_def dict_has_def)
  have "fst ` set (fold (\<lambda>r. dict_set (rl_request_id r) r) rs d) \<subseteq> fst ` set d \<union> rl_request_id ` set rs" for d
    unfolding keys
  proof (induction rs arbitrary: d)
    case (Cons r rs)
    have "{k. dict_has (dict_set (rl_request_id r) r d) k} \<subseteq> insert (rl_request_id r) {k. dict_has d k}" by (auto simp: dict_simps)
    with Cons.IH[of "dict_set (rl_request_id r) r d"] show ?case by auto
  qed simp
  from this[of "[]"] show ?thesis by (simp add: results_dict_def)
qed

locale receive_fence =
  fixes bk :: "'b backend" and ok :: "'b \<Rightarrow> bool" and kept writer loading :: "'b \<Rightarrow> string \<Rightarrow> bool"
  assumes load: "ok b \<Longrightarrow> bk_pool_load bk lev b = Inr b' \<Longrightarrow> ok b' \<and> (\<forall>r. kept b' r \<longrightarrow> kept b r)"
    and save: "ok b \<Longrightarrow> bk_pool_save bk sev b = Inr b' \<Longrightarrow> ok b' \<and> (\<forall>r. kept b' r \<longrightarrow> kept b r)"
    and poll: "ok b \<Longrightarrow> bk_pool_poll bk b = Inr (pr, b') \<Longrightarrow> ok b' \<and> calmer kept writer loading b b' \<and>
      (\<forall>l \<in> set (pr_loads pr). \<not> loading b' (rl_request_id l))"
    and errors: "ok b \<Longrightarrow> bk_pool_errors bk b = (es, b') \<Longrightarrow> ok b' \<and> calmer kept writer loading b b'"
    and preempt: "ok b \<Longrightarrow> bk_pool_preempt bk rid b = Inr b' \<Longrightarrow> ok b' \<and> calmer kept writer loading b b'"
    and sync: "ok b \<Longrightarrow> ok (bk_sync bk b) \<and> calmer kept writer loading b (bk_sync bk b)"
    and cancel: "ok b \<Longrightarrow> bk_cancel bk rid tid b = Inr b' \<Longrightarrow> ok b' \<and> calmer kept writer loading b b'"
    and prepare: "ok b \<Longrightarrow> bk_prepare bk rid tid b = Inr b' \<Longrightarrow> ok b' \<and> calmer kept writer loading b b'"
    and send: "ok b \<Longrightarrow> bk_send bk ev b = Inr b' \<Longrightarrow> ok b' \<and> calmer kept writer loading b b'"
    and recv: "ok b \<Longrightarrow> bk_recv bk evs b = Inr b' \<Longrightarrow> ok b' \<and>
      (\<forall>r. (kept b' r \<longrightarrow> kept b r \<or> r \<in> re_request_id ` set evs) \<and> (writer b' r \<longrightarrow> writer b r \<or> r \<in> re_request_id ` set evs) \<and>
         (loading b' r \<longrightarrow> loading b r))"
    and tpoll: "ok b \<Longrightarrow> bk_poll bk b = Inr (tr, b') \<Longrightarrow> ok b' \<and> calmer kept writer loading b b' \<and>
      (\<forall>x \<in> set (tpr_recvs tr). kept b (tf_request_id x) \<and> \<not> kept b' (tf_request_id x)) \<and> (\<forall>r. writer b' r \<longrightarrow> kept b' r)"
    and terrors: "ok b \<Longrightarrow> bk_errors bk b = Inr (es, b') \<Longrightarrow> ok b' \<and> calmer kept writer loading b b'"
    and tpreempt: "ok b \<Longrightarrow> bk_preempt bk rid b = Inr b' \<Longrightarrow> ok b' \<and> calmer kept writer loading b b' \<and> \<not> kept b' rid"
begin

text \<open>Every receive the transfer keeps belongs to a request in the second stage.\<close>

definition steady :: "worker \<times> 'b \<Rightarrow> bool" where
  "steady wb \<longleftrightarrow> ok (snd wb) \<and> keyed (wk_on_transfer (fst wb)) \<and> (\<forall>r. kept (snd wb) r \<longrightarrow> in_transfer (fst wb) r)"

lemma steady_frame:
  assumes "steady (w, b)" and "ok b'" and "\<And>r. kept b' r \<Longrightarrow> kept b r" and "wk_on_transfer w' = wk_on_transfer w"
  shows "steady (w', b')"
  using assms by (simp add: steady_def in_transfer_def)

lemma steady_load:
  assumes "steady wb" and "submit_load bk m wb = Inr wb'"
  shows "steady wb'"
proof -
  obtain w b b' where b: "wb = (w, b)" "bk_pool_load bk (load_event_of m) b = Inr b'"
    "wb' = (w\<lparr>wk_on_load := dict_set (lr_request_id m) m (wk_on_load w)\<rparr>, b')"
    using assms(2) by (cases wb) (auto simp: submit_load_def split: sum.splits)
  have "ok b" using assms(1) by (simp add: steady_def b(1))
  from load[OF this b(2)] show ?thesis unfolding b(3) by (intro steady_frame[OF assms(1)[unfolded b(1)]]) auto
qed

lemma steady_plan: "steady (w, b) \<Longrightarrow> steady (add_plan now plan w, b)"
  by (auto simp: steady_def add_plan_def keyed_def in_transfer_def dict_simps pd.wf_put new_transfer_state_def dict_has_def)

lemma steady_save:
  assumes "steady wb" and "submit_save bk event m wb = Inr wb'"
  shows "steady wb'"
proof -
  obtain w b where wb: "wb = (w, b)" by (cases wb)
  obtain b' w' where b': "bk_pool_save bk (save_event_of event m) b = Inr b'" "wb' = (w', b')" "wk_on_transfer w' = wk_on_transfer w"
    using assms(2) by (auto simp: submit_save_def wb Let_def split: sum.splits)
  have "ok b" using assms(1) by (simp add: steady_def wb)
  from save[OF this b'(1)] show ?thesis unfolding b'(2) by (intro steady_frame[OF assms(1)[unfolded wb] _ _ b'(3)]) auto
qed

lemma steady_publish: "steady (w, b) \<Longrightarrow> publish_state bk s b = Inr b' \<Longrightarrow> steady (w, b')"
proof -
  assume t: "steady (w, b)" "publish_state bk s b = Inr b'"
  have o: "ok b" using t(1) by (simp add: steady_def)
  have "ok b' \<and> calmer kept writer loading b b'"
  proof (cases "ss_cancelled s")
    case True
    then show ?thesis using t(2) cancel[OF o] by (simp add: publish_state_def)
  next
    case False
    then show ?thesis using t(2) send[OF o] prepare[OF o] by (simp add: publish_state_def split: if_splits)
  qed
  then show "steady (w, b')" by (intro steady_frame[OF t(1)]) (auto simp: calmer_def)
qed

lemma steady_updates:
  assumes "steady wb" and "update_load_metadata bk now md wb = Inr wb1"
    and "update_save_metadata bk event md wb1 = Inr wb2" and "update_finished_metadata bk md wb2 = Inr wb3"
  shows "steady wb3"
proof -
  obtain w b where l: "fold_res (submit_load bk) (md_pool_loads md) wb = Inr (w, b)"
    "wb1 = (fold (add_plan now) (md_transfer_plans md) w, b)"
    using assms(2) by (auto simp: update_load_metadata_def split: sum.splits)
  have "steady (w, b)" by (rule fold_res_inv[OF l(1), where P = steady]) (use assms(1) steady_load in blast)+
  then have "steady wb1" unfolding l(2)
    by (rule fold_inv[where P = "\<lambda>w. steady (w, b)"]) (rule steady_plan)
  then have t2: "steady wb2"
    using fold_res_inv[OF assms(3)[unfolded update_save_metadata_def], where P = steady] steady_save by blast
  obtain w2 b2 where wb2: "wb2 = (w2, b2)" by (cases wb2)
  define b0 where "b0 = (if list_ex ss_ready (md_transfer_states md) then bk_sync bk b2 else b2)"
  obtain b3 where f: "fold_res (publish_state bk) (md_transfer_states md) b0 = Inr b3"
    "wb3 = (fold add_wait (md_finished_waits md) w2, b3)"
    using assms(4) unfolding update_finished_metadata_def wb2 fst_conv snd_conv b0_def[symmetric] Let_def
    by (auto split: sum.splits)
  have "ok b2" using t2 by (simp add: steady_def wb2)
  then have "steady (w2, b0)" using t2 sync[of b2] unfolding wb2 b0_def by (auto intro: steady_frame simp: calmer_def)
  then have "steady (w2, b3)" using fold_res_inv[OF f(1), where P = "\<lambda>b. steady (w2, b)"] steady_publish by blast
  moreover have "wk_on_transfer (fold add_wait xs w2) = wk_on_transfer w2" for xs
    by (rule fold_inv[where P = "\<lambda>v. wk_on_transfer v = wk_on_transfer w2"]) (simp_all add: add_wait_def)
  ultimately show ?thesis unfolding f(2) by (auto simp: steady_def in_transfer_def)
qed

lemma steady_preempt:
  assumes "steady wb" and "handle_preemptions bk md wb = Inr wb'"
  shows "steady wb'"
proof -
  have "steady wb2" if t: "steady wb1" "preempt_one bk rid wb1 = Inr wb2" for wb1 wb2 rid
  proof -
    obtain w1 bb where wb1: "wb1 = (w1, bb)" by (cases wb1)
    obtain b1 b2 where b: "bk_pool_preempt bk rid bb = Inr b1" "bk_preempt bk rid b1 = Inr b2"
      "wb2 = (forget_request rid w1, b2)"
      using t(2) by (auto simp: preempt_one_def wb1 split: sum.splits)
    have "ok bb" using t(1) by (simp add: steady_def wb1)
    note 1 = preempt[OF this b(1)]
    note 2 = tpreempt[OF 1[THEN conjunct1] b(2)]
    show ?thesis using t(1) 1 2 unfolding b(3) wb1
      by (auto simp: steady_def calmer_def keyed_def in_transfer_def forget_request_def dict_simps pd.wf_pop)
  qed
  then show ?thesis using assms unfolding handle_preemptions_def by (blast intro: fold_res_inv[where P = steady])
qed

text \<open>What \<open>get_finished\<close> reports as received.\<close>

lemma steady_recv:
  assumes "steady (w, b)" and "aggregate_recv_finished bk cd now loads recvs (w, b) = Inr (fin, wb')"
    and "\<And>l. l \<in> set loads \<Longrightarrow> \<not> loading b (rl_request_id l)"
    and "\<And>x. x \<in> set recvs \<Longrightarrow> in_transfer w (tf_request_id x) \<and> \<not> kept b (tf_request_id x) \<and> \<not> writer b (tf_request_id x)"
    and "\<And>r. \<not> dict_has (wk_on_transfer w) r \<Longrightarrow> \<not> writer b r"
  shows "steady wb'" and "r \<in> fin \<Longrightarrow> \<not> writer (snd wb') r \<and> (dict_has (wk_on_transfer w) r \<or> \<not> loading (snd wb') r)"
proof -
  obtain w1 f1 where c: "fold collect_load (results_dict loads) (w, {}) = (w1, f1)" by fastforce
  obtain w2 evs b2 w3 f3 where st: "fold_res (start_one cd now (results_dict loads)) (wk_on_transfer w1) (w1, []) = Inr (w2, evs)"
    and r: "(if evs = [] then Inr b else bk_recv bk evs b) = Inr b2"
    and d: "fold (collect_recv now) recvs (w2, f1) = (w3, f3)" "wb' = (w3, b2)" "fin = f3"
    using assms(2) unfolding aggregate_recv_finished_def fst_conv snd_conv c Let_def by (auto split: sum.splits prod.splits)
  note C = collect_loads_frame[OF c]
  have s: "ok b" "keyed (wk_on_transfer w)" "\<And>r. kept b r \<Longrightarrow> in_transfer w r" using assms(1) by (simp_all add: steady_def)
  have i1: "in_transfer w1 = in_transfer w" by (intro ext) (simp add: in_transfer_def C(1))
  note S = start_in_transfer[OF _ st, unfolded C(1) i1, OF s(2)]
  note R = collect_recvs_frame[OF d(1)]
  have b2: "ok b2 \<and> (\<forall>r. (kept b2 r \<longrightarrow> kept b r \<or> r \<in> re_request_id ` set evs) \<and> (writer b2 r \<longrightarrow> writer b r \<or> r \<in> re_request_id ` set evs) \<and>
         (loading b2 r \<longrightarrow> loading b r))"
  proof (cases "evs = []")
    case False
    then show ?thesis using r recv[OF s(1), of evs b2] by simp
  qed (use r s(1) in simp)
  have "in_transfer w3 r" if k: "kept b2 r" for r
  proof -
    have n: "r \<notin> tf_request_id ` set recvs" using k b2 assms(4) S(3)[of r] by blast
    have "in_transfer w2 r" using k b2 s(3)[of r] S(2,3)[of r] by blast
    then show ?thesis using n by (simp add: in_transfer_def R(1))
  qed
  moreover have "keyed (wk_on_transfer w3)" using S(1) R(1,2) by (auto simp: keyed_def split: if_splits)
  ultimately show "steady wb'" using b2 by (simp add: steady_def d(2))
  show "\<not> writer (snd wb') r \<and> (dict_has (wk_on_transfer w) r \<or> \<not> loading (snd wb') r)" if f: "r \<in> fin"
  proof -
    consider (load) "r \<in> fst ` set (results_dict loads)" "\<not> dict_has (wk_on_transfer w) r" | (recv) "r \<in> tf_request_id ` set recvs"
      using f R(3)[of r] C(2)[of r] d(3) by blast
    then show ?thesis
    proof cases
      case load
      then have "r \<notin> re_request_id ` set evs" using S(3)[of r] by blast
      moreover have "\<not> writer b r" using assms(5) load(2) by simp
      moreover have "\<not> loading b r"
      proof -
        obtain l where "l \<in> set loads" "r = rl_request_id l" using load(1) results_dict_ids by blast
        then show ?thesis using assms(3) by blast
      qed
      ultimately show ?thesis using b2 unfolding d(2) snd_conv by blast
    next
      case recv
      then have "in_transfer w r" "\<not> writer b r" using assms(4) by auto
      moreover from this have "r \<notin> re_request_id ` set evs" "dict_has (wk_on_transfer w) r"
        using S(3)[of r] by (auto simp: in_transfer_def dict_has_def)
      ultimately show ?thesis using b2 unfolding d(2) snd_conv by blast
    qed
  qed
qed

lemma steady_results:
  assumes "steady wb" and "process_results bk cd now wb = Inr ((fin, fin'), wb')"
  shows "steady wb'" and "fin' = Some rids \<Longrightarrow> r \<in> rids \<Longrightarrow> \<not> writer (snd wb') r \<and>
      (dict_has (wk_on_transfer (fst wb)) r \<or> \<not> loading (snd wb') r)"
proof -
  obtain w b where wb: "wb = (w, b)" by (cases wb)
  obtain pr b1 es b2 tr b3 tes b4 cands w2 b5 frecv fsend w3 where
    p: "bk_pool_poll bk b = Inr (pr, b1)" "bk_pool_errors bk b1 = (es, b2)" "bk_poll bk b2 = Inr (tr, b3)"
      "bk_errors bk b3 = Inr (tes, b4)"
    and r: "aggregate_recv_finished bk cd now (pr_loads pr) (tpr_recvs tr)
        (w\<lparr>wk_load_errors := wk_load_errors w \<union> (es - cands) \<union> tes\<rparr>, b4) = Inr (frecv, w2, b5)"
    and s: "aggregate_send_finished (map rs_request_id (pr_saves pr)) (map tf_request_id (tpr_sends tr)) w2 = (fsend, w3)"
    and o': "fin' = or_none frecv" "wb' = (w3, b5)"
    using assms(2) unfolding process_results_def wb fst_conv snd_conv Let_def
    by (auto split: sum.splits prod.splits)
  have ok: "ok b" "\<And>r. kept b r \<Longrightarrow> in_transfer w r" using assms(1) by (simp_all add: steady_def wb)
  note k1 = poll[OF ok(1) p(1)]
  note k2 = errors[OF k1[THEN conjunct1] p(2)]
  note k3 = tpoll[OF k2[THEN conjunct1] p(3)]
  note k4 = terrors[OF k3[THEN conjunct1] p(4)]
  let ?w = "w\<lparr>wk_load_errors := wk_load_errors w \<union> (es - cands) \<union> tes\<rparr>"
  have down: "kept b4 r \<longrightarrow> kept b3 r" "kept b3 r \<longrightarrow> kept b2 r" "kept b2 r \<longrightarrow> kept b r" "writer b4 r \<longrightarrow> writer b3 r"
    "loading b4 r \<longrightarrow> loading b1 r" for r
    using k1 k2 k3 k4 by (auto simp: calmer_def)
  have t: "steady (?w, b4)" by (rule steady_frame[OF assms(1)[unfolded wb]]) (use k4 down in auto)
  have T: "steady (w2, b5)" "r \<in> frecv \<Longrightarrow> \<not> writer b5 r \<and> (dict_has (wk_on_transfer w) r \<or> \<not> loading b5 r)" for r
  proof -
    have l: "\<not> loading b4 (rl_request_id l)" if "l \<in> set (pr_loads pr)" for l using that k1 down by blast
    have x: "in_transfer ?w (tf_request_id x) \<and> \<not> kept b4 (tf_request_id x) \<and> \<not> writer b4 (tf_request_id x)" if "x \<in> set (tpr_recvs tr)" for x
      using that k3 down ok(2)[of "tf_request_id x"] by (auto simp: in_transfer_def)
    have n: "\<not> writer b4 r" if "\<not> dict_has (wk_on_transfer ?w) r" for r
      using that k3 down[of r] ok(2)[of r] by (auto simp: in_transfer_def dict_has_def)
    show "steady (w2, b5)" by (rule steady_recv(1)[OF t r l x n])
    show "r \<in> frecv \<Longrightarrow> \<not> writer b5 r \<and> (dict_has (wk_on_transfer w) r \<or> \<not> loading b5 r)" for r
      using steady_recv(2)[OF t r l x n] by simp
  qed
  have "wk_on_transfer (fold f xs v) = wk_on_transfer v" if "\<And>x v. wk_on_transfer (f x v) = wk_on_transfer v" for f xs and v :: worker
    by (rule fold_inv[where P = "\<lambda>u. wk_on_transfer u = wk_on_transfer v"]) (simp_all add: that)
  from this[of mark_sent] this[of mark_saved] have "wk_on_transfer w3 = wk_on_transfer w2"
    using s by (auto simp: aggregate_send_finished_def Let_def mark_sent_def mark_saved_def)
  then show "steady wb'" using T(1) unfolding o'(2) by (auto simp: steady_def in_transfer_def)
  show "fin' = Some rids \<Longrightarrow> r \<in> rids \<Longrightarrow> \<not> writer (snd wb') r \<and> (dict_has (wk_on_transfer (fst wb)) r \<or> \<not> loading (snd wb') r)"
    using T(2)[of r] by (auto simp: o' or_none_def wb split: if_splits)
qed

lemma steady_get_finished:
  assumes "steady wb" and "get_finished bk cd now event md wb = Inr (fins, wb')"
  shows "steady wb'"
proof -
  obtain wb1 wb2 wb3 where u: "update_load_metadata bk now md wb = Inr wb1"
    "update_save_metadata bk event md wb1 = Inr wb2" "update_finished_metadata bk md wb2 = Inr wb3"
    and r: "process_results bk cd now wb3 = Inr (fins, wb')"
    using assms(2) unfolding get_finished_def by (auto split: sum.splits)
  show ?thesis using steady_results(1)[OF steady_updates[OF assms(1) u]] r by (cases fins) blast
qed

lemma updates_transfers:
  assumes "update_load_metadata bk now md wb = Inr wb1"
    and "update_save_metadata bk event md wb1 = Inr wb2" and "update_finished_metadata bk md wb2 = Inr wb3"
    and "dict_has (wk_on_transfer (fst wb3)) r"
  shows "dict_has (wk_on_transfer (fst wb)) r \<or> r \<in> tp_request_id ` set (md_transfer_plans md)"
proof -
  obtain w b where l: "fold_res (submit_load bk) (md_pool_loads md) wb = Inr (w, b)"
    "wb1 = (fold (add_plan now) (md_transfer_plans md) w, b)"
    using assms(1) by (auto simp: update_load_metadata_def split: sum.splits)
  have "wk_on_transfer (fst v') = wk_on_transfer (fst v)" if "submit_load bk m v = Inr v'" for m v v'
    using that by (auto simp: submit_load_def split: sum.splits)
  then have 1: "wk_on_transfer w = wk_on_transfer (fst wb)"
    using fold_res_inv[OF l(1), where P = "\<lambda>v. wk_on_transfer (fst v) = wk_on_transfer (fst wb)"] by fastforce
  have 2: "dict_has (wk_on_transfer (fold (add_plan now) ps w)) r \<longleftrightarrow> dict_has (wk_on_transfer w) r \<or> r \<in> tp_request_id ` set ps" for ps
    by (induction ps arbitrary: w) (auto simp: add_plan_def dict_simps)
  have "wk_on_transfer (fst v') = wk_on_transfer (fst v)" if "submit_save bk event m v = Inr v'" for m v v'
    using that by (auto simp: submit_save_def Let_def split: sum.splits prod.splits)
  then have 3: "wk_on_transfer (fst wb2) = wk_on_transfer (fst wb1)"
    using fold_res_inv[OF assms(2)[unfolded update_save_metadata_def], where P = "\<lambda>v. wk_on_transfer (fst v) = wk_on_transfer (fst wb1)"]
    by fastforce
  have "wk_on_transfer (fold add_wait xs w') = wk_on_transfer w'" for xs w'
    by (rule fold_inv[where P = "\<lambda>v. wk_on_transfer v = wk_on_transfer w'"]) (simp_all add: add_wait_def)
  then have "wk_on_transfer (fst wb3) = wk_on_transfer (fst wb2)"
    using assms(3) by (auto simp: update_finished_metadata_def Let_def split: sum.splits)
  then show ?thesis using assms(4) 1 2 3 by (simp add: l(2))
qed

lemma received_undisturbed:
  assumes "steady wb" and "get_finished bk cd now event md wb = Inr ((fin, Some rids), wb')" and "r \<in> rids"
  shows "\<not> writer (snd wb') r"
    and "\<not> dict_has (wk_on_transfer (fst wb)) r \<Longrightarrow> r \<notin> tp_request_id ` set (md_transfer_plans md) \<Longrightarrow> \<not> loading (snd wb') r"
proof -
  obtain wb1 wb2 wb3 where u: "update_load_metadata bk now md wb = Inr wb1"
    "update_save_metadata bk event md wb1 = Inr wb2" "update_finished_metadata bk md wb2 = Inr wb3"
    and p: "process_results bk cd now wb3 = Inr ((fin, Some rids), wb')"
    using assms(2) unfolding get_finished_def by (auto split: sum.splits)
  note R = steady_results(2)[OF steady_updates[OF assms(1) u] p refl assms(3)]
  show "\<not> writer (snd wb') r" using R by blast
  show "\<not> dict_has (wk_on_transfer (fst wb)) r \<Longrightarrow> r \<notin> tp_request_id ` set (md_transfer_plans md) \<Longrightarrow> \<not> loading (snd wb') r"
    using R updates_transfers[OF u] by blast
qed

end

section \<open>Accepting receives\<close>

lemma admitted_frame:
  "rv_pulls (fold admit evs s) = rv_pulls s \<and> rv_queries (fold admit evs s) = rv_queries s \<and> rv_groups (fold admit evs s) = rv_groups s \<and>
   (dict_has (rv_recv_events (fold admit evs s)) r \<longleftrightarrow> dict_has (rv_recv_events s) r \<or> r \<in> re_request_id ` set evs)"
  by (induction evs arbitrary: s) (auto simp: admit_def dict_simps)

lemma receive_kv_groups:
  "same_groups s (fst (receive_kv cfg engine g s))"
proof -
  have spawn: "same_groups t (fst (spawn_pulls engine g ranks t))" for ranks t
    using spawn_pulls_eq[of engine g ranks t] by (auto simp: same_groups_def)
  define s1 where "s1 = (\<lambda>n. s\<lparr>rv_groups := (rv_groups s)[g := dict_map (\<lambda>m. m\<lparr>pm_pull_tasks_count := n\<rparr>) (rv_groups s ! g)]\<rparr>)"
  have k: "same_groups s (s1 n)" for n
    by (rule same_groups_upd[of "dict_map (\<lambda>m. m\<lparr>pm_pull_tasks_count := n\<rparr>) (rv_groups s ! g)"]) (simp_all add: s1_def dict_has_def dict_simps)
  have "same_groups s (fst (spawn_pulls engine g ranks (s1 n)))" for ranks n
    using k[of n] spawn[of "s1 n" ranks] by (simp add: same_groups_def)
  moreover have "same_groups s s" by (simp add: same_groups_def)
  ultimately show ?thesis by (simp add: receive_kv_def s1_def split: option.split sum.split)
qed

lemma start_load_unasked:
  assumes "start_load_kv cfg xs s = (t, Inr ())" and "unasked s r" and "\<And>e g. (e, g) \<in> set xs \<Longrightarrow> \<not> dict_has (rv_groups s ! g) r"
  shows "unasked t r"
  using assms
proof (induction xs arbitrary: s)
  case (Cons x xs)
  obtain e g where x: "x = (e, g)" by (cases x)
  show ?case
  proof (cases "dict_has (rv_agents s) e")
    case False
    define u where "u = s\<lparr>rv_queries := rv_queries s @ [\<lparr>eq_engine = e, eq_group = g, eq_phase = Query_Created\<rparr>]\<rparr>"
    have "start_load_kv cfg xs u = (t, Inr ())" using Cons.prems(1) False by (simp add: x u_def)
    moreover have "unasked u r" using Cons.prems(2) Cons.prems(3)[of e g] x by (simp add: u_def unasked_def no_writer_def)
    moreover have "\<not> dict_has (rv_groups u ! g') r" if "(e', g') \<in> set xs" for e' g'
      using Cons.prems(3)[of e' g'] that by (simp add: u_def)
    ultimately show ?thesis by (rule Cons.IH)
  next
    case True
    obtain u rr where u: "receive_kv cfg e g s = (u, rr)" by fastforce
    then have "rr = Inr ()" "start_load_kv cfg xs u = (t, Inr ())" using Cons.prems(1) True by (auto simp: x split: sum.splits)
    moreover have "unasked u r" using unasked_receive[OF Cons.prems(2), of g cfg e] Cons.prems(3)[of e g] x u by simp
    moreover have "same_groups s u" using receive_kv_groups[of s cfg e g] u by simp
    moreover from this have "\<not> dict_has (rv_groups u ! g') r" if "(e', g') \<in> set xs" for e' g'
      using Cons.prems(3)[of e' g'] that by (simp add: same_groups_def)
    ultimately show ?thesis by (intro Cons.IH) auto
  qed
qed simp

lemma start_load_events: "start_load_kv cfg xs s = (t, rr) \<Longrightarrow> rv_recv_events t = rv_recv_events s"
proof (induction xs arbitrary: s)
  case (Cons x xs)
  obtain e g where x: "x = (e, g)" by (cases x)
  then show ?case using Cons receive_kv_events[of cfg e g s] by (fastforce split: if_splits sum.splits prod.splits)
qed simp

lemma start_unasked:
  assumes run: "recv_run cfg tr s" and st: "start_receive cfg evs s = (t, Inr ())"
  shows "dict_has (rv_recv_events t) r \<Longrightarrow> dict_has (rv_recv_events s) r \<or> r \<in> re_request_id ` set evs"
    and "unasked s r \<Longrightarrow> r \<notin> re_request_id ` set evs \<Longrightarrow> unasked t r"
proof -
  define d where "d = fold add_pull_meta evs []"
  define u where "u = (fold admit evs s)\<lparr>rv_groups := rv_groups s @ map snd d\<rparr>"
  note A = admitted_frame[of evs s]
  have none: "rv_error s = None" and l: "start_load_kv cfg (zip (map fst d) [length (rv_groups s)..<length (rv_groups s) + length d]) u = (t, Inr ())"
    using st A by (auto simp: start_receive_def check_receive_error_def d_def u_def Let_def split: option.splits sum.splits)
  show "dict_has (rv_recv_events t) r \<Longrightarrow> dict_has (rv_recv_events s) r \<or> r \<in> re_request_id ` set evs"
    using start_load_events[OF l] A by (simp add: u_def)
  show "unasked t r" if r: "unasked s r" "r \<notin> re_request_id ` set evs"
  proof (rule start_load_unasked[OF l])
    have "queries_ok s" using recv_run_inv[OF run none] by (simp add: recv_inv_def)
    then have len: "eq_group q < length (rv_groups s)" if "q \<in> set (rv_queries s)" "eq_phase q \<noteq> Query_Over" for q
      using that by (auto simp: queries_ok_def open_query_def)
    show "unasked u r" using r(1) A len by (auto simp: u_def unasked_def no_writer_def list_all_iff nth_append)
    have G: "grouped (set evs \<union> {}) d" unfolding d_def by (rule grouped_all[OF grouped_empty])
    show "\<not> dict_has (rv_groups u ! g) r" if z: "(e, g) \<in> set (zip (map fst d) [length (rv_groups s)..<length (rv_groups s) + length d])" for e g
    proof -
      obtain k where k: "k < length d" "g = length (rv_groups s) + k" using z by (force simp: in_set_zip)
      then have m: "rv_groups u ! g = snd (d ! k)" by (simp add: u_def nth_append)
      have "(fst (d ! k), snd (d ! k)) \<in> set d" using k(1) by simp
      moreover have "dict_wf d" using G by (simp add: grouped_def)
      ultimately have "dict_get d (fst (d ! k)) = Some (snd (d ! k))" by (rule dict_in_get[rotated])
      then have "r \<in> re_request_id ` set evs" if "dict_get (snd (d ! k)) r = Some x" for x
        using G that unfolding grouped_def by blast
      then show ?thesis using r(2) by (cases "dict_get (snd (d ! k)) r") (simp_all add: m dict_has_def)
    qed
  qed
qed

section \<open>The process\<close>

definition kept_receive :: "cache_pool \<times> service \<Rightarrow> string \<Rightarrow> bool" where
  "kept_receive b r \<longleftrightarrow> dict_has (rv_recv_events (tv_receiver (snd b))) r"

definition written_to :: "cache_pool \<times> service \<Rightarrow> string \<Rightarrow> bool" where
  "written_to b r \<longleftrightarrow> \<not> unasked (tv_receiver (snd b)) r"

definition loading_in :: "cache_pool \<times> service \<Rightarrow> string \<Rightarrow> bool" where
  "loading_in b r \<longleftrightarrow> dict_has (cp_loads (fst b)) r"

text \<open>A transfer that receives nothing has a receiver in which nothing happens.\<close>

definition receiver_ok :: "service \<Rightarrow> bool" where
  "receiver_ok v \<longleftrightarrow> tv_consumer v \<or> tv_receiver v = new_receiver"

definition receive_ok :: "cdiv_fun \<Rightarrow> pool_cfg \<Rightarrow> receiver_cfg \<Rightarrow> cache_pool \<times> service \<Rightarrow> bool" where
  "receive_ok cd pcfg rcfg b \<longleftrightarrow> process_ok cd pcfg rcfg b \<and> receiver_ok (snd b)"

text \<open>What a call of the transfer may do to the receives.\<close>

definition receives_calm :: "service \<Rightarrow> service \<Rightarrow> bool" where
  "receives_calm v v' \<longleftrightarrow> (receiver_ok v \<longrightarrow> receiver_ok v') \<and>
     (\<forall>r. (dict_has (rv_recv_events (tv_receiver v')) r \<longrightarrow> dict_has (rv_recv_events (tv_receiver v)) r) \<and>
        (unasked (tv_receiver v) r \<longrightarrow> unasked (tv_receiver v') r))"

lemma calm_trans: "receives_calm v v' \<Longrightarrow> receives_calm v' v'' \<Longrightarrow> receives_calm v v''"
  by (simp add: receives_calm_def)

lemma calm_same: "tv_receiver v' = tv_receiver v \<Longrightarrow> tv_consumer v' = tv_consumer v \<Longrightarrow> receives_calm v v'"
  by (simp add: receives_calm_def receiver_ok_def)

lemma calm_moved_from: "moved_from cfg v v' \<Longrightarrow> receives_calm v v'"
  by (auto simp: receives_calm_def moved_from_def receiver_ok_def)

lemma calm_moved: "receives_calm v (moved cfg env v)"
  by (rule calm_moved_from[OF moved_moves])

lemma calm_sender_call: "sender_call f v = Inr v' \<Longrightarrow> receives_calm v v'"
  by (auto simp: sender_call_def intro: calm_same split: if_splits)

lemma calm_cancel: "call_cancel cfg env rid tid v = Inr v' \<Longrightarrow> receives_calm v v'"
proof -
  assume c: "call_cancel cfg env rid tid v = Inr v'"
  obtain u where u: "service_cancel rid tid (moved cfg env v) = Inr u" "until_read cfg env u = Inr v'"
    using c by (auto simp: call_cancel_def split: sum.splits)
  have "v' = moved cfg env u" using until_readD[OF u(2)] by blast
  then show ?thesis using calm_trans[OF calm_moved calm_trans[OF calm_sender_call[OF u(1)[unfolded service_cancel_def]] calm_moved]] by simp
qed

lemma calm_errors: "service_take_errors v = (v', Inr es) \<Longrightarrow> receives_calm v v'"
proof -
  assume e: "service_take_errors v = (v', Inr es)"
  then consider "v' = v" | s where "tv_consumer v" "take_receive_errors (tv_receiver v) = Inr (es, s)" "v' = v\<lparr>tv_receiver := s\<rparr>"
    by (auto simp: service_take_errors_def split: if_splits sum.splits)
  then show ?thesis
  proof cases
    case 2
    then have "s = (tv_receiver v)\<lparr>rv_invalid := []\<rparr>" by (auto simp: take_receive_errors_def split: sum.splits)
    moreover have "unasked (s'\<lparr>rv_invalid := []\<rparr>) r" if "unasked s' r" for s' r
      by (rule unasked_kept[OF that]) (rule tasks_kept_eq, simp_all)
    ultimately show ?thesis using 2 by (simp add: receives_calm_def receiver_ok_def)
  qed (simp add: calm_same)
qed

text \<open>A poll takes the receives it reports out of the table, and what is left out of it is written by nobody.\<close>

lemma poll_receives:
  assumes ok: "transfer_ok cfg v" "receiver_ok v" and p: "service_poll now v = (v', Inr r)"
  shows "receives_calm v v'"
    and "x \<in> set (tpr_recvs r) \<Longrightarrow> dict_has (rv_recv_events (tv_receiver v)) (tf_request_id x) \<and>
      \<not> dict_has (rv_recv_events (tv_receiver v')) (tf_request_id x)"
    and "\<not> unasked (tv_receiver v') rid \<Longrightarrow> dict_has (rv_recv_events (tv_receiver v')) rid"
proof -
  obtain sends where e: "(if tv_producer v then let (rs, s) = fetch_finished_sending_reqs now (tv_sender v) in (rs, v\<lparr>tv_sender := s\<rparr>)
      else ([], v)) = (sends, polled_sends now v)"
    by (cases "tv_producer v"; cases "fetch_finished_sending_reqs now (tv_sender v)") (simp_all add: polled_sends_def)
  have tc: "tv_consumer (polled_sends now v) = tv_consumer v" "tv_receiver (polled_sends now v) = tv_receiver v"
    by (simp_all add: polled_sends_def)
  have "receives_calm v v' \<and> (\<forall>x \<in> set (tpr_recvs r). dict_has (rv_recv_events (tv_receiver v)) (tf_request_id x) \<and>
      \<not> dict_has (rv_recv_events (tv_receiver v')) (tf_request_id x)) \<and>
    (\<forall>rid. \<not> unasked (tv_receiver v') rid \<longrightarrow> dict_has (rv_recv_events (tv_receiver v')) rid)"
  proof (cases "tv_consumer v")
    case False
    then have new: "tv_receiver v = new_receiver" using ok(2) by (simp add: receiver_ok_def)
    have "v' = polled_sends now v \<and> tpr_recvs r = []"
      using p[unfolded service_poll_def e] False by (auto simp: tc split: if_splits)
    moreover have "unasked new_receiver rid" for rid by (simp add: unasked_def no_writer_def new_receiver_def)
    ultimately show ?thesis using tc new by (simp add: calm_same)
  next
    case True
    obtain rs s where f: "fetch_finished_recving_reqs (tv_receiver v) = Inr (rs, s)" and v': "v' = (polled_sends now v)\<lparr>tv_receiver := s\<rparr>"
      and r: "tpr_recvs r = rs"
      using p[unfolded service_poll_def e] True
      by (cases "tv_running v"; cases "fetch_finished_recving_reqs (tv_receiver v)") (auto simp: tc split: prod.splits)
    obtain tr where run: "recv_run cfg tr (tv_receiver v)" using ok(1) by (auto simp: transfer_ok_def loops_ok_def)
    note none = fetch_errors[OF f]
    note inv = recv_run_inv[OF run none]
    obtain t where t: "fetch_finished_recving_reqs (tv_receiver v) = Inr (map (recv_result (tv_receiver v)) (rv_finished (tv_receiver v)), t)"
      "recv_inv cfg tr t" "drop_state (set (rv_finished (tv_receiver v))) (tv_receiver v) t"
      using fetch_closed[OF inv none] by metis
    have st: "s = t" "rs = map (recv_result (tv_receiver v)) (rv_finished (tv_receiver v))" using f t(1) by simp_all
    have "tasks_kept (tv_receiver v) t" using t(3) by (auto simp: drop_state_def intro: tasks_kept_eq)
    then have "receives_calm v v'" using t(3) True tc unasked_kept
      by (auto simp: v' st(1) receives_calm_def receiver_ok_def drop_state_def dict_has_def split: if_splits)
    moreover have "dict_has (rv_recv_events (tv_receiver v)) q" if "q \<in> set (rv_finished (tv_receiver v))" for q
      using inv that by (simp add: recv_inv_def finished_ok_def)
    moreover have "\<not> dict_has (rv_recv_events t) q" if "q \<in> set (rv_finished (tv_receiver v))" for q
      using t(3) that by (simp add: drop_state_def dict_has_def)
    ultimately show ?thesis using inv_unasked[OF t(2)] by (auto simp: r st v' recv_result_def)
  qed
  then show "receives_calm v v'" "x \<in> set (tpr_recvs r) \<Longrightarrow> dict_has (rv_recv_events (tv_receiver v)) (tf_request_id x) \<and>
      \<not> dict_has (rv_recv_events (tv_receiver v')) (tf_request_id x)"
    "\<not> unasked (tv_receiver v') rid \<Longrightarrow> dict_has (rv_recv_events (tv_receiver v')) rid" by blast+
qed

text \<open>The pool's loads.\<close>

lemma cp_poll_loads:
  assumes inv: "pool_inv st" and p: "cp_poll cd pcfg now st = Inr (res, st')" and h: "dict_has (cp_loads st') r"
  shows "dict_has (cp_loads st) r"
proof -
  obtain st1 loads saves where l: "fold_res (poll_load cd pcfg now) (cp_loads st) (st, []) = Inr (st1, loads)"
    and s: "fold_res poll_save (cp_save_states st1) (st1, []) = Inr (st', saves)"
    using p by (auto simp: cp_poll_def split: sum.splits)
  have wl: "dict_wf (cp_loads st)" using inv loads_invD(1) by (auto simp: pool_inv_def)
  note Q = poll_loads_inv[OF l inv _ dict_in_get[OF wl]]
  have I1: "pool_inv st1" and L: "r \<notin> fst ` set (cp_loads st) \<Longrightarrow> dict_get (cp_loads st1) r = dict_get (cp_loads st) r"
    using Q wl by (auto simp: dict_wf_def)
  have ws: "dict_wf (cp_save_states st1)" using I1 saves_invD(1) by (auto simp: pool_inv_def)
  have same: "cp_loads st' = cp_loads st1"
    using poll_saves_inv[OF s I1 _ dict_in_get[OF ws]] ws by (auto simp: dict_wf_def)
  show ?thesis
  proof (rule ccontr)
    assume n: "\<not> dict_has (cp_loads st) r"
    then have "r \<notin> fst ` set (cp_loads st)" using pd.keys_get[of r "cp_loads st"] by (auto simp: dict_keys_def dict_has_def)
    then show False using L n h same by (simp add: dict_has_def)
  qed
qed

lemma progressed_loads [simp]: "cp_loads (progressed env st) = cp_loads st"
  unfolding progressed_def by (rule fold_inv[where P = "\<lambda>s. cp_loads s = cp_loads st"]) simp_all

lemma node_poll:
  assumes "bk_pool_poll (node_backend cd pcfg reg ops env) b = Inr (r, b')"
  shows "cp_poll cd pcfg (pe_now env) (progressed env (fst b)) = Inr (r, fst b')" and "snd b' = snd b"
  using assms by (auto simp: node_backend_def map_sum_Inr)

lemma calm_pair:
  assumes "receive_ok cd pcfg rcfg b" and "transfer_ok rcfg v'" and "receives_calm (snd b) v'"
  shows "receive_ok cd pcfg rcfg (fst b, v') \<and> calmer kept_receive written_to loading_in b (fst b, v')"
  using assms by (auto simp: receive_ok_def process_ok_def node_ok_def receives_calm_def calmer_def kept_receive_def written_to_def loading_in_def)

interpretation received: receive_fence "node_backend cd pcfg reg (service_ops rcfg lenv) env" "receive_ok cd pcfg rcfg"
  kept_receive written_to loading_in for cd pcfg reg rcfg lenv env
proof
  fix b b' :: "cache_pool \<times> service"
  let ?bk = "node_backend cd pcfg reg (service_ops rcfg lenv) env"
  assume ok: "receive_ok cd pcfg rcfg b"
  then have o: "process_ok cd pcfg rcfg b" "transfer_ok rcfg (snd b)" "receiver_ok (snd b)" "pool_reachable cd pcfg (fst b)"
    by (simp_all add: receive_ok_def process_ok_def node_ok_def)
  note m = moved_ok[OF o(2), of lenv]
  have pool: "receive_ok cd pcfg rcfg b'" if "process_ok cd pcfg rcfg b'" "snd b' = snd b" for b'
    using that o(3) by (simp add: receive_ok_def)
  show "receive_ok cd pcfg rcfg b' \<and> (\<forall>r. kept_receive b' r \<longrightarrow> kept_receive b r)" if "bk_pool_load ?bk lev b = Inr b'" for lev
    using process.load[OF o(1) that] node_pool_ops(1)[OF that] pool by (simp add: kept_receive_def)
  show "receive_ok cd pcfg rcfg b' \<and> (\<forall>r. kept_receive b' r \<longrightarrow> kept_receive b r)" if "bk_pool_save ?bk sev b = Inr b'" for sev
    using process.save[OF o(1) that] node_pool_ops(2)[OF that] pool by (simp add: kept_receive_def)
  show "receive_ok cd pcfg rcfg b' \<and> calmer kept_receive written_to loading_in b b' \<and> (\<forall>l \<in> set (pr_loads pr). \<not> loading_in b' (rl_request_id l))"
    if p: "bk_pool_poll ?bk b = Inr (pr, b')" for pr
  proof -
    have inv: "pool_inv (progressed env (fst b))" using pool_reachable_ok[OF progressed_reachable[OF o(4)]] by (simp add: pool_ok_def)
    note q = node_poll[OF p]
    have "\<not> loading_in b' (rl_request_id l)" if "l \<in> set (pr_loads pr)" for l
      using cp_poll_inv(4)[OF inv q(1) that] by (simp add: loading_in_def dict_has_def)
    moreover have "loading_in b' r \<longrightarrow> loading_in b r" for r using cp_poll_loads[OF inv q(1), of r] by (simp add: loading_in_def)
    ultimately show ?thesis using process.poll[OF o(1) p] pool[OF _ q(2)] q(2)
      by (simp add: calmer_def kept_receive_def written_to_def)
  qed
  show "receive_ok cd pcfg rcfg b' \<and> calmer kept_receive written_to loading_in b b'" if p: "bk_pool_errors ?bk b = (es, b')" for es
  proof -
    have "cp_loads (fst b') = cp_loads (fst b)" using p by (auto simp: node_backend_def cp_take_errors_def)
    then show ?thesis using process.errors[OF o(1) p] node_pool_ops(4)[OF p] pool
      by (simp add: calmer_def kept_receive_def written_to_def loading_in_def)
  qed
  show "receive_ok cd pcfg rcfg b' \<and> calmer kept_receive written_to loading_in b b'" if p: "bk_pool_preempt ?bk rid b = Inr b'" for rid
  proof -
    have "cp_loads (fst b') = dict_pop rid (cp_loads (fst b))" using p by (auto simp: node_backend_def pool_op_def cp_preempt_eq)
    then show ?thesis using process.preempt[OF o(1) p] node_pool_ops(5)[OF p] pool
      by (simp add: calmer_def kept_receive_def written_to_def loading_in_def dict_simps)
  qed
  show "receive_ok cd pcfg rcfg (bk_sync ?bk b) \<and> calmer kept_receive written_to loading_in b (bk_sync ?bk b)"
    using calm_pair[OF ok m calm_moved] by (simp add: node_backend_def service_ops_def)
  show "receive_ok cd pcfg rcfg b' \<and> calmer kept_receive written_to loading_in b b'" if "bk_cancel ?bk rid tid b = Inr b'" for rid tid
    using that cancel_ok[OF o(2)] calm_cancel calm_pair[OF ok] by (auto simp: node_transfer_ops map_sum_Inr service_ops_def)
  show "receive_ok cd pcfg rcfg b' \<and> calmer kept_receive written_to loading_in b b'" if "bk_prepare ?bk rid tid b = Inr b'" for rid tid
    using that prepare_ok[OF m] calm_trans[OF calm_moved calm_sender_call] calm_pair[OF ok]
    by (auto simp: node_transfer_ops map_sum_Inr service_ops_def service_prepare_def)
  show "receive_ok cd pcfg rcfg b' \<and> calmer kept_receive written_to loading_in b b'" if "bk_send ?bk ev b = Inr b'" for ev
    using that send_ok[OF m] calm_trans[OF calm_moved calm_sender_call] calm_pair[OF ok]
    by (auto simp: node_transfer_ops map_sum_Inr service_ops_def service_send_def)
  show "receive_ok cd pcfg rcfg b' \<and> (\<forall>r. (kept_receive b' r \<longrightarrow> kept_receive b r \<or> r \<in> re_request_id ` set evs) \<and>
      (written_to b' r \<longrightarrow> written_to b r \<or> r \<in> re_request_id ` set evs) \<and> (loading_in b' r \<longrightarrow> loading_in b r))"
    if p: "bk_recv ?bk evs b = Inr b'" for evs
  proof -
    define u where "u = moved rcfg lenv (snd b)"
    obtain v' where v: "service_recv rcfg evs u = (v', Inr ())" and b': "b' = (fst b, v')"
      using p by (auto simp: node_transfer_ops map_sum_Inr service_ops_def value_of_Inr u_def)
    have st: "start_receive rcfg evs (tv_receiver u) = (tv_receiver v', Inr ())" "tv_consumer v'"
      using v by (auto simp: service_recv_def split: if_splits prod.splits)
    obtain tr where run: "recv_run rcfg tr (tv_receiver u)" using m by (auto simp: transfer_ok_def loops_ok_def u_def)
    have c: "receives_calm (snd b) u" by (simp add: u_def calm_moved)
    have "transfer_ok rcfg v'" using recv_ok[OF m v[unfolded u_def]] .
    then have "receive_ok cd pcfg rcfg b'" using o(1) st(2) by (simp add: b' receive_ok_def process_ok_def node_ok_def receiver_ok_def)
    then show ?thesis using start_unasked[OF run st(1)] c
      by (auto simp: b' kept_receive_def written_to_def loading_in_def receives_calm_def)
  qed
  show "receive_ok cd pcfg rcfg b' \<and> calmer kept_receive written_to loading_in b b' \<and>
      (\<forall>x \<in> set (tpr_recvs r). kept_receive b (tf_request_id x) \<and> \<not> kept_receive b' (tf_request_id x)) \<and>
      (\<forall>r. written_to b' r \<longrightarrow> kept_receive b' r)" if p: "bk_poll ?bk b = Inr (r, b')" for r
  proof -
    define u where "u = moved rcfg lenv (snd b)"
    obtain v' where v: "service_poll (ln_now lenv) u = (v', Inr r)" and b': "b' = (fst b, v')"
      using p by (auto simp: node_transfer_ops map_sum_Inr service_ops_def value_of_Inr u_def)
    have c: "receives_calm (snd b) u" by (simp add: u_def calm_moved)
    then have r: "receiver_ok u" using o(3) by (simp add: receives_calm_def)
    note P = poll_receives[OF m[folded u_def] r v]
    have "transfer_ok rcfg v'" by (rule poll_ok[OF m[folded u_def] v])
    from calm_pair[OF ok this calm_trans[OF c P(1)]] show ?thesis using P(2,3) c
      by (auto simp: b' kept_receive_def written_to_def receives_calm_def)
  qed
  show "receive_ok cd pcfg rcfg b' \<and> calmer kept_receive written_to loading_in b b'" if "bk_errors ?bk b = Inr (es, b')" for es
    using that errors_ok[OF m] calm_trans[OF calm_moved calm_errors] calm_pair[OF ok]
    by (auto simp: node_transfer_ops map_sum_Inr service_ops_def value_of_Inr)
  show "receive_ok cd pcfg rcfg b' \<and> calmer kept_receive written_to loading_in b b' \<and> \<not> kept_receive b' rid"
    if p: "bk_preempt ?bk rid b = Inr b'" for rid
  proof -
    obtain v' where c: "call_preempt rcfg lenv rid (snd b) = Inr v'" and b': "b' = (fst b, v')"
      using p by (auto simp: node_transfer_ops map_sum_Inr service_ops_def)
    note P = call_preempt_fences[OF o(2) c]
    have k: "receives_calm (snd b) v'" using calm_moved_from P by blast
    have "\<not> dict_has (rv_recv_events (tv_receiver v')) rid"
    proof (cases "tv_consumer (snd b)")
      case False
      then have "tv_receiver v' = new_receiver" using o(3) P by (simp add: receiver_ok_def moved_from_def)
      then show ?thesis by (simp add: new_receiver_def dict_simps)
    qed (use P in simp)
    then show ?thesis using calm_pair[OF ok _ k] P by (simp add: b' kept_receive_def)
  qed
qed

lemma process_run_steady: "process_run cd pcfg reg rcfg wb \<Longrightarrow> received.steady cd pcfg rcfg wb"
proof (induction rule: process_run.induct)
  case (process_start st v rank)
  have "process_run cd pcfg reg rcfg (new_worker rank, st, v)" by (rule process_run.process_start[OF process_start])
  from process.trackedD(1)[OF process_run_ok[OF this]] show ?case using process_start
    unfolding received.steady_def
    by (simp add: receive_ok_def receiver_ok_def kept_receive_def new_worker_def keyed_def dict_simps pd.wf_empty)
      (simp add: new_receiver_def dict_simps)
next
  case (process_preempt wb lenv env md wb')
  then show ?case by (blast intro: received.steady_preempt)
next
  case (process_finished wb lenv env now event md fins wb')
  then show ?case by (blast intro: received.steady_get_finished)
qed (simp_all add: received.steady_def in_transfer_def get_block_ids_with_load_errors_def build_connector_worker_meta_def)

text \<open>
  C10: a request is handed back to the engine when its blocks are settled. Whatever the calls, threads, loops and
  peers did before, when \<open>get_finished\<close> reports a request as received, no producer has it open and can write
  its blocks any more, nor will any answer that is still on its way; and if the request was loaded from the
  Store alone, no load task of it is left, queued or running.
\<close>

theorem received_blocks_settled:
  assumes "process_run cd pcfg reg rcfg (w, b)"
    and "get_finished (node_backend cd pcfg reg (service_ops rcfg lenv) env) cd now event md (w, b) = Inr ((sent, Some rids), w', st', v')"
    and "rid \<in> rids"
  shows "unasked (tv_receiver v') rid \<and> no_writer (tv_receiver v') rid \<and>
    (\<not> dict_has (wk_on_transfer w) rid \<and> rid \<notin> tp_request_id ` set (md_transfer_plans md) \<longrightarrow>
     (\<forall>f. active (cp_load_pool st') f \<longrightarrow> le_request_id (task_of (cp_load_pool st') f) \<noteq> rid))"
proof -
  have s: "received.steady cd pcfg rcfg (w, b)" by (rule process_run_steady[OF assms(1)])
  note R = received.received_undisturbed[OF s assms(2,3)]
  have "received.steady cd pcfg rcfg (w', st', v')" by (rule received.steady_get_finished[OF s assms(2)])
  then have reach: "pool_reachable cd pcfg st'" unfolding received.steady_def by (simp add: receive_ok_def process_ok_def node_ok_def)
  have "le_request_id (task_of (cp_load_pool st') f) \<noteq> rid" if "\<not> loading_in (st', v') rid" "active (cp_load_pool st') f" for f
    using pool_tasks_owned_lemma(1)[OF reach that(2)] that(1) by (auto simp: loading_in_def dict_has_def)
  then show ?thesis using R unaskedD(1) by (auto simp: written_to_def)
qed

text \<open>A request whose blocks two producer ranks write, from its plan to its report.\<close>

definition er_md :: "bool \<Rightarrow> MTSCConnectorMetadata" where
  "er_md first = \<lparr>md_pool_loads = [], md_pool_saves = [],
     md_transfer_plans = (if first then [ex_plan\<lparr>tp_request_id := ''r'', tp_transfer_id := ''t'', tp_pool_hit_tokens := 0\<rparr>] else []),
     md_transfer_states = [], md_finished_waits = [], md_finished_request_ids = [], md_preempted_request_ids = []\<rparr>"

definition er_moves :: "loop_event list" where
  "er_moves = map At_Receiver [Query_Run 0, Query_Reply 0 (Inr [Inr (''e'', ex_workers)]), Pull_Send 0, Pull_Send 1,
     Pull_Response 1 (ex_response [''r'']), Pull_Response 0 (ex_response [''r''])]"

definition er_step where
  "er_step moves first = get_finished (node_backend cdiv_ref ex_pool_cfg (\<lambda>st. (st, Inr ())) (service_ops ep_cfg (ep_env (\<lambda>_. moves))) (en_env []))
     cdiv_ref 3 7 (er_md first)"

text \<open>A registered consumer.\<close>

definition er_service :: service where
  "er_service = \<lparr>tv_producer = False, tv_consumer = True, tv_timeout = 30, tv_block_size = 16, tv_sender_tasks = 8, tv_hostname = ''d'',
     tv_identity = \<lparr>wg_engine_id = ''D'', wg_dp_rank = 0, wg_tp_rank = 0, wg_pp_rank = 0, wg_addr = []\<rparr>, tv_sender = new_sender,
     tv_receiver = new_receiver, tv_kv_caches = [], tv_num_blocks = 8, tv_base_addr = [4096], tv_block_len = [64], tv_storage = [4096],
     tv_unregistered = [], tv_listener = No_Listener, tv_bootstrap = False, tv_running = True, tv_registered = True, tv_closed = False\<rparr>"

definition er_start :: "worker \<times> cache_pool \<times> service" where
  "er_start = (new_worker 0, ex_p0, er_service)"

text \<open>The plan is handed over, one rank is asked, then the other is and both answer.\<close>

definition er_a where "er_a = projr (er_step [] True er_start)"
definition er_b where "er_b = projr (er_step (take 3 er_moves) False (snd er_a))"
definition er_c where "er_c = projr (er_step (drop 3 er_moves) False (snd er_b))"

lemma received_blocks_settled_witness:
  "snd (fst er_c) = Some {''r''} \<and> \<not> no_writer (tv_receiver (snd (snd (snd er_b)))) ''r'' \<and>
    no_writer (tv_receiver (snd (snd (snd er_c)))) ''r''"
proof -
  have p0: "pool_reachable cdiv_ref ex_pool_cfg ex_p0" unfolding ex_p0_def
    by (rule pool_next[OF pool_start step_register]) (simp_all add: new_cache_pool_def)
  have start: "process_run cdiv_ref ex_pool_cfg (\<lambda>st. (st, Inr ())) ep_cfg er_start"
    unfolding er_start_def by (rule process_start[OF p0]) code_simp+
  have n: "\<not> isl (er_step [] True er_start)" "\<not> isl (er_step (take 3 er_moves) False (snd er_a))"
    "\<not> isl (er_step (drop 3 er_moves) False (snd er_b))" by code_simp+
  have f: "snd (fst er_c) = Some {''r''}" "\<not> no_writer (tv_receiver (snd (snd (snd er_b)))) ''r''" by code_simp+
  have e: "er_step [] True er_start = Inr (fst er_a, snd er_a)" "er_step (take 3 er_moves) False (snd er_a) = Inr (fst er_b, snd er_b)"
    "er_step (drop 3 er_moves) False (snd er_b) = Inr (fst er_c, snd er_c)"
    using n unfolding er_a_def er_b_def er_c_def by simp_all
  have run: "process_run cdiv_ref ex_pool_cfg (\<lambda>st. (st, Inr ())) ep_cfg (fst (snd er_b), snd (snd er_b))"
    using process_finished[OF process_finished[OF start e(1)[unfolded er_step_def]] e(2)[unfolded er_step_def]] by simp
  have "(er_step (drop 3 er_moves) False (fst (snd er_b), snd (snd er_b))) =
      Inr ((fst (fst er_c), Some {''r''}), fst (snd er_c), fst (snd (snd er_c)), snd (snd (snd er_c)))"
    using e(3) by (simp add: f(1)[symmetric])
  from received_blocks_settled[OF run this[unfolded er_step_def]] f show ?thesis by simp
qed

end
